(* ===== verification/Prelude.thy ===== *)
theory Prelude
  imports Main "HOL-Library.Word"
begin

text \<open>
  The prelude of the development: the names of the machine types the code uses, the
  collections of rewrite rules the component theories fill, and the generic facts on
  lists, words and numbers that several components share.
\<close>

unbundle bit_operations_syntax

type_synonym byte = "8 word"
type_synonym uint32 = "32 word"
type_synonym uint64 = "64 word"

text \<open>A byte string: a \<open>std::vector<unsigned char>\<close> of the code.\<close>

type_synonym bytes = "byte list"

section \<open>Collections\<close>

named_theorems limb_simps \<open>values of the limb operations\<close>

named_theorems wf_intros \<open>well-formedness of the results of operations\<close>

section \<open>Numbers\<close>

lemma mod_mult_two_parts:
  fixes a b m n :: nat
  assumes "a < m"
  shows "(a + m * b) mod (m * n) = a + m * (b mod n)"
proof (cases "n = 0")
  case False
  have "(a + m * b) mod (m * n) = m * ((a + m * b) div m mod n) + (a + m * b) mod m"
    by (rule mod_mult2_eq)
  with assms show ?thesis by simp
qed simp

lemma div_mult_two_parts:
  fixes a b m :: nat
  assumes "a < m"
  shows "(a + m * b) div m = b" "(a + m * b) mod m = a"
  using assms by auto

lemma nat_less_mult_parts:
  fixes a b m n :: nat
  assumes "a < m" "b < n"
  shows "a + m * b < m * n"
proof -
  have "a + m * b < m * (Suc b)" using assms by simp
  also have "\<dots> \<le> m * n" using assms by (simp only: mult_le_cancel1) simp
  finally show ?thesis .
qed

section \<open>Words\<close>

lemma unat_less_32 [simp]: "unat (x :: uint32) < 4294967296"
  using unsigned_less [of x] by simp

lemma unat_less_8 [simp]: "unat (x :: byte) < 256"
  using unsigned_less [of x] by simp

lemma unat_less_64 [simp]: "unat (x :: uint64) < 18446744073709551616"
  using unsigned_less [of x] by simp

lemma unat_ucast_32_64 [simp]: "unat (ucast (x :: uint32) :: uint64) = unat x"
  by (simp add: unsigned_ucast_eq take_bit_nat_eq_self_iff less_trans [OF unat_less_32])

lemma unat_low_limb: "unat (ucast (n AND 0xffffffff :: uint64) :: uint32) = unat n mod 4294967296"
proof -
  have m: "(0xffffffff :: uint64) = mask 32" by (simp add: mask_eq_exp_minus_1)
  have "ucast (n AND mask 32 :: uint64) = (ucast (take_bit 32 n) :: uint32)"
    by (simp only: take_bit_eq_mask)
  moreover have "unat (ucast (take_bit 32 n) :: uint32) = take_bit 32 (take_bit 32 (unat n))"
    by (simp only: unsigned_ucast_eq unsigned_take_bit_eq) simp
  ultimately show ?thesis by (simp only: m) (simp add: take_bit_eq_mod)
qed

lemma unat_high_limb: "unat (drop_bit 32 n :: uint64) = unat n div 4294967296"
proof -
  have "unat (drop_bit 32 n) = drop_bit 32 (take_bit 64 (unat n))"
    by (simp only: unsigned_drop_bit_eq) simp
  also have "take_bit 64 (unat n) = unat n"
    using unat_less_64 [of n] by (simp add: take_bit_nat_eq_self)
  finally show ?thesis by (simp add: drop_bit_eq_div)
qed

lemma unat_drop_bit: "unat (drop_bit n (w :: 'a::len word)) = unat w div 2 ^ n"
proof -
  have "unat w < 2 ^ LENGTH('a)" by (rule unsigned_less)
  then have "take_bit LENGTH('a) (unat w) = unat w" by (simp add: take_bit_nat_eq_self)
  then have "unat (drop_bit n w) = drop_bit n (unat w)" by (simp only: unsigned_drop_bit_eq)
  then show ?thesis by (simp add: drop_bit_eq_div)
qed

lemma unat_and_mask: "unat ((w :: 'a::len word) AND mask n) = unat w mod 2 ^ n"
proof -
  have "unat (take_bit n w) = take_bit n (unat w)" by (rule unsigned_take_bit_eq)
  then show ?thesis by (simp only: take_bit_eq_mask [symmetric]) (simp only: take_bit_eq_mod)
qed

lemma bit_unat: "bit (w :: 'a::len word) n \<longleftrightarrow> odd (unat w div 2 ^ n)"
  using bit_imp_le_length [of w n] by (auto simp: bit_iff_odd [symmetric] bit_unsigned_iff)

lemma unat_push_bit_small:
  "unat (w :: 'a::len word) * 2 ^ n < 2 ^ LENGTH('a) \<Longrightarrow> unat (push_bit n w) = unat w * 2 ^ n"
  by (simp only: unsigned_push_bit_eq) (simp add: take_bit_nat_eq_self push_bit_eq_mult)

lemma unat_or_disjoint:
  "unat (a :: 'a::len word) < 2 ^ n \<Longrightarrow> 2 ^ n dvd unat b \<Longrightarrow> unat (a OR b) = unat a + unat b"
proof -
  assume a: "unat a < 2 ^ n" and b: "2 ^ n dvd unat b"
  have "\<not> bit (unat a) i" if "n \<le> i" for i
    using a that by (metis bit_take_bit_iff take_bit_nat_eq_self leD)
  moreover have "\<not> bit (unat b) i" if "i < n" for i
  proof -
    from b obtain k where "unat b = push_bit n k" by (auto simp: push_bit_eq_mult mult.commute elim: dvdE)
    with that show ?thesis by (simp add: bit_push_bit_iff)
  qed
  ultimately have "\<not> bit (unat a AND unat b) i" for i
    by (cases "i < n") (simp_all add: bit_and_iff)
  then have "unat a AND unat b = 0"
    by (intro bit_eqI) simp
  then show ?thesis by (simp only: unsigned_or_eq disjunctive_add_eq_or)
qed

section \<open>Lists\<close>

lemma list_all_nth_set: "list_all P xs \<longleftrightarrow> (\<forall>i < length xs. P (xs ! i))"
  by (simp add: list_all_length)

end
