(* ===== verification/Uint256.thy ===== *)
theory Uint256
  imports Prelude
begin

text \<open>
  \<open>src/src/uint256.h\<close> and \<open>src/src/uint256.cpp\<close>: the template class \<open>base_uint<BITS>\<close>,
  an unsigned integer in \<open>WIDTH = BITS / 32\<close> little-endian 32-bit limbs. The array
  \<open>pn\<close> is the list of its limbs, \<open>WIDTH\<close> the length of the list; \<open>uint160\<close>, \<open>uint256\<close>
  and \<open>uint512\<close> are the lists of length 5, 8 and 16. The operations are the code's loops
  over the limbs, with the 64-bit intermediate values wrapping as \<open>uint64_t\<close> does.
\<close>

type_synonym base_uint = "uint32 list"

text \<open>The number a list of limbs stands for: the abstraction function of the refinement.\<close>

fun bu_val :: "base_uint \<Rightarrow> nat" where
  "bu_val [] = 0"
| "bu_val (x # xs) = unat x + 4294967296 * bu_val xs"

section \<open>Construction and bitwise operations\<close>

definition bu_null :: "nat \<Rightarrow> base_uint" where
  "bu_null WIDTH = replicate WIDTH 0"

definition bu_of_uint64 :: "nat \<Rightarrow> uint64 \<Rightarrow> base_uint" where
  "bu_of_uint64 WIDTH b = ucast b # ucast (drop_bit 32 b) # replicate (WIDTH - 2) 0"

fun bu_IsNull :: "base_uint \<Rightarrow> bool" where
  "bu_IsNull [] = True"
| "bu_IsNull (x # xs) = (if x \<noteq> 0 then False else bu_IsNull xs)"

definition bu_not :: "base_uint \<Rightarrow> base_uint" where
  "bu_not pn = map (\<lambda>x. NOT x) pn"

definition bu_xor :: "base_uint \<Rightarrow> base_uint \<Rightarrow> base_uint" where
  "bu_xor pn b = map2 (\<lambda>x y. x XOR y) pn b"

definition bu_and :: "base_uint \<Rightarrow> base_uint \<Rightarrow> base_uint" where
  "bu_and pn b = map2 (\<lambda>x y. x AND y) pn b"

definition bu_or :: "base_uint \<Rightarrow> base_uint \<Rightarrow> base_uint" where
  "bu_or pn b = map2 (\<lambda>x y. x OR y) pn b"

section \<open>Addition, negation, subtraction\<close>

text \<open>The loop of \<open>operator+=\<close>: \<open>n = carry + pn[i] + b.pn[i]\<close> in 64 bits.\<close>

fun bu_add_loop :: "uint64 \<Rightarrow> base_uint \<Rightarrow> base_uint \<Rightarrow> base_uint" where
  "bu_add_loop carry (x # xs) (y # ys) =
     (let n = carry + ucast x + ucast y
      in ucast (n AND 0xffffffff) # bu_add_loop (drop_bit 32 n) xs ys)"
| "bu_add_loop carry xs ys = []"

definition bu_add :: "base_uint \<Rightarrow> base_uint \<Rightarrow> base_uint" where
  "bu_add pn b = bu_add_loop 0 pn b"

text \<open>Prefix \<open>operator++\<close>: stop at the first limb that does not wrap to 0.\<close>

fun bu_inc :: "base_uint \<Rightarrow> base_uint" where
  "bu_inc [] = []"
| "bu_inc (x # xs) = (if x + 1 = 0 \<and> xs \<noteq> [] then (x + 1) # bu_inc xs else (x + 1) # xs)"

text \<open>Prefix \<open>operator--\<close>: stop at the first limb that does not wrap to \<open>(uint32_t)-1\<close>.\<close>

fun bu_dec :: "base_uint \<Rightarrow> base_uint" where
  "bu_dec [] = []"
| "bu_dec (x # xs) = (if x - 1 = - 1 \<and> xs \<noteq> [] then (x - 1) # bu_dec xs else (x - 1) # xs)"

definition bu_neg :: "base_uint \<Rightarrow> base_uint" where
  "bu_neg pn = bu_inc (map (\<lambda>x. NOT x) pn)"

definition bu_sub :: "base_uint \<Rightarrow> base_uint \<Rightarrow> base_uint" where
  "bu_sub pn b = bu_add pn (bu_neg b)"

section \<open>Multiplication\<close>

fun bu_mul32_loop :: "uint64 \<Rightarrow> uint32 \<Rightarrow> base_uint \<Rightarrow> base_uint" where
  "bu_mul32_loop carry b32 [] = []"
| "bu_mul32_loop carry b32 (x # xs) =
     (let n = carry + ucast b32 * ucast x
      in ucast (n AND 0xffffffff) # bu_mul32_loop (drop_bit 32 n) b32 xs)"

definition bu_mul32 :: "base_uint \<Rightarrow> uint32 \<Rightarrow> base_uint" where
  "bu_mul32 pn b32 = bu_mul32_loop 0 b32 pn"

text \<open>
  The inner loop of \<open>operator*=\<close> over \<open>i\<close> works on \<open>pn[j ..]\<close>; it ends at \<open>i + j = WIDTH\<close>,
  where that suffix ends. The outer loop over \<open>j\<close> then leaves \<open>pn[j]\<close> alone for good.
\<close>

fun bu_mul_row :: "uint64 \<Rightarrow> uint32 \<Rightarrow> base_uint \<Rightarrow> base_uint \<Rightarrow> base_uint" where
  "bu_mul_row carry aj (p # ps) (b # bs) =
     (let n = carry + ucast p + ucast aj * ucast b
      in ucast (n AND 0xffffffff) # bu_mul_row (drop_bit 32 n) aj ps bs)"
| "bu_mul_row carry aj ps bs = ps"

fun bu_mul_loop :: "base_uint \<Rightarrow> base_uint \<Rightarrow> base_uint \<Rightarrow> base_uint" where
  "bu_mul_loop [] pn b = pn"
| "bu_mul_loop (aj # as) pn b =
     (case bu_mul_row 0 aj pn b of [] \<Rightarrow> [] | p # ps \<Rightarrow> p # bu_mul_loop as ps b)"

definition bu_mul :: "base_uint \<Rightarrow> base_uint \<Rightarrow> base_uint" where
  "bu_mul a b = bu_mul_loop a (bu_null (length a)) b"

section \<open>Comparison\<close>

text \<open>\<open>CompareTo\<close> runs from the top limb down.\<close>

fun bu_cmp_loop :: "base_uint \<Rightarrow> base_uint \<Rightarrow> int" where
  "bu_cmp_loop (x # xs) (y # ys) =
     (if x < y then -1 else if y < x then 1 else bu_cmp_loop xs ys)"
| "bu_cmp_loop xs ys = 0"

definition bu_CompareTo :: "base_uint \<Rightarrow> base_uint \<Rightarrow> int" where
  "bu_CompareTo pn b = bu_cmp_loop (rev pn) (rev b)"

fun bu_EqualTo :: "base_uint \<Rightarrow> uint64 \<Rightarrow> bool" where
  "bu_EqualTo (p0 # p1 # ps) b =
     (if \<exists>x \<in> set ps. x \<noteq> 0 then False
      else if ucast p1 \<noteq> drop_bit 32 b then False
      else if ucast p0 \<noteq> b AND 0xffffffff then False
      else True)"
| "bu_EqualTo pn b = False"

section \<open>Shifts\<close>

text \<open>
  One round of the loop of \<open>operator<<=\<close> (\<open>a\<close> the copy of the old limbs, \<open>k = shift / 32\<close>,
  \<open>s = shift % 32\<close>), and the loop itself over \<open>i\<close> from 0 on a zeroed \<open>pn\<close>.
\<close>

definition bu_shl_step :: "base_uint \<Rightarrow> nat \<Rightarrow> nat \<Rightarrow> nat \<Rightarrow> base_uint \<Rightarrow> base_uint" where
  "bu_shl_step a k s i pn =
     (let pn1 = (if i + k + 1 < length a \<and> s \<noteq> 0
                 then pn[i + k + 1 := (pn ! (i + k + 1)) OR drop_bit (32 - s) (a ! i)] else pn)
      in if i + k < length a then pn1[i + k := (pn1 ! (i + k)) OR push_bit s (a ! i)] else pn1)"

definition bu_shl :: "base_uint \<Rightarrow> nat \<Rightarrow> base_uint" where
  "bu_shl a shift =
     fold (bu_shl_step a (shift div 32) (shift mod 32)) [0..<length a] (replicate (length a) 0)"

text \<open>The same for \<open>operator>>=\<close>; \<open>i - k - 1 >= 0\<close> on \<open>int\<close>s is \<open>k + 1 \<le> i\<close>.\<close>

definition bu_shr_step :: "base_uint \<Rightarrow> nat \<Rightarrow> nat \<Rightarrow> nat \<Rightarrow> base_uint \<Rightarrow> base_uint" where
  "bu_shr_step a k s i pn =
     (let pn1 = (if k + 1 \<le> i \<and> s \<noteq> 0
                 then pn[i - k - 1 := (pn ! (i - k - 1)) OR push_bit (32 - s) (a ! i)] else pn)
      in if k \<le> i then pn1[i - k := (pn1 ! (i - k)) OR drop_bit s (a ! i)] else pn1)"

definition bu_shr :: "base_uint \<Rightarrow> nat \<Rightarrow> base_uint" where
  "bu_shr a shift =
     fold (bu_shr_step a (shift div 32) (shift mod 32)) [0..<length a] (replicate (length a) 0)"

section \<open>Bit length and division\<close>

text \<open>The inner loop of \<open>bits()\<close>: the highest set bit of a nonzero limb, from bit 31 down to 1.\<close>

fun bu_bits_limb :: "nat \<Rightarrow> uint32 \<Rightarrow> nat" where
  "bu_bits_limb 0 x = 1"
| "bu_bits_limb (Suc b) x =
     (if x AND push_bit (Suc b) 1 \<noteq> 0 then Suc b + 1 else bu_bits_limb b x)"

fun bu_bits_loop :: "nat \<Rightarrow> base_uint \<Rightarrow> nat" where
  "bu_bits_loop 0 pn = 0"
| "bu_bits_loop (Suc pos) pn =
     (if pn ! pos \<noteq> 0 then 32 * pos + bu_bits_limb 31 (pn ! pos) else bu_bits_loop pos pn)"

definition bu_bits :: "base_uint \<Rightarrow> nat" where
  "bu_bits pn = bu_bits_loop (length pn) pn"

datatype uint_error = DivisionByZero | WrongVectorSize

text \<open>
  The \<open>while (shift >= 0)\<close> loop of \<open>operator/=\<close>; the first argument is \<open>shift + 1\<close>. It
  returns the quotient and what is left in \<open>num\<close>, the remainder.
\<close>

fun bu_div_loop :: "nat \<Rightarrow> base_uint \<Rightarrow> base_uint \<Rightarrow> base_uint \<Rightarrow> base_uint \<times> base_uint" where
  "bu_div_loop 0 num dv pn = (pn, num)"
| "bu_div_loop (Suc shift) num dv pn =
     (if 0 \<le> bu_CompareTo num dv
      then bu_div_loop shift (bu_sub num dv) (bu_shr dv 1)
             (pn[shift div 32 := (pn ! (shift div 32)) OR push_bit (shift mod 32) 1])
      else bu_div_loop shift num (bu_shr dv 1) pn)"

definition bu_div :: "base_uint \<Rightarrow> base_uint \<Rightarrow> uint_error + base_uint" where
  "bu_div num b =
     (let num_bits = bu_bits num; div_bits = bu_bits b in
      if div_bits = 0 then Inl DivisionByZero
      else if num_bits < div_bits then Inr (bu_null (length num))
      else let shift = num_bits - div_bits
           in Inr (fst (bu_div_loop (Suc shift) num (bu_shl b shift) (bu_null (length num)))))"

section \<open>The low 64 bits, the bytes and the hexadecimal form\<close>

definition bu_GetLow64 :: "base_uint \<Rightarrow> uint64" where
  "bu_GetLow64 pn = ucast (pn ! 0) OR push_bit 32 (ucast (pn ! 1))"

text \<open>The memory of a limb on a little-endian machine, as \<open>begin()\<close> to \<open>end()\<close> give it.\<close>

definition limb_bytes :: "uint32 \<Rightarrow> bytes" where
  "limb_bytes x = [ucast x, ucast (drop_bit 8 x), ucast (drop_bit 16 x), ucast (drop_bit 24 x)]"

definition bu_bytes :: "base_uint \<Rightarrow> bytes" where
  "bu_bytes pn = concat (map limb_bytes pn)"

fun limbs_of_bytes :: "bytes \<Rightarrow> base_uint" where
  "limbs_of_bytes (b0 # b1 # b2 # b3 # bs) =
     (ucast b0 OR push_bit 8 (ucast b1) OR push_bit 16 (ucast b2) OR push_bit 24 (ucast b3))
       # limbs_of_bytes bs"
| "limbs_of_bytes bs = []"

definition bu_of_vector :: "nat \<Rightarrow> bytes \<Rightarrow> uint_error + base_uint" where
  "bu_of_vector WIDTH vch =
     (if length vch \<noteq> 4 * WIDTH then Inl WrongVectorSize else Inr (limbs_of_bytes vch))"

section \<open>Values: the arithmetic operations compute modulo \<open>2 ^ (32 * WIDTH)\<close>\<close>

lemma pow32_Suc: "(2::nat) ^ (32 * Suc n) = 4294967296 * 2 ^ (32 * n)"
  by (simp add: power_add)

lemma bu_val_bound: "bu_val xs < 2 ^ (32 * length xs)"
proof (induction xs)
  case (Cons x xs)
  then show ?case
    using nat_less_mult_parts [OF unat_less_32 [of x] Cons.IH] by (simp add: power_add)
qed simp

lemma bu_val_append: "bu_val (xs @ ys) = bu_val xs + 2 ^ (32 * length xs) * bu_val ys"
  by (induction xs) (simp_all add: power_add algebra_simps)

lemma bu_val_inj: "length xs = length ys \<Longrightarrow> bu_val xs = bu_val ys \<longleftrightarrow> xs = ys"
proof (induction xs ys rule: list_induct2)
  case (Cons x xs y ys)
  have "unat x = unat y \<and> bu_val xs = bu_val ys" if "bu_val (x # xs) = bu_val (y # ys)"
    using that div_mult_two_parts [OF unat_less_32 [of x], of "bu_val xs"]
      div_mult_two_parts [OF unat_less_32 [of y], of "bu_val ys"] by (simp only: bu_val.simps)
  with Cons.IH have "bu_val (x # xs) = bu_val (y # ys) \<Longrightarrow> x # xs = y # ys"
    using unsigned_word_eqI [of x y] by blast
  then show ?case by blast
qed simp

lemma bu_val_replicate_0 [simp]: "bu_val (replicate n 0) = 0"
  by (induction n) simp_all

text \<open>One digit of a carry loop: the low half is kept, the high half is carried.\<close>

lemma bu_digit_step:
  fixes n :: uint64
  assumes "bu_val rest = (unat (drop_bit 32 n) + v) mod m"
  shows "bu_val (ucast (n AND 0xffffffff) # rest) = (unat n + 4294967296 * v) mod (4294967296 * m)"
proof -
  let ?q = "unat n div 4294967296" and ?r = "unat n mod 4294967296"
  have "bu_val (ucast (n AND 0xffffffff) # rest) = ?r + 4294967296 * ((?q + v) mod m)"
    using assms by (simp add: unat_low_limb unat_high_limb)
  also have "\<dots> = (?r + 4294967296 * (?q + v)) mod (4294967296 * m)"
    by (rule mod_mult_two_parts [symmetric]) simp
  also have "?r + 4294967296 * (?q + v) = unat n + 4294967296 * v"
    by (simp add: algebra_simps)
  finally show ?thesis .
qed

lemma unat_add_64: "unat a + unat b < 18446744073709551616 \<Longrightarrow> unat (a + b :: uint64) = unat a + unat b"
  by (simp add: unat_word_ariths)

lemma unat_mult_64: "unat a * unat b < 18446744073709551616 \<Longrightarrow> unat (a * b :: uint64) = unat a * unat b"
  by (simp add: unat_word_ariths)

lemma unat_high_less: "unat (drop_bit 32 n :: uint64) < 4294967296"
  using unat_less_64 [of n] by (simp add: unat_high_limb less_mult_imp_div_less)

lemma limb_prod_bound:
  "c < 4294967296 \<Longrightarrow> p < 4294967296 \<Longrightarrow>
   c + p + unat (a :: uint32) * unat (b :: uint32) < 18446744073709551616"
proof -
  assume c: "c < (4294967296::nat)" "p < 4294967296"
  have "unat a * unat b \<le> 4294967295 * 4294967295"
    using unat_less_32 [of a] unat_less_32 [of b] by (intro mult_le_mono) linarith+
  with c show ?thesis by simp
qed

lemma unat_mul_acc:
  fixes c :: uint64 and p a b :: uint32
  assumes "unat c < 4294967296"
  shows "unat (c + ucast p + ucast a * ucast b) = unat c + unat p + unat a * unat b"
proof -
  have *: "unat c + unat p + unat a * unat b < 18446744073709551616"
    using assms by (rule limb_prod_bound) simp
  then have "unat (ucast a * ucast b :: uint64) = unat a * unat b"
    by (simp add: unat_mult_64)
  moreover from * have "unat (c + ucast p) = unat c + unat p"
    by (simp add: unat_add_64)
  ultimately show ?thesis using * by (simp add: unat_add_64)
qed

lemma length_bu_add_loop [simp]:
  "length xs = length ys \<Longrightarrow> length (bu_add_loop c xs ys) = length xs"
  by (induction c xs ys rule: bu_add_loop.induct) (auto simp: Let_def)

lemma bu_val_add_loop:
  "length xs = length ys \<Longrightarrow> unat c < 4294967296 \<Longrightarrow>
   bu_val (bu_add_loop c xs ys) = (unat c + bu_val xs + bu_val ys) mod 2 ^ (32 * length xs)"
proof (induction c xs ys rule: bu_add_loop.induct)
  case (1 c x xs y ys)
  let ?n = "c + ucast x + ucast y"
  have n: "unat ?n = unat c + unat x + unat y"
    using unat_mul_acc [OF "1.prems"(2), of x y 1] "1.prems"(2) by simp
  have "bu_val (bu_add_loop (drop_bit 32 ?n) xs ys)
      = (unat (drop_bit 32 ?n) + (bu_val xs + bu_val ys)) mod 2 ^ (32 * length xs)"
    using "1.IH" [OF refl] "1.prems" unat_high_less by (simp add: add.assoc)
  from bu_digit_step [OF this] show ?case
    by (simp only: bu_add_loop.simps Let_def list.size add_0_right pow32_Suc n One_nat_def add_Suc_right)
      (simp add: algebra_simps)
qed (auto simp: neq_Nil_conv)

lemma length_bu_add [simp]: "length a = length b \<Longrightarrow> length (bu_add a b) = length a"
  by (simp add: bu_add_def)

lemma bu_val_add [limb_simps]:
  "length a = length b \<Longrightarrow> bu_val (bu_add a b) = (bu_val a + bu_val b) mod 2 ^ (32 * length a)"
  by (simp add: bu_add_def bu_val_add_loop)

lemma length_bu_inc [simp]: "length (bu_inc xs) = length xs"
  by (induction xs) auto

lemma unat_plus_1_32: "unat (x + 1 :: uint32) = (if x + 1 = 0 then 0 else unat x + 1)"
proof (cases "x + 1 = 0")
  case False
  then show ?thesis using unatSuc [of x] by (simp add: add.commute)
qed simp

lemma unat_minus_1_32: "unat (- 1 :: uint32) = 4294967295"
  by (simp add: unsigned_minus_1_eq_mask mask_eq_exp_minus_1)

lemma unat_max_32: "x + 1 = 0 \<longleftrightarrow> unat (x :: uint32) = 4294967295"
proof -
  have "x + 1 = 0 \<longleftrightarrow> x = - 1" by (metis add_eq_0_iff2)
  also have "\<dots> \<longleftrightarrow> unat x = unat (- 1 :: uint32)" by (auto intro: unsigned_word_eqI)
  finally show ?thesis by (simp only: unat_minus_1_32)
qed

lemma bu_val_inc [limb_simps]: "bu_val (bu_inc xs) = (bu_val xs + 1) mod 2 ^ (32 * length xs)"
proof (induction xs)
  case (Cons x xs)
  show ?case
  proof (cases "x + 1 = 0 \<and> xs \<noteq> []")
    case True
    then have "unat x = 4294967295" by (simp add: unat_max_32)
    then have eq: "bu_val (x # xs) + 1 = 4294967296 * (bu_val xs + 1)" by simp
    have "bu_val (bu_inc (x # xs)) = 4294967296 * ((bu_val xs + 1) mod 2 ^ (32 * length xs))"
      using True Cons.IH by simp
    also have "\<dots> = (bu_val (x # xs) + 1) mod (4294967296 * 2 ^ (32 * length xs))"
      by (simp only: eq mult_mod_right)
    finally show ?thesis by (simp only: list.size add_0_right One_nat_def add_Suc_right pow32_Suc)
  next
    case False
    show ?thesis
    proof (cases "x + 1 = 0")
      case True
      with False have "xs = []" by simp
      then show ?thesis using True unat_max_32 [of x] by simp
    next
      case F: False
      then have "bu_val (bu_inc (x # xs)) = bu_val (x # xs) + 1"
        by (simp add: unat_plus_1_32)
      moreover have "bu_val (bu_inc (x # xs)) < 2 ^ (32 * length (x # xs))"
        using bu_val_bound [of "bu_inc (x # xs)"] by (simp only: length_bu_inc)
      ultimately show ?thesis by simp
    qed
  qed
qed simp

lemma unat_not_32: "unat (NOT x :: uint32) + unat x = 4294967295"
proof -
  have "NOT x = - 1 - x" by (simp add: not_eq_complement)
  moreover have "unat x \<le> unat (- 1 :: uint32)" using unat_less_32 [of x] by (simp only: unat_minus_1_32)
  then have "x \<le> - 1" by (simp only: word_le_nat_alt)
  then have "unat (- 1 - x) = unat (- 1 :: uint32) - unat x" by (rule unat_sub)
  ultimately show ?thesis using unat_less_32 [of x] by (simp only: unat_minus_1_32)
qed

lemma length_bu_not [simp]: "length (bu_not xs) = length xs"
  by (simp add: bu_not_def)

lemma bu_val_not_add: "bu_val (bu_not xs) + bu_val xs + 1 = 2 ^ (32 * length xs)"
proof (induction xs)
  case (Cons x xs)
  then show ?case
    using unat_not_32 [of x] by (simp add: bu_not_def power_add)
qed (simp add: bu_not_def)

lemma bu_val_not [limb_simps]: "bu_val (bu_not xs) = 2 ^ (32 * length xs) - 1 - bu_val xs"
  using bu_val_not_add [of xs] by simp

lemma bu_neg_def': "bu_neg xs = bu_inc (bu_not xs)"
  by (simp add: bu_neg_def bu_not_def)

lemma length_bu_neg [simp]: "length (bu_neg xs) = length xs"
  by (simp add: bu_neg_def')

lemma bu_val_neg [limb_simps]:
  "bu_val (bu_neg xs) = (2 ^ (32 * length xs) - bu_val xs) mod 2 ^ (32 * length xs)"
proof -
  have "2 ^ (32 * length xs) - 1 - bu_val xs + 1 = 2 ^ (32 * length xs) - bu_val xs"
    using bu_val_bound [of xs] by simp
  then show ?thesis by (simp only: bu_neg_def' limb_simps length_bu_not)
qed

lemma length_bu_sub [simp]: "length a = length b \<Longrightarrow> length (bu_sub a b) = length a"
  by (simp add: bu_sub_def)

lemma bu_val_sub_mod:
  "length a = length b \<Longrightarrow>
   bu_val (bu_sub a b) = (bu_val a + (2 ^ (32 * length a) - bu_val b)) mod 2 ^ (32 * length a)"
  by (simp add: bu_sub_def limb_simps mod_simps)

lemma bu_val_sub [limb_simps]:
  assumes "length a = length b" "bu_val b \<le> bu_val a"
  shows "bu_val (bu_sub a b) = bu_val a - bu_val b"
proof -
  have "bu_val a + (2 ^ (32 * length a) - bu_val b) = bu_val a - bu_val b + 2 ^ (32 * length a)"
    using assms bu_val_bound [of b] by simp
  moreover have "bu_val a - bu_val b < 2 ^ (32 * length a)"
    using bu_val_bound [of a] by simp
  ultimately show ?thesis using assms(1) by (simp add: bu_val_sub_mod)
qed

lemma length_bu_mul32 [simp]: "length (bu_mul32_loop c b xs) = length xs"
  by (induction c b xs rule: bu_mul32_loop.induct) (simp_all add: Let_def)

lemma bu_val_mul32_loop:
  "unat c < 4294967296 \<Longrightarrow>
   bu_val (bu_mul32_loop c b xs) = (unat c + unat b * bu_val xs) mod 2 ^ (32 * length xs)"
proof (induction c b xs rule: bu_mul32_loop.induct)
  case (2 c b x xs)
  let ?n = "c + ucast b * ucast x"
  have n: "unat ?n = unat c + unat b * unat x"
    using unat_mul_acc [OF "2.prems", of 0 b x] by simp
  have "bu_val (bu_mul32_loop (drop_bit 32 ?n) b xs)
      = (unat (drop_bit 32 ?n) + unat b * bu_val xs) mod 2 ^ (32 * length xs)"
    using "2.IH" [OF refl] unat_high_less by simp
  from bu_digit_step [OF this] show ?case
    by (simp only: bu_mul32_loop.simps Let_def list.size add_0_right pow32_Suc n One_nat_def add_Suc_right)
      (simp add: algebra_simps)
qed simp

lemma bu_val_mul32 [limb_simps]:
  "bu_val (bu_mul32 xs b) = (bu_val xs * unat b) mod 2 ^ (32 * length xs)"
  by (simp add: bu_mul32_def bu_val_mul32_loop mult.commute)

lemma length_bu_mul_row [simp]: "length (bu_mul_row c a ps bs) = length ps"
  by (induction c a ps bs rule: bu_mul_row.induct) (simp_all add: Let_def)

lemma bu_val_mul_row:
  "length ps \<le> length bs \<Longrightarrow> unat c < 4294967296 \<Longrightarrow>
   bu_val (bu_mul_row c a ps bs) = (unat c + bu_val ps + unat a * bu_val bs) mod 2 ^ (32 * length ps)"
proof (induction c a ps bs rule: bu_mul_row.induct)
  case (1 c a p ps b bs)
  let ?n = "c + ucast p + ucast a * ucast b"
  have n: "unat ?n = unat c + unat p + unat a * unat b"
    using unat_mul_acc [OF "1.prems"(2)] by simp
  have "bu_val (bu_mul_row (drop_bit 32 ?n) a ps bs)
      = (unat (drop_bit 32 ?n) + (bu_val ps + unat a * bu_val bs)) mod 2 ^ (32 * length ps)"
    using "1.IH" [OF refl] "1.prems" unat_high_less by (simp add: add.assoc)
  from bu_digit_step [OF this] show ?case
    by (simp only: bu_mul_row.simps Let_def list.size add_0_right pow32_Suc n One_nat_def add_Suc_right)
      (simp add: algebra_simps)
qed simp_all

lemma length_bu_mul_loop [simp]: "length as = length pn \<Longrightarrow> length (bu_mul_loop as pn b) = length pn"
proof (induction as pn b rule: bu_mul_loop.induct)
  case (2 aj as pn b)
  show ?case
  proof (cases "bu_mul_row 0 aj pn b")
    case Nil
    then show ?thesis using length_bu_mul_row [of 0 aj pn b] by simp
  next
    case (Cons p ps)
    then show ?thesis using length_bu_mul_row [of 0 aj pn b] 2 by simp
  qed
qed simp

lemma bu_val_mul_loop:
  "length as = length pn \<Longrightarrow> length pn \<le> length b \<Longrightarrow>
   bu_val (bu_mul_loop as pn b) = (bu_val pn + bu_val as * bu_val b) mod 2 ^ (32 * length pn)"
proof (induction as pn b rule: bu_mul_loop.induct)
  case (1 pn b)
  then show ?case by simp
next
  case (2 aj as pn b)
  have row: "bu_val (bu_mul_row 0 aj pn b) = (bu_val pn + unat aj * bu_val b) mod 2 ^ (32 * length pn)"
    using bu_val_mul_row [of pn b 0 aj] "2.prems" by simp
  obtain p ps where pps: "bu_mul_row 0 aj pn b = p # ps" and len: "length pn = Suc (length ps)"
    using "2.prems"(1) length_bu_mul_row [of 0 aj pn b] by (cases "bu_mul_row 0 aj pn b") auto
  let ?M = "2 ^ (32 * length ps) :: nat" and ?v = "bu_val as * bu_val b"
  have "bu_val (bu_mul_loop as ps b) = (bu_val ps + ?v) mod ?M"
    using "2.IH" [OF pps] "2.prems" len by simp
  then have "bu_val (bu_mul_loop (aj # as) pn b) = unat p + 4294967296 * ((bu_val ps + ?v) mod ?M)"
    using pps by simp
  also have "\<dots> = (unat p + 4294967296 * (bu_val ps + ?v)) mod (4294967296 * ?M)"
    by (rule mod_mult_two_parts [symmetric]) simp
  also have "unat p + 4294967296 * (bu_val ps + ?v) = bu_val (p # ps) + 4294967296 * ?v"
    by (simp add: algebra_simps)
  also have "4294967296 * ?M = 2 ^ (32 * length pn)"
    by (simp only: len pow32_Suc)
  also have "bu_val (p # ps) = (bu_val pn + unat aj * bu_val b) mod 2 ^ (32 * length pn)"
    using row pps by simp
  finally show ?case by (simp add: mod_simps algebra_simps)
qed

lemma length_bu_mul [simp]: "length (bu_mul a b) = length a"
  by (simp add: bu_mul_def bu_null_def)

lemma bu_val_mul [limb_simps]:
  "length a = length b \<Longrightarrow> bu_val (bu_mul a b) = (bu_val a * bu_val b) mod 2 ^ (32 * length a)"
  by (simp add: bu_mul_def bu_null_def bu_val_mul_loop)

section \<open>Values: comparison\<close>

lemma bu_cmp_loop_rev:
  "length xs = length ys \<Longrightarrow>
   bu_cmp_loop (rev xs) (rev ys) = (if bu_val xs < bu_val ys then -1 else if bu_val ys < bu_val xs then 1 else 0)"
proof (induction xs arbitrary: ys rule: rev_induct)
  case (snoc x xs)
  then obtain y ys' where ys: "ys = ys' @ [y]" "length xs = length ys'"
    by (cases ys rule: rev_cases) auto
  let ?M = "2 ^ (32 * length xs) :: nat"
  have M: "bu_val xs < ?M" "bu_val ys' < ?M"
    using bu_val_bound [of xs] bu_val_bound [of ys'] ys(2) by simp_all
  have lt: "bu_val xs + ?M * a < bu_val ys' + ?M * b" if "a < b" for a b :: nat
  proof -
    have "bu_val xs + ?M * a < ?M * (a + 1)" using M by simp
    also have "\<dots> \<le> ?M * b" using that by (intro mult_le_mono) auto
    finally show ?thesis by simp
  qed
  have gt: "bu_val ys' + ?M * b < bu_val xs + ?M * a" if "b < a" for a b :: nat
  proof -
    have "bu_val ys' + ?M * b < ?M * (b + 1)" using M by simp
    also have "\<dots> \<le> ?M * a" using that by (intro mult_le_mono) auto
    finally show ?thesis by simp
  qed
  consider "x < y" | "y < x" | "x = y" by (rule linorder_cases)
  then show ?case
  proof cases
    case 1
    then have "bu_val (xs @ [x]) < bu_val (ys' @ [y])"
      using lt [of "unat x" "unat y"] ys by (simp add: bu_val_append word_less_nat_alt)
    with 1 ys show ?thesis by simp
  next
    case 2
    then have "bu_val (ys' @ [y]) < bu_val (xs @ [x])"
      using gt [of "unat y" "unat x"] ys by (simp add: bu_val_append word_less_nat_alt)
    with 2 ys show ?thesis by (simp add: not_less_iff_gr_or_eq)
  next
    case 3
    with ys snoc.IH [of ys'] show ?thesis by (simp add: bu_val_append)
  qed
qed simp

lemma bu_CompareTo_val:
  "length a = length b \<Longrightarrow>
   bu_CompareTo a b = (if bu_val a < bu_val b then -1 else if bu_val b < bu_val a then 1 else 0)"
  by (simp add: bu_CompareTo_def bu_cmp_loop_rev)

lemma bu_CompareTo_ge: "length a = length b \<Longrightarrow> 0 \<le> bu_CompareTo a b \<longleftrightarrow> bu_val b \<le> bu_val a"
  by (simp add: bu_CompareTo_val)

lemma bu_CompareTo_gt: "length a = length b \<Longrightarrow> 0 < bu_CompareTo a b \<longleftrightarrow> bu_val b < bu_val a"
  by (simp add: bu_CompareTo_val)

section \<open>Values: bits and shifts\<close>

lemma bit_add_parts:
  fixes a v :: nat
  assumes "a < 2 ^ k"
  shows "bit (a + 2 ^ k * v) n \<longleftrightarrow> (if n < k then bit a n else bit v (n - k))"
proof -
  have t: "take_bit k (a + 2 ^ k * v) = a" and d: "drop_bit k (a + 2 ^ k * v) = v"
    using div_mult_two_parts [OF assms, of v] by (simp_all add: take_bit_eq_mod drop_bit_eq_div)
  show ?thesis
  proof (cases "n < k")
    case True
    then have "bit (a + 2 ^ k * v) n \<longleftrightarrow> bit (take_bit k (a + 2 ^ k * v)) n"
      by (simp add: bit_take_bit_iff)
    with t True show ?thesis by simp
  next
    case False
    then have "bit (a + 2 ^ k * v) n \<longleftrightarrow> bit (drop_bit k (a + 2 ^ k * v)) (n - k)"
      by (simp add: bit_drop_bit_eq)
    with d False show ?thesis by simp
  qed
qed

lemma bit_bu_val:
  "bit (bu_val xs) n \<longleftrightarrow> n < 32 * length xs \<and> bit (xs ! (n div 32)) (n mod 32)"
proof (induction xs arbitrary: n)
  case (Cons x xs)
  have "bit (bu_val (x # xs)) n \<longleftrightarrow> (if n < 32 then bit (unat x) n else bit (bu_val xs) (n - 32))"
    using bit_add_parts [of "unat x" 32 "bu_val xs" n] by simp
  also have "\<dots> \<longleftrightarrow> n < 32 * length (x # xs) \<and> bit ((x # xs) ! (n div 32)) (n mod 32)"
  proof (cases "n < 32")
    case True
    then show ?thesis by (simp add: bit_unsigned_iff)
  next
    case False
    then obtain m where m: "n = 32 + m" using le_Suc_ex [of 32 n] by auto
    have "(32 + m) div 32 = Suc (m div 32)" by simp
    then show ?thesis using Cons.IH [of m] by (simp add: m)
  qed
  finally show ?case .
qed simp

lemma fold_shl_steps:
  assumes "m \<le> length a"
  shows "length (fold (bu_shl_step a k s) [0..<m] (replicate (length a) 0)) = length a \<and>
    (\<forall>j < length a. fold (bu_shl_step a k s) [0..<m] (replicate (length a) 0) ! j =
       (if k \<le> j \<and> j - k < m then push_bit s (a ! (j - k)) else 0) OR
       (if k + 1 \<le> j \<and> j - k - 1 < m \<and> s \<noteq> 0 then drop_bit (32 - s) (a ! (j - k - 1)) else 0))"
  using assms
proof (induction m)
  case (Suc m)
  let ?r = "fold (bu_shl_step a k s) [0..<m] (replicate (length a) 0)"
  from Suc have len: "length ?r = length a" and IH: "\<And>j. j < length a \<Longrightarrow> ?r ! j =
       (if k \<le> j \<and> j - k < m then push_bit s (a ! (j - k)) else 0) OR
       (if k + 1 \<le> j \<and> j - k - 1 < m \<and> s \<noteq> 0 then drop_bit (32 - s) (a ! (j - k - 1)) else 0)"
    by simp_all
  show ?case
  proof (intro conjI allI impI)
    show "length (fold (bu_shl_step a k s) [0..<Suc m] (replicate (length a) 0)) = length a"
      by (simp add: bu_shl_step_def Let_def len)
  next
    fix j assume j: "j < length a"
    consider "j = m + k" | "j = m + k + 1" | "j \<noteq> m + k" "j \<noteq> m + k + 1" by blast
    then show "fold (bu_shl_step a k s) [0..<Suc m] (replicate (length a) 0) ! j =
       (if k \<le> j \<and> j - k < Suc m then push_bit s (a ! (j - k)) else 0) OR
       (if k + 1 \<le> j \<and> j - k - 1 < Suc m \<and> s \<noteq> 0 then drop_bit (32 - s) (a ! (j - k - 1)) else 0)"
    proof cases
      case 1
      then show ?thesis using j len IH [OF j]
        by (auto simp add: bu_shl_step_def Let_def or.commute or.assoc)
    next
      case 2
      then show ?thesis using j len IH [OF j] by (auto simp add: bu_shl_step_def Let_def)
    next
      case 3
      then have "fold (bu_shl_step a k s) [0..<Suc m] (replicate (length a) 0) ! j = ?r ! j"
        by (simp add: bu_shl_step_def Let_def)
      moreover have "(k \<le> j \<and> j - k < Suc m) = (k \<le> j \<and> j - k < m)"
        "(k + 1 \<le> j \<and> j - k - 1 < Suc m \<and> s \<noteq> 0) = (k + 1 \<le> j \<and> j - k - 1 < m \<and> s \<noteq> 0)"
        using 3 by auto
      ultimately show ?thesis using IH [OF j] by (simp only:)
    qed
  qed
qed simp

lemma length_bu_shl [simp]: "length (bu_shl a n) = length a"
  using fold_shl_steps [of "length a" a] by (simp add: bu_shl_def)

lemma bit_bu_shl:
  "bit (bu_val (bu_shl a shift)) n \<longleftrightarrow>
   n < 32 * length a \<and> shift \<le> n \<and> bit (bu_val a) (n - shift)"
proof (cases "n < 32 * length a")
  case True
  define j b k s where jbks: "j = n div 32" "b = n mod 32" "k = shift div 32" "s = shift mod 32"
  then have n: "n = 32 * j + b" and b: "b < 32" and sh: "shift = 32 * k + s" and s: "s < 32" and j: "j < length a"
    using True by auto
  have r: "bu_shl a shift ! j = (if k \<le> j then push_bit s (a ! (j - k)) else 0) OR
       (if k + 1 \<le> j \<and> s \<noteq> 0 then drop_bit (32 - s) (a ! (j - k - 1)) else 0)"
    using fold_shl_steps [of "length a" a k s] j by (auto simp: bu_shl_def jbks(3,4) [symmetric])
  have no: "\<not> bit x m" if "32 \<le> m" for x :: uint32 and m
    using that bit_imp_le_length [of x m] by auto
  have "bit (bu_shl a shift ! j) b \<longleftrightarrow>
      (if s \<le> b then k \<le> j \<and> bit (a ! (j - k)) (b - s)
       else k + 1 \<le> j \<and> bit (a ! (j - k - 1)) (32 - s + b))"
    using b s no [of "32 - s + b"] by (auto simp: r bit_or_iff bit_push_bit_iff bit_drop_bit_eq)
  moreover have "bit (bu_val a) (n - shift) \<longleftrightarrow> bit (a ! (j - k)) (b - s)" if "shift \<le> n" "s \<le> b"
  proof -
    have *: "n - shift = 32 * (j - k) + (b - s)" using that n sh b s by auto
    have "n - shift < 32 * length a" using True by simp
    moreover have "(n - shift) div 32 = j - k" "(n - shift) mod 32 = b - s" using b by (simp_all add: *)
    ultimately show ?thesis by (simp only: bit_bu_val simp_thms)
  qed
  moreover have "bit (bu_val a) (n - shift) \<longleftrightarrow> bit (a ! (j - k - 1)) (32 - s + b)" if "shift \<le> n" "\<not> s \<le> b"
  proof -
    have *: "n - shift = 32 * (j - k - 1) + (32 - s + b)" using that n sh b s by auto
    have "n - shift < 32 * length a" using True by simp
    moreover have "32 - s + b < 32" using s that(2) by simp
    then have "(n - shift) div 32 = j - k - 1" "(n - shift) mod 32 = 32 - s + b"
      using div_mult_two_parts [of "32 - s + b" 32 "j - k - 1"] by (simp_all only: * add.commute)
    ultimately show ?thesis by (simp only: bit_bu_val simp_thms)
  qed
  moreover have "shift \<le> n \<longleftrightarrow> (if s \<le> b then k \<le> j else k + 1 \<le> j)"
  proof (cases "s \<le> b")
    case True
    then show ?thesis using n sh b s by (simp, linarith)
  next
    case False
    then show ?thesis using n sh b s by (simp, linarith)
  qed
  ultimately show ?thesis using True jbks by (auto simp: bit_bu_val [of "bu_shl a shift"])
next
  case False
  then show ?thesis by (simp add: bit_bu_val)
qed

lemma bu_val_shl [limb_simps]:
  "bu_val (bu_shl a n) = (bu_val a * 2 ^ n) mod 2 ^ (32 * length a)"
proof -
  have "bu_val (bu_shl a n) = take_bit (32 * length a) (push_bit n (bu_val a))"
    by (rule bit_eqI) (simp add: bit_bu_shl bit_take_bit_iff bit_push_bit_iff)
  then show ?thesis by (simp add: take_bit_eq_mod push_bit_eq_mult)
qed

lemma fold_shr_steps:
  assumes "m \<le> length a"
  shows "length (fold (bu_shr_step a k s) [0..<m] (replicate (length a) 0)) = length a \<and>
    (\<forall>j < length a. fold (bu_shr_step a k s) [0..<m] (replicate (length a) 0) ! j =
       (if j + k < m then drop_bit s (a ! (j + k)) else 0) OR
       (if j + k + 1 < m \<and> s \<noteq> 0 then push_bit (32 - s) (a ! (j + k + 1)) else 0))"
  using assms
proof (induction m)
  case (Suc m)
  let ?r = "fold (bu_shr_step a k s) [0..<m] (replicate (length a) 0)"
  from Suc have len: "length ?r = length a" and IH: "\<And>j. j < length a \<Longrightarrow> ?r ! j =
       (if j + k < m then drop_bit s (a ! (j + k)) else 0) OR
       (if j + k + 1 < m \<and> s \<noteq> 0 then push_bit (32 - s) (a ! (j + k + 1)) else 0)"
    by simp_all
  show ?case
  proof (intro conjI allI impI)
    show "length (fold (bu_shr_step a k s) [0..<Suc m] (replicate (length a) 0)) = length a"
      by (simp add: bu_shr_step_def Let_def len)
  next
    fix j assume j: "j < length a"
    consider "m = j + k" | "m = j + k + 1" | "m \<noteq> j + k" "m \<noteq> j + k + 1" by blast
    then show "fold (bu_shr_step a k s) [0..<Suc m] (replicate (length a) 0) ! j =
       (if j + k < Suc m then drop_bit s (a ! (j + k)) else 0) OR
       (if j + k + 1 < Suc m \<and> s \<noteq> 0 then push_bit (32 - s) (a ! (j + k + 1)) else 0)"
    proof cases
      case 1
      then show ?thesis using j len IH [OF j] by (auto simp add: bu_shr_step_def Let_def)
    next
      case 2
      then show ?thesis using j len IH [OF j] by (auto simp add: bu_shr_step_def Let_def)
    next
      case 3
      then have "fold (bu_shr_step a k s) [0..<Suc m] (replicate (length a) 0) ! j = ?r ! j"
        by (auto simp add: bu_shr_step_def Let_def)
      moreover have "(j + k < Suc m) = (j + k < m)"
        "(j + k + 1 < Suc m \<and> s \<noteq> 0) = (j + k + 1 < m \<and> s \<noteq> 0)"
        using 3 by auto
      ultimately show ?thesis using IH [OF j] by (simp only:)
    qed
  qed
qed simp

lemma length_bu_shr [simp]: "length (bu_shr a n) = length a"
  using fold_shr_steps [of "length a" a] by (simp add: bu_shr_def)

lemma bit_bu_shr: "bit (bu_val (bu_shr a shift)) n \<longleftrightarrow> bit (bu_val a) (n + shift)"
proof (cases "n < 32 * length a")
  case True
  define j b k s where jbks: "j = n div 32" "b = n mod 32" "k = shift div 32" "s = shift mod 32"
  then have n: "n = 32 * j + b" and b: "b < 32" and sh: "shift = 32 * k + s" and s: "s < 32" and j: "j < length a"
    using True by auto
  have r: "bu_shr a shift ! j = (if j + k < length a then drop_bit s (a ! (j + k)) else 0) OR
       (if j + k + 1 < length a \<and> s \<noteq> 0 then push_bit (32 - s) (a ! (j + k + 1)) else 0)"
    using fold_shr_steps [of "length a" a k s] j by (auto simp: bu_shr_def jbks(3,4) [symmetric])
  have no: "\<not> bit x m" if "32 \<le> m" for x :: uint32 and m
    using that bit_imp_le_length [of x m] by auto
  have L: "bit (bu_val (bu_shr a shift)) n \<longleftrightarrow>
      (if s + b < 32 then j + k < length a \<and> bit (a ! (j + k)) (s + b)
       else j + k + 1 < length a \<and> bit (a ! (j + k + 1)) (s + b - 32))"
    using True b s no [of "s + b"]
    by (auto simp: bit_bu_val r bit_or_iff bit_push_bit_iff bit_drop_bit_eq jbks(1,2) [symmetric] add.commute)
  show ?thesis
  proof (cases "s + b < 32")
    case True
    have *: "n + shift = s + b + 32 * (j + k)" using n sh by simp
    then have "(n + shift) div 32 = j + k" "(n + shift) mod 32 = s + b"
      using div_mult_two_parts [OF True, of "j + k"] by (simp_all only:)
    moreover have "n + shift < 32 * length a \<longleftrightarrow> j + k < length a" using * True by auto
    ultimately show ?thesis using True by (simp add: L bit_bu_val [of a])
  next
    case False
    then have F: "s + b - 32 < 32" and *: "n + shift = (s + b - 32) + 32 * (j + k + 1)" using n sh b s by auto
    then have "(n + shift) div 32 = j + k + 1" "(n + shift) mod 32 = s + b - 32"
      using div_mult_two_parts [OF F, of "j + k + 1"] by (simp_all only:)
    moreover have "n + shift < 32 * length a \<longleftrightarrow> j + k + 1 < length a" using * F by auto
    ultimately show ?thesis using False by (simp add: L bit_bu_val [of a])
  qed
next
  case False
  then show ?thesis by (simp add: bit_bu_val)
qed

lemma bu_val_shr [limb_simps]: "bu_val (bu_shr a n) = bu_val a div 2 ^ n"
proof -
  have "bu_val (bu_shr a n) = drop_bit n (bu_val a)"
    by (rule bit_eqI) (simp add: bit_bu_shr bit_drop_bit_eq add.commute)
  then show ?thesis by (simp add: drop_bit_eq_div)
qed

text \<open>\<open>bits()\<close> is the length of the number: the least \<open>n\<close> with \<open>val < 2 ^ n\<close>.\<close>

lemma bu_bits_limb_spec:
  "x \<noteq> 0 \<Longrightarrow> unat x < 2 ^ (b + 1) \<Longrightarrow> b < 32 \<Longrightarrow>
   2 ^ (bu_bits_limb b x - 1) \<le> unat x \<and> unat x < 2 ^ bu_bits_limb b x \<and> 0 < bu_bits_limb b x"
proof (induction b)
  case 0
  then show ?case by (simp add: unat_gt_0 Suc_leI)
next
  case (Suc b)
  have t: "x AND push_bit (Suc b) 1 \<noteq> 0 \<longleftrightarrow> bit x (Suc b)"
    by (simp add: bit_iff_and_push_bit_not_eq_0)
  show ?case
  proof (cases "bit x (Suc b)")
    case True
    then have "bit (unat x) (Suc b)" by (simp add: bit_unsigned_iff)
    then have "2 ^ Suc b \<le> unat x"
      by (metis bit_iff_odd div_less even_zero not_le)
    with True Suc.prems t show ?thesis by simp
  next
    case False
    then have "\<not> bit (unat x) (Suc b)" by (simp add: bit_unsigned_iff)
    moreover have "unat x div 2 ^ Suc b < 2" using Suc.prems(2) by (simp add: less_mult_imp_div_less)
    ultimately have "unat x div 2 ^ Suc b = 0"
      using less_2_cases [of "unat x div 2 ^ Suc b"] by (auto simp: bit_iff_odd)
    then have "unat x < 2 ^ (b + 1)" by (simp add: div_eq_0_iff)
    with Suc False t show ?thesis by simp
  qed
qed

lemma bu_bits_spec:
  "bu_val pn \<noteq> 0 \<Longrightarrow>
   2 ^ (bu_bits pn - 1) \<le> bu_val pn \<and> bu_val pn < 2 ^ bu_bits pn \<and> 0 < bu_bits pn"
  and bu_bits_0: "bu_val pn = 0 \<Longrightarrow> bu_bits pn = 0"
proof -
  have *: "m \<le> length pn \<Longrightarrow>
      (if bu_val (take m pn) = 0 then bu_bits_loop m pn = 0
       else 2 ^ (bu_bits_loop m pn - 1) \<le> bu_val (take m pn) \<and>
            bu_val (take m pn) < 2 ^ bu_bits_loop m pn \<and> 0 < bu_bits_loop m pn)" for m
  proof (induction m)
    case (Suc m)
    then have len: "length (take m pn) = m" by simp
    have v: "bu_val (take (Suc m) pn) = bu_val (take m pn) + 2 ^ (32 * m) * unat (pn ! m)"
      using Suc.prems bu_val_append [of "take m pn" "[pn ! m]"] by (simp add: take_Suc_conv_app_nth)
    show ?case
    proof (cases "pn ! m = 0")
      case True
      with Suc v show ?thesis by (cases "bu_val (take m pn) = 0") simp_all
    next
      case False
      let ?b = "bu_bits_limb 31 (pn ! m)"
      have b: "2 ^ (?b - 1) \<le> unat (pn ! m)" "unat (pn ! m) < 2 ^ ?b" "0 < ?b"
        using bu_bits_limb_spec [OF False, of 31] unat_less_32 [of "pn ! m"] by simp_all
      have "bu_val (take m pn) < 2 ^ (32 * m)"
        using bu_val_bound [of "take m pn"] len by simp
      then have "bu_val (take (Suc m) pn) < 2 ^ (32 * m) * 2 ^ ?b"
        using v b(2) nat_less_mult_parts by simp
      moreover have "2 ^ (32 * m) * 2 ^ (?b - 1) \<le> bu_val (take (Suc m) pn)"
        using v b(1) by (simp add: trans_le_add2)
      moreover have "bu_val (take (Suc m) pn) \<noteq> 0" using v False by (simp add: unsigned_eq_0_iff)
      moreover have "32 * m + ?b - 1 = 32 * m + (?b - 1)" using b(3) by simp
      moreover have "bu_bits_loop (Suc m) pn = 32 * m + ?b" using False by simp
      ultimately show ?thesis using b(3) by (simp only: power_add if_False) simp
    qed
  qed simp
  from * [of "length pn"]
  show "bu_val pn \<noteq> 0 \<Longrightarrow> 2 ^ (bu_bits pn - 1) \<le> bu_val pn \<and> bu_val pn < 2 ^ bu_bits pn \<and> 0 < bu_bits pn"
    and "bu_val pn = 0 \<Longrightarrow> bu_bits pn = 0"
    by (simp_all add: bu_bits_def)
qed

section \<open>Values: division\<close>

text \<open>Setting a clear bit of the quotient adds its weight.\<close>

lemma bu_val_update_or:
  assumes "i < length pn" "b < 32" "\<not> bit (pn ! i) b"
  shows "bu_val (pn[i := (pn ! i) OR push_bit b 1]) = bu_val pn + 2 ^ (32 * i + b)"
  using assms
proof (induction pn arbitrary: i)
  case (Cons x xs)
  show ?case
  proof (cases i)
    case 0
    have u: "unat (push_bit b 1 :: uint32) = 2 ^ b"
      using Cons.prems(2) by (simp only: unsigned_push_bit_eq) (simp add: take_bit_push_bit push_bit_eq_mult)
    have "unat x AND 2 ^ b = 0"
      using Cons.prems 0 by (auto intro!: bit_eqI simp: bit_simps)
    then have "unat (x OR push_bit b 1) = unat x + 2 ^ b"
      by (simp only: unsigned_or_eq u disjunctive_add_eq_or)
    then show ?thesis using 0 Cons.prems(2) by simp
  next
    case (Suc k)
    then show ?thesis using Cons by (simp add: power_add)
  qed
qed simp

lemma length_bu_div_loop:
  "length num = W \<Longrightarrow> length dv = W \<Longrightarrow> length pn = W \<Longrightarrow>
   length (fst (bu_div_loop n num dv pn)) = W \<and> length (snd (bu_div_loop n num dv pn)) = W"
  by (induction n num dv pn rule: bu_div_loop.induct) simp_all

text \<open>
  The loop invariant: \<open>num < 2 ^ n * d\<close>, the divisor is \<open>d\<close> shifted \<open>n - 1\<close> places and the
  quotient collected so far has no bit below \<open>n\<close>.
\<close>

lemma bu_div_loop_val:
  assumes "length num = W" "length dv = W" "length pn = W" "n \<le> 32 * W"
    and "bu_val num < 2 ^ n * d" "0 < n \<Longrightarrow> bu_val dv = 2 ^ (n - 1) * d" "2 ^ n dvd bu_val pn" "0 < d"
  shows "bu_val (fst (bu_div_loop n num dv pn)) = bu_val pn + bu_val num div d \<and>
         bu_val (snd (bu_div_loop n num dv pn)) = bu_val num mod d"
  using assms
proof (induction n arbitrary: num dv pn)
  case 0
  then show ?case by simp
next
  case (Suc n)
  have dv: "bu_val dv = 2 ^ n * d" using Suc.prems(6) by simp
  have shr: "0 < n \<Longrightarrow> bu_val (bu_shr dv 1) = 2 ^ (n - 1) * d"
    by (cases n) (simp_all add: dv limb_simps)
  have dvd: "2 ^ n dvd bu_val pn" using Suc.prems(7) power_le_dvd by (metis le_SucI order_refl)
  show ?case
  proof (cases "bu_val dv \<le> bu_val num")
    case False
    then have "\<not> 0 \<le> bu_CompareTo num dv"
      using Suc.prems(1,2) by (simp add: bu_CompareTo_ge)
    moreover have "bu_val num < 2 ^ n * d" using False dv by simp
    ultimately show ?thesis
      using Suc.IH [of num "bu_shr dv 1" pn] Suc.prems shr dvd by simp
  next
    case True
    let ?num = "bu_sub num dv" and ?pn = "pn[n div 32 := (pn ! (n div 32)) OR push_bit (n mod 32) 1]"
    have num: "bu_val ?num = bu_val num - 2 ^ n * d"
      using True Suc.prems(1,2) dv by (simp add: limb_simps)
    have "\<not> bit (bu_val pn) n"
      using Suc.prems(7) by (auto simp: bit_iff_odd elim!: dvdE)
    then have "\<not> bit (pn ! (n div 32)) (n mod 32)"
      using Suc.prems(3,4) by (simp add: bit_bu_val)
    then have pn: "bu_val ?pn = bu_val pn + 2 ^ n"
      using bu_val_update_or [of "n div 32" pn "n mod 32"] Suc.prems(3,4) by simp
    have "bu_val ?num < 2 ^ n * d" using num Suc.prems(5) by simp
    then have "bu_val (fst (bu_div_loop n ?num (bu_shr dv 1) ?pn)) = bu_val ?pn + bu_val ?num div d \<and>
         bu_val (snd (bu_div_loop n ?num (bu_shr dv 1) ?pn)) = bu_val ?num mod d"
      using Suc.IH [of ?num "bu_shr dv 1" ?pn] Suc.prems(1-4,8) shr dvd pn by simp
    moreover have "bu_val num = bu_val ?num + 2 ^ n * d" using num True dv by simp
    then have "bu_val num div d = bu_val ?num div d + 2 ^ n" "bu_val num mod d = bu_val ?num mod d"
      using Suc.prems(8) by simp_all
    moreover have "0 \<le> bu_CompareTo num dv"
      using True Suc.prems(1,2) by (simp add: bu_CompareTo_ge)
    ultimately show ?thesis using pn by simp
  qed
qed

lemma bu_bits_le: "bu_bits a \<le> 32 * length a"
proof (cases "bu_val a = 0")
  case False
  then have "2 ^ (bu_bits a - 1) < (2::nat) ^ (32 * length a)"
    using bu_bits_spec [OF False] bu_val_bound [of a] by (meson le_less_trans)
  then have "bu_bits a - 1 < 32 * length a" by (rule power_less_imp_less_exp [rotated]) simp
  then show ?thesis by simp
qed (simp add: bu_bits_0)

lemma bu_div_zero: "bu_val b = 0 \<Longrightarrow> bu_div a b = Inl DivisionByZero"
  by (simp add: bu_div_def bu_bits_0)

lemma bu_div_ok:
  assumes len: "length a = length b" and b: "bu_val b \<noteq> 0"
  shows "\<exists>q. bu_div a b = Inr q \<and> length q = length a \<and> bu_val q = bu_val a div bu_val b"
proof -
  have bb: "2 ^ (bu_bits b - 1) \<le> bu_val b" "bu_val b < 2 ^ bu_bits b" "0 < bu_bits b"
    using bu_bits_spec [OF b] by simp_all
  show ?thesis
  proof (cases "bu_bits a < bu_bits b")
    case True
    have "bu_val a < 2 ^ (bu_bits b - 1)"
    proof (cases "bu_val a = 0")
      case False
      have "bu_val a < 2 ^ bu_bits a" using bu_bits_spec [OF False] by simp
      also have "\<dots> \<le> 2 ^ (bu_bits b - 1)" using True by (intro power_increasing) auto
      finally show ?thesis .
    qed simp
    then have "bu_val a < bu_val b" using bb(1) by simp
    then show ?thesis using True bb(3) by (simp add: bu_div_def bu_null_def)
  next
    case False
    then have a: "bu_val a \<noteq> 0" using bb(3) bu_bits_0 [of a] by auto
    let ?sh = "bu_bits a - bu_bits b"
    have ab: "bu_val a < 2 ^ bu_bits a" using bu_bits_spec [OF a] by simp
    have "bu_val b * 2 ^ ?sh < 2 ^ bu_bits b * 2 ^ ?sh" using bb(2) by simp
    also have "\<dots> = 2 ^ bu_bits a" using False by (simp add: power_add [symmetric])
    also have "\<dots> \<le> 2 ^ (32 * length b)" using bu_bits_le [of a] len by (intro power_increasing) auto
    finally have shl: "bu_val (bu_shl b ?sh) = 2 ^ ?sh * bu_val b"
      by (simp add: limb_simps mult.commute)
    have "bu_val a < 2 ^ Suc ?sh * 2 ^ (bu_bits b - 1)"
      using ab False bb(3) by (simp add: power_add [symmetric] power_Suc [symmetric] del: power_Suc)
    also have "\<dots> \<le> 2 ^ Suc ?sh * bu_val b" using bb(1) by (intro mult_le_mono) auto
    finally have lt: "bu_val a < 2 ^ Suc ?sh * bu_val b" .
    have "Suc ?sh \<le> 32 * length a" using bu_bits_le [of a] bb(3) False by auto
    then have "bu_val (fst (bu_div_loop (Suc ?sh) a (bu_shl b ?sh) (bu_null (length a)))) = bu_val a div bu_val b"
      using bu_div_loop_val [of a "length a" "bu_shl b ?sh" "bu_null (length a)" "Suc ?sh" "bu_val b"]
        lt shl len b by (simp add: bu_null_def)
    moreover have "length (fst (bu_div_loop (Suc ?sh) a (bu_shl b ?sh) (bu_null (length a)))) = length a"
      using length_bu_div_loop [of a "length a" "bu_shl b ?sh" "bu_null (length a)" "Suc ?sh"] len
      by (simp add: bu_null_def)
    ultimately show ?thesis using False bb(3) by (simp add: bu_div_def Let_def)
  qed
qed

section \<open>Properties\<close>

text \<open>At every width the operators of \<open>base_uint\<close> are arithmetic on the value modulo
  \<open>2 ^ BITS\<close>: addition, subtraction, negation, complement, the product with a 32-bit word and with
  a number, both shifts by any amount, and the comparison.\<close>

theorem uint_arithmetic_correct:
  assumes "length a = length b"
  shows "bu_val (bu_add a b) = (bu_val a + bu_val b) mod 2 ^ (32 * length a) \<and>
    bu_val (bu_sub a b) = (bu_val a + (2 ^ (32 * length a) - bu_val b)) mod 2 ^ (32 * length a) \<and>
    bu_val (bu_neg a) = (2 ^ (32 * length a) - bu_val a) mod 2 ^ (32 * length a) \<and>
    bu_val (bu_not a) = 2 ^ (32 * length a) - 1 - bu_val a \<and>
    bu_val (bu_mul32 a m) = (bu_val a * unat m) mod 2 ^ (32 * length a) \<and>
    bu_val (bu_mul a b) = (bu_val a * bu_val b) mod 2 ^ (32 * length a) \<and>
    bu_val (bu_shl a n) = (bu_val a * 2 ^ n) mod 2 ^ (32 * length a) \<and>
    bu_val (bu_shr a n) = bu_val a div 2 ^ n \<and>
    (bu_CompareTo a b = (if bu_val a < bu_val b then -1 else if bu_val b < bu_val a then 1 else 0))"
  using assms by (simp add: limb_simps bu_CompareTo_val bu_val_sub_mod)

theorem uint_arithmetic_correct_witness:
  "bu_val (bu_mul [0xffffffff, 1] [3, 0]) = 0x5fffffffd"
  using uint_arithmetic_correct [of "[0xffffffff, 1]" "[3, 0]" 0 0] by simp

text \<open>C36: Long division of numbers of the same width returns the quotient of the values for every
  nonzero divisor and throws \<open>uint_error\<close> exactly for a zero divisor.\<close>

theorem long_division_correct:
  assumes "length a = length b"
  shows "if bu_val b = 0 then bu_div a b = Inl DivisionByZero
    else \<exists>q. bu_div a b = Inr q \<and> length q = length a \<and> bu_val q = bu_val a div bu_val b"
  using bu_div_zero [of b a] bu_div_ok [OF assms] by simp

theorem long_division_correct_witness:
  "\<exists>q. bu_div [5, 0, 7] [0, 2, 0] = Inr q \<and> bu_val q = (5 + 7 * 2 ^ 64) div (2 * 2 ^ 32)"
  using long_division_correct [of "[5, 0, 7]" "[0, 2, 0]"] by auto

end
