(* ===== verification/UintForms.thy ===== *)
theory UintForms
  imports Uint256
begin

text \<open>
  The external forms of \<open>uint256\<close> (\<open>src/src/uint256.cpp\<close>): the hexadecimal strings of
  \<open>GetHex\<close> and \<open>SetHex\<close>, the compact 32-bit form of difficulty targets
  (\<open>SetCompact\<close>, \<open>GetCompact\<close>) and the hash-table hash \<open>GetHash\<close>.
\<close>

section \<open>Hexadecimal strings\<close>

text \<open>\<open>HexDigit\<close> of \<open>src/src/utilstrencodings.cpp\<close>: its 256-entry table as ranges of codes.\<close>

definition HexDigit :: "char \<Rightarrow> int" where
  "HexDigit c =
     (let n = int (of_char c) in
      if 48 \<le> n \<and> n \<le> 57 then n - 48
      else if 65 \<le> n \<and> n \<le> 70 then n - 55
      else if 97 \<le> n \<and> n \<le> 102 then n - 87
      else -1)"

text \<open>The standard library's \<open>isspace\<close> in the C locale and the \<open>%02x\<close> conversion of a byte.\<close>

definition c_isspace :: "char \<Rightarrow> bool" where
  "c_isspace c = (let n = (of_char c :: nat) in n = 32 \<or> (9 \<le> n \<and> n \<le> 13))"

definition hex_char :: "nat \<Rightarrow> char" where
  "hex_char n = (if n < 10 then char_of (48 + n) else char_of (87 + n))"

definition hex_byte :: "byte \<Rightarrow> string" where
  "hex_byte b = [hex_char (unat b div 16), hex_char (unat b mod 16)]"

definition bu_GetHex :: "base_uint \<Rightarrow> string" where
  "bu_GetHex pn = concat (map hex_byte (rev (bu_bytes pn)))"

definition bu_ToStringReverseEndian :: "base_uint \<Rightarrow> string" where
  "bu_ToStringReverseEndian pn = concat (map hex_byte (bu_bytes pn))"

text \<open>
  The filling loop of \<open>SetHex\<close>: \<open>n\<close> bytes are left from \<open>p1\<close> to \<open>pend\<close>, the digits come
  from the last one back. A last single digit fills half a byte; the bytes not reached
  keep the 0 of the \<open>memset\<close>.
\<close>

fun hex_fill :: "nat \<Rightarrow> byte list \<Rightarrow> bytes" where
  "hex_fill 0 ds = []"
| "hex_fill (Suc n) [] = replicate (Suc n) 0"
| "hex_fill (Suc n) [d] = d # replicate n 0"
| "hex_fill (Suc n) (d0 # d1 # ds) = (d0 OR push_bit 4 d1) # hex_fill n ds"

text \<open>A \<open>const char*\<close> is the list of its characters; its end is the terminating NUL.\<close>

definition skip_0x :: "string \<Rightarrow> string" where
  "skip_0x psz =
     (case psz of
        c0 # c1 # rest \<Rightarrow> if c0 = CHR ''0'' \<and> (c1 = CHR ''x'' \<or> c1 = CHR ''X'') then rest else psz
      | _ \<Rightarrow> psz)"

definition bu_SetHex :: "nat \<Rightarrow> string \<Rightarrow> base_uint" where
  "bu_SetHex WIDTH psz =
     (let digits = takeWhile (\<lambda>c. HexDigit c \<noteq> -1) (skip_0x (dropWhile c_isspace psz))
      in limbs_of_bytes (hex_fill (4 * WIDTH) (rev (map (\<lambda>c. of_int (HexDigit c)) digits))))"

section \<open>The compact form\<close>

text \<open>The result of \<open>SetCompact\<close> with the two flags it reports through its pointers.\<close>

definition compact_flags :: "uint32 \<Rightarrow> nat \<Rightarrow> uint32 \<Rightarrow> bool \<times> bool" where
  "compact_flags nCompact nSize nWord =
     (nWord \<noteq> 0 \<and> nCompact AND 0x00800000 \<noteq> 0,
      nWord \<noteq> 0 \<and> (34 < nSize \<or> (0xff < nWord \<and> 33 < nSize) \<or> (0xffff < nWord \<and> 32 < nSize)))"

definition SetCompact :: "uint32 \<Rightarrow> base_uint \<times> bool \<times> bool" where
  "SetCompact nCompact =
     (let nSize = unat (drop_bit 24 nCompact);
          nWord = nCompact AND 0x007fffff
      in if nSize \<le> 3
         then let nWord' = drop_bit (8 * (3 - nSize)) nWord
              in (bu_of_uint64 8 (ucast nWord'), compact_flags nCompact nSize nWord')
         else (bu_shl (bu_of_uint64 8 (ucast nWord)) (8 * (nSize - 3)),
               compact_flags nCompact nSize nWord))"

text \<open>\<open>None\<close> stands for a failed \<open>assert\<close> of \<open>GetCompact\<close>, which stops the program.\<close>

definition GetCompact :: "bool \<Rightarrow> base_uint \<Rightarrow> uint32 option" where
  "GetCompact fNegative pn =
     (let nSize = (bu_bits pn + 7) div 8;
          nCompact = (if nSize \<le> 3 then ucast (push_bit (8 * (3 - nSize)) (bu_GetLow64 pn))
                      else ucast (bu_GetLow64 (bu_shr pn (8 * (nSize - 3)))) :: uint32);
          (nCompact, nSize) = (if nCompact AND 0x00800000 \<noteq> 0
                               then (drop_bit 8 nCompact, nSize + 1) else (nCompact, nSize))
      in if nCompact AND NOT 0x007fffff \<noteq> 0 then None
         else if \<not> nSize < 256 then None
         else Some (let c = nCompact OR push_bit 24 (of_nat nSize)
                    in c OR (if fNegative \<and> c AND 0x007fffff \<noteq> 0 then 0x00800000 else 0)))"

section \<open>The salted hash\<close>

definition rotl32 :: "nat \<Rightarrow> uint32 \<Rightarrow> uint32" where
  "rotl32 k x = push_bit k x OR drop_bit (32 - k) x"

definition HashMix :: "uint32 \<times> uint32 \<times> uint32 \<Rightarrow> uint32 \<times> uint32 \<times> uint32" where
  "HashMix t =
     (let (a, b, c) = t;
          a = a - c; a = a XOR rotl32 4 c; c = c + b;
          b = b - a; b = b XOR rotl32 6 a; a = a + c;
          c = c - b; c = c XOR rotl32 8 b; b = b + a;
          a = a - c; a = a XOR rotl32 16 c; c = c + b;
          b = b - a; b = b XOR rotl32 19 a; a = a + c;
          c = c - b; c = c XOR rotl32 4 b; b = b + a
      in (a, b, c))"

definition HashFinal :: "uint32 \<times> uint32 \<times> uint32 \<Rightarrow> uint32 \<times> uint32 \<times> uint32" where
  "HashFinal t =
     (let (a, b, c) = t;
          c = c XOR b; c = c - rotl32 14 b;
          a = a XOR c; a = a - rotl32 11 c;
          b = b XOR a; b = b - rotl32 25 a;
          c = c XOR b; c = c - rotl32 16 b;
          a = a XOR c; a = a - rotl32 4 c;
          b = b XOR a; b = b - rotl32 14 a;
          c = c XOR b; c = c - rotl32 24 b
      in (a, b, c))"

definition bu_GetHash :: "base_uint \<Rightarrow> base_uint \<Rightarrow> uint64" where
  "bu_GetHash pn salt =
     (let i = 0xdeadbeef + push_bit 2 8;
          (a, b, c) = HashMix (i + (pn ! 0 XOR salt ! 0), i + (pn ! 1 XOR salt ! 1), i + (pn ! 2 XOR salt ! 2));
          (a, b, c) = HashMix (a + (pn ! 3 XOR salt ! 3), b + (pn ! 4 XOR salt ! 4), c + (pn ! 5 XOR salt ! 5));
          (a, b, c) = HashFinal (a + (pn ! 6 XOR salt ! 6), b + (pn ! 7 XOR salt ! 7), c)
      in push_bit 32 (ucast b) OR ucast c)"

section \<open>Hexadecimal round trip\<close>

lemma limb_bytes_inverse:
  "(ucast (ucast x :: byte) OR push_bit 8 (ucast (ucast (drop_bit 8 x) :: byte))
     OR push_bit 16 (ucast (ucast (drop_bit 16 x) :: byte))
     OR push_bit 24 (ucast (ucast (drop_bit 24 x) :: byte))) = (x :: uint32)"
proof (rule bit_word_eqI)
  fix n assume n: "n < LENGTH(32)"
  consider "n < 8" | "8 \<le> n" "n < 16" | "16 \<le> n" "n < 24" | "24 \<le> n" "n < 32"
    using n by fastforce
  then show "bit (ucast (ucast x :: byte) OR push_bit 8 (ucast (ucast (drop_bit 8 x) :: byte))
     OR push_bit 16 (ucast (ucast (drop_bit 16 x) :: byte))
     OR push_bit 24 (ucast (ucast (drop_bit 24 x) :: byte)) :: uint32) n = bit x n"
    using n by cases (auto simp add: bit_or_iff bit_push_bit_iff bit_ucast_iff bit_drop_bit_eq)
qed

lemma limbs_of_bytes_limb:
  "limbs_of_bytes (limb_bytes x @ bs) = x # limbs_of_bytes bs"
  by (simp add: limb_bytes_def limb_bytes_inverse)

lemma limbs_of_bytes_bu_bytes [simp]: "limbs_of_bytes (bu_bytes pn) = pn"
proof (induction pn)
  case (Cons x pn)
  then show ?case by (simp add: bu_bytes_def limbs_of_bytes_limb)
qed (simp add: bu_bytes_def)

lemma length_bu_bytes [simp]: "length (bu_bytes pn) = 4 * length pn"
  by (induction pn) (simp_all add: bu_bytes_def limb_bytes_def)

lemma of_char_hex_char: "n < 16 \<Longrightarrow> of_char (hex_char n) = (if n < 10 then 48 + n else 87 + n)"
  by (simp add: hex_char_def)

lemma HexDigit_hex_char: "n < 16 \<Longrightarrow> HexDigit (hex_char n) = int n"
  by (auto simp: HexDigit_def Let_def of_char_hex_char)

lemma hex_char_plain:
  assumes "n < 16"
  shows "\<not> c_isspace (hex_char n)" "hex_char n \<noteq> CHR ''x''" "hex_char n \<noteq> CHR ''X''"
proof -
  have o: "of_char (hex_char n) = (if n < 10 then 48 + n else 87 + n)"
    by (rule of_char_hex_char [OF assms])
  then show "\<not> c_isspace (hex_char n)" using assms by (simp add: c_isspace_def Let_def)
  have "hex_char n \<noteq> c" if "of_char c = (120 :: nat) \<or> of_char c = (88 :: nat)" for c
    using o assms that by (auto split: if_splits)
  moreover have "of_char (CHR ''x'') = (120 :: nat)" "of_char (CHR ''X'') = (88 :: nat)" by simp_all
  ultimately show "hex_char n \<noteq> CHR ''x''" "hex_char n \<noteq> CHR ''X''" by blast+
qed

lemma byte_halves:
  "unat (b :: byte) div 16 < 16"
  "(of_int (int (unat b mod 16)) :: byte) OR push_bit 4 (of_int (int (unat b div 16))) = b"
proof -
  show h: "unat b div 16 < 16" using unat_less_8 [of b] by (simp add: less_mult_imp_div_less)
  let ?l = "of_nat (unat b mod 16) :: byte" and ?h = "of_nat (unat b div 16) :: byte"
  have ul: "unat ?l = unat b mod 16" by (simp add: unsigned_of_nat take_bit_nat_eq_self)
  have uh: "unat ?h = unat b div 16"
    using h by (simp add: unsigned_of_nat take_bit_nat_eq_self)
  have "unat (push_bit 4 ?h) = unat ?h * 2 ^ 4"
    using h uh by (intro unat_push_bit_small) simp
  then have "unat (?l OR push_bit 4 ?h) = unat b mod 16 + unat b div 16 * 16"
    using ul uh by (subst unat_or_disjoint [where n = 4]) simp_all
  then have "unat (?l OR push_bit 4 ?h) = unat b" by simp
  then have "?l OR push_bit 4 ?h = b" by (rule unsigned_word_eqI)
  then show "(of_int (int (unat b mod 16)) :: byte) OR push_bit 4 (of_int (int (unat b div 16))) = b" by simp
qed

lemma hex_fill_bytes:
  "hex_fill (length bs) (rev (map (\<lambda>c. of_int (HexDigit c)) (concat (map hex_byte (rev bs))))) = bs"
proof (induction bs)
  case (Cons b bs)
  then show ?case
    using byte_halves [of b] by (simp add: hex_byte_def HexDigit_hex_char)
qed simp

lemma hex_byte_chars:
  "c \<in> set (concat (map hex_byte bs)) \<Longrightarrow> HexDigit c \<noteq> -1 \<and> \<not> c_isspace c \<and> c \<noteq> CHR ''x'' \<and> c \<noteq> CHR ''X''"
  using byte_halves(1) by (auto simp: hex_byte_def HexDigit_hex_char hex_char_plain)

lemma SetHex_hex_digits:
  assumes "\<And>c. c \<in> set s \<Longrightarrow> HexDigit c \<noteq> -1 \<and> \<not> c_isspace c \<and> c \<noteq> CHR ''x'' \<and> c \<noteq> CHR ''X''"
  shows "bu_SetHex W s = limbs_of_bytes (hex_fill (4 * W) (rev (map (\<lambda>c. of_int (HexDigit c)) s)))"
proof -
  have "dropWhile c_isspace s = s"
    using assms by (cases s) auto
  moreover have "skip_0x s = s"
    using assms by (auto simp: skip_0x_def split: list.splits)
  moreover have "takeWhile (\<lambda>c. HexDigit c \<noteq> -1) s = s"
    using assms by (auto simp: takeWhile_eq_all_conv)
  ultimately show ?thesis by (simp only: bu_SetHex_def Let_def)
qed

text \<open>printing a number and reading it back gives the same limbs, at every width.\<close>

theorem SetHex_GetHex: "bu_SetHex (length pn) (bu_GetHex pn) = pn"
proof -
  have "bu_SetHex (length pn) (bu_GetHex pn) =
      limbs_of_bytes (hex_fill (4 * length pn) (rev (map (\<lambda>c. of_int (HexDigit c)) (bu_GetHex pn))))"
    unfolding bu_GetHex_def by (rule SetHex_hex_digits) (rule hex_byte_chars)
  also have "\<dots> = pn"
    using hex_fill_bytes [of "bu_bytes pn"] by (simp add: bu_GetHex_def)
  finally show ?thesis .
qed

section \<open>The compact form: values\<close>

lemma bu_val_of_uint64: "bu_val (bu_of_uint64 W b) = unat b"
proof -
  have "unat (ucast b :: uint32) = unat b mod 4294967296"
    by (simp add: unsigned_ucast_eq take_bit_eq_mod)
  moreover have "unat (ucast (drop_bit 32 b) :: uint32) = unat b div 4294967296"
    using unat_high_less [of b] unat_high_limb [of b]
    by (simp add: unsigned_ucast_eq take_bit_nat_eq_self)
  ultimately show ?thesis by (simp add: bu_of_uint64_def)
qed

lemma length_bu_of_uint64 [simp]: "2 \<le> W \<Longrightarrow> length (bu_of_uint64 W b) = W"
  by (simp add: bu_of_uint64_def)

lemma mantissa_mask: "(0x007fffff :: uint32) = mask 23"
  by (simp add: mask_eq_exp_minus_1)

lemma unat_mantissa: "unat (c AND 0x007fffff :: uint32) = unat c mod 8388608"
  by (simp only: mantissa_mask unat_and_mask) simp

lemma unat_exponent: "unat (drop_bit 24 c :: uint32) = unat c div 16777216"
  by (simp add: unat_drop_bit)

text \<open>The number a compact value stands for, ignoring the sign: mantissa, exponent, overflow.\<close>

definition compact_mantissa :: "uint32 \<Rightarrow> nat" where
  "compact_mantissa c = unat c mod 2 ^ 23"

definition compact_exponent :: "uint32 \<Rightarrow> nat" where
  "compact_exponent c = unat c div 2 ^ 24"

definition compact_value :: "uint32 \<Rightarrow> nat" where
  "compact_value c =
     (if compact_exponent c \<le> 3 then compact_mantissa c div 256 ^ (3 - compact_exponent c)
      else compact_mantissa c * 256 ^ (compact_exponent c - 3))"

lemma pow256: "(256::nat) ^ n = 2 ^ (8 * n)"
  by (simp add: power_mult)

lemma unat_ucast_up [simp]: "unat (ucast (w :: uint32) :: uint64) = unat w"
  by simp

lemma length_SetCompact [simp]: "length (fst (SetCompact c)) = 8"
  by (simp add: SetCompact_def Let_def)

lemma SetCompact_val: "bu_val (fst (SetCompact c)) = compact_value c mod 2 ^ 256"
proof (cases "compact_exponent c \<le> 3")
  case True
  have "compact_value c \<le> compact_mantissa c" using True by (simp add: compact_value_def div_le_dividend)
  also have "\<dots> < 2 ^ 23" by (simp add: compact_mantissa_def)
  also have "(2::nat) ^ 23 < 2 ^ 256" by simp
  finally have lt: "compact_value c < 2 ^ 256" .
  have "bu_val (fst (SetCompact c)) = unat (drop_bit (8 * (3 - unat (drop_bit 24 c))) (c AND 0x007fffff))"
    using True by (simp only: SetCompact_def Let_def unat_exponent compact_exponent_def)
      (simp only: if_True fst_conv bu_val_of_uint64 unat_ucast_32_64 power_numeral pred_numeral_simps
        semiring_norm, simp add: bu_val_of_uint64)
  also have "\<dots> = compact_value c"
    using True by (simp only: unat_drop_bit unat_mantissa unat_exponent compact_value_def
        compact_exponent_def compact_mantissa_def pow256) simp
  finally have "bu_val (fst (SetCompact c)) = compact_value c" .
  with lt show ?thesis by simp
next
  case False
  then show ?thesis
    by (simp add: SetCompact_def Let_def bu_val_of_uint64 unat_exponent unat_mantissa bu_val_shl
        compact_value_def compact_exponent_def compact_mantissa_def pow256)
qed

lemma unat_signbit: "(c :: uint32) AND 0x00800000 \<noteq> 0 \<longleftrightarrow> odd (unat c div 2 ^ 23)"
proof -
  have "(0x00800000 :: uint32) = push_bit 23 1" by simp
  then have "c AND 0x00800000 \<noteq> 0 \<longleftrightarrow> bit c 23"
    by (simp only: bit_iff_and_push_bit_not_eq_0)
  then show ?thesis by (simp only: bit_unat)
qed

text \<open>The overflow flag of \<open>SetCompact\<close> is exact: it is set iff the number needs more than 256 bits.\<close>

lemma overflow_arith:
  fixes m n :: nat
  assumes m: "m < 2 ^ 23" and n: "3 < n"
  shows "m \<noteq> 0 \<and> (34 < n \<or> 0xff < m \<and> 33 < n \<or> 0xffff < m \<and> 32 < n) \<longleftrightarrow> 2 ^ 256 \<le> m * 256 ^ (n - 3)"
proof -
  have split: "2 ^ 256 \<le> m * 256 ^ (n - 3) \<longleftrightarrow> 256 ^ (35 - n) \<le> m" if "n \<le> 35"
  proof -
    have "8 * (35 - n) + 8 * (n - 3) = 256" using that n by simp
    then have "(2::nat) ^ 256 = 256 ^ (35 - n) * 256 ^ (n - 3)"
      by (simp only: pow256 power_add [symmetric])
    then show ?thesis by (simp only: mult_le_cancel2) simp
  qed
  consider "34 < n" | "n = 34" | "n = 33" | "n \<le> 32" by linarith
  then show ?thesis
  proof cases
    case 1
    have "2 ^ 256 \<le> m * 256 ^ (n - 3)" if "m \<noteq> 0"
    proof -
      have "(2::nat) ^ 256 \<le> 2 ^ (8 * (n - 3))" using 1 by (intro power_increasing) auto
      also have "\<dots> \<le> m * 256 ^ (n - 3)" using that by (simp add: pow256)
      finally show ?thesis .
    qed
    with 1 show ?thesis by (cases "m = 0") auto
  next
    case 2
    then show ?thesis using split by auto
  next
    case 3
    then show ?thesis using split by auto
  next
    case 4
    have "(2::nat) ^ 24 \<le> 2 ^ (8 * (35 - n))" using 4 by (intro power_increasing) auto
    then have "\<not> 256 ^ (35 - n) \<le> m" using m by (simp add: pow256)
    then show ?thesis using split 4 by auto
  qed
qed

lemma SetCompact_overflow: "snd (snd (SetCompact c)) \<longleftrightarrow> 2 ^ 256 \<le> compact_value c"
proof (cases "compact_exponent c \<le> 3")
  case True
  have "compact_value c \<le> compact_mantissa c" using True by (simp add: compact_value_def div_le_dividend)
  also have "\<dots> < 2 ^ 23" by (simp add: compact_mantissa_def)
  also have "(2::nat) ^ 23 < 2 ^ 256" by simp
  finally have "\<not> 2 ^ 256 \<le> compact_value c" by simp
  moreover have "\<not> snd (snd (SetCompact c))"
    using True by (simp add: SetCompact_def Let_def compact_flags_def unat_exponent compact_exponent_def)
  ultimately show ?thesis by simp
next
  case False
  let ?w = "c AND 0x007fffff"
  have w: "unat ?w = compact_mantissa c" by (simp only: unat_mantissa compact_mantissa_def) simp
  have "snd (snd (SetCompact c)) = snd (compact_flags c (compact_exponent c) ?w)"
    using False by (simp add: SetCompact_def Let_def unat_exponent compact_exponent_def)
  also have "\<dots> \<longleftrightarrow> compact_mantissa c \<noteq> 0 \<and> (34 < compact_exponent c \<or>
      0xff < compact_mantissa c \<and> 33 < compact_exponent c \<or> 0xffff < compact_mantissa c \<and> 32 < compact_exponent c)"
  proof -
    have "?w \<noteq> 0 \<longleftrightarrow> unat ?w \<noteq> 0" by (metis unsigned_eq_0_iff)
    then show ?thesis by (simp only: compact_flags_def snd_conv word_less_nat_alt w) simp
  qed
  also have "\<dots> \<longleftrightarrow> 2 ^ 256 \<le> compact_mantissa c * 256 ^ (compact_exponent c - 3)"
    using False by (intro overflow_arith) (simp_all add: compact_mantissa_def)
  finally show ?thesis using False by (simp add: compact_value_def)
qed

lemma SetCompact_negative: "fst (snd (SetCompact c)) \<longleftrightarrow> compact_value c \<noteq> 0 \<and> odd (unat c div 2 ^ 23)"
proof (cases "compact_exponent c \<le> 3")
  case True
  let ?w = "drop_bit (8 * (3 - compact_exponent c)) (c AND 0x007fffff)"
  have "unat ?w = compact_value c"
    using True by (simp only: unat_drop_bit unat_mantissa compact_value_def compact_mantissa_def pow256) simp
  then have "?w \<noteq> 0 \<longleftrightarrow> compact_value c \<noteq> 0" by (metis unsigned_eq_0_iff)
  moreover have "fst (snd (SetCompact c)) = fst (compact_flags c (compact_exponent c) ?w)"
    using True by (simp add: SetCompact_def Let_def unat_exponent compact_exponent_def)
  ultimately show ?thesis by (simp only: compact_flags_def fst_conv unat_signbit)
next
  case False
  let ?w = "c AND 0x007fffff"
  have "unat ?w = compact_mantissa c" by (simp only: unat_mantissa compact_mantissa_def) simp
  then have "?w \<noteq> 0 \<longleftrightarrow> compact_value c \<noteq> 0" using False by (metis compact_value_def unsigned_eq_0_iff mult_is_0 power_not_zero zero_neq_numeral)
  moreover have "fst (snd (SetCompact c)) = fst (compact_flags c (compact_exponent c) ?w)"
    using False by (simp add: SetCompact_def Let_def unat_exponent compact_exponent_def)
  ultimately show ?thesis by (simp only: compact_flags_def fst_conv unat_signbit)
qed

lemma bu_GetLow64_val:
  assumes "2 \<le> length pn"
  shows "unat (bu_GetLow64 pn) = bu_val pn mod 2 ^ 64"
proof -
  obtain p0 p1 ps where pn: "pn = p0 # p1 # ps"
    using assms by (metis One_nat_def Suc_1 Suc_le_length_iff)
  have hi: "unat (push_bit 32 (ucast p1) :: uint64) = unat p1 * 2 ^ 32"
    using unat_less_32 [of p1] by (subst unat_push_bit_small) simp_all
  have "unat (bu_GetLow64 pn) = unat p0 + unat p1 * 2 ^ 32"
    using unat_less_32 [of p0] hi by (simp only: bu_GetLow64_def pn nth_Cons_0 nth_Cons_Suc One_nat_def)
      (subst unat_or_disjoint [where n = 32], simp_all)
  moreover have "bu_val pn = (unat p0 + unat p1 * 2 ^ 32) + 2 ^ 64 * bu_val ps" by (simp add: pn)
  moreover have "unat p0 + unat p1 * 2 ^ 32 < 2 ^ 64"
    using nat_less_mult_parts [OF unat_less_32 [of p0] unat_less_32 [of p1]] by (simp add: mult.commute)
  ultimately show ?thesis by simp
qed

text \<open>
  The number of bytes of a value and its first mantissa of at most 24 bits, before the sign
  correction; the 32-bit word \<open>GetCompact\<close> first forms holds exactly this mantissa.
\<close>

lemma GetCompact_bytes:
  assumes "n = (bu_bits t + 7) div 8"
  shows "bu_val t < 256 ^ n" "bu_val t \<noteq> 0 \<longrightarrow> 256 ^ (n - 1) \<le> bu_val t \<and> 0 < n"
proof -
  have le: "bu_bits t \<le> 8 * n" using assms by (simp add: Suc_le_eq)
  show "bu_val t < 256 ^ n"
  proof (cases "bu_val t = 0")
    case False
    then have "bu_val t < 2 ^ bu_bits t" using bu_bits_spec by blast
    also have "\<dots> \<le> 2 ^ (8 * n)" using le by (intro power_increasing) auto
    finally show ?thesis by (simp only: pow256)
  qed simp
  show "bu_val t \<noteq> 0 \<longrightarrow> 256 ^ (n - 1) \<le> bu_val t \<and> 0 < n"
  proof
  assume "bu_val t \<noteq> 0"
  then have b: "2 ^ (bu_bits t - 1) \<le> bu_val t" "0 < bu_bits t" using bu_bits_spec by blast+
  have ge: "8 * (n - 1) \<le> bu_bits t - 1" using assms b(2) by simp
  then have "(2::nat) ^ (8 * (n - 1)) \<le> 2 ^ (bu_bits t - 1)" by (intro power_increasing) auto
  then have "2 ^ (8 * (n - 1)) \<le> bu_val t" using b(1) by (rule order_trans)
  moreover have "0 < n" using assms b(2) by simp
  ultimately show "256 ^ (n - 1) \<le> bu_val t \<and> 0 < n" by (simp only: pow256)
  qed
qed

lemma GetCompact_word:
  assumes len: "length t = 8" and n: "n = (bu_bits t + 7) div 8"
  defines "w \<equiv> (if n \<le> 3 then ucast (push_bit (8 * (3 - n)) (bu_GetLow64 t))
                else ucast (bu_GetLow64 (bu_shr t (8 * (n - 3)))) :: uint32)"
  defines "m \<equiv> (if n \<le> 3 then bu_val t * 256 ^ (3 - n) else bu_val t div 256 ^ (n - 3))"
  shows "unat w = m" "m < 2 ^ 24"
proof -
  have lt: "bu_val t < 256 ^ n" using GetCompact_bytes(1) [OF n] .
  show m: "m < 2 ^ 24"
  proof (cases "n \<le> 3")
    case True
    have "m < 256 ^ n * 256 ^ (3 - n)" using lt True by (simp add: m_def)
    also have "256 ^ n * 256 ^ (3 - n) = (256::nat) ^ 3" using True by (simp only: power_add [symmetric]) simp
    finally show ?thesis by simp
  next
    case False
    have "(256::nat) ^ n = 256 ^ 3 * 256 ^ (n - 3)" using False by (simp only: power_add [symmetric]) simp
    then have "bu_val t div 256 ^ (n - 3) < 256 ^ 3" using lt by (simp add: less_mult_imp_div_less)
    then show ?thesis using False by (simp add: m_def)
  qed
  have narrow: "unat (ucast x :: uint32) = unat x" if "unat x < 2 ^ 24" for x :: uint64
    using that by (simp add: unsigned_ucast_eq take_bit_nat_eq_self)
  show "unat w = m"
  proof (cases "n \<le> 3")
    case True
    have "(256::nat) ^ n \<le> 256 ^ 3" using True by (intro power_increasing) auto
    then have "bu_val t < 2 ^ 64" using lt by simp
    then have low: "unat (bu_GetLow64 t) = bu_val t" using bu_GetLow64_val [of t] len by simp
    have "unat (push_bit (8 * (3 - n)) (bu_GetLow64 t)) = m"
      using m True low by (subst unat_push_bit_small) (simp_all add: m_def pow256)
    then show ?thesis using True m by (simp only: w_def if_True narrow)
  next
    case False
    have "unat (bu_GetLow64 (bu_shr t (8 * (n - 3)))) = m"
      using m False len by (simp add: bu_GetLow64_val limb_simps m_def pow256)
    then show ?thesis using False m by (simp only: w_def if_False narrow)
  qed
qed

text \<open>The final packing of mantissa and size into 32 bits.\<close>

lemma compact_pack:
  assumes "unat (w :: uint32) < 2 ^ 23" "n < 256"
  shows "unat (w OR push_bit 24 (of_nat n)) = unat w + n * 2 ^ 24" "w AND NOT 0x007fffff = 0"
proof -
  have on: "unat (of_nat n :: uint32) = n" using assms(2) by (simp add: unsigned_of_nat take_bit_nat_eq_self)
  then have p: "unat (push_bit 24 (of_nat n) :: uint32) = n * 2 ^ 24"
    using assms(2) by (subst unat_push_bit_small) simp_all
  show "unat (w OR push_bit 24 (of_nat n)) = unat w + n * 2 ^ 24"
    using assms(1) p by (subst unat_or_disjoint [where n = 24]) simp_all
  have "\<not> bit w i" if "23 \<le> i" for i
    using assms(1) that by (simp add: bit_unat div_less [OF less_le_trans [OF assms(1) power_increasing [OF that]]])
  then show "w AND NOT 0x007fffff = 0"
    by (intro bit_word_eqI) (auto simp: mantissa_mask bit_and_iff bit_not_iff bit_mask_iff not_less)
qed

lemma compact_value_pack:
  assumes "m < 2 ^ 23" "unat c = m + n * 2 ^ 24"
  shows "compact_value c = (if n \<le> 3 then m div 256 ^ (3 - n) else m * 256 ^ (n - 3))"
    and "\<not> odd (unat c div 2 ^ 23)"
proof -
  have "m + n * 2 ^ 24 = m + 2 ^ 24 * n" "m + n * 2 ^ 24 = m + 2 ^ 23 * (2 * n)" by simp_all
  moreover have "m < 2 ^ 24" using assms(1) by simp
  ultimately have "unat c div 2 ^ 24 = n" "unat c mod 2 ^ 23 = m" "unat c div 2 ^ 23 = 2 * n"
    using div_mult_two_parts [of m "2 ^ 24" n] div_mult_two_parts [OF assms(1), of "2 * n"] assms(2)
    by (simp_all only:)
  then show "compact_value c = (if n \<le> 3 then m div 256 ^ (3 - n) else m * 256 ^ (n - 3))"
    and "\<not> odd (unat c div 2 ^ 23)"
    by (simp_all add: compact_value_def compact_exponent_def compact_mantissa_def)
qed

text \<open>
  What the sign correction leaves: \<open>(m', n')\<close> stands for \<open>v\<close> with its low bytes cut off,
  and at least 15 significant bits are kept.
\<close>

lemma compact_truncation:
  fixes v n :: nat
  assumes v: "v < 256 ^ n" "v \<noteq> 0 \<longrightarrow> 256 ^ (n - 1) \<le> v \<and> 0 < n"
  defines "m \<equiv> (if n \<le> 3 then v * 256 ^ (3 - n) else v div 256 ^ (n - 3))"
  defines "m' \<equiv> (if 2 ^ 23 \<le> m then m div 256 else m)"
    and "n' \<equiv> (if 2 ^ 23 \<le> m then n + 1 else n)"
  shows "(if n' \<le> 3 then m' div 256 ^ (3 - n') else m' * 256 ^ (n' - 3)) = v div 256 ^ (n' - 3) * 256 ^ (n' - 3)"
    and "v \<noteq> 0 \<Longrightarrow> 3 < n' \<Longrightarrow> 2 ^ 15 * 256 ^ (n' - 3) \<le> v"
proof -
  show "(if n' \<le> 3 then m' div 256 ^ (3 - n') else m' * 256 ^ (n' - 3)) = v div 256 ^ (n' - 3) * 256 ^ (n' - 3)"
  proof (cases "2 ^ 23 \<le> m")
    case False
    then have "m' = m" "n' = n" by (simp_all only: m'_def n'_def if_False)
    then show ?thesis by (simp add: m_def)
  next
    case True
    consider "n \<le> 2" | "n = 3" | "3 < n" by linarith
    then show ?thesis
    proof cases
      case 1
      then have "3 - n = Suc (2 - n)" by simp
      with True 1 show ?thesis by (simp add: m'_def n'_def m_def)
    next
      case 2
      with True show ?thesis by (simp add: m'_def n'_def m_def)
    next
      case 3
      then have "n + 1 - 3 = Suc (n - 3)" by simp
      then have "(256::nat) ^ (n + 1 - 3) = 256 ^ (n - 3) * 256" by simp
      then have "m div 256 * 256 ^ (n + 1 - 3) = v div 256 ^ (n + 1 - 3) * 256 ^ (n + 1 - 3)"
        using 3 by (simp only: m_def div_mult2_eq) simp
      with True 3 show ?thesis by (simp add: m'_def n'_def)
    qed
  qed
  assume nz: "v \<noteq> 0" and big: "3 < n'"
  show "2 ^ 15 * 256 ^ (n' - 3) \<le> v"
  proof (cases "2 ^ 23 \<le> m")
    case False
    then have "n' = n" by (simp add: n'_def)
    then have "n - 1 = 2 + (n' - 3)" using big by simp
    moreover have "256 ^ (n - 1) \<le> v" using v(2) nz by blast
    ultimately have "256 ^ 2 * 256 ^ (n' - 3) \<le> v" by (simp only: power_add)
    then show ?thesis by simp
  next
    case True
    then have n': "n' = n + 1" by (simp add: n'_def)
    show ?thesis
    proof (cases "n = 3")
      case True
      with \<open>2 ^ 23 \<le> m\<close> n' show ?thesis by (simp add: m_def)
    next
      case False
      with big n' have "3 < n" by simp
      then have "2 ^ 23 \<le> v div 256 ^ (n - 3)" using \<open>2 ^ 23 \<le> m\<close> by (simp add: m_def)
      then have "2 ^ 23 * 256 ^ (n - 3) \<le> v div 256 ^ (n - 3) * 256 ^ (n - 3)" by (rule mult_le_mono1)
      also have "\<dots> \<le> v" by simp
      also have "(2::nat) ^ 23 * 256 ^ (n - 3) = 2 ^ 15 * 256 ^ (n' - 3)"
      proof -
        have "n' - 3 = Suc (n - 3)" using n' \<open>3 < n\<close> by simp
        then show ?thesis by simp
      qed
      finally show ?thesis .
    qed
  qed
qed

lemma GetCompact_value:
  assumes len: "length t = 8"
  obtains c k where "GetCompact False t = Some c"
    and "compact_value c = bu_val t div 256 ^ k * 256 ^ k"
    and "0 < k \<Longrightarrow> bu_val t \<noteq> 0 \<Longrightarrow> 2 ^ 15 * 256 ^ k \<le> bu_val t" and "\<not> odd (unat c div 2 ^ 23)"
proof -
  define n where n: "n = (bu_bits t + 7) div 8"
  define w where w: "w = (if n \<le> 3 then ucast (push_bit (8 * (3 - n)) (bu_GetLow64 t))
                else ucast (bu_GetLow64 (bu_shr t (8 * (n - 3)))) :: uint32)"
  let ?m = "if n \<le> 3 then bu_val t * 256 ^ (3 - n) else bu_val t div 256 ^ (n - 3)"
  let ?m' = "if 2 ^ 23 \<le> ?m then ?m div 256 else ?m" and ?n' = "if 2 ^ 23 \<le> ?m then n + 1 else n"
  have m: "unat w = ?m" "?m < 2 ^ 24" using GetCompact_word [OF len n] by (simp_all only: w)
  have nle: "n \<le> 32" using bu_bits_le [of t] len by (simp add: n)
  have sgn: "w AND 0x00800000 \<noteq> 0 \<longleftrightarrow> 2 ^ 23 \<le> ?m"
  proof -
    have "unat w div 2 ^ 23 < 2" using m by simp
    then have "odd (unat w div 2 ^ 23) \<longleftrightarrow> unat w div 2 ^ 23 \<noteq> 0"
      using less_2_cases [of "unat w div 2 ^ 23"] by auto
    also have "\<dots> \<longleftrightarrow> 2 ^ 23 \<le> ?m" by (simp only: m(1)) (simp add: div_eq_0_iff not_less)
    finally show ?thesis by (simp only: unat_signbit)
  qed
  define w' where "w' = (if w AND 0x00800000 \<noteq> 0 then drop_bit 8 w else w)"
  have m': "unat w' = ?m'"
  proof (cases "2 ^ 23 \<le> ?m")
    case True
    then have "unat w' = unat w div 2 ^ 8" using sgn by (simp only: w'_def if_True unat_drop_bit)
    then show ?thesis using True by (simp only: m(1) if_True) simp
  next
    case False
    then show ?thesis using sgn by (simp only: w'_def if_False m(1) not_not)
  qed
  have m'lt: "?m' < 2 ^ 23"
  proof (cases "2 ^ 23 \<le> ?m")
    case True
    have "?m div 256 < 2 ^ 23" using m(2) by (simp add: less_mult_imp_div_less)
    then show ?thesis using True by (simp only: if_True)
  next
    case False
    then have "?m < 2 ^ 23" by (simp only: not_le)
    then show ?thesis using False by (simp only: if_False)
  qed
  have n'lt: "?n' < 256" using nle by simp
  define c where "c = w' OR push_bit 24 (of_nat ?n')"
  have c: "unat c = ?m' + ?n' * 2 ^ 24" "w' AND NOT 0x007fffff = 0"
    using compact_pack [of w' ?n'] m' m'lt n'lt by (simp_all only: c_def)
  have "GetCompact False t = Some c"
    using c(2) n'lt sgn by (auto simp: GetCompact_def Let_def n [symmetric] w [symmetric] w'_def c_def)
  moreover have "compact_value c = bu_val t div 256 ^ (?n' - 3) * 256 ^ (?n' - 3)"
    using compact_value_pack(1) [OF m'lt c(1)]
      compact_truncation(1) [OF GetCompact_bytes [OF n]] by (simp only:)
  moreover have "0 < ?n' - 3 \<Longrightarrow> bu_val t \<noteq> 0 \<Longrightarrow> 2 ^ 15 * 256 ^ (?n' - 3) \<le> bu_val t"
    using compact_truncation(2) [OF GetCompact_bytes [OF n]] by simp
  moreover have "\<not> odd (unat c div 2 ^ 23)" by (rule compact_value_pack(2) [OF m'lt c(1)])
  ultimately show ?thesis by (rule that)
qed

section \<open>The compact form keeps the size and fifteen bits\<close>

lemma compact_plus_1: "compact_value c mod 2 ^ 256 + 1 < 2 ^ 256"
proof (cases "compact_exponent c \<le> 3")
  case True
  have "compact_value c \<le> compact_mantissa c" using True by (simp add: compact_value_def div_le_dividend)
  also have "\<dots> < 2 ^ 23" by (simp add: compact_mantissa_def)
  finally show ?thesis by simp
next
  case False
  then have "even (compact_value c)" by (simp add: compact_value_def)
  then have "even (compact_value c mod 2 ^ 256)" by (simp add: even_mod_2_iff mod2_eq_if dvd_mod)
  moreover have "compact_value c mod 2 ^ 256 < 2 ^ 256" by simp
  ultimately show ?thesis by (metis Suc_eq_plus1 Suc_lessI even_Suc even_power even_numeral zero_less_numeral)
qed

lemma GetCompact_SetCompact:
  assumes "length t = 8"
  shows "\<exists>c u. GetCompact False t = Some c \<and> SetCompact c = (u, False, False) \<and> length u = 8 \<and>
    bu_val u \<le> bu_val t \<and> (bu_val t - bu_val u) * 2 ^ 15 \<le> bu_val t"
proof -
  obtain c k where c: "GetCompact False t = Some c"
    and v: "compact_value c = bu_val t div 256 ^ k * 256 ^ k"
    and big: "0 < k \<Longrightarrow> bu_val t \<noteq> 0 \<Longrightarrow> 2 ^ 15 * 256 ^ k \<le> bu_val t" and s: "\<not> odd (unat c div 2 ^ 23)"
    using GetCompact_value [OF assms] by blast
  have le: "compact_value c \<le> bu_val t" by (simp add: v)
  have bound: "bu_val t < 2 ^ 256" using bu_val_bound [of t] assms by simp
  obtain u n ov where sc: "SetCompact c = (u, n, ov)" by (cases "SetCompact c")
  have u: "length u = 8" "bu_val u = compact_value c" "\<not> n" "\<not> ov"
    using length_SetCompact [of c] SetCompact_val [of c] SetCompact_negative [of c] SetCompact_overflow [of c]
      sc s le bound by simp_all
  have "bu_val t - bu_val u = bu_val t mod 256 ^ k" by (simp add: u(2) v minus_div_mult_eq_mod)
  moreover have "bu_val t mod 256 ^ k * 2 ^ 15 \<le> bu_val t"
  proof (cases "k = 0 \<or> bu_val t = 0")
    case False
    have "bu_val t mod 256 ^ k \<le> 256 ^ k" by (simp add: less_imp_le)
    then have "bu_val t mod 256 ^ k * 2 ^ 15 \<le> 256 ^ k * 2 ^ 15" by (rule mult_le_mono1)
    also have "\<dots> \<le> bu_val t" using big False by (simp add: mult.commute)
    finally show ?thesis .
  qed auto
  ultimately show ?thesis using c sc u le by auto
qed

text \<open>C39: Encoding any 256-bit target with \<open>GetCompact\<close> never fails an \<open>assert\<close>, and
  \<open>SetCompact\<close> reads the result back without a sign or an overflow as a target that is not
  larger than the original and loses at most one part in \<open>2^15\<close>.\<close>

theorem compact_roundtrip:
  assumes "length t = 8"
  shows "\<exists>c u. GetCompact False t = Some c \<and> SetCompact c = (u, False, False) \<and> length u = 8 \<and>
    bu_val u \<le> bu_val t \<and> (bu_val t - bu_val u) * 2 ^ 15 \<le> bu_val t"
  by (rule GetCompact_SetCompact [OF assms])

theorem compact_roundtrip_witness:
  "\<exists>c u. GetCompact False [0xffffffff, 0x12345678, 0, 0, 0, 0, 0, 0] = Some c \<and> SetCompact c = (u, False, False)"
  using compact_roundtrip [of "[0xffffffff, 0x12345678, 0, 0, 0, 0, 0, 0]"] by auto

end
