(* ===== verification/ChainParams.thy ===== *)
theory ChainParams
  imports UintForms
begin

text \<open>
  \<open>src/src/chainparams.cpp\<close>: the consensus parameters of the four networks. The record
  keeps the fields of \<open>CChainParams\<close> that validation reads; \<open>CMainParams\<close> is a sequence of
  assignments to a blank object, and the other networks assign over it as the derived
  constructors do. Keys, seeds, ports, address prefixes, the genesis block and the
  zerocoin modulus are left out.
\<close>

datatype Network = MAIN | TESTNET | REGTEST | UNITTEST

definition COIN :: int where "COIN = 100000000"

definition CENT :: int where "CENT = 1000000"

record CChainParams =
  networkID :: Network
  bnProofOfWorkLimit :: base_uint
  nSubsidyHalvingInterval :: int
  nMaxReorganizationDepth :: int
  nEnforceBlockUpgradeMajority :: int
  nRejectBlockOutdatedMajority :: int
  nToCheckBlockUpgradeMajority :: int
  nTargetTimespan :: int
  nTargetSpacing :: int
  nMaturity :: int
  nMasternodeCountDrift :: int
  nMaxMoneyOut :: int
  nLastPOWBlock :: int
  nFirstPoSBlock :: int
  nModifierUpdateBlock :: int
  nZerocoinStartHeight :: int
  nZerocoinStartTime :: int
  nBlockZerocoinV2 :: int
  nEnforceNewSporkKey :: int
  nRejectOldSporkKey :: int
  nPublicZCSpends :: int
  nFakeSerialBlockheightEnd :: int
  fAllowMinDifficultyBlocks :: bool
  fMineBlocksOnDemand :: bool
  fSkipProofOfWorkCheck :: bool
  fRequireStandard :: bool
  nBudgetCycleBlocks :: int
  nStartMasternodePayments :: int
  nBudget_Fee_Confirmations :: int
  nProposalEstablishmentTime :: int
  nZerocoinHeaderVersion :: int
  nBlockRecalculateAccumulators :: int
  nBlockEnforceInvalidUTXO :: int

definition pow_limit :: "nat \<Rightarrow> base_uint" where
  "pow_limit shift = bu_shr (bu_not (bu_of_uint64 8 0)) shift"

definition JULIAN_YEAR_SECONDS :: int where "JULIAN_YEAR_SECONDS = 31557600"

text \<open>The constructor of \<open>CMainParams\<close>.\<close>

definition main_params :: CChainParams where
  "main_params =
    \<lparr>networkID = MAIN,
     bnProofOfWorkLimit = pow_limit 20,
     nSubsidyHalvingInterval = 210000,
     nMaxReorganizationDepth = 100,
     nEnforceBlockUpgradeMajority = 0,
     nRejectBlockOutdatedMajority = 0,
     nToCheckBlockUpgradeMajority = 0,
     nTargetTimespan = 10 * 60,
     nTargetSpacing = 10 * 60,
     nMaturity = 20,
     nMasternodeCountDrift = 20,
     nMaxMoneyOut = 7766279631352241920,
     nLastPOWBlock = (50 * JULIAN_YEAR_SECONDS) div (10 * 60),
     nFirstPoSBlock = 2,
     nModifierUpdateBlock = 2,
     nZerocoinStartHeight = 0,
     nZerocoinStartTime = 1643790201,
     nBlockZerocoinV2 = 999999999,
     nEnforceNewSporkKey = 1643790201,
     nRejectOldSporkKey = 1527811200,
     nPublicZCSpends = 1,
     nFakeSerialBlockheightEnd = 0,
     fAllowMinDifficultyBlocks = False,
     fMineBlocksOnDemand = False,
     fSkipProofOfWorkCheck = False,
     fRequireStandard = True,
     nBudgetCycleBlocks = 4320,
     nStartMasternodePayments = 1643790201,
     nBudget_Fee_Confirmations = 6,
     nProposalEstablishmentTime = 60 * 60 * 24,
     nZerocoinHeaderVersion = 4,
     nBlockRecalculateAccumulators = 999999999,
     nBlockEnforceInvalidUTXO = 999999999\<rparr>"

definition test_params :: CChainParams where
  "test_params = main_params
    \<lparr>networkID := TESTNET,
     nEnforceBlockUpgradeMajority := 0,
     nRejectBlockOutdatedMajority := 0,
     nToCheckBlockUpgradeMajority := 0,
     nTargetTimespan := 10 * 60,
     nTargetSpacing := 10 * 60,
     nLastPOWBlock := 200,
     nFirstPoSBlock := 2,
     nMaturity := 15,
     nMasternodeCountDrift := 4,
     nModifierUpdateBlock := 2,
     nMaxMoneyOut := 43199500 * COIN,
     nZerocoinStartHeight := 0,
     nZerocoinStartTime := 1643790201,
     nBlockZerocoinV2 := 999999999,
     nEnforceNewSporkKey := 1643790201,
     nRejectOldSporkKey := 1522454400,
     nPublicZCSpends := 1,
     nFakeSerialBlockheightEnd := -1,
     fAllowMinDifficultyBlocks := True,
     fRequireStandard := True,
     fMineBlocksOnDemand := False,
     nBudgetCycleBlocks := 144,
     nStartMasternodePayments := 1643790201,
     nBudget_Fee_Confirmations := 3,
     nProposalEstablishmentTime := 60 * 5\<rparr>"

definition regtest_params :: CChainParams where
  "regtest_params = test_params
    \<lparr>networkID := REGTEST,
     nSubsidyHalvingInterval := 150,
     nEnforceBlockUpgradeMajority := 0,
     nRejectBlockOutdatedMajority := 0,
     nToCheckBlockUpgradeMajority := 0,
     nTargetTimespan := 24 * 60 * 60,
     nTargetSpacing := 1 * 60,
     bnProofOfWorkLimit := pow_limit 1,
     nLastPOWBlock := 250,
     nFirstPoSBlock := 2,
     nMaturity := 20,
     nMasternodeCountDrift := 4,
     nModifierUpdateBlock := 2,
     nMaxMoneyOut := 43199500 * COIN,
     nZerocoinStartHeight := 300,
     nBlockZerocoinV2 := 300,
     nZerocoinStartTime := 1643790201,
     nPublicZCSpends := 350,
     nFakeSerialBlockheightEnd := -1,
     fAllowMinDifficultyBlocks := True,
     fRequireStandard := False,
     fMineBlocksOnDemand := True,
     fSkipProofOfWorkCheck := True\<rparr>"

definition unittest_params :: CChainParams where
  "unittest_params = main_params
    \<lparr>networkID := UNITTEST,
     fAllowMinDifficultyBlocks := False,
     fMineBlocksOnDemand := True\<rparr>"

fun Params :: "Network \<Rightarrow> CChainParams" where
  "Params MAIN = main_params"
| "Params TESTNET = test_params"
| "Params REGTEST = regtest_params"
| "Params UNITTEST = unittest_params"

lemmas params_defs = main_params_def test_params_def regtest_params_def unittest_params_def

lemma bu_val_0_64 [simp]: "bu_val (bu_of_uint64 8 0) = 0"
  by (simp add: bu_val_of_uint64)

lemma length_pow_limit [simp]: "length (pow_limit n) = 8"
  by (simp add: pow_limit_def)

lemma bu_val_pow_limit: "bu_val (pow_limit n) = (2 ^ 256 - 1) div 2 ^ n"
proof -
  have "bu_val (bu_not (bu_of_uint64 8 0)) = 2 ^ 256 - 1"
    by (simp only: bu_val_not bu_val_0_64 length_bu_of_uint64) simp
  then show ?thesis by (simp only: pow_limit_def bu_val_shr)
qed

lemma pow_limit_cases: "bnProofOfWorkLimit (Params n) = pow_limit 20 \<or> bnProofOfWorkLimit (Params n) = pow_limit 1"
  by (cases n) (simp_all add: params_defs)

section \<open>Ranges and subsidies\<close>

text \<open>\<open>MoneyRange\<close> and the subsidy functions of \<open>src/src/main.cpp\<close>.\<close>

definition MoneyRange :: "CChainParams \<Rightarrow> int \<Rightarrow> bool" where
  "MoneyRange P nValueOut \<longleftrightarrow> 0 \<le> nValueOut \<and> nValueOut \<le> nMaxMoneyOut P"

definition GetBlockValue :: "CChainParams \<Rightarrow> int \<Rightarrow> bool \<Rightarrow> int" where
  "GetBlockValue P nHeight fProofOfStake =
     (if nHeight = 0 then 5000000000 * COIN
      else if fProofOfStake then 10 * COIN
      else if 0 < nHeight \<and> nHeight \<le> nLastPOWBlock P then 50 * COIN
      else 0)"

text \<open>
  \<open>blockValue * 0.25\<close> is computed in \<open>double\<close> and truncated. For amounts below \<open>2 ^ 53\<close> in
  absolute value, which a \<open>double\<close> and its quarter hold exactly, that is division by 4
  rounding towards 0. The masternode count and the stake kind are not used.
\<close>

definition GetMasternodePayment :: "CChainParams \<Rightarrow> int \<Rightarrow> int \<Rightarrow> int \<Rightarrow> bool \<Rightarrow> int" where
  "GetMasternodePayment P nHeight blockValue nMasternodeCount isZAGRStake =
     (if networkID P = TESTNET \<and> nHeight < 200 then 0
      else sgn blockValue * (\<bar>blockValue\<bar> div 4))"

end
