(* ===== verification/BlockIndex.thy ===== *)
theory BlockIndex
  imports ChainParams
begin

text \<open>
  The block tree and the active chain: \<open>CBlockIndex\<close> and \<open>CChain\<close> of \<open>src/src/chain.h\<close> and
  \<open>src/src/chain.cpp\<close>, with the skip list of \<open>src/src/main.cpp\<close>. The entries live in a
  store, a map from addresses to records; a pointer is an address or NULL
  (\<open>None\<close>). Walks along \<open>pprev\<close> that the code bounds by nothing but the shape of the
  tree are \<open>partial_function\<close>s, so their ending is a theorem.
\<close>

type_synonym ptr = nat

text \<open>A 256-bit hash, used only through equality, order and its low bits.\<close>

type_synonym hash256 = "256 word"

record CBlockIndex =
  phashBlock :: hash256
  pprev :: "ptr option"
  pskip :: "ptr option"
  nHeight :: nat
  nStatus :: uint32
  nFlags :: uint32
  nVersion :: int
  nTime :: uint32
  nBits :: uint32
  nStakeModifier :: uint64
  bnChainTrust :: base_uint
  nChainWork :: base_uint

type_synonym store = "ptr \<Rightarrow> CBlockIndex"

section \<open>Flags and status\<close>

definition BLOCK_PROOF_OF_STAKE :: uint32 where "BLOCK_PROOF_OF_STAKE = 1"
definition BLOCK_STAKE_ENTROPY :: uint32 where "BLOCK_STAKE_ENTROPY = 2"
definition BLOCK_STAKE_MODIFIER :: uint32 where "BLOCK_STAKE_MODIFIER = 4"
definition BLOCK_VALID_HEADER :: uint32 where "BLOCK_VALID_HEADER = 1"
definition BLOCK_VALID_TREE :: uint32 where "BLOCK_VALID_TREE = 2"
definition BLOCK_VALID_TRANSACTIONS :: uint32 where "BLOCK_VALID_TRANSACTIONS = 3"
definition BLOCK_VALID_CHAIN :: uint32 where "BLOCK_VALID_CHAIN = 4"
definition BLOCK_VALID_SCRIPTS :: uint32 where "BLOCK_VALID_SCRIPTS = 5"
definition BLOCK_VALID_MASK :: uint32 where
  "BLOCK_VALID_MASK = BLOCK_VALID_HEADER OR BLOCK_VALID_TREE OR BLOCK_VALID_TRANSACTIONS
     OR BLOCK_VALID_CHAIN OR BLOCK_VALID_SCRIPTS"
definition BLOCK_HAVE_DATA :: uint32 where "BLOCK_HAVE_DATA = 8"
definition BLOCK_HAVE_UNDO :: uint32 where "BLOCK_HAVE_UNDO = 16"
definition BLOCK_FAILED_VALID :: uint32 where "BLOCK_FAILED_VALID = 32"
definition BLOCK_FAILED_CHILD :: uint32 where "BLOCK_FAILED_CHILD = 64"
definition BLOCK_FAILED_MASK :: uint32 where
  "BLOCK_FAILED_MASK = BLOCK_FAILED_VALID OR BLOCK_FAILED_CHILD"

lemmas block_flag_defs = BLOCK_PROOF_OF_STAKE_def BLOCK_STAKE_ENTROPY_def BLOCK_STAKE_MODIFIER_def
  BLOCK_VALID_HEADER_def BLOCK_VALID_TREE_def BLOCK_VALID_TRANSACTIONS_def BLOCK_VALID_CHAIN_def
  BLOCK_VALID_SCRIPTS_def BLOCK_VALID_MASK_def BLOCK_HAVE_DATA_def BLOCK_HAVE_UNDO_def
  BLOCK_FAILED_VALID_def BLOCK_FAILED_CHILD_def BLOCK_FAILED_MASK_def

definition IsProofOfStake :: "CBlockIndex \<Rightarrow> bool" where
  "IsProofOfStake b \<longleftrightarrow> nFlags b AND BLOCK_PROOF_OF_STAKE \<noteq> 0"

definition IsProofOfWork :: "CBlockIndex \<Rightarrow> bool" where
  "IsProofOfWork b \<longleftrightarrow> \<not> (nFlags b AND BLOCK_PROOF_OF_STAKE \<noteq> 0)"

definition SetProofOfStake :: "CBlockIndex \<Rightarrow> CBlockIndex" where
  "SetProofOfStake b = b\<lparr>nFlags := nFlags b OR BLOCK_PROOF_OF_STAKE\<rparr>"

definition GetStakeEntropyBit :: "CBlockIndex \<Rightarrow> nat" where
  "GetStakeEntropyBit b = (if bit (phashBlock b) 0 then 1 else 0)"

definition SetStakeEntropyBit :: "nat \<Rightarrow> CBlockIndex \<Rightarrow> bool \<times> CBlockIndex" where
  "SetStakeEntropyBit nEntropyBit b =
     (if 1 < nEntropyBit then (False, b)
      else (True, b\<lparr>nFlags := nFlags b OR (if nEntropyBit \<noteq> 0 then BLOCK_STAKE_ENTROPY else 0)\<rparr>))"

definition GeneratedStakeModifier :: "CBlockIndex \<Rightarrow> bool" where
  "GeneratedStakeModifier b \<longleftrightarrow> nFlags b AND BLOCK_STAKE_MODIFIER \<noteq> 0"

definition SetStakeModifier :: "uint64 \<Rightarrow> bool \<Rightarrow> CBlockIndex \<Rightarrow> CBlockIndex" where
  "SetStakeModifier nModifier fGenerated b =
     (let b = b\<lparr>nStakeModifier := nModifier\<rparr>
      in if fGenerated then b\<lparr>nFlags := nFlags b OR BLOCK_STAKE_MODIFIER\<rparr> else b)"

text \<open>\<open>None\<close> is the failed \<open>assert\<close> that only validity flags are passed.\<close>

definition IsValid :: "uint32 \<Rightarrow> CBlockIndex \<Rightarrow> bool option" where
  "IsValid nUpTo b =
     (if nUpTo AND NOT BLOCK_VALID_MASK \<noteq> 0 then None
      else if nStatus b AND BLOCK_FAILED_MASK \<noteq> 0 then Some False
      else Some (nUpTo \<le> nStatus b AND BLOCK_VALID_MASK))"

definition RaiseValidity :: "uint32 \<Rightarrow> CBlockIndex \<Rightarrow> (bool \<times> CBlockIndex) option" where
  "RaiseValidity nUpTo b =
     (if nUpTo AND NOT BLOCK_VALID_MASK \<noteq> 0 then None
      else if nStatus b AND BLOCK_FAILED_MASK \<noteq> 0 then Some (False, b)
      else if nStatus b AND BLOCK_VALID_MASK < nUpTo
           then Some (True, b\<lparr>nStatus := (nStatus b AND NOT BLOCK_VALID_MASK) OR nUpTo\<rparr>)
      else Some (False, b))"

section \<open>Times and versions along the chain\<close>

definition GetBlockTime :: "CBlockIndex \<Rightarrow> int" where
  "GetBlockTime b = int (unat (nTime b))"

text \<open>The at most \<open>nMedianTimeSpan = 11\<close> times \<open>GetMedianTimePast\<close> collects, from \<open>this\<close> back.\<close>

fun past_times :: "store \<Rightarrow> nat \<Rightarrow> ptr option \<Rightarrow> int list" where
  "past_times st 0 pindex = []"
| "past_times st (Suc n) None = []"
| "past_times st (Suc n) (Some p) = GetBlockTime (st p) # past_times st n (pprev (st p))"

definition GetMedianTimePast :: "store \<Rightarrow> ptr \<Rightarrow> int" where
  "GetMedianTimePast st p =
     (let times = past_times st 11 (Some p) in sort times ! (length times div 2))"

fun super_majority_loop :: "store \<Rightarrow> int \<Rightarrow> nat \<Rightarrow> nat \<Rightarrow> ptr option \<Rightarrow> nat \<Rightarrow> nat" where
  "super_majority_loop st minVersion nRequired 0 pstart nFound = nFound"
| "super_majority_loop st minVersion nRequired (Suc n) pstart nFound =
     (case pstart of
        None \<Rightarrow> nFound
      | Some p \<Rightarrow>
          if nFound < nRequired
          then super_majority_loop st minVersion nRequired n (pprev (st p))
                 (if minVersion \<le> nVersion (st p) then nFound + 1 else nFound)
          else nFound)"

definition IsSuperMajority :: "CChainParams \<Rightarrow> store \<Rightarrow> int \<Rightarrow> ptr option \<Rightarrow> nat \<Rightarrow> bool" where
  "IsSuperMajority P st minVersion pstart nRequired \<longleftrightarrow>
     nRequired \<le> super_majority_loop st minVersion nRequired
       (nat (nToCheckBlockUpgradeMajority P)) pstart 0"

section \<open>The skip list\<close>

definition InvertLowestOne :: "nat \<Rightarrow> nat" where
  "InvertLowestOne n = (if n = 0 then 0 else n AND (n - 1))"

definition GetSkipHeight :: "nat \<Rightarrow> nat" where
  "GetSkipHeight height =
     (if height < 2 then 0
      else if odd height then InvertLowestOne (InvertLowestOne (height - 1)) + 1
      else InvertLowestOne height)"

lemma InvertLowestOne_le: "InvertLowestOne n \<le> n - 1"
  by (simp add: InvertLowestOne_def and_nat_def nat_le_iff)

lemma GetSkipHeight_less: "0 < h \<Longrightarrow> GetSkipHeight h < h"
  using InvertLowestOne_le [of h] InvertLowestOne_le [of "h - 1"]
    InvertLowestOne_le [of "InvertLowestOne (h - 1)"]
  by (auto simp: GetSkipHeight_def)

text \<open>
  The loop of \<open>GetAncestor\<close>. The outer \<open>None\<close> is a NULL dereference, which crashes the
  program; \<open>Some None\<close> is the returned NULL.
\<close>

function ancestor_walk :: "store \<Rightarrow> nat \<Rightarrow> ptr option \<Rightarrow> nat \<Rightarrow> ptr option option" where
  "ancestor_walk st height pindexWalk heightWalk =
     (if height < heightWalk then
        (case pindexWalk of
           None \<Rightarrow> None
         | Some p \<Rightarrow>
             let heightSkip = GetSkipHeight heightWalk;
                 heightSkipPrev = GetSkipHeight (heightWalk - 1)
             in if heightSkip = height \<or>
                   (height < heightSkip \<and>
                    \<not> (int heightSkipPrev < int heightSkip - 2 \<and> height \<le> heightSkipPrev))
                then ancestor_walk st height (pskip (st p)) heightSkip
                else ancestor_walk st height (pprev (st p)) (heightWalk - 1))
      else Some pindexWalk)"
  by pat_completeness auto
termination
  by (relation "measure (\<lambda>(st, height, w, heightWalk). heightWalk)") (auto simp: GetSkipHeight_less)

declare ancestor_walk.simps [simp del]

definition GetAncestor :: "store \<Rightarrow> ptr \<Rightarrow> int \<Rightarrow> ptr option option" where
  "GetAncestor st p height =
     (if int (nHeight (st p)) < height \<or> height < 0 then Some None
      else ancestor_walk st (nat height) (Some p) (nHeight (st p)))"

definition BuildSkip :: "store \<Rightarrow> ptr \<Rightarrow> store option" where
  "BuildSkip st p =
     (case pprev (st p) of
        None \<Rightarrow> Some st
      | Some q \<Rightarrow>
          (case GetAncestor st q (int (GetSkipHeight (nHeight (st p)))) of
             None \<Rightarrow> None
           | Some a \<Rightarrow> Some (st(p := (st p)\<lparr>pskip := a\<rparr>))))"

section \<open>The well-formed tree and the reference ancestor\<close>

text \<open>\<open>climb st n p\<close> follows \<open>pprev\<close> \<open>n\<close> times.\<close>

fun climb :: "store \<Rightarrow> nat \<Rightarrow> ptr \<Rightarrow> ptr option" where
  "climb st 0 p = Some p"
| "climb st (Suc n) p = (case pprev (st p) of None \<Rightarrow> None | Some q \<Rightarrow> climb st n q)"

text \<open>
  The invariant of the block tree on the set \<open>S\<close> of entries: heights count the distance to
  a genesis block, and the skip pointer of a non-genesis block is its ancestor at the skip
  height.
\<close>

definition wf_tree :: "store \<Rightarrow> ptr set \<Rightarrow> bool" where
  "wf_tree st S \<longleftrightarrow>
     (\<forall>p \<in> S. case pprev (st p) of
        None \<Rightarrow> nHeight (st p) = 0
      | Some q \<Rightarrow> q \<in> S \<and> nHeight (st p) = nHeight (st q) + 1 \<and>
          pskip (st p) = climb st (nHeight (st p) - GetSkipHeight (nHeight (st p))) p)"

lemma wf_treeD:
  assumes "wf_tree st S" "p \<in> S"
  shows "pprev (st p) = None \<Longrightarrow> nHeight (st p) = 0"
    and "pprev (st p) = Some q \<Longrightarrow> q \<in> S \<and> nHeight (st p) = Suc (nHeight (st q)) \<and>
          pskip (st p) = climb st (nHeight (st p) - GetSkipHeight (nHeight (st p))) p"
  using assms by (auto simp: wf_tree_def split: option.splits)

lemma climb_total:
  "wf_tree st S \<Longrightarrow> p \<in> S \<Longrightarrow> n \<le> nHeight (st p) \<Longrightarrow>
   \<exists>q \<in> S. climb st n p = Some q \<and> nHeight (st q) = nHeight (st p) - n"
proof (induction n arbitrary: p)
  case (Suc n)
  then obtain q where q: "pprev (st p) = Some q" using wf_treeD(1) [of st S p] by fastforce
  with Suc.prems have "q \<in> S" "nHeight (st p) = Suc (nHeight (st q))" by (auto dest: wf_treeD(2))
  with Suc.IH [of q] Suc.prems q show ?case by auto
qed auto

lemma climb_add: "climb st m p = Some q \<Longrightarrow> climb st (m + n) p = climb st n q"
  by (induction m arbitrary: p) (auto split: option.splits)

lemma climb_Suc_prev: "climb st m p = Some q \<Longrightarrow> climb st (Suc m) p = pprev (st q)"
  using climb_add [of st m p q 1] by (auto split: option.splits)

lemma ancestor_walk_climb:
  assumes wf: "wf_tree st S"
  shows "p \<in> S \<Longrightarrow> nHeight (st p) = hw \<Longrightarrow> height \<le> hw \<Longrightarrow>
    ancestor_walk st height (Some p) hw = Some (climb st (hw - height) p)"
proof (induction hw arbitrary: p rule: less_induct)
  case (less hw)
  show ?case
  proof (cases "height < hw")
    case False
    with less.prems have "hw = height" by simp
      moreover have "ancestor_walk st height (Some p) height = Some (Some p)"
        by (subst ancestor_walk.simps) (rule if_not_P, rule less_irrefl)
      ultimately show ?thesis by simp
  next
    case True
    then obtain q where q: "pprev (st p) = Some q"
      using wf_treeD(1) [OF wf less.prems(1)] less.prems(2) by fastforce
    have qS: "q \<in> S" "hw = Suc (nHeight (st q))"
      and sk: "pskip (st p) = climb st (hw - GetSkipHeight hw) p"
      using wf_treeD(2) [OF wf less.prems(1) q] less.prems(2) by auto
    have lt: "GetSkipHeight hw < hw" using True by (intro GetSkipHeight_less) simp
    obtain s where s: "s \<in> S" "climb st (hw - GetSkipHeight hw) p = Some s" "nHeight (st s) = GetSkipHeight hw"
      using climb_total [OF wf less.prems(1), of "hw - GetSkipHeight hw"] less.prems(2) lt by auto
    have skip: "ancestor_walk st height (pskip (st p)) (GetSkipHeight hw) = Some (climb st (hw - height) p)"
      if "height \<le> GetSkipHeight hw"
    proof -
      have "climb st (hw - height) p = climb st (GetSkipHeight hw - height) s"
        using climb_add [OF s(2), of "GetSkipHeight hw - height"] that lt by simp
      then show ?thesis unfolding sk s(2) by (simp only: less.IH [OF lt s(1) s(3) that])
    qed
    have prev: "ancestor_walk st height (pprev (st p)) (hw - 1) = Some (climb st (hw - height) p)"
    proof -
      have "hw - height = Suc (hw - 1 - height)" using True by simp
      then have "climb st (hw - height) p = climb st (hw - 1 - height) q" using q by simp
      moreover have "hw - 1 < hw" "nHeight (st q) = hw - 1" "height \<le> hw - 1" using qS True by simp_all
      ultimately show ?thesis unfolding q by (simp only: less.IH [OF _ qS(1)])
    qed
    have step: "ancestor_walk st height (Some p) hw =
      (if GetSkipHeight hw = height \<or> (height < GetSkipHeight hw \<and>
           \<not> (int (GetSkipHeight (hw - 1)) < int (GetSkipHeight hw) - 2 \<and> height \<le> GetSkipHeight (hw - 1)))
       then ancestor_walk st height (pskip (st p)) (GetSkipHeight hw)
       else ancestor_walk st height (pprev (st p)) (hw - 1))"
      using True by (subst ancestor_walk.simps) (simp only: if_True option.case Let_def)
    show ?thesis
      unfolding step using skip prev by (metis order.order_iff_strict)
  qed
qed

lemma GetAncestor_climb:
  assumes "wf_tree st S" "p \<in> S"
  shows "GetAncestor st p height =
    Some (if height < 0 \<or> int (nHeight (st p)) < height then None
          else climb st (nHeight (st p) - nat height) p)"
  using ancestor_walk_climb [OF assms(1,2) refl, of "nat height"]
  by (auto simp: GetAncestor_def)

lemma climb_update:
  "p \<notin> S \<Longrightarrow> wf_tree st S \<Longrightarrow> r \<in> S \<Longrightarrow> climb (st(p := b)) n r = climb st n r"
proof (induction n arbitrary: r)
  case (Suc n)
  then have "r \<noteq> p" by auto
  with Suc show ?case by (auto split: option.splits dest: wf_treeD(2))
qed simp

text \<open>
  Adding an entry the way \<open>AddToBlockIndex\<close> does (its \<open>pprev\<close> in the tree, its height one more,
  then \<open>BuildSkip\<close>) keeps the tree well formed and never crashes.
\<close>

lemma BuildSkip_wf:
  assumes wf: "wf_tree st S" and p: "p \<notin> S" "pprev (st p) = Some q" "q \<in> S"
    and h: "nHeight (st p) = nHeight (st q) + 1"
  shows "\<exists>st'. BuildSkip st p = Some st' \<and> wf_tree st' (insert p S) \<and> (\<forall>r \<in> S. st' r = st r)"
proof -
  let ?sh = "GetSkipHeight (nHeight (st p))"
  have lt: "?sh < nHeight (st p)" using h by (intro GetSkipHeight_less) simp
  then have "GetAncestor st q (int ?sh) = Some (climb st (nHeight (st q) - ?sh) q)"
    using GetAncestor_climb [OF wf p(3), of "int ?sh"] h by simp
  moreover have "nHeight (st p) - ?sh = Suc (nHeight (st q) - ?sh)" using lt h by simp
  then have c: "climb st (nHeight (st p) - ?sh) p = climb st (nHeight (st q) - ?sh) q"
    using p(2) by simp
  moreover define st' where "st' = st(p := (st p)\<lparr>pskip := climb st (nHeight (st q) - ?sh) q\<rparr>)"
  ultimately have b: "BuildSkip st p = Some st'" using p(2) by (simp add: BuildSkip_def)
  have same: "st' r = st r" if "r \<in> S" for r using that p(1) by (auto simp: st'_def)
  have cl: "climb st' n r = climb st n r" if "r \<in> S" for n r
    using climb_update [OF p(1) wf that] by (simp add: st'_def)
  have new: "climb st' (nHeight (st p) - ?sh) p = climb st (nHeight (st q) - ?sh) q"
    using \<open>nHeight (st p) - ?sh = Suc (nHeight (st q) - ?sh)\<close> p(2,3) cl by (simp add: st'_def)
  have "wf_tree st' (insert p S)"
    unfolding wf_tree_def
  proof
    fix r assume r: "r \<in> insert p S"
    show "case pprev (st' r) of None \<Rightarrow> nHeight (st' r) = 0
      | Some q \<Rightarrow> q \<in> insert p S \<and> nHeight (st' r) = nHeight (st' q) + 1 \<and>
          pskip (st' r) = climb st' (nHeight (st' r) - GetSkipHeight (nHeight (st' r))) r"
    proof (cases "r = p")
      case True
      have "pprev (st' p) = Some q" "nHeight (st' p) = nHeight (st p)" "pskip (st' p) = climb st (nHeight (st q) - ?sh) q"
        using p(2) by (simp_all add: st'_def)
      then show ?thesis using True new same [OF p(3)] p(3) h by simp
    next
      case False
      with r have rS: "r \<in> S" by simp
      then show ?thesis
        using wf_treeD [OF wf rS] same cl by (auto simp: same [OF rS] split: option.splits)
    qed
  qed
  with b same show ?thesis by blast
qed

end
