(* ===== verification/UintArith.thy ===== *)
theory UintArith
  imports UintForms
begin

text \<open>
  The interface through which difficulty, work and trust use fixed-width numbers: \<open>uint_arith\<close>
  names the operations of \<open>uint256\<close> those clients call and states each as arithmetic on the value
  modulo \<open>2 ^ bits\<close>. The clients' computations are proved once from these laws; the
  interpretation at the end discharges the laws for the limb-by-limb model of
  \<open>src/src/uint256.h\<close>.
\<close>

locale uint_arith =
  fixes bits :: nat
    and wf :: "'u \<Rightarrow> bool"
    and val :: "'u \<Rightarrow> nat"
    and of_u64 :: "uint64 \<Rightarrow> 'u"
    and add :: "'u \<Rightarrow> 'u \<Rightarrow> 'u"
    and compl :: "'u \<Rightarrow> 'u"
    and mul32 :: "'u \<Rightarrow> uint32 \<Rightarrow> 'u"
    and divide_uint :: "'u \<Rightarrow> 'u \<Rightarrow> uint_error + 'u"
    and cmp :: "'u \<Rightarrow> 'u \<Rightarrow> int"
  assumes val_bound: "wf a \<Longrightarrow> val a < 2 ^ bits"
    and val_inj: "wf a \<Longrightarrow> wf b \<Longrightarrow> val a = val b \<Longrightarrow> a = b"
    and of_u64_ok: "wf (of_u64 n)" "val (of_u64 n) = unat n"
    and add_ok: "wf a \<Longrightarrow> wf b \<Longrightarrow> wf (add a b)"
      "wf a \<Longrightarrow> wf b \<Longrightarrow> val (add a b) = (val a + val b) mod 2 ^ bits"
    and compl_ok: "wf a \<Longrightarrow> wf (compl a)" "wf a \<Longrightarrow> val (compl a) = 2 ^ bits - 1 - val a"
    and mul32_ok: "wf a \<Longrightarrow> wf (mul32 a m)" "wf a \<Longrightarrow> val (mul32 a m) = (val a * unat m) mod 2 ^ bits"
    and div_ok: "wf a \<Longrightarrow> wf b \<Longrightarrow> val b \<noteq> 0 \<Longrightarrow>
      \<exists>q. divide_uint a b = Inr q \<and> wf q \<and> val q = val a div val b"
    and cmp_ok: "wf a \<Longrightarrow> wf b \<Longrightarrow>
      cmp a b = (if val a < val b then -1 else if val b < val a then 1 else 0)"
begin

text \<open>\<open>~t / (t + 1) + 1\<close> is \<open>2 ^ bits / (t + 1)\<close>, which itself does not fit.\<close>

lemma inverse_of_target:
  assumes t: "wf t" "val t \<noteq> 0" "val t + 1 < 2 ^ bits"
  shows "\<exists>q. divide_uint (compl t) (add t (of_u64 1)) = Inr q \<and> wf (add q (of_u64 1)) \<and>
    val (add q (of_u64 1)) = 2 ^ bits div (val t + 1)"
proof -
  have d: "wf (add t (of_u64 1))" "val (add t (of_u64 1)) = val t + 1"
    using t by (simp_all add: add_ok of_u64_ok)
  obtain q where q: "divide_uint (compl t) (add t (of_u64 1)) = Inr q" "wf q"
    "val q = (2 ^ bits - 1 - val t) div (val t + 1)"
    using div_ok [OF compl_ok(1) [OF t(1)] d(1)] d(2) compl_ok(2) [OF t(1)] by auto
  have e: "2 ^ bits = (2 ^ bits - 1 - val t) + 1 * (val t + 1)" using t(3) by simp
  have s: "2 ^ bits div (val t + 1) = val q + 1"
    unfolding q(3) using div_mult_self1 [of "val t + 1" "2 ^ bits - 1 - val t" 1] e by simp
  have "2 ^ bits div (val t + 1) < 2 ^ bits" using t(2) by (intro div_less_dividend) simp_all
  then have "val (add q (of_u64 1)) = 2 ^ bits div (val t + 1)"
    using s q(2) by (simp add: add_ok of_u64_ok)
  with q(1,2) show ?thesis by (simp add: add_ok of_u64_ok)
qed

text \<open>Multiplying by a 32-bit factor and dividing by a nonzero 64-bit divisor.\<close>

lemma scale:
  assumes "wf a" "d \<noteq> 0"
  shows "\<exists>q. divide_uint (mul32 a m) (of_u64 d) = Inr q \<and> wf q \<and>
    val q = (val a * unat m) mod 2 ^ bits div unat d"
proof -
  have "val (of_u64 d) \<noteq> 0" using assms(2) by (simp add: of_u64_ok unat_eq_zero)
  from div_ok [OF mul32_ok(1) [OF assms(1), of m] of_u64_ok(1) [of d] this]
  show ?thesis using assms(1) by (simp add: mul32_ok of_u64_ok)
qed

text \<open>Adding one sample to a running average.\<close>

lemma average_step:
  assumes "wf a" "wf b" "d \<noteq> 0"
  shows "\<exists>q. divide_uint (add (mul32 a m) b) (of_u64 d) = Inr q \<and> wf q \<and>
    val q = (val a * unat m + val b) mod 2 ^ bits div unat d"
proof -
  have "val (of_u64 d) \<noteq> 0" using assms(3) by (simp add: of_u64_ok unat_eq_zero)
  from div_ok [OF add_ok(1) [OF mul32_ok(1) [OF assms(1), of m] assms(2)] of_u64_ok(1) [of d] this]
  show ?thesis using assms by (simp add: mul32_ok add_ok of_u64_ok mod_add_left_eq)
qed

lemma cmp_less: "wf a \<Longrightarrow> wf b \<Longrightarrow> 0 < cmp a b \<longleftrightarrow> val b < val a"
  and cmp_le: "wf a \<Longrightarrow> wf b \<Longrightarrow> cmp a b \<le> 0 \<longleftrightarrow> val a \<le> val b"
  and cmp_eq: "wf a \<Longrightarrow> wf b \<Longrightarrow> cmp a b = 0 \<longleftrightarrow> val a = val b"
  by (simp_all add: cmp_ok)

lemma clamp:
  "wf a \<Longrightarrow> wf l \<Longrightarrow> wf (if 0 < cmp a l then l else a) \<and> val (if 0 < cmp a l then l else a) = min (val a) (val l)"
  by (simp add: cmp_less)

end

definition is_u256 :: "base_uint \<Rightarrow> bool" where
  "is_u256 a \<longleftrightarrow> length a = 8"

lemma length_bu_mul32_top: "length (bu_mul32 a m) = length a"
  by (simp add: bu_mul32_def)

interpretation u256: uint_arith 256 is_u256 bu_val "bu_of_uint64 8" bu_add bu_not bu_mul32 bu_div bu_CompareTo
proof unfold_locales
  show "is_u256 a \<Longrightarrow> bu_val a < 2 ^ 256" for a using bu_val_bound [of a] by (simp add: is_u256_def)
  show "is_u256 a \<Longrightarrow> is_u256 b \<Longrightarrow> bu_val a = bu_val b \<Longrightarrow> a = b" for a b
    using bu_val_inj [of a b] by (simp add: is_u256_def)
  show "is_u256 a \<Longrightarrow> is_u256 b \<Longrightarrow> bu_val b \<noteq> 0 \<Longrightarrow>
      \<exists>q. bu_div a b = Inr q \<and> is_u256 q \<and> bu_val q = bu_val a div bu_val b" for a b
    using bu_div_ok [of a b] by (simp add: is_u256_def)
qed (simp_all add: is_u256_def bu_val_of_uint64 limb_simps bu_CompareTo_val length_bu_mul32_top)

end
