(* ===== verification/Pow.thy ===== *)
theory Pow
  imports BlockIndex UintArith "HOL-Library.Monad_Syntax"
begin

text \<open>
  \<open>src/src/pow.cpp\<close>: the next target (Dark Gravity Wave over the last 24 blocks while
  proof of work is allowed, an exponential retarget afterwards), the check of a hash
  against its target, and the work of a block. \<open>None\<close> is a failed \<open>assert\<close>, a NULL
  dereference or an uncaught \<open>uint_error\<close>. Multiplying a \<open>uint256\<close> by an \<open>int64_t\<close> picks the
  \<open>uint32_t\<close> overload, so the factor is taken modulo \<open>2 ^ 32\<close>; dividing by one converts it
  to a \<open>uint256\<close>.
\<close>

definition ok_uint :: "uint_error + 'a \<Rightarrow> 'a option" where
  "ok_uint r = (case r of Inl _ \<Rightarrow> None | Inr u \<Rightarrow> Some u)"

definition PastBlocks :: int where "PastBlocks = 24"

text \<open>
  The loop over the last blocks: \<open>n\<close> is the number of iterations left of \<open>PastBlocksMax\<close>;
  the state is \<open>CountBlocks\<close>, \<open>PastDifficultyAverage\<close> (equal to \<open>PastDifficultyAveragePrev\<close>
  between iterations), \<open>LastBlockTime\<close> and \<open>nActualTimespan\<close>.
\<close>

fun dgw_loop ::
  "store \<Rightarrow> nat \<Rightarrow> ptr option \<Rightarrow> int \<Rightarrow> base_uint \<Rightarrow> int \<Rightarrow> int \<Rightarrow> (int \<times> base_uint \<times> int) option" where
  "dgw_loop st (Suc n) (Some p) CountBlocks avg LastBlockTime nActualTimespan =
     (if nHeight (st p) = 0 then Some (CountBlocks, avg, nActualTimespan)
      else
        let CountBlocks = CountBlocks + 1 in do {
          avg \<leftarrow> (if CountBlocks \<le> PastBlocks then
                   if CountBlocks = 1 then Some (fst (SetCompact (nBits (st p))))
                   else ok_uint (bu_div
                     (bu_add (bu_mul32 avg (of_int CountBlocks)) (fst (SetCompact (nBits (st p)))))
                     (bu_of_uint64 8 (of_int (CountBlocks + 1))))
                 else Some avg);
          let nActualTimespan =
            (if 0 < LastBlockTime then nActualTimespan + (LastBlockTime - GetBlockTime (st p))
             else nActualTimespan);
          (case pprev (st p) of
             None \<Rightarrow> Some (CountBlocks, avg, nActualTimespan)
           | Some q \<Rightarrow> dgw_loop st n (Some q) CountBlocks avg (GetBlockTime (st p)) nActualTimespan) })"
| "dgw_loop st n pindex CountBlocks avg LastBlockTime nActualTimespan =
     Some (CountBlocks, avg, nActualTimespan)"

definition clamp_timespan :: "int \<Rightarrow> int \<Rightarrow> int" where
  "clamp_timespan target_ts nActualTimespan =
     (let nActualTimespan = (if nActualTimespan < target_ts div 3
                             then target_ts div 3 else nActualTimespan)
      in if target_ts * 3 < nActualTimespan then target_ts * 3 else nActualTimespan)"

definition DarkGravityWave :: "CChainParams \<Rightarrow> store \<Rightarrow> ptr \<Rightarrow> uint32 option" where
  "DarkGravityWave P st p = do {
     (CountBlocks, avg, nActualTimespan) \<leftarrow>
       dgw_loop st (nat PastBlocks) (Some p) 0 (bu_null 8) 0 0;
     let target_ts = CountBlocks * nTargetSpacing P;
     bnNew \<leftarrow> ok_uint (bu_div
       (bu_mul32 avg (of_int (clamp_timespan target_ts nActualTimespan)))
       (bu_of_uint64 8 (of_int target_ts)));
     GetCompact False
       (if 0 < bu_CompareTo bnNew (bnProofOfWorkLimit P) then bnProofOfWorkLimit P else bnNew) }"

definition stake_spacing :: "store \<Rightarrow> ptr \<Rightarrow> ptr \<Rightarrow> int" where
  "stake_spacing st p q =
     (let nActualSpacing = (if nHeight (st p) \<noteq> 0 then GetBlockTime (st p) - GetBlockTime (st q) else 0)
      in if nActualSpacing < 0 then 1 else nActualSpacing)"

definition StakeRetarget :: "store \<Rightarrow> ptr \<Rightarrow> uint32 option" where
  "StakeRetarget st p = do {
     q \<leftarrow> pprev (st p);
     let bnTargetLimit = bu_shr (bu_not (bu_of_uint64 8 0)) 24;
     let spacing = 60;
     let target_ts = 60 * 40;
     let nActualSpacing = stake_spacing st p q;
     let nInterval = target_ts div spacing;
     bnNew \<leftarrow> ok_uint (bu_div
       (bu_mul32 (fst (SetCompact (nBits (st p))))
         (of_int ((nInterval - 1) * spacing + nActualSpacing + nActualSpacing)))
       (bu_of_uint64 8 (of_int ((nInterval + 1) * spacing))));
     GetCompact False
       (if bu_CompareTo bnNew (bu_of_uint64 8 0) \<le> 0 \<or> 0 < bu_CompareTo bnNew bnTargetLimit
        then bnTargetLimit else bnNew) }"

definition GetNextWorkRequired :: "CChainParams \<Rightarrow> store \<Rightarrow> ptr option \<Rightarrow> uint32 option" where
  "GetNextWorkRequired P st pindexLast =
     (if networkID P = REGTEST then map_option (\<lambda>p. nBits (st p)) pindexLast
      else case pindexLast of
        None \<Rightarrow> GetCompact False (bnProofOfWorkLimit P)
      | Some p \<Rightarrow>
          if nHeight (st p) = 0 \<or> int (nHeight (st p)) < PastBlocks
          then GetCompact False (bnProofOfWorkLimit P)
          else if nLastPOWBlock P < int (nHeight (st p)) then StakeRetarget st p
          else DarkGravityWave P st p)"

definition CheckProofOfWork :: "CChainParams \<Rightarrow> base_uint \<Rightarrow> uint32 \<Rightarrow> bool" where
  "CheckProofOfWork P hash bits =
     (if fSkipProofOfWorkCheck P then True
      else
        let (bnTarget, fNegative, fOverflow) = SetCompact bits
        in if fNegative \<or> bu_EqualTo bnTarget 0 \<or> fOverflow \<or>
              0 < bu_CompareTo bnTarget (bnProofOfWorkLimit P) then False
           else if 0 < bu_CompareTo hash bnTarget then False
           else True)"

definition GetBlockProof :: "CBlockIndex \<Rightarrow> uint_error + base_uint" where
  "GetBlockProof block =
     (let (bnTarget, fNegative, fOverflow) = SetCompact (nBits block);
          one = bu_of_uint64 8 1
      in if fNegative \<or> fOverflow \<or> bu_EqualTo bnTarget 0 then Inr (bu_of_uint64 8 0)
         else (case bu_div (bu_not bnTarget) (bu_add bnTarget one) of
                 Inl e \<Rightarrow> Inl e
               | Inr q \<Rightarrow> Inr (bu_add q one)))"

section \<open>Targets as numbers\<close>

text \<open>The target a block claims.\<close>

definition target_val :: "CBlockIndex \<Rightarrow> nat" where
  "target_val b = compact_value (nBits b) mod 2 ^ 256"

lemma target_u256 [simp]: "is_u256 (fst (SetCompact c))"
  by (simp add: is_u256_def)

lemma bu_val_target: "bu_val (fst (SetCompact (nBits b))) = target_val b"
  by (simp add: target_val_def SetCompact_val)

lemma ok_uint_Inr [simp]: "ok_uint (Inr u) = Some u"
  by (simp add: ok_uint_def)

lemma pow_limit_u256 [simp]: "is_u256 (pow_limit n)"
  by (simp add: is_u256_def)

lemma Params_limit_u256 [simp]: "is_u256 (bnProofOfWorkLimit (Params n))"
  using pow_limit_cases [of n] by auto

lemma Params_limit_val: "bu_val (bnProofOfWorkLimit (Params n)) \<in> {2 ^ 236 - 1, 2 ^ 255 - 1}"
  using pow_limit_cases [of n] by (auto simp: bu_val_pow_limit)

lemma bu_val_eq_0: "bu_val xs = 0 \<longleftrightarrow> (\<forall>x \<in> set xs. x = 0)"
  by (induction xs) (auto simp: unat_eq_zero)

lemma bu_EqualTo_0: "is_u256 a \<Longrightarrow> bu_EqualTo a 0 \<longleftrightarrow> bu_val a = 0"
proof -
  assume "is_u256 a"
  then obtain x y ps where a: "a = x # y # ps" by (auto simp: is_u256_def length_Suc_conv numeral_eq_Suc)
  have "ucast y = (0 :: uint64) \<longleftrightarrow> y = 0" "ucast x = (0 :: uint64) \<longleftrightarrow> x = 0"
    by (simp_all add: unat_eq_zero [symmetric] unat_ucast_32_64)
  then show ?thesis by (auto simp: a bu_val_eq_0 unat_eq_zero)
qed

lemma unat_of_int_32: "0 \<le> n \<Longrightarrow> n < 2 ^ 32 \<Longrightarrow> unat (of_int n :: uint32) = nat n"
  by (simp add: unat_eq_nat_uint word_of_int_eq_iff take_bit_int_eq_self unsigned_of_int)

lemma unat_of_int_64: "0 \<le> n \<Longrightarrow> n < 2 ^ 64 \<Longrightarrow> unat (of_int n :: uint64) = nat n"
  by (simp add: unsigned_of_int take_bit_int_eq_self)

section \<open>Proof of work and block proofs\<close>

lemma CheckProofOfWork_spec:
  assumes h: "is_u256 hash"
  shows "CheckProofOfWork (Params net) hash c \<longleftrightarrow>
    net = REGTEST \<or>
    (even (unat c div 2 ^ 23) \<and> 0 < compact_value c \<and>
     compact_value c \<le> bu_val (bnProofOfWorkLimit (Params net)) \<and> bu_val hash \<le> compact_value c)"
proof -
  have skip: "fSkipProofOfWorkCheck (Params net) \<longleftrightarrow> net = REGTEST" by (cases net) (simp_all add: params_defs)
  obtain u n ov where sc: "SetCompact c = (u, n, ov)" by (cases "SetCompact c")
  have u: "is_u256 u" "bu_val u = compact_value c mod 2 ^ 256"
    "n \<longleftrightarrow> compact_value c \<noteq> 0 \<and> odd (unat c div 2 ^ 23)" "ov \<longleftrightarrow> 2 ^ 256 \<le> compact_value c"
    using target_u256 [of c] SetCompact_val [of c] SetCompact_negative [of c] SetCompact_overflow [of c] sc
    by simp_all
  have lim: "bu_val (bnProofOfWorkLimit (Params net)) < 2 ^ 256"
    using Params_limit_val [of net] by auto
  show ?thesis
    using u(2-4) lim
    by (auto simp: CheckProofOfWork_def skip sc bu_EqualTo_0 [OF u(1)] u256.cmp_less [OF u(1)]
        u256.cmp_less [OF h u(1)] not_less)
qed

lemma GetBlockProof_val:
  "\<exists>w. GetBlockProof b = Inr w \<and> is_u256 w \<and> bu_val w =
    (if compact_value (nBits b) = 0 \<or> odd (unat (nBits b) div 2 ^ 23) \<or> 2 ^ 256 \<le> compact_value (nBits b) then 0
     else 2 ^ 256 div (compact_value (nBits b) + 1))"
proof -
  let ?c = "nBits b"
  obtain u n ov where sc: "SetCompact ?c = (u, n, ov)" by (cases "SetCompact ?c")
  have u: "is_u256 u" "bu_val u = compact_value ?c mod 2 ^ 256"
    "n \<longleftrightarrow> compact_value ?c \<noteq> 0 \<and> odd (unat ?c div 2 ^ 23)" "ov \<longleftrightarrow> 2 ^ 256 \<le> compact_value ?c"
    using target_u256 [of ?c] SetCompact_val [of ?c] SetCompact_negative [of ?c] SetCompact_overflow [of ?c] sc
    by simp_all
  show ?thesis
  proof (cases "compact_value ?c = 0 \<or> odd (unat ?c div 2 ^ 23) \<or> 2 ^ 256 \<le> compact_value ?c")
    case True
    then show ?thesis using u by (auto simp: GetBlockProof_def sc bu_EqualTo_0 Let_def u256.of_u64_ok(1))
  next
    case False
    then have v: "bu_val u = compact_value ?c" "\<not> n" "\<not> ov" "bu_val u \<noteq> 0" using u by auto
    have "bu_val u + 1 < 2 ^ 256" using compact_plus_1 [of ?c] u(2) by simp
    from u256.inverse_of_target [OF u(1) v(4) this] False v show ?thesis
      by (auto simp: GetBlockProof_def sc bu_EqualTo_0 [OF u(1)])
  qed
qed

section \<open>The retarget loop\<close>

text \<open>The reference: the targets and the running average as numbers.\<close>

fun chain_targets :: "store \<Rightarrow> nat \<Rightarrow> ptr \<Rightarrow> nat list" where
  "chain_targets st 0 p = []"
| "chain_targets st (Suc n) p =
     target_val (st p) # (case pprev (st p) of None \<Rightarrow> [] | Some q \<Rightarrow> chain_targets st n q)"

fun dgw_average :: "nat \<Rightarrow> nat \<Rightarrow> nat list \<Rightarrow> nat" where
  "dgw_average c avg [] = avg"
| "dgw_average c avg (t # ts) =
     dgw_average (c + 1) (if c = 0 then t else (avg * (c + 1) + t) div (c + 2)) ts"

lemma average_le: "avg \<le> (L::nat) \<Longrightarrow> t \<le> L \<Longrightarrow> (avg * (c + 1) + t) div (c + 2) \<le> L"
proof -
  assume "avg \<le> L" "t \<le> L"
  then have "avg * (c + 1) + t \<le> L * (c + 1) + L" by (intro add_mono mult_le_mono1)
  also have "\<dots> = L * (c + 2)" by (simp add: algebra_simps)
  finally have "(avg * (c + 1) + t) div (c + 2) \<le> L * (c + 2) div (c + 2)" by (rule div_le_mono)
  also have "\<dots> = L" by (rule div_mult_self_is_m) simp
  finally show ?thesis .
qed

lemma dgw_average_le: "avg \<le> L \<Longrightarrow> \<forall>t \<in> set ts. t \<le> L \<Longrightarrow> dgw_average c avg ts \<le> L"
proof (induction ts arbitrary: c avg)
  case (Cons t ts)
  then show ?case using average_le [of avg L t c] by simp
qed simp

lemma chain_targets_le:
  "\<forall>q \<in> S. target_val (st q) \<le> L \<Longrightarrow> wf_tree st S \<Longrightarrow> p \<in> S \<Longrightarrow> t \<in> set (chain_targets st n p) \<Longrightarrow> t \<le> L"
proof (induction n arbitrary: p)
  case (Suc n)
  show ?case
  proof (cases "pprev (st p)")
    case (Some q)
    then have "q \<in> S" using wf_treeD(2) [OF Suc.prems(2,3)] by blast
    with Suc Some show ?thesis by auto
  qed (use Suc.prems in auto)
qed simp

lemma dgw_avg_step:
  assumes "is_u256 avg" "0 \<le> c" "c < 24"
  shows "\<exists>a'. (if c + 1 \<le> PastBlocks then
        if c + 1 = 1 then Some (fst (SetCompact (nBits b)))
        else ok_uint (bu_div (bu_add (bu_mul32 avg (of_int (c + 1))) (fst (SetCompact (nBits b))))
               (bu_of_uint64 8 (of_int (c + 1 + 1))))
      else Some avg) = Some a' \<and> is_u256 a' \<and>
    (bu_val avg * 25 + target_val b < 2 ^ 256 \<longrightarrow>
     bu_val a' = (if c = 0 then target_val b else (bu_val avg * (nat c + 1) + target_val b) div (nat c + 2)))"
proof -
  have c: "unat (of_int (c + 1) :: uint32) = nat c + 1" "unat (of_int (c + 1 + 1) :: uint64) = nat c + 2"
    using assms(2,3) by (subst unat_of_int_32 unat_of_int_64; simp)+
  then have nz: "(of_int (c + 1 + 1) :: uint64) \<noteq> 0" by (metis Suc_1 add_2_eq_Suc' nat.distinct(1) unsigned_0)
  obtain q where q: "bu_div (bu_add (bu_mul32 avg (of_int (c + 1))) (fst (SetCompact (nBits b))))
      (bu_of_uint64 8 (of_int (c + 1 + 1))) = Inr q" "is_u256 q"
    "bu_val q = (bu_val avg * (nat c + 1) + target_val b) mod 2 ^ 256 div (nat c + 2)"
    using u256.average_step [OF assms(1) target_u256 [of "nBits b"] nz, of "of_int (c + 1)"] c
    by (auto simp: bu_val_target)
  have "nat c + 1 \<le> 25" using assms(2,3) by simp
  then have "bu_val avg * (nat c + 1) + target_val b \<le> bu_val avg * 25 + target_val b"
    by (intro add_right_mono mult_le_mono2)
  then have "bu_val q = (bu_val avg * (nat c + 1) + target_val b) div (nat c + 2)"
    if "bu_val avg * 25 + target_val b < 2 ^ 256"
    unfolding q(3) using that by (subst mod_less) (erule le_less_trans, assumption, rule refl)
  then show ?thesis
    using q(1,2) assms(2,3) by (auto simp: PastBlocks_def bu_val_target)
qed

lemma dgw_loop_ok:
  assumes wf: "wf_tree st S"
  shows "p \<in> S \<Longrightarrow> n \<le> nHeight (st p) \<Longrightarrow> is_u256 avg \<Longrightarrow> 0 \<le> c \<Longrightarrow> c + int n \<le> 24 \<Longrightarrow>
    \<exists>a ts'. dgw_loop st n (Some p) c avg lt ts = Some (c + int n, a, ts') \<and> is_u256 a \<and>
      (\<forall>L. bu_val avg \<le> L \<longrightarrow> (\<forall>q \<in> S. target_val (st q) \<le> L) \<longrightarrow> L * 26 < 2 ^ 256 \<longrightarrow>
        bu_val a = dgw_average (nat c) (bu_val avg) (chain_targets st n p)) \<and>
      ((\<forall>q \<in> S. nTime (st q) \<noteq> 0) \<longrightarrow> 0 < n \<longrightarrow>
        ts' = ts + (if 0 < lt then lt else GetBlockTime (st p)) - GetBlockTime (st (the (climb st (n - 1) p))))"
proof (induction n arbitrary: p c avg lt ts)
  case (Suc n)
  have h: "nHeight (st p) \<noteq> 0" using Suc.prems(2) by simp
  then obtain q where q: "pprev (st p) = Some q" using wf_treeD(1) [OF wf Suc.prems(1)] by fastforce
  have qS: "q \<in> S" "n \<le> nHeight (st q)" using wf_treeD(2) [OF wf Suc.prems(1) q] Suc.prems(2) by simp_all
  obtain a1 where a1: "(if c + 1 \<le> PastBlocks then
        if c + 1 = 1 then Some (fst (SetCompact (nBits (st p))))
        else ok_uint (bu_div (bu_add (bu_mul32 avg (of_int (c + 1))) (fst (SetCompact (nBits (st p)))))
               (bu_of_uint64 8 (of_int (c + 1 + 1))))
      else Some avg) = Some a1" "is_u256 a1"
    "bu_val avg * 25 + target_val (st p) < 2 ^ 256 \<longrightarrow>
     bu_val a1 = (if c = 0 then target_val (st p) else (bu_val avg * (nat c + 1) + target_val (st p)) div (nat c + 2))"
    using dgw_avg_step [OF Suc.prems(3,4), of "st p"] Suc.prems(5) by auto
  define ts1 where "ts1 = (if 0 < lt then ts + (lt - GetBlockTime (st p)) else ts)"
  have step: "dgw_loop st (Suc n) (Some p) c avg lt ts = dgw_loop st n (Some q) (c + 1) a1 (GetBlockTime (st p)) ts1"
    using h q a1(1) by (simp add: Let_def ts1_def)
  obtain a ts' where IH: "dgw_loop st n (Some q) (c + 1) a1 (GetBlockTime (st p)) ts1 = Some (c + 1 + int n, a, ts')"
    "is_u256 a"
    and avg: "\<And>L. bu_val a1 \<le> L \<Longrightarrow> \<forall>q \<in> S. target_val (st q) \<le> L \<Longrightarrow> L * 26 < 2 ^ 256 \<Longrightarrow>
        bu_val a = dgw_average (nat (c + 1)) (bu_val a1) (chain_targets st n q)"
    and span: "(\<forall>q \<in> S. nTime (st q) \<noteq> 0) \<Longrightarrow> 0 < n \<Longrightarrow>
        ts' = ts1 + (if 0 < GetBlockTime (st p) then GetBlockTime (st p) else GetBlockTime (st q))
          - GetBlockTime (st (the (climb st (n - 1) q)))"
    using Suc.IH [OF qS a1(2), of "c + 1" "GetBlockTime (st p)" ts1] Suc.prems(4,5) by auto
  have "bu_val a = dgw_average (nat c) (bu_val avg) (chain_targets st (Suc n) p)"
    if L: "bu_val avg \<le> L" "\<forall>q \<in> S. target_val (st q) \<le> L" "L * 26 < 2 ^ 256" for L
  proof -
    have t: "target_val (st p) \<le> L" using L(2) Suc.prems(1) by blast
    have "bu_val avg * 25 + target_val (st p) \<le> L * 25 + L" using L(1) t by (intro add_mono mult_le_mono1)
    then have v: "bu_val a1 = (if c = 0 then target_val (st p)
        else (bu_val avg * (nat c + 1) + target_val (st p)) div (nat c + 2))"
      using a1(3) L(3) by simp
    then have "bu_val a1 \<le> L" using average_le [OF L(1) t] t by simp
    then show ?thesis
    proof -
      have "nat (c + 1) = nat c + 1" "c = 0 \<longleftrightarrow> nat c = 0" using Suc.prems(4) by simp_all
      then show ?thesis
        unfolding chain_targets.simps q option.case dgw_average.simps using v
          avg [OF \<open>bu_val a1 \<le> L\<close> L(2,3)] by (simp only:)
    qed
  qed
  moreover have "ts' = ts + (if 0 < lt then lt else GetBlockTime (st p)) - GetBlockTime (st (the (climb st n p)))"
    if T: "\<forall>q \<in> S. nTime (st q) \<noteq> 0"
  proof (cases n)
    case 0
    then show ?thesis using IH(1) by (auto simp: ts1_def)
  next
    case (Suc m)
    have "0 < GetBlockTime (st p)"
      unfolding GetBlockTime_def using T Suc.prems(1) by (simp only: of_nat_0_less_iff unat_gt_0) blast
    then show ?thesis using span [OF T] Suc q by (simp add: ts1_def)
  qed
  moreover have "dgw_loop st (Suc n) (Some p) c avg lt ts = Some (c + int (Suc n), a, ts')"
    using step IH(1) by simp
  ultimately show ?case using IH(2)
    unfolding diff_Suc_1 by (intro exI [of _ a] exI [of _ ts']) blast
qed simp

section \<open>The next target\<close>

lemma limit_read:
  assumes "is_u256 t" "bu_val t \<le> L"
  shows "\<exists>c u. GetCompact False t = Some c \<and> SetCompact c = (u, False, False) \<and> bu_val u \<le> L"
  using GetCompact_SetCompact [of t] assms by (fastforce simp: is_u256_def intro: order_trans)

lemma Params_spacing: "0 < nTargetSpacing (Params net)" "nTargetSpacing (Params net) \<le> 600"
  by (cases net; simp add: params_defs)+

lemma dgw_timespan_word:
  "unat (of_int (24 * nTargetSpacing (Params net)) :: uint64) = nat (24 * nTargetSpacing (Params net))"
  "(of_int (24 * nTargetSpacing (Params net)) :: uint64) \<noteq> 0"
proof -
  show u: "unat (of_int (24 * nTargetSpacing (Params net)) :: uint64) = nat (24 * nTargetSpacing (Params net))"
    using Params_spacing [of net] by (intro unat_of_int_64) simp_all
  then show "(of_int (24 * nTargetSpacing (Params net)) :: uint64) \<noteq> 0"
    using Params_spacing(1) [of net] by (metis mult_pos_pos unsigned_0 zero_less_nat_eq zero_less_numeral less_numeral_extra(3))
qed

lemma clamp_timespan_word:
  assumes "0 < t" "t \<le> 14400"
  shows "unat (of_int (clamp_timespan t s) :: uint32) = nat (clamp_timespan t s)" "clamp_timespan t s \<le> 43200"
    "0 \<le> clamp_timespan t s"
proof -
  show b: "clamp_timespan t s \<le> 43200" "0 \<le> clamp_timespan t s"
    using assms by (auto simp: clamp_timespan_def Let_def)
  then show "unat (of_int (clamp_timespan t s) :: uint32) = nat (clamp_timespan t s)"
    by (intro unat_of_int_32) simp_all
qed

text \<open>The new proof-of-work target before it is made compact.\<close>

lemma DarkGravityWave_spec:
  assumes wf: "wf_tree st S" and p: "p \<in> S" "24 \<le> nHeight (st p)"
  shows "\<exists>u. DarkGravityWave (Params net) st p = GetCompact False u \<and> is_u256 u \<and>
    bu_val u \<le> bu_val (bnProofOfWorkLimit (Params net)) \<and>
    ((\<forall>q \<in> S. nTime (st q) \<noteq> 0) \<longrightarrow> (\<forall>q \<in> S. target_val (st q) < 2 ^ 240) \<longrightarrow>
     bu_val u = min (bu_val (bnProofOfWorkLimit (Params net)))
       (dgw_average 0 0 (chain_targets st 24 p) *
        nat (clamp_timespan (24 * nTargetSpacing (Params net))
          (GetBlockTime (st p) - GetBlockTime (st (the (climb st 23 p))))) div
        nat (24 * nTargetSpacing (Params net))))"
proof -
  let ?t = "24 * nTargetSpacing (Params net)"
  have null: "is_u256 (bu_null 8)" "bu_val (bu_null 8) = 0" by (simp_all add: is_u256_def bu_null_def)
  obtain a ts where loop: "dgw_loop st 24 (Some p) 0 (bu_null 8) 0 0 = Some (24, a, ts)" "is_u256 a"
    and avg: "\<forall>L. bu_val (bu_null 8) \<le> L \<longrightarrow> (\<forall>q \<in> S. target_val (st q) \<le> L) \<longrightarrow> L * 26 < 2 ^ 256 \<longrightarrow>
        bu_val a = dgw_average (nat 0) (bu_val (bu_null 8)) (chain_targets st 24 p)"
    and span: "(\<forall>q \<in> S. nTime (st q) \<noteq> 0) \<longrightarrow>
        ts = GetBlockTime (st p) - GetBlockTime (st (the (climb st 23 p)))"
    using dgw_loop_ok [OF wf p null(1), of 0 0 0] by auto
  have t: "0 < ?t" "?t \<le> 14400" using Params_spacing [of net] by simp_all
  obtain q where q: "bu_div (bu_mul32 a (of_int (clamp_timespan ?t ts))) (bu_of_uint64 8 (of_int ?t)) = Inr q"
    "is_u256 q" "bu_val q = (bu_val a * nat (clamp_timespan ?t ts)) mod 2 ^ 256 div nat ?t"
    using u256.scale [OF loop(2) dgw_timespan_word(2) [of net], of "of_int (clamp_timespan ?t ts)"]
    unfolding dgw_timespan_word(1) clamp_timespan_word(1) [OF t] by blast
  define u where "u = (if 0 < bu_CompareTo q (bnProofOfWorkLimit (Params net)) then bnProofOfWorkLimit (Params net) else q)"
  have u: "is_u256 u" "bu_val u = min (bu_val q) (bu_val (bnProofOfWorkLimit (Params net)))"
    using u256.clamp [OF q(2) Params_limit_u256 [of net]] by (simp_all add: u_def)
  have "DarkGravityWave (Params net) st p = GetCompact False u"
    using loop(1) q(1) by (simp add: DarkGravityWave_def PastBlocks_def Let_def u_def)
  moreover have "bu_val q = dgw_average 0 0 (chain_targets st 24 p) *
        nat (clamp_timespan ?t (GetBlockTime (st p) - GetBlockTime (st (the (climb st 23 p))))) div nat ?t"
    if T: "\<forall>q \<in> S. nTime (st q) \<noteq> 0" "\<forall>q \<in> S. target_val (st q) < 2 ^ 240"
  proof -
    have L: "\<forall>q \<in> S. target_val (st q) \<le> 2 ^ 240" using T(2) by (simp add: less_imp_le)
    have av: "bu_val a = dgw_average 0 0 (chain_targets st 24 p)"
      using avg [rule_format, of "2 ^ 240"] L null(2) by simp
    have "dgw_average 0 0 (chain_targets st 24 p) \<le> 2 ^ 240"
      using chain_targets_le [OF L wf p(1)] by (intro dgw_average_le) auto
    then have "bu_val a * nat (clamp_timespan ?t ts) \<le> 2 ^ 240 * 43200"
      using clamp_timespan_word(2) [OF t, of ts] av by (intro mult_mono) simp_all
    also have "(2::nat) ^ 240 * 43200 < 2 ^ 256" by simp
    finally have "(bu_val a * nat (clamp_timespan ?t ts)) mod 2 ^ 256 = bu_val a * nat (clamp_timespan ?t ts)"
      by (rule mod_less)
    then show ?thesis using q(3) av span T(1) by simp
  qed
  ultimately show ?thesis using u by (intro exI [of _ u]) (simp add: min.commute)
qed

lemma StakeRetarget_spec:
  assumes pq: "pprev (st p) = Some q" "nHeight (st p) \<noteq> 0"
  defines "spacing \<equiv> (if GetBlockTime (st p) < GetBlockTime (st q) then 1
                      else GetBlockTime (st p) - GetBlockTime (st q))"
  defines "n \<equiv> (target_val (st p) * (nat (2340 + 2 * spacing) mod 2 ^ 32)) mod 2 ^ 256 div 2460"
  shows "\<exists>u. StakeRetarget st p = GetCompact False u \<and> is_u256 u \<and>
    bu_val u = (if n = 0 then 2 ^ 232 - 1 else min n (2 ^ 232 - 1))"
proof -
  let ?L = "bu_shr (bu_not (bu_of_uint64 8 0)) 24"
  have L: "is_u256 ?L" "bu_val ?L = 2 ^ 232 - 1"
    using bu_val_pow_limit [of 24] pow_limit_u256 [of 24] by (simp_all add: pow_limit_def)
  have sp: "stake_spacing st p q = spacing" using pq(2) by (simp add: stake_spacing_def spacing_def)
  have pos: "0 \<le> spacing" by (simp add: spacing_def)
  have m: "unat (of_int (2340 + spacing + spacing) :: uint32) = nat (2340 + 2 * spacing) mod 2 ^ 32"
  proof -
    have "unat (of_int (2340 + spacing + spacing) :: uint32) = nat ((2340 + spacing + spacing) mod 2 ^ 32)"
      by (simp only: unsigned_of_int take_bit_int_def) simp
    also have "\<dots> = nat (2340 + 2 * spacing) mod 2 ^ 32"
    proof -
      have "2340 + spacing + spacing = 2340 + 2 * spacing" by simp
      then show ?thesis using pos by (simp only:) (subst nat_mod_distrib, simp_all)
    qed
    finally show ?thesis .
  qed
  obtain d where d: "bu_div (bu_mul32 (fst (SetCompact (nBits (st p)))) (of_int (2340 + spacing + spacing)))
      (bu_of_uint64 8 (of_int 2460)) = Inr d" "is_u256 d" "bu_val d = n"
    using u256.scale [OF target_u256 [of "nBits (st p)"], of "of_int 2460" "of_int (2340 + spacing + spacing)"] m
    by (auto simp: n_def bu_val_target)
  have z: "bu_CompareTo d (bu_of_uint64 8 0) \<le> 0 \<longleftrightarrow> n = 0" "0 < bu_CompareTo d ?L \<longleftrightarrow> 2 ^ 232 - 1 < n"
    using d(2,3) L by (simp_all add: u256.cmp_le u256.cmp_less u256.of_u64_ok(1) bu_val_of_uint64)
  define u where "u = (if bu_CompareTo d (bu_of_uint64 8 0) \<le> 0 \<or> 0 < bu_CompareTo d ?L then ?L else d)"
  have "StakeRetarget st p = GetCompact False u"
    using pq(1) d(1) sp by (simp add: StakeRetarget_def Let_def u_def)
  moreover have "is_u256 u \<and> bu_val u = (if n = 0 then 2 ^ 232 - 1 else min n (2 ^ 232 - 1))"
    unfolding u_def z using L d by (auto simp: min_def)
  ultimately show ?thesis by blast
qed

lemma GetNextWorkRequired_limit:
  assumes wf: "wf_tree st S" and p: "p \<in> S" and net: "net \<noteq> REGTEST"
  shows "\<exists>c u. GetNextWorkRequired (Params net) st (Some p) = Some c \<and> SetCompact c = (u, False, False) \<and>
    bu_val u \<le> bu_val (bnProofOfWorkLimit (Params net))"
proof -
  have id: "networkID (Params net) \<noteq> REGTEST" using net by (cases net) (simp_all add: params_defs)
  consider (early) "int (nHeight (st p)) < 24"
    | (pos) "24 \<le> nHeight (st p)" "nLastPOWBlock (Params net) < int (nHeight (st p))"
    | (pow) "24 \<le> nHeight (st p)" "\<not> nLastPOWBlock (Params net) < int (nHeight (st p))"
    by linarith
  then show ?thesis
  proof cases
    case early
    then show ?thesis
      using limit_read [of "bnProofOfWorkLimit (Params net)"] id
      by (simp add: GetNextWorkRequired_def PastBlocks_def)
  next
    case pos
    then obtain q where q: "pprev (st p) = Some q" using wf_treeD(1) [OF wf p] by fastforce
    obtain u where u: "StakeRetarget st p = GetCompact False u" "is_u256 u" "bu_val u \<le> 2 ^ 232 - 1"
      using StakeRetarget_spec [of st p q] q pos(1) by (auto split: if_splits)
    have "2 ^ 232 - 1 \<le> bu_val (bnProofOfWorkLimit (Params net))" using Params_limit_val [of net] by auto
    then have "bu_val u \<le> bu_val (bnProofOfWorkLimit (Params net))" using u(3) by (rule order_trans [rotated])
    then show ?thesis
      using limit_read [OF u(2)] u(1) pos id by (simp add: GetNextWorkRequired_def PastBlocks_def)
  next
    case pow
    then show ?thesis
      using DarkGravityWave_spec [OF wf p pow(1), of net] limit_read id
      by (fastforce simp: GetNextWorkRequired_def PastBlocks_def)
  qed
qed

section \<open>Properties\<close>

text \<open>C30: On every network but regtest and for every block of a well-formed tree,
  \<open>GetNextWorkRequired\<close> returns (no \<open>assert\<close> fails, no pointer is NULL, no division by zero) a
  compact target that decodes without sign or overflow to at most the proof-of-work limit.\<close>

theorem next_work_within_limit:
  assumes "wf_tree st S" "p \<in> S" "net \<noteq> REGTEST"
  shows "\<exists>c u. GetNextWorkRequired (Params net) st (Some p) = Some c \<and> SetCompact c = (u, False, False) \<and>
    bu_val u \<le> bu_val (bnProofOfWorkLimit (Params net))"
  by (rule GetNextWorkRequired_limit [OF assms])

text \<open>A straight chain: block \<open>n\<close> has height \<open>n\<close>, parent \<open>n - 1\<close>, time \<open>600 n + 1\<close>.\<close>

definition line_store :: "uint32 \<Rightarrow> store" where
  "line_store bits p =
     \<lparr>phashBlock = of_nat p, pprev = (if p = 0 then None else Some (p - 1)), pskip = Some (GetSkipHeight p),
      nHeight = p, nStatus = 0, nFlags = 0, nVersion = 1, nTime = of_nat (600 * p + 1), nBits = bits,
      nStakeModifier = 0, bnChainTrust = [], nChainWork = []\<rparr>"

lemma climb_line: "n \<le> p \<Longrightarrow> climb (line_store b) n p = Some (p - n)"
  by (induction n arbitrary: p) (auto simp: line_store_def)

lemma line_wf: "wf_tree (line_store b) {0..n}"
  unfolding wf_tree_def
proof
  fix p assume p: "p \<in> {0..n}"
  show "case pprev (line_store b p) of None \<Rightarrow> nHeight (line_store b p) = 0
    | Some q \<Rightarrow> q \<in> {0..n} \<and> nHeight (line_store b p) = nHeight (line_store b q) + 1 \<and>
        pskip (line_store b p) = climb (line_store b) (nHeight (line_store b p) - GetSkipHeight (nHeight (line_store b p))) p"
    using p GetSkipHeight_less [of p] climb_line [of "p - GetSkipHeight p" p b]
    by (cases "p = 0") (simp_all add: line_store_def less_imp_le)
qed

theorem next_work_within_limit_witness:
  "\<exists>c u. GetNextWorkRequired main_params (line_store 0x1d00ffff) (Some 30) = Some c \<and> SetCompact c = (u, False, False) \<and>
    bu_val u \<le> bu_val (pow_limit 20)"
  using next_work_within_limit [OF line_wf [of "0x1d00ffff" 40], of 30 MAIN] by (simp add: params_defs)

text \<open>C38: While proof of work is allowed, the new target is the running average of the last 24
  targets, scaled by the time between the newest and the 24th block clamped to a third and three
  times 24 spacings, and capped by the limit; no intermediate 256-bit product wraps.\<close>

theorem dark_gravity_wave_exact:
  assumes "wf_tree st S" "p \<in> S" "net \<noteq> REGTEST" "24 \<le> nHeight (st p)"
    and "int (nHeight (st p)) \<le> nLastPOWBlock (Params net)"
    and "\<forall>q \<in> S. nTime (st q) \<noteq> 0" "\<forall>q \<in> S. target_val (st q) < 2 ^ 240"
  shows "\<exists>u. GetNextWorkRequired (Params net) st (Some p) = GetCompact False u \<and> length u = 8 \<and>
    bu_val u = min (bu_val (bnProofOfWorkLimit (Params net)))
       (dgw_average 0 0 (chain_targets st 24 p) *
        nat (clamp_timespan (24 * nTargetSpacing (Params net))
          (GetBlockTime (st p) - GetBlockTime (st (the (climb st 23 p))))) div
        nat (24 * nTargetSpacing (Params net)))"
proof -
  have id: "networkID (Params net) \<noteq> REGTEST" using assms(3) by (cases net) (simp_all add: params_defs)
  then have "GetNextWorkRequired (Params net) st (Some p) = DarkGravityWave (Params net) st p"
    using assms(4,5) by (simp add: GetNextWorkRequired_def PastBlocks_def)
  then show ?thesis using DarkGravityWave_spec [OF assms(1,2,4), of net] assms(6,7) by (auto simp: is_u256_def)
qed

lemma line_target: "target_val (line_store 0x1d00ffff q) = 0xffff * 256 ^ 26"
  by (simp add: target_val_def line_store_def compact_value_def compact_exponent_def compact_mantissa_def)

theorem dark_gravity_wave_exact_witness:
  "\<exists>u. GetNextWorkRequired main_params (line_store 0x1d00ffff) (Some 30) = GetCompact False u \<and> length u = 8 \<and>
    bu_val u = min (bu_val (pow_limit 20))
       (dgw_average 0 0 (chain_targets (line_store 0x1d00ffff) 24 30) * 13800 div 14400)"
proof -
  have T: "\<forall>q \<in> {0..40}. nTime (line_store 0x1d00ffff q) \<noteq> 0"
  proof
    fix q :: nat assume "q \<in> {0..40}"
    then have "600 * q + 1 < 2 ^ LENGTH(32)" by simp
    then have "unat (of_nat (600 * q + 1) :: uint32) = 600 * q + 1"
      by (simp only: unsigned_of_nat of_nat_id take_bit_nat_eq_self)
    then show "nTime (line_store 0x1d00ffff q) \<noteq> 0" by (simp only: line_store_def CBlockIndex.simps) (metis Suc_eq_plus1 nat.distinct(1) unsigned_0)
  qed
  have t: "GetBlockTime (line_store 0x1d00ffff 30) - GetBlockTime (line_store 0x1d00ffff 7) = 13800"
    by (simp add: GetBlockTime_def line_store_def)
  have c: "clamp_timespan 14400 13800 = 13800" by (simp add: clamp_timespan_def)
  have "nHeight (line_store 0x1d00ffff 30) = 30" by (simp add: line_store_def)
  then show ?thesis
    using dark_gravity_wave_exact [OF line_wf [of "0x1d00ffff" 40], of 30 MAIN] T t c climb_line [of 23 30 "0x1d00ffff"]
    by (simp add: line_target main_params_def JULIAN_YEAR_SECONDS_def)
qed

text \<open>After the last proof-of-work block the target moves exponentially towards a spacing of
  60 seconds: \<open>t * (2340 + 2 * spacing) / 2460\<close>, clamped to \<open>2^232 - 1\<close>, with a negative spacing
  counted as 1; 60 seconds leave the target as it is.\<close>

theorem stake_retarget_exact:
  assumes "wf_tree st S" "p \<in> S" "net \<noteq> REGTEST" "24 \<le> nHeight (st p)"
    and "nLastPOWBlock (Params net) < int (nHeight (st p))" "pprev (st p) = Some q"
    and "target_val (st p) < 2 ^ 223"
  shows "\<exists>u. GetNextWorkRequired (Params net) st (Some p) = GetCompact False u \<and> length u = 8 \<and>
    (let spacing = (if GetBlockTime (st p) < GetBlockTime (st q) then 1
                    else GetBlockTime (st p) - GetBlockTime (st q));
         n = target_val (st p) * (nat (2340 + 2 * spacing) mod 2 ^ 32) div 2460
     in bu_val u = (if n = 0 then 2 ^ 232 - 1 else min n (2 ^ 232 - 1)) \<and>
        (spacing = 60 \<longrightarrow> 0 < target_val (st p) \<longrightarrow> bu_val u = target_val (st p)))"
proof -
  have id: "networkID (Params net) \<noteq> REGTEST" using assms(3) by (cases net) (simp_all add: params_defs)
  then have g: "GetNextWorkRequired (Params net) st (Some p) = StakeRetarget st p"
    using assms(4,5) by (simp add: GetNextWorkRequired_def PastBlocks_def)
  have w: "target_val (st p) * (k mod 2 ^ 32) mod 2 ^ 256 = target_val (st p) * (k mod 2 ^ 32)" for k
  proof (rule mod_less)
    have "target_val (st p) * (k mod 2 ^ 32) \<le> 2 ^ 223 * 2 ^ 32"
      using assms(7) by (intro mult_mono) (simp_all add: less_imp_le)
    also have "\<dots> < 2 ^ 256" by simp
    finally show "target_val (st p) * (k mod 2 ^ 32) < 2 ^ 256" .
  qed
  have h: "nHeight (st p) \<noteq> 0" using assms(4) by simp
  define t where "t = target_val (st p)"
  have same: "t * 2460 div 2460 = t" by simp
  have tl: "t < 2 ^ 232 - 1" using assms(7) by (simp add: t_def)
  obtain u where u: "StakeRetarget st p = GetCompact False u" "is_u256 u"
    and v: "bu_val u = (let spacing = (if GetBlockTime (st p) < GetBlockTime (st q) then 1
                    else GetBlockTime (st p) - GetBlockTime (st q));
         n = t * (nat (2340 + 2 * spacing) mod 2 ^ 32) div 2460
     in if n = 0 then 2 ^ 232 - 1 else min n (2 ^ 232 - 1))"
    using StakeRetarget_spec [of st p q, OF assms(6) h] unfolding w Let_def t_def by blast
  show ?thesis
    unfolding g Let_def using u v tl by (intro exI [of _ u]) (auto simp: is_u256_def t_def [symmetric] Let_def min_def)
qed

theorem stake_retarget_exact_witness:
  "\<exists>u. GetNextWorkRequired test_params (line_store 0x1b00ffff) (Some 201) = GetCompact False u \<and>
     bu_val u = 0xffff * 256 ^ 24 * 3540 div 2460"
proof -
  have t: "target_val (line_store 0x1b00ffff 201) = 0xffff * 256 ^ 24"
    by (simp add: target_val_def line_store_def compact_value_def compact_exponent_def compact_mantissa_def)
  have g: "GetBlockTime (line_store 0x1b00ffff 201) = 120601" "GetBlockTime (line_store 0x1b00ffff 200) = 120001"
    by (simp_all add: GetBlockTime_def line_store_def)
  have b: "nHeight (line_store 0x1b00ffff 201) = 201" "pprev (line_store 0x1b00ffff 201) = Some 200"
    by (simp_all add: line_store_def)
  have P: "Params TESTNET = test_params" "nLastPOWBlock test_params = 200" by (simp_all add: test_params_def)
  show ?thesis
    using stake_retarget_exact [OF line_wf [of "0x1b00ffff" 300], of 201 TESTNET 200] unfolding P t g b
    by auto
qed

text \<open>C34: A hash passes \<open>CheckProofOfWork\<close> exactly when the check is skipped (regtest), or the
  compact target is positive, without sign or overflow, within the limit of the network, and not
  smaller than the hash.\<close>

theorem CheckProofOfWork_exact:
  assumes "length hash = 8"
  shows "CheckProofOfWork (Params net) hash c \<longleftrightarrow>
    net = REGTEST \<or>
    (even (unat c div 2 ^ 23) \<and> 0 < compact_value c \<and>
     compact_value c \<le> bu_val (bnProofOfWorkLimit (Params net)) \<and> bu_val hash \<le> compact_value c)"
  using CheckProofOfWork_spec assms by (simp add: is_u256_def)

theorem CheckProofOfWork_exact_witness:
  "CheckProofOfWork main_params [5, 0, 0, 0, 0, 0, 0, 0] 0x1d00ffff"
  using CheckProofOfWork_exact [of "[5, 0, 0, 0, 0, 0, 0, 0]" MAIN "0x1d00ffff"]
  by (simp add: compact_value_def compact_exponent_def compact_mantissa_def main_params_def bu_val_pow_limit)

text \<open>The proof of a block with a valid target \<open>t\<close> is exactly \<open>2^256 / (t + 1)\<close>, although
  \<open>2^256\<close> does not fit; it is 0 for a zero, negative or overflowing target, and never an exception.\<close>

theorem GetBlockProof_exact:
  "\<exists>w. GetBlockProof b = Inr w \<and> length w = 8 \<and> bu_val w =
    (if compact_value (nBits b) = 0 \<or> unat (nBits b) div 2 ^ 23 mod 2 = 1 \<or> 2 ^ 256 \<le> compact_value (nBits b) then 0
     else 2 ^ 256 div (compact_value (nBits b) + 1))"
  using GetBlockProof_val [of b] by (simp add: is_u256_def odd_iff_mod_2_eq_one)

end
