(* ===== verification/Script.thy ===== *)
theory Script
  imports Prelude
begin

text \<open>
  Scripts: \<open>src/src/script/script.h\<close> and \<open>src/src/script/script.cpp\<close>. A script is its
  bytes and an iterator is the suffix it points at, so every loop over a script is a recursion on
  suffixes that \<open>GetOp2\<close> shortens. Opcodes are bytes under the names of \<open>opcodetype\<close>.
\<close>

section \<open>Opcodes\<close>

abbreviation (input) OP_0 :: byte where "OP_0 \<equiv> 0x00"
abbreviation (input) OP_FALSE :: byte where "OP_FALSE \<equiv> 0x00"
abbreviation (input) OP_PUSHDATA1 :: byte where "OP_PUSHDATA1 \<equiv> 0x4c"
abbreviation (input) OP_PUSHDATA2 :: byte where "OP_PUSHDATA2 \<equiv> 0x4d"
abbreviation (input) OP_PUSHDATA4 :: byte where "OP_PUSHDATA4 \<equiv> 0x4e"
abbreviation (input) OP_1NEGATE :: byte where "OP_1NEGATE \<equiv> 0x4f"
abbreviation (input) OP_RESERVED :: byte where "OP_RESERVED \<equiv> 0x50"
abbreviation (input) OP_1 :: byte where "OP_1 \<equiv> 0x51"
abbreviation (input) OP_TRUE :: byte where "OP_TRUE \<equiv> 0x51"
abbreviation (input) OP_2 :: byte where "OP_2 \<equiv> 0x52"
abbreviation (input) OP_3 :: byte where "OP_3 \<equiv> 0x53"
abbreviation (input) OP_4 :: byte where "OP_4 \<equiv> 0x54"
abbreviation (input) OP_5 :: byte where "OP_5 \<equiv> 0x55"
abbreviation (input) OP_6 :: byte where "OP_6 \<equiv> 0x56"
abbreviation (input) OP_7 :: byte where "OP_7 \<equiv> 0x57"
abbreviation (input) OP_8 :: byte where "OP_8 \<equiv> 0x58"
abbreviation (input) OP_9 :: byte where "OP_9 \<equiv> 0x59"
abbreviation (input) OP_10 :: byte where "OP_10 \<equiv> 0x5a"
abbreviation (input) OP_11 :: byte where "OP_11 \<equiv> 0x5b"
abbreviation (input) OP_12 :: byte where "OP_12 \<equiv> 0x5c"
abbreviation (input) OP_13 :: byte where "OP_13 \<equiv> 0x5d"
abbreviation (input) OP_14 :: byte where "OP_14 \<equiv> 0x5e"
abbreviation (input) OP_15 :: byte where "OP_15 \<equiv> 0x5f"
abbreviation (input) OP_16 :: byte where "OP_16 \<equiv> 0x60"
abbreviation (input) OP_NOP :: byte where "OP_NOP \<equiv> 0x61"
abbreviation (input) OP_VER :: byte where "OP_VER \<equiv> 0x62"
abbreviation (input) OP_IF :: byte where "OP_IF \<equiv> 0x63"
abbreviation (input) OP_NOTIF :: byte where "OP_NOTIF \<equiv> 0x64"
abbreviation (input) OP_VERIF :: byte where "OP_VERIF \<equiv> 0x65"
abbreviation (input) OP_VERNOTIF :: byte where "OP_VERNOTIF \<equiv> 0x66"
abbreviation (input) OP_ELSE :: byte where "OP_ELSE \<equiv> 0x67"
abbreviation (input) OP_ENDIF :: byte where "OP_ENDIF \<equiv> 0x68"
abbreviation (input) OP_VERIFY :: byte where "OP_VERIFY \<equiv> 0x69"
abbreviation (input) OP_RETURN :: byte where "OP_RETURN \<equiv> 0x6a"
abbreviation (input) OP_TOALTSTACK :: byte where "OP_TOALTSTACK \<equiv> 0x6b"
abbreviation (input) OP_FROMALTSTACK :: byte where "OP_FROMALTSTACK \<equiv> 0x6c"
abbreviation (input) OP_2DROP :: byte where "OP_2DROP \<equiv> 0x6d"
abbreviation (input) OP_2DUP :: byte where "OP_2DUP \<equiv> 0x6e"
abbreviation (input) OP_3DUP :: byte where "OP_3DUP \<equiv> 0x6f"
abbreviation (input) OP_2OVER :: byte where "OP_2OVER \<equiv> 0x70"
abbreviation (input) OP_2ROT :: byte where "OP_2ROT \<equiv> 0x71"
abbreviation (input) OP_2SWAP :: byte where "OP_2SWAP \<equiv> 0x72"
abbreviation (input) OP_IFDUP :: byte where "OP_IFDUP \<equiv> 0x73"
abbreviation (input) OP_DEPTH :: byte where "OP_DEPTH \<equiv> 0x74"
abbreviation (input) OP_DROP :: byte where "OP_DROP \<equiv> 0x75"
abbreviation (input) OP_DUP :: byte where "OP_DUP \<equiv> 0x76"
abbreviation (input) OP_NIP :: byte where "OP_NIP \<equiv> 0x77"
abbreviation (input) OP_OVER :: byte where "OP_OVER \<equiv> 0x78"
abbreviation (input) OP_PICK :: byte where "OP_PICK \<equiv> 0x79"
abbreviation (input) OP_ROLL :: byte where "OP_ROLL \<equiv> 0x7a"
abbreviation (input) OP_ROT :: byte where "OP_ROT \<equiv> 0x7b"
abbreviation (input) OP_SWAP :: byte where "OP_SWAP \<equiv> 0x7c"
abbreviation (input) OP_TUCK :: byte where "OP_TUCK \<equiv> 0x7d"
abbreviation (input) OP_CAT :: byte where "OP_CAT \<equiv> 0x7e"
abbreviation (input) OP_SUBSTR :: byte where "OP_SUBSTR \<equiv> 0x7f"
abbreviation (input) OP_LEFT :: byte where "OP_LEFT \<equiv> 0x80"
abbreviation (input) OP_RIGHT :: byte where "OP_RIGHT \<equiv> 0x81"
abbreviation (input) OP_SIZE :: byte where "OP_SIZE \<equiv> 0x82"
abbreviation (input) OP_INVERT :: byte where "OP_INVERT \<equiv> 0x83"
abbreviation (input) OP_AND :: byte where "OP_AND \<equiv> 0x84"
abbreviation (input) OP_OR :: byte where "OP_OR \<equiv> 0x85"
abbreviation (input) OP_XOR :: byte where "OP_XOR \<equiv> 0x86"
abbreviation (input) OP_EQUAL :: byte where "OP_EQUAL \<equiv> 0x87"
abbreviation (input) OP_EQUALVERIFY :: byte where "OP_EQUALVERIFY \<equiv> 0x88"
abbreviation (input) OP_RESERVED1 :: byte where "OP_RESERVED1 \<equiv> 0x89"
abbreviation (input) OP_RESERVED2 :: byte where "OP_RESERVED2 \<equiv> 0x8a"
abbreviation (input) OP_1ADD :: byte where "OP_1ADD \<equiv> 0x8b"
abbreviation (input) OP_1SUB :: byte where "OP_1SUB \<equiv> 0x8c"
abbreviation (input) OP_2MUL :: byte where "OP_2MUL \<equiv> 0x8d"
abbreviation (input) OP_2DIV :: byte where "OP_2DIV \<equiv> 0x8e"
abbreviation (input) OP_NEGATE :: byte where "OP_NEGATE \<equiv> 0x8f"
abbreviation (input) OP_ABS :: byte where "OP_ABS \<equiv> 0x90"
abbreviation (input) OP_NOT :: byte where "OP_NOT \<equiv> 0x91"
abbreviation (input) OP_0NOTEQUAL :: byte where "OP_0NOTEQUAL \<equiv> 0x92"
abbreviation (input) OP_ADD :: byte where "OP_ADD \<equiv> 0x93"
abbreviation (input) OP_SUB :: byte where "OP_SUB \<equiv> 0x94"
abbreviation (input) OP_MUL :: byte where "OP_MUL \<equiv> 0x95"
abbreviation (input) OP_DIV :: byte where "OP_DIV \<equiv> 0x96"
abbreviation (input) OP_MOD :: byte where "OP_MOD \<equiv> 0x97"
abbreviation (input) OP_LSHIFT :: byte where "OP_LSHIFT \<equiv> 0x98"
abbreviation (input) OP_RSHIFT :: byte where "OP_RSHIFT \<equiv> 0x99"
abbreviation (input) OP_BOOLAND :: byte where "OP_BOOLAND \<equiv> 0x9a"
abbreviation (input) OP_BOOLOR :: byte where "OP_BOOLOR \<equiv> 0x9b"
abbreviation (input) OP_NUMEQUAL :: byte where "OP_NUMEQUAL \<equiv> 0x9c"
abbreviation (input) OP_NUMEQUALVERIFY :: byte where "OP_NUMEQUALVERIFY \<equiv> 0x9d"
abbreviation (input) OP_NUMNOTEQUAL :: byte where "OP_NUMNOTEQUAL \<equiv> 0x9e"
abbreviation (input) OP_LESSTHAN :: byte where "OP_LESSTHAN \<equiv> 0x9f"
abbreviation (input) OP_GREATERTHAN :: byte where "OP_GREATERTHAN \<equiv> 0xa0"
abbreviation (input) OP_LESSTHANOREQUAL :: byte where "OP_LESSTHANOREQUAL \<equiv> 0xa1"
abbreviation (input) OP_GREATERTHANOREQUAL :: byte where "OP_GREATERTHANOREQUAL \<equiv> 0xa2"
abbreviation (input) OP_MIN :: byte where "OP_MIN \<equiv> 0xa3"
abbreviation (input) OP_MAX :: byte where "OP_MAX \<equiv> 0xa4"
abbreviation (input) OP_WITHIN :: byte where "OP_WITHIN \<equiv> 0xa5"
abbreviation (input) OP_RIPEMD160 :: byte where "OP_RIPEMD160 \<equiv> 0xa6"
abbreviation (input) OP_SHA1 :: byte where "OP_SHA1 \<equiv> 0xa7"
abbreviation (input) OP_SHA256 :: byte where "OP_SHA256 \<equiv> 0xa8"
abbreviation (input) OP_HASH160 :: byte where "OP_HASH160 \<equiv> 0xa9"
abbreviation (input) OP_HASH256 :: byte where "OP_HASH256 \<equiv> 0xaa"
abbreviation (input) OP_CODESEPARATOR :: byte where "OP_CODESEPARATOR \<equiv> 0xab"
abbreviation (input) OP_CHECKSIG :: byte where "OP_CHECKSIG \<equiv> 0xac"
abbreviation (input) OP_CHECKSIGVERIFY :: byte where "OP_CHECKSIGVERIFY \<equiv> 0xad"
abbreviation (input) OP_CHECKMULTISIG :: byte where "OP_CHECKMULTISIG \<equiv> 0xae"
abbreviation (input) OP_CHECKMULTISIGVERIFY :: byte where "OP_CHECKMULTISIGVERIFY \<equiv> 0xaf"
abbreviation (input) OP_NOP1 :: byte where "OP_NOP1 \<equiv> 0xb0"
abbreviation (input) OP_NOP2 :: byte where "OP_NOP2 \<equiv> 0xb1"
abbreviation (input) OP_CHECKLOCKTIMEVERIFY :: byte where "OP_CHECKLOCKTIMEVERIFY \<equiv> 0xb1"
abbreviation (input) OP_NOP3 :: byte where "OP_NOP3 \<equiv> 0xb2"
abbreviation (input) OP_NOP4 :: byte where "OP_NOP4 \<equiv> 0xb3"
abbreviation (input) OP_NOP5 :: byte where "OP_NOP5 \<equiv> 0xb4"
abbreviation (input) OP_NOP6 :: byte where "OP_NOP6 \<equiv> 0xb5"
abbreviation (input) OP_NOP7 :: byte where "OP_NOP7 \<equiv> 0xb6"
abbreviation (input) OP_NOP8 :: byte where "OP_NOP8 \<equiv> 0xb7"
abbreviation (input) OP_NOP9 :: byte where "OP_NOP9 \<equiv> 0xb8"
abbreviation (input) OP_NOP10 :: byte where "OP_NOP10 \<equiv> 0xb9"
abbreviation (input) OP_ZEROCOINMINT :: byte where "OP_ZEROCOINMINT \<equiv> 0xc1"
abbreviation (input) OP_ZEROCOINSPEND :: byte where "OP_ZEROCOINSPEND \<equiv> 0xc2"
abbreviation (input) OP_ZEROCOINPUBLICSPEND :: byte where "OP_ZEROCOINPUBLICSPEND \<equiv> 0xc3"
abbreviation (input) OP_SMALLINTEGER :: byte where "OP_SMALLINTEGER \<equiv> 0xfa"
abbreviation (input) OP_PUBKEYS :: byte where "OP_PUBKEYS \<equiv> 0xfb"
abbreviation (input) OP_PUBKEYHASH :: byte where "OP_PUBKEYHASH \<equiv> 0xfd"
abbreviation (input) OP_PUBKEY :: byte where "OP_PUBKEY \<equiv> 0xfe"
abbreviation (input) OP_INVALIDOPCODE :: byte where "OP_INVALIDOPCODE \<equiv> 0xff"

definition opcodetype :: "(string \<times> byte) list" where
  "opcodetype =
    [(''OP_0'', OP_0),
     (''OP_FALSE'', OP_FALSE),
     (''OP_PUSHDATA1'', OP_PUSHDATA1),
     (''OP_PUSHDATA2'', OP_PUSHDATA2),
     (''OP_PUSHDATA4'', OP_PUSHDATA4),
     (''OP_1NEGATE'', OP_1NEGATE),
     (''OP_RESERVED'', OP_RESERVED),
     (''OP_1'', OP_1),
     (''OP_TRUE'', OP_TRUE),
     (''OP_2'', OP_2),
     (''OP_3'', OP_3),
     (''OP_4'', OP_4),
     (''OP_5'', OP_5),
     (''OP_6'', OP_6),
     (''OP_7'', OP_7),
     (''OP_8'', OP_8),
     (''OP_9'', OP_9),
     (''OP_10'', OP_10),
     (''OP_11'', OP_11),
     (''OP_12'', OP_12),
     (''OP_13'', OP_13),
     (''OP_14'', OP_14),
     (''OP_15'', OP_15),
     (''OP_16'', OP_16),
     (''OP_NOP'', OP_NOP),
     (''OP_VER'', OP_VER),
     (''OP_IF'', OP_IF),
     (''OP_NOTIF'', OP_NOTIF),
     (''OP_VERIF'', OP_VERIF),
     (''OP_VERNOTIF'', OP_VERNOTIF),
     (''OP_ELSE'', OP_ELSE),
     (''OP_ENDIF'', OP_ENDIF),
     (''OP_VERIFY'', OP_VERIFY),
     (''OP_RETURN'', OP_RETURN),
     (''OP_TOALTSTACK'', OP_TOALTSTACK),
     (''OP_FROMALTSTACK'', OP_FROMALTSTACK),
     (''OP_2DROP'', OP_2DROP),
     (''OP_2DUP'', OP_2DUP),
     (''OP_3DUP'', OP_3DUP),
     (''OP_2OVER'', OP_2OVER),
     (''OP_2ROT'', OP_2ROT),
     (''OP_2SWAP'', OP_2SWAP),
     (''OP_IFDUP'', OP_IFDUP),
     (''OP_DEPTH'', OP_DEPTH),
     (''OP_DROP'', OP_DROP),
     (''OP_DUP'', OP_DUP),
     (''OP_NIP'', OP_NIP),
     (''OP_OVER'', OP_OVER),
     (''OP_PICK'', OP_PICK),
     (''OP_ROLL'', OP_ROLL),
     (''OP_ROT'', OP_ROT),
     (''OP_SWAP'', OP_SWAP),
     (''OP_TUCK'', OP_TUCK),
     (''OP_CAT'', OP_CAT),
     (''OP_SUBSTR'', OP_SUBSTR),
     (''OP_LEFT'', OP_LEFT),
     (''OP_RIGHT'', OP_RIGHT),
     (''OP_SIZE'', OP_SIZE),
     (''OP_INVERT'', OP_INVERT),
     (''OP_AND'', OP_AND),
     (''OP_OR'', OP_OR),
     (''OP_XOR'', OP_XOR),
     (''OP_EQUAL'', OP_EQUAL),
     (''OP_EQUALVERIFY'', OP_EQUALVERIFY),
     (''OP_RESERVED1'', OP_RESERVED1),
     (''OP_RESERVED2'', OP_RESERVED2),
     (''OP_1ADD'', OP_1ADD),
     (''OP_1SUB'', OP_1SUB),
     (''OP_2MUL'', OP_2MUL),
     (''OP_2DIV'', OP_2DIV),
     (''OP_NEGATE'', OP_NEGATE),
     (''OP_ABS'', OP_ABS),
     (''OP_NOT'', OP_NOT),
     (''OP_0NOTEQUAL'', OP_0NOTEQUAL),
     (''OP_ADD'', OP_ADD),
     (''OP_SUB'', OP_SUB),
     (''OP_MUL'', OP_MUL),
     (''OP_DIV'', OP_DIV),
     (''OP_MOD'', OP_MOD),
     (''OP_LSHIFT'', OP_LSHIFT),
     (''OP_RSHIFT'', OP_RSHIFT),
     (''OP_BOOLAND'', OP_BOOLAND),
     (''OP_BOOLOR'', OP_BOOLOR),
     (''OP_NUMEQUAL'', OP_NUMEQUAL),
     (''OP_NUMEQUALVERIFY'', OP_NUMEQUALVERIFY),
     (''OP_NUMNOTEQUAL'', OP_NUMNOTEQUAL),
     (''OP_LESSTHAN'', OP_LESSTHAN),
     (''OP_GREATERTHAN'', OP_GREATERTHAN),
     (''OP_LESSTHANOREQUAL'', OP_LESSTHANOREQUAL),
     (''OP_GREATERTHANOREQUAL'', OP_GREATERTHANOREQUAL),
     (''OP_MIN'', OP_MIN),
     (''OP_MAX'', OP_MAX),
     (''OP_WITHIN'', OP_WITHIN),
     (''OP_RIPEMD160'', OP_RIPEMD160),
     (''OP_SHA1'', OP_SHA1),
     (''OP_SHA256'', OP_SHA256),
     (''OP_HASH160'', OP_HASH160),
     (''OP_HASH256'', OP_HASH256),
     (''OP_CODESEPARATOR'', OP_CODESEPARATOR),
     (''OP_CHECKSIG'', OP_CHECKSIG),
     (''OP_CHECKSIGVERIFY'', OP_CHECKSIGVERIFY),
     (''OP_CHECKMULTISIG'', OP_CHECKMULTISIG),
     (''OP_CHECKMULTISIGVERIFY'', OP_CHECKMULTISIGVERIFY),
     (''OP_NOP1'', OP_NOP1),
     (''OP_NOP2'', OP_NOP2),
     (''OP_CHECKLOCKTIMEVERIFY'', OP_CHECKLOCKTIMEVERIFY),
     (''OP_NOP3'', OP_NOP3),
     (''OP_NOP4'', OP_NOP4),
     (''OP_NOP5'', OP_NOP5),
     (''OP_NOP6'', OP_NOP6),
     (''OP_NOP7'', OP_NOP7),
     (''OP_NOP8'', OP_NOP8),
     (''OP_NOP9'', OP_NOP9),
     (''OP_NOP10'', OP_NOP10),
     (''OP_ZEROCOINMINT'', OP_ZEROCOINMINT),
     (''OP_ZEROCOINSPEND'', OP_ZEROCOINSPEND),
     (''OP_ZEROCOINPUBLICSPEND'', OP_ZEROCOINPUBLICSPEND),
     (''OP_SMALLINTEGER'', OP_SMALLINTEGER),
     (''OP_PUBKEYS'', OP_PUBKEYS),
     (''OP_PUBKEYHASH'', OP_PUBKEYHASH),
     (''OP_PUBKEY'', OP_PUBKEY),
     (''OP_INVALIDOPCODE'', OP_INVALIDOPCODE)]"

definition GetOpName :: "byte \<Rightarrow> string" where
  "GetOpName opcode =
    (case map_of
      [(OP_0, ''0''),
       (OP_PUSHDATA1, ''OP_PUSHDATA1''),
       (OP_PUSHDATA2, ''OP_PUSHDATA2''),
       (OP_PUSHDATA4, ''OP_PUSHDATA4''),
       (OP_1NEGATE, ''-1''),
       (OP_RESERVED, ''OP_RESERVED''),
       (OP_1, ''1''),
       (OP_2, ''2''),
       (OP_3, ''3''),
       (OP_4, ''4''),
       (OP_5, ''5''),
       (OP_6, ''6''),
       (OP_7, ''7''),
       (OP_8, ''8''),
       (OP_9, ''9''),
       (OP_10, ''10''),
       (OP_11, ''11''),
       (OP_12, ''12''),
       (OP_13, ''13''),
       (OP_14, ''14''),
       (OP_15, ''15''),
       (OP_16, ''16''),
       (OP_NOP, ''OP_NOP''),
       (OP_VER, ''OP_VER''),
       (OP_IF, ''OP_IF''),
       (OP_NOTIF, ''OP_NOTIF''),
       (OP_VERIF, ''OP_VERIF''),
       (OP_VERNOTIF, ''OP_VERNOTIF''),
       (OP_ELSE, ''OP_ELSE''),
       (OP_ENDIF, ''OP_ENDIF''),
       (OP_VERIFY, ''OP_VERIFY''),
       (OP_RETURN, ''OP_RETURN''),
       (OP_TOALTSTACK, ''OP_TOALTSTACK''),
       (OP_FROMALTSTACK, ''OP_FROMALTSTACK''),
       (OP_2DROP, ''OP_2DROP''),
       (OP_2DUP, ''OP_2DUP''),
       (OP_3DUP, ''OP_3DUP''),
       (OP_2OVER, ''OP_2OVER''),
       (OP_2ROT, ''OP_2ROT''),
       (OP_2SWAP, ''OP_2SWAP''),
       (OP_IFDUP, ''OP_IFDUP''),
       (OP_DEPTH, ''OP_DEPTH''),
       (OP_DROP, ''OP_DROP''),
       (OP_DUP, ''OP_DUP''),
       (OP_NIP, ''OP_NIP''),
       (OP_OVER, ''OP_OVER''),
       (OP_PICK, ''OP_PICK''),
       (OP_ROLL, ''OP_ROLL''),
       (OP_ROT, ''OP_ROT''),
       (OP_SWAP, ''OP_SWAP''),
       (OP_TUCK, ''OP_TUCK''),
       (OP_CAT, ''OP_CAT''),
       (OP_SUBSTR, ''OP_SUBSTR''),
       (OP_LEFT, ''OP_LEFT''),
       (OP_RIGHT, ''OP_RIGHT''),
       (OP_SIZE, ''OP_SIZE''),
       (OP_INVERT, ''OP_INVERT''),
       (OP_AND, ''OP_AND''),
       (OP_OR, ''OP_OR''),
       (OP_XOR, ''OP_XOR''),
       (OP_EQUAL, ''OP_EQUAL''),
       (OP_EQUALVERIFY, ''OP_EQUALVERIFY''),
       (OP_RESERVED1, ''OP_RESERVED1''),
       (OP_RESERVED2, ''OP_RESERVED2''),
       (OP_1ADD, ''OP_1ADD''),
       (OP_1SUB, ''OP_1SUB''),
       (OP_2MUL, ''OP_2MUL''),
       (OP_2DIV, ''OP_2DIV''),
       (OP_NEGATE, ''OP_NEGATE''),
       (OP_ABS, ''OP_ABS''),
       (OP_NOT, ''OP_NOT''),
       (OP_0NOTEQUAL, ''OP_0NOTEQUAL''),
       (OP_ADD, ''OP_ADD''),
       (OP_SUB, ''OP_SUB''),
       (OP_MUL, ''OP_MUL''),
       (OP_DIV, ''OP_DIV''),
       (OP_MOD, ''OP_MOD''),
       (OP_LSHIFT, ''OP_LSHIFT''),
       (OP_RSHIFT, ''OP_RSHIFT''),
       (OP_BOOLAND, ''OP_BOOLAND''),
       (OP_BOOLOR, ''OP_BOOLOR''),
       (OP_NUMEQUAL, ''OP_NUMEQUAL''),
       (OP_NUMEQUALVERIFY, ''OP_NUMEQUALVERIFY''),
       (OP_NUMNOTEQUAL, ''OP_NUMNOTEQUAL''),
       (OP_LESSTHAN, ''OP_LESSTHAN''),
       (OP_GREATERTHAN, ''OP_GREATERTHAN''),
       (OP_LESSTHANOREQUAL, ''OP_LESSTHANOREQUAL''),
       (OP_GREATERTHANOREQUAL, ''OP_GREATERTHANOREQUAL''),
       (OP_MIN, ''OP_MIN''),
       (OP_MAX, ''OP_MAX''),
       (OP_WITHIN, ''OP_WITHIN''),
       (OP_RIPEMD160, ''OP_RIPEMD160''),
       (OP_SHA1, ''OP_SHA1''),
       (OP_SHA256, ''OP_SHA256''),
       (OP_HASH160, ''OP_HASH160''),
       (OP_HASH256, ''OP_HASH256''),
       (OP_CODESEPARATOR, ''OP_CODESEPARATOR''),
       (OP_CHECKSIG, ''OP_CHECKSIG''),
       (OP_CHECKSIGVERIFY, ''OP_CHECKSIGVERIFY''),
       (OP_CHECKMULTISIG, ''OP_CHECKMULTISIG''),
       (OP_CHECKMULTISIGVERIFY, ''OP_CHECKMULTISIGVERIFY''),
       (OP_NOP1, ''OP_NOP1''),
       (OP_NOP2, ''OP_NOP2''),
       (OP_NOP3, ''OP_NOP3''),
       (OP_NOP4, ''OP_NOP4''),
       (OP_NOP5, ''OP_NOP5''),
       (OP_NOP6, ''OP_NOP6''),
       (OP_NOP7, ''OP_NOP7''),
       (OP_NOP8, ''OP_NOP8''),
       (OP_NOP9, ''OP_NOP9''),
       (OP_NOP10, ''OP_NOP10''),
       (OP_ZEROCOINMINT, ''OP_ZEROCOINMINT''),
       (OP_ZEROCOINSPEND, ''OP_ZEROCOINSPEND''),
       (OP_ZEROCOINPUBLICSPEND, ''OP_ZEROCOINPUBLICSPEND''),
       (OP_INVALIDOPCODE, ''OP_INVALIDOPCODE'')] opcode of
       Some name \<Rightarrow> name
     | None \<Rightarrow> ''OP_UNKNOWN'')"

section \<open>Little-endian numbers\<close>

fun le_val :: "bytes \<Rightarrow> nat" where
  "le_val [] = 0"
| "le_val (b # bs) = unat b + 256 * le_val bs"

fun le_bytes :: "nat \<Rightarrow> nat \<Rightarrow> bytes" where
  "le_bytes 0 n = []"
| "le_bytes (Suc k) n = of_nat n # le_bytes k (n div 256)"

section \<open>Script numbers\<close>

datatype script_exception =
    ScriptNumOverflow
  | ScriptNumNotMinimal
  | StackEmpty
  | OutOfRange

text \<open>
  \<open>set_vch\<close> assembles an \<open>int64_t\<close> with shifts; \<open>CScriptNum(vch, ...)\<close> only calls it with at
  most \<open>nMaxNumSize\<close> bytes.
\<close>

fun vch_or :: "nat \<Rightarrow> bytes \<Rightarrow> uint64" where
  "vch_or i [] = 0"
| "vch_or i (b # bs) = push_bit (8 * i) (ucast b) OR vch_or (i + 1) bs"

definition set_vch :: "bytes \<Rightarrow> int" where
  "set_vch vch =
     (if vch = [] then 0
      else let result = vch_or 0 vch
           in if last vch AND 0x80 \<noteq> 0
              then - sint (result AND NOT (push_bit (8 * (length vch - 1)) 0x80))
              else sint result)"

definition nDefaultMaxNumSize :: nat where "nDefaultMaxNumSize = 4"

definition CScriptNum :: "bytes \<Rightarrow> bool \<Rightarrow> nat \<Rightarrow> script_exception + int" where
  "CScriptNum vch fRequireMinimal nMaxNumSize =
     (if nMaxNumSize < length vch then Inl ScriptNumOverflow
      else if fRequireMinimal \<and> 0 < length vch \<and> last vch AND 0x7f = 0 \<and>
              (length vch \<le> 1 \<or> vch ! (length vch - 2) AND 0x80 = 0)
           then Inl ScriptNumNotMinimal
      else Inr (set_vch vch))"

definition getint :: "int \<Rightarrow> int" where
  "getint m_value =
     (if 2147483647 < m_value then 2147483647
      else if m_value < -2147483648 then -2147483648
      else m_value)"

text \<open>The loop \<open>while (absvalue)\<close> of \<open>serialize\<close>.\<close>

fun abs_bytes :: "nat \<Rightarrow> bytes" where
  "abs_bytes absvalue =
     (if absvalue = 0 then [] else of_nat (absvalue mod 256) # abs_bytes (absvalue div 256))"

declare abs_bytes.simps [simp del]

definition serialize :: "int \<Rightarrow> bytes" where
  "serialize value =
     (if value = 0 then []
      else let neg = value < 0;
               result = abs_bytes (nat \<bar>value\<bar>)
           in if last result AND 0x80 \<noteq> 0 then result @ [if neg then 0x80 else 0]
              else if neg then butlast result @ [last result OR 0x80]
              else result)"

section \<open>Building scripts\<close>

definition push_opcode :: "bytes \<Rightarrow> byte \<Rightarrow> bytes" where
  "push_opcode s opcode = s @ [opcode]"

definition push_data :: "bytes \<Rightarrow> bytes \<Rightarrow> bytes" where
  "push_data s b =
     s @ (if length b < unat OP_PUSHDATA1 then [of_nat (length b)]
          else if length b \<le> 0xff then [OP_PUSHDATA1, of_nat (length b)]
          else if length b \<le> 0xffff then OP_PUSHDATA2 # le_bytes 2 (length b)
          else OP_PUSHDATA4 # le_bytes 4 (length b)) @ b"

definition push_int64 :: "bytes \<Rightarrow> int \<Rightarrow> bytes" where
  "push_int64 s n =
     (if n = -1 \<or> (1 \<le> n \<and> n \<le> 16) then s @ [of_int (n + (uint OP_1 - 1))]
      else if n = 0 then s @ [OP_0]
      else push_data s (serialize n))"

section \<open>Reading scripts\<close>

text \<open>
  The result is the returned flag, \<open>opcodeRet\<close>, \<open>*pvchRet\<close> and the iterator after the call.
  \<open>pushed_size\<close> is the immediate operand's length, read after the opcode.
\<close>

definition pushed_size :: "byte \<Rightarrow> bytes \<Rightarrow> (nat \<times> bytes) option" where
  "pushed_size opcode pc =
     (if opcode < OP_PUSHDATA1 then Some (unat opcode, pc)
      else if opcode = OP_PUSHDATA1 then
        (if length pc < 1 then None else Some (unat (hd pc), tl pc))
      else if opcode = OP_PUSHDATA2 then
        (if length pc < 2 then None else Some (le_val (take 2 pc), drop 2 pc))
      else
        (if length pc < 4 then None else Some (le_val (take 4 pc), drop 4 pc)))"

definition GetOp2 :: "bytes \<Rightarrow> bool \<times> byte \<times> bytes \<times> bytes" where
  "GetOp2 pc0 =
     (case pc0 of
        [] \<Rightarrow> (False, OP_INVALIDOPCODE, [], [])
      | opcode # pc \<Rightarrow>
          if opcode \<le> OP_PUSHDATA4 then
            (case pushed_size opcode pc of
               None \<Rightarrow> (False, OP_INVALIDOPCODE, [], pc)
             | Some (nSize, pc) \<Rightarrow>
                 if length pc < nSize then (False, OP_INVALIDOPCODE, [], pc)
                 else (True, opcode, take nSize pc, drop nSize pc))
          else (True, opcode, [], pc))"

text \<open>\<open>None\<close> is the failed \<open>assert\<close>.\<close>

definition DecodeOP_N :: "byte \<Rightarrow> int option" where
  "DecodeOP_N opcode =
     (if opcode = OP_0 then Some 0
      else if OP_1 \<le> opcode \<and> opcode \<le> OP_16 then Some (uint opcode - (uint OP_1 - 1))
      else None)"

definition EncodeOP_N :: "int \<Rightarrow> byte option" where
  "EncodeOP_N n =
     (if 0 \<le> n \<and> n \<le> 16 then Some (if n = 0 then OP_0 else of_int (uint OP_1 + n - 1)) else None)"

lemma pushed_size_length: "pushed_size opcode pc = Some (n, pc') \<Longrightarrow> length pc' \<le> length pc"
  by (auto simp: pushed_size_def split: if_splits)

lemma GetOp2_length:
  "GetOp2 pc = (ok, opcode, vch, pc') \<Longrightarrow> pc \<noteq> [] \<Longrightarrow> length pc' < length pc"
  by (auto simp: GetOp2_def split: list.splits if_splits option.splits dest!: pushed_size_length)

lemma GetOp2_ok_nonempty: "GetOp2 pc = (True, opcode, vch, pc') \<Longrightarrow> pc \<noteq> []"
  by (auto simp: GetOp2_def)

section \<open>Loops over a script\<close>

text \<open>The inner loop of \<open>FindAndDelete\<close>: drop copies of \<open>b\<close> at the iterator.\<close>

function erase_at :: "bytes \<Rightarrow> bytes \<Rightarrow> nat \<Rightarrow> bytes \<times> nat" where
  "erase_at b pc nFound =
     (if b \<noteq> [] \<and> length b \<le> length pc \<and> take (length b) pc = b
      then erase_at b (drop (length b) pc) (nFound + 1)
      else (pc, nFound))"
  by pat_completeness auto
termination
  by (relation "measure (\<lambda>(b, pc, n). length pc)")
    (auto simp: length_greater_0_conv [symmetric] simp del: length_greater_0_conv)

declare erase_at.simps [simp del]

lemma erase_at_length: "length (fst (erase_at b pc n)) \<le> length pc"
proof (induction b pc n rule: erase_at.induct)
  case (1 b pc n)
  then show ?case by (subst erase_at.simps) (auto intro: order_trans)
qed

lemma fad_measure:
  "(pc1, n1) = erase_at b pc n \<Longrightarrow> (True, opcode, vch, pc') = GetOp2 pc1 \<Longrightarrow> length pc' < length pc"
  using erase_at_length [of b pc n] GetOp2_length [of pc1 True opcode vch pc'] GetOp2_ok_nonempty [of pc1 opcode vch pc']
  by (metis fst_conv order_less_le_trans)

text \<open>
  The outer loop: \<open>done\<close> is what lies before the iterator. It stops when \<open>GetOp\<close> fails;
  the bytes that fail to parse stay in the script.
\<close>

function fad_loop :: "bytes \<Rightarrow> bytes \<Rightarrow> bytes \<Rightarrow> nat \<Rightarrow> bytes \<times> nat" where
  "fad_loop b before pc nFound =
     (case erase_at b pc nFound of
        (pc, nFound) \<Rightarrow>
          (case GetOp2 pc of
             (ok, opcode, vch, pc') \<Rightarrow>
               if ok then fad_loop b (before @ take (length pc - length pc') pc) pc' nFound
               else (before @ pc, nFound)))"
  by pat_completeness auto
termination
  by (relation "measure (\<lambda>(b, before, pc, n). length pc)")
    (auto dest!: fad_measure)

declare fad_loop.simps [simp del]

definition FindAndDelete :: "bytes \<Rightarrow> bytes \<Rightarrow> bytes \<times> nat" where
  "FindAndDelete script b = (if b = [] then (script, 0) else fad_loop b [] script 0)"

text \<open>
  \<open>script_ops\<close> is the loop \<open>while (pc < end() && GetOp(pc, opcode, vch))\<close> shared by the
  scans below: the operations read, and whether the end was reached.
\<close>

function script_ops :: "bytes \<Rightarrow> (byte \<times> bytes) list \<times> bool" where
  "script_ops pc =
     (if pc = [] then ([], True)
      else case GetOp2 pc of
        (ok, opcode, vch, pc') \<Rightarrow>
          if ok then (case script_ops pc' of (ops, complete) \<Rightarrow> ((opcode, vch) # ops, complete))
          else ([], False))"
  by pat_completeness auto
termination by (relation "measure length") (auto dest: GetOp2_length [OF sym])

declare script_ops.simps [simp del]

definition Find :: "bytes \<Rightarrow> byte \<Rightarrow> nat" where
  "Find script opcode = length (filter (\<lambda>(x, _). x = opcode) (fst (script_ops script)))"

text \<open>
  \<open>sigops_loop\<close> folds \<open>GetSigOpCount\<close> over the operations read; \<open>n += 20\<close> is
  for a multisig whose key count is not the operation before it. The counter is an \<open>unsigned int\<close>
  that stays below \<open>2 ^ 32\<close> for any script in memory.
\<close>

fun sigops_loop :: "bool \<Rightarrow> byte \<Rightarrow> (byte \<times> bytes) list \<Rightarrow> nat \<Rightarrow> nat" where
  "sigops_loop fAccurate lastOpcode [] n = n"
| "sigops_loop fAccurate lastOpcode ((opcode, vch) # ops) n =
     sigops_loop fAccurate opcode ops
       (if opcode = OP_CHECKSIG \<or> opcode = OP_CHECKSIGVERIFY then n + 1
        else if opcode = OP_CHECKMULTISIG \<or> opcode = OP_CHECKMULTISIGVERIFY then
          (if fAccurate \<and> OP_1 \<le> lastOpcode \<and> lastOpcode \<le> OP_16
           then n + (unat lastOpcode - (unat OP_1 - 1)) else n + 20)
        else n)"

definition GetSigOpCount :: "bytes \<Rightarrow> bool \<Rightarrow> nat" where
  "GetSigOpCount script fAccurate =
     sigops_loop fAccurate OP_INVALIDOPCODE (fst (script_ops script)) 0"

definition IsPayToScriptHash :: "bytes \<Rightarrow> bool" where
  "IsPayToScriptHash s \<longleftrightarrow>
     length s = 23 \<and> s ! 0 = OP_HASH160 \<and> s ! 1 = 0x14 \<and> s ! 22 = OP_EQUAL"

text \<open>
  The sigops of a spent output: for pay-to-script-hash those of the last item the \<open>scriptSig\<close>
  pushes, or none when it is not only pushes.
\<close>

definition GetSigOpCountP2SH :: "bytes \<Rightarrow> bytes \<Rightarrow> nat" where
  "GetSigOpCountP2SH script scriptSig =
     (if \<not> IsPayToScriptHash script then GetSigOpCount script True
      else case script_ops scriptSig of
        (ops, complete) \<Rightarrow>
          if \<not> complete \<or> (\<exists>(opcode, vch) \<in> set ops. OP_16 < opcode) then 0
          else GetSigOpCount (if ops = [] then [] else snd (last ops)) True)"

text \<open>
  \<open>IsNormalPaymentScript\<close> ignores the flag \<open>GetOp\<close> returns, so a failed read continues with
  \<open>OP_INVALIDOPCODE\<close> from where the read stopped.
\<close>

function normal_payment_loop :: "nat \<Rightarrow> bytes \<Rightarrow> bool" where
  "normal_payment_loop i pc =
     (if pc = [] then True
      else case GetOp2 pc of
        (ok, opcode, vch, pc') \<Rightarrow>
          if i = 0 \<and> opcode \<noteq> OP_DUP then False
          else if i = 1 \<and> opcode \<noteq> OP_HASH160 then False
          else if i = 3 \<and> opcode \<noteq> OP_EQUALVERIFY then False
          else if i = 4 \<and> opcode \<noteq> OP_CHECKSIG then False
          else if i = 5 then False
          else normal_payment_loop (i + 1) pc')"
  by pat_completeness auto
termination by (relation "measure (\<lambda>(i, pc). length pc)") (auto dest: GetOp2_length [OF sym])

declare normal_payment_loop.simps [simp del]

definition IsNormalPaymentScript :: "bytes \<Rightarrow> bool" where
  "IsNormalPaymentScript s = (if length s \<noteq> 25 then False else normal_payment_loop 0 s)"

definition StartsWithOpcode :: "bytes \<Rightarrow> byte \<Rightarrow> bool" where
  "StartsWithOpcode s opcode \<longleftrightarrow> s \<noteq> [] \<and> s ! 0 = opcode"

definition IsZerocoinMint :: "bytes \<Rightarrow> bool" where
  "IsZerocoinMint s = StartsWithOpcode s OP_ZEROCOINMINT"

definition IsZerocoinSpend :: "bytes \<Rightarrow> bool" where
  "IsZerocoinSpend s = StartsWithOpcode s OP_ZEROCOINSPEND"

definition IsZerocoinPublicSpend :: "bytes \<Rightarrow> bool" where
  "IsZerocoinPublicSpend s = StartsWithOpcode s OP_ZEROCOINPUBLICSPEND"

definition IsPushOnly :: "bytes \<Rightarrow> bool" where
  "IsPushOnly s =
     (case script_ops s of
        (ops, complete) \<Rightarrow> complete \<and> (\<forall>(opcode, vch) \<in> set ops. \<not> OP_16 < opcode))"

definition IsUnspendable :: "bytes \<Rightarrow> bool" where
  "IsUnspendable s \<longleftrightarrow> 0 < length s \<and> hd s = OP_RETURN"

end
