(* ===== verification/ScriptNum.thy ===== *)
theory ScriptNum
  imports Script
begin

text \<open>
  Script numbers and pushes of \<open>src/src/script/script.h\<close>: \<open>CScriptNum\<close> decodes what it
  encodes, the minimal encoding is unique, and \<open>GetOp\<close> reads back what \<open>operator<<\<close> pushed.
\<close>

section \<open>Little-endian numbers\<close>

lemma le_val_append: "le_val (xs @ ys) = le_val xs + 256 ^ length xs * le_val ys"
  by (induction xs) (simp_all add: algebra_simps)

lemma le_val_bound: "le_val bs < 256 ^ length bs"
proof (induction bs)
  case (Cons b bs)
  have "unat b + 256 * le_val bs < 256 * (le_val bs + 1)" using unat_less_8 [of b] by simp
  also have "\<dots> \<le> 256 * 256 ^ length bs" using Cons by simp
  finally show ?case by simp
qed simp

lemma length_le_bytes [simp]: "length (le_bytes k n) = k"
  by (induction k n rule: le_bytes.induct) simp_all

lemma unat_of_nat_8: "unat (of_nat n :: byte) = n mod 256"
  by (simp add: unsigned_of_nat take_bit_eq_mod)

lemma le_val_le_bytes: "le_val (le_bytes k n) = n mod 256 ^ k"
proof (induction k n rule: le_bytes.induct)
  case (2 k n)
  then show ?case using mod_mult2_eq [of n 256 "256 ^ k"] by (simp add: unat_of_nat_8)
qed simp

lemma le_val_abs_bytes: "le_val (abs_bytes n) = n"
proof (induction n rule: abs_bytes.induct)
  case (1 n)
  then show ?case by (subst abs_bytes.simps) (simp add: unat_of_nat_8 del: of_nat_mod)
qed

lemma abs_bytes_nonempty [simp]: "abs_bytes n = [] \<longleftrightarrow> n = 0"
  by (subst abs_bytes.simps) simp

lemma abs_bytes_last: "n \<noteq> 0 \<Longrightarrow> last (abs_bytes n) \<noteq> 0"
proof (induction n rule: abs_bytes.induct)
  case (1 n)
  show ?case
  proof (cases "n div 256 = 0")
    case True
    then have "n < 256" by (simp add: div_eq_0_iff)
    then have "unat (of_nat (n mod 256) :: byte) \<noteq> 0" using 1(2) by (simp add: unat_of_nat_8 del: of_nat_mod)
    then have "(of_nat (n mod 256) :: byte) \<noteq> 0" by (metis unsigned_0)
    then show ?thesis using True 1(2) by (subst abs_bytes.simps) (simp del: of_nat_mod)
  next
    case False
    then show ?thesis using 1 by (subst abs_bytes.simps) simp
  qed
qed

text \<open>The shortest little-endian form of a number is the only one whose last byte is not zero.\<close>

lemma abs_bytes_unique: "bs = [] \<or> last bs \<noteq> 0 \<Longrightarrow> abs_bytes (le_val bs) = bs"
proof (induction bs)
  case (Cons b bs)
  have IH: "abs_bytes (le_val bs) = bs" using Cons by (cases "bs = []") auto
  have "le_val (b # bs) \<noteq> 0"
  proof
    assume "le_val (b # bs) = 0"
    then have "unat b = 0" "le_val bs = 0" by simp_all
    then have "bs = []" "b = 0" using IH by (simp_all add: unat_eq_zero abs_bytes.simps)
    then show False using Cons.prems by simp
  qed
  moreover have "le_val (b # bs) div 256 = le_val bs" "le_val (b # bs) mod 256 = unat b"
    using unat_less_8 [of b] by simp_all
  ultimately show ?case using IH by (subst abs_bytes.simps) (simp del: le_val.simps of_nat_mod)
qed (simp add: abs_bytes.simps)

section \<open>The sign byte\<close>

lemma sign_halves:
  "unat (t :: byte) < 128 \<and> unat t div 128 = 0 \<and> unat t mod 128 = unat t \<or>
   128 \<le> unat t \<and> unat t div 128 = 1 \<and> unat t mod 128 = unat t - 128"
proof (cases "unat t < 128")
  case False
  moreover have "unat t - 128 < 128" using unat_less_8 [of t] by linarith
  ultimately show ?thesis by (simp add: le_div_geq le_mod_geq)
qed simp

lemma byte_sign: "(t :: byte) AND 0x80 \<noteq> 0 \<longleftrightarrow> 128 \<le> unat t"
proof -
  have "(0x80 :: byte) = 2 ^ 7" by simp
  then have "t AND 0x80 \<noteq> 0 \<longleftrightarrow> bit t 7"
    by (simp only: and_exp_eq_0_iff_not_bit not_not)
  also have "\<dots> \<longleftrightarrow> odd (unat t div 128)" by (simp add: bit_unat)
  also have "\<dots> \<longleftrightarrow> 128 \<le> unat t"
    using sign_halves [of t] by auto
  finally show ?thesis .
qed

lemma byte_magnitude: "unat ((t :: byte) AND 0x7f) = unat t mod 128"
  using unat_and_mask [of t 7] by (simp add: mask_eq_exp_minus_1)

lemma byte_set_sign: "unat (t :: byte) < 128 \<Longrightarrow> unat (t OR 0x80) = unat t + 128"
  by (subst unat_or_disjoint [where n = 7]) simp_all

lemma byte_split_sign:
  assumes "128 \<le> unat (t :: byte)"
  shows "(t AND 0x7f) OR 0x80 = t"
proof -
  have m: "unat t mod 128 = unat t - 128" using assms sign_halves [of t] by linarith
  have "unat ((t AND 0x7f) OR 0x80) = unat (t AND 0x7f) + 128"
    by (rule byte_set_sign) (subst byte_magnitude, simp)
  then have "unat ((t AND 0x7f) OR 0x80) = unat t" using assms unfolding byte_magnitude m by simp
  then show ?thesis by (simp only: word_unat_eq_iff)
qed

lemma byte_zero_magnitude: "(t :: byte) AND 0x7f = 0 \<longleftrightarrow> t = 0 \<or> t = 0x80"
proof -
  have "t AND 0x7f = 0 \<longleftrightarrow> unat t mod 128 = 0" by (metis byte_magnitude unsigned_eq_0_iff)
  also have "\<dots> \<longleftrightarrow> unat t = 0 \<or> unat t = 128"
    using sign_halves [of t] by auto
  also have "\<dots> \<longleftrightarrow> t = 0 \<or> t = 0x80"
    by (simp only: word_unat_eq_iff) simp
  finally show ?thesis .
qed

section \<open>Decoding and encoding\<close>

lemma unat_ucast_8_64 [simp]: "unat (ucast (b :: byte) :: uint64) = unat b"
  by (simp add: unsigned_ucast_eq take_bit_nat_eq_self_iff less_trans [OF unat_less_8])

lemma vch_or_val: "i + length bs \<le> 8 \<Longrightarrow> unat (vch_or i bs) = 256 ^ i * le_val bs"
proof (induction bs arbitrary: i)
  case (Cons b bs)
  have p: "unat (push_bit (8 * i) (ucast b :: uint64)) = unat b * 256 ^ i"
  proof (subst unat_push_bit_small)
    have "unat b * 2 ^ (8 * i) < 2 ^ 8 * 2 ^ (8 * i)" using unat_less_8 [of b] by simp
    also have "\<dots> = 2 ^ (8 + 8 * i)" by (simp add: power_add)
    also have "\<dots> \<le> 2 ^ 64" using Cons.prems by (intro power_increasing) simp_all
    finally show "unat (ucast b :: uint64) * 2 ^ (8 * i) < 2 ^ LENGTH(64)" by simp
  qed (simp add: power_mult)
  have IH: "unat (vch_or (i + 1) bs) = 256 ^ (i + 1) * le_val bs" using Cons by simp
  have "unat (push_bit (8 * i) (ucast b :: uint64)) < 2 ^ (8 * (i + 1))"
    using unat_less_8 [of b] unfolding p by (simp add: power_mult power_add)
  moreover have "2 ^ (8 * (i + 1)) dvd unat (vch_or (i + 1) bs)"
    unfolding IH by (simp add: power_mult power_add)
  ultimately have "unat (push_bit (8 * i) (ucast b) OR vch_or (i + 1) bs :: uint64) =
      unat (push_bit (8 * i) (ucast b) :: uint64) + unat (vch_or (i + 1) bs)"
    by (rule unat_or_disjoint)
  then show ?case unfolding p IH vch_or.simps by (simp add: algebra_simps)
qed simp

lemma sint_unat_small:
  assumes "unat (w :: uint64) < 2 ^ 63"
  shows "sint w = int (unat w)"
proof -
  have "int (unat w) < 2 ^ 63" using assms by (metis of_nat_less_iff of_nat_numeral of_nat_power)
  then have "uint w < 2 ^ 63" by simp
  moreover have "- (2 ^ 63) \<le> uint w" by (rule order_trans [OF _ uint_ge_0]) simp
  ultimately have "signed_take_bit 63 (uint w) = uint w" by (intro signed_take_bit_int_eq_self) simp_all
  then show ?thesis by (simp add: sint_uint)
qed

lemma clear_top_bit:
  assumes "unat (y :: uint64) < 2 ^ j" "unat x = unat y + 2 ^ j" "j < 64"
  shows "x AND NOT (push_bit j 1) = y"
proof -
  have "(2::nat) ^ j < 2 ^ 64" using assms(3) by (intro power_strict_increasing) simp_all
  then have p: "unat (push_bit j 1 :: uint64) = 2 ^ j" by (subst unat_push_bit_small) simp_all
  then have "unat (y OR push_bit j 1) = unat x"
    using assms(1,2) by (subst unat_or_disjoint [where n = j]) simp_all
  then have x: "x = y OR push_bit j 1" by (simp add: word_unat_eq_iff)
  have n: "\<not> bit y j" using assms(1) by (simp add: bit_unat)
  show ?thesis
    by (rule bit_word_eqI) (use n in \<open>auto simp: x bit_and_iff bit_or_iff bit_not_iff bit_push_bit_iff bit_exp_iff\<close>)
qed

lemma set_vch_snoc:
  assumes "length bs < 8"
  shows "set_vch (bs @ [t]) =
    (if 128 \<le> unat t then - int (le_val bs + 256 ^ length bs * (unat t - 128))
     else int (le_val bs + 256 ^ length bs * unat t))"
proof -
  let ?n = "length bs"
  have x: "unat (vch_or 0 (bs @ [t])) = le_val bs + 256 ^ ?n * unat t"
    using vch_or_val [of 0 "bs @ [t]"] assms by (simp add: le_val_append)
  have small: "le_val bs + 256 ^ ?n * u < 2 ^ (8 * ?n + 7)" if "u < 128" for u
  proof -
    have "le_val bs + 256 ^ ?n * u < 256 ^ ?n * (u + 1)" using le_val_bound [of bs] by simp
    also have "\<dots> \<le> 256 ^ ?n * 128" using that by (intro mult_le_mono) simp_all
    also have "\<dots> = 2 ^ (8 * ?n + 7)" by (simp add: power_add power_mult)
    finally show ?thesis .
  qed
  have le: "(2::nat) ^ (8 * ?n + 7) \<le> 2 ^ 63" using assms by (intro power_increasing) simp_all
  show ?thesis
  proof (cases "128 \<le> unat t")
    case False
    then have "unat (vch_or 0 (bs @ [t])) < 2 ^ 63" using small [of "unat t"] le x by simp
    then show ?thesis using False byte_sign [of t] x by (simp add: set_vch_def Let_def sint_unat_small)
  next
    case True
    define y where "y = vch_or 0 (bs @ [t AND 0x7f])"
    have y: "unat y = le_val bs + 256 ^ ?n * (unat t - 128)"
      using vch_or_val [of 0 "bs @ [t AND 0x7f]"] assms True sign_halves [of t]
      by (simp add: y_def le_val_append byte_magnitude)
    have "unat t - 128 < 128" using unat_less_8 [of t] by linarith
    then have ylt: "unat y < 2 ^ (8 * ?n + 7)" unfolding y by (rule small)
    have "256 ^ ?n * unat t = 256 ^ ?n * (unat t - 128) + 256 ^ ?n * 128"
      using True by (simp add: add_mult_distrib2 [symmetric])
    then have "unat (vch_or 0 (bs @ [t])) = unat y + 2 ^ (8 * ?n + 7)"
      unfolding x y by (simp add: power_add power_mult)
    from clear_top_bit [OF ylt this] assms
    have "vch_or 0 (bs @ [t]) AND NOT (push_bit (8 * ?n + 7) 1) = y" by simp
    moreover have "push_bit (8 * ?n) 0x80 = (push_bit (8 * ?n + 7) 1 :: uint64)"
      by (simp add: push_bit_eq_mult power_add)
    moreover have "sint y = int (unat y)" using ylt le by (intro sint_unat_small) simp
    ultimately show ?thesis using True byte_sign [of t] y by (simp add: set_vch_def Let_def)
  qed
qed

lemma serialize_forms:
  assumes "v \<noteq> 0"
  obtains bs t where "abs_bytes (nat \<bar>v\<bar>) = bs @ [t]" "t \<noteq> 0"
    and "serialize v = (if 128 \<le> unat t then bs @ [t, if v < 0 then 0x80 else 0]
                        else if v < 0 then bs @ [t OR 0x80] else bs @ [t])"
proof -
  have ne: "abs_bytes (nat \<bar>v\<bar>) \<noteq> []" using assms by simp
  obtain bs t where bt: "abs_bytes (nat \<bar>v\<bar>) = bs @ [t]" using ne by (metis append_butlast_last_id)
  have "t \<noteq> 0" using abs_bytes_last [of "nat \<bar>v\<bar>"] assms bt by simp
  moreover have "serialize v = (if 128 \<le> unat t then bs @ [t, if v < 0 then 0x80 else 0]
                        else if v < 0 then bs @ [t OR 0x80] else bs @ [t])"
    using assms bt byte_sign [of t] by (simp add: serialize_def Let_def)
  ultimately show thesis using bt that by blast
qed

lemma CScriptNum_serialize:
  assumes len: "length (serialize v) \<le> n" "n \<le> 8"
  shows "CScriptNum (serialize v) True n = Inr v"
proof (cases "v = 0")
  case True
  then show ?thesis by (simp add: serialize_def CScriptNum_def set_vch_def)
next
  case False
  obtain bs t where bt: "abs_bytes (nat \<bar>v\<bar>) = bs @ [t]" "t \<noteq> 0"
    and s: "serialize v = (if 128 \<le> unat t then bs @ [t, if v < 0 then 0x80 else 0]
                        else if v < 0 then bs @ [t OR 0x80] else bs @ [t])"
    using serialize_forms [OF False] .
  have val: "le_val bs + 256 ^ length bs * unat t = nat \<bar>v\<bar>"
    using le_val_abs_bytes [of "nat \<bar>v\<bar>"] by (simp add: bt le_val_append)
  have v: "v = (if v < 0 then - int (nat \<bar>v\<bar>) else int (nat \<bar>v\<bar>))" by simp
  show ?thesis
  proof (cases "128 \<le> unat t")
    case True
    have l: "length (bs @ [t]) < 8" using len s True by simp
    have "set_vch ((bs @ [t]) @ [if v < 0 then 0x80 else 0]) = v"
      unfolding set_vch_snoc [OF l] using val v by (simp add: le_val_append)
    then show ?thesis
      using len s True byte_sign [of t] by (simp add: CScriptNum_def nth_append)
  next
    case t: False
    have l: "length bs < 8" using len s t by (auto split: if_splits)
    show ?thesis
    proof (cases "v < 0")
      case True
      have "unat (t OR 0x80) = unat t + 128" using t by (intro byte_set_sign) simp
      then have "set_vch (bs @ [t OR 0x80]) = v"
        unfolding set_vch_snoc [OF l] using val v True by simp
      moreover have "(t OR 0x80) AND 0x7f \<noteq> 0"
      proof -
        have "unat ((t OR 0x80) AND 0x7f) = unat t"
          using t \<open>unat (t OR 0x80) = unat t + 128\<close> by (simp add: byte_magnitude)
        then show ?thesis using bt(2) by (metis unsigned_eq_0_iff)
      qed
      ultimately show ?thesis using len s t True by (simp add: CScriptNum_def)
    next
      case False
      have "set_vch (bs @ [t]) = v" unfolding set_vch_snoc [OF l] using val v t False by simp
      moreover have "t AND 0x7f \<noteq> 0" using bt(2) t byte_zero_magnitude [of t] by auto
      ultimately show ?thesis using len s t False by (simp add: CScriptNum_def)
    qed
  qed
qed

lemma serialize_CScriptNum:
  assumes r: "CScriptNum vch True n = Inr v" and n: "n \<le> 8"
  shows "serialize v = vch"
proof (cases "vch = []")
  case True
  then show ?thesis using r by (simp add: CScriptNum_def set_vch_def serialize_def)
next
  case False
  then obtain bs t where vch: "vch = bs @ [t]" by (metis append_butlast_last_id)
  have l: "length bs < 8" and v: "v = set_vch vch"
    and m: "t AND 0x7f = 0 \<Longrightarrow> bs \<noteq> [] \<and> last bs AND 0x80 \<noteq> 0"
    using r n by (auto simp: CScriptNum_def vch nth_append last_conv_nth split: if_splits)
  show ?thesis
  proof (cases "t AND 0x7f = 0")
    case True
    from m [OF True] have bs: "bs \<noteq> []" "last bs AND 0x80 \<noteq> 0" by simp_all
    then have top: "last bs \<noteq> 0" by auto
    have ab: "abs_bytes (le_val bs) = bs" using top by (intro abs_bytes_unique) simp
    have nz: "le_val bs \<noteq> 0" using ab bs by (metis abs_bytes_nonempty)
    have "v = (if t = 0x80 then - int (le_val bs) else int (le_val bs))" "t = 0 \<or> t = 0x80"
      using True byte_zero_magnitude [of t] unfolding v vch set_vch_snoc [OF l] by auto
    then show ?thesis using ab nz bs by (auto simp: serialize_def Let_def vch)
  next
    case mag: False
    let ?t = "t AND 0x7f"
    have ab: "abs_bytes (le_val (bs @ [?t])) = bs @ [?t]" using mag by (intro abs_bytes_unique) simp
    have ut: "unat ?t < 128" by (simp add: byte_magnitude)
    have nz: "le_val (bs @ [?t]) \<noteq> 0" using ab by (metis abs_bytes_nonempty append_is_Nil_conv not_Cons_self2)
    have val: "le_val (bs @ [?t]) = le_val bs + 256 ^ length bs * (unat t mod 128)"
      by (simp add: le_val_append byte_magnitude)
    show ?thesis
    proof (cases "128 \<le> unat t")
      case True
      then have "v = - int (le_val (bs @ [?t]))"
        unfolding v vch set_vch_snoc [OF l] val using sign_halves [of t] by auto
      then show ?thesis
        using ab nz ut byte_sign [of ?t] byte_split_sign [OF True] by (simp add: serialize_def Let_def vch)
    next
      case False
      then have same: "?t = t" using sign_halves [of t] by (simp add: word_unat_eq_iff byte_magnitude)
      have "v = int (le_val (bs @ [?t]))"
        unfolding v vch set_vch_snoc [OF l] val using sign_halves [of t] False by auto
      then show ?thesis
        using ab nz ut byte_sign [of ?t] same by (simp add: serialize_def Let_def vch)
    qed
  qed
qed

section \<open>Reading back a push\<close>

lemma pushed_size_append: "pushed_size opcode p = Some (n, r) \<Longrightarrow> pushed_size opcode (p @ q) = Some (n, r @ q)"
  by (auto simp: pushed_size_def not_less hd_append tl_append split: if_splits list.splits)

lemma GetOp2_append:
  assumes "GetOp2 p = (True, opcode, vch, r)"
  shows "GetOp2 (p @ q) = (True, opcode, vch, r @ q)"
proof -
  obtain pc where p: "p = opcode # pc" using assms by (auto simp: GetOp2_def split: list.splits if_splits option.splits)
  show ?thesis
  proof (cases "opcode \<le> OP_PUSHDATA4")
    case True
    then obtain n pc' where s: "pushed_size opcode pc = Some (n, pc')" "\<not> length pc' < n"
      and r: "vch = take n pc'" "r = drop n pc'"
      using assms p by (auto simp: GetOp2_def split: if_splits option.splits)
    then show ?thesis using True pushed_size_append [OF s(1), of q] by (simp add: p GetOp2_def not_less)
  next
    case False
    then show ?thesis using assms by (simp add: p GetOp2_def)
  qed
qed

lemma GetOp2_push_data:
  assumes "length b < 2 ^ 32"
  shows "\<exists>opcode \<le> OP_PUSHDATA4. GetOp2 (push_data [] b) = (True, opcode, b, [])"
proof -
  let ?n = "length b"
  have small: "unat (of_nat k :: byte) = k" if "k < 256" for k using that by (simp add: unat_of_nat_8)
  consider (direct) "?n < 76" | (one) "76 \<le> ?n" "?n \<le> 255" | (two) "255 < ?n" "?n \<le> 65535" | (four) "65535 < ?n"
    by linarith
  then show ?thesis
  proof cases
    case direct
    then have "(of_nat ?n :: byte) < OP_PUSHDATA1" using small [of ?n] by (simp add: word_less_nat_alt)
    moreover from this have "(of_nat ?n :: byte) \<le> OP_PUSHDATA4" by (rule order_trans [OF less_imp_le]) simp
    ultimately show ?thesis using direct small [of ?n]
      by (auto simp: push_data_def GetOp2_def pushed_size_def)
  next
    case one
    then show ?thesis using small [of ?n] by (auto simp: push_data_def GetOp2_def pushed_size_def)
  next
    case two
    have "le_val (le_bytes 2 ?n) = ?n" using two by (simp add: le_val_le_bytes)
    then show ?thesis using two by (auto simp: push_data_def GetOp2_def pushed_size_def)
  next
    case four
    have "le_val (le_bytes 4 ?n) = ?n" using assms by (simp add: le_val_le_bytes)
    then show ?thesis using four by (auto simp: push_data_def GetOp2_def pushed_size_def)
  qed
qed

lemma push_data_append: "push_data s b = s @ push_data [] b"
  by (simp add: push_data_def)

lemma script_ops_push:
  assumes "length b < 2 ^ 32"
  shows "\<exists>opcode \<le> OP_PUSHDATA4. script_ops (push_data [] b @ rest) =
    (case script_ops rest of (ops, complete) \<Rightarrow> ((opcode, b) # ops, complete))"
proof -
  obtain opcode where o': "opcode \<le> OP_PUSHDATA4" "GetOp2 (push_data [] b) = (True, opcode, b, [])"
    using GetOp2_push_data [OF assms] by blast
  have "GetOp2 (push_data [] b @ rest) = (True, opcode, b, rest)" using GetOp2_append [OF o'(2)] by simp
  moreover have "push_data [] b \<noteq> []" by (simp add: push_data_def)
  ultimately show ?thesis using o'(1) by (subst script_ops.simps) auto
qed

section \<open>Deleting a pushed element\<close>

text \<open>The script cut into the bytes of its operations, and the tail that does not parse.\<close>

function op_chunks :: "bytes \<Rightarrow> bytes list \<times> bytes" where
  "op_chunks pc =
     (case GetOp2 pc of
        (ok, opcode, vch, pc') \<Rightarrow>
          if ok then (case op_chunks pc' of (cs, tail) \<Rightarrow> (take (length pc - length pc') pc # cs, tail))
          else ([], pc))"
  by pat_completeness auto
termination
  by (relation "measure length") (auto dest: GetOp2_length [OF sym] GetOp2_ok_nonempty [OF sym])

declare op_chunks.simps [simp del]

lemma GetOp2_suffix: "GetOp2 pc = (ok, opcode, vch, pc') \<Longrightarrow> \<exists>c. pc = c @ pc'"
proof -
  have ps: "pushed_size x p = Some (n, r) \<Longrightarrow> \<exists>c. p = c @ r" for x p n r
    by (cases p) (auto simp: pushed_size_def split: if_splits intro: exI [of _ "take 2 p"] exI [of _ "take 4 p"]
        append_take_drop_id [symmetric])
  show "GetOp2 pc = (ok, opcode, vch, pc') \<Longrightarrow> \<exists>c. pc = c @ pc'"
    by (auto simp: GetOp2_def split: list.splits if_splits option.splits dest!: ps)
       (metis append_assoc append_take_drop_id Cons_eq_appendI)+
qed

lemma GetOp2_take:
  "GetOp2 pc = (ok, opcode, vch, pc') \<Longrightarrow> take (length pc - length pc') pc @ pc' = pc"
  using GetOp2_suffix by fastforce

lemma op_chunks_concat: "op_chunks pc = (cs, tail) \<Longrightarrow> concat cs @ tail = pc"
proof (induction pc arbitrary: cs tail rule: op_chunks.induct)
  case (1 pc)
  obtain ok opcode vch pc' where g: "GetOp2 pc = (ok, opcode, vch, pc')" by (cases "GetOp2 pc")
  show ?case
  proof (cases ok)
    case True
    obtain cs' tail' where r: "op_chunks pc' = (cs', tail')" by fastforce
    have "concat cs' @ tail' = pc'" by (rule 1(1) [OF g [symmetric] refl refl True r])
    moreover have "cs = take (length pc - length pc') pc # cs'" "tail = tail'"
      using 1(2) True g r by (simp_all add: op_chunks.simps [of pc])
    ultimately show ?thesis using GetOp2_take [OF g] by simp
  next
    case False
    then show ?thesis using 1(2) g by (simp add: op_chunks.simps [of pc])
  qed
qed

text \<open>A script that starts with the one-operation script \<open>b\<close> has \<open>b\<close> as its first chunk.\<close>

lemma first_chunk:
  assumes b: "GetOp2 b = (True, opb, vb, [])" and g: "GetOp2 pc = (ok, opcode, vch, pc')"
  shows "take (length b) pc = b \<longleftrightarrow> ok \<and> take (length pc - length pc') pc = b"
proof
  assume "take (length b) pc = b"
  then have pc: "pc = b @ drop (length b) pc" by (metis append_take_drop_id)
  then have "GetOp2 pc = (True, opb, vb, drop (length b) pc)" using GetOp2_append [OF b] by (metis append_Nil)
  then show "ok \<and> take (length pc - length pc') pc = b" using g pc by (metis Pair_inject append_eq_conv_conj
      GetOp2_take append_same_eq)
next
  assume a: "ok \<and> take (length pc - length pc') pc = b"
  then have "b @ pc' = pc" using GetOp2_take [OF g] by simp
  then show "take (length b) pc = b" by auto
qed

lemma erase_at_step:
  "b \<noteq> [] \<Longrightarrow> erase_at b pc n =
     (if take (length b) pc = b then erase_at b (drop (length b) pc) (n + 1) else (pc, n))"
  by (subst erase_at.simps) (auto dest: arg_cong [where f = length])

lemma fad_loop_chunks:
  assumes b: "GetOp2 b = (True, opb, vb, [])"
  shows "op_chunks pc = (cs, tail) \<Longrightarrow>
    fad_loop b before pc n = (before @ concat (filter (\<lambda>c. c \<noteq> b) cs) @ tail, n + length (filter (\<lambda>c. c = b) cs))"
proof (induction "length pc" arbitrary: pc cs before n rule: less_induct)
  case less
  have bn: "b \<noteq> []" using GetOp2_ok_nonempty [OF b] .
  obtain ok opcode vch pc' where g: "GetOp2 pc = (ok, opcode, vch, pc')" by (cases "GetOp2 pc")
  have len: "length pc' < length pc" if ok using GetOp2_length [OF g] GetOp2_ok_nonempty [of pc opcode vch pc'] g that by simp
  obtain cs' tail' where r: "op_chunks pc' = (cs', tail')" by fastforce
  show ?case
  proof (cases ok)
    case False
    then have "erase_at b pc n = (pc, n)" using first_chunk [OF b g] erase_at_step [OF bn] by simp
    then have "fad_loop b before pc n = (before @ pc, n)" using g False by (subst fad_loop.simps) simp
    moreover have "cs = []" "tail = pc" using less.prems g False by (simp_all add: op_chunks.simps [of pc])
    ultimately show ?thesis by simp
  next
    case True
    have cs: "cs = take (length pc - length pc') pc # cs'" "tail = tail'"
      using less.prems True g r by (simp_all add: op_chunks.simps [of pc])
    show ?thesis
    proof (cases "take (length pc - length pc') pc = b")
      case eq: True
      then have "take (length b) pc = b" using first_chunk [OF b g] True by simp
      moreover have "drop (length b) pc = pc'" using GetOp2_take [OF g] eq by (metis append_eq_conv_conj)
      ultimately have "erase_at b pc n = erase_at b pc' (n + 1)" using erase_at_step [OF bn, of pc n] by simp
      then have "fad_loop b before pc n = fad_loop b before pc' (n + 1)"
        by (simp add: fad_loop.simps [of b before pc] fad_loop.simps [of b before pc'])
      then show ?thesis using less.hyps [OF len [OF True], of cs' before "n + 1"] r cs eq by simp
    next
      case ne: False
      then have "erase_at b pc n = (pc, n)" using first_chunk [OF b g] erase_at_step [OF bn] by simp
      then have "fad_loop b before pc n = fad_loop b (before @ take (length pc - length pc') pc) pc' n"
        using g True by (simp add: fad_loop.simps [of b before pc])
      then show ?thesis using less.hyps [OF len [OF True], of cs'] r cs ne by simp
    qed
  qed
qed

section \<open>Counting signature operations\<close>

definition op_sigops :: "bool \<Rightarrow> byte \<Rightarrow> byte \<Rightarrow> nat" where
  "op_sigops acc lst x =
     (if x = OP_CHECKSIG \<or> x = OP_CHECKSIGVERIFY then 1
      else if x = OP_CHECKMULTISIG \<or> x = OP_CHECKMULTISIGVERIFY then
        (if acc \<and> OP_1 \<le> lst \<and> lst \<le> OP_16 then unat lst - (unat OP_1 - 1) else 20)
      else 0)"

lemma sigops_loop_step:
  "sigops_loop acc lst ((x, vch) # ops) n = sigops_loop acc x ops (n + op_sigops acc lst x)"
  by (simp add: op_sigops_def)

lemma sigops_loop_add: "sigops_loop acc lst ops n = n + sigops_loop acc lst ops 0"
proof (induction ops arbitrary: lst n)
  case (Cons y ops)
  obtain x vch where y: "y = (x, vch)" by (cases y)
  show ?case
    unfolding y sigops_loop_step
    using Cons [of x "n + op_sigops acc lst x"] Cons [of x "0 + op_sigops acc lst x"] by linarith
qed simp

lemma byte_OP_N: "OP_1 \<le> x \<Longrightarrow> x \<le> OP_16 \<Longrightarrow> unat x - (unat OP_1 - 1) \<le> 16"
  by (simp add: word_le_nat_alt)

lemma sigops_loop_le: "sigops_loop acc lst ops 0 \<le> 20 * length ops"
proof (induction ops arbitrary: lst)
  case (Cons y ops)
  obtain x vch where y: "y = (x, vch)" by (cases y)
  have "op_sigops acc lst x \<le> 20" 
    unfolding op_sigops_def using order_trans [OF byte_OP_N [of lst], of 20] by simp
  moreover have "sigops_loop acc lst (y # ops) 0 = op_sigops acc lst x + sigops_loop acc x ops 0"
    unfolding y sigops_loop_step using sigops_loop_add [of acc x ops "0 + op_sigops acc lst x"] by linarith
  ultimately show ?case using Cons [of x] by simp
qed simp

lemma script_ops_length: "length (fst (script_ops s)) \<le> length s"
proof (induction s rule: script_ops.induct)
  case (1 pc)
  obtain ok opcode vch pc' where g: "GetOp2 pc = (ok, opcode, vch, pc')" by (cases "GetOp2 pc")
  show ?case
  proof (cases "pc = [] \<or> \<not> ok")
    case False
    then have "length (fst (script_ops pc')) \<le> length pc'" using 1 [OF _ g [symmetric] refl refl] by simp
    moreover have "length pc' < length pc" using GetOp2_length [OF g] False by simp
    moreover have "length (fst (script_ops pc)) = Suc (length (fst (script_ops pc')))"
      using False g by (subst script_ops.simps) (simp split: prod.splits)
    ultimately show ?thesis by simp
  qed (use g in \<open>auto simp: script_ops.simps [of pc]\<close>)
qed

lemma sigops_push_only:
  "\<forall>(opcode, vch) \<in> set ops. \<not> OP_16 < opcode \<Longrightarrow> sigops_loop acc lst ops n = n"
proof (induction ops arbitrary: lst)
  case (Cons o' ops)
  obtain x vch where o': "o' = (x, vch)" by (cases o')
  have "\<not> OP_16 < x" using Cons.prems o' by simp
  then have "x \<noteq> OP_CHECKSIG" "x \<noteq> OP_CHECKSIGVERIFY" "x \<noteq> OP_CHECKMULTISIG" "x \<noteq> OP_CHECKMULTISIGVERIFY"
    by auto
  then show ?case using Cons by (simp add: o')
qed simp

section \<open>Properties\<close>

text \<open>A byte vector of at most \<open>n\<close> bytes (\<open>n \<le> 8\<close>) is accepted as a minimal script number
  with value \<open>v\<close> exactly when it is what \<open>serialize\<close> writes for \<open>v\<close>: encoding and decoding are
  inverse and the minimal encoding of every number is unique.\<close>

theorem script_number_roundtrip:
  assumes "n \<le> 8"
  shows "CScriptNum vch True n = Inr v \<longleftrightarrow> vch = serialize v \<and> length vch \<le> n"
proof
  assume r: "CScriptNum vch True n = Inr v"
  then have "length vch \<le> n" by (simp add: CScriptNum_def split: if_splits)
  with serialize_CScriptNum [OF r assms] show "vch = serialize v \<and> length vch \<le> n" by simp
next
  assume a: "vch = serialize v \<and> length vch \<le> n"
  then have "length (serialize v) \<le> n" by metis
  from CScriptNum_serialize [OF this assms] show "CScriptNum vch True n = Inr v" using a by metis
qed

theorem script_number_roundtrip_witness: "CScriptNum [0xff, 0x80] True 4 = Inr (-255)"
proof -
  have "abs_bytes 255 = [0xff]" by (simp add: abs_bytes.simps)
  then have "serialize (-255) = [0xff, 0x80]" by (simp add: serialize_def)
  then show ?thesis using script_number_roundtrip [of 4 "[0xff, 0x80]" "-255"] by simp
qed

text \<open>Whatever vector of less than \<open>2^32\<close> bytes is pushed with \<open>operator<<\<close>, in front of any
  rest of a script, \<open>GetOp\<close> reads back exactly these bytes with a push opcode and leaves the
  iterator at the rest.\<close>

theorem push_then_GetOp:
  assumes "length b < 2 ^ 32"
  shows "\<exists>opcode \<le> OP_PUSHDATA4. GetOp2 (push_data [] b @ rest) = (True, opcode, b, rest)"
proof -
  obtain opcode where "opcode \<le> OP_PUSHDATA4" "GetOp2 (push_data [] b) = (True, opcode, b, [])"
    using GetOp2_push_data [OF assms] by blast
  then show ?thesis using GetOp2_append by fastforce
qed

theorem push_then_GetOp_witness:
  "\<exists>opcode \<le> OP_PUSHDATA4. GetOp2 (push_data [] (replicate 300 7) @ [OP_DUP]) = (True, opcode, replicate 300 7, [OP_DUP])"
  using push_then_GetOp [of "replicate 300 7" "[OP_DUP]"] by simp

text \<open>C35: Deleting a script that is one operation (such as a pushed signature) removes exactly the
  operations whose bytes equal it and returns their number; everything else, the tail that does not
  parse included, stays in order.\<close>

theorem FindAndDelete_exact:
  assumes "GetOp2 b = (True, opb, vb, [])" "op_chunks script = (cs, tail)"
  shows "FindAndDelete script b = (concat (filter (\<lambda>c. c \<noteq> b) cs) @ tail, length (filter (\<lambda>c. c = b) cs)) \<and>
    concat cs @ tail = script"
proof
  have "b \<noteq> []" using GetOp2_ok_nonempty [OF assms(1)] .
  then show "FindAndDelete script b = (concat (filter (\<lambda>c. c \<noteq> b) cs) @ tail, length (filter (\<lambda>c. c = b) cs))"
    using fad_loop_chunks [OF assms, of "[]" 0] by (simp add: FindAndDelete_def)
  show "concat cs @ tail = script" by (rule op_chunks_concat [OF assms(2)])
qed

theorem FindAndDelete_exact_witness:
  "FindAndDelete [1, 9, OP_DUP, 2, 1, 9, 1, 9] [1, 9] = ([OP_DUP, 2, 1, 9], 2)"
proof -
  have "op_chunks [1, 9, OP_DUP, 2, 1, 9, 1, 9] = ([[1, 9], [OP_DUP], [2, 1, 9], [1, 9]], [])"
    by (simp add: op_chunks.simps GetOp2_def pushed_size_def)
  then show ?thesis
    using FindAndDelete_exact [of "[1, 9]" 1 "[9]" "[1, 9, OP_DUP, 2, 1, 9, 1, 9]"]
    by (simp add: GetOp2_def pushed_size_def)
qed

text \<open>A script has at most twenty signature operations per byte, a script of pushes only has
  none, and a pay-to-script-hash output spent by a \<open>scriptSig\<close> that is not only pushes counts
  none.\<close>

theorem sigop_count_bounds:
  "GetSigOpCount s acc \<le> 20 * length s \<and>
   (IsPushOnly s \<longrightarrow> GetSigOpCount s acc = 0) \<and>
   (IsPayToScriptHash s \<longrightarrow> \<not> IsPushOnly sig \<longrightarrow> GetSigOpCountP2SH s sig = 0)"
proof (intro conjI impI)
  have "GetSigOpCount s acc \<le> 20 * length (fst (script_ops s))"
    unfolding GetSigOpCount_def by (rule sigops_loop_le)
  also have "\<dots> \<le> 20 * length s" using script_ops_length [of s] by simp
  finally show "GetSigOpCount s acc \<le> 20 * length s" .
next
  assume "IsPushOnly s"
  then show "GetSigOpCount s acc = 0"
    unfolding GetSigOpCount_def by (intro sigops_push_only) (auto simp: IsPushOnly_def split: prod.splits)
next
  assume "IsPayToScriptHash s" "\<not> IsPushOnly sig"
  then show "GetSigOpCountP2SH s sig = 0"
    by (auto simp: GetSigOpCountP2SH_def IsPushOnly_def split: prod.splits)
qed

theorem sigop_count_bounds_witness: "GetSigOpCount [2, OP_CHECKSIG, OP_CHECKMULTISIG, OP_16] True = 0"
  using sigop_count_bounds [of "[2, OP_CHECKSIG, OP_CHECKMULTISIG, OP_16]" True "[]"]
  by (simp add: IsPushOnly_def script_ops.simps GetOp2_def pushed_size_def)

end
