(* ===== verification/Compressor.thy ===== *)
theory Compressor
  imports ScriptNum ChainParams
begin

text \<open>
  The compact storage form of unspent outputs, \<open>src/src/compressor.cpp\<close>: amounts as
  \<open>uint64_t\<close> and the six special scripts. Elliptic-curve validity and decompression of a public key
  are \<open>secp256k1\<close> code and are parameters. \<open>None\<close> is a failed \<open>assert\<close>.
\<close>

section \<open>Amounts\<close>

function strip_zeros :: "uint64 \<Rightarrow> nat \<Rightarrow> uint64 \<times> nat" where
  "strip_zeros n e = (if n mod 10 = 0 \<and> e < 9 then strip_zeros (n div 10) (e + 1) else (n, e))"
  by pat_completeness auto
termination by (relation "measure (\<lambda>(n, e). 9 - e)") auto

declare strip_zeros.simps [simp del]

definition CompressAmount :: "uint64 \<Rightarrow> uint64 option" where
  "CompressAmount n =
     (if n = 0 then Some 0
      else case strip_zeros n 0 of
        (n, e) \<Rightarrow>
          if e < 9 then
            (let d = n mod 10
             in if 1 \<le> d \<and> d \<le> 9 then Some (1 + (n div 10 * 9 + d - 1) * 10 + of_nat e) else None)
          else Some (1 + (n - 1) * 10 + 9))"

fun times10 :: "nat \<Rightarrow> uint64 \<Rightarrow> uint64" where
  "times10 0 n = n"
| "times10 (Suc e) n = times10 e (n * 10)"

definition DecompressAmount :: "uint64 \<Rightarrow> uint64" where
  "DecompressAmount x =
     (if x = 0 then 0
      else
        let x = x - 1;
            e = unat (x mod 10);
            x = x div 10;
            n = (if e < 9 then x div 9 * 10 + (x mod 9 + 1) else x + 1)
        in times10 e n)"

section \<open>Scripts\<close>

definition IsToKeyID :: "bytes \<Rightarrow> bytes option" where
  "IsToKeyID script =
     (if length script = 25 \<and> script ! 0 = OP_DUP \<and> script ! 1 = OP_HASH160 \<and> script ! 2 = 20 \<and>
         script ! 23 = OP_EQUALVERIFY \<and> script ! 24 = OP_CHECKSIG
      then Some (take 20 (drop 3 script)) else None)"

definition IsToScriptID :: "bytes \<Rightarrow> bytes option" where
  "IsToScriptID script =
     (if length script = 23 \<and> script ! 0 = OP_HASH160 \<and> script ! 1 = 20 \<and> script ! 22 = OP_EQUAL
      then Some (take 20 (drop 2 script)) else None)"

definition IsToPubKey :: "(bytes \<Rightarrow> bool) \<Rightarrow> bytes \<Rightarrow> bytes option" where
  "IsToPubKey IsFullyValid script =
     (if length script = 35 \<and> script ! 0 = 33 \<and> script ! 34 = OP_CHECKSIG \<and>
         (script ! 1 = 0x02 \<or> script ! 1 = 0x03)
      then Some (take 33 (drop 1 script))
      else if length script = 67 \<and> script ! 0 = 65 \<and> script ! 66 = OP_CHECKSIG \<and> script ! 1 = 0x04
      then (let pubkey = take 65 (drop 1 script)
            in if IsFullyValid pubkey then Some pubkey else None)
      else None)"

definition CompressScript :: "(bytes \<Rightarrow> bool) \<Rightarrow> bytes \<Rightarrow> bytes option" where
  "CompressScript IsFullyValid script =
     (case IsToKeyID script of
        Some keyID \<Rightarrow> Some (0x00 # keyID)
      | None \<Rightarrow>
          (case IsToScriptID script of
             Some scriptID \<Rightarrow> Some (0x01 # scriptID)
           | None \<Rightarrow>
               (case IsToPubKey IsFullyValid script of
                  None \<Rightarrow> None
                | Some pubkey \<Rightarrow>
                    if pubkey ! 0 = 0x02 \<or> pubkey ! 0 = 0x03
                    then Some (pubkey ! 0 # take 32 (drop 1 pubkey))
                    else if pubkey ! 0 = 0x04
                    then Some ((0x04 OR (pubkey ! 64 AND 0x01)) # take 32 (drop 1 pubkey))
                    else None)))"

definition GetSpecialSize :: "nat \<Rightarrow> nat" where
  "GetSpecialSize nSize =
     (if nSize = 0 \<or> nSize = 1 then 20
      else if nSize = 2 \<or> nSize = 3 \<or> nSize = 4 \<or> nSize = 5 then 32
      else 0)"

text \<open>
  \<open>Decompress pubkey\<close> is the uncompressed key of a compressed one, when there is one. The result
  holds the returned flag and the script; \<open>script\<close> is the script before the call.
\<close>

definition DecompressScript ::
  "(bytes \<Rightarrow> bytes option) \<Rightarrow> bytes \<Rightarrow> nat \<Rightarrow> bytes \<Rightarrow> (bool \<times> bytes) option" where
  "DecompressScript Decompress script nSize inp =
     (if nSize = 0x00 then
        Some (True, [OP_DUP, OP_HASH160, 20] @ take 20 inp @ [OP_EQUALVERIFY, OP_CHECKSIG])
      else if nSize = 0x01 then
        Some (True, [OP_HASH160, 20] @ take 20 inp @ [OP_EQUAL])
      else if nSize = 0x02 \<or> nSize = 0x03 then
        Some (True, [33, of_nat nSize] @ take 32 inp @ [OP_CHECKSIG])
      else if nSize = 0x04 \<or> nSize = 0x05 then
        (case Decompress (of_nat (nSize - 2) # take 32 inp) of
           None \<Rightarrow> Some (False, script)
         | Some pubkey \<Rightarrow>
             if length pubkey = 65 then Some (True, [65] @ pubkey @ [OP_CHECKSIG]) else None)
      else Some (False, script))"

section \<open>Amounts as numbers\<close>

fun strip_nat :: "nat \<Rightarrow> nat \<Rightarrow> nat \<times> nat" where
  "strip_nat 0 n = (n, 0)"
| "strip_nat (Suc k) n = (if n mod 10 = 0 then (case strip_nat k (n div 10) of (m, e) \<Rightarrow> (m, Suc e)) else (n, 0))"

lemma strip_zeros_nat:
  "e + k = 9 \<Longrightarrow> strip_zeros n e = (m, e') \<Longrightarrow> strip_nat k (unat n) = (unat m, e' - e) \<and> e \<le> e'"
proof (induction k arbitrary: n e)
  case 0
  then show ?case by (auto simp: strip_zeros.simps [of n])
next
  case (Suc k)
  have z: "n mod 10 = 0 \<longleftrightarrow> unat n mod 10 = 0" by (simp add: unat_eq_zero [symmetric] unat_mod)
  show ?case
  proof (cases "n mod 10 = 0")
    case True
    then have "strip_zeros (n div 10) (Suc e) = (m, e')"
      using Suc.prems by (subst (asm) strip_zeros.simps) simp
    from Suc.IH [OF _ this] Suc.prems(1) have
      "strip_nat k (unat n div 10) = (unat m, e' - Suc e)" "Suc e \<le> e'" by (simp_all add: unat_div)
    then show ?thesis using True z by (simp add: Suc_diff_Suc less_eq_Suc_le)
  next
    case False
    then show ?thesis using Suc.prems z by (subst (asm) strip_zeros.simps) simp
  qed
qed

lemma strip_nat_spec:
  "strip_nat k n = (m, e) \<Longrightarrow> n = m * 10 ^ e \<and> e \<le> k \<and> (e < k \<longrightarrow> m mod 10 \<noteq> 0)"
proof (induction k arbitrary: n m e)
  case (Suc k)
  show ?case
  proof (cases "n mod 10 = 0")
    case True
    then obtain e0 where r: "strip_nat k (n div 10) = (m, e0)" "e = Suc e0"
      using Suc.prems by (auto split: prod.splits)
    from Suc.IH [OF r(1)] True r(2) show ?thesis by (auto simp: mult.assoc mod_eq_0_iff_dvd)
  qed (use Suc.prems in auto)
qed simp

lemma times10_val: "times10 e n = n * 10 ^ e"
  by (induction e n rule: times10.induct) (simp_all add: mult.assoc)

lemma unat_of_small: "unat (of_nat k :: uint64) = k" if "k < 2 ^ 64"
  using that by (simp add: unsigned_of_nat take_bit_nat_eq_self)

lemma of_nat_unat_64: "of_nat (unat n) = (n :: uint64)"
  by simp

lemma word_div_of_nat:
  assumes "K < 2 ^ 64"
  shows "(of_nat K :: uint64) div 10 = of_nat (K div 10)" "(of_nat K :: uint64) div 9 = of_nat (K div 9)"
    "(of_nat K :: uint64) mod 10 = of_nat (K mod 10)" "(of_nat K :: uint64) mod 9 = of_nat (K mod 9)"
proof -
  have k: "unat (of_nat K :: uint64) = K" by (rule unat_of_small [OF assms])
  have le: "K div 10 < 2 ^ 64" "K div 9 < 2 ^ 64" using assms by (simp_all add: le_less_trans [OF div_le_dividend])
  have md: "K mod 10 < 2 ^ 64" "K mod 9 < 2 ^ 64" by (simp_all add: less_trans [OF mod_less_divisor])
  show "(of_nat K :: uint64) div 10 = of_nat (K div 10)"
    unfolding word_unat_eq_iff unat_div k unat_of_small [OF le(1)] by simp
  show "(of_nat K :: uint64) div 9 = of_nat (K div 9)"
    unfolding word_unat_eq_iff unat_div k unat_of_small [OF le(2)] by simp
  show "(of_nat K :: uint64) mod 10 = of_nat (K mod 10)"
    unfolding word_unat_eq_iff unat_mod k unat_of_small [OF md(1)] by simp
  show "(of_nat K :: uint64) mod 9 = of_nat (K mod 9)"
    unfolding word_unat_eq_iff unat_mod k unat_of_small [OF md(2)] by simp
qed

text \<open>\<open>code_of m e\<close> is the number that stands for \<open>m * 10 ^ e\<close> in storage.\<close>

definition code_of :: "nat \<Rightarrow> nat \<Rightarrow> nat" where
  "code_of m e = (if e < 9 then 1 + (m div 10 * 9 + (m mod 10 - 1)) * 10 + e else 1 + (m - 1) * 10 + 9)"

lemma code_of_le:
  assumes m: "m \<noteq> 0" "e < 9 \<longrightarrow> m mod 10 \<noteq> 0" and e: "e \<le> 9"
  shows "e = 0 \<Longrightarrow> code_of m e \<le> 9 * m" "0 < e \<Longrightarrow> code_of m e \<le> 10 * m"
proof -
  have c: "\<exists>q d. code_of m e = 1 + (q * 9 + d) * 10 + e \<and> m = 10 * q + Suc d \<and> d \<le> 8" if lt: "e < 9"
  proof -
    obtain d where d: "m mod 10 = Suc d" using m(2) lt by (meson not0_implies_Suc)
    have "m = 10 * (m div 10) + m mod 10" by simp
    then have "m = 10 * (m div 10) + Suc d" unfolding d .
    moreover have "code_of m e = 1 + (m div 10 * 9 + d) * 10 + e" using d lt by (simp add: code_of_def)
    moreover have "d \<le> 8" using d mod_less_divisor [of 10 m] by simp
    ultimately show ?thesis by blast
  qed
  show a: "code_of m e \<le> 10 * m" if "0 < e"
  proof (cases "e < 9")
    case True
    from c [OF this] obtain q d where d: "code_of m e = 1 + (q * 9 + d) * 10 + e" "m = 10 * q + Suc d" "d \<le> 8" by blast
    have "10 * m = 100 * q + 10 * d + 10" by (subst d(2)) simp
    moreover have "code_of m e \<le> 90 * q + 10 * d + 10" using e by (subst d(1)) simp
    ultimately show ?thesis by simp
  qed (use m e in \<open>auto simp: code_of_def\<close>)
  show b: "code_of m e \<le> 9 * m" if "e = 0"
  proof -
    have "e < 9" using that by simp
    from c [OF this] obtain q d where d: "code_of m e = 1 + (q * 9 + d) * 10 + e" "m = 10 * q + Suc d" "d \<le> 8" by blast
    have "9 * m = 90 * q + 9 * d + 9" by (subst d(2)) simp
    moreover have "code_of m e = 90 * q + 10 * d + 1" using that by (subst d(1)) simp
    moreover note d(3)
    ultimately show ?thesis by simp
  qed
qed

lemma code_of_bound:
  assumes "m \<noteq> 0" "e < 9 \<longrightarrow> m mod 10 \<noteq> 0" "e \<le> 9" "9 * (m * 10 ^ e) < 2 ^ 64"
  shows "code_of m e < 2 ^ 64"
proof (cases "e = 0")
  case True
  then show ?thesis using code_of_le(1) [OF assms(1-3)] assms(4) by simp
next
  case False
  then have "10 ^ 1 \<le> (10::nat) ^ e" by (intro power_increasing) simp_all
  then have "m * 10 \<le> m * 10 ^ e" by simp
  moreover have "code_of m e \<le> 10 * m" using code_of_le(2) [OF assms(1-3)] False by simp
  moreover have "10 * m = m * 10" "m * 10 ^ e \<le> 9 * (m * 10 ^ e)" by simp_all
  ultimately show ?thesis using assms(4) by linarith
qed

lemma DecompressAmount_code:
  assumes "m \<noteq> 0" "e < 9 \<longrightarrow> m mod 10 \<noteq> 0" "e \<le> 9" "code_of m e < 2 ^ 64"
  shows "DecompressAmount (of_nat (code_of m e)) = of_nat (m * 10 ^ e)"
proof -
  define K where "K = code_of m e - 1"
  have k: "code_of m e = Suc K" by (simp add: K_def code_of_def)
  have K: "K < 2 ^ 64" using assms(4) k by simp
  have "unat (of_nat (Suc K) :: uint64) = Suc K" using assms(4) k by (intro unat_of_small) simp
  then have nz: "(of_nat (Suc K) :: uint64) \<noteq> 0" by (metis Zero_not_Suc unsigned_0)
  have minus: "(of_nat (Suc K) :: uint64) - 1 = of_nat K" by simp
  have "\<exists>X. K = X * 10 + e" 
    using assms(3) unfolding K_def code_of_def
    by (cases "e < 9") (auto intro: exI [of _ "m div 10 * 9 + (m mod 10 - 1)"] exI [of _ "m - 1"])
  then obtain X where "K = X * 10 + e" by blast
  then have emod: "K mod 10 = e" using assms(3) by simp
  have ue: "unat ((of_nat K :: uint64) mod 10) = e"
    using emod assms(3) by (simp only: word_div_of_nat [OF K]) (rule unat_of_small, simp)
  have D: "DecompressAmount (of_nat (code_of m e)) =
      times10 e (if e < 9 then of_nat K div 10 div 9 * 10 + (of_nat K div 10 mod 9 + 1) else of_nat K div 10 + 1)"
    unfolding k DecompressAmount_def Let_def minus ue using nz by (simp only: if_False)
  have K10: "K div 10 < 2 ^ 64" using K by (simp add: le_less_trans [OF div_le_dividend])
  show ?thesis
  proof (cases "e < 9")
    case True
    have d: "m mod 10 - 1 < 9" by simp
    have q: "K div 10 = m div 10 * 9 + (m mod 10 - 1)" using True by (simp add: K_def code_of_def)
    have q9: "K div 10 div 9 = m div 10" "K div 10 mod 9 = m mod 10 - 1"
      unfolding q using d by simp_all
    have "of_nat (m div 10) * 10 + (of_nat (m mod 10 - 1) + 1) = (of_nat (m div 10 * 10 + (m mod 10 - 1 + 1)) :: uint64)"
      by simp
    also have "m div 10 * 10 + (m mod 10 - 1 + 1) = m" using assms(2) True by simp
    finally show ?thesis unfolding D word_div_of_nat [OF K] word_div_of_nat [OF K10] q9
      using True by (simp add: times10_val)
  next
    case False
    then have "K div 10 = m - 1" "e = 9" using assms(3) by (simp_all add: K_def code_of_def)
    moreover have "of_nat (m - 1) + 1 = (of_nat m :: uint64)" using assms(1) by (simp add: of_nat_diff)
    ultimately show ?thesis unfolding D word_div_of_nat [OF K] by (simp add: times10_val)
  qed
qed

lemma CompressAmount_code:
  assumes "n \<noteq> 0" "strip_zeros n 0 = (m, e)"
  shows "CompressAmount n = Some (of_nat (code_of (unat m) e))"
    and "unat n = unat m * 10 ^ e" "e \<le> 9" "e < 9 \<longrightarrow> unat m mod 10 \<noteq> 0" "unat m \<noteq> 0"
proof -
  have s: "strip_nat 9 (unat n) = (unat m, e)" using strip_zeros_nat [of 0 9 n m e] assms(2) by simp
  from strip_nat_spec [OF s] show v: "unat n = unat m * 10 ^ e" and e: "e \<le> 9" and d: "e < 9 \<longrightarrow> unat m mod 10 \<noteq> 0"
    by simp_all
  show nz: "unat m \<noteq> 0" using v assms(1) by (metis mult_0 unat_eq_zero)
  have M: "unat m < 2 ^ 64" using unat_less_64 [of m] by simp
  have w: "m div 10 = of_nat (unat m div 10)" "m mod 10 = of_nat (unat m mod 10)"
    using word_div_of_nat [OF M] by simp_all
  show "CompressAmount n = Some (of_nat (code_of (unat m) e))"
  proof (cases "e < 9")
    case True
    obtain d' where d': "unat m mod 10 = Suc d'" using d True by (meson not0_implies_Suc)
    then have "d' < 9" using mod_less_divisor [of 10 "unat m"] by simp
    then have "unat (of_nat (Suc d') :: uint64) = Suc d'" by (intro unat_of_small) simp
    then have rng: "1 \<le> (of_nat (Suc d') :: uint64) \<and> (of_nat (Suc d') :: uint64) \<le> 9"
      using \<open>d' < 9\<close> by (simp add: word_le_nat_alt del: of_nat_Suc)
    have "1 + (of_nat (unat m div 10) * 9 + of_nat (Suc d') - 1) * 10 + of_nat e
        = (of_nat (1 + (unat m div 10 * 9 + d') * 10 + e) :: uint64)" by simp
    then show ?thesis using assms True rng
      unfolding CompressAmount_def assms(2) w d' by (simp add: code_of_def d' w del: of_nat_Suc of_nat_add of_nat_mult)
  next
    case False
    have "1 + (m - 1) * 10 + 9 = (of_nat (1 + (unat m - 1) * 10 + 9) :: uint64)"
      using nz by (simp add: of_nat_diff)
    then show ?thesis using assms False
      by (simp add: CompressAmount_def code_of_def del: of_nat_Suc of_nat_add of_nat_mult)
  qed
qed

section \<open>Scripts: lists from their bytes\<close>

lemma list_eq_parts:
  assumes "length s = a + b + c"
  shows "s = take a s @ take b (drop a s) @ drop (a + b) s"
  by (metis add.commute append_take_drop_id drop_drop)

lemma take_three: "3 \<le> length s \<Longrightarrow> take 3 s = [s ! 0, s ! 1, s ! 2]"
  and take_two: "2 \<le> length s \<Longrightarrow> take 2 s = [s ! 0, s ! 1]"
  and take_one: "1 \<le> length s \<Longrightarrow> take 1 s = [s ! 0]"
  by (rule nth_equalityI; auto simp: less_Suc_eq numeral_eq_Suc)+

lemma drop_last_two: "length s = n + 2 \<Longrightarrow> drop n s = [s ! n, s ! (n + 1)]"
  by (simp add: Cons_nth_drop_Suc [symmetric])

lemma drop_last_one: "length s = n + 1 \<Longrightarrow> drop n s = [s ! n]"
  by (simp add: Cons_nth_drop_Suc [symmetric])

lemma IsToKeyID_shape:
  "IsToKeyID s = Some h \<longleftrightarrow> length h = 20 \<and> s = [OP_DUP, OP_HASH160, 20] @ h @ [OP_EQUALVERIFY, OP_CHECKSIG]"
proof
  assume "IsToKeyID s = Some h"
  then have s: "length s = 25" "s ! 0 = OP_DUP" "s ! 1 = OP_HASH160" "s ! 2 = 20" "s ! 23 = OP_EQUALVERIFY"
    "s ! 24 = OP_CHECKSIG" "h = take 20 (drop 3 s)" by (auto simp: IsToKeyID_def split: if_splits)
  then show "length h = 20 \<and> s = [OP_DUP, OP_HASH160, 20] @ h @ [OP_EQUALVERIFY, OP_CHECKSIG]"
    using list_eq_parts [of s 3 20 2] take_three [of s] drop_last_two [of s 23] by simp
next
  assume "length h = 20 \<and> s = [OP_DUP, OP_HASH160, 20] @ h @ [OP_EQUALVERIFY, OP_CHECKSIG]"
  then show "IsToKeyID s = Some h" by (simp add: IsToKeyID_def nth_append)
qed

lemma IsToScriptID_shape:
  "IsToScriptID s = Some h \<longleftrightarrow> length h = 20 \<and> s = [OP_HASH160, 20] @ h @ [OP_EQUAL]"
proof
  assume "IsToScriptID s = Some h"
  then have s: "length s = 23" "s ! 0 = OP_HASH160" "s ! 1 = 20" "s ! 22 = OP_EQUAL"
    "h = take 20 (drop 2 s)" by (auto simp: IsToScriptID_def split: if_splits)
  then show "length h = 20 \<and> s = [OP_HASH160, 20] @ h @ [OP_EQUAL]"
    using list_eq_parts [of s 2 20 1] take_two [of s] drop_last_one [of s 22] by simp
next
  assume "length h = 20 \<and> s = [OP_HASH160, 20] @ h @ [OP_EQUAL]"
  then show "IsToScriptID s = Some h" by (simp add: IsToScriptID_def nth_append)
qed

lemma IsToPubKey_shape:
  assumes "IsToPubKey V s = Some k"
  shows "(length k = 33 \<and> (k ! 0 = 2 \<or> k ! 0 = 3) \<and> s = 33 # k @ [OP_CHECKSIG]) \<or>
    (length k = 65 \<and> k ! 0 = 4 \<and> V k \<and> s = 65 # k @ [OP_CHECKSIG])"
proof -
  consider (short) "length s = 35" "s ! 0 = 33" "s ! 34 = OP_CHECKSIG" "s ! 1 = 2 \<or> s ! 1 = 3" "k = take 33 (drop 1 s)"
    | (long) "length s = 67" "s ! 0 = 65" "s ! 66 = OP_CHECKSIG" "s ! 1 = 4" "k = take 65 (drop 1 s)" "V k"
    using assms by (auto simp: IsToPubKey_def Let_def split: if_splits)
  then show ?thesis
  proof cases
    case short
    moreover have "s = [s ! 0] @ take 33 (drop 1 s) @ [s ! 34]"
      using list_eq_parts [of s 1 33 1] drop_last_one [of s 34] take_one [of s] short(1) by simp
    ultimately show ?thesis by auto
  next
    case long
    moreover have "s = [s ! 0] @ take 65 (drop 1 s) @ [s ! 66]"
      using list_eq_parts [of s 1 65 1] drop_last_one [of s 66] take_one [of s] long(1) by simp
    ultimately show ?thesis by auto
  qed
qed

section \<open>Properties\<close>

text \<open>Every amount up to \<open>2^64 / 9\<close> base units (twenty billion coins) survives compression:
  the \<open>assert\<close> on the digit holds, nothing wraps, and decompression returns the amount.\<close>

theorem amount_roundtrip:
  assumes "9 * unat n < 2 ^ 64"
  shows "\<exists>x. CompressAmount n = Some x \<and> DecompressAmount x = n"
proof (cases "n = 0")
  case True
  then show ?thesis by (simp add: CompressAmount_def DecompressAmount_def)
next
  case False
  obtain m e where s: "strip_zeros n 0 = (m, e)" by fastforce
  note c = CompressAmount_code [OF False s]
  have "code_of (unat m) e < 2 ^ 64"
    using code_of_bound [OF c(5,4,3)] assms c(2) by simp
  from DecompressAmount_code [OF c(5,4,3) this] c(1,2)
  show ?thesis by (metis of_nat_unat_64)
qed

theorem amount_roundtrip_witness:
  "\<exists>x. CompressAmount 5000000000 = Some x \<and> DecompressAmount x = 5000000000"
  using amount_roundtrip [of 5000000000] by auto

text \<open>The bound is needed: 20500000000.00000001 coins are within \<open>MoneyRange\<close> of the main
  network, but the product with 9 wraps and decompression returns another amount.\<close>

theorem amount_compression_overflow:
  "\<exists>n x. MoneyRange main_params (int (unat n)) \<and> CompressAmount n = Some x \<and> DecompressAmount x \<noteq> n"
proof (intro exI conjI)
  show "MoneyRange main_params (int (unat (2050000000000000001 :: uint64)))"
    by (simp add: MoneyRange_def main_params_def)
  show "CompressAmount 2050000000000000001 = Some (1 + (205000000000000000 * 9 + 1 - 1) * 10 + of_nat 0)"
    by (simp add: CompressAmount_def strip_zeros.simps)
  show "DecompressAmount (1 + (205000000000000000 * 9 + 1 - 1) * 10 + of_nat 0) \<noteq> 2050000000000000001"
    by (simp add: DecompressAmount_def times10_val)
qed

text \<open>C37: A script that compresses is restored exactly: the first byte of the compressed form is its
  \<open>nSize\<close>, the rest has the length \<open>GetSpecialSize\<close> gives, and \<open>Decompress\<close> of it is the script.
  For uncompressed keys this relies on point decompression inverting compression.\<close>

theorem script_compression_roundtrip:
  assumes "CompressScript IsFullyValid s = Some out"
    and "\<And>k. length k = 65 \<Longrightarrow> k ! 0 = 4 \<Longrightarrow> IsFullyValid k \<Longrightarrow>
      Decompress ((if odd (unat (k ! 64)) then 3 else 2) # take 32 (drop 1 k)) = Some k"
  shows "length out = 1 + GetSpecialSize (unat (out ! 0)) \<and> unat (out ! 0) < 6 \<and>
    DecompressScript Decompress s0 (unat (out ! 0)) (drop 1 out) = Some (True, s)"
proof -
  consider (key) h where "IsToKeyID s = Some h" | (scr) h where "IsToKeyID s = None" "IsToScriptID s = Some h"
    | (pub) k where "IsToKeyID s = None" "IsToScriptID s = None" "IsToPubKey IsFullyValid s = Some k"
    using assms(1) by (auto simp: CompressScript_def split: option.splits)
  then show ?thesis
  proof cases
    case key
    then show ?thesis using assms(1) IsToKeyID_shape [of s h]
      by (auto simp: CompressScript_def GetSpecialSize_def DecompressScript_def)
  next
    case scr
    then show ?thesis using assms(1) IsToScriptID_shape [of s h]
      by (auto simp: CompressScript_def GetSpecialSize_def DecompressScript_def)
  next
    case pub
    from IsToPubKey_shape [OF pub(3)] show ?thesis
    proof
      assume a: "length k = 33 \<and> (k ! 0 = 2 \<or> k ! 0 = 3) \<and> s = 33 # k @ [OP_CHECKSIG]"
      then obtain x xs where k: "k = x # xs" "length xs = 32" "x = 2 \<or> x = 3"
        by (cases k) auto
      have out: "out = x # xs" using assms(1) pub k by (auto simp: CompressScript_def)
      show ?thesis using k(3) k(1,2) a
        by (auto simp: out GetSpecialSize_def DecompressScript_def)
    next
      assume a: "length k = 65 \<and> k ! 0 = 4 \<and> IsFullyValid k \<and> s = 65 # k @ [OP_CHECKSIG]"
      let ?y = "4 OR (k ! 64 AND 1)" and ?x = "take 32 (drop 1 k)"
      have out: "out = ?y # ?x" using assms(1) pub a by (auto simp: CompressScript_def split: if_splits)
      have y: "?y = (if odd (unat (k ! 64)) then 5 else 4)"
      proof -
        have "unat (k ! 64 AND 1) = unat (k ! 64) mod 2" using unat_and_mask [of "k ! 64" 1] by simp
        then have "k ! 64 AND 1 = (if odd (unat (k ! 64)) then 1 else 0)"
          by (simp add: word_unat_eq_iff odd_iff_mod_2_eq_one)
        then show ?thesis by simp
      qed
      have D: "Decompress ((if odd (unat (k ! 64)) then 3 else 2) # ?x) = Some k" using assms(2) a by blast
      show ?thesis using a D unfolding out y
        by (cases "odd (unat (k ! 64))") (simp_all add: GetSpecialSize_def DecompressScript_def)
    qed
  qed
qed

definition demo_key :: bytes where
  "demo_key = 4 # replicate 32 7 @ replicate 32 9"

theorem script_compression_roundtrip_witness:
  "DecompressScript (\<lambda>c. if c = 3 # replicate 32 7 then Some demo_key else None) [] 5 (replicate 32 7) =
     Some (True, 65 # demo_key @ [OP_CHECKSIG])"
proof -
  have k: "length demo_key = 65" "demo_key ! 64 = 9" "demo_key ! 0 = 4" "take 32 (drop 1 demo_key) = replicate 32 7"
    by (simp_all add: demo_key_def nth_append)
  have "CompressScript (\<lambda>k. k = demo_key) (65 # demo_key @ [OP_CHECKSIG]) = Some (5 # replicate 32 7)"
    using k by (simp add: CompressScript_def IsToKeyID_def IsToScriptID_def IsToPubKey_def nth_append nth_Cons')
  from script_compression_roundtrip [OF this, of "\<lambda>c. if c = 3 # replicate 32 7 then Some demo_key else None" "[]"] k
  show ?thesis by simp
qed

end
