(* ===== verification/Interpreter.thy ===== *)
theory Interpreter
  imports ScriptNum
begin

text \<open>
  The script interpreter, \<open>src/src/script/interpreter.cpp\<close>: encodings of signatures and keys,
  \<open>EvalScript\<close> one group of opcodes at a time, and \<open>VerifyScript\<close>. The stacks are lists
  whose head is the top (\<open>stacktop(-i)\<close> is element \<open>i - 1\<close>). Hash functions, the signature
  check and the lock time check are fields of an environment. Every exception thrown inside
  \<open>EvalScript\<close> is caught there and becomes \<open>SCRIPT_ERR_UNKNOWN_ERROR\<close>.
\<close>

datatype ScriptError =
    SCRIPT_ERR_UNKNOWN_ERROR
  | SCRIPT_ERR_EVAL_FALSE
  | SCRIPT_ERR_OP_RETURN
  | SCRIPT_ERR_SCRIPT_SIZE
  | SCRIPT_ERR_PUSH_SIZE
  | SCRIPT_ERR_OP_COUNT
  | SCRIPT_ERR_STACK_SIZE
  | SCRIPT_ERR_SIG_COUNT
  | SCRIPT_ERR_PUBKEY_COUNT
  | SCRIPT_ERR_VERIFY
  | SCRIPT_ERR_EQUALVERIFY
  | SCRIPT_ERR_CHECKMULTISIGVERIFY
  | SCRIPT_ERR_CHECKSIGVERIFY
  | SCRIPT_ERR_NUMEQUALVERIFY
  | SCRIPT_ERR_BAD_OPCODE
  | SCRIPT_ERR_DISABLED_OPCODE
  | SCRIPT_ERR_INVALID_STACK_OPERATION
  | SCRIPT_ERR_INVALID_ALTSTACK_OPERATION
  | SCRIPT_ERR_UNBALANCED_CONDITIONAL
  | SCRIPT_ERR_NEGATIVE_LOCKTIME
  | SCRIPT_ERR_UNSATISFIED_LOCKTIME
  | SCRIPT_ERR_SIG_HASHTYPE
  | SCRIPT_ERR_SIG_DER
  | SCRIPT_ERR_MINIMALDATA
  | SCRIPT_ERR_SIG_PUSHONLY
  | SCRIPT_ERR_SIG_HIGH_S
  | SCRIPT_ERR_SIG_NULLDUMMY
  | SCRIPT_ERR_PUBKEYTYPE
  | SCRIPT_ERR_DISCOURAGE_UPGRADABLE_NOPS

definition SCRIPT_VERIFY_P2SH :: uint32 where "SCRIPT_VERIFY_P2SH = 1"
definition SCRIPT_VERIFY_STRICTENC :: uint32 where "SCRIPT_VERIFY_STRICTENC = 2"
definition SCRIPT_VERIFY_DERSIG :: uint32 where "SCRIPT_VERIFY_DERSIG = 4"
definition SCRIPT_VERIFY_LOW_S :: uint32 where "SCRIPT_VERIFY_LOW_S = 8"
definition SCRIPT_VERIFY_NULLDUMMY :: uint32 where "SCRIPT_VERIFY_NULLDUMMY = 16"
definition SCRIPT_VERIFY_SIGPUSHONLY :: uint32 where "SCRIPT_VERIFY_SIGPUSHONLY = 32"
definition SCRIPT_VERIFY_MINIMALDATA :: uint32 where "SCRIPT_VERIFY_MINIMALDATA = 64"
definition SCRIPT_VERIFY_DISCOURAGE_UPGRADABLE_NOPS :: uint32 where
  "SCRIPT_VERIFY_DISCOURAGE_UPGRADABLE_NOPS = 128"
definition SCRIPT_VERIFY_CHECKLOCKTIMEVERIFY :: uint32 where
  "SCRIPT_VERIFY_CHECKLOCKTIMEVERIFY = 512"

lemmas verify_flag_defs = SCRIPT_VERIFY_P2SH_def SCRIPT_VERIFY_STRICTENC_def SCRIPT_VERIFY_DERSIG_def
  SCRIPT_VERIFY_LOW_S_def SCRIPT_VERIFY_NULLDUMMY_def SCRIPT_VERIFY_SIGPUSHONLY_def
  SCRIPT_VERIFY_MINIMALDATA_def SCRIPT_VERIFY_DISCOURAGE_UPGRADABLE_NOPS_def
  SCRIPT_VERIFY_CHECKLOCKTIMEVERIFY_def

definition flag_set :: "uint32 \<Rightarrow> uint32 \<Rightarrow> bool" where
  "flag_set flags f \<longleftrightarrow> flags AND f \<noteq> 0"

record script_env =
  RIPEMD160 :: "bytes \<Rightarrow> bytes"
  SHA1 :: "bytes \<Rightarrow> bytes"
  SHA256 :: "bytes \<Rightarrow> bytes"
  Hash160 :: "bytes \<Rightarrow> bytes"
  Hash256 :: "bytes \<Rightarrow> bytes"
  CheckLowS :: "bytes \<Rightarrow> bool"
  CheckSig :: "bytes \<Rightarrow> bytes \<Rightarrow> bytes \<Rightarrow> bool"
  CheckLockTime :: "int \<Rightarrow> bool"

section \<open>Encodings\<close>

fun CastToBool :: "bytes \<Rightarrow> bool" where
  "CastToBool [] = False"
| "CastToBool (b # bs) =
     (if b \<noteq> 0 then (if bs = [] \<and> b = 0x80 then False else True) else CastToBool bs)"

definition IsCompressedOrUncompressedPubKey :: "bytes \<Rightarrow> bool" where
  "IsCompressedOrUncompressedPubKey vchPubKey =
     (if length vchPubKey < 33 then False
      else if vchPubKey ! 0 = 0x04 then length vchPubKey = 65
      else if vchPubKey ! 0 = 0x02 \<or> vchPubKey ! 0 = 0x03 then length vchPubKey = 33
      else False)"

definition IsValidSignatureEncoding :: "bytes \<Rightarrow> bool" where
  "IsValidSignatureEncoding sig =
     (if length sig < 9 then False
      else if 73 < length sig then False
      else if sig ! 0 \<noteq> 0x30 then False
      else if unat (sig ! 1) \<noteq> length sig - 3 then False
      else
        let lenR = unat (sig ! 3)
        in if length sig \<le> 5 + lenR then False
           else
             let lenS = unat (sig ! (5 + lenR))
             in if lenR + lenS + 7 \<noteq> length sig then False
                else if sig ! 2 \<noteq> 0x02 then False
                else if lenR = 0 then False
                else if sig ! 4 AND 0x80 \<noteq> 0 then False
                else if 1 < lenR \<and> sig ! 4 = 0x00 \<and> \<not> sig ! 5 AND 0x80 \<noteq> 0 then False
                else if sig ! (lenR + 4) \<noteq> 0x02 then False
                else if lenS = 0 then False
                else if sig ! (lenR + 6) AND 0x80 \<noteq> 0 then False
                else if 1 < lenS \<and> sig ! (lenR + 6) = 0x00 \<and> \<not> sig ! (lenR + 7) AND 0x80 \<noteq> 0 then False
                else True)"

text \<open>The checks that set \<open>*serror\<close> return the error, or nothing when they hold.\<close>

definition IsLowDERSignature :: "script_env \<Rightarrow> bytes \<Rightarrow> ScriptError option" where
  "IsLowDERSignature E vchSig =
     (if \<not> IsValidSignatureEncoding vchSig then Some SCRIPT_ERR_SIG_DER
      else if \<not> CheckLowS E (butlast vchSig) then Some SCRIPT_ERR_SIG_HIGH_S
      else None)"

definition IsDefinedHashtypeSignature :: "bytes \<Rightarrow> bool" where
  "IsDefinedHashtypeSignature vchSig =
     (if length vchSig = 0 then False
      else let nHashType = last vchSig AND NOT 0x80
           in if nHashType < 1 \<or> 3 < nHashType then False else True)"

definition CheckSignatureEncoding :: "script_env \<Rightarrow> uint32 \<Rightarrow> bytes \<Rightarrow> ScriptError option" where
  "CheckSignatureEncoding E flags vchSig =
     (if length vchSig = 0 then None
      else if flag_set flags (SCRIPT_VERIFY_DERSIG OR SCRIPT_VERIFY_LOW_S OR SCRIPT_VERIFY_STRICTENC) \<and>
              \<not> IsValidSignatureEncoding vchSig
           then Some SCRIPT_ERR_SIG_DER
      else if flag_set flags SCRIPT_VERIFY_LOW_S \<and> IsLowDERSignature E vchSig \<noteq> None
           then IsLowDERSignature E vchSig
      else if flag_set flags SCRIPT_VERIFY_STRICTENC \<and> \<not> IsDefinedHashtypeSignature vchSig
           then Some SCRIPT_ERR_SIG_HASHTYPE
      else None)"

definition CheckPubKeyEncoding :: "uint32 \<Rightarrow> bytes \<Rightarrow> ScriptError option" where
  "CheckPubKeyEncoding flags vchPubKey =
     (if flag_set flags SCRIPT_VERIFY_STRICTENC \<and> \<not> IsCompressedOrUncompressedPubKey vchPubKey
      then Some SCRIPT_ERR_PUBKEYTYPE else None)"

definition CheckMinimalPush :: "bytes \<Rightarrow> byte \<Rightarrow> bool" where
  "CheckMinimalPush data opcode =
     (if length data = 0 then opcode = OP_0
      else if length data = 1 \<and> 1 \<le> data ! 0 \<and> data ! 0 \<le> 16 then opcode = OP_1 + (data ! 0 - 1)
      else if length data = 1 \<and> data ! 0 = 0x81 then opcode = OP_1NEGATE
      else if length data \<le> 75 then unat opcode = length data
      else if length data \<le> 255 then opcode = OP_PUSHDATA1
      else if length data \<le> 65535 then opcode = OP_PUSHDATA2
      else True)"

section \<open>The state\<close>

text \<open>
  \<open>codehash\<close> is the script from \<open>pbegincodehash\<close> to the end.
\<close>

record eval_state =
  stk :: "bytes list"
  alt :: "bytes list"
  vfExec :: "bool list"
  codehash :: bytes
  nOpCount :: int

type_synonym step_result = "ScriptError + eval_state"

definition sbind :: "'e + 'a \<Rightarrow> ('a \<Rightarrow> 'e + 'b) \<Rightarrow> 'e + 'b" where
  "sbind m f = (case m of Inl e \<Rightarrow> Inl e | Inr x \<Rightarrow> f x)"

definition num_arg :: "bool \<Rightarrow> bytes \<Rightarrow> nat \<Rightarrow> ScriptError + int" where
  "num_arg fRequireMinimal vch nMaxNumSize =
     (case CScriptNum vch fRequireMinimal nMaxNumSize of
        Inl _ \<Rightarrow> Inl SCRIPT_ERR_UNKNOWN_ERROR
      | Inr v \<Rightarrow> Inr v)"

definition vchTrue :: bytes where "vchTrue = [1]"
definition vchFalse :: bytes where "vchFalse = []"

definition bool_vch :: "bool \<Rightarrow> bytes" where
  "bool_vch f = (if f then vchTrue else vchFalse)"

definition fMinimal :: "uint32 \<Rightarrow> bool" where
  "fMinimal flags = flag_set flags SCRIPT_VERIFY_MINIMALDATA"

section \<open>Control\<close>

definition exec_cltv :: "script_env \<Rightarrow> uint32 \<Rightarrow> eval_state \<Rightarrow> step_result" where
  "exec_cltv E flags st =
     (if \<not> flag_set flags SCRIPT_VERIFY_CHECKLOCKTIMEVERIFY then
        (if flag_set flags SCRIPT_VERIFY_DISCOURAGE_UPGRADABLE_NOPS
         then Inl SCRIPT_ERR_DISCOURAGE_UPGRADABLE_NOPS else Inr st)
      else (case stk st of
              [] \<Rightarrow> Inl SCRIPT_ERR_INVALID_STACK_OPERATION
            | x # _ \<Rightarrow>
                sbind (num_arg (fMinimal flags) x 5) (\<lambda>nLockTime.
                  if nLockTime < 0 then Inl SCRIPT_ERR_NEGATIVE_LOCKTIME
                  else if \<not> CheckLockTime E nLockTime then Inl SCRIPT_ERR_UNSATISFIED_LOCKTIME
                  else Inr st)))"

definition exec_if :: "byte \<Rightarrow> bool \<Rightarrow> eval_state \<Rightarrow> step_result" where
  "exec_if opcode fExec st =
     (if fExec then
        (case stk st of
           [] \<Rightarrow> Inl SCRIPT_ERR_UNBALANCED_CONDITIONAL
         | x # s \<Rightarrow>
             let fValue = CastToBool x;
                 fValue = (if opcode = OP_NOTIF then \<not> fValue else fValue)
             in Inr (st\<lparr>stk := s, vfExec := fValue # vfExec st\<rparr>))
      else Inr (st\<lparr>vfExec := False # vfExec st\<rparr>))"

definition exec_control :: "script_env \<Rightarrow> uint32 \<Rightarrow> byte \<Rightarrow> bool \<Rightarrow> eval_state \<Rightarrow> step_result" where
  "exec_control E flags opcode fExec st =
     (if opcode = OP_NOP then Inr st
      else if opcode = OP_CHECKLOCKTIMEVERIFY then exec_cltv E flags st
      else if opcode \<in> {OP_NOP1, OP_NOP3, OP_NOP4, OP_NOP5, OP_NOP6, OP_NOP7, OP_NOP8, OP_NOP9, OP_NOP10} then
        (if flag_set flags SCRIPT_VERIFY_DISCOURAGE_UPGRADABLE_NOPS
         then Inl SCRIPT_ERR_DISCOURAGE_UPGRADABLE_NOPS else Inr st)
      else if opcode = OP_IF \<or> opcode = OP_NOTIF then exec_if opcode fExec st
      else if opcode = OP_ELSE then
        (case vfExec st of
           [] \<Rightarrow> Inl SCRIPT_ERR_UNBALANCED_CONDITIONAL
         | f # fs \<Rightarrow> Inr (st\<lparr>vfExec := (\<not> f) # fs\<rparr>))
      else if opcode = OP_ENDIF then
        (case vfExec st of
           [] \<Rightarrow> Inl SCRIPT_ERR_UNBALANCED_CONDITIONAL
         | f # fs \<Rightarrow> Inr (st\<lparr>vfExec := fs\<rparr>))
      else if opcode = OP_VERIFY then
        (case stk st of
           [] \<Rightarrow> Inl SCRIPT_ERR_INVALID_STACK_OPERATION
         | x # s \<Rightarrow> if CastToBool x then Inr (st\<lparr>stk := s\<rparr>) else Inl SCRIPT_ERR_VERIFY)
      else if opcode = OP_RETURN then Inl SCRIPT_ERR_OP_RETURN
      else Inl SCRIPT_ERR_BAD_OPCODE)"

section \<open>Stack operations\<close>

definition exec_pick_roll :: "uint32 \<Rightarrow> byte \<Rightarrow> eval_state \<Rightarrow> step_result" where
  "exec_pick_roll flags opcode st =
     (if length (stk st) < 2 then Inl SCRIPT_ERR_INVALID_STACK_OPERATION
      else
        sbind (num_arg (fMinimal flags) (stk st ! 0) nDefaultMaxNumSize) (\<lambda>bn.
          let n = getint bn; s = tl (stk st)
          in if n < 0 \<or> int (length s) \<le> n then Inl SCRIPT_ERR_INVALID_STACK_OPERATION
             else
               let vch = s ! nat n;
                   s = (if opcode = OP_ROLL then take (nat n) s @ drop (nat n + 1) s else s)
               in Inr (st\<lparr>stk := vch # s\<rparr>)))"

definition stack_op_tail :: "byte \<Rightarrow> bytes list \<Rightarrow> bytes list option" where
  "stack_op_tail opcode s =
     (if opcode = OP_ROT then (case s of x3 # x2 # x1 # r \<Rightarrow> Some (x1 # x3 # x2 # r) | _ \<Rightarrow> None)
      else if opcode = OP_SWAP then (case s of x2 # x1 # r \<Rightarrow> Some (x1 # x2 # r) | _ \<Rightarrow> None)
      else if opcode = OP_TUCK then (case s of x2 # x1 # r \<Rightarrow> Some (x2 # x1 # x2 # r) | _ \<Rightarrow> None)
      else if opcode = OP_SIZE then (case s of x # r \<Rightarrow> Some (serialize (int (length x)) # x # r) | _ \<Rightarrow> None)
      else None)"

fun stack_op :: "byte \<Rightarrow> bytes list \<Rightarrow> bytes list option" where
  "stack_op opcode s =
     (if opcode = OP_2DROP then (case s of x2 # x1 # r \<Rightarrow> Some r | _ \<Rightarrow> None)
      else if opcode = OP_2DUP then (case s of x2 # x1 # r \<Rightarrow> Some (x2 # x1 # x2 # x1 # r) | _ \<Rightarrow> None)
      else if opcode = OP_3DUP then
        (case s of x3 # x2 # x1 # r \<Rightarrow> Some (x3 # x2 # x1 # x3 # x2 # x1 # r) | _ \<Rightarrow> None)
      else if opcode = OP_2OVER then
        (case s of x4 # x3 # x2 # x1 # r \<Rightarrow> Some (x2 # x1 # x4 # x3 # x2 # x1 # r) | _ \<Rightarrow> None)
      else if opcode = OP_2ROT then
        (case s of x6 # x5 # x4 # x3 # x2 # x1 # r \<Rightarrow> Some (x2 # x1 # x6 # x5 # x4 # x3 # r) | _ \<Rightarrow> None)
      else if opcode = OP_2SWAP then
        (case s of x4 # x3 # x2 # x1 # r \<Rightarrow> Some (x2 # x1 # x4 # x3 # r) | _ \<Rightarrow> None)
      else if opcode = OP_IFDUP then
        (case s of x # r \<Rightarrow> Some (if CastToBool x then x # x # r else x # r) | _ \<Rightarrow> None)
      else if opcode = OP_DEPTH then Some (serialize (int (length s)) # s)
      else if opcode = OP_DROP then (case s of x # r \<Rightarrow> Some r | _ \<Rightarrow> None)
      else if opcode = OP_DUP then (case s of x # r \<Rightarrow> Some (x # x # r) | _ \<Rightarrow> None)
      else if opcode = OP_NIP then (case s of x2 # x1 # r \<Rightarrow> Some (x2 # r) | _ \<Rightarrow> None)
      else if opcode = OP_OVER then (case s of x2 # x1 # r \<Rightarrow> Some (x1 # x2 # x1 # r) | _ \<Rightarrow> None)
      else stack_op_tail opcode s)"

declare stack_op.simps [simp del]

definition exec_stack :: "uint32 \<Rightarrow> byte \<Rightarrow> eval_state \<Rightarrow> step_result" where
  "exec_stack flags opcode st =
     (if opcode = OP_TOALTSTACK then
        (case stk st of
           [] \<Rightarrow> Inl SCRIPT_ERR_INVALID_STACK_OPERATION
         | x # s \<Rightarrow> Inr (st\<lparr>stk := s, alt := x # alt st\<rparr>))
      else if opcode = OP_FROMALTSTACK then
        (case alt st of
           [] \<Rightarrow> Inl SCRIPT_ERR_INVALID_ALTSTACK_OPERATION
         | x # a \<Rightarrow> Inr (st\<lparr>stk := x # stk st, alt := a\<rparr>))
      else if opcode = OP_PICK \<or> opcode = OP_ROLL then exec_pick_roll flags opcode st
      else (case stack_op opcode (stk st) of
              None \<Rightarrow> Inl SCRIPT_ERR_INVALID_STACK_OPERATION
            | Some s \<Rightarrow> Inr (st\<lparr>stk := s\<rparr>)))"

section \<open>Comparison and arithmetic\<close>

definition exec_equal :: "byte \<Rightarrow> eval_state \<Rightarrow> step_result" where
  "exec_equal opcode st =
     (case stk st of
        vch2 # vch1 # s \<Rightarrow>
          let fEqual = (vch1 = vch2)
          in if opcode = OP_EQUALVERIFY then
               (if fEqual then Inr (st\<lparr>stk := s\<rparr>) else Inl SCRIPT_ERR_EQUALVERIFY)
             else Inr (st\<lparr>stk := bool_vch fEqual # s\<rparr>)
      | _ \<Rightarrow> Inl SCRIPT_ERR_INVALID_STACK_OPERATION)"

definition unary_op :: "byte \<Rightarrow> int \<Rightarrow> int" where
  "unary_op opcode bn =
     (if opcode = OP_1ADD then bn + 1
      else if opcode = OP_1SUB then bn - 1
      else if opcode = OP_NEGATE then - bn
      else if opcode = OP_ABS then (if bn < 0 then - bn else bn)
      else if opcode = OP_NOT then (if bn = 0 then 1 else 0)
      else (if bn \<noteq> 0 then 1 else 0))"

definition exec_unary :: "uint32 \<Rightarrow> byte \<Rightarrow> eval_state \<Rightarrow> step_result" where
  "exec_unary flags opcode st =
     (case stk st of
        [] \<Rightarrow> Inl SCRIPT_ERR_INVALID_STACK_OPERATION
      | x # s \<Rightarrow>
          sbind (num_arg (fMinimal flags) x nDefaultMaxNumSize) (\<lambda>bn.
            Inr (st\<lparr>stk := serialize (unary_op opcode bn) # s\<rparr>)))"

definition binary_op :: "byte \<Rightarrow> int \<Rightarrow> int \<Rightarrow> int" where
  "binary_op opcode bn1 bn2 =
     (if opcode = OP_ADD then bn1 + bn2
      else if opcode = OP_SUB then bn1 - bn2
      else if opcode = OP_BOOLAND then of_bool (bn1 \<noteq> 0 \<and> bn2 \<noteq> 0)
      else if opcode = OP_BOOLOR then of_bool (bn1 \<noteq> 0 \<or> bn2 \<noteq> 0)
      else if opcode = OP_NUMEQUAL then of_bool (bn1 = bn2)
      else if opcode = OP_NUMEQUALVERIFY then of_bool (bn1 = bn2)
      else if opcode = OP_NUMNOTEQUAL then of_bool (bn1 \<noteq> bn2)
      else if opcode = OP_LESSTHAN then of_bool (bn1 < bn2)
      else if opcode = OP_GREATERTHAN then of_bool (bn2 < bn1)
      else if opcode = OP_LESSTHANOREQUAL then of_bool (bn1 \<le> bn2)
      else if opcode = OP_GREATERTHANOREQUAL then of_bool (bn2 \<le> bn1)
      else if opcode = OP_MIN then (if bn1 < bn2 then bn1 else bn2)
      else (if bn2 < bn1 then bn1 else bn2))"

definition exec_binary :: "uint32 \<Rightarrow> byte \<Rightarrow> eval_state \<Rightarrow> step_result" where
  "exec_binary flags opcode st =
     (case stk st of
        x2 # x1 # s \<Rightarrow>
          sbind (num_arg (fMinimal flags) x1 nDefaultMaxNumSize) (\<lambda>bn1.
          sbind (num_arg (fMinimal flags) x2 nDefaultMaxNumSize) (\<lambda>bn2.
            let r = serialize (binary_op opcode bn1 bn2)
            in if opcode = OP_NUMEQUALVERIFY then
                 (if CastToBool r then Inr (st\<lparr>stk := s\<rparr>) else Inl SCRIPT_ERR_NUMEQUALVERIFY)
               else Inr (st\<lparr>stk := r # s\<rparr>)))
      | _ \<Rightarrow> Inl SCRIPT_ERR_INVALID_STACK_OPERATION)"

definition exec_within :: "uint32 \<Rightarrow> eval_state \<Rightarrow> step_result" where
  "exec_within flags st =
     (case stk st of
        x3 # x2 # x1 # s \<Rightarrow>
          sbind (num_arg (fMinimal flags) x1 nDefaultMaxNumSize) (\<lambda>bn1.
          sbind (num_arg (fMinimal flags) x2 nDefaultMaxNumSize) (\<lambda>bn2.
          sbind (num_arg (fMinimal flags) x3 nDefaultMaxNumSize) (\<lambda>bn3.
            Inr (st\<lparr>stk := bool_vch (bn2 \<le> bn1 \<and> bn1 < bn3) # s\<rparr>))))
      | _ \<Rightarrow> Inl SCRIPT_ERR_INVALID_STACK_OPERATION)"

definition exec_hash :: "script_env \<Rightarrow> byte \<Rightarrow> eval_state \<Rightarrow> step_result" where
  "exec_hash E opcode st =
     (case stk st of
        [] \<Rightarrow> Inl SCRIPT_ERR_INVALID_STACK_OPERATION
      | x # s \<Rightarrow>
          let vchHash =
            (if opcode = OP_RIPEMD160 then RIPEMD160 E x
             else if opcode = OP_SHA1 then SHA1 E x
             else if opcode = OP_SHA256 then SHA256 E x
             else if opcode = OP_HASH160 then Hash160 E x
             else Hash256 E x)
          in Inr (st\<lparr>stk := vchHash # s\<rparr>))"

section \<open>Signatures\<close>

text \<open>Both encodings in the order they are checked.\<close>

definition check_encodings :: "script_env \<Rightarrow> uint32 \<Rightarrow> bytes \<Rightarrow> bytes \<Rightarrow> ScriptError option" where
  "check_encodings E flags vchSig vchPubKey =
     (case CheckSignatureEncoding E flags vchSig of
        Some e \<Rightarrow> Some e
      | None \<Rightarrow> CheckPubKeyEncoding flags vchPubKey)"

definition exec_checksig :: "script_env \<Rightarrow> uint32 \<Rightarrow> byte \<Rightarrow> eval_state \<Rightarrow> step_result" where
  "exec_checksig E flags opcode st =
     (case stk st of
        vchPubKey # vchSig # s \<Rightarrow>
          let scriptCode = fst (FindAndDelete (codehash st) (push_data [] vchSig))
          in (case check_encodings E flags vchSig vchPubKey of
                Some e \<Rightarrow> Inl e
              | None \<Rightarrow>
                  let fSuccess = CheckSig E vchSig vchPubKey scriptCode
                  in if opcode = OP_CHECKSIGVERIFY then
                       (if fSuccess then Inr (st\<lparr>stk := s\<rparr>) else Inl SCRIPT_ERR_CHECKSIGVERIFY)
                     else Inr (st\<lparr>stk := bool_vch fSuccess # s\<rparr>))
      | _ \<Rightarrow> Inl SCRIPT_ERR_INVALID_STACK_OPERATION)"

text \<open>
  The loop over signatures and keys: \<open>sigs\<close> and \<open>keys\<close> are the stack elements from
  \<open>stacktop(-isig)\<close> and \<open>stacktop(-ikey)\<close> down.
\<close>

fun multisig_loop ::
  "script_env \<Rightarrow> uint32 \<Rightarrow> bytes \<Rightarrow> bytes list \<Rightarrow> bytes list \<Rightarrow> ScriptError + bool" where
  "multisig_loop E flags scriptCode [] keys = Inr True"
| "multisig_loop E flags scriptCode (vchSig # sigs) [] = Inr False"
| "multisig_loop E flags scriptCode (vchSig # sigs) (vchPubKey # keys) =
     (case check_encodings E flags vchSig vchPubKey of
        Some e \<Rightarrow> Inl e
      | None \<Rightarrow>
          let left = (if CheckSig E vchSig vchPubKey scriptCode then sigs else vchSig # sigs)
          in if length keys < length left then Inr False
             else multisig_loop E flags scriptCode left keys)"

text \<open>
  After the counts: deleting the signatures from the script code, the loop, popping the
  arguments, the extra element.
\<close>

definition multisig_finish ::
  "script_env \<Rightarrow> uint32 \<Rightarrow> byte \<Rightarrow> nat \<Rightarrow> nat \<Rightarrow> eval_state \<Rightarrow> step_result" where
  "multisig_finish E flags opcode nKeysCount nSigsCount st =
     (let keys = take nKeysCount (drop 1 (stk st));
          sigs = take nSigsCount (drop (2 + nKeysCount) (stk st));
          scriptCode = fold (\<lambda>vchSig code. fst (FindAndDelete code (push_data [] vchSig))) sigs (codehash st);
          s = drop (2 + nKeysCount + nSigsCount) (stk st)
      in (case multisig_loop E flags scriptCode sigs keys of
            Inl e \<Rightarrow> Inl e
          | Inr fSuccess \<Rightarrow>
              if length s < 1 then Inl SCRIPT_ERR_INVALID_STACK_OPERATION
              else if flag_set flags SCRIPT_VERIFY_NULLDUMMY \<and> length (hd s) \<noteq> 0
                then Inl SCRIPT_ERR_SIG_NULLDUMMY
              else if opcode = OP_CHECKMULTISIGVERIFY then
                (if fSuccess then Inr (st\<lparr>stk := tl s\<rparr>) else Inl SCRIPT_ERR_CHECKMULTISIGVERIFY)
              else Inr (st\<lparr>stk := bool_vch fSuccess # tl s\<rparr>)))"

definition multisig_sigs ::
  "script_env \<Rightarrow> uint32 \<Rightarrow> byte \<Rightarrow> int \<Rightarrow> eval_state \<Rightarrow> step_result" where
  "multisig_sigs E flags opcode nKeysCount st =
     sbind (num_arg (fMinimal flags) (stk st ! (1 + nat nKeysCount)) nDefaultMaxNumSize) (\<lambda>bnSigs.
       if getint bnSigs < 0 \<or> nKeysCount < getint bnSigs then Inl SCRIPT_ERR_SIG_COUNT
       else if length (stk st) < 3 + nat nKeysCount + nat (getint bnSigs)
         then Inl SCRIPT_ERR_INVALID_STACK_OPERATION
       else multisig_finish E flags opcode (nat nKeysCount) (nat (getint bnSigs)) st)"

definition exec_multisig :: "script_env \<Rightarrow> uint32 \<Rightarrow> byte \<Rightarrow> eval_state \<Rightarrow> step_result" where
  "exec_multisig E flags opcode st =
     (if length (stk st) < 1 then Inl SCRIPT_ERR_INVALID_STACK_OPERATION
      else
        sbind (num_arg (fMinimal flags) (stk st ! 0) nDefaultMaxNumSize) (\<lambda>bnKeys.
          if getint bnKeys < 0 \<or> 20 < getint bnKeys then Inl SCRIPT_ERR_PUBKEY_COUNT
          else if 201 < nOpCount st + getint bnKeys then Inl SCRIPT_ERR_OP_COUNT
          else if length (stk st) < 2 + nat (getint bnKeys) then Inl SCRIPT_ERR_INVALID_STACK_OPERATION
          else multisig_sigs E flags opcode (getint bnKeys) (st\<lparr>nOpCount := nOpCount st + getint bnKeys\<rparr>)))"

section \<open>One instruction and the whole script\<close>

definition disabled_opcodes :: "byte list" where
  "disabled_opcodes =
     [OP_CAT, OP_SUBSTR, OP_LEFT, OP_RIGHT, OP_INVERT, OP_AND, OP_OR, OP_XOR, OP_2MUL, OP_2DIV,
      OP_MUL, OP_DIV, OP_MOD, OP_LSHIFT, OP_RSHIFT]"

text \<open>The \<open>switch\<close>; \<open>rest\<close> is the script after the instruction.\<close>

definition exec_op :: "script_env \<Rightarrow> uint32 \<Rightarrow> byte \<Rightarrow> bytes \<Rightarrow> bool \<Rightarrow> eval_state \<Rightarrow> step_result" where
  "exec_op E flags opcode rest fExec st =
     (if opcode = OP_1NEGATE \<or> (OP_1 \<le> opcode \<and> opcode \<le> OP_16) then
        Inr (st\<lparr>stk := serialize (uint opcode - (uint OP_1 - 1)) # stk st\<rparr>)
      else if OP_NOP \<le> opcode \<and> opcode \<le> OP_RETURN \<or> OP_NOP1 \<le> opcode \<and> opcode \<le> OP_NOP10 then
        exec_control E flags opcode fExec st
      else if OP_TOALTSTACK \<le> opcode \<and> opcode \<le> OP_TUCK \<or> opcode = OP_SIZE then exec_stack flags opcode st
      else if opcode = OP_EQUAL \<or> opcode = OP_EQUALVERIFY then exec_equal opcode st
      else if opcode \<in> {OP_1ADD, OP_1SUB, OP_NEGATE, OP_ABS, OP_NOT, OP_0NOTEQUAL} then exec_unary flags opcode st
      else if opcode = OP_ADD \<or> opcode = OP_SUB \<or> (OP_BOOLAND \<le> opcode \<and> opcode \<le> OP_MAX) then
        exec_binary flags opcode st
      else if opcode = OP_WITHIN then exec_within flags st
      else if OP_RIPEMD160 \<le> opcode \<and> opcode \<le> OP_HASH256 then exec_hash E opcode st
      else if opcode = OP_CODESEPARATOR then Inr (st\<lparr>codehash := rest\<rparr>)
      else if opcode = OP_CHECKSIG \<or> opcode = OP_CHECKSIGVERIFY then exec_checksig E flags opcode st
      else if opcode = OP_CHECKMULTISIG \<or> opcode = OP_CHECKMULTISIGVERIFY then exec_multisig E flags opcode st
      else Inl SCRIPT_ERR_BAD_OPCODE)"

text \<open>The body of the \<open>while\<close> after \<open>GetOp\<close>, with the limits before and after.\<close>

definition eval_step :: "script_env \<Rightarrow> uint32 \<Rightarrow> byte \<Rightarrow> bytes \<Rightarrow> bytes \<Rightarrow> eval_state \<Rightarrow> step_result" where
  "eval_step E flags opcode vchPushValue rest st =
     (let fExec = list_all id (vfExec st)
      in if 520 < length vchPushValue then Inl SCRIPT_ERR_PUSH_SIZE
         else
           let st = (if OP_16 < opcode then st\<lparr>nOpCount := nOpCount st + 1\<rparr> else st)
           in if OP_16 < opcode \<and> 201 < nOpCount st then Inl SCRIPT_ERR_OP_COUNT
              else if opcode \<in> set disabled_opcodes then Inl SCRIPT_ERR_DISABLED_OPCODE
              else
                sbind
                  (if fExec \<and> opcode \<le> OP_PUSHDATA4 then
                     (if fMinimal flags \<and> \<not> CheckMinimalPush vchPushValue opcode
                      then Inl SCRIPT_ERR_MINIMALDATA
                      else Inr (st\<lparr>stk := vchPushValue # stk st\<rparr>))
                   else if fExec \<or> (OP_IF \<le> opcode \<and> opcode \<le> OP_ENDIF)
                   then exec_op E flags opcode rest fExec st
                   else Inr st)
                  (\<lambda>st. if 1000 < length (stk st) + length (alt st) then Inl SCRIPT_ERR_STACK_SIZE
                        else Inr st))"

function eval_loop :: "script_env \<Rightarrow> uint32 \<Rightarrow> bytes \<Rightarrow> eval_state \<Rightarrow> step_result" where
  "eval_loop E flags pc st =
     (if pc = [] then Inr st
      else case GetOp2 pc of
        (ok, opcode, vchPushValue, rest) \<Rightarrow>
          if \<not> ok then Inl SCRIPT_ERR_BAD_OPCODE
          else sbind (eval_step E flags opcode vchPushValue rest st) (eval_loop E flags rest))"
  by pat_completeness auto
termination
  by (relation "measure (\<lambda>(E, flags, pc, st). length pc)") (auto dest: GetOp2_length [OF sym])

declare eval_loop.simps [simp del]

text \<open>\<open>EvalScript\<close> returns the error or the resulting stack.\<close>

definition EvalScript :: "script_env \<Rightarrow> uint32 \<Rightarrow> bytes list \<Rightarrow> bytes \<Rightarrow> ScriptError + bytes list" where
  "EvalScript E flags stack script =
     (if 10000 < length script then Inl SCRIPT_ERR_SCRIPT_SIZE
      else
        sbind (eval_loop E flags script
                 \<lparr>stk = stack, alt = [], vfExec = [], codehash = script, nOpCount = 0\<rparr>)
          (\<lambda>st. if vfExec st \<noteq> [] then Inl SCRIPT_ERR_UNBALANCED_CONDITIONAL else Inr (stk st)))"

text \<open>\<open>None\<close> is the failed \<open>assert(!stackCopy.empty())\<close>.\<close>

definition top_true :: "bytes list \<Rightarrow> bool" where
  "top_true s \<longleftrightarrow> s \<noteq> [] \<and> CastToBool (hd s)"

definition VerifyScript :: "script_env \<Rightarrow> uint32 \<Rightarrow> bytes \<Rightarrow> bytes \<Rightarrow> (ScriptError + unit) option" where
  "VerifyScript E flags scriptSig scriptPubKey =
     (if flag_set flags SCRIPT_VERIFY_SIGPUSHONLY \<and> \<not> IsPushOnly scriptSig
      then Some (Inl SCRIPT_ERR_SIG_PUSHONLY)
      else case EvalScript E flags [] scriptSig of
        Inl e \<Rightarrow> Some (Inl e)
      | Inr stack \<Rightarrow>
          (case EvalScript E flags stack scriptPubKey of
             Inl e \<Rightarrow> Some (Inl e)
           | Inr stack2 \<Rightarrow>
               if \<not> top_true stack2 then Some (Inl SCRIPT_ERR_EVAL_FALSE)
               else if flag_set flags SCRIPT_VERIFY_P2SH \<and> IsPayToScriptHash scriptPubKey then
                 (if \<not> IsPushOnly scriptSig then Some (Inl SCRIPT_ERR_SIG_PUSHONLY)
                  else case stack of
                    [] \<Rightarrow> None
                  | pubKeySerialized # stackCopy \<Rightarrow>
                      (case EvalScript E flags stackCopy pubKeySerialized of
                         Inl e \<Rightarrow> Some (Inl e)
                       | Inr stack3 \<Rightarrow>
                           if \<not> top_true stack3 then Some (Inl SCRIPT_ERR_EVAL_FALSE)
                           else Some (Inr ())))
               else Some (Inr ())))"

end
