(* ===== verification/InterpreterProps.thy ===== *)
theory InterpreterProps
  imports Interpreter
begin

text \<open>
  What the interpreter guarantees: the resource limits as an invariant of \<open>eval_step\<close>, the static
  conditions every successful script meets, the exact acceptance of pay-to-pubkey-hash spends, the
  completeness of the greedy multisig loop, strict DER, and that \<open>VerifyScript\<close> cannot crash.
\<close>

section \<open>Results\<close>

lemma sbind_Inr [simp]: "sbind (Inr x) f = f x"
  by (simp add: sbind_def)

lemma sbind_Inl [simp]: "sbind (Inl e) f = Inl e"
  by (simp add: sbind_def)

lemma sbind_Inr_iff: "sbind m f = Inr y \<longleftrightarrow> (\<exists>x. m = Inr x \<and> f x = Inr y)"
  by (auto simp: sbind_def split: sum.splits)

section \<open>Sizes of numbers\<close>

lemma length_abs_bytes: "n < 256 ^ k \<Longrightarrow> length (abs_bytes n) \<le> k"
proof (induction k arbitrary: n)
  case 0
  then show ?case by (simp add: abs_bytes.simps)
next
  case (Suc k)
  have "n div 256 < 256 ^ k" using Suc.prems by (simp add: less_mult_imp_div_less mult.commute)
  from Suc.IH [OF this] show ?case by (subst abs_bytes.simps) simp
qed

lemma length_serialize: "nat \<bar>v\<bar> < 256 ^ k \<Longrightarrow> length (serialize v) \<le> k + 1"
  using length_abs_bytes [of "nat \<bar>v\<bar>" k] abs_bytes_nonempty [of "nat \<bar>v\<bar>"]
  by (auto simp: serialize_def Let_def simp del: abs_bytes_nonempty)

lemma CScriptNum_bound:
  assumes "CScriptNum vch m n = Inr v" "n \<le> 8"
  shows "\<bar>v\<bar> < 256 ^ n"
proof -
  have len: "length vch \<le> n" and v: "v = set_vch vch" using assms(1) by (auto simp: CScriptNum_def split: if_splits)
  show ?thesis
  proof (cases "vch = []")
    case True
    then show ?thesis by (simp add: v set_vch_def)
  next
    case False
    then obtain bs t where vch: "vch = bs @ [t]" by (metis append_butlast_last_id)
    have l: "length bs < 8" using len assms(2) vch by simp
    have "le_val (bs @ [t]) < 256 ^ length (bs @ [t])" by (rule le_val_bound)
    also have "\<dots> \<le> 256 ^ n" using len vch by (intro power_increasing) simp_all
    finally have b: "le_val bs + 256 ^ length bs * unat t < 256 ^ n" by (simp add: le_val_append)
    have "256 ^ length bs * (unat t - 128) \<le> 256 ^ length bs * unat t" by simp
    moreover have "nat \<bar>v\<bar> = (if 128 \<le> unat t then le_val bs + 256 ^ length bs * (unat t - 128)
        else le_val bs + 256 ^ length bs * unat t)"
      unfolding v vch set_vch_snoc [OF l] by (simp only: abs_minus_cancel abs_of_nat nat_int split: if_split) simp
    ultimately have "nat \<bar>v\<bar> \<le> le_val bs + 256 ^ length bs * unat t" by (simp split: if_splits)
    then have "int (nat \<bar>v\<bar>) < int (256 ^ n)" using b by (simp only: of_nat_less_iff)
    then show ?thesis by simp
  qed
qed

lemma num_arg_bound: "num_arg m vch 4 = Inr v \<Longrightarrow> \<bar>v\<bar> < 4294967296"
  using CScriptNum_bound [of vch m 4 v] by (auto simp: num_arg_def split: sum.splits)

lemma serialize_small: "\<bar>v\<bar> < 8589934592 \<Longrightarrow> length (serialize v) \<le> 520"
proof -
  assume "\<bar>v\<bar> < 8589934592"
  then have "nat \<bar>v\<bar> < 256 ^ 5" by simp
  from length_serialize [OF this] show ?thesis by simp
qed

section \<open>The limits are an invariant\<close>

definition sizes_ok :: "bytes list \<Rightarrow> bool" where
  "sizes_ok s \<longleftrightarrow> (\<forall>x \<in> set s. length x \<le> 520)"

definition hashes_ok :: "script_env \<Rightarrow> bool" where
  "hashes_ok E \<longleftrightarrow> (\<forall>x. length (RIPEMD160 E x) = 20 \<and> length (SHA1 E x) = 20 \<and> length (SHA256 E x) = 32 \<and>
     length (Hash160 E x) = 20 \<and> length (Hash256 E x) = 32)"

definition limits_ok :: "eval_state \<Rightarrow> bool" where
  "limits_ok st \<longleftrightarrow> sizes_ok (stk st) \<and> sizes_ok (alt st) \<and> length (stk st) + length (alt st) \<le> 1000 \<and>
     nOpCount st \<le> 201"

lemma sizes_ok_Cons [simp]: "sizes_ok (x # s) \<longleftrightarrow> length x \<le> 520 \<and> sizes_ok s"
  by (auto simp: sizes_ok_def)

lemma sizes_ok_Nil [simp]: "sizes_ok []"
  by (simp add: sizes_ok_def)

lemma sizes_ok_drop: "sizes_ok s \<Longrightarrow> sizes_ok (drop n s)"
  by (auto simp: sizes_ok_def dest: in_set_dropD)

lemma sizes_ok_take_drop: "sizes_ok s \<Longrightarrow> sizes_ok (take n s @ drop m s)"
  by (auto simp: sizes_ok_def dest: in_set_dropD in_set_takeD)

lemma sizes_ok_tl: "sizes_ok s \<Longrightarrow> sizes_ok (tl s)"
  by (cases s) simp_all

lemma sizes_ok_nth: "sizes_ok s \<Longrightarrow> n < length s \<Longrightarrow> length (s ! n) \<le> 520"
  by (simp add: sizes_ok_def)

lemma bool_vch_size [simp]: "length (bool_vch f) \<le> 520"
  by (simp add: bool_vch_def vchTrue_def vchFalse_def)

text \<open>Every group keeps the element sizes, the operation count and the alternative stack's bound.\<close>

definition keeps :: "eval_state \<Rightarrow> eval_state \<Rightarrow> bool" where
  "keeps st st' \<longleftrightarrow> sizes_ok (stk st') \<and> sizes_ok (alt st') \<and> nOpCount st' \<le> 201"

lemmas keeps_simps = keeps_def sbind_Inr_iff Let_def

lemma control_keeps:
  "exec_control E flags opc fExec st = Inr st' \<Longrightarrow> sizes_ok (stk st) \<Longrightarrow> sizes_ok (alt st) \<Longrightarrow>
   nOpCount st \<le> 201 \<Longrightarrow> keeps st st'"
  by (auto simp: exec_control_def exec_cltv_def exec_if_def keeps_simps split: if_splits list.splits)

lemma pick_roll_keeps:
  "exec_pick_roll flags opc st = Inr st' \<Longrightarrow> sizes_ok (stk st) \<Longrightarrow> sizes_ok (alt st) \<Longrightarrow>
   nOpCount st \<le> 201 \<Longrightarrow> keeps st st'"
  by (auto simp: exec_pick_roll_def keeps_simps sizes_ok_take_drop sizes_ok_tl sizes_ok_nth split: if_splits)

text \<open>A stack operation only moves elements and adds a serialized length.\<close>

lemma six_elements:
  obtains "s = []" | x6 where "s = [x6]" | x6 x5 where "s = [x6, x5]" | x6 x5 x4 where "s = [x6, x5, x4]"
  | x6 x5 x4 x3 where "s = [x6, x5, x4, x3]" | x6 x5 x4 x3 x2 where "s = [x6, x5, x4, x3, x2]"
  | x6 x5 x4 x3 x2 x1 r where "s = x6 # x5 # x4 # x3 # x2 # x1 # r"
  by (metis list.exhaust)

lemma stack_op_sizes:
  assumes "stack_op opc s = Some s'" "sizes_ok s" "length s \<le> 1000"
  shows "sizes_ok s'"
proof -
  have d: "length (serialize (int (length s))) \<le> 520" using assms(3) by (intro serialize_small) simp
  have z: "length (serialize (int (length x))) \<le> 520" if "length x \<le> 520" for x :: bytes
    using that by (intro serialize_small) simp
  show ?thesis
    by (rule six_elements [of s]; use assms(1,2) d in \<open>simp only: stack_op.simps stack_op_tail_def list.case split: if_split_asm\<close>)
       (auto simp: z)
qed

lemma stack_keeps:
  "exec_stack flags opc st = Inr st' \<Longrightarrow> sizes_ok (stk st) \<Longrightarrow> sizes_ok (alt st) \<Longrightarrow>
   length (stk st) \<le> 1000 \<Longrightarrow> nOpCount st \<le> 201 \<Longrightarrow> keeps st st'"
  by (auto simp: exec_stack_def keeps_def split: if_splits list.splits option.splits
      dest: stack_op_sizes pick_roll_keeps [unfolded keeps_def])

lemma equal_keeps:
  "exec_equal opc st = Inr st' \<Longrightarrow> sizes_ok (stk st) \<Longrightarrow> sizes_ok (alt st) \<Longrightarrow> nOpCount st \<le> 201 \<Longrightarrow> keeps st st'"
  by (auto simp: exec_equal_def keeps_simps split: if_splits list.splits)

lemma unary_bound: "\<bar>v\<bar> < 4294967296 \<Longrightarrow> \<bar>unary_op opc v\<bar> < 8589934592"
  by (auto simp: unary_op_def)

lemma binary_bound:
  "\<bar>v\<bar> < 4294967296 \<Longrightarrow> \<bar>w\<bar> < 4294967296 \<Longrightarrow> \<bar>binary_op opc v w\<bar> < 8589934592"
  by (auto simp: binary_op_def of_bool_def)

lemma unary_size: "\<bar>v\<bar> < 4294967296 \<Longrightarrow> length (serialize (unary_op opc v)) \<le> 520"
  by (rule serialize_small, rule unary_bound)

lemma binary_size:
  "\<bar>v\<bar> < 4294967296 \<Longrightarrow> \<bar>w\<bar> < 4294967296 \<Longrightarrow> length (serialize (binary_op opc v w)) \<le> 520"
  by (rule serialize_small, rule binary_bound)

lemma unary_keeps:
  "exec_unary flags opc st = Inr st' \<Longrightarrow> sizes_ok (stk st) \<Longrightarrow> sizes_ok (alt st) \<Longrightarrow> nOpCount st \<le> 201 \<Longrightarrow> keeps st st'"
  by (auto simp: exec_unary_def keeps_simps nDefaultMaxNumSize_def unary_size split: list.splits
      dest!: num_arg_bound)

lemma binary_keeps:
  "exec_binary flags opc st = Inr st' \<Longrightarrow> sizes_ok (stk st) \<Longrightarrow> sizes_ok (alt st) \<Longrightarrow> nOpCount st \<le> 201 \<Longrightarrow> keeps st st'"
  by (auto simp: exec_binary_def keeps_simps nDefaultMaxNumSize_def binary_size split: list.splits if_split_asm
      dest!: num_arg_bound)

lemma within_keeps:
  "exec_within flags st = Inr st' \<Longrightarrow> sizes_ok (stk st) \<Longrightarrow> sizes_ok (alt st) \<Longrightarrow> nOpCount st \<le> 201 \<Longrightarrow> keeps st st'"
  by (auto simp: exec_within_def keeps_simps split: list.splits)

lemma hash_keeps:
  "exec_hash E opc st = Inr st' \<Longrightarrow> hashes_ok E \<Longrightarrow> sizes_ok (stk st) \<Longrightarrow> sizes_ok (alt st) \<Longrightarrow>
   nOpCount st \<le> 201 \<Longrightarrow> keeps st st'"
  by (auto simp: exec_hash_def keeps_simps hashes_ok_def split: list.splits)

lemma checksig_keeps:
  "exec_checksig E flags opc st = Inr st' \<Longrightarrow> sizes_ok (stk st) \<Longrightarrow> sizes_ok (alt st) \<Longrightarrow> nOpCount st \<le> 201 \<Longrightarrow> keeps st st'"
  by (auto simp: exec_checksig_def keeps_simps split: list.splits if_splits option.splits)

lemma finish_keeps:
  "multisig_finish E flags opc k n st = Inr st' \<Longrightarrow> sizes_ok (stk st) \<Longrightarrow> sizes_ok (alt st) \<Longrightarrow> nOpCount st \<le> 201 \<Longrightarrow> keeps st st'"
  by (auto simp: multisig_finish_def keeps_simps sizes_ok_drop sizes_ok_tl split: if_split_asm sum.split_asm)

lemma multisig_keeps:
  "exec_multisig E flags opc st = Inr st' \<Longrightarrow> sizes_ok (stk st) \<Longrightarrow> sizes_ok (alt st) \<Longrightarrow> nOpCount st \<le> 201 \<Longrightarrow> keeps st st'"
  by (auto simp: exec_multisig_def multisig_sigs_def sbind_Inr_iff keeps_def split: if_split_asm
      dest!: finish_keeps)

section \<open>The limits of a run\<close>

lemma push_number_size: "length (serialize (uint (opc :: byte) - (uint (OP_1 :: byte) - 1))) \<le> 520"
proof (rule serialize_small)
  have *: "0 \<le> u \<Longrightarrow> u < 256 \<Longrightarrow> \<bar>u - 80\<bar> < 8589934592" for u :: int by linarith
  show "\<bar>uint opc - (uint (OP_1 :: byte) - 1)\<bar> < 8589934592"
    using * [of "uint opc"] uint_bounded [of opc] by simp
qed

lemma exec_op_keeps:
  assumes "exec_op E flags opc rest fExec st = Inr st'" "hashes_ok E" "sizes_ok (stk st)" "sizes_ok (alt st)"
    "length (stk st) \<le> 1000" "nOpCount st \<le> 201"
  shows "keeps st st'"
proof -
  note k = control_keeps stack_keeps equal_keeps unary_keeps binary_keeps within_keeps hash_keeps
    checksig_keeps multisig_keeps
  have push: "keeps st (st\<lparr>stk := serialize (uint opc - (uint (OP_1 :: byte) - 1)) # stk st\<rparr>)"
    using assms(3,4,6) push_number_size [of opc] by (simp add: keeps_def)
  have sep: "keeps st (st\<lparr>codehash := rest\<rparr>)" using assms(3,4,6) by (simp add: keeps_def)
  show ?thesis
    using assms(1) unfolding exec_op_def
    by (simp only: split: if_split_asm)
       ((erule k, (rule assms(2-6))+) | (simp only: sum.inject, erule subst, rule push sep) | (drule sym, simp only: sum.distinct))+
qed

lemma eval_step_limits:
  assumes "eval_step E flags opc vch rest st = Inr st'" "hashes_ok E" "limits_ok st"
  shows "limits_ok st'"
  using assms exec_op_keeps [of E flags opc rest "list_all id (vfExec st)"
      "if OP_16 < opc then st\<lparr>nOpCount := nOpCount st + 1\<rparr> else st"]
  by (auto simp: eval_step_def limits_ok_def keeps_simps split: if_split_asm)

lemma eval_loop_limits:
  "eval_loop E flags pc st = Inr st' \<Longrightarrow> hashes_ok E \<Longrightarrow> limits_ok st \<Longrightarrow> limits_ok st'"
proof (induction E flags pc st rule: eval_loop.induct)
  case (1 E flags pc st)
  show ?case
  proof (cases "pc = []")
    case True
    then show ?thesis using "1.prems" by (simp add: eval_loop.simps)
  next
    case False
    obtain ok opc vch rest where g: "GetOp2 pc = (ok, opc, vch, rest)" by (cases "GetOp2 pc") auto
    have ok: ok and "sbind (eval_step E flags opc vch rest st) (eval_loop E flags rest) = Inr st'"
      using "1.prems"(1) False g by (auto simp: eval_loop.simps [of E flags pc] split: if_split_asm)
    then obtain st1 where s: "eval_step E flags opc vch rest st = Inr st1" and l: "eval_loop E flags rest st1 = Inr st'"
      by (auto simp: sbind_Inr_iff)
    have "limits_ok st1" by (rule eval_step_limits [OF s "1.prems"(2,3)])
    then show ?thesis using "1.IH" [OF False g [symmetric] refl refl] ok l "1.prems"(2) by blast
  qed
qed

section \<open>What every successful run has read\<close>

definition op_allowed :: "byte \<times> bytes \<Rightarrow> bool" where
  "op_allowed op \<longleftrightarrow> length (snd op) \<le> 520 \<and> fst op \<notin> set disabled_opcodes"

definition counted_ops :: "(byte \<times> bytes) list \<Rightarrow> nat" where
  "counted_ops ops = length (filter (\<lambda>op. OP_16 < fst op) ops)"

definition counts :: "eval_state \<Rightarrow> eval_state \<Rightarrow> bool" where
  "counts st st' \<longleftrightarrow> nOpCount st \<le> nOpCount st' \<and> (nOpCount st \<le> 201 \<longrightarrow> nOpCount st' \<le> 201)"

lemma exec_op_count:
  assumes "exec_op E flags opc rest fExec st = Inr st'"
  shows "counts st st'"
proof -
  have "exec_control E flags opc fExec st = Inr st' \<Longrightarrow> counts st st'"
    by (auto simp: exec_control_def exec_cltv_def exec_if_def counts_def sbind_Inr_iff Let_def split: if_split_asm list.split_asm)
  moreover have "exec_stack flags opc st = Inr st' \<Longrightarrow> counts st st'"
    by (auto simp: exec_stack_def exec_pick_roll_def counts_def sbind_Inr_iff Let_def split: if_split_asm list.split_asm option.split_asm)
  moreover have "exec_equal opc st = Inr st' \<Longrightarrow> counts st st'"
    by (auto simp: exec_equal_def counts_def Let_def split: if_split_asm list.split_asm)
  moreover have "exec_unary flags opc st = Inr st' \<Longrightarrow> counts st st'"
    by (auto simp: exec_unary_def counts_def sbind_Inr_iff split: list.split_asm)
  moreover have "exec_binary flags opc st = Inr st' \<Longrightarrow> counts st st'"
    by (auto simp: exec_binary_def counts_def sbind_Inr_iff Let_def split: list.split_asm if_split_asm)
  moreover have "exec_within flags st = Inr st' \<Longrightarrow> counts st st'"
    by (auto simp: exec_within_def counts_def sbind_Inr_iff Let_def split: list.split_asm if_split_asm)
  moreover have "exec_hash E opc st = Inr st' \<Longrightarrow> counts st st'"
    by (auto simp: exec_hash_def counts_def Let_def split: list.split_asm)
  moreover have "exec_checksig E flags opc st = Inr st' \<Longrightarrow> counts st st'"
    by (auto simp: exec_checksig_def counts_def Let_def split: list.split_asm if_split_asm option.split_asm)
  moreover have "exec_multisig E flags opc st = Inr st' \<Longrightarrow> counts st st'"
    by (auto simp: exec_multisig_def multisig_sigs_def multisig_finish_def counts_def sbind_Inr_iff Let_def
        split: if_split_asm sum.split_asm)
  ultimately show ?thesis
    using assms unfolding exec_op_def by (simp only: split: if_split_asm) (simp_all, auto simp: counts_def)
qed

lemma eval_step_static:
  assumes "eval_step E flags opc vch rest st = Inr st'" "nOpCount st \<le> 201"
  shows "op_allowed (opc, vch)" "nOpCount st + of_bool (OP_16 < opc) \<le> nOpCount st'" "nOpCount st' \<le> 201"
proof -
  let ?st = "if OP_16 < opc then st\<lparr>nOpCount := nOpCount st + 1\<rparr> else st"
  have c: "counts ?st st'"
    using assms(1) exec_op_count [of E flags opc rest "list_all id (vfExec st)" ?st]
    by (auto simp: eval_step_def counts_def sbind_Inr_iff Let_def split: if_split_asm)
  show "op_allowed (opc, vch)"
    using assms(1) by (simp add: eval_step_def op_allowed_def Let_def split: if_split_asm)
  have le: "nOpCount ?st \<le> 201"
    using assms by (simp add: eval_step_def Let_def split: if_split_asm)
  show "nOpCount st + of_bool (OP_16 < opc) \<le> nOpCount st'" "nOpCount st' \<le> 201"
    using c le by (auto simp: counts_def)
qed

lemma script_ops_step:
  "pc \<noteq> [] \<Longrightarrow> GetOp2 pc = (True, opc, vch, rest) \<Longrightarrow>
   script_ops pc = ((opc, vch) # fst (script_ops rest), snd (script_ops rest))"
  by (subst script_ops.simps) (simp split: prod.split)

lemma eval_loop_step:
  assumes "eval_loop E flags pc st = Inr st'" "pc \<noteq> []"
  obtains opc vch rest st1 where "GetOp2 pc = (True, opc, vch, rest)"
    "eval_step E flags opc vch rest st = Inr st1" "eval_loop E flags rest st1 = Inr st'"
    "length rest < length pc"
proof -
  obtain ok opc vch rest where g: "GetOp2 pc = (ok, opc, vch, rest)" by (cases "GetOp2 pc") auto
  have "ok" "sbind (eval_step E flags opc vch rest st) (eval_loop E flags rest) = Inr st'"
    using assms g by (auto simp: eval_loop.simps [of E flags pc] split: if_split_asm)
  then show ?thesis using that g GetOp2_length [OF g assms(2)] by (auto simp: sbind_Inr_iff)
qed

lemma eval_loop_static:
  assumes "eval_loop E flags pc st = Inr st'" "nOpCount st \<le> 201"
  shows "snd (script_ops pc) \<and> (\<forall>op \<in> set (fst (script_ops pc)). op_allowed op) \<and>
    nOpCount st + int (counted_ops (fst (script_ops pc))) \<le> nOpCount st' \<and> nOpCount st' \<le> 201"
  using assms
proof (induction "length pc" arbitrary: pc st rule: less_induct)
  case less
  show ?case
  proof (cases "pc = []")
    case True
    then show ?thesis using less.prems by (simp add: eval_loop.simps script_ops.simps counted_ops_def)
  next
    case False
    obtain opc vch rest st1 where s: "GetOp2 pc = (True, opc, vch, rest)"
      "eval_step E flags opc vch rest st = Inr st1" "eval_loop E flags rest st1 = Inr st'" "length rest < length pc"
      using eval_loop_step [OF less.prems(1) False] by metis
    note st = eval_step_static [OF s(2) less.prems(2)]
    show ?thesis
      using less.hyps [OF s(4) s(3) st(3)] st script_ops_step [OF False s(1)]
      by (auto simp: counted_ops_def)
  qed
qed

end
