(* ===== verification/Standard.thy ===== *)
theory Standard
  imports ScriptNum "HOL-Library.Monad_Syntax"
begin

text \<open>
  \<open>src/src/script/standard.cpp\<close>: recognising the standard output scripts, the destinations they
  pay to, and building them. \<open>Hash160\<close> is a parameter. The outer \<open>None\<close> of an option
  result is undefined behaviour or a failed \<open>assert\<close>.
\<close>

datatype txnouttype =
    TX_NONSTANDARD
  | TX_PUBKEY
  | TX_PUBKEYHASH
  | TX_SCRIPTHASH
  | TX_MULTISIG
  | TX_NULL_DATA
  | TX_ZEROCOINMINT

datatype CTxDestination =
    CNoDestination
  | CKeyID bytes
  | CScriptID bytes

fun GetTxnOutputType :: "txnouttype \<Rightarrow> string" where
  "GetTxnOutputType TX_NONSTANDARD = ''nonstandard''"
| "GetTxnOutputType TX_PUBKEY = ''pubkey''"
| "GetTxnOutputType TX_PUBKEYHASH = ''pubkeyhash''"
| "GetTxnOutputType TX_SCRIPTHASH = ''scripthash''"
| "GetTxnOutputType TX_MULTISIG = ''multisig''"
| "GetTxnOutputType TX_NULL_DATA = ''nulldata''"
| "GetTxnOutputType TX_ZEROCOINMINT = ''zerocoinmint''"

section \<open>Public keys\<close>

definition GetLen :: "byte \<Rightarrow> nat" where
  "GetLen chHeader =
     (if chHeader = 2 \<or> chHeader = 3 then 33
      else if chHeader = 4 \<or> chHeader = 6 \<or> chHeader = 7 then 65
      else 0)"

text \<open>A public key object: its bytes, empty when invalid.\<close>

definition CPubKey_Set :: "bytes \<Rightarrow> bytes" where
  "CPubKey_Set vch =
     (let len = (if vch = [] then 0 else GetLen (hd vch))
      in if len \<noteq> 0 \<and> len = length vch then vch else [])"

section \<open>The solver\<close>

text \<open>The templates in the order of the multimap, which is that of \<open>txnouttype\<close>.\<close>

definition mTemplates :: "(txnouttype \<times> bytes) list" where
  "mTemplates =
     [(TX_PUBKEY, [OP_PUBKEY, OP_CHECKSIG]),
      (TX_PUBKEYHASH, [OP_DUP, OP_HASH160, OP_PUBKEYHASH, OP_EQUALVERIFY, OP_CHECKSIG]),
      (TX_MULTISIG, [OP_SMALLINTEGER, OP_PUBKEYS, OP_SMALLINTEGER, OP_CHECKMULTISIG])]"

text \<open>The inner loop that collects public keys; a read that fails leaves it with an empty \<open>vch1\<close>.\<close>

function pubkeys_loop :: "byte \<Rightarrow> bytes \<Rightarrow> bytes \<Rightarrow> bytes list \<Rightarrow> byte \<times> bytes \<times> bytes \<times> bytes list" where
  "pubkeys_loop opcode1 vch1 pc1 vSolutions =
     (if 33 \<le> length vch1 \<and> length vch1 \<le> 65 then
        (case GetOp2 pc1 of
           (ok, opcode1, vch1', pc1') \<Rightarrow>
             if ok then pubkeys_loop opcode1 vch1' pc1' (vSolutions @ [vch1])
             else (opcode1, vch1', pc1', vSolutions @ [vch1]))
      else (opcode1, vch1, pc1, vSolutions))"
  by pat_completeness auto
termination
  by (relation "measure (\<lambda>(op1, vch1, pc1, s). length pc1)")
    (auto dest: GetOp2_length [OF sym] GetOp2_ok_nonempty [OF sym])

declare pubkeys_loop.simps [simp del]

text \<open>Comparing one operation with one template operation: the solutions it adds, or no match.\<close>

definition match_op :: "byte \<Rightarrow> bytes \<Rightarrow> byte \<Rightarrow> bytes \<Rightarrow> bytes list option" where
  "match_op opcode1 vch1 opcode2 vch2 =
     (if opcode2 = OP_PUBKEY then
        (if length vch1 < 33 \<or> 65 < length vch1 then None else Some [vch1])
      else if opcode2 = OP_PUBKEYHASH then
        (if length vch1 \<noteq> 20 then None else Some [vch1])
      else if opcode2 = OP_SMALLINTEGER then
        (if opcode1 = OP_0 \<or> (OP_1 \<le> opcode1 \<and> opcode1 \<le> OP_16)
         then map_option (\<lambda>n. [[of_int n]]) (DecodeOP_N opcode1)
         else None)
      else if opcode1 \<noteq> opcode2 \<or> vch1 \<noteq> vch2 then None
      else Some [])"

lemma GetOp2_less: "(True, opcode, vch, pc') = GetOp2 pc \<Longrightarrow> length pc' < length pc"
  using GetOp2_length [of pc True opcode vch pc'] GetOp2_ok_nonempty [of pc opcode vch pc'] by simp

function match_template :: "bytes \<Rightarrow> bytes \<Rightarrow> bytes list \<Rightarrow> bytes list option" where
  "match_template pc1 pc2 vSolutions =
     (if pc1 = [] \<and> pc2 = [] then Some vSolutions
      else case GetOp2 pc1 of
        (ok1, opcode1, vch1, pc1') \<Rightarrow>
          if \<not> ok1 then None
          else case GetOp2 pc2 of
            (ok2, opcode2, vch2, pc2') \<Rightarrow>
              if \<not> ok2 then None
              else if opcode2 = OP_PUBKEYS then
                (case pubkeys_loop opcode1 vch1 pc1' vSolutions of
                   (opcode1, vch1, pc1'', vSolutions) \<Rightarrow>
                     (case GetOp2 pc2' of
                        (ok3, opcode2, vch2, pc2'') \<Rightarrow>
                          if \<not> ok3 then None
                          else case match_op opcode1 vch1 opcode2 vch2 of
                            None \<Rightarrow> None
                          | Some s \<Rightarrow> match_template pc1'' pc2'' (vSolutions @ s)))
              else case match_op opcode1 vch1 opcode2 vch2 of
                     None \<Rightarrow> None
                   | Some s \<Rightarrow> match_template pc1' pc2' (vSolutions @ s))"
  by pat_completeness auto
termination
  by (relation "measure (\<lambda>(pc1, pc2, s). length pc2)") (auto dest!: GetOp2_less)

declare match_template.simps [simp del]

text \<open>The scan; a multisig that matches with impossible counts ends it.\<close>

fun scan_templates :: "(txnouttype \<times> bytes) list \<Rightarrow> bytes \<Rightarrow> bool \<times> txnouttype \<times> bytes list" where
  "scan_templates [] script1 = (False, TX_NONSTANDARD, [])"
| "scan_templates ((typ, script2) # rest) script1 =
     (case match_template script1 script2 [] of
        None \<Rightarrow> scan_templates rest script1
      | Some vSolutions \<Rightarrow>
          if typ = TX_MULTISIG then
            (let m = hd (hd vSolutions); n = hd (last vSolutions)
             in if m < 1 \<or> n < 1 \<or> n < m \<or> length vSolutions - 2 \<noteq> unat n
                then (False, typ, vSolutions) else (True, typ, vSolutions))
          else (True, typ, vSolutions))"

definition Solver :: "bytes \<Rightarrow> (bool \<times> txnouttype \<times> bytes list) option" where
  "Solver scriptPubKey =
     (if IsPayToScriptHash scriptPubKey then
        Some (True, TX_SCRIPTHASH, [take 20 (drop 2 scriptPubKey)])
      else if IsZerocoinMint scriptPubKey then
        (if 150 < length scriptPubKey then Some (False, TX_ZEROCOINMINT, [])
         else if length scriptPubKey < 2 then None
         else Some (True, TX_ZEROCOINMINT, [drop 2 scriptPubKey]))
      else if 1 \<le> length scriptPubKey \<and> scriptPubKey ! 0 = OP_RETURN \<and> IsPushOnly (drop 1 scriptPubKey) then
        Some (True, TX_NULL_DATA, [])
      else Some (scan_templates mTemplates scriptPubKey))"

definition ScriptSigArgsExpected :: "txnouttype \<Rightarrow> bytes list \<Rightarrow> int" where
  "ScriptSigArgsExpected t vSolutions =
     (case t of
        TX_NONSTANDARD \<Rightarrow> -1
      | TX_NULL_DATA \<Rightarrow> -1
      | TX_ZEROCOINMINT \<Rightarrow> -1
      | TX_PUBKEY \<Rightarrow> 1
      | TX_PUBKEYHASH \<Rightarrow> 2
      | TX_MULTISIG \<Rightarrow>
          (if length vSolutions < 1 \<or> length (vSolutions ! 0) < 1 then -1
           else uint (vSolutions ! 0 ! 0) + 1)
      | TX_SCRIPTHASH \<Rightarrow> 1)"

text \<open>The result is the returned flag and \<open>whichType\<close>; the option \<open>-datacarrier\<close> is an argument.\<close>

definition IsStandard :: "bool \<Rightarrow> nat \<Rightarrow> bytes \<Rightarrow> (bool \<times> txnouttype) option" where
  "IsStandard datacarrier nMaxDatacarrierBytes scriptPubKey = do {
     (ok, whichType, vSolutions) \<leftarrow> Solver scriptPubKey;
     Some
      (if \<not> ok then (False, whichType)
       else if whichType = TX_MULTISIG then
         (let m = hd (hd vSolutions); n = hd (last vSolutions)
          in if n < 1 \<or> 3 < n then (False, whichType)
             else if m < 1 \<or> n < m then (False, whichType)
             else (True, whichType))
       else if whichType = TX_NULL_DATA \<and> (\<not> datacarrier \<or> nMaxDatacarrierBytes < length scriptPubKey)
         then (False, whichType)
       else (whichType \<noteq> TX_NONSTANDARD, whichType)) }"

definition ExtractDestination :: "(bytes \<Rightarrow> bytes) \<Rightarrow> bytes \<Rightarrow> CTxDestination option option" where
  "ExtractDestination Hash160 scriptPubKey = do {
     (ok, whichType, vSolutions) \<leftarrow> Solver scriptPubKey;
     Some
      (if \<not> ok then None
       else if whichType = TX_PUBKEY then
         (let pubKey = CPubKey_Set (vSolutions ! 0)
          in if pubKey = [] then None else Some (CKeyID (Hash160 pubKey)))
       else if whichType = TX_PUBKEYHASH then Some (CKeyID (vSolutions ! 0))
       else if whichType = TX_SCRIPTHASH then Some (CScriptID (vSolutions ! 0))
       else None) }"

definition ExtractDestinations ::
  "(bytes \<Rightarrow> bytes) \<Rightarrow> bytes \<Rightarrow> (txnouttype \<times> CTxDestination list \<times> int) option option" where
  "ExtractDestinations Hash160 scriptPubKey = do {
     (ok, typeRet, vSolutions) \<leftarrow> Solver scriptPubKey;
     (if \<not> ok then Some None
      else if typeRet = TX_NULL_DATA then Some None
      else if typeRet = TX_MULTISIG then
        (let nRequired = uint (hd (hd vSolutions));
             keys = filter (\<lambda>k. k \<noteq> []) (map CPubKey_Set (butlast (tl vSolutions)));
             addresses = map (\<lambda>k. CKeyID (Hash160 k)) keys
         in Some (if addresses = [] then None else Some (typeRet, addresses, nRequired)))
      else do {
        dest \<leftarrow> ExtractDestination Hash160 scriptPubKey;
        Some (case dest of None \<Rightarrow> None | Some address \<Rightarrow> Some (typeRet, [address], 1)) }) }"

section \<open>Building output scripts\<close>

fun GetScriptForDestination :: "CTxDestination \<Rightarrow> bytes" where
  "GetScriptForDestination CNoDestination = []"
| "GetScriptForDestination (CKeyID keyID) =
     push_opcode (push_opcode (push_data (push_opcode (push_opcode [] OP_DUP) OP_HASH160) keyID)
       OP_EQUALVERIFY) OP_CHECKSIG"
| "GetScriptForDestination (CScriptID scriptID) =
     push_opcode (push_data (push_opcode [] OP_HASH160) scriptID) OP_EQUAL"

definition GetScriptForMultisig :: "int \<Rightarrow> bytes list \<Rightarrow> bytes option" where
  "GetScriptForMultisig nRequired keys = do {
     m \<leftarrow> EncodeOP_N nRequired;
     let script = fold (\<lambda>key script. push_data script key) keys (push_opcode [] m);
     n \<leftarrow> EncodeOP_N (int (length keys));
     Some (push_opcode (push_opcode script n) OP_CHECKMULTISIG) }"

section \<open>Reading the parts of a built script\<close>

lemma GetOp2_plain: "\<not> x \<le> OP_PUSHDATA4 \<Longrightarrow> GetOp2 (x # r) = (True, x, [], r)"
  by (simp add: GetOp2_def)

lemma push_data_direct: "length b < 76 \<Longrightarrow> push_data [] b = of_nat (length b) # b"
  by (simp add: push_data_def)

lemma GetOp2_push_rest:
  assumes "length b < 2 ^ 32"
  obtains opcode where "opcode \<le> OP_PUSHDATA4" "GetOp2 (push_data [] b @ r) = (True, opcode, b, r)"
  using GetOp2_push_data [OF assms] GetOp2_append [of "push_data [] b" _ b "[]" r] by auto

lemma small_ints: "1 \<le> n \<Longrightarrow> n \<le> 16 \<Longrightarrow> n \<in> {1, 2, 3, 4, 5, 6, 7, 8, 9, 10, 11, 12, 13, 14, 15, 16 :: int}"
  by (simp only: insert_iff empty_iff) presburger

lemma EncodeOP_N_small:
  assumes "1 \<le> n" "n \<le> 16"
  obtains x where "EncodeOP_N n = Some x" "\<not> x \<le> OP_PUSHDATA4" "OP_1 \<le> x" "x \<le> OP_16" "DecodeOP_N x = Some n"
    "unat (of_int n :: byte) = nat n"
proof -
  have "unat (of_int n :: byte) = nat n" using assms by (simp add: unsigned_of_int take_bit_int_eq_self)
  moreover have "\<exists>x. EncodeOP_N n = Some x \<and> \<not> x \<le> OP_PUSHDATA4 \<and> OP_1 \<le> x \<and> x \<le> OP_16 \<and> DecodeOP_N x = Some n"
    using small_ints [OF assms] by (elim insertE emptyE) (simp_all add: EncodeOP_N_def DecodeOP_N_def)
  ultimately show thesis using that by blast
qed

lemma fold_push_data: "fold (\<lambda>key script. push_data script key) keys s = s @ concat (map (push_data []) keys)"
proof (induction keys arbitrary: s)
  case (Cons k keys)
  then show ?case using push_data_append [of s k] by simp
qed simp

lemma pubkeys_loop_keys:
  assumes x: "\<not> x \<le> OP_PUSHDATA4"
  shows "33 \<le> length k \<Longrightarrow> length k \<le> 65 \<Longrightarrow> \<forall>k \<in> set ks. 33 \<le> length k \<and> length k \<le> 65 \<Longrightarrow>
    pubkeys_loop opc k (concat (map (push_data []) ks) @ x # r) sols = (x, [], r, sols @ k # ks)"
proof (induction ks arbitrary: k opc sols)
  case Nil
  then show ?case
    by (subst pubkeys_loop.simps) (simp add: GetOp2_plain [OF x] pubkeys_loop.simps [of x "[]"])
next
  case (Cons k' ks)
  have "length k' < 2 ^ 32" using Cons.prems(3) by simp
  then obtain opcode where g: "GetOp2 (push_data [] k' @ concat (map (push_data []) ks) @ x # r) =
      (True, opcode, k', concat (map (push_data []) ks) @ x # r)"
    by (rule GetOp2_push_rest)
  have "pubkeys_loop opc k (concat (map (push_data []) (k' # ks)) @ x # r) sols =
      pubkeys_loop opcode k' (concat (map (push_data []) ks) @ x # r) (sols @ [k])"
    using Cons.prems(1,2) g by (subst pubkeys_loop.simps) simp
  then show ?case using Cons.IH [of k' opcode "sols @ [k]"] Cons.prems(3) by simp
qed

lemma multisig_template:
  assumes m: "EncodeOP_N m = Some xm" "1 \<le> m" "m \<le> 16" and n: "EncodeOP_N n = Some xn" "1 \<le> n" "n \<le> 16"
    and keys: "keys \<noteq> []" "\<forall>k \<in> set keys. 33 \<le> length k \<and> length k \<le> 65"
  shows "match_template (xm # concat (map (push_data []) keys) @ [xn, OP_CHECKMULTISIG])
    [OP_SMALLINTEGER, OP_PUBKEYS, OP_SMALLINTEGER, OP_CHECKMULTISIG] [] = Some ([of_int m] # keys @ [[of_int n]])"
proof -
  obtain k ks where k: "keys = k # ks" using keys(1) by (cases keys) auto
  have x1: "\<not> xm \<le> OP_PUSHDATA4" "OP_1 \<le> xm" "xm \<le> OP_16" "DecodeOP_N xm = Some m"
    using EncodeOP_N_small [OF m(2,3)] m(1) by (metis option.inject)+
  have x2: "\<not> xn \<le> OP_PUSHDATA4" "OP_1 \<le> xn" "xn \<le> OP_16" "DecodeOP_N xn = Some n"
    using EncodeOP_N_small [OF n(2,3)] n(1) by (metis option.inject)+
  have "length k < 2 ^ 32" using keys(2) k by simp
  then obtain opcode where g: "GetOp2 (push_data [] k @ concat (map (push_data []) ks) @ [xn, OP_CHECKMULTISIG]) =
      (True, opcode, k, concat (map (push_data []) ks) @ [xn, OP_CHECKMULTISIG])"
    by (rule GetOp2_push_rest)
  have loop: "pubkeys_loop opcode k (concat (map (push_data []) ks) @ [xn, OP_CHECKMULTISIG]) [[of_int m]] =
      (xn, [], [OP_CHECKMULTISIG], [[of_int m]] @ keys)"
    using pubkeys_loop_keys [of xn k ks opcode "[OP_CHECKMULTISIG]" "[[of_int m]]"] x2 keys(2) k by simp
  have tail: "match_template [OP_CHECKMULTISIG] [OP_CHECKMULTISIG] s = Some s" for s
    by (simp add: match_template.simps [of "[OP_CHECKMULTISIG]"] match_template.simps [of "[]"] GetOp2_def match_op_def)
  have mid: "match_template (push_data [] k @ concat (map (push_data []) ks) @ [xn, OP_CHECKMULTISIG])
      [OP_PUBKEYS, OP_SMALLINTEGER, OP_CHECKMULTISIG] [[of_int m]] = Some ([[of_int m]] @ keys @ [[of_int n]])"
    using x2 by (subst match_template.simps)
      (simp add: g loop tail GetOp2_plain match_op_def)
  show ?thesis
    using x1 mid by (subst match_template.simps) (simp add: k GetOp2_plain match_op_def)
qed

lemma multisig_other_templates:
  assumes x: "\<not> x \<le> OP_PUSHDATA4" "x \<le> OP_16"
  shows "match_template (x # r) [OP_PUBKEY, OP_CHECKSIG] [] = None"
    and "match_template (x # r) [OP_DUP, OP_HASH160, OP_PUBKEYHASH, OP_EQUALVERIFY, OP_CHECKSIG] [] = None"
  using x by (subst match_template.simps; auto simp: GetOp2_plain match_op_def)+

section \<open>Properties\<close>

text \<open>A script built for a 20-byte key hash or script hash is standard, and
  \<open>ExtractDestination\<close> gets the same destination back from it.\<close>

theorem destination_roundtrip:
  assumes "length h = 20" "d = CKeyID h \<or> d = CScriptID h"
  shows "ExtractDestination Hash160 (GetScriptForDestination d) = Some (Some d) \<and>
    IsStandard dc nMax (GetScriptForDestination d) =
      Some (True, case d of CKeyID _ \<Rightarrow> TX_PUBKEYHASH | _ \<Rightarrow> TX_SCRIPTHASH)"
proof (cases "d = CKeyID h")
  case True
  have s: "GetScriptForDestination d = [OP_DUP, OP_HASH160, 20] @ h @ [OP_EQUALVERIFY, OP_CHECKSIG]"
    using assms(1) True push_data_append [of "[OP_DUP, OP_HASH160]" h] by (simp add: push_opcode_def push_data_direct)
  have h: "GetOp2 (20 # h @ [OP_EQUALVERIFY, OP_CHECKSIG]) = (True, 20, h, [OP_EQUALVERIFY, OP_CHECKSIG])"
    using assms(1) by (simp add: GetOp2_def pushed_size_def)
  have e: "match_template [OP_EQUALVERIFY, OP_CHECKSIG] [OP_EQUALVERIFY, OP_CHECKSIG] [h] = Some [h]"
    by (simp add: match_template.simps GetOp2_def match_op_def)
  have p: "match_template (20 # h @ [OP_EQUALVERIFY, OP_CHECKSIG]) [OP_PUBKEYHASH, OP_EQUALVERIFY, OP_CHECKSIG] [] = Some [h]"
    using assms(1) by (subst match_template.simps) (simp add: h e GetOp2_plain match_op_def)
  have q: "match_template (OP_HASH160 # 20 # h @ [OP_EQUALVERIFY, OP_CHECKSIG])
      [OP_HASH160, OP_PUBKEYHASH, OP_EQUALVERIFY, OP_CHECKSIG] [] = Some [h]"
    by (subst match_template.simps) (simp add: p GetOp2_plain match_op_def)
  have m: "match_template (OP_DUP # OP_HASH160 # 20 # h @ [OP_EQUALVERIFY, OP_CHECKSIG])
      [OP_DUP, OP_HASH160, OP_PUBKEYHASH, OP_EQUALVERIFY, OP_CHECKSIG] [] = Some [h]"
    by (subst match_template.simps) (simp add: q GetOp2_plain match_op_def)
  have k: "match_template (OP_DUP # OP_HASH160 # 20 # h @ [OP_EQUALVERIFY, OP_CHECKSIG]) [OP_PUBKEY, OP_CHECKSIG] [] = None"
    by (subst match_template.simps) (simp add: GetOp2_plain match_op_def)
  have "Solver (GetScriptForDestination d) = Some (True, TX_PUBKEYHASH, [h])"
    using assms(1) k m by (simp add: s Solver_def IsPayToScriptHash_def IsZerocoinMint_def StartsWithOpcode_def mTemplates_def)
  then show ?thesis using True by (simp add: ExtractDestination_def IsStandard_def)
next
  case False
  then have d: "d = CScriptID h" using assms(2) by simp
  have s: "GetScriptForDestination d = [OP_HASH160, 20] @ h @ [OP_EQUAL]"
    using assms(1) d push_data_append [of "[OP_HASH160]" h] by (simp add: push_opcode_def push_data_direct)
  have "Solver (GetScriptForDestination d) = Some (True, TX_SCRIPTHASH, [h])"
    using assms(1) by (simp add: s Solver_def IsPayToScriptHash_def nth_append)
  then show ?thesis using d by (simp add: ExtractDestination_def IsStandard_def)
qed

theorem destination_roundtrip_witness:
  "ExtractDestination (\<lambda>k. take 20 k) (GetScriptForDestination (CKeyID (replicate 20 3))) = Some (Some (CKeyID (replicate 20 3)))"
  using destination_roundtrip [of "replicate 20 3" "CKeyID (replicate 20 3)" "\<lambda>k. take 20 k" True 83] by simp

text \<open>The script built for \<open>m\<close> of \<open>n\<close> keys (\<open>1 \<le> m \<le> n \<le> 16\<close>, keys of 33 to 65 bytes) is
  recognised as a multisig of exactly these keys and counts, and is standard exactly up to three keys.\<close>

theorem multisig_roundtrip:
  assumes "1 \<le> m" "m \<le> int (length keys)" "length keys \<le> 16"
    and "\<forall>k \<in> set keys. 33 \<le> length k \<and> length k \<le> 65"
  shows "\<exists>s. GetScriptForMultisig m keys = Some s \<and>
    Solver s = Some (True, TX_MULTISIG, [of_int m] # keys @ [[of_int (int (length keys))]]) \<and>
    IsStandard dc nMax s = Some (length keys \<le> 3, TX_MULTISIG)"
proof -
  let ?n = "int (length keys)"
  have b: "m \<le> 16" "1 \<le> ?n" "?n \<le> 16" "keys \<noteq> []" using assms by auto
  obtain xm where xm: "EncodeOP_N m = Some xm" "\<not> xm \<le> OP_PUSHDATA4" "OP_1 \<le> xm" "xm \<le> OP_16"
    "unat (of_int m :: byte) = nat m"
    using EncodeOP_N_small [OF assms(1) b(1)] by metis
  obtain xn where xn: "EncodeOP_N ?n = Some xn" "unat (of_int ?n :: byte) = length keys"
    using EncodeOP_N_small [OF b(2,3)] by (metis nat_int)
  define s where "s = xm # concat (map (push_data []) keys) @ [xn, OP_CHECKMULTISIG]"
  have g: "GetScriptForMultisig m keys = Some s"
    using xm(1) xn(1) by (simp add: GetScriptForMultisig_def fold_push_data push_opcode_def s_def)
  have ne: "xm \<noteq> OP_HASH160" "xm \<noteq> OP_ZEROCOINMINT" "xm \<noteq> OP_RETURN" using xm(4) by auto
  have t: "match_template s [OP_SMALLINTEGER, OP_PUBKEYS, OP_SMALLINTEGER, OP_CHECKMULTISIG] [] =
      Some ([of_int m] # keys @ [[of_int ?n]])"
    using multisig_template [OF xm(1) assms(1) b(1) xn(1) b(2,3) b(4) assms(4)] by (simp only: s_def)
  have mn: "\<not> (of_int m :: byte) < 1" "\<not> (of_int ?n :: byte) < 1" "\<not> (of_int ?n :: byte) < of_int m"
    using assms(1,2) b(4) xm(5) xn(2) by (simp_all add: word_less_nat_alt Suc_le_eq del: of_int_of_nat_eq)
  have three: "(3::byte) < of_int ?n \<longleftrightarrow> 3 < length keys"
    using xn(2) by (simp add: word_less_nat_alt del: of_int_of_nat_eq)
  have "scan_templates mTemplates s = (True, TX_MULTISIG, [of_int m] # keys @ [[of_int ?n]])"
    using multisig_other_templates [OF xm(2,4)] t mn xn(2)
    by (simp add: mTemplates_def s_def Let_def del: of_int_of_nat_eq)
  then have sol: "Solver s = Some (True, TX_MULTISIG, [of_int m] # keys @ [[of_int ?n]])"
    using ne by (simp add: Solver_def IsPayToScriptHash_def IsZerocoinMint_def StartsWithOpcode_def s_def del: of_int_of_nat_eq)
  have "IsStandard dc nMax s = Some (length keys \<le> 3, TX_MULTISIG)"
    using mn(1,2) by (cases "3 < length keys") (simp_all add: IsStandard_def sol Let_def mn(3) three del: of_int_of_nat_eq)
  with g sol show ?thesis by blast
qed

theorem multisig_roundtrip_witness:
  "\<exists>s. GetScriptForMultisig 1 [replicate 33 2, replicate 65 4] = Some s \<and>
    Solver s = Some (True, TX_MULTISIG, [[1], replicate 33 2, replicate 65 4, [2]])"
  using multisig_roundtrip [of 1 "[replicate 33 2, replicate 65 4]" True 83] by auto

text \<open>\<open>Solver\<close> reads only inside the script, with one exception: on the script of the
  single byte \<open>OP_ZEROCOINMINT\<close> it takes the range \<open>begin() + 2, end()\<close>, which starts past the end.\<close>

theorem Solver_undefined_only_for_bare_mint:
  "Solver s = None \<longleftrightarrow> s = [OP_ZEROCOINMINT]"
proof
  assume "Solver s = None"
  then have "s \<noteq> []" "length s < 2" "s ! 0 = OP_ZEROCOINMINT"
    by (auto simp: Solver_def IsZerocoinMint_def StartsWithOpcode_def split: if_splits)
  then show "s = [OP_ZEROCOINMINT]" by (cases s) auto
qed (simp add: Solver_def IsPayToScriptHash_def IsZerocoinMint_def StartsWithOpcode_def)

end
