(* ===== verification/ScriptSpec.thy ===== *)
theory ScriptSpec
  imports InterpreterProps Standard "HOL-Library.Sublist"
begin

text \<open>
  What acceptance of a script means: the properties of the interpreter that other parts of the
  node rely on, each over \<open>EvalScript\<close>, \<open>VerifyScript\<close> or the checks they call.
\<close>

section \<open>Running a push and an opcode\<close>

lemma push_data_opcode:
  assumes "2 \<le> length d" "length d \<le> 520"
  obtains opc where "opc \<le> OP_PUSHDATA4" "GetOp2 (push_data [] d @ rest) = (True, opc, d, rest)"
    "CheckMinimalPush d opc" "opc \<notin> set disabled_opcodes" "\<not> OP_16 < opc"
proof -
  have small: "unat (of_nat k :: byte) = k" if "k < 256" for k using that by (simp add: unat_of_nat_8)
  obtain opc where o: "opc \<le> OP_PUSHDATA4" "GetOp2 (push_data [] d) = (True, opc, d, [])"
    using GetOp2_push_data [of d] assms(2) by auto
  have "opc \<notin> set disabled_opcodes" "\<not> OP_16 < opc"
    using o(1) by (auto simp: disabled_opcodes_def word_less_nat_alt word_le_nat_alt)
  moreover have "CheckMinimalPush d opc"
    using o(2) assms small [of "length d"]
    by (auto simp: CheckMinimalPush_def push_data_def GetOp2_def split: if_split_asm option.split_asm)
  moreover have "GetOp2 (push_data [] d @ rest) = (True, opc, d, rest)" using GetOp2_append [OF o(2)] by simp
  ultimately show ?thesis using that o(1) by blast
qed

lemma eval_loop_push:
  assumes "2 \<le> length d" "length d \<le> 520" "list_all id (vfExec st)" "length (stk st) + length (alt st) < 1000"
  shows "eval_loop E flags (push_data [] d @ rest) st = eval_loop E flags rest (st\<lparr>stk := d # stk st\<rparr>)"
proof -
  obtain opc where o: "opc \<le> OP_PUSHDATA4" "GetOp2 (push_data [] d @ rest) = (True, opc, d, rest)"
    "CheckMinimalPush d opc" "opc \<notin> set disabled_opcodes" "\<not> OP_16 < opc"
    by (rule push_data_opcode [OF assms(1,2), of rest])
  have "eval_step E flags opc d rest st = Inr (st\<lparr>stk := d # stk st\<rparr>)"
    using o assms by (simp add: eval_step_def Let_def)
  moreover have "push_data [] d \<noteq> []" by (simp add: push_data_def)
  ultimately show ?thesis using o(2) by (subst eval_loop.simps) simp
qed

lemma eval_loop_op:
  assumes "OP_16 < opc" "opc \<notin> set disabled_opcodes" "list_all id (vfExec st)" "nOpCount st < 201"
  shows "eval_loop E flags (opc # rest) st =
    sbind (exec_op E flags opc rest True (st\<lparr>nOpCount := nOpCount st + 1\<rparr>)) (\<lambda>st'.
      if 1000 < length (stk st') + length (alt st') then Inl SCRIPT_ERR_STACK_SIZE
      else eval_loop E flags rest st')"
proof -
  have n: "\<not> opc \<le> OP_PUSHDATA4" using assms(1) by (auto simp: word_less_nat_alt word_le_nat_alt)
  have g: "GetOp2 (opc # rest) = (True, opc, [], rest)" using n by (simp add: GetOp2_def)
  have "eval_loop E flags (opc # rest) st = sbind (eval_step E flags opc [] rest st) (eval_loop E flags rest)"
    using g by (subst eval_loop.simps) simp
  also have "eval_step E flags opc [] rest st = sbind (exec_op E flags opc rest True (st\<lparr>nOpCount := nOpCount st + 1\<rparr>))
      (\<lambda>st. if 1000 < length (stk st) + length (alt st) then Inl SCRIPT_ERR_STACK_SIZE else Inr st)"
    using assms n by (simp add: eval_step_def Let_def)
  finally show ?thesis by (auto simp: sbind_def split: sum.splits)
qed

section \<open>Deleting a signature from a pay-to-pubkey-hash script\<close>

definition P2PKH :: "bytes \<Rightarrow> bytes" where
  "P2PKH h = [OP_DUP, OP_HASH160, 20] @ h @ [OP_EQUALVERIFY, OP_CHECKSIG]"

lemma op_chunks_op: "\<not> opc \<le> OP_PUSHDATA4 \<Longrightarrow>
  op_chunks (opc # rest) = ([opc] # fst (op_chunks rest), snd (op_chunks rest))"
  by (subst op_chunks.simps) (simp add: GetOp2_def split: prod.split)

lemma op_chunks_P2PKH:
  assumes "length h = 20"
  shows "op_chunks (P2PKH h) = ([[OP_DUP], [OP_HASH160], 20 # h, [OP_EQUALVERIFY], [OP_CHECKSIG]], [])"
proof -
  have e: "op_chunks [] = ([], [])" by (subst op_chunks.simps) (simp add: GetOp2_def)
  have "op_chunks (20 # h @ [OP_EQUALVERIFY, OP_CHECKSIG]) = ([20 # h, [OP_EQUALVERIFY], [OP_CHECKSIG]], [])"
    using assms by (subst op_chunks.simps) (simp add: GetOp2_def pushed_size_def op_chunks_op e)
  then show ?thesis by (simp add: P2PKH_def op_chunks_op)
qed

lemma FindAndDelete_P2PKH:
  assumes "length h = 20" "2 \<le> length sig" "length sig \<le> 520" "sig \<noteq> h"
  shows "FindAndDelete (P2PKH h) (push_data [] sig) = (P2PKH h, 0)"
proof -
  let ?b = "push_data [] sig"
  obtain opc where o: "GetOp2 ?b = (True, opc, sig, [])" using GetOp2_push_data [of sig] assms(3) by auto
  have b: "3 \<le> length ?b" using assms(2) by (simp add: push_data_def)
  have single: "[x] \<noteq> ?b" for x
  proof
    assume "[x] = ?b"
    then have "length ?b = 1" by (metis One_nat_def length_Cons list.size(3))
    then show False using b by simp
  qed
  have ne: "?b \<noteq> 20 # h"
  proof
    assume "?b = 20 # h"
    then have "GetOp2 ?b = (True, 20, h, [])" using assms(1) by (simp add: GetOp2_def pushed_size_def)
    then show False using o assms(4) by simp
  qed
  have "fad_loop ?b [] (P2PKH h) 0 = ([] @ concat [[OP_DUP], [OP_HASH160], 20 # h, [OP_EQUALVERIFY], [OP_CHECKSIG]] @ [], 0 + 0)"
    unfolding fad_loop_chunks [OF o op_chunks_P2PKH [OF assms(1)]] using ne single by auto
  moreover have "?b \<noteq> []" using b by auto
  ultimately show ?thesis by (simp add: FindAndDelete_def P2PKH_def)
qed


section \<open>Acceptance of a pay-to-pubkey-hash script\<close>

lemma EvalScript_P2PKH:
  assumes "length h = 20" "2 \<le> length sig" "length sig \<le> 520" "sig \<noteq> h"
  shows "EvalScript E flags [pk, sig] (P2PKH h) =
    (if Hash160 E pk \<noteq> h then Inl SCRIPT_ERR_EQUALVERIFY
     else case check_encodings E flags sig pk of
       Some e \<Rightarrow> Inl e
     | None \<Rightarrow> Inr [bool_vch (CheckSig E sig pk (P2PKH h))])"
proof -
  have "push_data [] h = 20 # h" using assms(1) by (simp add: push_data_def)
  then have p: "P2PKH h = OP_DUP # OP_HASH160 # push_data [] h @ [OP_EQUALVERIFY, OP_CHECKSIG]"
    by (simp add: P2PKH_def)
  have nil: "eval_loop E flags [] st = Inr st" for st by (simp add: eval_loop.simps)
  have run: "eval_loop E flags (P2PKH h) \<lparr>stk = [pk, sig], alt = [], vfExec = [], codehash = P2PKH h, nOpCount = 0\<rparr> =
    (if Hash160 E pk \<noteq> h then Inl SCRIPT_ERR_EQUALVERIFY
     else case check_encodings E flags sig pk of
       Some e \<Rightarrow> Inl e
     | None \<Rightarrow> Inr \<lparr>stk = [bool_vch (CheckSig E sig pk (P2PKH h))], alt = [], vfExec = [], codehash = P2PKH h, nOpCount = 4\<rparr>)"
    unfolding p [THEN arg_cong, of "\<lambda>s. eval_loop E flags s st" for st]
    using assms FindAndDelete_P2PKH [OF assms]
    by (simp add: eval_loop_op eval_loop_push disabled_opcodes_def exec_op_def exec_stack_def stack_op.simps
        exec_hash_def exec_equal_def exec_checksig_def nil Let_def split: option.split)
  have "length (P2PKH h) = 25" using assms(1) by (simp add: P2PKH_def)
  then show ?thesis by (simp add: EvalScript_def run split: option.split)
qed


lemma push_two_only:
  assumes "length a < 2 ^ 32" "length b < 2 ^ 32"
  shows "IsPushOnly (push_data (push_data [] a) b)"
proof -
  have e: "script_ops [] = ([], True)" by (simp add: script_ops.simps)
  obtain x where x: "x \<le> OP_PUSHDATA4" "script_ops (push_data [] b @ []) = ([(x, b)], True)"
    using script_ops_push [OF assms(2), of "[]"] e by auto
  obtain y where "y \<le> OP_PUSHDATA4" "script_ops (push_data [] a @ push_data [] b) = ([(y, a), (x, b)], True)"
    using script_ops_push [OF assms(1), of "push_data [] b"] x by auto
  then show ?thesis using x unfolding push_data_append [of "push_data [] a"]
    by (auto simp: IsPushOnly_def word_less_nat_alt word_le_nat_alt)
qed

lemma EvalScript_push_two:
  assumes "2 \<le> length a" "length a \<le> 520" "2 \<le> length b" "length b \<le> 520"
  shows "EvalScript E flags [] (push_data (push_data [] a) b) = Inr [b, a]"
proof -
  have "length (push_data (push_data [] a) b) \<le> 10000" using assms by (simp add: push_data_def)
  moreover have "eval_loop E flags (push_data [] a @ push_data [] b) st = Inr (st\<lparr>stk := [b, a]\<rparr>)"
    if st: "stk st = []" "alt st = []" "vfExec st = []" for st
  proof -
    have "eval_loop E flags (push_data [] a @ push_data [] b) st =
        eval_loop E flags (push_data [] b @ []) (st\<lparr>stk := a # stk st\<rparr>)"
      using eval_loop_push [OF assms(1,2), of st E flags "push_data [] b"] st by simp
    also have "\<dots> = eval_loop E flags [] (st\<lparr>stk := [b, a]\<rparr>)"
      using eval_loop_push [OF assms(3,4), of "st\<lparr>stk := a # stk st\<rparr>" E flags "[]"] st by simp
    finally show ?thesis by (simp add: eval_loop.simps)
  qed
  ultimately show ?thesis by (simp add: EvalScript_def push_data_append [of "push_data [] a"])
qed

lemma GetScriptForDestination_P2PKH:
  "length h = 20 \<Longrightarrow> GetScriptForDestination (CKeyID h) = P2PKH h"
  using push_data_append [of "[OP_DUP, OP_HASH160]" h]
  by (simp add: P2PKH_def push_opcode_def push_data_direct)

section \<open>Failing scripts\<close>

lemma exec_return: "exec_op E flags OP_RETURN rest True st = Inl SCRIPT_ERR_OP_RETURN"
  by (simp add: exec_op_def exec_control_def)

lemma EvalScript_OP_RETURN:
  assumes "IsUnspendable s"
  shows "EvalScript E flags stack s =
    Inl (if 10000 < length s then SCRIPT_ERR_SCRIPT_SIZE else SCRIPT_ERR_OP_RETURN)"
proof -
  obtain r where s: "s = OP_RETURN # r" using assms by (cases s) (auto simp: IsUnspendable_def)
  show ?thesis
    by (simp add: EvalScript_def s eval_loop_op disabled_opcodes_def exec_return)
qed

lemma EvalScript_P2SH_empty:
  assumes "IsPayToScriptHash s"
  shows "EvalScript E flags [] s = Inl SCRIPT_ERR_INVALID_STACK_OPERATION"
proof -
  obtain r where s: "s = OP_HASH160 # r" using assms by (cases s) (auto simp: IsPayToScriptHash_def)
  have "length s = 23" using assms by (simp add: IsPayToScriptHash_def)
  moreover have "eval_loop E flags s \<lparr>stk = [], alt = [], vfExec = [], codehash = s, nOpCount = 0\<rparr> =
      Inl SCRIPT_ERR_INVALID_STACK_OPERATION"
    by (simp add: s eval_loop_op disabled_opcodes_def exec_op_def exec_hash_def)
  ultimately show ?thesis by (simp add: EvalScript_def)
qed

section \<open>Multisig\<close>

text \<open>The keys of a subsequence sign for the signatures, in order.\<close>

definition signed_by :: "script_env \<Rightarrow> bytes \<Rightarrow> bytes list \<Rightarrow> bytes list \<Rightarrow> bool" where
  "signed_by E scriptCode sigs keys \<longleftrightarrow>
     (\<exists>ks. subseq ks keys \<and> list_all2 (\<lambda>sig key. CheckSig E sig key scriptCode) sigs ks)"

lemma signed_by_length: "signed_by E code sigs keys \<Longrightarrow> length sigs \<le> length keys"
  by (auto simp: signed_by_def dest!: list_all2_lengthD list_emb_length)

lemma signed_by_Nil [simp]: "signed_by E code [] keys"
  by (auto simp: signed_by_def)

lemma signed_by_hit:
  assumes "CheckSig E sig key code"
  shows "signed_by E code (sig # sigs) (key # keys) \<longleftrightarrow> signed_by E code sigs keys"
proof
  assume "signed_by E code (sig # sigs) (key # keys)"
  then obtain k ks where "subseq (k # ks) (key # keys)" "list_all2 (\<lambda>sig key. CheckSig E sig key code) sigs ks"
    by (auto simp: signed_by_def list_all2_Cons1)
  then show "signed_by E code sigs keys"
    by (cases "k = key") (auto simp: signed_by_def dest: subseq_Cons')
next
  assume "signed_by E code sigs keys"
  then obtain ks where "subseq ks keys" "list_all2 (\<lambda>sig key. CheckSig E sig key code) sigs ks"
    by (auto simp: signed_by_def)
  then show "signed_by E code (sig # sigs) (key # keys)"
    using assms by (auto simp: signed_by_def intro!: exI [of _ "key # ks"])
qed

lemma signed_by_miss:
  assumes "\<not> CheckSig E sig key code"
  shows "signed_by E code (sig # sigs) (key # keys) \<longleftrightarrow> signed_by E code (sig # sigs) keys"
proof
  assume "signed_by E code (sig # sigs) (key # keys)"
  then obtain k ks where k: "CheckSig E sig k code" "subseq (k # ks) (key # keys)"
    "list_all2 (\<lambda>sig key. CheckSig E sig key code) sigs ks"
    by (auto simp: signed_by_def list_all2_Cons1)
  then have "k \<noteq> key" using assms by blast
  then have "subseq (k # ks) keys" using k(2) by simp
  then show "signed_by E code (sig # sigs) keys"
    using k by (auto simp: signed_by_def intro!: exI [of _ "k # ks"])
qed (auto simp: signed_by_def)

section \<open>Strict DER\<close>

definition der_int :: "bytes \<Rightarrow> bool" where
  "der_int b \<longleftrightarrow> b \<noteq> [] \<and> unat (hd b) < 128 \<and> (1 < length b \<and> hd b = 0 \<longrightarrow> 128 \<le> unat (b ! 1))"

definition der_sig :: "bytes \<Rightarrow> bytes \<Rightarrow> byte \<Rightarrow> bytes" where
  "der_sig r s hashtype =
     [0x30, of_nat (length r + length s + 4), 0x02, of_nat (length r)] @ r @
     [0x02, of_nat (length s)] @ s @ [hashtype]"

lemma byte_high: "(t :: byte) AND 0x80 = 0 \<longleftrightarrow> unat t < 128"
  using byte_sign [of t] by auto

lemma IsValid_der_sig:
  assumes "length r + length s \<le> 66" "der_int r" "der_int s"
  shows "IsValidSignatureEncoding (der_sig r s ht)"
proof -
  have small: "unat (of_nat k :: byte) = k" if "k < 256" for k using that by (simp add: unat_of_nat_8)
  have ne: "r \<noteq> []" "s \<noteq> []" using assms(2,3) by (auto simp: der_int_def)
  let ?g = "der_sig r s ht"
  have len: "length ?g = length r + length s + 7" by (simp add: der_sig_def)
  have g: "?g ! 0 = 0x30" "?g ! 1 = of_nat (length r + length s + 4)" "?g ! 2 = 0x02" "?g ! 3 = of_nat (length r)"
    "?g ! 4 = r ! 0" "1 < length r \<Longrightarrow> ?g ! 5 = r ! 1"
    "?g ! (length r + 4) = 0x02" "?g ! (5 + length r) = of_nat (length s)" "?g ! (length r + 6) = s ! 0"
    "1 < length s \<Longrightarrow> ?g ! (length r + 7) = s ! 1"
    using ne by (simp_all add: der_sig_def nth_append nth_Cons numeral_eq_Suc split: nat.split)
  have l: "2 \<le> length r + length s" using ne by (cases r; cases s) auto
  have sm: "unat (of_nat (length r + length s + 4) :: byte) = length r + length s + 4"
    "unat (of_nat (length r) :: byte) = length r" "unat (of_nat (length s) :: byte) = length s"
    using assms(1) by (intro small; simp)+
  have r: "unat (r ! 0) < 128" "1 < length r \<Longrightarrow> r ! 0 = 0 \<Longrightarrow> 128 \<le> unat (r ! 1)"
    and s: "unat (s ! 0) < 128" "1 < length s \<Longrightarrow> s ! 0 = 0 \<Longrightarrow> 128 \<le> unat (s ! 1)"
    using assms(2,3) ne by (auto simp: der_int_def hd_conv_nth)
  show ?thesis
    unfolding IsValidSignatureEncoding_def Let_def g(1-5) sm len g(7-9) byte_high
    using assms(1) l ne r s g(6,10) by (auto simp: byte_high)
qed

lemma split_at_two: "2 \<le> length xs \<Longrightarrow> xs = xs ! 0 # xs ! 1 # drop 2 xs"
  by (cases xs; cases "tl xs") auto

lemma der_sig_IsValid:
  assumes v: "IsValidSignatureEncoding g"
  shows "\<exists>r s ht. g = der_sig r s ht \<and> length r + length s \<le> 66 \<and> der_int r \<and> der_int s"
proof -
  define n m where "n = unat (g ! 3)" and "m = unat (g ! (5 + n))"
  have f: "9 \<le> length g" "length g \<le> 73" "g ! 0 = 0x30" "unat (g ! 1) = length g - 3" "n + m + 7 = length g"
    "g ! 2 = 0x02" "n \<noteq> 0" "unat (g ! 4) < 128" "1 < n \<Longrightarrow> g ! 4 = 0 \<Longrightarrow> 128 \<le> unat (g ! 5)"
    "g ! (n + 4) = 0x02" "m \<noteq> 0" "unat (g ! (n + 6)) < 128"
    "1 < m \<Longrightarrow> g ! (n + 6) = 0 \<Longrightarrow> 128 \<le> unat (g ! (n + 7))"
    using v unfolding IsValidSignatureEncoding_def n_def m_def Let_def byte_high
    by (simp_all add: not_less split: if_split_asm)
  define r s where "r = take n (drop 4 g)" and "s = take m (drop (n + 6) g)"
  have lr: "length r = n" and ls: "length s = m" using f(5) by (simp_all add: r_def s_def)
  have "unat (g ! 1) = n + m + 4" using f(4,5) by linarith
  then have b1: "g ! 1 = of_nat (n + m + 4)" by (simp only: flip: \<open>unat (g ! 1) = n + m + 4\<close>) simp
  have b3: "g ! 3 = of_nat n" and b5: "g ! (n + 5) = of_nat m"
    by (simp_all add: n_def m_def add.commute)
  have d: "i < length g \<Longrightarrow> drop i g = g ! i # drop (i + 1) g" for i by (simp add: Cons_nth_drop_Suc)
  have t: "drop i g = take k (drop i g) @ drop (i + k) g" for i k by (metis append_take_drop_id drop_drop add.commute)
  have "g \<noteq> []" using f(1) by auto
  then have "drop 0 g = g ! 0 # g ! 1 # g ! 2 # g ! 3 # drop 4 g" using f(1) d [of 0] d [of 1] d [of 2] d [of 3] by (auto simp: eval_nat_numeral)
  also have "drop 4 g = r @ drop (n + 4) g" using t [of 4 n] by (simp add: r_def add.commute)
  also have "drop (n + 4) g = g ! (n + 4) # g ! (n + 5) # drop (n + 6) g" using f(5) d [of "n + 4"] d [of "n + 5"] by (simp add: ac_simps)
  also have "drop (n + 6) g = s @ drop (n + m + 6) g" using t [of "n + 6" m] by (simp add: s_def ac_simps)
  also have "drop (n + m + 6) g = [g ! (n + m + 6)]" using f(5) d [of "n + m + 6"] by simp
  finally have g: "g = der_sig r s (g ! (n + m + 6))"
    by (simp add: der_sig_def f(3,6,10) b1 [unfolded One_nat_def] b3 b5 lr ls)
  have "r ! i = g ! (i + 4)" if "i < n" for i using that f(5) by (simp add: r_def add.commute)
  then have r: "der_int r" using f(7-9) lr by (auto simp: der_int_def hd_conv_nth)
  have "s ! i = g ! (i + (n + 6))" if "i < m" for i using that f(5) by (simp add: s_def add.commute)
  then have s: "der_int s" using f(11-13) ls by (auto simp: der_int_def hd_conv_nth ac_simps)
  show ?thesis by (intro exI conjI, rule g) (use r s f(2,5) lr ls in simp_all)
qed

section \<open>Properties\<close>

definition demo_env :: script_env where
  "demo_env = \<lparr>RIPEMD160 = (\<lambda>x. replicate 20 1), SHA1 = (\<lambda>x. replicate 20 2), SHA256 = (\<lambda>x. replicate 32 3),
     Hash160 = (\<lambda>x. replicate 20 4), Hash256 = (\<lambda>x. replicate 32 5), CheckLowS = (\<lambda>x. True),
     CheckSig = (\<lambda>sig key code. hd sig = hd key), CheckLockTime = (\<lambda>n. n \<le> 100)\<rparr>"

text \<open>C29:
  The resource limits hold at every step. From a state with elements of at most 520 bytes, at most
  1000 elements on both stacks together and at most 201 counted operations, and with hash functions
  of the documented digest sizes, running any piece of a script to success ends in such a state, and
  \<open>EvalScript\<close> leaves a stack within the limits.\<close>

theorem script_limits:
  assumes "hashes_ok E"
  shows "(limits_ok st \<and> eval_loop E flags pc st = Inr st' \<longrightarrow> limits_ok st') \<and>
    (sizes_ok stack \<and> length stack \<le> 1000 \<and> EvalScript E flags stack script = Inr s \<longrightarrow>
      sizes_ok s \<and> length s \<le> 1000)"
proof (intro conjI impI; elim conjE)
  show "limits_ok st'" if "limits_ok st" "eval_loop E flags pc st = Inr st'"
    using eval_loop_limits [OF that(2) assms that(1)] .
next
  assume a: "sizes_ok stack" "length stack \<le> 1000" "EvalScript E flags stack script = Inr s"
  let ?st = "\<lparr>stk = stack, alt = [], vfExec = [], codehash = script, nOpCount = 0\<rparr>"
  obtain st2 where r: "eval_loop E flags script ?st = Inr st2" "s = stk st2"
    using a(3) by (auto simp: EvalScript_def sbind_Inr_iff split: if_split_asm)
  have "limits_ok st2" using eval_loop_limits [OF r(1) assms] a(1,2) by (simp add: limits_ok_def)
  then show "sizes_ok s" "length s \<le> 1000" by (simp_all add: limits_ok_def r(2))
qed

theorem script_limits_witness:
  "hashes_ok demo_env \<and> EvalScript demo_env 0 [[7]] [OP_DUP, OP_HASH160] = Inr [replicate 20 4, [7]] \<and>
   sizes_ok [replicate 20 4, [7 :: byte]]"
proof -
  have h: "hashes_ok demo_env" by (simp add: hashes_ok_def demo_env_def)
  have e: "EvalScript demo_env 0 [[7]] [OP_DUP, OP_HASH160] = Inr [replicate 20 4, [7]]"
    by (simp add: EvalScript_def eval_loop_op eval_loop.simps [of _ _ "[]"] disabled_opcodes_def exec_op_def exec_stack_def
        stack_op.simps exec_hash_def demo_env_def)
  have "sizes_ok [[7 :: byte]]" by simp
  then show ?thesis
    using h e conjunct2 [OF script_limits [OF h], of "[[7]]" 0 "[OP_DUP, OP_HASH160]" "[replicate 20 4, [7]]"] by simp
qed

text \<open>A script that evaluates successfully is at most 10000 bytes long, parses to its end, contains no
  disabled opcode (executed or not), pushes no element above 520 bytes and has at most 201 operations
  above \<open>OP_16\<close>, whatever the flags, the stack and the environment are.\<close>

theorem successful_script_static:
  assumes "EvalScript E flags stack script = Inr s"
  shows "length script \<le> 10000 \<and> snd (script_ops script) \<and>
    (\<forall>(opcode, vch) \<in> set (fst (script_ops script)). length vch \<le> 520 \<and> opcode \<notin> set disabled_opcodes) \<and>
    length (filter (\<lambda>(opcode, vch). OP_16 < opcode) (fst (script_ops script))) \<le> 201"
proof -
  let ?st = "\<lparr>stk = stack, alt = [], vfExec = [], codehash = script, nOpCount = 0\<rparr>"
  obtain st2 where r: "length script \<le> 10000" "eval_loop E flags script ?st = Inr st2"
    using assms by (auto simp: EvalScript_def sbind_Inr_iff split: if_split_asm)
  show ?thesis
    using eval_loop_static [OF r(2)] r(1)
    by (auto simp: op_allowed_def counted_ops_def case_prod_unfold)
qed

theorem successful_script_static_witness:
  "EvalScript demo_env 0 [[7]] [OP_DUP] = Inr [[7], [7]] \<and> snd (script_ops [OP_DUP])"
proof -
  have "EvalScript demo_env 0 [[7]] [OP_DUP] = Inr [[7], [7]]"
    by (simp add: EvalScript_def eval_loop_op eval_loop.simps [of _ _ "[]"] disabled_opcodes_def exec_op_def exec_stack_def
        stack_op.simps)
  then show ?thesis using successful_script_static [of demo_env 0 "[[7]]" "[OP_DUP]"] by blast
qed


text \<open>C40:
  An output \<open>IsUnspendable\<close> reports can never be spent: evaluating it fails for every stack,
  flags and environment, so no \<open>scriptSig\<close> makes \<open>VerifyScript\<close> succeed.\<close>

theorem unspendable_never_verifies:
  assumes "IsUnspendable spk"
  shows "EvalScript E flags stack spk =
      Inl (if 10000 < length spk then SCRIPT_ERR_SCRIPT_SIZE else SCRIPT_ERR_OP_RETURN) \<and>
    VerifyScript E flags scriptSig spk \<noteq> Some (Inr ())"
  using EvalScript_OP_RETURN [OF assms]
  by (auto simp: VerifyScript_def split: sum.split)

theorem unspendable_never_verifies_witness:
  "EvalScript demo_env 1 [[1]] [OP_RETURN, 1, 7] = Inl SCRIPT_ERR_OP_RETURN"
proof -
  have "IsUnspendable [OP_RETURN, 1, 7]" by (simp add: IsUnspendable_def)
  from conjunct1 [OF unspendable_never_verifies [OF this, of demo_env 1 "[[1]]"]] show ?thesis by simp
qed

text \<open>The assertion \<open>!stackCopy.empty()\<close> in \<open>VerifyScript\<close> cannot fail: verification always
  returns, with success or with an error, for every pair of scripts.\<close>

theorem VerifyScript_never_asserts: "VerifyScript E flags scriptSig scriptPubKey \<noteq> None"
  using EvalScript_P2SH_empty [of scriptPubKey E flags]
  by (auto simp: VerifyScript_def Let_def split: sum.splits list.splits)

text \<open>C28:
  Pay to pubkey hash. For a signature and a key of 2 to 520 bytes (the signature is not the hash itself),
  the spend that pushes them verifies against the script \<open>GetScriptForDestination\<close> builds for the
  key hash if and only if the key hashes to it, both encodings pass the flags' checks and the signature
  checks against the unchanged output script; otherwise the error is the one of the first check that fails.\<close>

theorem p2pkh_spend:
  assumes "length h = 20" "2 \<le> length sig" "length sig \<le> 520" "2 \<le> length pk" "length pk \<le> 520" "sig \<noteq> h"
  shows "VerifyScript E flags (push_data (push_data [] sig) pk) (GetScriptForDestination (CKeyID h)) =
    Some (if Hash160 E pk \<noteq> h then Inl SCRIPT_ERR_EQUALVERIFY
          else case check_encodings E flags sig pk of
            Some e \<Rightarrow> Inl e
          | None \<Rightarrow> if CheckSig E sig pk (GetScriptForDestination (CKeyID h)) then Inr ()
                    else Inl SCRIPT_ERR_EVAL_FALSE)"
proof -
  have p: "IsPushOnly (push_data (push_data [] sig) pk)" using assms by (intro push_two_only) simp_all
  have n: "\<not> IsPayToScriptHash (P2PKH h)" using assms(1) by (simp add: IsPayToScriptHash_def P2PKH_def)
  show ?thesis
    unfolding GetScriptForDestination_P2PKH [OF assms(1)]
    using assms p n EvalScript_push_two [of sig pk E flags] EvalScript_P2PKH [of h sig E flags pk]
    by (simp add: VerifyScript_def top_true_def bool_vch_def vchTrue_def vchFalse_def
        split: option.split)
qed

theorem p2pkh_spend_witness:
  "VerifyScript demo_env 1 (push_data (push_data [] [4, 9]) [4, 8]) (GetScriptForDestination (CKeyID (replicate 20 4))) =
    Some (Inr ())"
proof -
  have "Hash160 demo_env [4, 8] = replicate 20 4" "check_encodings demo_env 1 [4, 9] [4, 8] = None"
    "CheckSig demo_env [4, 9] [4, 8] c" for c
    by (simp_all add: demo_env_def check_encodings_def CheckSignatureEncoding_def CheckPubKeyEncoding_def
        flag_set_def verify_flag_defs)
  moreover have "xs \<noteq> replicate 20 4" if "length xs \<noteq> 20" for xs :: bytes using that by auto
  ultimately show ?thesis
    using p2pkh_spend [of "replicate 20 4" "[4, 9]" "[4, 8]" demo_env 1] by (simp del: GetScriptForDestination.simps)
qed


text \<open>C32:
  The greedy loop of \<open>OP_CHECKMULTISIG\<close> is complete: when every signature and key passes the
  encoding checks, it succeeds if and only if some subsequence of the keys, in order, signs for the
  signatures one by one.\<close>

theorem multisig_loop_complete:
  assumes "\<forall>sig \<in> set sigs. \<forall>key \<in> set keys. check_encodings E flags sig key = None"
  shows "multisig_loop E flags code sigs keys = Inr (signed_by E code sigs keys)"
  using assms
proof (induction E flags code sigs keys rule: multisig_loop.induct)
  case (1 E flags code keys)
  then show ?case by simp
next
  case (2 E flags code sig sigs)
  then show ?case using signed_by_length [of E code "sig # sigs" "[]"] by auto
next
  case (3 E flags code sig sigs key keys)
  let ?left = "if CheckSig E sig key code then sigs else sig # sigs"
  have e: "check_encodings E flags sig key = None" using "3.prems" by simp
  have s: "signed_by E code (sig # sigs) (key # keys) = signed_by E code ?left keys"
    by (simp add: signed_by_hit signed_by_miss)
  show ?case
  proof (cases "length keys < length ?left")
    case True
    then show ?thesis using e s signed_by_length [of E code ?left keys] by (auto simp: Let_def)
  next
    case False
    have "multisig_loop E flags code ?left keys = Inr (signed_by E code ?left keys)"
      by (rule "3.IH" [OF e refl False]) (use "3.prems" in auto)
    then show ?thesis using e s False by (simp only: multisig_loop.simps option.case Let_def if_False)
  qed
qed

theorem multisig_loop_complete_witness:
  "multisig_loop demo_env 0 [] [[1, 1], [3, 1]] [[1, 0], [2, 0], [3, 0]] = Inr True"
proof -
  have e: "check_encodings demo_env 0 sig key = None" for sig key
    by (simp add: check_encodings_def CheckSignatureEncoding_def CheckPubKeyEncoding_def flag_set_def)
  have "subseq [[1, 0], [3, 0 :: byte]] [[1, 0], [2, 0], [3, 0]]" by simp
  then have "signed_by demo_env [] [[1, 1], [3, 1]] [[1, 0], [2, 0], [3, 0]]"
    unfolding signed_by_def by (intro exI [of _ "[[1, 0], [3, 0]]"]) (simp add: demo_env_def)
  then show ?thesis
    using multisig_loop_complete [of "[[1, 1], [3, 1]]" "[[1, 0], [2, 0], [3, 0]]" demo_env 0 "[]"] e by simp
qed

text \<open>\<open>IsValidSignatureEncoding\<close> accepts exactly the strict DER encodings followed by a hash type
  byte: a compound of two integers of at most 66 bytes together, each non-empty, not negative and
  without a superfluous leading zero.\<close>

theorem signature_encoding_is_strict_DER:
  "IsValidSignatureEncoding sig \<longleftrightarrow>
    (\<exists>r s hashtype. sig = der_sig r s hashtype \<and> length r + length s \<le> 66 \<and> der_int r \<and> der_int s)"
  using der_sig_IsValid IsValid_der_sig by blast

end
