(* ===== verification/Transaction.thy ===== *)
theory Transaction
  imports BlockIndex Standard
begin

text \<open>
  Transactions: \<open>src/src/primitives/transaction.h\<close> and \<open>.cpp\<close>, fees of \<open>src/src/amount.cpp\<close>,
  sizes of \<open>src/src/serialize.h\<close>, and the context-free checks of \<open>src/src/main.cpp\<close>. The id of a
  transaction is the field the code caches its hash in. Amounts are \<open>int64_t\<close>: an \<open>int\<close> that
  additions wrap to 64 bits with \<open>add64\<close>, as the compiled code does.
\<close>

section \<open>Data\<close>

record COutPoint =
  op_hash :: hash256
  op_n :: uint32

record CTxIn =
  prevout :: COutPoint
  scriptSig :: bytes
  nSequence :: uint32

record CTxOut =
  nValue :: int
  scriptPubKey :: bytes
  nRounds :: int

record CTransaction =
  txid :: hash256
  tx_nVersion :: int
  vin :: "CTxIn list"
  vout :: "CTxOut list"
  nLockTime :: uint32

definition add64 :: "int \<Rightarrow> int \<Rightarrow> int" where
  "add64 a b = signed_take_bit 63 (a + b)"

definition COutPoint_null :: COutPoint where
  "COutPoint_null = \<lparr>op_hash = 0, op_n = - 1\<rparr>"

definition COutPoint_IsNull :: "COutPoint \<Rightarrow> bool" where
  "COutPoint_IsNull out \<longleftrightarrow> op_hash out = 0 \<and> op_n out = - 1"

definition COutPoint_less :: "COutPoint \<Rightarrow> COutPoint \<Rightarrow> bool" where
  "COutPoint_less a b \<longleftrightarrow> op_hash a < op_hash b \<or> (op_hash a = op_hash b \<and> op_n a < op_n b)"

definition CTxIn_IsFinal :: "CTxIn \<Rightarrow> bool" where
  "CTxIn_IsFinal txin \<longleftrightarrow> nSequence txin = - 1"

definition CTxIn_IsZerocoinSpend :: "CTxIn \<Rightarrow> bool" where
  "CTxIn_IsZerocoinSpend txin \<longleftrightarrow> op_hash (prevout txin) = 0 \<and> IsZerocoinSpend (scriptSig txin)"

definition CTxIn_IsZerocoinPublicSpend :: "CTxIn \<Rightarrow> bool" where
  "CTxIn_IsZerocoinPublicSpend txin \<longleftrightarrow> IsZerocoinPublicSpend (scriptSig txin)"

definition CTxOut_null :: CTxOut where
  "CTxOut_null = \<lparr>nValue = -1, scriptPubKey = [], nRounds = -10\<rparr>"

definition CTxOut_IsNull :: "CTxOut \<Rightarrow> bool" where
  "CTxOut_IsNull out \<longleftrightarrow> nValue out = -1"

definition CTxOut_SetEmpty :: "CTxOut \<Rightarrow> CTxOut" where
  "CTxOut_SetEmpty out = out\<lparr>nValue := 0, scriptPubKey := []\<rparr>"

definition CTxOut_IsEmpty :: "CTxOut \<Rightarrow> bool" where
  "CTxOut_IsEmpty out \<longleftrightarrow> nValue out = 0 \<and> scriptPubKey out = []"

definition CTxOut_IsZerocoinMint :: "CTxOut \<Rightarrow> bool" where
  "CTxOut_IsZerocoinMint out \<longleftrightarrow> IsZerocoinMint (scriptPubKey out)"

definition CTxOut_GetZerocoinMinted :: "CTxOut \<Rightarrow> int" where
  "CTxOut_GetZerocoinMinted out = (if \<not> CTxOut_IsZerocoinMint out then 0 else nValue out)"

section \<open>Transactions\<close>

definition HasZerocoinSpendInputs :: "CTransaction \<Rightarrow> bool" where
  "HasZerocoinSpendInputs tx \<longleftrightarrow>
     list_ex (\<lambda>txin. CTxIn_IsZerocoinSpend txin \<or> CTxIn_IsZerocoinPublicSpend txin) (vin tx)"

definition HasZerocoinPublicSpendInputs :: "CTransaction \<Rightarrow> bool" where
  "HasZerocoinPublicSpendInputs tx \<longleftrightarrow> list_ex CTxIn_IsZerocoinPublicSpend (vin tx)"

definition HasZerocoinMintOutputs :: "CTransaction \<Rightarrow> bool" where
  "HasZerocoinMintOutputs tx \<longleftrightarrow> list_ex CTxOut_IsZerocoinMint (vout tx)"

definition ContainsZerocoins :: "CTransaction \<Rightarrow> bool" where
  "ContainsZerocoins tx \<longleftrightarrow>
     HasZerocoinSpendInputs tx \<or> HasZerocoinPublicSpendInputs tx \<or> HasZerocoinMintOutputs tx"

definition CTransaction_IsNull :: "CTransaction \<Rightarrow> bool" where
  "CTransaction_IsNull tx \<longleftrightarrow> vin tx = [] \<and> vout tx = []"

definition IsCoinBase :: "CTransaction \<Rightarrow> bool" where
  "IsCoinBase tx \<longleftrightarrow> length (vin tx) = 1 \<and> COutPoint_IsNull (prevout (vin tx ! 0)) \<and> \<not> ContainsZerocoins tx"

definition IsCoinStake :: "CTransaction \<Rightarrow> bool" where
  "IsCoinStake tx =
     (if vin tx = [] then False
      else
        let fAllowNull = CTxIn_IsZerocoinSpend (vin tx ! 0)
        in if COutPoint_IsNull (prevout (vin tx ! 0)) \<and> \<not> fAllowNull then False
           else 2 \<le> length (vout tx) \<and> CTxOut_IsEmpty (vout tx ! 0))"

text \<open>\<open>None\<close> is an index out of range; the callers pass an output of a coinstake.\<close>

definition IsMasternodeReward :: "COutPoint \<Rightarrow> CTransaction \<Rightarrow> bool option" where
  "IsMasternodeReward out tx =
     (if \<not> IsCoinStake tx then Some False
      else if unat (op_n out) \<noteq> length (vout tx) - 1 then Some False
      else if unat (op_n out) < length (vout tx)
      then Some (scriptPubKey (vout tx ! 1) \<noteq> scriptPubKey (vout tx ! unat (op_n out))) else None)"

datatype value_error = ValueNegative | ValueWraps

fun value_out_loop :: "CTxOut list \<Rightarrow> int \<Rightarrow> value_error + int" where
  "value_out_loop [] nValueOut = Inr nValueOut"
| "value_out_loop (it # outs) nValueOut =
     (if nValue it < 0 then Inl ValueNegative
      else if add64 nValueOut (nValue it) < nValueOut then Inl ValueWraps
      else value_out_loop outs (add64 nValueOut (nValue it)))"

definition GetValueOut :: "CTransaction \<Rightarrow> value_error + int" where
  "GetValueOut tx = value_out_loop (vout tx) 0"

definition GetZerocoinMinted :: "CTransaction \<Rightarrow> int" where
  "GetZerocoinMinted tx = foldl (\<lambda>s out. add64 s (CTxOut_GetZerocoinMinted out)) 0 (vout tx)"

definition GetZerocoinSpent :: "CTransaction \<Rightarrow> int" where
  "GetZerocoinSpent tx =
     foldl (\<lambda>s txin. if \<not> CTxIn_IsZerocoinSpend txin then s else add64 s (uint (nSequence txin) * COIN)) 0 (vin tx)"

definition GetZerocoinMintCount :: "CTransaction \<Rightarrow> nat" where
  "GetZerocoinMintCount tx = length (filter CTxOut_IsZerocoinMint (vout tx))"

definition UsesUTXO :: "CTransaction \<Rightarrow> COutPoint \<Rightarrow> bool" where
  "UsesUTXO tx out \<longleftrightarrow> list_ex (\<lambda>txin. prevout txin = out) (vin tx)"

definition GetOutPoints :: "CTransaction \<Rightarrow> COutPoint list" where
  "GetOutPoints tx = map (\<lambda>i. \<lparr>op_hash = txid tx, op_n = of_nat i\<rparr>) [0..<length (vout tx)]"

section \<open>Sizes and fees\<close>

definition GetSizeOfCompactSize :: "nat \<Rightarrow> nat" where
  "GetSizeOfCompactSize nSize =
     (if nSize < 253 then 1 else if nSize \<le> 65535 then 3 else if nSize \<le> 4294967295 then 5 else 9)"

definition script_size :: "bytes \<Rightarrow> nat" where
  "script_size s = GetSizeOfCompactSize (length s) + length s"

definition CTxIn_size :: "CTxIn \<Rightarrow> nat" where
  "CTxIn_size txin = 36 + script_size (scriptSig txin) + 4"

definition CTxOut_size :: "CTxOut \<Rightarrow> nat" where
  "CTxOut_size out = 8 + script_size (scriptPubKey out)"

definition CTransaction_size :: "CTransaction \<Rightarrow> nat" where
  "CTransaction_size tx =
     4 + GetSizeOfCompactSize (length (vin tx)) + sum_list (map CTxIn_size (vin tx))
       + GetSizeOfCompactSize (length (vout tx)) + sum_list (map CTxOut_size (vout tx)) + 4"

definition CalculateModifiedSize :: "CTransaction \<Rightarrow> nat \<Rightarrow> nat" where
  "CalculateModifiedSize tx nTxSize =
     foldl (\<lambda>sz txin. let offset = 41 + min 110 (length (scriptSig txin)) in if offset < sz then sz - offset else sz)
       (if nTxSize = 0 then CTransaction_size tx else nTxSize) (vin tx)"

text \<open>\<open>CAmount * size_t\<close> and the division are done in \<open>uint64_t\<close>.\<close>

definition CFeeRate_of :: "int \<Rightarrow> nat \<Rightarrow> int" where
  "CFeeRate_of nFeePaid nSize =
     (if 0 < nSize then sint ((of_int (nFeePaid * 1000) :: uint64) div of_nat nSize) else 0)"

definition GetFee :: "int \<Rightarrow> nat \<Rightarrow> int" where
  "GetFee nSatoshisPerK nSize =
     (let nFee = sint ((of_int nSatoshisPerK * of_nat nSize :: uint64) div 1000)
      in if nFee = 0 \<and> 0 < nSatoshisPerK then nSatoshisPerK else nFee)"

definition IsDust :: "int \<Rightarrow> CTxOut \<Rightarrow> bool" where
  "IsDust minRelayTxFee out \<longleftrightarrow> nValue out < 3 * GetFee minRelayTxFee (CTxOut_size out + 148)"

end
