(* ===== verification/TxCheck.thy ===== *)
theory TxCheck
  imports Transaction
begin

text \<open>
  The checks of a transaction that need no coins: \<open>IsFinalTx\<close>, \<open>IsStandardTx\<close>,
  \<open>GetLegacySigOpCount\<close> and \<open>CheckTransaction\<close> of \<open>src/src/main.cpp\<close>. A failed check is
  \<open>Inl\<close> of the score passed to \<open>CValidationState::DoS\<close> and the reason of the rejection.
  The zerocoin checks, which verify proofs of the zerocoin library, are functions of an environment.
\<close>

type_synonym 'a validation = "(nat \<times> string) + 'a"

definition MAX_STANDARD_TX_SIZE :: nat where "MAX_STANDARD_TX_SIZE = 100000"
definition MAX_ZEROCOIN_TX_SIZE :: nat where "MAX_ZEROCOIN_TX_SIZE = 150000"
definition LOCKTIME_THRESHOLD :: int where "LOCKTIME_THRESHOLD = 500000000"
definition nMaxZerocoinSpendsPerTransaction :: nat where "nMaxZerocoinSpendsPerTransaction = 7"
definition nMaxZerocoinPublicSpendsPerTransaction :: nat where "nMaxZerocoinPublicSpendsPerTransaction = 637"

section \<open>Finality and standardness\<close>

text \<open>\<open>chainHeight\<close> and \<open>adjustedTime\<close> are what the code reads when an argument is 0.\<close>

definition IsFinalTx :: "int \<Rightarrow> int \<Rightarrow> CTransaction \<Rightarrow> int \<Rightarrow> int \<Rightarrow> bool" where
  "IsFinalTx chainHeight adjustedTime tx nBlockHeight nBlockTime =
     (if nLockTime tx = 0 then True
      else
        let nBlockHeight = (if nBlockHeight = 0 then chainHeight else nBlockHeight);
            nBlockTime = (if nBlockTime = 0 then adjustedTime else nBlockTime)
        in if uint (nLockTime tx) < (if uint (nLockTime tx) < LOCKTIME_THRESHOLD then nBlockHeight else nBlockTime)
           then True
           else list_all CTxIn_IsFinal (vin tx))"

fun standard_inputs :: "CTxIn list \<Rightarrow> string + unit" where
  "standard_inputs [] = Inr ()"
| "standard_inputs (txin # rest) =
     (if CTxIn_IsZerocoinSpend txin \<or> CTxIn_IsZerocoinPublicSpend txin then standard_inputs rest
      else if 1650 < length (scriptSig txin) then Inl ''scriptsig-size''
      else if \<not> IsPushOnly (scriptSig txin) then Inl ''scriptsig-not-pushonly''
      else standard_inputs rest)"

record standard_env =
  se_datacarrier :: bool
  se_nMaxDatacarrierBytes :: nat
  se_fIsBareMultisigStd :: bool
  se_minRelayTxFee :: int
  se_chainHeight :: int
  se_adjustedTime :: int

text \<open>The outer option is \<open>None\<close> where \<open>Solver\<close> reads out of range; the number is \<open>nDataOut\<close>.\<close>

fun standard_outputs :: "standard_env \<Rightarrow> CTxOut list \<Rightarrow> nat \<Rightarrow> (string + nat) option" where
  "standard_outputs E [] nDataOut = Some (Inr nDataOut)"
| "standard_outputs E (txout # rest) nDataOut =
     (case IsStandard (se_datacarrier E) (se_nMaxDatacarrierBytes E) (scriptPubKey txout) of
        None \<Rightarrow> None
      | Some (ok, whichType) \<Rightarrow>
          if \<not> ok then Some (Inl ''scriptpubkey'')
          else if whichType = TX_NULL_DATA then standard_outputs E rest (nDataOut + 1)
          else if whichType = TX_MULTISIG \<and> \<not> se_fIsBareMultisigStd E then Some (Inl ''bare-multisig'')
          else if IsDust (se_minRelayTxFee E) txout then Some (Inl ''dust'')
          else standard_outputs E rest nDataOut)"

definition IsStandardTx :: "standard_env \<Rightarrow> CTransaction \<Rightarrow> (string + unit) option" where
  "IsStandardTx E tx =
     (if 1 < tx_nVersion tx \<or> tx_nVersion tx < 1 then Some (Inl ''version'')
      else if \<not> IsFinalTx (se_chainHeight E) (se_adjustedTime E) tx (se_chainHeight E + 1) 0
        then Some (Inl ''non-final'')
      else if (if ContainsZerocoins tx then MAX_ZEROCOIN_TX_SIZE else MAX_STANDARD_TX_SIZE) \<le> CTransaction_size tx
        then Some (Inl ''tx-size'')
      else case standard_inputs (vin tx) of
        Inl e \<Rightarrow> Some (Inl e)
      | Inr _ \<Rightarrow>
          (case standard_outputs E (vout tx) 0 of
             None \<Rightarrow> None
           | Some (Inl e) \<Rightarrow> Some (Inl e)
           | Some (Inr nDataOut) \<Rightarrow> if 1 < nDataOut then Some (Inl ''multi-op-return'') else Some (Inr ())))"

definition GetLegacySigOpCount :: "CTransaction \<Rightarrow> nat" where
  "GetLegacySigOpCount tx =
     sum_list (map (\<lambda>txin. GetSigOpCount (scriptSig txin) False) (vin tx)) +
     sum_list (map (\<lambda>txout. GetSigOpCount (scriptPubKey txout) False) (vout tx))"

section \<open>The context-free check\<close>

record check_env =
  ce_params :: CChainParams
  fZerocoinActive :: bool
  CheckZerocoinMint :: "hash256 \<Rightarrow> CTxOut \<Rightarrow> bool"
  CheckZerocoinSpend :: "CTransaction \<Rightarrow> bool"

fun check_outputs :: "check_env \<Rightarrow> CTransaction \<Rightarrow> CTxOut list \<Rightarrow> int \<Rightarrow> unit validation" where
  "check_outputs E tx [] nValueOut = Inr ()"
| "check_outputs E tx (txout # rest) nValueOut =
     (if CTxOut_IsEmpty txout \<and> \<not> IsCoinBase tx \<and> \<not> IsCoinStake tx then Inl (100, '''')
      else if nValue txout < 0 then Inl (100, ''bad-txns-vout-negative'')
      else if nMaxMoneyOut (ce_params E) < nValue txout then Inl (100, ''bad-txns-vout-toolarge'')
      else
        let nValueOut = add64 nValueOut (nValue txout)
        in if \<not> MoneyRange (ce_params E) nValueOut then Inl (100, ''bad-txns-txouttotal-toolarge'')
           else if fZerocoinActive E \<and> CTxOut_IsZerocoinMint txout \<and> \<not> CheckZerocoinMint E (txid tx) txout
             then Inl (100, '''')
           else check_outputs E tx rest nValueOut)"

text \<open>The duplicate check; the result is \<open>nZCSpendCount\<close>.\<close>

fun check_duplicates :: "CTxIn list \<Rightarrow> COutPoint set \<Rightarrow> nat \<Rightarrow> nat validation" where
  "check_duplicates [] vInOutPoints nZCSpendCount = Inr nZCSpendCount"
| "check_duplicates (txin # rest) vInOutPoints nZCSpendCount =
     (if prevout txin \<in> vInOutPoints then Inl (100, ''bad-txns-inputs-duplicate'')
      else if \<not> CTxIn_IsZerocoinSpend txin
        then check_duplicates rest (insert (prevout txin) vInOutPoints) nZCSpendCount
      else if \<not> CTxIn_IsZerocoinPublicSpend txin then check_duplicates rest vInOutPoints (nZCSpendCount + 1)
      else check_duplicates rest vInOutPoints nZCSpendCount)"

definition check_zerocoin :: "check_env \<Rightarrow> CTransaction \<Rightarrow> nat \<Rightarrow> unit validation" where
  "check_zerocoin E tx nZCSpendCount =
     (if \<not> fZerocoinActive E then Inr ()
      else if nMaxZerocoinSpendsPerTransaction < nZCSpendCount then Inl (100, '''')
      else if HasZerocoinSpendInputs tx then
        (if list_ex (\<lambda>txin. \<not> CTxIn_IsZerocoinSpend txin \<and> \<not> CTxIn_IsZerocoinPublicSpend txin) (vin tx)
           then Inl (100, '''')
         else if \<not> CheckZerocoinSpend E tx then Inl (100, '''')
         else Inr ())
      else Inr ())"

definition check_shape :: "check_env \<Rightarrow> CTransaction \<Rightarrow> unit validation" where
  "check_shape E tx =
     (if IsCoinBase tx then
        (if length (scriptSig (vin tx ! 0)) < 2 \<or> 150 < length (scriptSig (vin tx ! 0))
         then Inl (100, ''bad-cb-length'') else Inr ())
      else if fZerocoinActive E \<and> HasZerocoinSpendInputs tx then
        (if length (vin tx) < 1 then Inl (10, ''bad-zerocoinspend'')
         else if HasZerocoinPublicSpendInputs tx then
           (if nMaxZerocoinPublicSpendsPerTransaction < length (vin tx) then Inl (10, ''bad-zerocoinspend'') else Inr ())
         else
           (if nMaxZerocoinSpendsPerTransaction < length (vin tx) then Inl (10, ''bad-zerocoinspend'') else Inr ()))
      else if list_ex (\<lambda>txin. COutPoint_IsNull (prevout txin) \<and> fZerocoinActive E \<and> \<not> CTxIn_IsZerocoinSpend txin) (vin tx)
        then Inl (10, ''bad-txns-prevout-null'')
      else Inr ())"

definition CheckTransaction :: "check_env \<Rightarrow> CTransaction \<Rightarrow> unit validation" where
  "CheckTransaction E tx =
     (if vin tx = [] then Inl (10, ''bad-txns-vin-empty'')
      else if vout tx = [] then Inl (10, ''bad-txns-vout-empty'')
      else if MAX_ZEROCOIN_TX_SIZE < CTransaction_size tx then Inl (100, ''bad-txns-oversize'')
      else case check_outputs E tx (vout tx) 0 of
        Inl e \<Rightarrow> Inl e
      | Inr _ \<Rightarrow>
          (case check_duplicates (vin tx) {} 0 of
             Inl e \<Rightarrow> Inl e
           | Inr nZCSpendCount \<Rightarrow>
               (case check_zerocoin E tx nZCSpendCount of
                  Inl e \<Rightarrow> Inl e
                | Inr _ \<Rightarrow> check_shape E tx)))"

section \<open>Wrapping sums\<close>

lemma add64_exact: "- (2 ^ 63) \<le> a + b \<Longrightarrow> a + b < 2 ^ 63 \<Longrightarrow> add64 a b = a + b"
  unfolding add64_def by (rule signed_take_bit_int_eq_self)

lemma add64_wraps:
  assumes "2 ^ 63 \<le> a + b" "a + b < 2 ^ 64"
  shows "add64 a b = a + b - 2 ^ 64"
proof -
  let ?x = "a + b + 2 ^ 63"
  have "add64 a b = ?x mod 2 ^ 64 - 2 ^ 63"
    unfolding add64_def signed_take_bit_eq_take_bit_shift by (simp add: take_bit_eq_mod)
  also have "?x mod 2 ^ 64 = (?x - 2 ^ 64) mod 2 ^ 64" by (rule minus_mod_self2 [symmetric])
  also have "\<dots> = ?x - 2 ^ 64" using assms by (intro mod_pos_pos_trivial) simp_all
  finally show ?thesis by simp
qed

lemma sum_values_Cons: "sum_list (map nValue (out # outs)) = nValue out + sum_list (map nValue outs)"
  by simp

lemma sum_values_nonneg: "\<forall>out \<in> set outs. 0 \<le> nValue out \<Longrightarrow> 0 \<le> sum_list (map nValue outs)"
  by (induction outs) auto

text \<open>The wrap check of \<open>GetValueOut\<close> finds every overflow.\<close>

lemma value_out_loop_spec:
  assumes "\<forall>out \<in> set outs. nValue out < 2 ^ 63" "0 \<le> acc" "acc < 2 ^ 63"
  shows "value_out_loop outs acc = Inr v \<longleftrightarrow>
    (\<forall>out \<in> set outs. 0 \<le> nValue out) \<and> acc + sum_list (map nValue outs) < 2 ^ 63 \<and>
    v = acc + sum_list (map nValue outs)"
  using assms
proof (induction outs arbitrary: acc)
  case Nil
  then show ?case by auto
next
  case (Cons out outs)
  show ?case
  proof (cases "0 \<le> nValue out")
    case neg: False
    then show ?thesis by simp
  next
    case pos: True
    show ?thesis
    proof (cases "acc + nValue out < 2 ^ 63")
      case True
      then have "add64 acc (nValue out) = acc + nValue out" using pos Cons.prems by (intro add64_exact) simp_all
      then show ?thesis using Cons.IH [of "acc + nValue out"] Cons.prems pos True by (simp add: add.assoc)
    next
      case False
      then have "add64 acc (nValue out) = acc + nValue out - 2 ^ 64" using pos Cons.prems by (intro add64_wraps) simp_all
      then have "value_out_loop (out # outs) acc = Inl ValueWraps" using pos Cons.prems by simp
      moreover have "\<not> acc + sum_list (map nValue (out # outs)) < 2 ^ 63" if "\<forall>out \<in> set outs. 0 \<le> nValue out"
        using False sum_values_nonneg [OF that] by simp
      ultimately show ?thesis by auto
    qed
  qed
qed

section \<open>What the check accepts\<close>

lemma check_outputs_spec:
  assumes "nMaxMoneyOut (ce_params E) < 2 ^ 63" "0 \<le> acc" "acc \<le> nMaxMoneyOut (ce_params E)"
  shows "check_outputs E tx outs acc = Inr () \<longleftrightarrow>
    (\<forall>out \<in> set outs. (CTxOut_IsEmpty out \<longrightarrow> IsCoinBase tx \<or> IsCoinStake tx) \<and> 0 \<le> nValue out \<and>
       (fZerocoinActive E \<and> CTxOut_IsZerocoinMint out \<longrightarrow> CheckZerocoinMint E (txid tx) out)) \<and>
    acc + sum_list (map nValue outs) \<le> nMaxMoneyOut (ce_params E)"
  using assms(2,3)
proof (induction outs arbitrary: acc)
  case Nil
  then show ?case by simp
next
  case (Cons out outs)
  let ?M = "nMaxMoneyOut (ce_params E)"
  show ?case
  proof (cases "0 \<le> nValue out \<and> nValue out \<le> ?M \<and> acc + nValue out \<le> ?M")
    case True
    then have "add64 acc (nValue out) = acc + nValue out" using Cons.prems assms(1) by (intro add64_exact) simp_all
    then show ?thesis using Cons.IH [of "acc + nValue out"] Cons.prems True
      by (auto simp: MoneyRange_def add.assoc)
  next
    case False
    have l: "check_outputs E tx (out # outs) acc \<noteq> Inr ()"
    proof
      assume ok: "check_outputs E tx (out # outs) acc = Inr ()"
      then have r: "0 \<le> nValue out" "nValue out \<le> ?M" "0 \<le> add64 acc (nValue out)" "add64 acc (nValue out) \<le> ?M"
        by (auto simp: MoneyRange_def Let_def split: if_split_asm)
      then have big: "?M < acc + nValue out" using False by simp
      show False
      proof (cases "acc + nValue out < 2 ^ 63")
        case True
        then have "add64 acc (nValue out) = acc + nValue out" using Cons.prems r(1) by (intro add64_exact) simp_all
        then show ?thesis using r(4) big by simp
      next
        case False
        then have "add64 acc (nValue out) = acc + nValue out - 2 ^ 64"
          using Cons.prems r(2) assms(1) by (intro add64_wraps) simp_all
        then show ?thesis using r(2,3) Cons.prems(2) assms(1) by simp
      qed
    qed
    have "\<not> acc + sum_list (map nValue (out # outs)) \<le> ?M"
      if "0 \<le> nValue out" "\<forall>out \<in> set outs. 0 \<le> nValue out"
      using False that Cons.prems sum_values_nonneg [OF that(2)] by auto
    then show ?thesis using l by auto
  qed
qed

lemma check_duplicates_spec:
  "(\<exists>k. check_duplicates ins S n = Inr k) \<longleftrightarrow>
    (\<forall>txin \<in> set ins. prevout txin \<notin> S) \<and>
    sorted_wrt (\<lambda>a b. \<not> CTxIn_IsZerocoinSpend a \<longrightarrow> prevout a \<noteq> prevout b) ins"
proof (induction ins arbitrary: S n)
  case (Cons txin ins)
  then show ?case by (cases "CTxIn_IsZerocoinSpend txin") auto
qed simp

lemma sorted_wrt_distinct: "sorted_wrt (\<lambda>a b. f a \<noteq> f b) xs \<longleftrightarrow> distinct (map f xs)"
  by (induction xs) auto

lemma max_money_int64: "0 \<le> nMaxMoneyOut (Params n)" "nMaxMoneyOut (Params n) < 2 ^ 63"
  by (cases n; simp add: params_defs COIN_def)+

lemma plain_inputs:
  "\<not> ContainsZerocoins tx \<Longrightarrow> txin \<in> set (vin tx) \<Longrightarrow> \<not> CTxIn_IsZerocoinSpend txin"
  by (auto simp: ContainsZerocoins_def HasZerocoinSpendInputs_def list_ex_iff)

lemma plain_outputs:
  "\<not> ContainsZerocoins tx \<Longrightarrow> out \<in> set (vout tx) \<Longrightarrow> \<not> CTxOut_IsZerocoinMint out"
  by (auto simp: ContainsZerocoins_def HasZerocoinMintOutputs_def list_ex_iff)

lemma check_zerocoin_plain:
  assumes "\<not> ContainsZerocoins tx" "check_duplicates (vin tx) {} 0 = Inr k"
  shows "check_zerocoin E tx k = Inr ()"
proof -
  have "check_duplicates ins S n = Inr k \<Longrightarrow> \<forall>txin \<in> set ins. \<not> CTxIn_IsZerocoinSpend txin \<Longrightarrow> k = n" for ins S n
    by (induction ins S n rule: check_duplicates.induct) (auto split: if_split_asm)
  then have "k = 0" using assms plain_inputs by blast
  then show ?thesis using assms(1) by (simp add: check_zerocoin_def ContainsZerocoins_def nMaxZerocoinSpendsPerTransaction_def)
qed

section \<open>Properties\<close>

definition demo_tx :: CTransaction where
  "demo_tx = \<lparr>txid = 77, tx_nVersion = 1,
     vin = [\<lparr>prevout = \<lparr>op_hash = 5, op_n = 0\<rparr>, scriptSig = [], nSequence = - 1\<rparr>],
     vout = [\<lparr>nValue = 40, scriptPubKey = [OP_1], nRounds = -10\<rparr>], nLockTime = 0\<rparr>"

definition demo_check :: check_env where
  "demo_check = \<lparr>ce_params = main_params, fZerocoinActive = True,
     CheckZerocoinMint = (\<lambda>h out. True), CheckZerocoinSpend = (\<lambda>tx. True)\<rparr>"

text \<open>C10:
  A transaction that is no coinbase and touches no zerocoins passes \<open>CheckTransaction\<close> if and only if
  it has inputs and outputs, is at most 150000 bytes long, has no empty output unless it is a
  coinstake, no negative output, a total output within the money range as an exact sum (the 64-bit
  sum never hides an overflow), no two inputs that spend the same output and, once zerocoin is
  active, no null input.\<close>

theorem CheckTransaction_exact:
  assumes "\<not> ContainsZerocoins tx" "\<not> IsCoinBase tx" "ce_params E = Params net"
  shows "CheckTransaction E tx = Inr () \<longleftrightarrow>
    vin tx \<noteq> [] \<and> vout tx \<noteq> [] \<and> CTransaction_size tx \<le> 150000 \<and>
    (\<forall>out \<in> set (vout tx). (CTxOut_IsEmpty out \<longrightarrow> IsCoinStake tx) \<and> 0 \<le> nValue out) \<and>
    sum_list (map nValue (vout tx)) \<le> nMaxMoneyOut (ce_params E) \<and>
    distinct (map prevout (vin tx)) \<and>
    (fZerocoinActive E \<longrightarrow> (\<forall>txin \<in> set (vin tx). \<not> COutPoint_IsNull (prevout txin)))"
proof -
  have o: "check_outputs E tx (vout tx) 0 = Inr () \<longleftrightarrow>
    (\<forall>out \<in> set (vout tx). (CTxOut_IsEmpty out \<longrightarrow> IsCoinStake tx) \<and> 0 \<le> nValue out) \<and>
    sum_list (map nValue (vout tx)) \<le> nMaxMoneyOut (ce_params E)"
    using check_outputs_spec [of E 0 tx "vout tx"] max_money_int64 [of net] assms plain_outputs [OF assms(1)] by auto
  have s: "sorted_wrt (\<lambda>a b. \<not> CTxIn_IsZerocoinSpend a \<longrightarrow> prevout a \<noteq> prevout b) (vin tx) \<longleftrightarrow>
      distinct (map prevout (vin tx))"
    unfolding sorted_wrt_distinct [symmetric]
    by (rule iffI; erule sorted_wrt_mono_rel [rotated]) (auto dest: plain_inputs [OF assms(1)])
  have d: "(\<exists>k. check_duplicates (vin tx) {} 0 = Inr k) \<longleftrightarrow> distinct (map prevout (vin tx))"
    by (simp only: check_duplicates_spec s) simp
  have h: "check_shape E tx = Inr () \<longleftrightarrow>
      (fZerocoinActive E \<longrightarrow> (\<forall>txin \<in> set (vin tx). \<not> COutPoint_IsNull (prevout txin)))"
    using assms(1,2) plain_inputs [OF assms(1)]
    by (auto simp: check_shape_def ContainsZerocoins_def list_ex_iff)
  have "CheckTransaction E tx = Inr () \<longleftrightarrow>
      vin tx \<noteq> [] \<and> vout tx \<noteq> [] \<and> CTransaction_size tx \<le> 150000 \<and> check_outputs E tx (vout tx) 0 = Inr () \<and>
      (\<exists>k. check_duplicates (vin tx) {} 0 = Inr k) \<and> check_shape E tx = Inr ()"
    using check_zerocoin_plain [OF assms(1)]
    by (auto simp: CheckTransaction_def MAX_ZEROCOIN_TX_SIZE_def not_less split: sum.split if_split_asm)
  then show ?thesis by (simp only: o d h conj_assoc)
qed

theorem CheckTransaction_exact_witness: "CheckTransaction demo_check demo_tx = Inr ()"
proof -
  have "\<not> ContainsZerocoins demo_tx" "\<not> IsCoinBase demo_tx" "ce_params demo_check = Params MAIN"
    by (simp_all add: demo_tx_def demo_check_def ContainsZerocoins_def HasZerocoinSpendInputs_def
        HasZerocoinPublicSpendInputs_def HasZerocoinMintOutputs_def CTxIn_IsZerocoinSpend_def
        CTxIn_IsZerocoinPublicSpend_def CTxOut_IsZerocoinMint_def IsZerocoinSpend_def IsZerocoinPublicSpend_def
        IsZerocoinMint_def StartsWithOpcode_def IsCoinBase_def COutPoint_IsNull_def)
  from CheckTransaction_exact [OF this] show ?thesis
    by (simp add: demo_tx_def demo_check_def CTransaction_size_def GetSizeOfCompactSize_def CTxIn_size_def
        CTxOut_size_def script_size_def CTxOut_IsEmpty_def main_params_def COutPoint_IsNull_def)
qed

text \<open>\<open>GetValueOut\<close> returns the exact sum of 64-bit outputs when none is negative and the sum fits
  \<open>int64_t\<close>, and throws otherwise: its comparison after the wrapping addition finds every overflow.\<close>

theorem GetValueOut_exact:
  assumes "\<forall>out \<in> set (vout tx). nValue out < 2 ^ 63"
  shows "GetValueOut tx = Inr v \<longleftrightarrow>
    (\<forall>out \<in> set (vout tx). 0 \<le> nValue out) \<and> sum_list (map nValue (vout tx)) < 2 ^ 63 \<and>
    v = sum_list (map nValue (vout tx))"
  using value_out_loop_spec [OF assms, of 0 v] by (simp add: GetValueOut_def)

theorem GetValueOut_exact_witness: "GetValueOut demo_tx = Inr 40"
  using GetValueOut_exact [of demo_tx 40] by (simp add: demo_tx_def)

end
