(* ===== verification/Coins.thy ===== *)
theory Coins
  imports TxCheck
begin

text \<open>
  The unspent outputs of one transaction: \<open>CCoins\<close> of \<open>src/src/coins.h\<close> and \<open>coins.cpp\<close>, and the
  undo record of a spent output, \<open>CTxInUndo\<close> of \<open>src/src/undo.h\<close>.
\<close>

record CCoins =
  fCoinBase :: bool
  fCoinStake :: bool
  cvout :: "CTxOut list"
  cHeight :: int
  cVersion :: int

record CTxInUndo =
  u_txout :: CTxOut
  u_fCoinBase :: bool
  u_fCoinStake :: bool
  u_nHeight :: int
  u_nVersion :: int

definition CCoins_empty :: CCoins where
  "CCoins_empty = \<lparr>fCoinBase = False, fCoinStake = False, cvout = [], cHeight = 0, cVersion = 0\<rparr>"

definition CTxInUndo_of :: "CTxOut \<Rightarrow> CTxInUndo" where
  "CTxInUndo_of txout =
     \<lparr>u_txout = txout, u_fCoinBase = False, u_fCoinStake = False, u_nHeight = 0, u_nVersion = 0\<rparr>"

definition Clear :: "CCoins \<Rightarrow> CCoins" where
  "Clear c = c\<lparr>fCoinBase := False, fCoinStake := False, cvout := [], cHeight := 0, cVersion := 0\<rparr>"

text \<open>\<open>while (vout.size() > 0 && vout.back().IsNull()) vout.pop_back();\<close>\<close>

function pop_null :: "CTxOut list \<Rightarrow> CTxOut list" where
  "pop_null v = (if v \<noteq> [] \<and> CTxOut_IsNull (last v) then pop_null (butlast v) else v)"
  by pat_completeness auto
termination by (relation "measure length") auto

declare pop_null.simps [simp del]

definition Cleanup :: "CCoins \<Rightarrow> CCoins" where
  "Cleanup c = c\<lparr>cvout := pop_null (cvout c)\<rparr>"

definition ClearUnspendable :: "CCoins \<Rightarrow> CCoins" where
  "ClearUnspendable c = Cleanup (c\<lparr>cvout :=
     map (\<lambda>txout. if IsUnspendable (scriptPubKey txout) then CTxOut_null else txout) (cvout c)\<rparr>)"

definition FromTx :: "CTransaction \<Rightarrow> int \<Rightarrow> CCoins" where
  "FromTx tx nHeightIn = ClearUnspendable
     \<lparr>fCoinBase = IsCoinBase tx, fCoinStake = IsCoinStake tx, cvout = vout tx, cHeight = nHeightIn,
      cVersion = tx_nVersion tx\<rparr>"

definition IsPruned :: "CCoins \<Rightarrow> bool" where
  "IsPruned c \<longleftrightarrow> list_all CTxOut_IsNull (cvout c)"

definition CCoins_eq :: "CCoins \<Rightarrow> CCoins \<Rightarrow> bool" where
  "CCoins_eq a b =
     (if IsPruned a \<and> IsPruned b then True
      else fCoinBase a = fCoinBase b \<and> fCoinStake a = fCoinStake b \<and> cHeight a = cHeight b \<and>
        cVersion a = cVersion b \<and> cvout a = cvout b)"

definition IsAvailable :: "CCoins \<Rightarrow> nat \<Rightarrow> bool" where
  "IsAvailable c nPos \<longleftrightarrow> nPos < length (cvout c) \<and> \<not> CTxOut_IsNull (cvout c ! nPos) \<and>
     \<not> CTxOut_IsZerocoinMint (cvout c ! nPos)"

text \<open>\<open>Spend\<close> returns nothing where the code returns false and leaves the coins alone.\<close>

definition Spend :: "CCoins \<Rightarrow> COutPoint \<Rightarrow> (CCoins \<times> CTxInUndo) option" where
  "Spend c out =
     (let n = unat (op_n out)
      in if length (cvout c) \<le> n then None
         else if CTxOut_IsNull (cvout c ! n) then None
         else
           let undo = CTxInUndo_of (cvout c ! n);
               c' = Cleanup (c\<lparr>cvout := (cvout c)[n := CTxOut_null]\<rparr>)
           in Some (c', if cvout c' = []
                then undo\<lparr>u_nHeight := cHeight c', u_fCoinBase := fCoinBase c', u_fCoinStake := fCoinStake c',
                          u_nVersion := cVersion c'\<rparr>
                else undo))"

text \<open>The size of the spentness bitmask and the number of its non-zero bytes.\<close>

fun mask_loop :: "bool list \<Rightarrow> nat \<Rightarrow> nat \<times> nat \<Rightarrow> nat \<times> nat" where
  "mask_loop [] b acc = acc"
| "mask_loop (x # xs) b (nLastUsedByte, nNonzeroBytes) =
     mask_loop (drop 7 xs) (b + 1)
       (if list_ex id (take 8 (x # xs)) then (b + 1, nNonzeroBytes + 1) else (nLastUsedByte, nNonzeroBytes))"

definition CalcMaskSize :: "CCoins \<Rightarrow> nat \<times> nat" where
  "CalcMaskSize c = mask_loop (map (\<lambda>out. \<not> CTxOut_IsNull out) (drop 2 (cvout c))) 0 (0, 0)"

section \<open>Trailing nulls\<close>

lemma pop_null_rev: "pop_null v = rev (dropWhile CTxOut_IsNull (rev v))"
proof (induction v rule: rev_induct)
  case (snoc x v)
  then show ?case by (subst pop_null.simps) simp
qed (simp add: pop_null.simps)

lemma pop_null_snoc: "pop_null (v @ [x]) = (if CTxOut_IsNull x then pop_null v else v @ [x])"
  by (simp add: pop_null_rev)

lemma pop_null_Nil [simp]: "pop_null [] = []"
  by (simp add: pop_null_rev)

lemma pop_null_eq_Nil: "pop_null v = [] \<longleftrightarrow> list_all CTxOut_IsNull v"
  by (auto simp: pop_null_rev dropWhile_eq_Nil_conv list_all_iff)

lemma pop_null_idem [simp]: "pop_null (pop_null v) = pop_null v"
  by (simp add: pop_null_rev)

lemma pop_null_append: "pop_null (v @ w) = (if list_all CTxOut_IsNull w then pop_null v else v @ pop_null w)"
  by (induction w rule: rev_induct) (auto simp: append_assoc [symmetric] pop_null_snoc simp del: append_assoc)

lemma pop_null_split: "\<exists>k. v = pop_null v @ k \<and> list_all CTxOut_IsNull k"
proof (intro exI conjI)
  show "v = pop_null v @ rev (takeWhile CTxOut_IsNull (rev v))"
    unfolding pop_null_rev by (metis rev_append rev_rev_ident takeWhile_dropWhile_id)
  show "list_all CTxOut_IsNull (rev (takeWhile CTxOut_IsNull (rev v)))"
    by (auto simp: list_all_iff dest: set_takeWhileD)
qed

lemma list_all_pop_null [simp]: "list_all CTxOut_IsNull (pop_null v) \<longleftrightarrow> list_all CTxOut_IsNull v"
  using pop_null_split [of v] by (metis list_all_append pop_null_idem pop_null_eq_Nil)

lemma IsPruned_Cleanup [simp]: "IsPruned (Cleanup c) \<longleftrightarrow> IsPruned c"
  by (simp add: Cleanup_def IsPruned_def)

lemma CTxOut_null_IsNull [simp]: "CTxOut_IsNull CTxOut_null"
  by (simp add: CTxOut_null_def CTxOut_IsNull_def)

end
