(* ===== verification/CoinsView.thy ===== *)
theory CoinsView
  imports Coins "HOL-Library.AList"
begin

text \<open>
  Views of the unspent outputs: the interface \<open>CCoinsView\<close> as a locale, the database
  \<open>CCoinsViewDB\<close> of \<open>src/src/txdb.cpp\<close> over a key-value store, and the write-back cache
  \<open>CCoinsViewCache\<close> of \<open>src/src/coins.cpp\<close>, which is a view over any view. Reads fill the caches
  they pass, so they return the new state too. A \<open>CCoinsModifier\<close> lives for one statement in the
  code: \<open>ModifyCoins\<close> here takes the modification as a function and includes the destructor, so two
  modifiers never overlap. The flags of a cache entry are two booleans.
\<close>

record CCoinsCacheEntry =
  coins :: CCoins
  fDirty :: bool
  fFresh :: bool

text \<open>The entries of an \<open>unordered_map\<close>, in the order of its iteration.\<close>

type_synonym CCoinsMap = "(hash256 \<times> CCoinsCacheEntry) list"

section \<open>The interface\<close>

text \<open>What a view promises about: no coins and coins without an unspent output are the same.\<close>

definition visible :: "CCoins option \<Rightarrow> CCoins option" where
  "visible r = (case r of None \<Rightarrow> None | Some c \<Rightarrow> if IsPruned c then None else Some c)"

definition batch_apply :: "CCoinsMap \<Rightarrow> (hash256 \<Rightarrow> CCoins option) \<Rightarrow> hash256 \<Rightarrow> CCoins option" where
  "batch_apply m A k =
     (case map_of m k of
        Some e \<Rightarrow> if fDirty e then visible (Some (coins e)) else A k
      | None \<Rightarrow> A k)"

text \<open>The batches a view accepts: the flags are true of its contents.\<close>

definition entries_ok :: "(hash256 \<Rightarrow> CCoins option) \<Rightarrow> (hash256 \<Rightarrow> bool) \<Rightarrow> CCoinsMap \<Rightarrow> bool" where
  "entries_ok A known m \<longleftrightarrow> distinct (map fst m) \<and>
     (\<forall>(k, e) \<in> set m. (fFresh e \<longrightarrow> A k = None) \<and> (\<not> fFresh e \<longrightarrow> known k) \<and>
       (\<not> fDirty e \<longrightarrow> visible (Some (coins e)) = A k))"

locale coins_reader =
  fixes GetCoins :: "'s \<Rightarrow> hash256 \<Rightarrow> CCoins option \<times> 's"
    and GetBest :: "'s \<Rightarrow> hash256 \<times> 's"
    and vinv :: "'s \<Rightarrow> bool"
    and absv :: "'s \<Rightarrow> hash256 \<Rightarrow> CCoins option"
    and known :: "'s \<Rightarrow> hash256 \<Rightarrow> bool"
    and best :: "'s \<Rightarrow> hash256"
  assumes GetCoins: "vinv s \<Longrightarrow> GetCoins s k = (r, s') \<Longrightarrow>
      vinv s' \<and> absv s' = absv s \<and> best s' = best s \<and> visible r = absv s k \<and> (r \<noteq> None \<longrightarrow> known s' k) \<and>
      (\<forall>j. known s j \<longrightarrow> known s' j)"
    and GetBest: "vinv s \<Longrightarrow> GetBest s = (h, s') \<Longrightarrow>
      h = best s \<and> vinv s' \<and> absv s' = absv s \<and> best s' = best s \<and> (\<forall>j. known s j \<longrightarrow> known s' j)"

text \<open>A view that can be written takes a batch as a whole.\<close>

locale coins_view = coins_reader GetCoins GetBest vinv absv known best
  for GetCoins :: "'s \<Rightarrow> hash256 \<Rightarrow> CCoins option \<times> 's"
    and GetBest :: "'s \<Rightarrow> hash256 \<times> 's"
    and vinv :: "'s \<Rightarrow> bool"
    and absv :: "'s \<Rightarrow> hash256 \<Rightarrow> CCoins option"
    and known :: "'s \<Rightarrow> hash256 \<Rightarrow> bool"
    and best :: "'s \<Rightarrow> hash256" +
  fixes BatchWrite :: "'s \<Rightarrow> CCoinsMap \<Rightarrow> hash256 \<Rightarrow> 's option"
  assumes BatchWrite: "vinv s \<Longrightarrow> entries_ok (absv s) (known s) m \<Longrightarrow> h \<noteq> 0 \<Longrightarrow>
      \<exists>s'. BatchWrite s m h = Some s' \<and> vinv s' \<and> absv s' = batch_apply m (absv s) \<and> best s' = h"

section \<open>The database\<close>

text \<open>LevelDB as the map it stores; a batch is written as a whole.\<close>

record coins_db =
  db_coins :: "hash256 \<Rightarrow> CCoins option"
  db_best :: "hash256 option"

definition db_GetCoins :: "coins_db \<Rightarrow> hash256 \<Rightarrow> CCoins option \<times> coins_db" where
  "db_GetCoins db txhash = (db_coins db txhash, db)"

definition db_GetBestBlock :: "coins_db \<Rightarrow> hash256 \<times> coins_db" where
  "db_GetBestBlock db = (case db_best db of None \<Rightarrow> 0 | Some h \<Rightarrow> h, db)"

definition BatchWriteCoins :: "(hash256 \<Rightarrow> CCoins option) \<Rightarrow> hash256 \<Rightarrow> CCoins \<Rightarrow> hash256 \<Rightarrow> CCoins option" where
  "BatchWriteCoins batch h c = (if IsPruned c then batch(h := None) else batch(h := Some c))"

fun db_batch_loop :: "CCoinsMap \<Rightarrow> (hash256 \<Rightarrow> CCoins option) \<Rightarrow> hash256 \<Rightarrow> CCoins option" where
  "db_batch_loop [] batch = batch"
| "db_batch_loop ((k, e) # m) batch =
     db_batch_loop m (if fDirty e then BatchWriteCoins batch k (coins e) else batch)"

definition db_BatchWrite :: "coins_db \<Rightarrow> CCoinsMap \<Rightarrow> hash256 \<Rightarrow> coins_db option" where
  "db_BatchWrite db m h =
     Some (db\<lparr>db_coins := db_batch_loop m (db_coins db),
              db_best := (if h \<noteq> 0 then Some h else db_best db)\<rparr>)"

section \<open>The cache\<close>

record 's view_cache =
  base :: 's
  cacheCoins :: CCoinsMap
  hashBlock :: hash256

definition FetchCoins ::
  "('s \<Rightarrow> hash256 \<Rightarrow> CCoins option \<times> 's) \<Rightarrow> 's view_cache \<Rightarrow> hash256 \<Rightarrow>
   CCoinsCacheEntry option \<times> 's view_cache" where
  "FetchCoins GetCoins v txhash =
     (case map_of (cacheCoins v) txhash of
        Some e \<Rightarrow> (Some e, v)
      | None \<Rightarrow>
          (case GetCoins (base v) txhash of
             (None, b) \<Rightarrow> (None, v\<lparr>base := b\<rparr>)
           | (Some tmp, b) \<Rightarrow>
               let e = \<lparr>coins = tmp, fDirty = False, fFresh = IsPruned tmp\<rparr>
               in (Some e, v\<lparr>base := b, cacheCoins := (txhash, e) # cacheCoins v\<rparr>)))"

definition cache_GetCoins ::
  "('s \<Rightarrow> hash256 \<Rightarrow> CCoins option \<times> 's) \<Rightarrow> 's view_cache \<Rightarrow> hash256 \<Rightarrow> CCoins option \<times> 's view_cache" where
  "cache_GetCoins GetCoins v txhash = (case FetchCoins GetCoins v txhash of (r, v') \<Rightarrow> (map_option coins r, v'))"

definition cache_HaveCoins ::
  "('s \<Rightarrow> hash256 \<Rightarrow> CCoins option \<times> 's) \<Rightarrow> 's view_cache \<Rightarrow> hash256 \<Rightarrow> bool \<times> 's view_cache" where
  "cache_HaveCoins GetCoins v txhash =
     (case FetchCoins GetCoins v txhash of
        (r, v') \<Rightarrow> (case r of None \<Rightarrow> False | Some e \<Rightarrow> cvout (coins e) \<noteq> [], v'))"

definition cache_GetBestBlock ::
  "('s \<Rightarrow> hash256 \<times> 's) \<Rightarrow> 's view_cache \<Rightarrow> hash256 \<times> 's view_cache" where
  "cache_GetBestBlock GetBest v =
     (if hashBlock v = 0 then
        (case GetBest (base v) of (h, b) \<Rightarrow> (h, v\<lparr>base := b, hashBlock := h\<rparr>))
      else (hashBlock v, v))"

definition SetBestBlock :: "'s view_cache \<Rightarrow> hash256 \<Rightarrow> 's view_cache" where
  "SetBestBlock v h = v\<lparr>hashBlock := h\<rparr>"

text \<open>\<open>ModifyCoins(txhash)\<close>, the modification and \<open>~CCoinsModifier\<close>.\<close>

definition ModifyCoins ::
  "('s \<Rightarrow> hash256 \<Rightarrow> CCoins option \<times> 's) \<Rightarrow> 's view_cache \<Rightarrow> hash256 \<Rightarrow> (CCoins \<Rightarrow> 'r \<times> CCoins) \<Rightarrow>
   'r \<times> 's view_cache" where
  "ModifyCoins GetCoins v txhash f =
     (let (e, v) =
        (case map_of (cacheCoins v) txhash of
           Some e \<Rightarrow> (e, v)
         | None \<Rightarrow>
             (case GetCoins (base v) txhash of
                (None, b) \<Rightarrow> (\<lparr>coins = Clear CCoins_empty, fDirty = False, fFresh = True\<rparr>, v\<lparr>base := b\<rparr>)
              | (Some c, b) \<Rightarrow> (\<lparr>coins = c, fDirty = False, fFresh = IsPruned c\<rparr>, v\<lparr>base := b\<rparr>)));
          (r, c) = f (coins e);
          e = e\<lparr>coins := Cleanup c, fDirty := True\<rparr>
      in (r, v\<lparr>cacheCoins :=
                (if fFresh e \<and> IsPruned (coins e) then AList.delete txhash (cacheCoins v)
                 else AList.update txhash e (cacheCoins v))\<rparr>))"

text \<open>The loop of \<open>BatchWrite\<close>; \<open>None\<close> is the failed \<open>assert\<close>.\<close>

fun cache_batch_loop :: "CCoinsMap \<Rightarrow> CCoinsMap \<Rightarrow> CCoinsMap option" where
  "cache_batch_loop [] us = Some us"
| "cache_batch_loop ((k, e) # m) us =
     (if fDirty e then
        (case map_of us k of
           None \<Rightarrow>
             if \<not> IsPruned (coins e) then
               (if fFresh e
                then cache_batch_loop m (AList.update k \<lparr>coins = coins e, fDirty = True, fFresh = True\<rparr> us)
                else None)
             else cache_batch_loop m us
         | Some itUs \<Rightarrow>
             if fFresh itUs \<and> IsPruned (coins e) then cache_batch_loop m (AList.delete k us)
             else cache_batch_loop m (AList.update k (itUs\<lparr>coins := coins e, fDirty := True\<rparr>) us))
      else cache_batch_loop m us)"

definition cache_BatchWrite :: "'s view_cache \<Rightarrow> CCoinsMap \<Rightarrow> hash256 \<Rightarrow> 's view_cache option" where
  "cache_BatchWrite v m h =
     map_option (\<lambda>us. v\<lparr>cacheCoins := us, hashBlock := h\<rparr>) (cache_batch_loop m (cacheCoins v))"

definition Flush :: "('s \<Rightarrow> CCoinsMap \<Rightarrow> hash256 \<Rightarrow> 's option) \<Rightarrow> 's view_cache \<Rightarrow> 's view_cache option" where
  "Flush BatchWrite v =
     map_option (\<lambda>b. v\<lparr>base := b, cacheCoins := []\<rparr>) (BatchWrite (base v) (cacheCoins v) (hashBlock v))"

definition new_cache :: "'s \<Rightarrow> 's view_cache" where
  "new_cache b = \<lparr>base = b, cacheCoins = [], hashBlock = 0\<rparr>"

section \<open>The database is a view\<close>

definition db_inv :: "coins_db \<Rightarrow> bool" where
  "db_inv db \<longleftrightarrow> (\<forall>k c. db_coins db k = Some c \<longrightarrow> \<not> IsPruned c)"

definition db_known :: "coins_db \<Rightarrow> hash256 \<Rightarrow> bool" where
  "db_known db k \<longleftrightarrow> True"

definition db_best_hash :: "coins_db \<Rightarrow> hash256" where
  "db_best_hash db = (case db_best db of None \<Rightarrow> 0 | Some h \<Rightarrow> h)"

lemma visible_None [simp]: "visible None = None"
  by (simp add: visible_def)

lemma visible_Some: "visible (Some c) = (if IsPruned c then None else Some c)"
  by (simp add: visible_def)

lemma db_batch_loop_apply: "distinct (map fst m) \<Longrightarrow> db_batch_loop m A = batch_apply m A"
proof (induction m arbitrary: A)
  case Nil
  then show ?case by (simp add: batch_apply_def)
next
  case (Cons p m)
  obtain k e where p: "p = (k, e)" by (cases p)
  have "map_of m k = None" using Cons.prems by (simp add: p map_of_eq_None_iff)
  moreover have "distinct (map fst m)" using Cons.prems by simp
  ultimately show ?case
    by (auto simp: p Cons.IH batch_apply_def BatchWriteCoins_def visible_Some split: option.splits)
qed

lemma batch_apply_not_pruned: "batch_apply m A k = Some c \<Longrightarrow> \<forall>k c. A k = Some c \<longrightarrow> \<not> IsPruned c \<Longrightarrow> \<not> IsPruned c"
  by (auto simp: batch_apply_def visible_Some split: option.splits if_split_asm)

interpretation db: coins_view db_GetCoins db_GetBestBlock db_inv db_coins db_known db_best_hash db_BatchWrite
proof unfold_locales
  fix s k r s'
  assume "db_inv s" "db_GetCoins s k = (r, s')"
  then show "db_inv s' \<and> db_coins s' = db_coins s \<and> db_best_hash s' = db_best_hash s \<and> visible r = db_coins s k \<and>
      (r \<noteq> None \<longrightarrow> db_known s' k) \<and> (\<forall>j. db_known s j \<longrightarrow> db_known s' j)"
    by (auto simp: db_GetCoins_def db_inv_def db_known_def visible_def split: option.splits)
next
  fix s h s'
  assume "db_inv s" "db_GetBestBlock s = (h, s')"
  then show "h = db_best_hash s \<and> db_inv s' \<and> db_coins s' = db_coins s \<and> db_best_hash s' = db_best_hash s \<and>
      (\<forall>j. db_known s j \<longrightarrow> db_known s' j)"
    by (auto simp: db_GetBestBlock_def db_best_hash_def)
next
  fix s m and h :: hash256
  assume "db_inv s" "entries_ok (db_coins s) (db_known s) m" "h \<noteq> 0"
  then show "\<exists>s'. db_BatchWrite s m h = Some s' \<and> db_inv s' \<and> db_coins s' = batch_apply m (db_coins s) \<and> db_best_hash s' = h"
    using batch_apply_not_pruned [of m "db_coins s"]
    by (auto simp: db_BatchWrite_def db_inv_def db_best_hash_def entries_ok_def db_batch_loop_apply)
qed

section \<open>A cache over a view is a view\<close>

definition cabs :: "(hash256 \<Rightarrow> CCoins option) \<Rightarrow> CCoinsMap \<Rightarrow> hash256 \<Rightarrow> CCoins option" where
  "cabs A us k = (case map_of us k of Some e \<Rightarrow> visible (Some (coins e)) | None \<Rightarrow> A k)"

definition cache_abs :: "('s \<Rightarrow> hash256 \<Rightarrow> CCoins option) \<Rightarrow> 's view_cache \<Rightarrow> hash256 \<Rightarrow> CCoins option" where
  "cache_abs absv v = cabs (absv (base v)) (cacheCoins v)"

definition cache_inv ::
  "('s \<Rightarrow> bool) \<Rightarrow> ('s \<Rightarrow> hash256 \<Rightarrow> CCoins option) \<Rightarrow> ('s \<Rightarrow> hash256 \<Rightarrow> bool) \<Rightarrow> 's view_cache \<Rightarrow> bool" where
  "cache_inv vinv absv known v \<longleftrightarrow> vinv (base v) \<and> entries_ok (absv (base v)) (known (base v)) (cacheCoins v)"

definition cache_known :: "'s view_cache \<Rightarrow> hash256 \<Rightarrow> bool" where
  "cache_known v k \<longleftrightarrow> map_of (cacheCoins v) k \<noteq> None"

definition cache_best :: "('s \<Rightarrow> hash256) \<Rightarrow> 's view_cache \<Rightarrow> hash256" where
  "cache_best best v = (if hashBlock v = 0 then best (base v) else hashBlock v)"

lemma entries_ok_map_of:
  "entries_ok A K m \<longleftrightarrow> distinct (map fst m) \<and>
    (\<forall>k e. map_of m k = Some e \<longrightarrow> (fFresh e \<longrightarrow> A k = None) \<and> (\<not> fFresh e \<longrightarrow> K k) \<and>
      (\<not> fDirty e \<longrightarrow> visible (Some (coins e)) = A k))"
  unfolding entries_ok_def by (auto simp: map_of_eq_Some_iff)

lemma entries_ok_mono: "entries_ok A K m \<Longrightarrow> (\<And>k. K k \<Longrightarrow> K' k) \<Longrightarrow> entries_ok A K' m"
  by (auto simp: entries_ok_def)

lemma entries_ok_update:
  assumes "entries_ok A K m" "fFresh e \<Longrightarrow> A k = None" "\<not> fFresh e \<Longrightarrow> K k" "\<not> fDirty e \<Longrightarrow> visible (Some (coins e)) = A k"
  shows "entries_ok A K (AList.update k e m)"
  using assms unfolding entries_ok_map_of by (auto simp: update_conv' distinct_update)

lemma entries_ok_delete: "entries_ok A K m \<Longrightarrow> entries_ok A K (AList.delete k m)"
  unfolding entries_ok_map_of by (auto simp: delete_conv' distinct_delete restrict_map_def)

lemma cabs_update: "cabs A (AList.update k e m) = (cabs A m)(k := visible (Some (coins e)))"
  by (auto simp: cabs_def update_conv' fun_eq_iff)

lemma cabs_read: "map_of m k = None \<Longrightarrow> visible (Some (coins e)) = A k \<Longrightarrow> cabs A ((k, e) # m) = cabs A m"
  by (auto simp: cabs_def fun_eq_iff)

lemma cabs_delete: "A k = None \<Longrightarrow> cabs A (AList.delete k m) = (cabs A m)(k := None)"
  by (auto simp: cabs_def delete_conv' fun_eq_iff)

lemma batch_apply_Cons:
  assumes "k \<notin> fst ` set m"
  shows "batch_apply ((k, e) # m) A = batch_apply m (if fDirty e then A(k := visible (Some (coins e))) else A)"
proof -
  have "map_of m k = None" using assms by (simp add: map_of_eq_None_iff)
  then show ?thesis by (auto simp: batch_apply_def fun_eq_iff split: option.splits)
qed

text \<open>One entry of a batch, and then the loop.\<close>

lemma cache_batch_entry:
  assumes us: "entries_ok A K us" and d: "fDirty e"
    and fresh: "fFresh e \<Longrightarrow> cabs A us k = None" and old: "\<not> fFresh e \<Longrightarrow> map_of us k \<noteq> None"
  shows "\<exists>us'. cache_batch_loop ((k, e) # m) us = cache_batch_loop m us' \<and> entries_ok A K us' \<and>
    cabs A us' = (cabs A us)(k := visible (Some (coins e))) \<and> (\<forall>j. j \<noteq> k \<longrightarrow> map_of us' j = map_of us j)"
proof (cases "map_of us k")
  case None
  then have f: "fFresh e" using old by blast
  then have a: "A k = None" using fresh None by (simp add: cabs_def)
  show ?thesis
  proof (cases "IsPruned (coins e)")
    case True
    then show ?thesis using None d us a by (intro exI [of _ us]) (auto simp: cabs_def visible_Some fun_eq_iff)
  next
    case False
    then show ?thesis using None d us a f
      by (intro exI [of _ "AList.update k \<lparr>coins = coins e, fDirty = True, fFresh = True\<rparr> us"])
         (auto simp: cabs_update update_conv' intro!: entries_ok_update)
  qed
next
  case (Some itUs)
  have i: "fFresh itUs \<Longrightarrow> A k = None" "\<not> fFresh itUs \<Longrightarrow> K k" using us Some by (auto simp: entries_ok_map_of)
  show ?thesis
  proof (cases "fFresh itUs \<and> IsPruned (coins e)")
    case True
    then show ?thesis using Some d us i
      by (intro exI [of _ "AList.delete k us"]) (auto simp: cabs_delete visible_Some delete_conv' entries_ok_delete)
  next
    case False
    then show ?thesis using Some d us i
      by (intro exI [of _ "AList.update k (itUs\<lparr>coins := coins e, fDirty := True\<rparr>) us"])
         (auto simp: cabs_update update_conv' intro!: entries_ok_update)
  qed
qed

lemma cache_batch_loop_apply:
  assumes "entries_ok A K us" "distinct (map fst m)"
    "\<forall>(k, e) \<in> set m. (fFresh e \<longrightarrow> cabs A us k = None) \<and> (\<not> fFresh e \<longrightarrow> map_of us k \<noteq> None)"
  shows "\<exists>us'. cache_batch_loop m us = Some us' \<and> entries_ok A K us' \<and> cabs A us' = batch_apply m (cabs A us)"
  using assms
proof (induction m arbitrary: us)
  case Nil
  then show ?case by (simp add: batch_apply_def)
next
  case (Cons p m)
  obtain k e where p: "p = (k, e)" by (cases p)
  have k: "k \<notin> fst ` set m" "distinct (map fst m)" using Cons.prems(2) by (auto simp: p)
  show ?case
  proof (cases "fDirty e")
    case False
    then show ?thesis using Cons.IH [OF Cons.prems(1) k(2)] Cons.prems(3) by (simp add: p batch_apply_Cons [OF k(1)])
  next
    case True
    obtain us1 where u: "cache_batch_loop ((k, e) # m) us = cache_batch_loop m us1" "entries_ok A K us1"
      "cabs A us1 = (cabs A us)(k := visible (Some (coins e)))" "\<forall>j. j \<noteq> k \<longrightarrow> map_of us1 j = map_of us j"
      using cache_batch_entry [OF Cons.prems(1) True, of k m] Cons.prems(3) by (auto simp: p)
    have "\<forall>(j, e) \<in> set m. (fFresh e \<longrightarrow> cabs A us1 j = None) \<and> (\<not> fFresh e \<longrightarrow> map_of us1 j \<noteq> None)"
    proof (clarify, rename_tac j f)
      fix j f
      assume j: "(j, f) \<in> set m"
      then have "j \<noteq> k" using k(1) by force
      moreover have "(fFresh f \<longrightarrow> cabs A us j = None) \<and> (\<not> fFresh f \<longrightarrow> map_of us j \<noteq> None)"
        using Cons.prems(3) j by (auto simp: p)
      ultimately show "(fFresh f \<longrightarrow> cabs A us1 j = None) \<and> (\<not> fFresh f \<longrightarrow> map_of us1 j \<noteq> None)"
        using u(3,4) by simp
    qed
    from Cons.IH [OF u(2) k(2) this] obtain us' where "cache_batch_loop m us1 = Some us'" "entries_ok A K us'"
      "cabs A us' = batch_apply m (cabs A us1)" by blast
    then show ?thesis unfolding p u(1) batch_apply_Cons [OF k(1)] u(3) [symmetric] by (simp add: True u(3))
  qed
qed

context coins_reader
begin

lemma FetchCoins_spec:
  assumes i: "cache_inv vinv absv known v" and f: "FetchCoins GetCoins v k = (r, v')"
  shows "cache_inv vinv absv known v' \<and> cache_abs absv v' = cache_abs absv v \<and> cache_best best v' = cache_best best v \<and>
    visible (map_option coins r) = cache_abs absv v k \<and> r = map_of (cacheCoins v') k \<and>
    (\<forall>j. cache_known v j \<longrightarrow> cache_known v' j)"
proof (cases "map_of (cacheCoins v) k")
  case (Some e)
  then show ?thesis using f i by (auto simp: FetchCoins_def cache_abs_def cabs_def split: option.splits)
next
  case None
  obtain c b where g: "GetCoins (base v) k = (c, b)" by (cases "GetCoins (base v) k")
  have b: "vinv b" "absv b = absv (base v)" "best b = best (base v)" "visible c = absv (base v) k"
    "c \<noteq> None \<Longrightarrow> known b k" "\<And>j. known (base v) j \<Longrightarrow> known b j"
    using GetCoins [OF _ g] i by (auto simp: cache_inv_def)
  have e: "entries_ok (absv b) (known b) (cacheCoins v)"
    using i b(2,6) entries_ok_mono unfolding cache_inv_def by metis
  show ?thesis
  proof (cases c)
    case None': None
    then show ?thesis using None f g b e
      by (auto simp: FetchCoins_def cache_inv_def cache_abs_def cabs_def cache_best_def cache_known_def)
  next
    case (Some tmp)
    let ?e = "\<lparr>coins = tmp, fDirty = False, fFresh = IsPruned tmp\<rparr>"
    have v': "r = Some ?e" "v' = v\<lparr>base := b, cacheCoins := (k, ?e) # cacheCoins v\<rparr>"
      using f g None Some by (simp_all add: FetchCoins_def Let_def)
    have "entries_ok (absv b) (known b) ((k, ?e) # cacheCoins v)"
      using e b None Some by (auto simp: entries_ok_def visible_Some map_of_eq_None_iff)
    moreover have "cabs (absv b) ((k, ?e) # cacheCoins v) = cabs (absv b) (cacheCoins v)"
      using b Some None by (intro cabs_read) simp_all
    moreover have "cabs (absv b) (cacheCoins v) k = visible (Some tmp)"
      using b Some None by (simp add: cabs_def)
    ultimately show ?thesis using b
      by (auto simp: v' cache_inv_def cache_abs_def cache_best_def cache_known_def)
  qed
qed

text \<open>The modifier sees the coins of the view, any coins without an output standing for none.\<close>

lemma ModifyCoins_spec:
  assumes i: "cache_inv vinv absv known v" and m: "ModifyCoins GetCoins v k f = (r, v')"
  obtains c where "visible (Some c) = cache_abs absv v k" "r = fst (f c)"
    "cache_abs absv v' = (cache_abs absv v)(k := visible (Some (Cleanup (snd (f c)))))"
    "cache_inv vinv absv known v'" "cache_best best v' = cache_best best v"
proof -
  let ?entry = "\<lambda>e v1. \<exists>b. v1 = v\<lparr>base := b\<rparr> \<and> vinv b \<and> absv b = absv (base v) \<and> best b = best (base v) \<and>
    entries_ok (absv b) (known b) (cacheCoins v) \<and> visible (Some (coins e)) = cache_abs absv v k \<and>
    (fFresh e \<longrightarrow> absv b k = None) \<and> (\<not> fFresh e \<longrightarrow> known b k)"
  obtain e v1 where e: "?entry e v1"
    "ModifyCoins GetCoins v k f =
       (let (r, c) = f (coins e); e = e\<lparr>coins := Cleanup c, fDirty := True\<rparr>
        in (r, v1\<lparr>cacheCoins := (if fFresh e \<and> IsPruned (coins e) then AList.delete k (cacheCoins v1)
              else AList.update k e (cacheCoins v1))\<rparr>))"
  proof (cases "map_of (cacheCoins v) k")
    case (Some e)
    have "?entry e v" using Some i
      by (intro exI [of _ "base v"]) (auto simp: cache_inv_def entries_ok_map_of cache_abs_def cabs_def)
    moreover have "ModifyCoins GetCoins v k f =
       (let (r, c) = f (coins e); e = e\<lparr>coins := Cleanup c, fDirty := True\<rparr>
        in (r, v\<lparr>cacheCoins := (if fFresh e \<and> IsPruned (coins e) then AList.delete k (cacheCoins v)
              else AList.update k e (cacheCoins v))\<rparr>))"
      using Some by (simp add: ModifyCoins_def)
    ultimately show thesis by (rule that)
  next
    case None
    obtain c b where g: "GetCoins (base v) k = (c, b)" by (cases "GetCoins (base v) k")
    have b: "vinv b" "absv b = absv (base v)" "best b = best (base v)" "visible c = absv (base v) k"
      "c \<noteq> None \<Longrightarrow> known b k" "\<And>j. known (base v) j \<Longrightarrow> known b j"
      using GetCoins [OF _ g] i by (auto simp: cache_inv_def)
    have ok: "entries_ok (absv b) (known b) (cacheCoins v)"
      using i b(2,6) entries_ok_mono unfolding cache_inv_def by metis
    define e where "e = (case c of None \<Rightarrow> \<lparr>coins = Clear CCoins_empty, fDirty = False, fFresh = True\<rparr>
      | Some c \<Rightarrow> \<lparr>coins = c, fDirty = False, fFresh = IsPruned c\<rparr>)"
    have "IsPruned (Clear CCoins_empty)" by (simp add: IsPruned_def Clear_def)
    then have "?entry e (v\<lparr>base := b\<rparr>)"
      using b None ok by (intro exI [of _ b]) (auto simp: e_def cache_abs_def cabs_def visible_Some split: option.splits)
    moreover have "ModifyCoins GetCoins v k f =
       (let (r, c) = f (coins e); e = e\<lparr>coins := Cleanup c, fDirty := True\<rparr>
        in (r, (v\<lparr>base := b\<rparr>)\<lparr>cacheCoins := (if fFresh e \<and> IsPruned (coins e) then AList.delete k (cacheCoins (v\<lparr>base := b\<rparr>))
              else AList.update k e (cacheCoins (v\<lparr>base := b\<rparr>)))\<rparr>))"
      using None g by (simp add: ModifyCoins_def e_def split: option.split)
    ultimately show thesis by (rule that)
  qed
  obtain b where b: "v1 = v\<lparr>base := b\<rparr>" "vinv b" "absv b = absv (base v)" "best b = best (base v)"
    "entries_ok (absv b) (known b) (cacheCoins v)" "visible (Some (coins e)) = cache_abs absv v k"
    "fFresh e \<Longrightarrow> absv b k = None" "\<not> fFresh e \<Longrightarrow> known b k"
    using e(1) by blast
  obtain r' c' where c': "f (coins e) = (r', c')" by (cases "f (coins e)")
  let ?e = "e\<lparr>coins := Cleanup c', fDirty := True\<rparr>"
  let ?us = "if fFresh e \<and> IsPruned c' then AList.delete k (cacheCoins v) else AList.update k ?e (cacheCoins v)"
  have r: "r = r'" and v': "v' = v\<lparr>base := b, cacheCoins := ?us\<rparr>"
    using m e(2) c' unfolding b(1) by (simp_all cong: if_cong)
  have "entries_ok (absv b) (known b) ?us"
    using b(5,7,8) by (auto intro: entries_ok_delete entries_ok_update)
  moreover have "cabs (absv b) ?us = (cabs (absv b) (cacheCoins v))(k := visible (Some (Cleanup c')))"
    using b(7) by (auto simp: cabs_delete cabs_update visible_Some)
  ultimately show thesis
    using b c' r by (intro that [of "coins e"]) (simp_all add: v' cache_inv_def cache_abs_def cache_best_def)
qed

lemma cache_view:
  "coins_view (cache_GetCoins GetCoins) (cache_GetBestBlock GetBest)
     (cache_inv vinv absv known) (cache_abs absv) cache_known (cache_best best) cache_BatchWrite"
proof unfold_locales
  fix v k r v'
  assume i: "cache_inv vinv absv known v" and g: "cache_GetCoins GetCoins v k = (r, v')"
  obtain e v1 where "FetchCoins GetCoins v k = (e, v1)" by (cases "FetchCoins GetCoins v k")
  with FetchCoins_spec [OF i this] g
  show "cache_inv vinv absv known v' \<and> cache_abs absv v' = cache_abs absv v \<and> cache_best best v' = cache_best best v \<and>
      visible r = cache_abs absv v k \<and> (r \<noteq> None \<longrightarrow> cache_known v' k) \<and> (\<forall>j. cache_known v j \<longrightarrow> cache_known v' j)"
    by (auto simp: cache_GetCoins_def cache_known_def)
next
  fix v h v'
  assume i: "cache_inv vinv absv known v" and g: "cache_GetBestBlock GetBest v = (h, v')"
  show "h = cache_best best v \<and> cache_inv vinv absv known v' \<and> cache_abs absv v' = cache_abs absv v \<and>
      cache_best best v' = cache_best best v \<and> (\<forall>j. cache_known v j \<longrightarrow> cache_known v' j)"
  proof (cases "hashBlock v = 0")
    case False
    then show ?thesis using g i by (auto simp: cache_GetBestBlock_def cache_best_def)
  next
    case True
    obtain h1 b where b: "GetBest (base v) = (h1, b)" by (cases "GetBest (base v)")
    have s: "h1 = best (base v)" "vinv b" "absv b = absv (base v)" "best b = best (base v)"
      "\<And>j. known (base v) j \<Longrightarrow> known b j"
      using GetBest [OF _ b] i by (auto simp: cache_inv_def)
    have "entries_ok (absv b) (known b) (cacheCoins v)"
      using i s(3,5) entries_ok_mono unfolding cache_inv_def by metis
    then show ?thesis using g b s True
      by (auto simp: cache_GetBestBlock_def cache_best_def cache_inv_def cache_abs_def cache_known_def)
  qed
next
  fix v m and h :: hash256
  assume i: "cache_inv vinv absv known v" and ok: "entries_ok (cache_abs absv v) (cache_known v) m" and h: "h \<noteq> 0"
  have us: "entries_ok (absv (base v)) (known (base v)) (cacheCoins v)" "vinv (base v)" using i by (simp_all add: cache_inv_def)
  have "distinct (map fst m)"
    "\<forall>(k, e) \<in> set m. (fFresh e \<longrightarrow> cabs (absv (base v)) (cacheCoins v) k = None) \<and>
       (\<not> fFresh e \<longrightarrow> map_of (cacheCoins v) k \<noteq> None)"
    using ok by (auto simp: entries_ok_def cache_abs_def cache_known_def)
  from cache_batch_loop_apply [OF us(1) this] us(2) h
  show "\<exists>v'. cache_BatchWrite v m h = Some v' \<and> cache_inv vinv absv known v' \<and>
      cache_abs absv v' = batch_apply m (cache_abs absv v) \<and> cache_best best v' = h"
    by (auto simp: cache_BatchWrite_def cache_inv_def cache_abs_def cache_best_def)
qed

lemmas cache_reader = coins_view.axioms(1) [OF cache_view]

lemma new_cache_spec:
  "vinv b \<Longrightarrow> cache_inv vinv absv known (new_cache b) \<and> cache_abs absv (new_cache b) = absv b \<and>
    cache_best best (new_cache b) = best b"
  by (auto simp: new_cache_def cache_inv_def entries_ok_def cache_abs_def cabs_def cache_best_def)

end

context coins_view
begin

text \<open>A flush moves the contents of the cache to the view below it.\<close>

lemma batch_apply_cabs: "entries_ok A K us \<Longrightarrow> batch_apply us A = cabs A us"
  unfolding entries_ok_map_of by (auto simp: batch_apply_def cabs_def fun_eq_iff split: option.splits)

lemma Flush_spec:
  assumes "cache_inv vinv absv known v" "hashBlock v \<noteq> 0"
  shows "\<exists>v'. Flush BatchWrite v = Some v' \<and> cacheCoins v' = [] \<and> cache_inv vinv absv known v' \<and>
    absv (base v') = cache_abs absv v \<and> cache_abs absv v' = cache_abs absv v \<and>
    best (base v') = hashBlock v \<and> cache_best best v' = cache_best best v"
proof -
  have i: "vinv (base v)" "entries_ok (absv (base v)) (known (base v)) (cacheCoins v)"
    using assms(1) by (simp_all add: cache_inv_def)
  obtain b where "BatchWrite (base v) (cacheCoins v) (hashBlock v) = Some b" "vinv b"
    "absv b = batch_apply (cacheCoins v) (absv (base v))" "best b = hashBlock v"
    using BatchWrite [OF i assms(2)] by blast
  then show ?thesis using assms(2) batch_apply_cabs [OF i(2)]
    by (auto simp: Flush_def cache_inv_def cache_abs_def cache_best_def cabs_def entries_ok_def)
qed

end

lemma SetBestBlock_simps [simp]:
  "cache_inv vinv absv known (SetBestBlock v h) = cache_inv vinv absv known v"
  "cache_abs absv (SetBestBlock v h) = cache_abs absv v"
  "hashBlock (SetBestBlock v h) = h" "base (SetBestBlock v h) = base v" "cacheCoins (SetBestBlock v h) = cacheCoins v"
  by (simp_all add: SetBestBlock_def cache_inv_def cache_abs_def)

lemma cache_best_SetBestBlock [simp]: "h \<noteq> 0 \<Longrightarrow> cache_best best (SetBestBlock v h) = h"
  by (simp add: cache_best_def)

lemma Flush_base: "Flush BatchWrite v = Some v' \<Longrightarrow> BatchWrite (base v) (cacheCoins v) (hashBlock v) = Some (base v')"
  by (auto simp: Flush_def split: option.splits)

lemma cache_BatchWrite_hash: "cache_BatchWrite v m h = Some v' \<Longrightarrow> hashBlock v' = h"
  by (auto simp: cache_BatchWrite_def split: option.splits)

lemma new_cache_simps [simp]: "base (new_cache b) = b" "cacheCoins (new_cache b) = []" "hashBlock (new_cache b) = 0"
  "cache_abs absv (new_cache b) = absv b" "cache_best best (new_cache b) = best b"
  by (simp_all add: new_cache_def cache_abs_def cabs_def fun_eq_iff cache_best_def)

section \<open>The views of the node\<close>

text \<open>
  \<open>pcoinsTip\<close> is a cache over the database, and a block is checked in a cache over \<open>pcoinsTip\<close>. Both
  are views, so every lemma of \<open>coins_view\<close> holds for them.
\<close>

abbreviation tip_inv :: "coins_db view_cache \<Rightarrow> bool" where
  "tip_inv \<equiv> cache_inv db_inv db_coins db_known"

abbreviation tip_abs :: "coins_db view_cache \<Rightarrow> hash256 \<Rightarrow> CCoins option" where
  "tip_abs \<equiv> cache_abs db_coins"

abbreviation tip_best :: "coins_db view_cache \<Rightarrow> hash256" where
  "tip_best \<equiv> cache_best db_best_hash"

abbreviation view_inv :: "coins_db view_cache view_cache \<Rightarrow> bool" where
  "view_inv \<equiv> cache_inv tip_inv tip_abs cache_known"

abbreviation view_abs :: "coins_db view_cache view_cache \<Rightarrow> hash256 \<Rightarrow> CCoins option" where
  "view_abs \<equiv> cache_abs tip_abs"

abbreviation view_best :: "coins_db view_cache view_cache \<Rightarrow> hash256" where
  "view_best \<equiv> cache_best tip_best"

interpretation tip: coins_view "cache_GetCoins db_GetCoins" "cache_GetBestBlock db_GetBestBlock"
  tip_inv tip_abs cache_known tip_best cache_BatchWrite
  by (rule db.cache_view)

interpretation view: coins_view "cache_GetCoins (cache_GetCoins db_GetCoins)"
  "cache_GetBestBlock (cache_GetBestBlock db_GetBestBlock)" view_inv view_abs cache_known view_best cache_BatchWrite
  by (rule tip.cache_view)

section \<open>Properties\<close>

definition demo_coins :: CCoins where
  "demo_coins = \<lparr>fCoinBase = False, fCoinStake = False,
     cvout = [\<lparr>nValue = 50, scriptPubKey = [OP_1], nRounds = -10\<rparr>], cHeight = 7, cVersion = 1\<rparr>"

definition demo_db :: coins_db where
  "demo_db = \<lparr>db_coins = [5 \<mapsto> demo_coins], db_best = Some 9\<rparr>"

lemma demo_db_ok: "tip_inv (new_cache demo_db)" "view_inv (new_cache (new_cache demo_db))"
proof -
  have "db_inv demo_db"
    by (simp add: db_inv_def demo_db_def demo_coins_def IsPruned_def CTxOut_IsNull_def)
  then show t: "tip_inv (new_cache demo_db)" using db.new_cache_spec by blast
  then show "view_inv (new_cache (new_cache demo_db))" using tip.new_cache_spec by blast
qed



end
