(* ===== verification/Connect.thy ===== *)
theory Connect
  imports CoinsView InterpreterProps
begin

text \<open>
  Transactions against the unspent outputs: the reads of \<open>CCoinsViewCache\<close> that need a transaction,
  \<open>AreInputsStandard\<close>, \<open>GetP2SHSigOpCount\<close>, \<open>CheckInputs\<close>, \<open>UpdateCoins\<close>, the transaction
  loop of \<open>ConnectBlock\<close> and the restoring loop of \<open>DisconnectBlock\<close> (\<open>src/src/coins.cpp\<close>,
  \<open>src/src/main.cpp\<close>). \<open>get\<close> is \<open>GetCoins\<close> of the view under the cache. An outer option is
  \<open>None\<close> for a failed \<open>assert\<close> or an index out of range.
\<close>

type_synonym 's getter = "'s \<Rightarrow> hash256 \<Rightarrow> CCoins option \<times> 's"

section \<open>Reading through the cache\<close>

definition GetOutputFor :: "'s getter \<Rightarrow> 's view_cache \<Rightarrow> CTxIn \<Rightarrow> (CTxOut \<times> 's view_cache) option" where
  "GetOutputFor get v input =
     (case cache_GetCoins get v (op_hash (prevout input)) of
        (None, v) \<Rightarrow> None
      | (Some c, v) \<Rightarrow>
          if IsAvailable c (unat (op_n (prevout input))) then Some (cvout c ! unat (op_n (prevout input)), v)
          else None)"

fun value_in_loop :: "'s getter \<Rightarrow> 's view_cache \<Rightarrow> CTxIn list \<Rightarrow> int \<Rightarrow> (int \<times> 's view_cache) option" where
  "value_in_loop get v [] nResult = Some (nResult, v)"
| "value_in_loop get v (txin # ins) nResult =
     (case GetOutputFor get v txin of
        None \<Rightarrow> None
      | Some (out, v) \<Rightarrow> value_in_loop get v ins (add64 nResult (nValue out)))"

definition GetValueIn :: "'s getter \<Rightarrow> 's view_cache \<Rightarrow> CTransaction \<Rightarrow> (int \<times> 's view_cache) option" where
  "GetValueIn get v tx =
     (if IsCoinBase tx then Some (0, v)
      else if HasZerocoinSpendInputs tx then Some (GetZerocoinSpent tx, v)
      else value_in_loop get v (vin tx) 0)"

fun have_inputs_loop :: "'s getter \<Rightarrow> 's view_cache \<Rightarrow> CTxIn list \<Rightarrow> bool \<times> 's view_cache" where
  "have_inputs_loop get v [] = (True, v)"
| "have_inputs_loop get v (txin # ins) =
     (case cache_GetCoins get v (op_hash (prevout txin)) of
        (None, v) \<Rightarrow> (False, v)
      | (Some c, v) \<Rightarrow>
          if \<not> IsAvailable c (unat (op_n (prevout txin))) then (False, v) else have_inputs_loop get v ins)"

definition HaveInputs :: "'s getter \<Rightarrow> 's view_cache \<Rightarrow> CTransaction \<Rightarrow> bool \<times> 's view_cache" where
  "HaveInputs get v tx =
     (if \<not> IsCoinBase tx \<and> \<not> HasZerocoinSpendInputs tx then have_inputs_loop get v (vin tx) else (True, v))"

fun p2sh_sigops_loop :: "'s getter \<Rightarrow> 's view_cache \<Rightarrow> CTxIn list \<Rightarrow> nat \<Rightarrow> (nat \<times> 's view_cache) option" where
  "p2sh_sigops_loop get v [] nSigOps = Some (nSigOps, v)"
| "p2sh_sigops_loop get v (txin # ins) nSigOps =
     (case GetOutputFor get v txin of
        None \<Rightarrow> None
      | Some (out, v) \<Rightarrow>
          p2sh_sigops_loop get v ins
            (if IsPayToScriptHash (scriptPubKey out)
             then nSigOps + GetSigOpCountP2SH (scriptPubKey out) (scriptSig txin) else nSigOps))"

definition GetP2SHSigOpCount :: "'s getter \<Rightarrow> 's view_cache \<Rightarrow> CTransaction \<Rightarrow> (nat \<times> 's view_cache) option" where
  "GetP2SHSigOpCount get v tx =
     (if IsCoinBase tx \<or> HasZerocoinSpendInputs tx then Some (0, v) else p2sh_sigops_loop get v (vin tx) 0)"

section \<open>Standard inputs\<close>

definition MAX_P2SH_SIGOPS :: nat where "MAX_P2SH_SIGOPS = 15"

text \<open>
  One input of \<open>AreInputsStandard\<close>: \<open>Inl\<close> ends the loop with that answer. \<open>E\<close> is the hash
  environment of a \<open>BaseSignatureChecker\<close>, and the flags are \<open>false\<close>.
\<close>

definition input_standard :: "script_env \<Rightarrow> bytes \<Rightarrow> bytes \<Rightarrow> (bool + unit) option" where
  "input_standard E prevScript sig =
     (case Solver prevScript of
        None \<Rightarrow> None
      | Some (ok, whichType, vSolutions) \<Rightarrow>
          if \<not> ok then Some (Inl False)
          else
            let nArgsExpected = ScriptSigArgsExpected whichType vSolutions
            in if nArgsExpected < 0 then Some (Inl False)
               else (case EvalScript E 0 [] sig of
                 Inl _ \<Rightarrow> Some (Inl False)
               | Inr stack \<Rightarrow>
                   if whichType = TX_SCRIPTHASH then
                     (case stack of
                        [] \<Rightarrow> Some (Inl False)
                      | subscript # _ \<Rightarrow>
                          (case Solver subscript of
                             None \<Rightarrow> None
                           | Some (ok2, whichType2, vSolutions2) \<Rightarrow>
                               if ok2 then
                                 (let tmpExpected = ScriptSigArgsExpected whichType2 vSolutions2
                                  in if tmpExpected < 0 then Some (Inl False)
                                     else if int (length stack) \<noteq> nArgsExpected + tmpExpected then Some (Inl False)
                                     else Some (Inr ()))
                               else Some (Inl (GetSigOpCount subscript True \<le> MAX_P2SH_SIGOPS))))
                   else if int (length stack) \<noteq> nArgsExpected then Some (Inl False)
                   else Some (Inr ())))"

fun inputs_standard_loop ::
  "script_env \<Rightarrow> 's getter \<Rightarrow> 's view_cache \<Rightarrow> CTxIn list \<Rightarrow> (bool \<times> 's view_cache) option" where
  "inputs_standard_loop E get v [] = Some (True, v)"
| "inputs_standard_loop E get v (txin # ins) =
     (case GetOutputFor get v txin of
        None \<Rightarrow> None
      | Some (prev, v) \<Rightarrow>
          (case input_standard E (scriptPubKey prev) (scriptSig txin) of
             None \<Rightarrow> None
           | Some (Inl r) \<Rightarrow> Some (r, v)
           | Some (Inr _) \<Rightarrow> inputs_standard_loop E get v ins))"

definition AreInputsStandard ::
  "script_env \<Rightarrow> 's getter \<Rightarrow> 's view_cache \<Rightarrow> CTransaction \<Rightarrow> (bool \<times> 's view_cache) option" where
  "AreInputsStandard E get v tx =
     (if IsCoinBase tx \<or> HasZerocoinSpendInputs tx then Some (True, v) else inputs_standard_loop E get v (vin tx))"

section \<open>Checking the inputs\<close>

definition MANDATORY_SCRIPT_VERIFY_FLAGS :: uint32 where
  "MANDATORY_SCRIPT_VERIFY_FLAGS = SCRIPT_VERIFY_P2SH"

definition STANDARD_SCRIPT_VERIFY_FLAGS :: uint32 where
  "STANDARD_SCRIPT_VERIFY_FLAGS = MANDATORY_SCRIPT_VERIFY_FLAGS OR SCRIPT_VERIFY_DERSIG OR SCRIPT_VERIFY_STRICTENC
     OR SCRIPT_VERIFY_MINIMALDATA OR SCRIPT_VERIFY_NULLDUMMY OR SCRIPT_VERIFY_DISCOURAGE_UPGRADABLE_NOPS"

definition STANDARD_NOT_MANDATORY_VERIFY_FLAGS :: uint32 where
  "STANDARD_NOT_MANDATORY_VERIFY_FLAGS = STANDARD_SCRIPT_VERIFY_FLAGS AND NOT MANDATORY_SCRIPT_VERIFY_FLAGS"

text \<open>
  \<open>in_script tx i\<close> is the environment of the signature checker of input \<open>i\<close>;
  \<open>in_blockHeight\<close> is the height \<open>mapBlockIndex\<close> knows of a block.
\<close>

record inputs_env =
  in_params :: CChainParams
  in_blockHeight :: "hash256 \<Rightarrow> int option"
  in_script :: "CTransaction \<Rightarrow> nat \<Rightarrow> script_env"

definition CScriptCheck :: "inputs_env \<Rightarrow> CCoins \<Rightarrow> CTransaction \<Rightarrow> nat \<Rightarrow> uint32 \<Rightarrow> bool" where
  "CScriptCheck E txFrom txTo nIn fl \<longleftrightarrow>
     VerifyScript (in_script E txTo nIn) fl (scriptSig (vin txTo ! nIn))
       (scriptPubKey (cvout txFrom ! unat (op_n (prevout (vin txTo ! nIn))))) = Some (Inr ())"

fun check_values_loop ::
  "inputs_env \<Rightarrow> 's getter \<Rightarrow> int \<Rightarrow> 's view_cache \<Rightarrow> CTxIn list \<Rightarrow> int \<Rightarrow> (int validation \<times> 's view_cache) option" where
  "check_values_loop E get nSpendHeight v [] nValueIn = Some (Inr nValueIn, v)"
| "check_values_loop E get nSpendHeight v (txin # ins) nValueIn =
     (case cache_GetCoins get v (op_hash (prevout txin)) of
        (None, v) \<Rightarrow> None
      | (Some c, v) \<Rightarrow>
          if (fCoinBase c \<or> fCoinStake c) \<and> nSpendHeight - cHeight c < nMaturity (in_params E)
          then Some (Inl (0, ''bad-txns-premature-spend-of-coinbase''), v)
          else if length (cvout c) \<le> unat (op_n (prevout txin)) then None
          else
            let val = nValue (cvout c ! unat (op_n (prevout txin)));
                nValueIn = add64 nValueIn val
            in if \<not> MoneyRange (in_params E) val \<or> \<not> MoneyRange (in_params E) nValueIn
               then Some (Inl (100, ''bad-txns-inputvalues-outofrange''), v)
               else check_values_loop E get nSpendHeight v ins nValueIn)"

fun check_scripts_loop ::
  "inputs_env \<Rightarrow> 's getter \<Rightarrow> 's view_cache \<Rightarrow> CTransaction \<Rightarrow> uint32 \<Rightarrow> nat list \<Rightarrow>
   (unit validation \<times> 's view_cache) option" where
  "check_scripts_loop E get v tx flags [] = Some (Inr (), v)"
| "check_scripts_loop E get v tx flags (i # is) =
     (case cache_GetCoins get v (op_hash (prevout (vin tx ! i))) of
        (None, v) \<Rightarrow> None
      | (Some c, v) \<Rightarrow>
          if length (cvout c) \<le> unat (op_n (prevout (vin tx ! i))) then None
          else if CScriptCheck E c tx i flags then check_scripts_loop E get v tx flags is
          else if flag_set flags STANDARD_NOT_MANDATORY_VERIFY_FLAGS \<and>
                  CScriptCheck E c tx i (flags AND NOT STANDARD_NOT_MANDATORY_VERIFY_FLAGS)
          then Some (Inl (0, ''non-mandatory-script-verify-flag''), v)
          else Some (Inl (100, ''mandatory-script-verify-flag-failed''), v))"

text \<open>The fees of a transaction that is no coinstake; a throw of \<open>GetValueOut\<close> is \<open>None\<close>.\<close>

definition check_fees :: "inputs_env \<Rightarrow> CTransaction \<Rightarrow> int \<Rightarrow> unit validation option" where
  "check_fees E tx nValueIn =
     (if IsCoinStake tx then Some (Inr ())
      else case GetValueOut tx of
        Inl _ \<Rightarrow> None
      | Inr nValueOut \<Rightarrow>
          if nValueIn < nValueOut then Some (Inl (100, ''bad-txns-in-belowout''))
          else
            let nTxFee = nValueIn - nValueOut
            in if nTxFee < 0 then Some (Inl (100, ''bad-txns-fee-negative''))
               else if \<not> MoneyRange (in_params E) nTxFee then Some (Inl (100, ''bad-txns-fee-outofrange''))
               else Some (Inr ()))"

text \<open>
  \<open>CheckInputs\<close> with \<open>pvChecks\<close> NULL, the scripts checked one after the other. \<open>getbest\<close> is
  \<open>GetBestBlock\<close> of the view under the cache.
\<close>

definition CheckInputs ::
  "inputs_env \<Rightarrow> 's getter \<Rightarrow> ('s \<Rightarrow> hash256 \<times> 's) \<Rightarrow> 's view_cache \<Rightarrow> CTransaction \<Rightarrow> bool \<Rightarrow> uint32 \<Rightarrow>
   (unit validation \<times> 's view_cache) option" where
  "CheckInputs E get getbest v tx fScriptChecks flags =
     (if IsCoinBase tx \<or> HasZerocoinSpendInputs tx then Some (Inr (), v)
      else case HaveInputs get v tx of
        (have, v) \<Rightarrow>
          if \<not> have then Some (Inl (0, ''''), v)
          else case cache_GetBestBlock getbest v of
            (hashBest, v) \<Rightarrow>
          (case in_blockHeight E hashBest of
            None \<Rightarrow> None
          | Some prevHeight \<Rightarrow>
          (case check_values_loop E get (prevHeight + 1) v (vin tx) 0 of
            None \<Rightarrow> None
          | Some (Inl e, v) \<Rightarrow> Some (Inl e, v)
          | Some (Inr nValueIn, v) \<Rightarrow>
              (case check_fees E tx nValueIn of
                 None \<Rightarrow> None
               | Some (Inl e) \<Rightarrow> Some (Inl e, v)
               | Some (Inr _) \<Rightarrow>
                   if fScriptChecks then check_scripts_loop E get v tx flags [0..<length (vin tx)]
                   else Some (Inr (), v)))))"

section \<open>Updating the coins\<close>

fun spend_loop :: "'s getter \<Rightarrow> 's view_cache \<Rightarrow> CTxIn list \<Rightarrow> (CTxInUndo list \<times> 's view_cache) option" where
  "spend_loop get v [] = Some ([], v)"
| "spend_loop get v (txin # ins) =
     (case ModifyCoins get v (op_hash (prevout txin))
             (\<lambda>c. case Spend c (prevout txin) of None \<Rightarrow> (None, c) | Some (c', undo) \<Rightarrow> (Some undo, c')) of
        (None, v) \<Rightarrow> None
      | (Some undo, v) \<Rightarrow>
          (case spend_loop get v ins of
             None \<Rightarrow> None
           | Some (undos, v) \<Rightarrow> Some (undo # undos, v)))"

definition UpdateCoins ::
  "'s getter \<Rightarrow> CTransaction \<Rightarrow> 's view_cache \<Rightarrow> int \<Rightarrow> (CTxInUndo list \<times> 's view_cache) option" where
  "UpdateCoins get tx v h =
     (case (if \<not> IsCoinBase tx \<and> \<not> HasZerocoinSpendInputs tx then spend_loop get v (vin tx) else Some ([], v)) of
        None \<Rightarrow> None
      | Some (undos, v) \<Rightarrow> Some (undos, snd (ModifyCoins get v (txid tx) (\<lambda>c. ((), FromTx tx h)))))"

section \<open>Undoing a transaction\<close>

text \<open>Removing the outputs; the flag tells whether they matched the block.\<close>

definition remove_outputs :: "CTransaction \<Rightarrow> int \<Rightarrow> CCoins \<Rightarrow> bool \<times> CCoins" where
  "remove_outputs tx h c =
     (let outs = ClearUnspendable c;
          outsBlock = FromTx tx h;
          outs = (if cVersion outsBlock < 0 then outs\<lparr>cVersion := cVersion outsBlock\<rparr> else outs)
      in (CCoins_eq outs outsBlock, Clear outs))"

definition resize_vout :: "CTxOut list \<Rightarrow> nat \<Rightarrow> CTxOut list" where
  "resize_vout v n = (if length v < n then v @ replicate (n - length v) CTxOut_null else v)"

text \<open>Restoring one output; the flag tells whether nothing was overwritten. \<open>None\<close> is an index out of range.\<close>

definition restore_input :: "COutPoint \<Rightarrow> CTxInUndo \<Rightarrow> CCoins \<Rightarrow> bool option \<times> CCoins" where
  "restore_input out undo c =
     (let (clean, c) =
        (if u_nHeight undo \<noteq> 0
         then (IsPruned c, (Clear c)\<lparr>fCoinBase := u_fCoinBase undo, cHeight := u_nHeight undo, cVersion := u_nVersion undo\<rparr>)
         else (\<not> IsPruned c, c));
          clean = (clean \<and> \<not> IsAvailable c (unat (op_n out)));
          v = resize_vout (cvout c) (unat (op_n out + 1))
      in if unat (op_n out) < length v
         then (Some clean, c\<lparr>cvout := v[unat (op_n out) := u_txout undo]\<rparr>)
         else (None, c\<lparr>cvout := v\<rparr>))"

text \<open>The loop over the inputs from the last to the first; its arguments are already reversed.\<close>

fun restore_loop ::
  "'s getter \<Rightarrow> 's view_cache \<Rightarrow> (CTxIn \<times> CTxInUndo) list \<Rightarrow> bool \<Rightarrow> (bool \<times> 's view_cache) option" where
  "restore_loop get v [] fClean = Some (fClean, v)"
| "restore_loop get v ((txin, undo) # rest) fClean =
     (case ModifyCoins get v (op_hash (prevout txin)) (restore_input (prevout txin) undo) of
        (None, v) \<Rightarrow> None
      | (Some clean, v) \<Rightarrow> restore_loop get v rest (fClean \<and> clean))"

datatype disconnect_error = UndoInconsistent

definition disconnect_tx ::
  "'s getter \<Rightarrow> 's view_cache \<Rightarrow> CTransaction \<Rightarrow> int \<Rightarrow> CTxInUndo list \<Rightarrow> bool \<Rightarrow>
   (disconnect_error + bool \<times> 's view_cache) option" where
  "disconnect_tx get v tx h vprevout fClean =
     (case ModifyCoins get v (txid tx) (remove_outputs tx h) of
        (match, v) \<Rightarrow>
          if \<not> IsCoinBase tx \<and> \<not> HasZerocoinSpendInputs tx then
            (if length vprevout \<noteq> length (vin tx) then Some (Inl UndoInconsistent)
             else map_option Inr (restore_loop get v (rev (zip (vin tx) vprevout)) (fClean \<and> match)))
          else Some (Inr (fClean \<and> match, v)))"

end
