(* ===== verification/Block.thy ===== *)
theory Block
  imports Pow TxCheck
begin

text \<open>
  Blocks: \<open>src/src/primitives/block.h\<close> and \<open>block.cpp\<close>, and the checks of a block that need no
  coins, \<open>CheckBlockHeader\<close>, \<open>CheckBlock\<close>, \<open>ContextualCheckBlock\<close> and
  \<open>ContextualCheckBlockHeader\<close> of \<open>src/src/main.cpp\<close>. The id of a block is the field
  \<open>blk_hash\<close>; \<open>H\<close> is the double SHA-256 of two concatenated hashes.
\<close>

record CBlock =
  blk_hash :: hash256
  blk_nVersion :: int
  hashPrevBlock :: hash256
  hashMerkleRoot :: hash256
  blk_nTime :: uint32
  blk_nBits :: uint32
  nNonce :: uint32
  nAccumulatorCheckpoint :: hash256
  vtx :: "CTransaction list"
  vchBlockSig :: bytes

definition MAX_BLOCK_SIZE_CURRENT :: nat where "MAX_BLOCK_SIZE_CURRENT = 2000000"
definition MAX_BLOCK_SIZE_LEGACY :: nat where "MAX_BLOCK_SIZE_LEGACY = 1000000"
definition MAX_BLOCK_SIGOPS_CURRENT :: nat where "MAX_BLOCK_SIGOPS_CURRENT = MAX_BLOCK_SIZE_CURRENT div 50"
definition MAX_BLOCK_SIGOPS_LEGACY :: nat where "MAX_BLOCK_SIGOPS_LEGACY = MAX_BLOCK_SIZE_LEGACY div 50"

definition block_IsProofOfStake :: "CBlock \<Rightarrow> bool" where
  "block_IsProofOfStake block \<longleftrightarrow> 1 < length (vtx block) \<and> IsCoinStake (vtx block ! 1)"

definition block_IsProofOfWork :: "CBlock \<Rightarrow> bool" where
  "block_IsProofOfWork block \<longleftrightarrow> \<not> block_IsProofOfStake block"

definition GetProofOfStake :: "CBlock \<Rightarrow> COutPoint \<times> uint32" where
  "GetProofOfStake block =
     (if block_IsProofOfStake block then (prevout (vin (vtx block ! 1) ! 0), blk_nTime block) else (COutPoint_null, 0))"

definition CBlock_size :: "CBlock \<Rightarrow> nat" where
  "CBlock_size block =
     80 + (if 3 < blk_nVersion block then 32 else 0)
        + GetSizeOfCompactSize (length (vtx block)) + sum_list (map CTransaction_size (vtx block))
        + (if 1 < length (vtx block) \<and> IsCoinStake (vtx block ! 1) then script_size (vchBlockSig block) else 0)"

section \<open>The Merkle tree\<close>

text \<open>One level of \<open>BuildMerkleTree\<close>: the hashes it appends, and whether it found a mutation.\<close>

fun merkle_row :: "(hash256 \<Rightarrow> hash256 \<Rightarrow> hash256) \<Rightarrow> hash256 list \<Rightarrow> hash256 list \<times> bool" where
  "merkle_row H [] = ([], False)"
| "merkle_row H [a] = ([H a a], False)"
| "merkle_row H [a, b] = ([H a b], a = b)"
| "merkle_row H (a # b # rest) = (case merkle_row H rest of (row, mutated) \<Rightarrow> (H a b # row, mutated))"

lemma length_merkle_row [simp]: "length (fst (merkle_row H row)) = (length row + 1) div 2"
  by (induction H row rule: merkle_row.induct) (auto split: prod.splits)

text \<open>The outer loop: \<open>row\<close> is the part of \<open>vMerkleTree\<close> from \<open>j\<close> on.\<close>

function merkle_loop ::
  "(hash256 \<Rightarrow> hash256 \<Rightarrow> hash256) \<Rightarrow> hash256 list \<Rightarrow> hash256 list \<Rightarrow> bool \<Rightarrow> hash256 list \<times> bool" where
  "merkle_loop H vMerkleTree row mutated =
     (if 1 < length row
      then merkle_loop H (vMerkleTree @ fst (merkle_row H row)) (fst (merkle_row H row))
             (mutated \<or> snd (merkle_row H row))
      else (vMerkleTree, mutated))"
  by pat_completeness auto
termination by (relation "measure (\<lambda>(H, t, row, m). length row)") auto

declare merkle_loop.simps [simp del]

definition BuildMerkleTree :: "(hash256 \<Rightarrow> hash256 \<Rightarrow> hash256) \<Rightarrow> hash256 list \<Rightarrow> hash256 list \<times> bool" where
  "BuildMerkleTree H hashes = merkle_loop H hashes hashes False"

definition MerkleRoot :: "(hash256 \<Rightarrow> hash256 \<Rightarrow> hash256) \<Rightarrow> hash256 list \<Rightarrow> hash256" where
  "MerkleRoot H hashes =
     (let vMerkleTree = fst (BuildMerkleTree H hashes) in if vMerkleTree = [] then 0 else last vMerkleTree)"

text \<open>\<open>GetMerkleBranch\<close>, whose tree is what \<open>BuildMerkleTree\<close> left.\<close>

function merkle_branch_loop :: "hash256 list \<Rightarrow> nat \<Rightarrow> nat \<Rightarrow> nat \<Rightarrow> hash256 list" where
  "merkle_branch_loop vMerkleTree j nSize nIndex =
     (if 1 < nSize
      then vMerkleTree ! (j + min (nIndex XOR 1) (nSize - 1)) #
           merkle_branch_loop vMerkleTree (j + nSize) ((nSize + 1) div 2) (nIndex div 2)
      else [])"
  by pat_completeness auto
termination by (relation "measure (\<lambda>(t, j, n, i). n)") auto

declare merkle_branch_loop.simps [simp del]

definition GetMerkleBranch :: "(hash256 \<Rightarrow> hash256 \<Rightarrow> hash256) \<Rightarrow> hash256 list \<Rightarrow> nat \<Rightarrow> hash256 list" where
  "GetMerkleBranch H hashes nIndex = merkle_branch_loop (fst (BuildMerkleTree H hashes)) 0 (length hashes) nIndex"

fun check_branch_loop :: "(hash256 \<Rightarrow> hash256 \<Rightarrow> hash256) \<Rightarrow> hash256 \<Rightarrow> hash256 list \<Rightarrow> int \<Rightarrow> hash256" where
  "check_branch_loop H h [] nIndex = h"
| "check_branch_loop H h (it # branch) nIndex =
     check_branch_loop H (if odd nIndex then H it h else H h it) branch (nIndex div 2)"

definition CheckMerkleBranch ::
  "(hash256 \<Rightarrow> hash256 \<Rightarrow> hash256) \<Rightarrow> hash256 \<Rightarrow> hash256 list \<Rightarrow> int \<Rightarrow> hash256" where
  "CheckMerkleBranch H h vMerkleBranch nIndex =
     (if nIndex = -1 then 0 else check_branch_loop H h vMerkleBranch nIndex)"

section \<open>The levels of the tree\<close>

abbreviation merkle_next :: "(hash256 \<Rightarrow> hash256 \<Rightarrow> hash256) \<Rightarrow> hash256 list \<Rightarrow> hash256 list" where
  "merkle_next H row \<equiv> fst (merkle_row H row)"

text \<open>The levels above a row, one after the other as \<open>vMerkleTree\<close> holds them.\<close>

function merkle_above :: "(hash256 \<Rightarrow> hash256 \<Rightarrow> hash256) \<Rightarrow> hash256 list \<Rightarrow> hash256 list" where
  "merkle_above H row = (if 1 < length row then merkle_next H row @ merkle_above H (merkle_next H row) else [])"
  by pat_completeness auto
termination by (relation "measure (\<lambda>(H, row). length row)") auto

declare merkle_above.simps [simp del]

lemma merkle_loop_above: "fst (merkle_loop H t row m) = t @ merkle_above H row"
proof (induction H t row m rule: merkle_loop.induct)
  case (1 H t row m)
  then show ?case by (subst merkle_loop.simps, subst merkle_above.simps) simp
qed

definition merkle_top :: "(hash256 \<Rightarrow> hash256 \<Rightarrow> hash256) \<Rightarrow> hash256 list \<Rightarrow> hash256" where
  "merkle_top H row = last (row @ merkle_above H row)"

lemma merkle_top_single: "merkle_top H [a] = a"
  by (simp add: merkle_top_def merkle_above.simps)

lemma merkle_top_next: "1 < length row \<Longrightarrow> merkle_top H row = merkle_top H (merkle_next H row)"
  by (simp add: merkle_top_def merkle_above.simps [of H row])
     (metis One_nat_def append_is_Nil_conv div_greater_zero_iff fst_conv gr0I last_appendR length_merkle_row
        less_Suc_eq list.size(3) not_less_eq numeral_2_eq_2 plus_1_eq_Suc Suc_le_eq add.commute)

lemma MerkleRoot_top: "hashes \<noteq> [] \<Longrightarrow> MerkleRoot H hashes = merkle_top H hashes"
  by (simp add: MerkleRoot_def BuildMerkleTree_def merkle_loop_above merkle_top_def)

lemma merkle_next_nth:
  "i < length row \<Longrightarrow>
   merkle_next H row ! (i div 2) = H (row ! (2 * (i div 2))) (row ! min (2 * (i div 2) + 1) (length row - 1))"
proof (induction H row arbitrary: i rule: merkle_row.induct)
  case (4 H a b c rest)
  show ?case
  proof (cases "i < 2")
    case False
    then obtain j where j: "i = Suc (Suc j)" by (metis add_2_eq_Suc le_Suc_ex not_less)
    then show ?thesis using 4(1) [of j] 4(2) by (auto split: prod.splits simp: min_def)
  qed (auto split: prod.splits)
qed (auto simp: less_Suc_eq)

lemma xor_one_nat: "2 * n XOR Suc 0 = Suc (2 * n)" "Suc (2 * n) XOR Suc 0 = 2 * n"
  by (simp_all add: xor_Suc_0_eq)

text \<open>A branch leads from its leaf to the top.\<close>

lemma branch_reaches_top:
  assumes "i < length row"
  shows "check_branch_loop H (row ! i)
      (merkle_branch_loop (pre @ row @ merkle_above H row) (length pre) (length row) i) (int i) = merkle_top H row"
  using assms
proof (induction H row arbitrary: pre i rule: merkle_above.induct)
  case (1 H row)
  show ?case
  proof (cases "1 < length row")
    case False
    then obtain a where "row = [a]" using 1(2) by (cases row) auto
    then show ?thesis using 1(2) by (simp add: merkle_branch_loop.simps merkle_top_single)
  next
    case True
    let ?next = "merkle_next H row"
    let ?k = "min (i XOR 1) (length row - 1)"
    have k: "?k < length row" using True by simp
    have "odd i \<Longrightarrow> H (row ! ?k) (row ! i) = ?next ! (i div 2)" "even i \<Longrightarrow> H (row ! i) (row ! ?k) = ?next ! (i div 2)"
      using 1(2) unfolding merkle_next_nth [OF 1(2)] by (auto simp: xor_one_nat min_def elim!: oddE evenE)
    moreover have "i div 2 < length ?next" using 1(2) by simp
    note 1(1) [OF True this, of "pre @ row"]
    ultimately show ?thesis
      using True k by (subst merkle_branch_loop.simps, cases "odd i")
        (simp_all add: nth_append merkle_above.simps [of H row] merkle_top_next zdiv_int)
  qed
qed

section \<open>The root determines the leaves\<close>

fun row_pairs :: "hash256 list \<Rightarrow> (hash256 \<times> hash256) list" where
  "row_pairs [] = []"
| "row_pairs [a] = [(a, a)]"
| "row_pairs (a # b # rest) = (a, b) # row_pairs rest"

text \<open>Every pair the tree over a row hashes.\<close>

function tree_pairs :: "(hash256 \<Rightarrow> hash256 \<Rightarrow> hash256) \<Rightarrow> hash256 list \<Rightarrow> (hash256 \<times> hash256) set" where
  "tree_pairs H row =
     (if 1 < length row then set (row_pairs row) \<union> tree_pairs H (merkle_next H row) else {})"
  by pat_completeness auto
termination by (relation "measure (\<lambda>(H, row). length row)") auto

declare tree_pairs.simps [simp del]

function row_depth :: "(hash256 \<Rightarrow> hash256 \<Rightarrow> hash256) \<Rightarrow> hash256 list \<Rightarrow> nat" where
  "row_depth H row = (if 1 < length row then Suc (row_depth H (merkle_next H row)) else 0)"
  by pat_completeness auto
termination by (relation "measure (\<lambda>(H, row). length row)") auto

declare row_depth.simps [simp del]

text \<open>No level repeats its last hash.\<close>

function unmutated :: "(hash256 \<Rightarrow> hash256 \<Rightarrow> hash256) \<Rightarrow> hash256 list \<Rightarrow> bool" where
  "unmutated H row \<longleftrightarrow> (1 < length row \<longrightarrow> \<not> snd (merkle_row H row) \<and> unmutated H (merkle_next H row))"
  by pat_completeness auto
termination by (relation "measure (\<lambda>(H, row). length row)") auto

declare unmutated.simps [simp del]

lemma merkle_loop_mutated: "snd (merkle_loop H t row m) \<longleftrightarrow> m \<or> \<not> unmutated H row"
proof (induction H t row m rule: merkle_loop.induct)
  case (1 H t row m)
  then show ?case by (subst merkle_loop.simps, subst unmutated.simps) auto
qed

lemma merkle_next_pairs: "merkle_next H row = map (\<lambda>(a, b). H a b) (row_pairs row)"
  by (induction H row rule: merkle_row.induct) (auto split: prod.splits)

lemma row_pairs_Nil [simp]: "row_pairs row = [] \<longleftrightarrow> row = []" "[] = row_pairs row \<longleftrightarrow> row = []"
  by (cases row rule: row_pairs.cases; simp)+

lemma row_pairs_inject:
  "row_pairs xs = row_pairs ys \<Longrightarrow> \<not> snd (merkle_row H xs) \<Longrightarrow> \<not> snd (merkle_row H ys) \<Longrightarrow> xs = ys"
proof (induction H xs arbitrary: ys rule: merkle_row.induct)
  case (4 H a b c rest)
  show ?case
  proof (cases "(H, ys)" rule: merkle_row.cases)
    case (4 H' a' b' c' rest')
    then show ?thesis using "4.prems" "4.IH" [of "c' # rest'"] by (auto split: prod.splits)
  qed (use "4.prems" in auto)
next
  case (1 H)
  then show ?case by simp
next
  case (2 H a)
  then show ?case by (cases "(H, ys)" rule: merkle_row.cases) auto
next
  case (3 H a b)
  then show ?case by (cases "(H, ys)" rule: merkle_row.cases) auto
qed

lemma row_depth_next: "0 < row_depth H row \<Longrightarrow> 1 < length row \<and> row_depth H row = Suc (row_depth H (merkle_next H row))"
  using row_depth.simps [of H row] by (simp split: if_split_asm)

lemma row_depth_0: "row_depth H row = 0 \<Longrightarrow> length row \<le> 1"
  by (subst (asm) row_depth.simps) (simp split: if_split_asm)

lemma unmutated_next: "unmutated H row \<Longrightarrow> 1 < length row \<Longrightarrow> \<not> snd (merkle_row H row) \<and> unmutated H (merkle_next H row)"
  by (subst (asm) unmutated.simps) simp

lemma tree_pairs_next: "1 < length row \<Longrightarrow> tree_pairs H row = set (row_pairs row) \<union> tree_pairs H (merkle_next H row)"
  by (subst tree_pairs.simps) simp

lemma same_depth_same_row:
  assumes "row_depth H xs = row_depth H ys" "xs \<noteq> []" "ys \<noteq> []" "merkle_top H xs = merkle_top H ys"
    "unmutated H xs" "unmutated H ys" "inj_on (\<lambda>(a, b). H a b) P" "tree_pairs H xs \<subseteq> P" "tree_pairs H ys \<subseteq> P"
  shows "xs = ys"
  using assms
proof (induction "row_depth H xs" arbitrary: xs ys)
  case 0
  then obtain a b where "xs = [a]" "ys = [b]"
    using row_depth_0 [of H xs] row_depth_0 [of H ys] by (cases xs; cases ys) auto
  then show ?case using 0 by (simp add: merkle_top_single)
next
  case (Suc n)
  have x: "1 < length xs" "row_depth H xs = Suc (row_depth H (merkle_next H xs))"
    and y: "1 < length ys" "row_depth H ys = Suc (row_depth H (merkle_next H ys))"
    using row_depth_next [of H xs] row_depth_next [of H ys] Suc(2,3) by simp_all
  note u = unmutated_next [OF Suc.prems(5) x(1)] unmutated_next [OF Suc.prems(6) y(1)]
  note p = Suc.prems(8) [unfolded tree_pairs_next [OF x(1)]] Suc.prems(9) [unfolded tree_pairs_next [OF y(1)]]
  have ne: "merkle_next H xs \<noteq> []" "merkle_next H ys \<noteq> []" using Suc.prems(2,3) by (simp_all add: merkle_next_pairs)
  have "merkle_next H xs = merkle_next H ys"
  proof (rule Suc(1))
    show "n = row_depth H (merkle_next H xs)" "row_depth H (merkle_next H xs) = row_depth H (merkle_next H ys)"
      using x(2) y(2) Suc(2) Suc.prems(1) by simp_all
    show "merkle_top H (merkle_next H xs) = merkle_top H (merkle_next H ys)"
      using Suc.prems(4) unfolding merkle_top_next [OF x(1)] merkle_top_next [OF y(1)] .
  qed (use ne u p Suc.prems(7) in blast)+
  then have "row_pairs xs = row_pairs ys"
    unfolding merkle_next_pairs using Suc.prems(7) p by (elim map_inj_on) (blast intro: inj_on_subset)
  then show ?case using row_pairs_inject u by blast
qed

lemma rows_above:
  assumes "k \<le> row_depth H ys" "ys \<noteq> []" "unmutated H ys"
  shows "row_depth H ((merkle_next H ^^ k) ys) = row_depth H ys - k \<and> (merkle_next H ^^ k) ys \<noteq> [] \<and>
    merkle_top H ((merkle_next H ^^ k) ys) = merkle_top H ys \<and> unmutated H ((merkle_next H ^^ k) ys) \<and>
    tree_pairs H ((merkle_next H ^^ k) ys) \<subseteq> tree_pairs H ys \<and>
    (0 < k \<longrightarrow> set ((merkle_next H ^^ k) ys) \<subseteq> (\<lambda>(a, b). H a b) ` tree_pairs H ys)"
  using assms(1)
proof (induction k)
  case 0
  then show ?case using assms by simp
next
  case (Suc k)
  let ?row = "(merkle_next H ^^ k) ys"
  have r: "row_depth H ?row = row_depth H ys - k" "merkle_top H ?row = merkle_top H ys" "unmutated H ?row"
    "tree_pairs H ?row \<subseteq> tree_pairs H ys" using Suc by simp_all
  then have l: "1 < length ?row" "row_depth H ?row = Suc (row_depth H (merkle_next H ?row))"
    using row_depth_next [of H ?row] Suc(2) by simp_all
  have ne: "merkle_next H ?row \<noteq> []" using l(1) by (auto simp: merkle_next_pairs)
  have "tree_pairs H ?row = set (row_pairs ?row) \<union> tree_pairs H (merkle_next H ?row)"
    by (rule tree_pairs_next [OF l(1)])
  moreover have "set (merkle_next H ?row) = (\<lambda>(a, b). H a b) ` set (row_pairs ?row)" by (simp add: merkle_next_pairs)
  ultimately have sub: "tree_pairs H (merkle_next H ?row) \<subseteq> tree_pairs H ys"
    "set (merkle_next H ?row) \<subseteq> (\<lambda>(a, b). H a b) ` tree_pairs H ys"
    using r(4) by blast+
  have "row_depth H (merkle_next H ?row) = row_depth H ys - Suc k" using r(1) l(2) by simp
  moreover have "merkle_top H (merkle_next H ?row) = merkle_top H ys" using r(2) merkle_top_next [OF l(1)] by metis
  ultimately show ?case
    unfolding funpow.simps comp_apply using sub ne unmutated_next [OF r(3) l(1)] by blast
qed

lemma deeper_not_leaves:
  assumes "row_depth H xs < row_depth H ys" "xs \<noteq> []" "ys \<noteq> []" "merkle_top H xs = merkle_top H ys"
    "unmutated H xs" "unmutated H ys" "inj_on (\<lambda>(a, b). H a b) P" "tree_pairs H xs \<subseteq> P" "tree_pairs H ys \<subseteq> P"
  shows "\<exists>x \<in> set xs. x \<in> (\<lambda>(a, b). H a b) ` P"
proof -
  let ?k = "row_depth H ys - row_depth H xs"
  let ?row = "(merkle_next H ^^ ?k) ys"
  have r: "row_depth H ?row = row_depth H xs" "?row \<noteq> []" "merkle_top H ?row = merkle_top H ys" "unmutated H ?row"
    "tree_pairs H ?row \<subseteq> tree_pairs H ys" "set ?row \<subseteq> (\<lambda>(a, b). H a b) ` tree_pairs H ys"
    using rows_above [of ?k H ys, OF _ assms(3,6)] assms(1) by simp_all
  have eq: "xs = ?row"
  proof (rule same_depth_same_row [of H xs ?row P])
    show "tree_pairs H ?row \<subseteq> P" using r(5) assms(9) by (rule subset_trans)
  qed (simp_all add: r assms del: merkle_row.simps)
  have "set xs \<subseteq> (\<lambda>(a, b). H a b) ` tree_pairs H ys" by (subst eq) (rule r(6))
  moreover have "last xs \<in> set xs" using assms(2) by simp
  ultimately show ?thesis using assms(9) by blast
qed

section \<open>Properties of the tree\<close>

text \<open>The branch of a transaction proves it: for every transaction of a block, checking the branch that
  \<open>GetMerkleBranch\<close> extracts, from the id of the transaction and its position, ends in the root
  that \<open>BuildMerkleTree\<close> computed, also where a level has an odd number of hashes.\<close>

theorem merkle_branch_proves:
  assumes "i < length hashes"
  shows "CheckMerkleBranch H (hashes ! i) (GetMerkleBranch H hashes i) (int i) = MerkleRoot H hashes"
proof -
  have "hashes \<noteq> []" using assms by auto
  then show ?thesis using branch_reaches_top [OF assms, of H "[]"]
    by (simp add: CheckMerkleBranch_def GetMerkleBranch_def BuildMerkleTree_def merkle_loop_above MerkleRoot_top)
qed

theorem merkle_branch_proves_witness:
  "CheckMerkleBranch (\<lambda>a b. 10 * a + b) ([1, 2, 3] ! 2) (GetMerkleBranch (\<lambda>a b. 10 * a + b) [1, 2, 3] 2) (int 2)
     = MerkleRoot (\<lambda>a b. 10 * a + b) [1, 2, 3]"
  by (rule merkle_branch_proves) simp

text \<open>C9:
  The Merkle root determines the transactions: two lists of transaction ids in which \<open>BuildMerkleTree\<close>
  finds no mutation and that have the same root are the same list, of whatever lengths, as long as the
  hash has no collision among the pairs the two trees hash and no id is itself the hash of such a pair.
  The duplication of trailing hashes (CVE-2012-2459) is always flagged.\<close>

theorem merkle_root_binds:
  assumes "xs \<noteq> []" "ys \<noteq> []" "MerkleRoot H xs = MerkleRoot H ys"
    "\<not> snd (BuildMerkleTree H xs)" "\<not> snd (BuildMerkleTree H ys)"
    "inj_on (\<lambda>(a, b). H a b) (tree_pairs H xs \<union> tree_pairs H ys)"
    "\<forall>x \<in> set xs \<union> set ys. x \<notin> (\<lambda>(a, b). H a b) ` (tree_pairs H xs \<union> tree_pairs H ys)"
  shows "xs = ys"
proof -
  let ?P = "tree_pairs H xs \<union> tree_pairs H ys"
  have u: "unmutated H xs" "unmutated H ys"
    using assms(4,5) by (simp_all add: BuildMerkleTree_def merkle_loop_mutated)
  have t: "merkle_top H xs = merkle_top H ys" using assms(1-3) by (simp add: MerkleRoot_top)
  consider "row_depth H xs = row_depth H ys" | "row_depth H xs < row_depth H ys" | "row_depth H ys < row_depth H xs"
    by linarith
  then show ?thesis
  proof cases
    case 1
    show ?thesis by (rule same_depth_same_row [OF 1 assms(1,2) t u assms(6)]) simp_all
  next
    case 2
    from deeper_not_leaves [OF 2 assms(1,2) t u assms(6)] assms(7) show ?thesis by blast
  next
    case 3
    from deeper_not_leaves [OF 3 assms(2,1) t [symmetric] u(2,1) assms(6)] assms(7) show ?thesis by blast
  qed
qed

definition demo_hash :: "hash256 \<Rightarrow> hash256 \<Rightarrow> hash256" where
  "demo_hash a b = 1000 * a + b"

theorem merkle_root_binds_witness: "MerkleRoot demo_hash [1, 2, 3] \<noteq> MerkleRoot demo_hash [1, 2, 4]"
proof
  assume r: "MerkleRoot demo_hash [1, 2, 3] = MerkleRoot demo_hash [1, 2, 4]"
  have "[1, 2, 3] = [1, 2, 4 :: hash256]"
    by (rule merkle_root_binds [OF _ _ r])
      (simp_all add: BuildMerkleTree_def merkle_loop.simps tree_pairs.simps demo_hash_def inj_on_def)
  then show False by simp
qed

end
