(* ===== verification/BlockCheck.thy ===== *)
theory BlockCheck
  imports Block
begin

text \<open>
  The checks of a block that need no coins: \<open>CheckBlockHeader\<close>, \<open>CheckBlock\<close>,
  \<open>ContextualCheckBlockHeader\<close>, \<open>ContextualCheckBlock\<close> of \<open>src/src/main.cpp\<close>, the checkpoints of
  \<open>src/src/checkpoints.cpp\<close> and the value and payee checks of \<open>src/src/masternode-payments.cpp\<close>.
  The globals they read are the fields of an environment; serial numbers of zerocoin spends and the
  payee rules of the budget and of the masternodes are functions of it.
\<close>

section \<open>Checkpoints\<close>

text \<open>The checkpoints of a network, by increasing height.\<close>

type_synonym checkpoints = "(nat \<times> hash256) list"

definition Checkpoints_CheckBlock :: "bool \<Rightarrow> checkpoints \<Rightarrow> nat \<Rightarrow> hash256 \<Rightarrow> bool \<Rightarrow> bool" where
  "Checkpoints_CheckBlock fEnabled cps h hsh fMatchesCheckpoint =
     (if \<not> fEnabled then True
      else case map_of cps h of None \<Rightarrow> \<not> fMatchesCheckpoint | Some c \<Rightarrow> hsh = c)"

definition GetTotalBlocksEstimate :: "bool \<Rightarrow> checkpoints \<Rightarrow> nat" where
  "GetTotalBlocksEstimate fEnabled cps = (if \<not> fEnabled \<or> cps = [] then 0 else fst (last cps))"

fun last_known_checkpoint :: "(hash256 \<Rightarrow> ptr option) \<Rightarrow> checkpoints \<Rightarrow> ptr option" where
  "last_known_checkpoint mapBlockIndex [] = None"
| "last_known_checkpoint mapBlockIndex ((h, hsh) # rest) =
     (case mapBlockIndex hsh of Some p \<Rightarrow> Some p | None \<Rightarrow> last_known_checkpoint mapBlockIndex rest)"

definition GetLastCheckpoint :: "bool \<Rightarrow> (hash256 \<Rightarrow> ptr option) \<Rightarrow> checkpoints \<Rightarrow> ptr option" where
  "GetLastCheckpoint fEnabled mapBlockIndex cps =
     (if \<not> fEnabled then None else last_known_checkpoint mapBlockIndex (rev cps))"

section \<open>The environment\<close>

datatype TrxValidationStatus = InValid | Valid | DoublePayment | VoteThreshold

record block_env =
  be_params :: CChainParams
  be_adjustedTime :: int
  be_store :: store
  be_mapBlockIndex :: "hash256 \<Rightarrow> ptr option"
  be_tip :: "ptr option"
  be_IsInitialBlockDownload :: bool
  be_checkpointsEnabled :: bool
  be_checkpoints :: checkpoints
  be_maxreorg :: "int option"
  be_synced :: bool
  be_superblocks :: bool
  be_budgetEnforcement :: bool
  be_paymentEnforcement :: bool
  be_lockFiltering :: bool
  mapLockedInputs :: "COutPoint \<Rightarrow> hash256 option"
  IsBudgetPaymentBlock :: "int \<Rightarrow> bool"
  budget_IsTransactionValid :: "CTransaction \<Rightarrow> int \<Rightarrow> TrxValidationStatus"
  payments_IsTransactionValid :: "CTransaction \<Rightarrow> int \<Rightarrow> bool"
  be_CheckZerocoinMint :: "hash256 \<Rightarrow> CTxOut \<Rightarrow> bool"
  be_CheckZerocoinSpend :: "CTransaction \<Rightarrow> bool"
  be_serial :: "CTransaction \<Rightarrow> CTxIn \<Rightarrow> int option"
  be_hash :: "hash256 \<Rightarrow> hash256 \<Rightarrow> hash256"

text \<open>A hash as the limbs of a \<open>uint256\<close>.\<close>

definition hash_limbs :: "hash256 \<Rightarrow> base_uint" where
  "hash_limbs h = map (\<lambda>i. ucast (drop_bit (32 * i) h)) [0..<8]"

definition block_time :: "CBlock \<Rightarrow> int" where
  "block_time block = uint (blk_nTime block)"

section \<open>The header\<close>

definition CheckBlockHeader :: "block_env \<Rightarrow> CBlock \<Rightarrow> bool \<Rightarrow> unit validation" where
  "CheckBlockHeader E block fCheckPOW =
     (let P = be_params E
      in if fCheckPOW \<and> \<not> CheckProofOfWork P (hash_limbs (blk_hash block)) (blk_nBits block) then Inl (50, ''high-hash'')
         else if nZerocoinStartTime P < block_time block then
           (if blk_nVersion block < nZerocoinHeaderVersion P \<and> networkID P \<noteq> REGTEST
            then Inl (50, ''block-version'') else Inr ())
         else (if nZerocoinHeaderVersion P \<le> blk_nVersion block then Inl (50, ''block-version'') else Inr ()))"

text \<open>The height the code uses for a block: one above its parent, or 0 when it is not known.\<close>

definition parent_height :: "block_env \<Rightarrow> ptr \<Rightarrow> CBlock \<Rightarrow> int" where
  "parent_height E pindexPrev block =
     (if phashBlock (be_store E pindexPrev) = hashPrevBlock block then int (nHeight (be_store E pindexPrev)) + 1
      else case be_mapBlockIndex E (hashPrevBlock block) of
        Some p \<Rightarrow> int (nHeight (be_store E p)) + 1
      | None \<Rightarrow> 0)"

section \<open>Value and payee\<close>

definition IsBlockValueValid :: "block_env \<Rightarrow> CBlock \<Rightarrow> int \<Rightarrow> int \<Rightarrow> bool" where
  "IsBlockValueValid E block nExpectedValue nMinted =
     (case be_tip E of
        None \<Rightarrow> True
      | Some pindexPrev \<Rightarrow>
          let h = parent_height E pindexPrev block
          in if \<not> be_synced E then
               (if h mod nBudgetCycleBlocks (be_params E) < 100 then True else nMinted \<le> nExpectedValue)
             else if \<not> be_superblocks E then nMinted \<le> nExpectedValue
             else if IsBudgetPaymentBlock E h then True
             else nMinted \<le> nExpectedValue)"

definition GetBlockNewTxForPayeeChecks :: "CBlock \<Rightarrow> CTransaction" where
  "GetBlockNewTxForPayeeChecks block =
     (if block_IsProofOfStake block \<and> 1 < length (vtx block) then vtx block ! 1 else vtx block ! 0)"

definition IsBlockPayeeValid :: "block_env \<Rightarrow> CBlock \<Rightarrow> int \<Rightarrow> bool" where
  "IsBlockPayeeValid E block nBlockHeight =
     (if \<not> be_synced E then True
      else
        let txNew = GetBlockNewTxForPayeeChecks block;
            budgetBlock = be_superblocks E \<and> IsBudgetPaymentBlock E nBlockHeight;
            transactionStatus = budget_IsTransactionValid E txNew nBlockHeight
        in if budgetBlock \<and> transactionStatus = Valid then True
           else if budgetBlock \<and> transactionStatus = InValid \<and> be_budgetEnforcement E then False
           else if payments_IsTransactionValid E txNew nBlockHeight then True
           else \<not> be_paymentEnforcement E)"

section \<open>The block\<close>

text \<open>The scan for conflicts with locked inputs; the reads of the map create no entries.\<close>

definition conflicting_lock :: "block_env \<Rightarrow> CTransaction \<Rightarrow> bool" where
  "conflicting_lock E tx \<longleftrightarrow> \<not> IsCoinBase tx \<and>
     list_ex (\<lambda>txin. case mapLockedInputs E (prevout txin) of None \<Rightarrow> False | Some h \<Rightarrow> h \<noteq> txid tx) (vin tx)"

text \<open>The serial numbers of the zerocoin spends of a transaction, none twice in the block.\<close>

fun check_serials :: "block_env \<Rightarrow> CTransaction \<Rightarrow> CTxIn list \<Rightarrow> int list \<Rightarrow> int list validation" where
  "check_serials E tx [] vBlockSerials = Inr vBlockSerials"
| "check_serials E tx (txin # rest) vBlockSerials =
     (if CTxIn_IsZerocoinSpend txin \<or> CTxIn_IsZerocoinPublicSpend txin then
        (case be_serial E tx txin of
           None \<Rightarrow> Inl (0, '''')
         | Some serial \<Rightarrow>
             if serial \<in> set vBlockSerials then Inl (100, '''')
             else check_serials E tx rest (vBlockSerials @ [serial]))
      else check_serials E tx rest vBlockSerials)"

definition block_check_env :: "block_env \<Rightarrow> CBlock \<Rightarrow> check_env" where
  "block_check_env E block = \<lparr>ce_params = be_params E,
     fZerocoinActive = (nZerocoinStartTime (be_params E) < block_time block),
     CheckZerocoinMint = be_CheckZerocoinMint E, CheckZerocoinSpend = be_CheckZerocoinSpend E\<rparr>"

text \<open>A failed \<open>CheckTransaction\<close> has set the state, which \<open>error\<close> leaves as it is.\<close>

fun check_txs :: "block_env \<Rightarrow> check_env \<Rightarrow> CTransaction list \<Rightarrow> int list \<Rightarrow> unit validation" where
  "check_txs E C [] vBlockSerials = Inr ()"
| "check_txs E C (tx # rest) vBlockSerials =
     (case CheckTransaction C tx of
        Inl e \<Rightarrow> Inl e
      | Inr _ \<Rightarrow>
          if HasZerocoinSpendInputs tx then
            (case check_serials E tx (vin tx) vBlockSerials of
               Inl e \<Rightarrow> Inl e
             | Inr vBlockSerials \<Rightarrow> check_txs E C rest vBlockSerials)
          else check_txs E C rest vBlockSerials)"

definition check_merkle :: "block_env \<Rightarrow> CBlock \<Rightarrow> unit validation" where
  "check_merkle E block =
     (let hashes = map txid (vtx block)
      in if hashMerkleRoot block \<noteq> MerkleRoot (be_hash E) hashes then Inl (100, ''bad-txnmrklroot'')
         else if snd (BuildMerkleTree (be_hash E) hashes) then Inl (100, ''bad-txns-duplicate'')
         else Inr ())"

text \<open>The size limit and the places of the coinbase and of the coinstake.\<close>

definition check_layout :: "CBlock \<Rightarrow> unit validation" where
  "check_layout block =
     (if vtx block = [] \<or> MAX_BLOCK_SIZE_CURRENT < length (vtx block) \<or> MAX_BLOCK_SIZE_CURRENT < CBlock_size block
        then Inl (100, ''bad-blk-length'')
      else if \<not> IsCoinBase (vtx block ! 0) then Inl (100, ''bad-cb-missing'')
      else if list_ex IsCoinBase (drop 1 (vtx block)) then Inl (100, ''bad-cb-multiple'')
      else if block_IsProofOfStake block then
        (if length (vout (vtx block ! 0)) \<noteq> 1 \<or> \<not> CTxOut_IsEmpty (vout (vtx block ! 0) ! 0) then Inl (100, '''')
         else if \<not> IsCoinStake (vtx block ! 1) then Inl (100, '''')
         else if list_ex IsCoinStake (drop 2 (vtx block)) then Inl (100, '''')
         else Inr ())
      else Inr ())"

definition check_payee :: "block_env \<Rightarrow> CBlock \<Rightarrow> unit validation" where
  "check_payee E block =
     (case be_tip E of
        None \<Rightarrow> Inr ()
      | Some pindexPrev \<Rightarrow>
          let h = parent_height E pindexPrev block
          in if h \<noteq> 0 \<and> \<not> be_IsInitialBlockDownload E \<and> \<not> IsBlockPayeeValid E block h
             then Inl (0, ''bad-cb-payee'') else Inr ())"

definition CheckBlock :: "block_env \<Rightarrow> CBlock \<Rightarrow> bool \<Rightarrow> bool \<Rightarrow> unit validation" where
  "CheckBlock E block fCheckPOW fCheckMerkleRoot =
     (case CheckBlockHeader E block (fCheckPOW \<and> block_IsProofOfWork block) of
        Inl _ \<Rightarrow> Inl (100, ''bad-header'')
      | Inr _ \<Rightarrow>
      if networkID (be_params E) \<noteq> REGTEST \<and>
         be_adjustedTime E + (if block_IsProofOfStake block then 180 else 7200) < block_time block
        then Inl (0, ''time-too-new'')
      else case (if fCheckMerkleRoot then check_merkle E block else Inr ()) of
        Inl e \<Rightarrow> Inl e
      | Inr _ \<Rightarrow>
      (case check_layout block of
        Inl e \<Rightarrow> Inl e
      | Inr _ \<Rightarrow>
      if be_lockFiltering E \<and> list_ex (conflicting_lock E) (vtx block) then Inl (0, ''conflicting-tx-ix'')
      else case check_payee E block of
        Inl e \<Rightarrow> Inl e
      | Inr _ \<Rightarrow>
      (case check_txs E (block_check_env E block) (vtx block) [] of
        Inl e \<Rightarrow> Inl e
      | Inr _ \<Rightarrow>
          if (if nZerocoinStartTime (be_params E) < block_time block then MAX_BLOCK_SIGOPS_CURRENT
              else MAX_BLOCK_SIGOPS_LEGACY) < sum_list (map GetLegacySigOpCount (vtx block))
          then Inl (100, ''bad-blk-sigops'') else Inr ())))"

section \<open>The checks in the chain\<close>

text \<open>\<open>None\<close> is the failed \<open>assert\<close> on the parent; \<open>genesis\<close> is the hash of the genesis block.\<close>

definition ContextualCheckBlockHeader ::
  "block_env \<Rightarrow> hash256 \<Rightarrow> int \<Rightarrow> CBlock \<Rightarrow> ptr option \<Rightarrow> unit validation option" where
  "ContextualCheckBlockHeader E genesis chainHeight block pindexPrev =
     (if blk_hash block = genesis then Some (Inr ())
      else case pindexPrev of
        None \<Rightarrow> None
      | Some prev \<Rightarrow>
      let P = be_params E; st = be_store E;
          h = nHeight (st prev) + 1;
          nMaxReorgDepth = (case be_maxreorg E of None \<Rightarrow> nMaxReorganizationDepth P | Some d \<Rightarrow> d);
          outdated = (\<lambda>v. blk_nVersion block < v \<and> IsSuperMajority P st v pindexPrev (nat (nRejectBlockOutdatedMajority P)))
      in if networkID P = REGTEST \<and> Some (blk_nBits block) \<noteq> GetNextWorkRequired P st pindexPrev
           then Some (Inl (100, ''bad-diffbits''))
         else if nMaxReorgDepth \<le> chainHeight - int h then Some (Inl (1, ''''))
         else if block_time block \<le> GetMedianTimePast st prev \<and> networkID P \<noteq> REGTEST
           then Some (Inl (0, ''time-too-old''))
         else if \<not> Checkpoints_CheckBlock (be_checkpointsEnabled E) (be_checkpoints E) h (blk_hash block) False
           then Some (Inl (100, ''checkpoint mismatch''))
         else if (case GetLastCheckpoint (be_checkpointsEnabled E) (be_mapBlockIndex E) (be_checkpoints E) of
                    None \<Rightarrow> False | Some pcheckpoint \<Rightarrow> h < nHeight (st pcheckpoint))
           then Some (Inl (0, ''''))
         else if outdated 2 \<or> outdated 3 \<or> outdated 5 then Some (Inl (0, ''bad-version''))
         else Some (Inr ()))"

text \<open>\<open>None\<close> is a coinbase without an input to read.\<close>

definition ContextualCheckBlock :: "block_env \<Rightarrow> int \<Rightarrow> CBlock \<Rightarrow> ptr option \<Rightarrow> unit validation option" where
  "ContextualCheckBlock E chainHeight block pindexPrev =
     (let P = be_params E; st = be_store E;
          h = (case pindexPrev of None \<Rightarrow> 0 | Some p \<Rightarrow> int (nHeight (st p)) + 1)
      in if \<not> list_all (\<lambda>tx. IsFinalTx chainHeight (be_adjustedTime E) tx h (block_time block)) (vtx block)
           then Some (Inl (10, ''bad-txns-nonfinal''))
         else if 2 \<le> blk_nVersion block \<and> IsSuperMajority P st 2 pindexPrev (nat (nEnforceBlockUpgradeMajority P)) then
           (if vtx block = [] \<or> vin (vtx block ! 0) = [] then None
            else
              let expect = push_int64 [] h
              in if take (length expect) (scriptSig (vin (vtx block ! 0) ! 0)) \<noteq> expect
                 then Some (Inl (100, ''bad-cb-height'')) else Some (Inr ()))
         else Some (Inr ()))"

end
