(* ===== verification/ConnectBlock.thy ===== *)
theory ConnectBlock
  imports Connect BlockCheck
begin

text \<open>
  \<open>ConnectBlock\<close> and \<open>DisconnectBlock\<close> of \<open>src/src/main.cpp\<close>, and the way \<open>ConnectTip\<close> and
  \<open>DisconnectTip\<close> apply them in a cache over the cache of the tip. The scripts of a block are
  checked in order, as with no script threads. Zerocoin proofs, serial numbers and the databases of
  spends, mints and accumulators are functions of the environment; the transaction index, the wallet
  and the logs are left out. Money sums are 64-bit and wrap.
\<close>

record connect_env =
  cn_block :: block_env
  cn_script :: "CTransaction \<Rightarrow> nat \<Rightarrow> script_env"
  cn_genesis :: hash256
  cn_moneySupply :: "ptr \<Rightarrow> int"
  cn_fVerifyingBlocks :: bool
  cn_maintenanceMode :: int
  cn_invalidOutPoints :: "COutPoint set"
  cn_txHeight :: "hash256 \<Rightarrow> int option"
  cn_denomination :: "CTransaction \<Rightarrow> CTxIn \<Rightarrow> int option"
  ContextualCheckZerocoinSpend :: "CTransaction \<Rightarrow> CTxIn \<Rightarrow> bool"
  ContextualCheckZerocoinMint :: "CTransaction \<Rightarrow> CTxOut \<Rightarrow> bool"
  UpdateZAGRSupply :: "CBlock \<Rightarrow> bool"
  ValidateAccumulatorCheckpoint :: "CBlock \<Rightarrow> bool"
  EraseZerocoins :: "CTransaction \<Rightarrow> bool"
  EraseAccumulatorValues :: "ptr \<Rightarrow> bool"

abbreviation cn_params :: "connect_env \<Rightarrow> CChainParams" where
  "cn_params E \<equiv> be_params (cn_block E)"

abbreviation cn_store :: "connect_env \<Rightarrow> store" where
  "cn_store E \<equiv> be_store (cn_block E)"

definition inputs_env_of :: "connect_env \<Rightarrow> inputs_env" where
  "inputs_env_of E = \<lparr>in_params = cn_params E,
     in_blockHeight = (\<lambda>h. map_option (\<lambda>p. int (nHeight (cn_store E p))) (be_mapBlockIndex (cn_block E) h)),
     in_script = cn_script E\<rparr>"

definition sub64 :: "int \<Rightarrow> int \<Rightarrow> int" where
  "sub64 a b = signed_take_bit 63 (a - b)"

section \<open>The transactions of a block\<close>

definition CheckPublicCoinSpendEnforced :: "CChainParams \<Rightarrow> int \<Rightarrow> bool \<Rightarrow> bool" where
  "CheckPublicCoinSpendEnforced P blockHeight isPublicSpend =
     (if nPublicZCSpends P \<le> blockHeight then isPublicSpend else \<not> isPublicSpend)"

definition ValidOutPoint :: "connect_env \<Rightarrow> COutPoint \<Rightarrow> int \<Rightarrow> bool" where
  "ValidOutPoint E out h \<longleftrightarrow> \<not> (nBlockEnforceInvalidUTXO (cn_params E) \<le> h \<and> out \<in> cn_invalidOutPoints E)"

text \<open>The zerocoin inputs of a transaction; the result is \<open>nValueIn\<close>.\<close>

fun zerocoin_inputs :: "connect_env \<Rightarrow> int \<Rightarrow> CTransaction \<Rightarrow> CTxIn list \<Rightarrow> int \<Rightarrow> int validation" where
  "zerocoin_inputs E h tx [] nValueIn = Inr nValueIn"
| "zerocoin_inputs E h tx (txin # rest) nValueIn =
     (if \<not> CTxIn_IsZerocoinSpend txin \<and> \<not> CTxIn_IsZerocoinPublicSpend txin then zerocoin_inputs E h tx rest nValueIn
      else if \<not> CheckPublicCoinSpendEnforced (cn_params E) h (CTxIn_IsZerocoinPublicSpend txin) then Inl (0, '''')
      else case cn_denomination E tx txin of
        None \<Rightarrow> Inl (0, '''')
      | Some d \<Rightarrow>
          if \<not> ContextualCheckZerocoinSpend E tx txin then Inl (100, '''')
          else zerocoin_inputs E h tx rest (add64 nValueIn (d * COIN)))"

definition mints_ok :: "connect_env \<Rightarrow> CTransaction \<Rightarrow> bool" where
  "mints_ok E tx \<longleftrightarrow> \<not> HasZerocoinMintOutputs tx \<or>
     list_all (\<lambda>out. CTxOut_IsZerocoinMint out \<longrightarrow> ContextualCheckZerocoinMint E tx out) (vout tx)"

record connect_state =
  nSigOps :: nat
  nFees :: int
  nValueIn :: int
  nValueOut :: int

definition connect_zerocoin :: "connect_env \<Rightarrow> int \<Rightarrow> CTransaction \<Rightarrow> connect_state \<Rightarrow> connect_state validation" where
  "connect_zerocoin E h tx cs =
     (if (case cn_txHeight E (txid tx) of
            None \<Rightarrow> False | Some nHeightTx \<Rightarrow> \<not> cn_fVerifyingBlocks E \<or> (cn_fVerifyingBlocks E \<and> nHeightTx < h))
        then Inl (100, ''bad-txns-inputs-missingorspent'')
      else case zerocoin_inputs E h tx (vin tx) (nValueIn cs) of
        Inl e \<Rightarrow> Inl e
      | Inr s \<Rightarrow> if \<not> mints_ok E tx then Inl (100, '''') else Inr (cs\<lparr>nValueIn := s\<rparr>))"

text \<open>A transaction with ordinary inputs.\<close>

definition connect_inputs ::
  "connect_env \<Rightarrow> 's getter \<Rightarrow> ('s \<Rightarrow> hash256 \<times> 's) \<Rightarrow> bool \<Rightarrow> uint32 \<Rightarrow> int \<Rightarrow> CTransaction \<Rightarrow> connect_state \<Rightarrow>
   's view_cache \<Rightarrow> (connect_state validation \<times> 's view_cache) option" where
  "connect_inputs E get getbest fScriptChecks flags h tx cs v =
     (case HaveInputs get v tx of
        (have, v) \<Rightarrow>
          if \<not> have then Some (Inl (100, ''bad-txns-inputs-missingorspent''), v)
          else if \<not> list_all (\<lambda>txin. ValidOutPoint E (prevout txin) h) (vin tx)
            then Some (Inl (100, ''bad-txns-invalid-inputs''), v)
          else if \<not> mints_ok E tx then Some (Inl (100, ''''), v)
          else case GetP2SHSigOpCount get v tx of
            None \<Rightarrow> None
          | Some (n, v) \<Rightarrow>
              let cs = cs\<lparr>nSigOps := nSigOps cs + n\<rparr>
              in if MAX_BLOCK_SIGOPS_CURRENT < nSigOps cs then Some (Inl (100, ''bad-blk-sigops''), v)
                 else (case GetValueIn get v tx of
                   None \<Rightarrow> None
                 | Some (valueIn, v) \<Rightarrow>
                     (case GetValueOut tx of
                        Inl _ \<Rightarrow> None
                      | Inr valueOut \<Rightarrow>
                          let cs = (if IsCoinStake tx then cs
                                    else cs\<lparr>nFees := add64 (nFees cs) (sub64 valueIn valueOut)\<rparr>);
                              cs = cs\<lparr>nValueIn := add64 (nValueIn cs) valueIn\<rparr>
                          in (case CheckInputs (inputs_env_of E) get getbest v tx fScriptChecks flags of
                                None \<Rightarrow> None
                              | Some (Inl e, v) \<Rightarrow> Some (Inl e, v)
                              | Some (Inr _, v) \<Rightarrow> Some (Inr cs, v)))))"

definition connect_tx ::
  "connect_env \<Rightarrow> 's getter \<Rightarrow> ('s \<Rightarrow> hash256 \<times> 's) \<Rightarrow> bool \<Rightarrow> uint32 \<Rightarrow> CBlock \<Rightarrow> int \<Rightarrow> CTransaction \<Rightarrow>
   connect_state \<Rightarrow> 's view_cache \<Rightarrow> (connect_state validation \<times> 's view_cache) option" where
  "connect_tx E get getbest fScriptChecks flags block h tx cs v =
     (let cs = cs\<lparr>nSigOps := nSigOps cs + GetLegacySigOpCount tx\<rparr>
      in if MAX_BLOCK_SIGOPS_CURRENT < nSigOps cs then Some (Inl (100, ''bad-blk-sigops''), v)
         else if cn_maintenanceMode E < block_time block \<and> \<not> be_IsInitialBlockDownload (cn_block E) \<and> ContainsZerocoins tx
           then Some (Inl (100, ''''), v)
         else if HasZerocoinSpendInputs tx then Some (connect_zerocoin E h tx cs, v)
         else if \<not> IsCoinBase tx then connect_inputs E get getbest fScriptChecks flags h tx cs v
         else Some (Inr cs, v))"

text \<open>The loop; the undo records of all transactions are collected. A throw of \<open>GetValueOut\<close> is \<open>None\<close>.\<close>

fun connect_loop ::
  "connect_env \<Rightarrow> 's getter \<Rightarrow> ('s \<Rightarrow> hash256 \<times> 's) \<Rightarrow> bool \<Rightarrow> uint32 \<Rightarrow> CBlock \<Rightarrow> int \<Rightarrow> CTransaction list \<Rightarrow>
   connect_state \<Rightarrow> 's view_cache \<Rightarrow> ((connect_state \<times> CTxInUndo list list) validation \<times> 's view_cache) option" where
  "connect_loop E get getbest fScriptChecks flags block h [] cs v = Some (Inr (cs, []), v)"
| "connect_loop E get getbest fScriptChecks flags block h (tx # rest) cs v =
     (case connect_tx E get getbest fScriptChecks flags block h tx cs v of
        None \<Rightarrow> None
      | Some (Inl e, v) \<Rightarrow> Some (Inl e, v)
      | Some (Inr cs, v) \<Rightarrow>
          (case GetValueOut tx of
             Inl _ \<Rightarrow> None
           | Inr valueOut \<Rightarrow>
               (case UpdateCoins get tx v h of
                  None \<Rightarrow> None
                | Some (undo, v) \<Rightarrow>
                    (case connect_loop E get getbest fScriptChecks flags block h rest
                            (cs\<lparr>nValueOut := add64 (nValueOut cs) valueOut\<rparr>) v of
                       None \<Rightarrow> None
                     | Some (Inl e, v) \<Rightarrow> Some (Inl e, v)
                     | Some (Inr (cs, undos), v) \<Rightarrow> Some (Inr (cs, undo # undos), v)))))"

section \<open>Connecting a block\<close>

definition EnforceBIP30 :: "CBlockIndex \<Rightarrow> bool" where
  "EnforceBIP30 pindex \<longleftrightarrow>
     \<not> ((nHeight pindex = 91842 \<and> phashBlock pindex = 0x00000000000a4d0a398161ffc163c503763b1f4360639393e0e4c8e300e0caec) \<or>
        (nHeight pindex = 91880 \<and> phashBlock pindex = 0x00000000000743f190a18c5577a3c2d2a1f610ae9601ac046a38084ccb7cd721))"

fun bip30_loop :: "'s getter \<Rightarrow> CTransaction list \<Rightarrow> 's view_cache \<Rightarrow> bool \<times> 's view_cache" where
  "bip30_loop get [] v = (True, v)"
| "bip30_loop get (tx # rest) v =
     (case cache_GetCoins get v (txid tx) of
        (Some c, v) \<Rightarrow> if \<not> IsPruned c then (False, v) else bip30_loop get rest v
      | (None, v) \<Rightarrow> bip30_loop get rest v)"

text \<open>What a connected block leaves in its index entry and undo file.\<close>

record connect_result =
  cr_vtxundo :: "CTxInUndo list list"
  cr_nMoneySupply :: int
  cr_nMint :: int

definition block_flags :: "connect_env \<Rightarrow> bool \<Rightarrow> CBlockIndex \<Rightarrow> uint32" where
  "block_flags E fScriptChecks pindex =
     (SCRIPT_VERIFY_P2SH OR SCRIPT_VERIFY_DERSIG) OR
     (if fScriptChecks \<and> pprev pindex \<noteq> None \<and>
         IsSuperMajority (cn_params E) (cn_store E) 5 (pprev pindex) (nat (nEnforceBlockUpgradeMajority (cn_params E)))
      then SCRIPT_VERIFY_CHECKLOCKTIMEVERIFY else 0)"

definition connect_start :: connect_state where
  "connect_start = \<lparr>nSigOps = 0, nFees = 0, nValueIn = 0, nValueOut = 0\<rparr>"

text \<open>The checks after the loop: the supply, the minted amount and the accumulators.\<close>

definition connect_finish ::
  "connect_env \<Rightarrow> CBlock \<Rightarrow> CBlockIndex \<Rightarrow> connect_state \<Rightarrow> CTxInUndo list list \<Rightarrow> connect_result validation" where
  "connect_finish E block pindex cs undos =
     (if \<not> UpdateZAGRSupply E block then Inl (100, '''')
      else
        let nMoneySupplyPrev = (case pprev pindex of None \<Rightarrow> 0 | Some p \<Rightarrow> cn_moneySupply E p);
            nMoneySupply = sub64 (add64 nMoneySupplyPrev (nValueOut cs)) (nValueIn cs);
            nMint = add64 (sub64 nMoneySupply nMoneySupplyPrev) (nFees cs);
            nExpectedMint = GetBlockValue (cn_params E) (int (nHeight pindex)) (block_IsProofOfStake block);
            nExpectedMint = (if block_IsProofOfWork block then add64 nExpectedMint (nFees cs) else nExpectedMint)
        in if \<not> IsBlockValueValid (cn_block E) block nExpectedMint nMint then Inl (100, ''bad-cb-amount'')
           else if \<not> ValidateAccumulatorCheckpoint E block then Inl (100, ''bad-acc-checkpoint'')
           else Inr \<lparr>cr_vtxundo = drop 1 undos, cr_nMoneySupply = nMoneySupply, cr_nMint = nMint\<rparr>)"

text \<open>
  \<open>ConnectBlock\<close>. The outer \<open>None\<close> is a failed \<open>assert\<close> or a throw; the result of a success is
  \<open>None\<close> for the genesis block, whose transactions are skipped.
\<close>

definition ConnectBlock ::
  "connect_env \<Rightarrow> 's getter \<Rightarrow> ('s \<Rightarrow> hash256 \<times> 's) \<Rightarrow> CBlock \<Rightarrow> CBlockIndex \<Rightarrow> 's view_cache \<Rightarrow> bool \<Rightarrow> bool \<Rightarrow>
   (connect_result option validation \<times> 's view_cache) option" where
  "ConnectBlock E get getbest block pindex v fJustCheck fAlreadyChecked =
     (case (if fAlreadyChecked then Inr () else CheckBlock (cn_block E) block (\<not> fJustCheck) (\<not> fJustCheck)) of
        Inl e \<Rightarrow> Some (Inl e, v)
      | Inr _ \<Rightarrow>
      (case cache_GetBestBlock getbest v of
        (hashBest, v) \<Rightarrow>
      if (case pprev pindex of None \<Rightarrow> 0 | Some p \<Rightarrow> phashBlock (cn_store E p)) \<noteq> hashBest then None
      else if blk_hash block = cn_genesis E then Some (Inr None, SetBestBlock v (phashBlock pindex))
      else if block_IsProofOfStake block \<and> int (nHeight pindex) < nFirstPoSBlock (cn_params E)
        then Some (Inl (100, ''PoS-early''), v)
      else if block_IsProofOfWork block \<and> nLastPOWBlock (cn_params E) < int (nHeight pindex)
        then Some (Inl (100, ''PoW-ended''), v)
      else
        let fScriptChecks = GetTotalBlocksEstimate (be_checkpointsEnabled (cn_block E)) (be_checkpoints (cn_block E)) \<le> nHeight pindex;
            flags = block_flags E fScriptChecks pindex
        in (case (if EnforceBIP30 pindex then bip30_loop get (vtx block) v else (True, v)) of
              (fresh, v) \<Rightarrow>
            if \<not> fresh then Some (Inl (100, ''bad-txns-BIP30''), v)
            else case connect_loop E get getbest fScriptChecks flags block (int (nHeight pindex)) (vtx block) connect_start v of
              None \<Rightarrow> None
            | Some (Inl e, v) \<Rightarrow> Some (Inl e, v)
            | Some (Inr (cs, undos), v) \<Rightarrow>
                (case connect_finish E block pindex cs undos of
                   Inl e \<Rightarrow> Some (Inl e, v)
                 | Inr res \<Rightarrow>
                     if fJustCheck then Some (Inr (Some res), v)
                     else Some (Inr (Some res), SetBestBlock v (phashBlock pindex))))))"

section \<open>Disconnecting a block\<close>

text \<open>
  The transactions from the last to the first, each with its undo record: the coinbase has none, and
  reading one for it is an index out of range. A failure is \<open>Inl\<close>.
\<close>

fun disconnect_loop ::
  "connect_env \<Rightarrow> 's getter \<Rightarrow> int \<Rightarrow> (CTransaction \<times> CTxInUndo list option) list \<Rightarrow> bool \<Rightarrow> 's view_cache \<Rightarrow>
   (unit + bool \<times> 's view_cache) option" where
  "disconnect_loop E get h [] fClean v = Some (Inr (fClean, v))"
| "disconnect_loop E get h ((tx, undo) # rest) fClean v =
     (if ContainsZerocoins tx \<and> \<not> EraseZerocoins E tx then Some (Inl ())
      else if \<not> IsCoinBase tx \<and> \<not> HasZerocoinSpendInputs tx \<and> undo = None then None
      else case disconnect_tx get v tx h (case undo of None \<Rightarrow> [] | Some u \<Rightarrow> u) fClean of
        None \<Rightarrow> None
      | Some (Inl _) \<Rightarrow> Some (Inl ())
      | Some (Inr (fClean, v)) \<Rightarrow> disconnect_loop E get h rest fClean v)"

text \<open>\<open>vtxundo\<close> is \<open>None\<close> when there is no undo data or it cannot be read.\<close>

definition DisconnectBlock ::
  "connect_env \<Rightarrow> 's getter \<Rightarrow> ('s \<Rightarrow> hash256 \<times> 's) \<Rightarrow> CBlock \<Rightarrow> CBlockIndex \<Rightarrow> CTxInUndo list list option \<Rightarrow>
   's view_cache \<Rightarrow> (unit + bool \<times> 's view_cache) option" where
  "DisconnectBlock E get getbest block pindex blockUndo v =
     (case cache_GetBestBlock getbest v of
        (hashBest, v) \<Rightarrow>
      if phashBlock pindex \<noteq> hashBest then None
      else case blockUndo of
        None \<Rightarrow> Some (Inl ())
      | Some vtxundo \<Rightarrow>
          if length vtxundo + 1 \<noteq> length (vtx block) then Some (Inl ())
          else case disconnect_loop E get (int (nHeight pindex)) (rev (zip (vtx block) (None # map Some vtxundo))) True v of
            None \<Rightarrow> None
          | Some (Inl _) \<Rightarrow> Some (Inl ())
          | Some (Inr (fClean, v)) \<Rightarrow>
              (case pprev pindex of
                 None \<Rightarrow> None
               | Some prev \<Rightarrow>
                   let v = SetBestBlock v (phashBlock (cn_store E prev))
                   in if \<not> cn_fVerifyingBlocks E \<and> \<not> EraseAccumulatorValues E prev then Some (Inl ())
                      else Some (Inr (fClean, v))))"

section \<open>The tip\<close>

text \<open>
  The caches of the running node: \<open>pcoinsTip\<close> over the database. A block is applied in a cache over
  \<open>pcoinsTip\<close>, which is flushed into it on success and dropped otherwise.
\<close>

type_synonym coins_tip = "coins_db view_cache"

abbreviation tip_GetCoins :: "coins_tip getter" where
  "tip_GetCoins \<equiv> cache_GetCoins db_GetCoins"

abbreviation tip_GetBestBlock :: "coins_tip \<Rightarrow> hash256 \<times> coins_tip" where
  "tip_GetBestBlock \<equiv> cache_GetBestBlock db_GetBestBlock"

text \<open>The coins of \<open>ConnectTip\<close> and \<open>DisconnectTip\<close>; the failed \<open>assert(view.Flush())\<close> is \<open>None\<close>.\<close>

definition ConnectTip_coins ::
  "connect_env \<Rightarrow> CBlock \<Rightarrow> CBlockIndex \<Rightarrow> coins_tip \<Rightarrow> bool \<Rightarrow> (connect_result option validation \<times> coins_tip) option" where
  "ConnectTip_coins E block pindexNew tip fAlreadyChecked =
     (case ConnectBlock E tip_GetCoins tip_GetBestBlock block pindexNew (new_cache tip) False fAlreadyChecked of
        None \<Rightarrow> None
      | Some (Inl e, v) \<Rightarrow> Some (Inl e, base v)
      | Some (Inr res, v) \<Rightarrow>
          (case Flush cache_BatchWrite v of None \<Rightarrow> None | Some v \<Rightarrow> Some (Inr res, base v)))"

definition DisconnectTip_coins ::
  "connect_env \<Rightarrow> CBlock \<Rightarrow> CBlockIndex \<Rightarrow> CTxInUndo list list option \<Rightarrow> coins_tip \<Rightarrow> coins_tip option option" where
  "DisconnectTip_coins E block pindexDelete blockUndo tip =
     (case DisconnectBlock E tip_GetCoins tip_GetBestBlock block pindexDelete blockUndo (new_cache tip) of
        None \<Rightarrow> None
      | Some (Inl _) \<Rightarrow> Some None
      | Some (Inr (fClean, v)) \<Rightarrow>
          if \<not> fClean then Some None
          else (case Flush cache_BatchWrite v of None \<Rightarrow> None | Some v \<Rightarrow> Some (Some (base v))))"

text \<open>\<open>FlushStateToDisk\<close> writes the tip's cache to the database when it is due.\<close>

definition flush_due :: "bool \<Rightarrow> bool \<Rightarrow> bool \<Rightarrow> nat \<Rightarrow> nat \<Rightarrow> bool" where
  "flush_due always periodic expired cacheSize nCoinCacheSize \<longleftrightarrow>
     always \<or> nCoinCacheSize < cacheSize \<or> (periodic \<and> expired)"

definition FlushStateToDisk_coins :: "bool \<Rightarrow> bool \<Rightarrow> bool \<Rightarrow> nat \<Rightarrow> coins_tip \<Rightarrow> coins_tip option" where
  "FlushStateToDisk_coins always periodic expired nCoinCacheSize tip =
     (if flush_due always periodic expired (length (cacheCoins tip)) nCoinCacheSize
      then Flush db_BatchWrite tip else Some tip)"

end
