(* ===== verification/ConnectSpec.thy ===== *)
theory ConnectSpec
  imports ConnectBlock
begin

text \<open>
  What the operations of \<open>Connect\<close> and \<open>ConnectBlock\<close> do to the unspent outputs, as a map from
  transaction ids to coins: each operation on a cache over a view is a function of the contents of the
  cache, whatever the view. The lemmas are proved once for every view, in \<open>coins_reader\<close>.
\<close>

type_synonym utxos = "hash256 \<Rightarrow> CCoins option"

section \<open>The operations on the contents\<close>

definition output_of :: "utxos \<Rightarrow> CTxIn \<Rightarrow> CTxOut option" where
  "output_of A txin =
     (case A (op_hash (prevout txin)) of
        None \<Rightarrow> None
      | Some c \<Rightarrow> if IsAvailable c (unat (op_n (prevout txin))) then Some (cvout c ! unat (op_n (prevout txin))) else None)"

definition spend_one :: "utxos \<Rightarrow> CTxIn \<Rightarrow> (CTxInUndo \<times> utxos) option" where
  "spend_one A txin =
     (case A (op_hash (prevout txin)) of
        None \<Rightarrow> None
      | Some c \<Rightarrow>
          (case Spend c (prevout txin) of
             None \<Rightarrow> None
           | Some (c', undo) \<Rightarrow> Some (undo, A(op_hash (prevout txin) := visible (Some c')))))"

fun spend_all :: "utxos \<Rightarrow> CTxIn list \<Rightarrow> (CTxInUndo list \<times> utxos) option" where
  "spend_all A [] = Some ([], A)"
| "spend_all A (txin # ins) =
     (case spend_one A txin of
        None \<Rightarrow> None
      | Some (undo, A) \<Rightarrow> (case spend_all A ins of None \<Rightarrow> None | Some (undos, A) \<Rightarrow> Some (undo # undos, A)))"

definition regular :: "CTransaction \<Rightarrow> bool" where
  "regular tx \<longleftrightarrow> \<not> IsCoinBase tx \<and> \<not> HasZerocoinSpendInputs tx"

definition update_utxos :: "utxos \<Rightarrow> CTransaction \<Rightarrow> int \<Rightarrow> (CTxInUndo list \<times> utxos) option" where
  "update_utxos A tx h =
     (case (if regular tx then spend_all A (vin tx) else Some ([], A)) of
        None \<Rightarrow> None
      | Some (undos, A) \<Rightarrow> Some (undos, A(txid tx := visible (Some (FromTx tx h)))))"

section \<open>Coins\<close>

lemma IsAvailable_not_pruned: "IsAvailable c n \<Longrightarrow> \<not> IsPruned c"
  by (auto simp: IsAvailable_def IsPruned_def list_all_length)

lemma Spend_pruned: "IsPruned c \<Longrightarrow> Spend c out = None"
  by (auto simp: Spend_def IsPruned_def list_all_length Let_def)

lemma Cleanup_idem [simp]: "Cleanup (Cleanup c) = Cleanup c"
  by (simp add: Cleanup_def)

lemma Spend_clean: "Spend c out = Some (c', undo) \<Longrightarrow> Cleanup c' = c'"
  by (auto simp: Spend_def Let_def split: if_split_asm)

lemma FromTx_clean: "Cleanup (FromTx tx h) = FromTx tx h"
  by (simp add: FromTx_def ClearUnspendable_def)

lemma visible_eq_Some: "visible r = Some c \<longleftrightarrow> r = Some c \<and> \<not> IsPruned c"
  by (auto simp: visible_def split: option.splits)

lemma visible_Some_eq_None: "visible (Some c) = None \<longleftrightarrow> IsPruned c"
  by (simp add: visible_Some)

section \<open>The cache operations as functions of the contents\<close>

context coins_reader
begin

lemma read_coins:
  assumes "cache_inv vinv absv known v" "cache_GetCoins GetCoins v k = (r, v')"
  shows "cache_inv vinv absv known v' \<and> cache_abs absv v' = cache_abs absv v \<and> cache_best best v' = cache_best best v"
    "visible r = cache_abs absv v k"
  using coins_reader.GetCoins [OF cache_reader assms] by simp_all

lemma read_best:
  assumes "cache_inv vinv absv known v" "cache_GetBestBlock GetBest v = (h, v')"
  shows "cache_inv vinv absv known v' \<and> cache_abs absv v' = cache_abs absv v \<and> cache_best best v' = cache_best best v"
    "h = cache_best best v"
  using coins_reader.GetBest [OF cache_reader assms] by simp_all

lemma GetOutputFor_utxos:
  assumes "cache_inv vinv absv known v"
  shows "case GetOutputFor GetCoins v txin of
      None \<Rightarrow> output_of (cache_abs absv v) txin = None
    | Some (out, v') \<Rightarrow> output_of (cache_abs absv v) txin = Some out \<and> cache_inv vinv absv known v' \<and>
        cache_abs absv v' = cache_abs absv v \<and> cache_best best v' = cache_best best v"
proof -
  obtain r v' where g: "cache_GetCoins GetCoins v (op_hash (prevout txin)) = (r, v')"
    by (cases "cache_GetCoins GetCoins v (op_hash (prevout txin))")
  show ?thesis using read_coins(1) [OF assms g] read_coins(2) [OF assms g, symmetric]
    by (auto simp: GetOutputFor_def output_of_def g visible_Some IsAvailable_not_pruned split: option.splits)
qed

lemma have_inputs_utxos:
  assumes "cache_inv vinv absv known v" "have_inputs_loop GetCoins v ins = (b, v')"
  shows "cache_inv vinv absv known v' \<and> cache_abs absv v' = cache_abs absv v \<and> cache_best best v' = cache_best best v \<and>
    (b \<longleftrightarrow> (\<forall>txin \<in> set ins. output_of (cache_abs absv v) txin \<noteq> None))"
  using assms
proof (induction ins arbitrary: v)
  case (Cons txin ins)
  obtain r v1 where g: "cache_GetCoins GetCoins v (op_hash (prevout txin)) = (r, v1)"
    by (cases "cache_GetCoins GetCoins v (op_hash (prevout txin))")
  note rd = read_coins [OF Cons.prems(1) g]
  show ?case
  proof (cases "output_of (cache_abs absv v) txin")
    case None
    then have "\<not> b \<and> v' = v1" using rd(2) [symmetric] Cons.prems(2)
      by (auto simp: g output_of_def visible_Some IsAvailable_not_pruned split: option.splits if_split_asm)
    then show ?thesis using rd None by auto
  next
    case (Some out)
    then have "have_inputs_loop GetCoins v1 ins = (b, v')" using rd(2) [symmetric] Cons.prems(2)
      by (auto simp: g output_of_def visible_Some split: option.splits if_split_asm)
    from Cons.IH [OF _ this] rd Some show ?thesis by auto
  qed
qed auto

lemma HaveInputs_utxos:
  assumes "cache_inv vinv absv known v" "HaveInputs GetCoins v tx = (b, v')"
  shows "cache_inv vinv absv known v' \<and> cache_abs absv v' = cache_abs absv v \<and> cache_best best v' = cache_best best v \<and>
    (b \<longleftrightarrow> (regular tx \<longrightarrow> (\<forall>txin \<in> set (vin tx). output_of (cache_abs absv v) txin \<noteq> None)))"
  using have_inputs_utxos [OF assms(1), of "vin tx" b v'] assms
  by (auto simp: HaveInputs_def regular_def split: if_split_asm)

lemma modify_utxos:
  assumes "cache_inv vinv absv known v" "ModifyCoins GetCoins v k f = (r, v')"
  shows "cache_inv vinv absv known v' \<and> cache_best best v' = cache_best best v"
    "\<exists>c. visible (Some c) = cache_abs absv v k \<and> r = fst (f c) \<and>
      cache_abs absv v' = (cache_abs absv v)(k := visible (Some (Cleanup (snd (f c)))))"
  using ModifyCoins_spec [OF assms] by metis+

text \<open>A failed \<open>Spend\<close> is a failed assertion, so the cache it leaves does not matter.\<close>

lemma spend_loop_utxos:
  assumes "cache_inv vinv absv known v"
  shows "case spend_loop GetCoins v ins of
      None \<Rightarrow> spend_all (cache_abs absv v) ins = None
    | Some (undos, v') \<Rightarrow> spend_all (cache_abs absv v) ins = Some (undos, cache_abs absv v') \<and>
        cache_inv vinv absv known v' \<and> cache_best best v' = cache_best best v"
  using assms
proof (induction ins arbitrary: v)
  case (Cons txin ins)
  let ?k = "op_hash (prevout txin)"
  let ?f = "\<lambda>c. case Spend c (prevout txin) of None \<Rightarrow> (None, c) | Some (c', undo) \<Rightarrow> (Some undo, c')"
  obtain r v1 where m: "ModifyCoins GetCoins v ?k ?f = (r, v1)" by (cases "ModifyCoins GetCoins v ?k ?f")
  obtain c where c: "visible (Some c) = cache_abs absv v ?k" "r = fst (?f c)"
    "cache_abs absv v1 = (cache_abs absv v)(?k := visible (Some (Cleanup (snd (?f c)))))"
    using modify_utxos(2) [OF Cons.prems m] by blast
  note inv = modify_utxos(1) [OF Cons.prems m]
  show ?case
  proof (cases "Spend c (prevout txin)")
    case None
    then have "spend_one (cache_abs absv v) txin = None"
      using c(1) by (auto simp: spend_one_def visible_Some split: option.splits if_split_asm)
    then show ?thesis using m c(2) None by simp
  next
    case (Some p)
    obtain c' undo where p: "p = (c', undo)" by (cases p)
    have "\<not> IsPruned c" using Some Spend_pruned by fastforce
    then have "cache_abs absv v ?k = Some c" using c(1) by (simp add: visible_Some)
    then have one: "spend_one (cache_abs absv v) txin = Some (undo, cache_abs absv v1)"
      using c Some p Spend_clean [of c "prevout txin"] by (simp add: spend_one_def visible_Some)
    have "r = Some undo" using c(2) Some p by simp
    then show ?thesis using Cons.IH [of v1] inv m one by (auto split: option.splits)
  qed
qed simp

lemma UpdateCoins_utxos:
  assumes "cache_inv vinv absv known v"
  shows "case UpdateCoins GetCoins tx v h of
      None \<Rightarrow> update_utxos (cache_abs absv v) tx h = None
    | Some (undos, v') \<Rightarrow> update_utxos (cache_abs absv v) tx h = Some (undos, cache_abs absv v') \<and>
        cache_inv vinv absv known v' \<and> cache_best best v' = cache_best best v"
proof (cases "if regular tx then spend_loop GetCoins v (vin tx) else Some ([], v)")
  case None
  then show ?thesis using spend_loop_utxos [OF assms, of "vin tx"]
    by (simp add: UpdateCoins_def update_utxos_def regular_def split: if_split_asm)
next
  case (Some p)
  obtain undos v1 where p: "p = (undos, v1)" by (cases p)
  have s: "(if regular tx then spend_all (cache_abs absv v) (vin tx) else Some ([], cache_abs absv v)) =
      Some (undos, cache_abs absv v1) \<and> cache_inv vinv absv known v1 \<and> cache_best best v1 = cache_best best v"
    using spend_loop_utxos [OF assms, of "vin tx"] Some p assms by (simp split: if_split_asm)
  obtain r v2 where m: "ModifyCoins GetCoins v1 (txid tx) (\<lambda>c. ((), FromTx tx h)) = (r, v2)"
    by (cases "ModifyCoins GetCoins v1 (txid tx) (\<lambda>c. ((), FromTx tx h))")
  have "cache_abs absv v2 = (cache_abs absv v1)(txid tx := visible (Some (FromTx tx h)))"
    using modify_utxos(2) [OF _ m] s by (auto simp: FromTx_clean)
  then show ?thesis using s modify_utxos(1) [OF _ m] Some p m
    by (simp add: UpdateCoins_def update_utxos_def regular_def)
qed

end

section \<open>Values, maturity and scripts\<close>

definition value_of :: "utxos \<Rightarrow> CTxIn \<Rightarrow> int" where
  "value_of A txin = nValue (the (output_of A txin))"

definition mature :: "CChainParams \<Rightarrow> utxos \<Rightarrow> int \<Rightarrow> CTxIn \<Rightarrow> bool" where
  "mature P A nSpendHeight txin \<longleftrightarrow>
     (case A (op_hash (prevout txin)) of
        None \<Rightarrow> False
      | Some c \<Rightarrow> fCoinBase c \<or> fCoinStake c \<longrightarrow> nMaturity P \<le> nSpendHeight - cHeight c)"

definition script_ok :: "inputs_env \<Rightarrow> utxos \<Rightarrow> CTransaction \<Rightarrow> uint32 \<Rightarrow> nat \<Rightarrow> bool" where
  "script_ok E A tx flags i \<longleftrightarrow>
     VerifyScript (in_script E tx i) flags (scriptSig (vin tx ! i)) (scriptPubKey (the (output_of A (vin tx ! i))))
       = Some (Inr ())"

lemma add64_money:
  assumes "0 \<le> s" "s \<le> M" "M < 2 ^ 63"
  shows "(0 \<le> x \<and> x \<le> M) \<and> 0 \<le> add64 s x \<and> add64 s x \<le> M \<longleftrightarrow> 0 \<le> x \<and> s + x \<le> M"
    "0 \<le> x \<Longrightarrow> s + x \<le> M \<Longrightarrow> add64 s x = s + x"
proof -
  show e: "add64 s x = s + x" if "0 \<le> x" "s + x \<le> M" using that assms by (intro add64_exact) simp_all
  show "(0 \<le> x \<and> x \<le> M) \<and> 0 \<le> add64 s x \<and> add64 s x \<le> M \<longleftrightarrow> 0 \<le> x \<and> s + x \<le> M"
  proof (cases "0 \<le> x \<and> x \<le> M")
    case True
    show ?thesis
    proof (cases "s + x < 2 ^ 63")
      case True
      then have "add64 s x = s + x" using assms \<open>0 \<le> x \<and> x \<le> M\<close> by (intro add64_exact) simp_all
      then show ?thesis using \<open>0 \<le> x \<and> x \<le> M\<close> assms(1) by auto
    next
      case False
      then have "add64 s x = s + x - 2 ^ 64" using assms \<open>0 \<le> x \<and> x \<le> M\<close> by (intro add64_wraps) simp_all
      then show ?thesis using False assms \<open>0 \<le> x \<and> x \<le> M\<close> by auto
    qed
  qed (use assms in auto)
qed

lemma value_out_loop_nonneg: "value_out_loop outs acc = Inr v \<Longrightarrow> acc \<le> v"
  by (induction outs acc rule: value_out_loop.induct) (auto split: if_split_asm)

lemma GetValueOut_nonneg: "GetValueOut tx = Inr v \<Longrightarrow> 0 \<le> v"
  by (simp add: GetValueOut_def value_out_loop_nonneg)

context coins_reader
begin

lemma read_available:
  assumes "cache_inv vinv absv known v" "cache_GetCoins GetCoins v (op_hash (prevout txin)) = (r, v1)"
    "output_of (cache_abs absv v) txin \<noteq> None"
  obtains c where "r = Some c" "cache_abs absv v (op_hash (prevout txin)) = Some c" "IsAvailable c (unat (op_n (prevout txin)))"
proof -
  from assms(3) obtain c where c: "cache_abs absv v (op_hash (prevout txin)) = Some c" "IsAvailable c (unat (op_n (prevout txin)))"
    by (auto simp: output_of_def split: option.splits if_split_asm)
  then have "r = Some c" using read_coins(2) [OF assms(1,2)] by (simp add: visible_eq_Some)
  with c that show thesis by blast
qed

lemma value_in_utxos:
  assumes "cache_inv vinv absv known v"
  shows "case value_in_loop GetCoins v ins s of
      None \<Rightarrow> \<exists>txin \<in> set ins. output_of (cache_abs absv v) txin = None
    | Some (t, v') \<Rightarrow> (\<forall>txin \<in> set ins. output_of (cache_abs absv v) txin \<noteq> None) \<and>
        t = foldl add64 s (map (value_of (cache_abs absv v)) ins) \<and> cache_inv vinv absv known v' \<and>
        cache_abs absv v' = cache_abs absv v \<and> cache_best best v' = cache_best best v"
  using assms
proof (induction ins arbitrary: v s)
  case (Cons txin ins)
  show ?case
  proof (cases "GetOutputFor GetCoins v txin")
    case None
    then show ?thesis using GetOutputFor_utxos [OF Cons.prems, of txin] by simp
  next
    case (Some p)
    obtain out v1 where p: "p = (out, v1)" by (cases p)
    have o: "output_of (cache_abs absv v) txin = Some out" "cache_inv vinv absv known v1"
      "cache_abs absv v1 = cache_abs absv v" "cache_best best v1 = cache_best best v"
      using GetOutputFor_utxos [OF Cons.prems, of txin] Some p by simp_all
    show ?thesis using Cons.IH [OF o(2), of "add64 s (nValue out)"] o Some p
      by (simp add: value_of_def split: option.splits prod.splits)
  qed
qed simp

lemma p2sh_sigops_utxos:
  assumes "cache_inv vinv absv known v" "\<forall>txin \<in> set ins. output_of (cache_abs absv v) txin \<noteq> None"
  shows "\<exists>m v'. p2sh_sigops_loop GetCoins v ins n = Some (m, v') \<and> cache_inv vinv absv known v' \<and>
      cache_abs absv v' = cache_abs absv v \<and> cache_best best v' = cache_best best v"
  using assms
proof (induction ins arbitrary: v n)
  case (Cons txin ins)
  obtain out v1 where o: "GetOutputFor GetCoins v txin = Some (out, v1)" "cache_inv vinv absv known v1"
      "cache_abs absv v1 = cache_abs absv v" "cache_best best v1 = cache_best best v"
    using GetOutputFor_utxos [OF Cons.prems(1), of txin] Cons.prems(2) by (auto split: option.splits)
  show ?case using Cons.IH [OF o(2)] Cons.prems(2) o by simp
qed simp

lemma check_values_utxos:
  assumes "cache_inv vinv absv known v" "\<forall>txin \<in> set ins. output_of (cache_abs absv v) txin \<noteq> None"
    "0 \<le> s" "s \<le> nMaxMoneyOut (in_params E)" "nMaxMoneyOut (in_params E) < 2 ^ 63"
  shows "\<exists>res v'. check_values_loop E GetCoins nSpendHeight v ins s = Some (res, v') \<and> cache_inv vinv absv known v' \<and>
      cache_abs absv v' = cache_abs absv v \<and> cache_best best v' = cache_best best v \<and>
      (\<forall>t. res = Inr t \<longleftrightarrow>
         (\<forall>txin \<in> set ins. mature (in_params E) (cache_abs absv v) nSpendHeight txin \<and> 0 \<le> value_of (cache_abs absv v) txin) \<and>
         t = s + (\<Sum>txin \<leftarrow> ins. value_of (cache_abs absv v) txin) \<and> t \<le> nMaxMoneyOut (in_params E))"
  using assms(1-4)
proof (induction ins arbitrary: v s)
  case Nil
  then show ?case by auto
next
  case (Cons txin ins)
  let ?A = "cache_abs absv v" and ?M = "nMaxMoneyOut (in_params E)" and ?P = "in_params E"
  obtain r v1 where g: "cache_GetCoins GetCoins v (op_hash (prevout txin)) = (r, v1)"
    by (cases "cache_GetCoins GetCoins v (op_hash (prevout txin))")
  note rd = read_coins [OF Cons.prems(1) g]
  obtain c where c: "r = Some c" "?A (op_hash (prevout txin)) = Some c" "IsAvailable c (unat (op_n (prevout txin)))"
    using read_available [OF Cons.prems(1) g] Cons.prems(2) by auto
  let ?x = "nValue (cvout c ! unat (op_n (prevout txin)))"
  have x: "value_of ?A txin = ?x" "mature ?P ?A nSpendHeight txin \<longleftrightarrow>
      (fCoinBase c \<or> fCoinStake c \<longrightarrow> nMaturity ?P \<le> nSpendHeight - cHeight c)"
    and len: "unat (op_n (prevout txin)) < length (cvout c)"
    using c by (simp_all add: value_of_def output_of_def mature_def IsAvailable_def)
  note m = add64_money [OF Cons.prems(3,4) assms(5), of ?x]
  show ?case
  proof (cases "mature ?P ?A nSpendHeight txin \<and> 0 \<le> ?x \<and> s + ?x \<le> ?M")
    case False
    then have "\<exists>e. check_values_loop E GetCoins nSpendHeight v (txin # ins) s = Some (Inl e, v1)"
      using m(1) x(2) len by (auto simp: g c(1) MoneyRange_def Let_def)
    moreover have "t \<le> ?M \<Longrightarrow> t = s + (?x + (\<Sum>txin \<leftarrow> ins. value_of ?A txin)) \<Longrightarrow>
        \<forall>txin \<in> set ins. 0 \<le> value_of ?A txin \<Longrightarrow> s + ?x \<le> ?M" for t
    proof -
      assume t: "t \<le> ?M" "t = s + (?x + (\<Sum>txin \<leftarrow> ins. value_of ?A txin))" "\<forall>txin \<in> set ins. 0 \<le> value_of ?A txin"
      then have "0 \<le> (\<Sum>txin \<leftarrow> ins. value_of ?A txin)" by (intro sum_list_nonneg) auto
      with t show "s + ?x \<le> ?M" by simp
    qed
    ultimately show ?thesis using rd(1) False x(1) by (auto simp: add.assoc) 
  next
    case True
    then have ok: "check_values_loop E GetCoins nSpendHeight v (txin # ins) s =
        check_values_loop E GetCoins nSpendHeight v1 ins (s + ?x)"
      using m x(2) len by (auto simp: g c(1) MoneyRange_def Let_def)
    have "0 \<le> s + ?x" using True Cons.prems(3) by simp
    with Cons.IH [of v1 "s + ?x"] rd(1) Cons.prems(2) True x show ?thesis
      unfolding ok by (auto simp: add.assoc)
  qed
qed

lemma check_scripts_utxos:
  assumes "cache_inv vinv absv known v" "\<forall>i \<in> set is. output_of (cache_abs absv v) (vin tx ! i) \<noteq> None"
  shows "\<exists>res v'. check_scripts_loop E GetCoins v tx flags is = Some (res, v') \<and> cache_inv vinv absv known v' \<and>
      cache_abs absv v' = cache_abs absv v \<and> cache_best best v' = cache_best best v \<and>
      (res = Inr () \<longleftrightarrow> (\<forall>i \<in> set is. script_ok E (cache_abs absv v) tx flags i))"
  using assms
proof (induction "is" arbitrary: v)
  case (Cons i "is")
  let ?A = "cache_abs absv v" and ?in = "vin tx ! i"
  obtain r v1 where g: "cache_GetCoins GetCoins v (op_hash (prevout ?in)) = (r, v1)"
    by (cases "cache_GetCoins GetCoins v (op_hash (prevout ?in))")
  note rd = read_coins [OF Cons.prems(1) g]
  obtain c where c: "r = Some c" "?A (op_hash (prevout ?in)) = Some c" "IsAvailable c (unat (op_n (prevout ?in)))"
    using read_available [OF Cons.prems(1) g] Cons.prems(2) by auto
  have s: "CScriptCheck E c tx i fl \<longleftrightarrow> script_ok E ?A tx fl i" for fl
    using c by (simp add: CScriptCheck_def script_ok_def output_of_def)
  have len: "unat (op_n (prevout ?in)) < length (cvout c)" using c(3) by (simp add: IsAvailable_def)
  show ?case
  proof (cases "script_ok E ?A tx flags i")
    case True
    then show ?thesis using Cons.IH [of v1] rd(1) Cons.prems(2) len by (simp add: g c(1) s)
  next
    case False
    then show ?thesis using rd(1) len by (auto simp: g c(1) s)
  qed
qed auto

end

section \<open>CheckInputs\<close>

definition input_values :: "utxos \<Rightarrow> CTransaction \<Rightarrow> int" where
  "input_values A tx = (\<Sum>txin \<leftarrow> vin tx. value_of A txin)"

text \<open>What makes the inputs of a transaction good in a block that extends the view.\<close>

definition inputs_good :: "inputs_env \<Rightarrow> utxos \<Rightarrow> int \<Rightarrow> CTransaction \<Rightarrow> bool \<Rightarrow> uint32 \<Rightarrow> int \<Rightarrow> bool" where
  "inputs_good E A nSpendHeight tx fScriptChecks flags valueOut \<longleftrightarrow>
     (\<forall>txin \<in> set (vin tx). output_of A txin \<noteq> None \<and> mature (in_params E) A nSpendHeight txin \<and> 0 \<le> value_of A txin) \<and>
     input_values A tx \<le> nMaxMoneyOut (in_params E) \<and>
     (IsCoinStake tx \<or> valueOut \<le> input_values A tx) \<and>
     (fScriptChecks \<longrightarrow> (\<forall>i < length (vin tx). script_ok E A tx flags i))"

context coins_reader
begin

lemma CheckInputs_utxos:
  assumes inv: "cache_inv vinv absv known v" and tx: "regular tx"
    and height: "in_blockHeight E (cache_best best v) = Some prevHeight"
    and out: "GetValueOut tx = Inr valueOut"
    and money: "0 \<le> nMaxMoneyOut (in_params E)" "nMaxMoneyOut (in_params E) < 2 ^ 63"
  shows "\<exists>res v'. CheckInputs E GetCoins GetBest v tx fScriptChecks flags = Some (res, v') \<and>
      cache_inv vinv absv known v' \<and> cache_abs absv v' = cache_abs absv v \<and> cache_best best v' = cache_best best v \<and>
      (res = Inr () \<longleftrightarrow> inputs_good E (cache_abs absv v) (prevHeight + 1) tx fScriptChecks flags valueOut)"
proof -
  let ?A = "cache_abs absv v"
  let ?same = "\<lambda>v'. cache_inv vinv absv known v' \<and> cache_abs absv v' = ?A \<and> cache_best best v' = cache_best best v"
  let ?C = "CheckInputs E GetCoins GetBest v tx fScriptChecks flags"
  have r: "\<not> IsCoinBase tx" "\<not> HasZerocoinSpendInputs tx" using tx by (simp_all add: regular_def)
  obtain have1 v1 where h: "HaveInputs GetCoins v tx = (have1, v1)" by (cases "HaveInputs GetCoins v tx")
  have s1: "?same v1" "have1 \<longleftrightarrow> (\<forall>txin \<in> set (vin tx). output_of ?A txin \<noteq> None)"
    using HaveInputs_utxos [OF inv h] tx by auto
  show ?thesis
  proof (cases have1)
    case False
    then have "?C = Some (Inl (0, ''''), v1)" using r h by (simp add: CheckInputs_def)
    then show ?thesis using s1 False by (auto simp: inputs_good_def)
  next
    case True
    then have avail: "\<forall>txin \<in> set (vin tx). output_of ?A txin \<noteq> None" using s1(2) by blast
    obtain hb v2 where b: "cache_GetBestBlock GetBest v1 = (hb, v2)" by (cases "cache_GetBestBlock GetBest v1")
    have s2: "?same v2" "hb = cache_best best v" using read_best [OF _ b] s1(1) by auto
    obtain res3 v3 where c: "check_values_loop E GetCoins (prevHeight + 1) v2 (vin tx) 0 = Some (res3, v3)" "?same v3"
      "\<And>t. res3 = Inr t \<longleftrightarrow> (\<forall>txin \<in> set (vin tx). mature (in_params E) ?A (prevHeight + 1) txin \<and> 0 \<le> value_of ?A txin) \<and>
         t = input_values ?A tx \<and> t \<le> nMaxMoneyOut (in_params E)"
      using check_values_utxos [of v2 "vin tx" 0 E "prevHeight + 1"] s2 avail money by (auto simp: input_values_def)
    show ?thesis
    proof (cases res3)
      case (Inl e)
      then have "?C = Some (Inl e, v3)" using r h True b s2 height c(1) by (simp add: CheckInputs_def)
      moreover have "\<not> inputs_good E ?A (prevHeight + 1) tx fScriptChecks flags valueOut"
        using c(3) [of "input_values ?A tx"] Inl by (auto simp: inputs_good_def)
      ultimately show ?thesis using c(2) by auto
    next
      case (Inr t)
      then have t: "\<forall>txin \<in> set (vin tx). mature (in_params E) ?A (prevHeight + 1) txin \<and> 0 \<le> value_of ?A txin"
        "t = input_values ?A tx" "t \<le> nMaxMoneyOut (in_params E)" using c(3) by auto
      have fee: "(\<exists>e. check_fees E tx t = Some (Inl e)) \<and> \<not> (IsCoinStake tx \<or> valueOut \<le> t) \<or>
          check_fees E tx t = Some (Inr ()) \<and> (IsCoinStake tx \<or> valueOut \<le> t)"
        using GetValueOut_nonneg [OF out] t(3) by (auto simp: check_fees_def out MoneyRange_def Let_def)
      then show ?thesis
      proof
        assume f: "(\<exists>e. check_fees E tx t = Some (Inl e)) \<and> \<not> (IsCoinStake tx \<or> valueOut \<le> t)"
        then obtain e where "?C = Some (Inl e, v3)" using r h True b s2 height c(1) Inr by (auto simp: CheckInputs_def)
        then show ?thesis using f c(2) t(2) by (auto simp: inputs_good_def)
      next
        assume f: "check_fees E tx t = Some (Inr ()) \<and> (IsCoinStake tx \<or> valueOut \<le> t)"
        then have C: "?C = (if fScriptChecks then check_scripts_loop E GetCoins v3 tx flags [0..<length (vin tx)] else Some (Inr (), v3))"
          using r h True b s2 height c(1) Inr by (simp add: CheckInputs_def)
        have good: "inputs_good E ?A (prevHeight + 1) tx fScriptChecks flags valueOut \<longleftrightarrow>
            (fScriptChecks \<longrightarrow> (\<forall>i < length (vin tx). script_ok E ?A tx flags i))"
          using f t avail by (auto simp: inputs_good_def)
        show ?thesis
        proof (cases fScriptChecks)
          case False
          then show ?thesis using C c(2) good by auto
        next
          case True
          have "\<forall>i \<in> set [0..<length (vin tx)]. output_of (cache_abs absv v3) (vin tx ! i) \<noteq> None"
            using avail c(2) by simp
          from check_scripts_utxos [of v3, OF _ this, of E flags] c(2) True C good show ?thesis by auto
        qed
      qed
    qed
  qed
qed

end

end
