(* ===== verification/Utxo.thy ===== *)
theory Utxo
  imports ConnectSpec
begin

text \<open>
  The abstract state of the ledger: a map from outpoints to unspent outputs. \<open>UpdateCoins\<close>, through
  the cache, the per-transaction coins with their trailing nulls and the modifiers, removes the inputs
  of the transaction and adds its outputs.
\<close>

section \<open>The set of unspent outputs\<close>

definition unspent :: "utxos \<Rightarrow> COutPoint \<Rightarrow> CTxOut option" where
  "unspent A out =
     (case A (op_hash out) of
        None \<Rightarrow> None
      | Some c \<Rightarrow>
          if unat (op_n out) < length (cvout c) \<and> \<not> CTxOut_IsNull (cvout c ! unat (op_n out))
          then Some (cvout c ! unat (op_n out)) else None)"

definition created :: "CTransaction \<Rightarrow> COutPoint \<Rightarrow> CTxOut option" where
  "created tx out =
     (let n = unat (op_n out)
      in if n < length (vout tx) \<and> \<not> CTxOut_IsNull (vout tx ! n) \<and> \<not> IsUnspendable (scriptPubKey (vout tx ! n))
         then Some (vout tx ! n) else None)"

definition apply_tx :: "(COutPoint \<Rightarrow> CTxOut option) \<Rightarrow> CTransaction \<Rightarrow> COutPoint \<Rightarrow> CTxOut option" where
  "apply_tx U tx out =
     (if op_hash out = txid tx then created tx out
      else if regular tx \<and> out \<in> prevout ` set (vin tx) then None
      else U out)"

definition spendable :: "(COutPoint \<Rightarrow> CTxOut option) \<Rightarrow> CTransaction \<Rightarrow> bool" where
  "spendable U tx \<longleftrightarrow>
     (regular tx \<longrightarrow> distinct (map prevout (vin tx)) \<and> (\<forall>txin \<in> set (vin tx). U (prevout txin) \<noteq> None))"

lemma output_of_unspent:
  "output_of A txin =
     (case unspent A (prevout txin) of None \<Rightarrow> None | Some out \<Rightarrow> if CTxOut_IsZerocoinMint out then None else Some out)"
  by (cases "A (op_hash (prevout txin))") (simp_all add: output_of_def unspent_def IsAvailable_def)

lemma output_of_imp_unspent: "output_of A txin = Some out \<Longrightarrow> unspent A (prevout txin) = Some out"
  by (auto simp: output_of_unspent split: option.splits if_split_asm)

section \<open>Lists with trailing nulls\<close>

lemma pop_null_nth: "n < length (pop_null v) \<Longrightarrow> pop_null v ! n = v ! n"
  using pop_null_split [of v] by (metis nth_append)

lemma pop_null_keeps: "n < length v \<Longrightarrow> \<not> CTxOut_IsNull (v ! n) \<Longrightarrow> n < length (pop_null v)"
  using pop_null_split [of v] by (metis length_append list_all_length add_diff_inverse_nat nat_add_left_cancel_less nth_append)

lemma length_pop_null: "length (pop_null v) \<le> length v"
  using pop_null_split [of v] by (metis length_append le_add1)

lemma unspent_Cleanup:
  "unspent (A(k := visible (Some (Cleanup c)))) out = unspent (A(k \<mapsto> c)) out"
proof (cases "op_hash out = k \<and> IsPruned c")
  case True
  then have "IsPruned (Cleanup c)" by simp
  with True show ?thesis by (auto simp: unspent_def visible_Some IsPruned_def list_all_length)
next
  case False
  then show ?thesis using pop_null_nth [of "unat (op_n out)" "cvout c"]
      pop_null_keeps [of "unat (op_n out)" "cvout c"] length_pop_null [of "cvout c"]
    by (auto simp: unspent_def visible_Some) (auto simp: Cleanup_def)
qed

lemma op_n_inject: "unat (op_n a) = unat (op_n b) \<Longrightarrow> op_hash a = op_hash b \<Longrightarrow> a = (b :: COutPoint)"
  by (simp add: word_unat_eq_iff [symmetric])

section \<open>Spending and creating\<close>

lemma spend_one_unspent:
  "spend_one A txin = None \<longleftrightarrow> unspent A (prevout txin) = None"
  "spend_one A txin = Some (undo, A') \<Longrightarrow> unspent A' = (unspent A)(prevout txin := None)"
  "spend_one A txin = Some (undo, A') \<Longrightarrow> unspent A (prevout txin) = Some (u_txout undo)"
proof -
  show "spend_one A txin = None \<longleftrightarrow> unspent A (prevout txin) = None"
    by (auto simp: spend_one_def unspent_def Spend_def Let_def split: option.splits)
next
  assume s: "spend_one A txin = Some (undo, A')"
  let ?k = "op_hash (prevout txin)" and ?n = "unat (op_n (prevout txin))"
  obtain c where c: "A ?k = Some c" "?n < length (cvout c)" "\<not> CTxOut_IsNull (cvout c ! ?n)"
    "A' = A(?k := visible (Some (Cleanup (c\<lparr>cvout := (cvout c)[?n := CTxOut_null]\<rparr>))))"
    "u_txout undo = cvout c ! ?n"
    using s by (auto simp: spend_one_def Spend_def Let_def CTxInUndo_of_def split: option.splits if_split_asm)
  show "unspent A (prevout txin) = Some (u_txout undo)" using c by (simp add: unspent_def)
  have "unspent (A(?k \<mapsto> c\<lparr>cvout := (cvout c)[?n := CTxOut_null]\<rparr>)) out = ((unspent A)(prevout txin := None)) out" for out
  proof (cases "out = prevout txin")
    case False
    then have "op_hash out = ?k \<Longrightarrow> unat (op_n out) \<noteq> ?n" using op_n_inject by blast
    then show ?thesis using c False by (auto simp: unspent_def)
  qed (use c in \<open>simp add: unspent_def\<close>)
  then show "unspent A' = (unspent A)(prevout txin := None)"
    unfolding c(4) by (intro ext) (simp only: unspent_Cleanup)
qed

lemma spend_all_unspent:
  "(\<exists>r. spend_all A ins = Some r) \<longleftrightarrow> distinct (map prevout ins) \<and> (\<forall>txin \<in> set ins. unspent A (prevout txin) \<noteq> None)"
  "spend_all A ins = Some (undos, A') \<Longrightarrow> unspent A' out = (if out \<in> prevout ` set ins then None else unspent A out)"
proof (induction ins arbitrary: A undos A')
  case (Cons txin ins)
  {
    case 1
    show ?case
    proof (cases "spend_one A txin")
      case None
      then show ?thesis using spend_one_unspent(1) [of A txin] by auto
    next
      case (Some p)
      obtain undo A1 where p: "p = (undo, A1)" by (cases p)
      have u: "unspent A1 = (unspent A)(prevout txin := None)" "unspent A (prevout txin) \<noteq> None"
        using spend_one_unspent(2,3) [of A txin undo A1] Some p by auto
      have "(\<exists>r. spend_all A (txin # ins) = Some r) \<longleftrightarrow> (\<exists>r. spend_all A1 ins = Some r)"
        using Some p by (auto split: option.splits)
      also have "\<dots> \<longleftrightarrow> distinct (map prevout ins) \<and> (\<forall>t \<in> set ins. prevout t \<noteq> prevout txin \<and> unspent A (prevout t) \<noteq> None)"
        unfolding Cons(1) [of A1] u(1) by auto
      also have "\<dots> \<longleftrightarrow> distinct (map prevout (txin # ins)) \<and> (\<forall>t \<in> set (txin # ins). unspent A (prevout t) \<noteq> None)"
      proof -
        have "prevout txin \<in> prevout ` set ins \<longleftrightarrow> (\<exists>t \<in> set ins. prevout t = prevout txin)"
          unfolding image_iff by metis
        then show ?thesis using u(2) by simp blast
      qed
      finally show ?thesis .
    qed
  next
    case 2
    then obtain undo A1 us where s: "spend_one A txin = Some (undo, A1)" "spend_all A1 ins = Some (us, A')"
      by (auto split: option.splits)
    show ?case using Cons(2) [OF s(2)] spend_one_unspent(2) [OF s(1)] by auto
  }
qed auto

lemma unspent_FromTx:
  "unspent (A(txid tx := visible (Some (FromTx tx h)))) out = (if op_hash out = txid tx then created tx out else unspent A out)"
proof -
  let ?c = "\<lparr>fCoinBase = IsCoinBase tx, fCoinStake = IsCoinStake tx,
    cvout = map (\<lambda>txout. if IsUnspendable (scriptPubKey txout) then CTxOut_null else txout) (vout tx),
    cHeight = h, cVersion = tx_nVersion tx\<rparr>"
  have "FromTx tx h = Cleanup ?c" by (simp add: FromTx_def ClearUnspendable_def)
  then have "unspent (A(txid tx := visible (Some (FromTx tx h)))) out = unspent (A(txid tx \<mapsto> ?c)) out"
    by (simp only: unspent_Cleanup)
  also have "\<dots> = (if op_hash out = txid tx then created tx out else unspent A out)"
    by (cases "unat (op_n out) < length (vout tx)") (simp_all add: unspent_def created_def Let_def)
  finally show ?thesis .
qed

lemma update_utxos_unspent:
  "(\<exists>r. update_utxos A tx h = Some r) \<longleftrightarrow> spendable (unspent A) tx"
  "update_utxos A tx h = Some (undos, A') \<Longrightarrow> unspent A' = apply_tx (unspent A) tx"
proof -
  show "(\<exists>r. update_utxos A tx h = Some r) \<longleftrightarrow> spendable (unspent A) tx"
    using spend_all_unspent(1) [of A "vin tx"]
    by (auto simp: update_utxos_def spendable_def split: option.splits)
next
  assume u: "update_utxos A tx h = Some (undos, A')"
  then obtain B where B: "(if regular tx then spend_all A (vin tx) else Some ([], A)) = Some (undos, B)"
    "A' = B(txid tx := visible (Some (FromTx tx h)))"
    by (auto simp: update_utxos_def split: option.splits)
  show "unspent A' = apply_tx (unspent A) tx"
    unfolding B(2) using spend_all_unspent(2) [of A "vin tx" undos B] B(1)
    by (intro ext) (auto simp: unspent_FromTx apply_tx_def split: if_split_asm)
qed

section \<open>Properties\<close>

text \<open>C4:
  \<open>UpdateCoins\<close> implements the ledger: in the cache of a block over the caches of the node it succeeds
  exactly when every input of the transaction is an unspent output and no output is spent twice (its
  \<open>assert(ret)\<close> fails otherwise), and then the unspent outputs are the ones before, less the inputs,
  plus the outputs of the transaction that are not provably unspendable.\<close>

theorem UpdateCoins_refines:
  assumes "view_inv v"
  shows "case UpdateCoins tip_GetCoins tx v h of
      None \<Rightarrow> \<not> spendable (unspent (view_abs v)) tx
    | Some (undos, v') \<Rightarrow> spendable (unspent (view_abs v)) tx \<and> view_inv v' \<and> view_best v' = view_best v \<and>
        unspent (view_abs v') = apply_tx (unspent (view_abs v)) tx"
proof (cases "UpdateCoins tip_GetCoins tx v h")
  case None
  then show ?thesis using tip.UpdateCoins_utxos [OF assms, of tx h] update_utxos_unspent(1) [of "view_abs v" tx h] by simp
next
  case (Some r)
  then show ?thesis
    using tip.UpdateCoins_utxos [OF assms, of tx h] update_utxos_unspent(1) [of "view_abs v" tx h]
      update_utxos_unspent(2) [of "view_abs v" tx h]
    by (auto split: prod.splits)
qed

theorem UpdateCoins_refines_witness:
  "\<exists>undos v'. UpdateCoins tip_GetCoins demo_tx (new_cache (new_cache demo_db)) 8 = Some (undos, v') \<and>
     unspent (view_abs v') \<lparr>op_hash = 5, op_n = 0\<rparr> = None \<and>
     unspent (view_abs v') \<lparr>op_hash = 77, op_n = 0\<rparr> = Some \<lparr>nValue = 40, scriptPubKey = [OP_1], nRounds = -10\<rparr>"
proof -
  let ?v = "new_cache (new_cache demo_db)"
  have sp: "spendable (unspent (view_abs ?v)) demo_tx"
    by (simp add: spendable_def unspent_def demo_tx_def demo_db_def demo_coins_def CTxOut_IsNull_def)
  have reg: "regular demo_tx"
    by (simp add: regular_def demo_tx_def IsCoinBase_def COutPoint_IsNull_def HasZerocoinSpendInputs_def
        CTxIn_IsZerocoinSpend_def CTxIn_IsZerocoinPublicSpend_def IsZerocoinPublicSpend_def StartsWithOpcode_def)
  obtain undos v' where u: "UpdateCoins tip_GetCoins demo_tx ?v 8 = Some (undos, v')"
    "unspent (view_abs v') = apply_tx (unspent (view_abs ?v)) demo_tx"
    using UpdateCoins_refines [OF demo_db_ok(2), of demo_tx 8] sp by (auto split: option.splits)
  then show ?thesis
    using reg by (auto simp: apply_tx_def created_def demo_tx_def CTxOut_IsNull_def IsUnspendable_def)
qed

text \<open>C7:
  \<open>CheckInputs\<close> is exact: for a transaction with ordinary inputs, whose outputs add up, it never fails
  an assertion and accepts if and only if every input is an available output, mature when it comes from
  a coinbase or a coinstake, none is negative and together they are within the money range (as an exact
  sum), they cover the outputs unless the transaction is a coinstake, and, when scripts are checked,
  every input's script verifies. The view shows the same coins afterwards.\<close>

theorem CheckInputs_exact:
  assumes "view_inv v" "regular tx" "in_params E = Params net" "in_blockHeight E (view_best v) = Some prevHeight"
    "GetValueOut tx = Inr valueOut"
  shows "\<exists>res v'. CheckInputs E tip_GetCoins tip_GetBestBlock v tx fScriptChecks flags = Some (res, v') \<and>
    view_inv v' \<and> view_abs v' = view_abs v \<and> view_best v' = view_best v \<and>
    (res = Inr () \<longleftrightarrow> inputs_good E (view_abs v) (prevHeight + 1) tx fScriptChecks flags valueOut)"
  using tip.CheckInputs_utxos [OF assms(1,2,4,5)] max_money_int64 [of net] by (simp add: assms(3))

definition plain_env :: script_env where
  "plain_env = \<lparr>RIPEMD160 = id, SHA1 = id, SHA256 = id, Hash160 = id, Hash256 = id,
     CheckLowS = (\<lambda>s. True), CheckSig = (\<lambda>s k c. False), CheckLockTime = (\<lambda>n. True)\<rparr>"

definition demo_inputs :: inputs_env where
  "demo_inputs = \<lparr>in_params = main_params, in_blockHeight = [9 \<mapsto> 7], in_script = (\<lambda>tx i. plain_env)\<rparr>"

lemma plain_script: "VerifyScript plain_env SCRIPT_VERIFY_P2SH [] [OP_1] = Some (Inr ())"
  by code_simp

theorem CheckInputs_exact_witness:
  "\<exists>v'. CheckInputs demo_inputs tip_GetCoins tip_GetBestBlock (new_cache (new_cache demo_db)) demo_tx True SCRIPT_VERIFY_P2SH
     = Some (Inr (), v')"
proof -
  let ?v = "new_cache (new_cache demo_db)"
  have reg: "regular demo_tx"
    by (simp add: regular_def demo_tx_def IsCoinBase_def COutPoint_IsNull_def HasZerocoinSpendInputs_def
        CTxIn_IsZerocoinSpend_def CTxIn_IsZerocoinPublicSpend_def IsZerocoinPublicSpend_def StartsWithOpcode_def)
  have A: "view_abs ?v = [5 \<mapsto> demo_coins]" by (simp add: demo_db_def fun_eq_iff)
  have out: "GetValueOut demo_tx = Inr 40" by (simp add: GetValueOut_def demo_tx_def add64_def)
  have h: "in_blockHeight demo_inputs (view_best ?v) = Some 7"
    by (simp add: demo_inputs_def db_best_hash_def demo_db_def)
  have o: "output_of [5 \<mapsto> demo_coins] \<lparr>prevout = \<lparr>op_hash = 5, op_n = 0\<rparr>, scriptSig = [], nSequence = - 1\<rparr> =
      Some \<lparr>nValue = 50, scriptPubKey = [OP_1], nRounds = -10\<rparr>"
    by (simp add: output_of_def demo_coins_def IsAvailable_def CTxOut_IsNull_def CTxOut_IsZerocoinMint_def
        IsZerocoinMint_def StartsWithOpcode_def)
  have good: "inputs_good demo_inputs (view_abs ?v) (7 + 1) demo_tx True SCRIPT_VERIFY_P2SH 40"
    unfolding A using o plain_script
    by (simp add: inputs_good_def input_values_def value_of_def mature_def script_ok_def demo_tx_def demo_inputs_def
        demo_coins_def main_params_def)
  have "in_params demo_inputs = Params MAIN" by (simp add: demo_inputs_def)
  from CheckInputs_exact [OF demo_db_ok(2) reg this h out, of True SCRIPT_VERIFY_P2SH] good show ?thesis by auto
qed

end
