(* ===== verification/Ledger.thy ===== *)
theory Ledger
  imports Utxo
begin

text \<open>
  The transaction loop of \<open>ConnectBlock\<close> as an abstract ledger: for a block without zerocoins, each
  transaction is judged on the contents of the cache alone, and the loop over the caches accepts, with
  the same sums, undo records and coins, exactly when the loop over the contents does.
\<close>

section \<open>What is asked of a transaction\<close>

definition output_values :: "CTransaction \<Rightarrow> int" where
  "output_values tx = (\<Sum>out \<leftarrow> vout tx. nValue out)"

lemma foldl_add64_exact:
  assumes "\<forall>x \<in> set xs. 0 \<le> x" "0 \<le> s" "s + sum_list xs < 2 ^ 63"
  shows "foldl add64 s xs = s + sum_list xs"
  using assms
proof (induction xs arbitrary: s)
  case (Cons x xs)
  have "0 \<le> sum_list xs" using Cons.prems(1) by (intro sum_list_nonneg) simp
  then have "add64 s x = s + x" using Cons.prems by (intro add64_exact) simp_all
  with Cons.IH [of "s + x"] Cons.prems show ?case by (simp add: add.assoc)
qed simp

text \<open>What \<open>CheckTransaction\<close> ensures of the outputs of a transaction.\<close>

definition outputs_good :: "CChainParams \<Rightarrow> CTransaction \<Rightarrow> bool" where
  "outputs_good P tx \<longleftrightarrow> (\<forall>out \<in> set (vout tx). 0 \<le> nValue out) \<and> output_values tx \<le> nMaxMoneyOut P"

lemma GetValueOut_good:
  assumes "outputs_good P tx" "nMaxMoneyOut P < 2 ^ 63"
  shows "GetValueOut tx = Inr (output_values tx)"
proof -
  have nn: "\<forall>out \<in> set (vout tx). 0 \<le> nValue out" and le: "output_values tx < 2 ^ 63"
    using assms by (simp_all add: outputs_good_def)
  have "nValue out \<le> output_values tx" if "out \<in> set (vout tx)" for out
    unfolding output_values_def using that nn by (intro member_le_sum_list) auto
  then have "\<forall>out \<in> set (vout tx). nValue out < 2 ^ 63" using le by fastforce
  from value_out_loop_spec [OF this, of 0 "output_values tx"] nn le show ?thesis
    by (simp add: GetValueOut_def output_values_def)
qed

definition p2sh_sigops_in :: "utxos \<Rightarrow> CTxIn \<Rightarrow> nat" where
  "p2sh_sigops_in A txin =
     (if IsPayToScriptHash (scriptPubKey (the (output_of A txin)))
      then GetSigOpCountP2SH (scriptPubKey (the (output_of A txin))) (scriptSig txin) else 0)"

definition p2sh_sigops :: "utxos \<Rightarrow> CTransaction \<Rightarrow> nat" where
  "p2sh_sigops A tx = (\<Sum>txin \<leftarrow> vin tx. p2sh_sigops_in A txin)"

definition tx_ok :: "connect_env \<Rightarrow> bool \<Rightarrow> uint32 \<Rightarrow> int \<Rightarrow> connect_state \<Rightarrow> utxos \<Rightarrow> CTransaction \<Rightarrow> bool" where
  "tx_ok E fScriptChecks flags h cs A tx \<longleftrightarrow>
     nSigOps cs + GetLegacySigOpCount tx \<le> MAX_BLOCK_SIGOPS_CURRENT \<and>
     (IsCoinBase tx \<or>
      nSigOps cs + GetLegacySigOpCount tx + p2sh_sigops A tx \<le> MAX_BLOCK_SIGOPS_CURRENT \<and>
      (\<forall>txin \<in> set (vin tx). ValidOutPoint E (prevout txin) h) \<and>
      inputs_good (inputs_env_of E) A h tx fScriptChecks flags (output_values tx))"

definition tx_sums :: "utxos \<Rightarrow> CTransaction \<Rightarrow> connect_state \<Rightarrow> connect_state" where
  "tx_sums A tx cs =
     (let cs = cs\<lparr>nSigOps := nSigOps cs + GetLegacySigOpCount tx\<rparr>
      in if IsCoinBase tx then cs
         else cs\<lparr>nSigOps := nSigOps cs + p2sh_sigops A tx,
                 nFees := (if IsCoinStake tx then nFees cs else add64 (nFees cs) (sub64 (input_values A tx) (output_values tx))),
                 nValueIn := add64 (nValueIn cs) (input_values A tx)\<rparr>)"

fun ledger_loop ::
  "connect_env \<Rightarrow> bool \<Rightarrow> uint32 \<Rightarrow> int \<Rightarrow> CTransaction list \<Rightarrow> connect_state \<Rightarrow> utxos \<Rightarrow>
   (connect_state \<times> CTxInUndo list list \<times> utxos) option" where
  "ledger_loop E fScriptChecks flags h [] cs A = Some (cs, [], A)"
| "ledger_loop E fScriptChecks flags h (tx # txs) cs A =
     (if \<not> tx_ok E fScriptChecks flags h cs A tx then None
      else
        let cs = tx_sums A tx cs;
            cs = cs\<lparr>nValueOut := add64 (nValueOut cs) (output_values tx)\<rparr>
        in case update_utxos A tx h of
             None \<Rightarrow> None
           | Some (undo, A) \<Rightarrow>
               map_option (\<lambda>(cs, undos, A). (cs, undo # undos, A)) (ledger_loop E fScriptChecks flags h txs cs A))"

section \<open>The loop of the code is the loop of the ledger\<close>

context coins_reader
begin

lemma p2sh_sigops_count:
  assumes "cache_inv vinv absv known v" "\<forall>txin \<in> set ins. output_of (cache_abs absv v) txin \<noteq> None"
  shows "\<exists>v'. p2sh_sigops_loop GetCoins v ins n =
        Some (n + (\<Sum>txin \<leftarrow> ins. p2sh_sigops_in (cache_abs absv v) txin), v') \<and>
      cache_inv vinv absv known v' \<and> cache_abs absv v' = cache_abs absv v \<and> cache_best best v' = cache_best best v"
  using assms
proof (induction ins arbitrary: v n)
  case (Cons txin ins)
  obtain out v1 where o: "GetOutputFor GetCoins v txin = Some (out, v1)" "cache_inv vinv absv known v1"
      "cache_abs absv v1 = cache_abs absv v" "cache_best best v1 = cache_best best v" "output_of (cache_abs absv v) txin = Some out"
    using GetOutputFor_utxos [OF Cons.prems(1), of txin] Cons.prems(2) by (auto split: option.splits)
  have "p2sh_sigops_loop GetCoins v (txin # ins) n = p2sh_sigops_loop GetCoins v1 ins (n + p2sh_sigops_in (cache_abs absv v) txin)"
    using o by (simp add: p2sh_sigops_in_def)
  moreover have "\<forall>txin \<in> set ins. output_of (cache_abs absv v1) txin \<noteq> None" using Cons.prems(2) o(3) by simp
  note Cons.IH [OF o(2) this, of "n + p2sh_sigops_in (cache_abs absv v) txin"]
  ultimately show ?case using o(3,4) by (simp add: add.assoc)
qed simp

lemma connect_inputs_ledger:
  assumes inv: "cache_inv vinv absv known v" and tx: "regular tx" "\<not> ContainsZerocoins tx"
    and h: "in_blockHeight (inputs_env_of E) (cache_best best v) = Some (h - 1)"
    and P: "cn_params E = Params net" and good: "outputs_good (cn_params E) tx"
    and cs': "cs' = cs\<lparr>nSigOps := nSigOps cs + p2sh_sigops (cache_abs absv v) tx,
                 nFees := (if IsCoinStake tx then nFees cs
                    else add64 (nFees cs) (sub64 (input_values (cache_abs absv v) tx) (output_values tx))),
                 nValueIn := add64 (nValueIn cs) (input_values (cache_abs absv v) tx)\<rparr>"
  shows "\<exists>res v'. connect_inputs E GetCoins GetBest fScriptChecks flags h tx cs v = Some (res, v') \<and>
    cache_inv vinv absv known v' \<and> cache_abs absv v' = cache_abs absv v \<and> cache_best best v' = cache_best best v \<and>
    (if nSigOps cs + p2sh_sigops (cache_abs absv v) tx \<le> MAX_BLOCK_SIGOPS_CURRENT \<and>
        (\<forall>txin \<in> set (vin tx). ValidOutPoint E (prevout txin) h) \<and>
        inputs_good (inputs_env_of E) (cache_abs absv v) h tx fScriptChecks flags (output_values tx)
     then res = Inr cs' else \<exists>e. res = Inl e)"
proof -
  let ?A = "cache_abs absv v" and ?E = "inputs_env_of E" and ?C = "connect_inputs E GetCoins GetBest fScriptChecks flags h tx cs v"
  let ?same = "\<lambda>w. cache_inv vinv absv known w \<and> cache_abs absv w = ?A \<and> cache_best best w = cache_best best v"
  have r: "\<not> IsCoinBase tx" "\<not> HasZerocoinSpendInputs tx" "mints_ok E tx"
    using tx by (simp_all add: regular_def mints_ok_def ContainsZerocoins_def)
  have money: "0 \<le> nMaxMoneyOut (in_params ?E)" "nMaxMoneyOut (in_params ?E) < 2 ^ 63"
    using max_money_int64 [of net] by (simp_all add: inputs_env_of_def P)
  have out: "GetValueOut tx = Inr (output_values tx)"
    by (rule GetValueOut_good [OF good]) (use max_money_int64 [of net] P in simp)
  obtain hv v1 where h1: "HaveInputs GetCoins v tx = (hv, v1)" by (cases "HaveInputs GetCoins v tx")
  have s1: "?same v1" "hv \<longleftrightarrow> (\<forall>txin \<in> set (vin tx). output_of ?A txin \<noteq> None)"
    using HaveInputs_utxos [OF inv h1] tx(1) by auto
  show ?thesis
  proof (cases "hv \<and> (\<forall>txin \<in> set (vin tx). ValidOutPoint E (prevout txin) h)")
    case False
    then have "\<not> hv \<or> \<not> list_all (\<lambda>txin. ValidOutPoint E (prevout txin) h) (vin tx)" by (simp only: list_all_iff) blast
    then have "\<exists>e. ?C = Some (Inl e, v1)" by (elim disjE) (simp_all add: connect_inputs_def h1)
    then obtain e where "?C = Some (Inl e, v1)" by blast
    moreover have "\<not> ((\<forall>txin \<in> set (vin tx). ValidOutPoint E (prevout txin) h) \<and>
        inputs_good ?E ?A h tx fScriptChecks flags (output_values tx))"
      using False s1(2) by (auto simp: inputs_good_def)
    ultimately show ?thesis using s1(1) by auto
  next
    case True
    then have avail: "\<forall>txin \<in> set (vin tx). output_of ?A txin \<noteq> None"
      and valid: "list_all (\<lambda>txin. ValidOutPoint E (prevout txin) h) (vin tx)" and hv
      using s1(2) by (simp_all add: list_all_iff)
    obtain v2 where p: "GetP2SHSigOpCount GetCoins v1 tx = Some (p2sh_sigops ?A tx, v2)" "?same v2"
      using p2sh_sigops_count [of v1 "vin tx" 0] s1(1) avail r by (auto simp: GetP2SHSigOpCount_def p2sh_sigops_def)
    show ?thesis
    proof (cases "nSigOps cs + p2sh_sigops ?A tx \<le> MAX_BLOCK_SIGOPS_CURRENT")
      case False
      then have "\<exists>e. ?C = Some (Inl e, v2)" using valid r(3) \<open>hv\<close> by (simp add: connect_inputs_def h1 p(1) Let_def)
      then show ?thesis using False p(2) by auto
    next
      case small: True
      obtain s v3 where i: "GetValueIn GetCoins v2 tx = Some (s, v3)" "?same v3" "s = foldl add64 0 (map (value_of ?A) (vin tx))"
        using value_in_utxos [of v2 "vin tx" 0] p(2) avail r by (auto simp: GetValueIn_def split: option.splits)
      have best: "in_blockHeight ?E (cache_best best v3) = Some (h - 1)" using i(2) h by simp
      obtain res v4 where k: "CheckInputs ?E GetCoins GetBest v3 tx fScriptChecks flags = Some (res, v4)" "?same v4"
        "res = Inr () \<longleftrightarrow> inputs_good ?E ?A h tx fScriptChecks flags (output_values tx)"
        using CheckInputs_utxos [OF conjunct1 [OF i(2)] tx(1) best out money, of fScriptChecks flags] i(2) by auto
      let ?s = "cs\<lparr>nSigOps := nSigOps cs + p2sh_sigops ?A tx,
                 nFees := (if IsCoinStake tx then nFees cs else add64 (nFees cs) (sub64 s (output_values tx))),
                 nValueIn := add64 (nValueIn cs) s\<rparr>"
      have C: "?C = Some ((case res of Inl e \<Rightarrow> Inl e | Inr _ \<Rightarrow> Inr ?s), v4)"
        using valid r(3) \<open>hv\<close> small by (simp add: connect_inputs_def h1 p(1) i(1) out k(1) Let_def split: sum.split)
      show ?thesis
      proof (cases "inputs_good ?E ?A h tx fScriptChecks flags (output_values tx)")
        case False
        then show ?thesis using C k by (cases res) auto
      next
        case True
        have "s = input_values ?A tx"
          unfolding i(3) using foldl_add64_exact [of "map (value_of ?A) (vin tx)" 0] True money
          by (auto simp: inputs_good_def input_values_def)
        then show ?thesis using C k True small valid unfolding cs' by (simp add: list_all_iff)
      qed
    qed
  qed
qed

lemma connect_tx_ledger:
  assumes inv: "cache_inv vinv absv known v" and tx: "\<not> ContainsZerocoins tx"
    and h: "in_blockHeight (inputs_env_of E) (cache_best best v) = Some (h - 1)"
    and P: "cn_params E = Params net" and good: "outputs_good (cn_params E) tx"
  shows "\<exists>res v'. connect_tx E GetCoins GetBest fScriptChecks flags block h tx cs v = Some (res, v') \<and>
    cache_inv vinv absv known v' \<and> cache_abs absv v' = cache_abs absv v \<and> cache_best best v' = cache_best best v \<and>
    (if tx_ok E fScriptChecks flags h cs (cache_abs absv v) tx then res = Inr (tx_sums (cache_abs absv v) tx cs)
     else \<exists>e. res = Inl e)"
proof (cases "nSigOps cs + GetLegacySigOpCount tx \<le> MAX_BLOCK_SIGOPS_CURRENT \<and> \<not> IsCoinBase tx")
  case False
  have zc: "\<not> HasZerocoinSpendInputs tx" using tx by (simp add: ContainsZerocoins_def)
  show ?thesis
    by (cases "nSigOps cs + GetLegacySigOpCount tx \<le> MAX_BLOCK_SIGOPS_CURRENT")
       (use False inv tx zc in \<open>simp_all add: connect_tx_def tx_ok_def tx_sums_def Let_def\<close>)
next
  case True
  have zc: "\<not> HasZerocoinSpendInputs tx" using tx by (simp add: ContainsZerocoins_def)
  then have reg: "regular tx" using True by (simp add: regular_def)
  let ?cs = "cs\<lparr>nSigOps := nSigOps cs + GetLegacySigOpCount tx\<rparr>"
  let ?A = "cache_abs absv v"
  have eq: "connect_tx E GetCoins GetBest fScriptChecks flags block h tx cs v =
      connect_inputs E GetCoins GetBest fScriptChecks flags h tx ?cs v"
    using True tx zc by (simp add: connect_tx_def Let_def)
  have ok: "tx_ok E fScriptChecks flags h cs ?A tx \<longleftrightarrow>
      nSigOps ?cs + p2sh_sigops ?A tx \<le> MAX_BLOCK_SIGOPS_CURRENT \<and>
      (\<forall>txin \<in> set (vin tx). ValidOutPoint E (prevout txin) h) \<and>
      inputs_good (inputs_env_of E) ?A h tx fScriptChecks flags (output_values tx)"
    using True by (simp add: tx_ok_def)
  have sums: "tx_sums ?A tx cs = ?cs\<lparr>nSigOps := nSigOps ?cs + p2sh_sigops ?A tx,
      nFees := (if IsCoinStake tx then nFees ?cs else add64 (nFees ?cs) (sub64 (input_values ?A tx) (output_values tx))),
      nValueIn := add64 (nValueIn ?cs) (input_values ?A tx)\<rparr>"
    using True by (simp add: tx_sums_def Let_def)
  show ?thesis unfolding eq ok by (rule connect_inputs_ledger [OF inv reg tx h P good sums])
qed

lemma connect_loop_ledger:
  assumes "cache_inv vinv absv known v" "\<forall>tx \<in> set txs. \<not> ContainsZerocoins tx \<and> outputs_good (cn_params E) tx"
    "in_blockHeight (inputs_env_of E) (cache_best best v) = Some (h - 1)" "cn_params E = Params net"
  shows "case ledger_loop E fScriptChecks flags h txs cs (cache_abs absv v) of
      None \<Rightarrow> \<forall>r v'. connect_loop E GetCoins GetBest fScriptChecks flags block h txs cs v \<noteq> Some (Inr r, v')
    | Some (cs', undos, A') \<Rightarrow> \<exists>v'. connect_loop E GetCoins GetBest fScriptChecks flags block h txs cs v = Some (Inr (cs', undos), v') \<and>
        cache_inv vinv absv known v' \<and> cache_abs absv v' = A' \<and> cache_best best v' = cache_best best v"
  using assms
proof (induction txs arbitrary: cs v)
  case (Cons tx txs)
  note P = Cons.prems(4)
  let ?A = "cache_abs absv v"
  have tx: "\<not> ContainsZerocoins tx" "outputs_good (cn_params E) tx" using Cons.prems(2) by auto
  have out: "GetValueOut tx = Inr (output_values tx)"
    by (rule GetValueOut_good [OF tx(2)]) (use max_money_int64 [of net] P in simp)
  obtain res v1 where c: "connect_tx E GetCoins GetBest fScriptChecks flags block h tx cs v = Some (res, v1)"
    "cache_inv vinv absv known v1" "cache_abs absv v1 = ?A" "cache_best best v1 = cache_best best v"
    "if tx_ok E fScriptChecks flags h cs ?A tx then res = Inr (tx_sums ?A tx cs) else \<exists>e. res = Inl e"
    using connect_tx_ledger [OF Cons.prems(1) tx(1) Cons.prems(3) P tx(2)] by metis
  show ?case
  proof (cases "tx_ok E fScriptChecks flags h cs ?A tx")
    case False
    then show ?thesis using c by auto
  next
    case True
    then have res: "res = Inr (tx_sums ?A tx cs)" using c(5) by simp
    show ?thesis
    proof (cases "UpdateCoins GetCoins tx v1 h")
      case None
      then have "update_utxos ?A tx h = None" using UpdateCoins_utxos [OF c(2), of tx h] c(3) by simp
      then show ?thesis using True c(1) res out None by (simp add: Let_def)
    next
      case (Some p)
      obtain undo v2 where p: "p = (undo, v2)" by (cases p)
      have u: "update_utxos ?A tx h = Some (undo, cache_abs absv v2)" "cache_inv vinv absv known v2"
        "cache_best best v2 = cache_best best v"
        using UpdateCoins_utxos [OF c(2), of tx h] c(3,4) Some p by simp_all
      let ?cs = "(tx_sums ?A tx cs)\<lparr>nValueOut := add64 (nValueOut (tx_sums ?A tx cs)) (output_values tx)\<rparr>"
      have "\<forall>tx \<in> set txs. \<not> ContainsZerocoins tx \<and> outputs_good (cn_params E) tx"
        "in_blockHeight (inputs_env_of E) (cache_best best v2) = Some (h - 1)" using Cons.prems(2,3) u(3) by simp_all
      note ih = Cons.IH [OF u(2) this P, of ?cs]
      show ?thesis
        using ih True c(1) res out Some p u
        by (cases "ledger_loop E fScriptChecks flags h txs ?cs (cache_abs absv v2)")
           (auto simp: Let_def split: option.split sum.split prod.split)
    qed
  qed
qed simp

end

end
