(* ===== verification/Supply.thy ===== *)
theory Supply
  imports Ledger
begin

text \<open>
  The money in the unspent outputs: what each step of \<open>ConnectBlock\<close> does to the total, the exactness
  of its wrapping sums for blocks that \<open>CheckBlock\<close> let through, and the limit on what a block creates.
\<close>

section \<open>Totals\<close>

definition coins_value :: "CCoins \<Rightarrow> int" where
  "coins_value c = (\<Sum>out \<leftarrow> cvout c. if CTxOut_IsNull out then 0 else nValue out)"

definition coins_value_opt :: "CCoins option \<Rightarrow> int" where
  "coins_value_opt r = (case r of None \<Rightarrow> 0 | Some c \<Rightarrow> coins_value c)"

definition utxo_total :: "hash256 set \<Rightarrow> utxos \<Rightarrow> int" where
  "utxo_total S A = (\<Sum>k\<in>S. coins_value_opt (A k))"

definition utxos_ok :: "utxos \<Rightarrow> bool" where
  "utxos_ok A \<longleftrightarrow> (\<forall>k c. A k = Some c \<longrightarrow> (\<forall>out \<in> set (cvout c). CTxOut_IsNull out \<or> 0 \<le> nValue out))"

lemma coins_value_opt_simps [simp]: "coins_value_opt None = 0" "coins_value_opt (Some c) = coins_value c"
  by (simp_all add: coins_value_opt_def)

lemma utxo_total_update:
  "utxo_total S (A(k := r)) = (if k \<in> S then utxo_total S A - coins_value_opt (A k) + coins_value_opt r else utxo_total S A)"
proof (cases "k \<in> S")
  case True
  have "utxo_total S (A(k := r)) = coins_value_opt r + (\<Sum>j\<in>S - {k}. coins_value_opt (A j))"
    unfolding utxo_total_def by (subst sum.remove [OF _ True]) (auto intro: sum.cong)
  moreover have "utxo_total S A = coins_value_opt (A k) + (\<Sum>j\<in>S - {k}. coins_value_opt (A j))"
    unfolding utxo_total_def by (subst sum.remove [OF _ True]) auto
  ultimately show ?thesis using True by simp
qed (auto simp: utxo_total_def intro: sum.cong)

lemma sum_null_zero: "list_all CTxOut_IsNull v \<Longrightarrow> (\<Sum>out \<leftarrow> v. if CTxOut_IsNull out then 0 else nValue out) = 0"
  by (induction v) auto

lemma coins_value_pruned: "IsPruned c \<Longrightarrow> coins_value c = 0"
  by (simp add: coins_value_def IsPruned_def sum_null_zero)

lemma coins_value_visible [simp]: "coins_value_opt (visible (Some c)) = coins_value c"
  by (simp add: visible_Some coins_value_pruned)

lemma coins_value_Cleanup [simp]: "coins_value (Cleanup c) = coins_value c"
proof -
  obtain k where k: "cvout c = pop_null (cvout c) @ k" "list_all CTxOut_IsNull k" using pop_null_split by blast
  have "coins_value c = (\<Sum>out \<leftarrow> pop_null (cvout c) @ k. if CTxOut_IsNull out then 0 else nValue out)"
    unfolding coins_value_def using k(1) by (rule arg_cong)
  then show ?thesis by (simp add: coins_value_def Cleanup_def sum_null_zero [OF k(2)])
qed

lemma utxos_ok_value: "utxos_ok A \<Longrightarrow> 0 \<le> coins_value_opt (A k)"
proof (cases "A k")
  case (Some c)
  assume "utxos_ok A"
  with Some have "\<forall>out \<in> set (cvout c). CTxOut_IsNull out \<or> 0 \<le> nValue out" unfolding utxos_ok_def by blast
  then show ?thesis unfolding Some coins_value_opt_simps coins_value_def by (intro sum_list_nonneg) auto
qed simp

lemma utxos_ok_total: "utxos_ok A \<Longrightarrow> 0 \<le> utxo_total S A"
  unfolding utxo_total_def by (intro sum_nonneg) (rule utxos_ok_value)

lemma utxo_total_subset: "utxos_ok A \<Longrightarrow> S \<subseteq> R \<Longrightarrow> utxo_total S A \<le> utxo_total R A"
  unfolding utxo_total_def by (rule sum_mono2) (auto intro: utxos_ok_value)

section \<open>One transaction\<close>

lemma set_pop_null: "set (pop_null v) \<subseteq> set v"
proof -
  obtain k where "v = pop_null v @ k" using pop_null_split by blast
  then have "set v = set (pop_null v) \<union> set k" by (metis set_append)
  then show ?thesis by blast
qed

lemma utxos_ok_update:
  "utxos_ok A \<Longrightarrow> \<forall>out \<in> set (cvout c). CTxOut_IsNull out \<or> 0 \<le> nValue out \<Longrightarrow> utxos_ok (A(k := visible (Some c)))"
  by (auto simp: utxos_ok_def visible_Some)

lemma sum_update:
  "n < length v \<Longrightarrow> (\<Sum>out \<leftarrow> v[n := x]. f out) = (\<Sum>out \<leftarrow> v. f out) - f (v ! n) + (f x :: int)"
  by (induction v arbitrary: n) (auto split: nat.split)

lemma Spend_value:
  assumes "Spend c out = Some (c', undo)"
  shows "coins_value c' = coins_value c - nValue (u_txout undo)" "set (cvout c') \<subseteq> insert CTxOut_null (set (cvout c))"
proof -
  let ?n = "unat (op_n out)" and ?d = "c\<lparr>cvout := (cvout c)[unat (op_n out) := CTxOut_null]\<rparr>"
  have s: "?n < length (cvout c)" "\<not> CTxOut_IsNull (cvout c ! ?n)" "c' = Cleanup ?d" "u_txout undo = cvout c ! ?n"
    using assms by (auto simp: Spend_def Let_def CTxInUndo_of_def split: if_split_asm)
  show "coins_value c' = coins_value c - nValue (u_txout undo)"
    unfolding s(3) coins_value_Cleanup using s(1,2,4) by (simp add: coins_value_def sum_update)
  have "set (cvout c') \<subseteq> set ((cvout c)[?n := CTxOut_null])" unfolding s(3) using set_pop_null by (simp add: Cleanup_def)
  then show "set (cvout c') \<subseteq> insert CTxOut_null (set (cvout c))" using set_update_subset_insert by (rule subset_trans)
qed

lemma spend_one_total:
  assumes "spend_one A txin = Some (undo, A')"
  shows "utxo_total S A' = (if op_hash (prevout txin) \<in> S then utxo_total S A - nValue (u_txout undo) else utxo_total S A)"
    "utxos_ok A \<Longrightarrow> utxos_ok A'" "k \<noteq> op_hash (prevout txin) \<Longrightarrow> A' k = A k"
proof -
  obtain c c' where c: "A (op_hash (prevout txin)) = Some c" "Spend c (prevout txin) = Some (c', undo)"
    "A' = A(op_hash (prevout txin) := visible (Some c'))"
    using assms by (auto simp: spend_one_def split: option.splits)
  show "utxo_total S A' = (if op_hash (prevout txin) \<in> S then utxo_total S A - nValue (u_txout undo) else utxo_total S A)"
    unfolding c(3) utxo_total_update using Spend_value(1) [OF c(2)] c(1) by simp
  show "utxos_ok A'" if "utxos_ok A"
  proof -
    have "\<forall>out \<in> set (cvout c). CTxOut_IsNull out \<or> 0 \<le> nValue out" using that c(1) unfolding utxos_ok_def by blast
    then have "\<forall>out \<in> set (cvout c'). CTxOut_IsNull out \<or> 0 \<le> nValue out"
      using Spend_value(2) [OF c(2)] CTxOut_null_IsNull by blast
    with that show ?thesis unfolding c(3) by (rule utxos_ok_update)
  qed
  show "A' k = A k" if "k \<noteq> op_hash (prevout txin)" using that by (simp add: c(3))
qed

lemma spend_all_total:
  assumes "spend_all A ins = Some (undos, A')" "\<forall>txin \<in> set ins. op_hash (prevout txin) \<in> S"
    "\<forall>txin \<in> set ins. output_of A txin \<noteq> None"
  shows "utxo_total S A' = utxo_total S A - (\<Sum>txin \<leftarrow> ins. value_of A txin) \<and> (utxos_ok A \<longrightarrow> utxos_ok A') \<and>
    (\<forall>k. (\<forall>txin \<in> set ins. op_hash (prevout txin) \<noteq> k) \<longrightarrow> A' k = A k)"
  using assms
proof (induction ins arbitrary: A undos A')
  case (Cons txin ins)
  obtain undo A1 us where s: "spend_one A txin = Some (undo, A1)" "spend_all A1 ins = Some (us, A')"
    using Cons.prems(1) by (auto split: option.splits)
  have d: "prevout txin \<notin> prevout ` set ins"
    using spend_all_unspent(1) [of A "txin # ins"] Cons.prems(1) by auto
  have o: "output_of A1 t = output_of A t" if "t \<in> set ins" for t
  proof -
    have "prevout t \<noteq> prevout txin" using d that by (metis imageI)
    then show ?thesis using spend_one_unspent(2) [OF s(1)] by (simp add: output_of_unspent)
  qed
  have v: "value_of A txin = nValue (u_txout undo)"
    using spend_one_unspent(3) [OF s(1)] Cons.prems(3) by (auto simp: value_of_def output_of_unspent split: if_split_asm)
  have eq: "map (value_of A1) ins = map (value_of A) ins" using o by (simp add: value_of_def)
  have "\<forall>t \<in> set ins. output_of A1 t \<noteq> None" "\<forall>t \<in> set ins. op_hash (prevout t) \<in> S" using o Cons.prems(2,3) by auto
  from Cons.IH [OF s(2) this(2,1)] spend_one_total [OF s(1)] Cons.prems(2) v eq show ?case by auto
qed auto

lemma coins_value_FromTx:
  assumes "\<forall>out \<in> set (vout tx). 0 \<le> nValue out"
  shows "coins_value (FromTx tx h) \<le> (\<Sum>out \<leftarrow> vout tx. nValue out)"
    "\<forall>out \<in> set (cvout (FromTx tx h)). CTxOut_IsNull out \<or> 0 \<le> nValue out"
proof -
  let ?w = "map (\<lambda>txout. if IsUnspendable (scriptPubKey txout) then CTxOut_null else txout) (vout tx)"
  let ?c = "\<lparr>fCoinBase = IsCoinBase tx, fCoinStake = IsCoinStake tx, cvout = ?w, cHeight = h, cVersion = tx_nVersion tx\<rparr>"
  have f: "FromTx tx h = Cleanup ?c" by (simp add: FromTx_def ClearUnspendable_def)
  have "(\<Sum>out \<leftarrow> ?w. if CTxOut_IsNull out then 0 else nValue out) \<le> (\<Sum>out \<leftarrow> vout tx. nValue out)"
    unfolding map_map comp_def using assms by (intro sum_list_mono) auto
  then show "coins_value (FromTx tx h) \<le> (\<Sum>out \<leftarrow> vout tx. nValue out)"
    unfolding f coins_value_Cleanup by (simp add: coins_value_def)
  have "set (cvout (FromTx tx h)) \<subseteq> set ?w" unfolding f using set_pop_null [of ?w] by (simp add: Cleanup_def del: set_map)
  then show "\<forall>out \<in> set (cvout (FromTx tx h)). CTxOut_IsNull out \<or> 0 \<le> nValue out" using assms by auto
qed

definition spent_value :: "utxos \<Rightarrow> CTransaction \<Rightarrow> int" where
  "spent_value A tx = (if regular tx then input_values A tx else 0)"

lemma update_utxos_total:
  assumes "update_utxos A tx h = Some (undos, A')" "utxos_ok A" "\<forall>out \<in> set (vout tx). 0 \<le> nValue out"
    "regular tx \<Longrightarrow> \<forall>txin \<in> set (vin tx). op_hash (prevout txin) \<in> S \<and> output_of A txin \<noteq> None"
  shows "utxo_total S A' \<le> utxo_total S A - spent_value A tx + (if txid tx \<in> S then output_values tx else 0)"
    "utxos_ok A'" "k \<in> - S \<Longrightarrow> txid tx \<noteq> k \<Longrightarrow> A' k = A k"
proof -
  obtain B where B: "(if regular tx then spend_all A (vin tx) else Some ([], A)) = Some (undos, B)"
    "A' = B(txid tx := visible (Some (FromTx tx h)))"
    using assms(1) by (auto simp: update_utxos_def split: option.splits)
  have b: "utxo_total S B = utxo_total S A - spent_value A tx \<and> utxos_ok B \<and> (\<forall>k \<in> - S. B k = A k)"
  proof (cases "regular tx")
    case True
    have in_S: "\<forall>txin \<in> set (vin tx). op_hash (prevout txin) \<in> S" "\<forall>txin \<in> set (vin tx). output_of A txin \<noteq> None"
      using assms(4) [OF True] by blast+
    have "spend_all A (vin tx) = Some (undos, B)" using B(1) True by simp
    note t = spend_all_total [OF this in_S]
    have "B k = A k" if "k \<in> - S" for k
    proof -
      have "\<forall>txin \<in> set (vin tx). op_hash (prevout txin) \<noteq> k" using in_S(1) that by auto
      with t show ?thesis by simp
    qed
    with t show ?thesis using assms(2) True by (simp add: spent_value_def input_values_def)
  qed (use B(1) assms(2) in \<open>auto simp: spent_value_def\<close>)
  then show "utxo_total S A' \<le> utxo_total S A - spent_value A tx + (if txid tx \<in> S then output_values tx else 0)"
    using coins_value_FromTx(1) [OF assms(3), of h] utxos_ok_value [of B "txid tx"]
    by (simp add: B(2) utxo_total_update output_values_def)
  show "utxos_ok A'" unfolding B(2) using b coins_value_FromTx(2) [OF assms(3)] by (intro utxos_ok_update) auto
  show "A' k = A k" if "k \<in> - S" "txid tx \<noteq> k" using b that by (simp add: B(2))
qed

section \<open>The sums of the loop\<close>

lemma signed_take_bit_mod: "signed_take_bit 63 (a :: int) mod 2 ^ 64 = a mod 2 ^ 64"
proof -
  have "take_bit 64 (signed_take_bit 63 a) = take_bit 64 a" by (simp add: take_bit_signed_take_bit)
  then show ?thesis by (simp only: take_bit_eq_mod)
qed

lemma wrap_exact:
  assumes "a mod 2 ^ 64 = b mod (2 ^ 64 :: int)" "- (2 ^ 63) \<le> b" "b < 2 ^ 63"
  shows "signed_take_bit 63 a = b"
proof -
  have "signed_take_bit 63 a = signed_take_bit 63 b"
    unfolding signed_take_bit_eq_iff_take_bit_eq using assms(1) by (simp add: take_bit_eq_mod)
  also have "\<dots> = b" using assms(2,3) by (intro signed_take_bit_int_eq_self) simp_all
  finally show ?thesis .
qed

lemma add64_mod: "add64 a b mod 2 ^ 64 = (a + b) mod 2 ^ 64" and sub64_mod: "sub64 a b mod 2 ^ 64 = (a - b) mod 2 ^ 64"
  by (simp_all only: add64_def sub64_def signed_take_bit_mod)

section \<open>The loop over the block\<close>

lemma add64_wrap: obtains k where "add64 a b = a + b + 2 ^ 64 * k"
  using add64_mod [of a b] by (metis mod_eqE)

lemma sub64_wrap: obtains k where "sub64 a b = a - b + 2 ^ 64 * k"
  using sub64_mod [of a b] by (metis mod_eqE)

definition net_sum :: "connect_state \<Rightarrow> int" where
  "net_sum cs = nValueOut cs - nValueIn cs + nFees cs"

text \<open>
  A transaction with ordinary inputs pays a fee, or creates money when it is a coinstake: \<open>fee_of\<close> and
  \<open>stake_of\<close>.
\<close>

definition fee_of :: "utxos \<Rightarrow> CTransaction \<Rightarrow> int" where
  "fee_of A tx = (if IsCoinStake tx then 0 else input_values A tx - output_values tx)"

definition stake_of :: "utxos \<Rightarrow> CTransaction \<Rightarrow> int" where
  "stake_of A tx = (if IsCoinStake tx then output_values tx - input_values A tx else 0)"

lemma connect_sums:
  assumes "nFees cs' = (if IsCoinStake tx then nFees cs else add64 (nFees cs) (sub64 (input_values A tx) (output_values tx)))"
    "nValueIn cs' = add64 (nValueIn cs) (input_values A tx)" "nValueOut cs' = nValueOut cs"
  shows "\<exists>k. nFees cs' = nFees cs + fee_of A tx + 2 ^ 64 * k"
    "\<exists>k. net_sum (cs'\<lparr>nValueOut := add64 (nValueOut cs') (output_values tx)\<rparr>) = net_sum cs + stake_of A tx + 2 ^ 64 * k"
proof -
  let ?I = "input_values A tx" and ?O = "output_values tx"
  obtain k1 where k1: "add64 (nFees cs) (sub64 ?I ?O) = nFees cs + sub64 ?I ?O + 2 ^ 64 * k1" by (rule add64_wrap)
  obtain k2 where k2: "sub64 ?I ?O = ?I - ?O + 2 ^ 64 * k2" by (rule sub64_wrap)
  obtain k3 where k3: "add64 (nValueIn cs) ?I = nValueIn cs + ?I + 2 ^ 64 * k3" by (rule add64_wrap)
  obtain k4 where k4: "add64 (nValueOut cs) ?O = nValueOut cs + ?O + 2 ^ 64 * k4" by (rule add64_wrap)
  obtain k where f: "nFees cs' = nFees cs + fee_of A tx + 2 ^ 64 * k"
  proof (cases "IsCoinStake tx")
    case True
    then show ?thesis using that [of 0] assms(1) by (simp add: fee_of_def)
  next
    case False
    then show ?thesis using that [of "k1 + k2"] assms(1) k1 k2 by (simp add: fee_of_def algebra_simps)
  qed
  then show "\<exists>k. nFees cs' = nFees cs + fee_of A tx + 2 ^ 64 * k" by blast
  show "\<exists>k. net_sum (cs'\<lparr>nValueOut := add64 (nValueOut cs') ?O\<rparr>) = net_sum cs + stake_of A tx + 2 ^ 64 * k"
    using f k3 k4 assms(2,3)
    by (intro exI [of _ "k + k4 - k3"]) (simp add: net_sum_def fee_of_def stake_of_def algebra_simps)
qed

lemma good_inputs_flow:
  assumes "inputs_good E A h tx fS flags (output_values tx)" "outputs_good (in_params E) tx"
  shows "0 \<le> fee_of A tx" "\<bar>stake_of A tx\<bar> \<le> (if IsCoinStake tx then nMaxMoneyOut (in_params E) else 0)"
    "output_values tx - input_values A tx = stake_of A tx - fee_of A tx"
proof -
  have "0 \<le> input_values A tx" "input_values A tx \<le> nMaxMoneyOut (in_params E)"
    "IsCoinStake tx \<or> output_values tx \<le> input_values A tx"
    using assms(1) by (auto simp: inputs_good_def input_values_def intro!: sum_list_nonneg)
  moreover have "0 \<le> output_values tx" "output_values tx \<le> nMaxMoneyOut (in_params E)"
    using assms(2) by (auto simp: outputs_good_def output_values_def intro!: sum_list_nonneg)
  ultimately show "0 \<le> fee_of A tx" "\<bar>stake_of A tx\<bar> \<le> (if IsCoinStake tx then nMaxMoneyOut (in_params E) else 0)"
    "output_values tx - input_values A tx = stake_of A tx - fee_of A tx"
    by (auto simp: fee_of_def stake_of_def)
qed

text \<open>A coinbase of the block itself is never spent in the block.\<close>

lemma immature_not_spent:
  assumes "inputs_good E A h tx fS flags valueOut" "\<forall>c. A k = Some c \<longrightarrow> fCoinBase c \<and> cHeight c = h"
    "0 < nMaturity (in_params E)" "txin \<in> set (vin tx)"
  shows "op_hash (prevout txin) \<noteq> k"
proof
  assume k: "op_hash (prevout txin) = k"
  have "mature (in_params E) A h txin" using assms(1,4) by (simp add: inputs_good_def)
  then obtain c where "A k = Some c" "fCoinBase c \<or> fCoinStake c \<longrightarrow> nMaturity (in_params E) \<le> h - cHeight c"
    by (auto simp: mature_def k split: option.splits)
  with assms(2,3) show False by auto
qed

definition supply_step :: "CChainParams \<Rightarrow> hash256 \<Rightarrow> nat \<Rightarrow> connect_state \<Rightarrow> utxos \<Rightarrow> connect_state \<Rightarrow> utxos \<Rightarrow> bool" where
  "supply_step P k0 stakes cs A cs' A' \<longleftrightarrow> utxos_ok A' \<and> A' k0 = A k0 \<and>
     (\<exists>F C k l. 0 \<le> F \<and> \<bar>C\<bar> \<le> int stakes * nMaxMoneyOut P \<and>
       nFees cs' = nFees cs + F + 2 ^ 64 * k \<and> net_sum cs' = net_sum cs + C + 2 ^ 64 * l \<and>
       utxo_total UNIV A' \<le> utxo_total UNIV A + C - F \<and> utxo_total (- {k0}) A' \<le> utxo_total (- {k0}) A + C - F)"

lemma supply_step_refl: "utxos_ok A \<Longrightarrow> supply_step P k0 0 cs A cs A"
  unfolding supply_step_def by (intro conjI exI [of _ 0]) simp_all

lemma supply_step_trans:
  assumes "supply_step P k0 m cs A cs1 A1" "supply_step P k0 n cs1 A1 cs2 A2"
  shows "supply_step P k0 (m + n) cs A cs2 A2"
proof -
  obtain F C k l where 1: "0 \<le> F" "\<bar>C\<bar> \<le> int m * nMaxMoneyOut P" "nFees cs1 = nFees cs + F + 2 ^ 64 * k"
    "net_sum cs1 = net_sum cs + C + 2 ^ 64 * l" "utxo_total UNIV A1 \<le> utxo_total UNIV A + C - F"
    "utxo_total (- {k0}) A1 \<le> utxo_total (- {k0}) A + C - F"
    using assms(1) unfolding supply_step_def by blast
  obtain G D i j where 2: "0 \<le> G" "\<bar>D\<bar> \<le> int n * nMaxMoneyOut P" "nFees cs2 = nFees cs1 + G + 2 ^ 64 * i"
    "net_sum cs2 = net_sum cs1 + D + 2 ^ 64 * j" "utxo_total UNIV A2 \<le> utxo_total UNIV A1 + D - G"
    "utxo_total (- {k0}) A2 \<le> utxo_total (- {k0}) A1 + D - G"
    using assms(2) unfolding supply_step_def by blast
  have "\<bar>C + D\<bar> \<le> int (m + n) * nMaxMoneyOut P" using 1(2) 2(2) by (simp add: algebra_simps)
  moreover have "utxos_ok A2" "A2 k0 = A k0" using assms by (simp_all add: supply_step_def)
  moreover have "nFees cs2 = nFees cs + (F + G) + 2 ^ 64 * (k + i)" "net_sum cs2 = net_sum cs + (C + D) + 2 ^ 64 * (l + j)"
    using 1(3,4) 2(3,4) by (simp_all add: distrib_left)
  moreover have "utxo_total UNIV A2 \<le> utxo_total UNIV A + (C + D) - (F + G)" using 1(5) 2(5) by linarith
  moreover have "utxo_total (- {k0}) A2 \<le> utxo_total (- {k0}) A + (C + D) - (F + G)" using 1(6) 2(6) by linarith
  moreover have "0 \<le> F + G" using 1(1) 2(1) by simp
  ultimately show ?thesis unfolding supply_step_def by blast
qed

lemma tx_supply:
  assumes tx: "regular tx" "txid tx \<noteq> k0" and good: "outputs_good (cn_params E) tx"
    and ok: "tx_ok E fScriptChecks flags h cs A tx"
    and k0: "\<forall>c. A k0 = Some c \<longrightarrow> fCoinBase c \<and> cHeight c = h" and mat: "0 < nMaturity (cn_params E)"
    and nonneg: "utxos_ok A" and up: "update_utxos A tx h = Some (undo, A')"
  shows "supply_step (cn_params E) k0 (if IsCoinStake tx then 1 else 0) cs A
      ((tx_sums A tx cs)\<lparr>nValueOut := add64 (nValueOut (tx_sums A tx cs)) (output_values tx)\<rparr>) A'"
proof -
  have iP: "in_params (inputs_env_of E) = cn_params E" by (simp add: inputs_env_of_def)
  have ncb: "\<not> IsCoinBase tx" using tx(1) by (simp add: regular_def)
  have g: "inputs_good (inputs_env_of E) A h tx fScriptChecks flags (output_values tx)"
    using ok ncb by (simp add: tx_ok_def)
  have outs: "\<forall>out \<in> set (vout tx). 0 \<le> nValue out" using good by (simp add: outputs_good_def)
  have ins: "\<forall>txin \<in> set (vin tx). op_hash (prevout txin) \<in> S \<and> output_of A txin \<noteq> None" if "- {k0} \<subseteq> S" for S
    using g immature_not_spent [OF g k0] mat that unfolding iP by (auto simp: inputs_good_def)
  have t: "utxo_total S A' \<le> utxo_total S A + stake_of A tx - fee_of A tx" if "- {k0} \<subseteq> S" for S
    using update_utxos_total(1) [OF up nonneg outs, of S] ins [OF that] that tx good_inputs_flow(3) [OF g] good
    by (auto simp: spent_value_def iP)
  have ok2: "utxos_ok A'" and k2: "A' k0 = A k0"
    using update_utxos_total(2,3) [OF up nonneg outs, of "- {k0}"] ins [of "- {k0}"] tx(2) by auto
  let ?cs = "tx_sums A tx cs"
  have sums: "nFees ?cs = (if IsCoinStake tx then nFees cs else add64 (nFees cs) (sub64 (input_values A tx) (output_values tx)))"
    "nValueIn ?cs = add64 (nValueIn cs) (input_values A tx)" "nValueOut ?cs = nValueOut cs"
    using ncb by (simp_all add: tx_sums_def Let_def)
  obtain k l where kl: "nFees ?cs = nFees cs + fee_of A tx + 2 ^ 64 * k"
    "net_sum (?cs\<lparr>nValueOut := add64 (nValueOut ?cs) (output_values tx)\<rparr>) = net_sum cs + stake_of A tx + 2 ^ 64 * l"
    using connect_sums [OF sums] by blast
  show ?thesis
    unfolding supply_step_def using ok2 k2 kl t [of UNIV] t [of "- {k0}"] good_inputs_flow(1,2) [OF g] good
    by (intro conjI exI [of _ "fee_of A tx"] exI [of _ "stake_of A tx"] exI [of _ k] exI [of _ l]) (auto simp: iP)
qed

lemma ledger_loop_supply:
  assumes "\<forall>tx \<in> set txs. regular tx \<and> txid tx \<noteq> k0 \<and> outputs_good (cn_params E) tx"
    "\<forall>c. A k0 = Some c \<longrightarrow> fCoinBase c \<and> cHeight c = h" "0 < nMaturity (cn_params E)" "utxos_ok A"
    "ledger_loop E fScriptChecks flags h txs cs A = Some (cs', undos, A')"
  shows "supply_step (cn_params E) k0 (length (filter IsCoinStake txs)) cs A cs' A'"
  using assms
proof (induction txs arbitrary: cs A undos)
  case Nil
  then show ?case by (auto intro: supply_step_refl)
next
  case (Cons tx txs)
  let ?cs = "(tx_sums A tx cs)\<lparr>nValueOut := add64 (nValueOut (tx_sums A tx cs)) (output_values tx)\<rparr>"
  have tx: "regular tx" "txid tx \<noteq> k0" "outputs_good (cn_params E) tx" using Cons.prems(1) by auto
  obtain undo B us where u: "tx_ok E fScriptChecks flags h cs A tx" "update_utxos A tx h = Some (undo, B)"
    "ledger_loop E fScriptChecks flags h txs ?cs B = Some (cs', us, A')"
    using Cons.prems(5) by (auto simp: Let_def split: if_split_asm option.splits)
  note one = tx_supply [OF tx u(1) Cons.prems(2,3,4) u(2)]
  have "B k0 = A k0" "utxos_ok B" using one by (simp_all add: supply_step_def)
  with Cons.IH [OF _ _ Cons.prems(3) _ u(3)] Cons.prems(1,2)
  have "supply_step (cn_params E) k0 (length (filter IsCoinStake txs)) ?cs B cs' A'" by auto
  from supply_step_trans [OF one this] show ?case by (cases "IsCoinStake tx") simp_all
qed

end
