(* ===== verification/NoInflation.thy ===== *)
theory NoInflation
  imports Supply
begin

text \<open>
  A block creates no more money than its subsidy: the sums of \<open>ConnectBlock\<close> against what
  \<open>CheckBlock\<close> ensures and \<open>IsBlockValueValid\<close> compares.
\<close>

section \<open>The block\<close>

text \<open>A block whose minted amount is compared with the subsidy: no budget is paid and none may be.\<close>

definition value_checked :: "block_env \<Rightarrow> CBlock \<Rightarrow> bool" where
  "value_checked E block \<longleftrightarrow>
     (case be_tip E of
        None \<Rightarrow> False
      | Some pindexPrev \<Rightarrow>
          let h = parent_height E pindexPrev block
          in if be_synced E then \<not> (be_superblocks E \<and> IsBudgetPaymentBlock E h)
             else 100 \<le> h mod nBudgetCycleBlocks (be_params E))"

lemma value_checked_limit: "value_checked E block \<Longrightarrow> IsBlockValueValid E block e m \<Longrightarrow> m \<le> e"
  by (auto simp: value_checked_def IsBlockValueValid_def Let_def split: option.splits if_split_asm)

text \<open>
  A block without zerocoins and with distinct transaction ids, on a known parent of the active chain,
  whose coins are checked against overwriting and whose value against the subsidy.
\<close>

definition ordinary_block :: "connect_env \<Rightarrow> CBlock \<Rightarrow> CBlockIndex \<Rightarrow> bool" where
  "ordinary_block E block pindex \<longleftrightarrow>
     (\<exists>net. cn_params E = Params net) \<and> blk_hash block \<noteq> cn_genesis E \<and> phashBlock pindex \<noteq> 0 \<and>
     list_all (\<lambda>tx. \<not> ContainsZerocoins tx) (vtx block) \<and> distinct (map txid (vtx block)) \<and>
     EnforceBIP30 pindex \<and> value_checked (cn_block E) block \<and>
     (\<exists>prev. pprev pindex = Some prev \<and> nHeight pindex = nHeight (cn_store E prev) + 1 \<and>
        be_mapBlockIndex (cn_block E) (phashBlock (cn_store E prev)) = Some prev)"

lemma CheckTransaction_outputs_good:
  assumes "CheckTransaction C tx = Inr ()" "ce_params C = Params net"
  shows "outputs_good (ce_params C) tx"
proof -
  have "check_outputs C tx (vout tx) 0 = Inr ()"
    using assms(1) by (auto simp: CheckTransaction_def split: if_split_asm sum.splits)
  then show ?thesis using check_outputs_spec [of C 0 tx "vout tx"] max_money_int64 [of net] assms(2)
    by (auto simp: outputs_good_def output_values_def)
qed

lemma check_txs_all:
  "check_txs B C txs serials = Inr () \<Longrightarrow> \<forall>tx \<in> set txs. CheckTransaction C tx = Inr ()"
proof (induction txs arbitrary: serials)
  case (Cons tx txs)
  have "CheckTransaction C tx = Inr ()" using Cons.prems by (cases "CheckTransaction C tx") simp_all
  moreover from this have "\<exists>s. check_txs B C txs s = Inr ()"
    using Cons.prems by (cases "check_serials B tx (vin tx) serials") (auto split: if_split_asm)
  ultimately show ?case using Cons.IH by auto
qed simp

lemma CheckBlock_parts:
  assumes "CheckBlock B block fCheckPOW fCheckMerkleRoot = Inr ()"
  shows "check_layout block = Inr ()" "check_txs B (block_check_env B block) (vtx block) [] = Inr ()"
  using assms by (auto simp: CheckBlock_def split: sum.splits if_split_asm)

lemma coinbase_not_coinstake:
  assumes "IsCoinBase tx"
  shows "\<not> IsCoinStake tx"
proof
  assume s: "IsCoinStake tx"
  then have "vin tx \<noteq> []" by (auto simp: IsCoinStake_def)
  then have "vin tx ! 0 \<in> set (vin tx)" by simp
  then have "\<not> CTxIn_IsZerocoinSpend (vin tx ! 0)"
    using assms by (auto simp: IsCoinBase_def ContainsZerocoins_def HasZerocoinSpendInputs_def list_ex_iff)
  then show False using s assms by (auto simp: IsCoinBase_def IsCoinStake_def split: if_split_asm)
qed

text \<open>The shape of a checked block.\<close>

lemma checked_block_shape:
  assumes check: "CheckBlock (cn_block E) block fCheckPOW fCheckMerkleRoot = Inr ()"
    and ord: "ordinary_block E block pindex"
    and stakes: "block_IsProofOfStake block \<or> \<not> list_ex IsCoinStake (vtx block)"
  obtains cb txs where "vtx block = cb # txs" "IsCoinBase cb" "\<not> ContainsZerocoins cb" "outputs_good (cn_params E) cb"
    "\<forall>tx \<in> set txs. regular tx \<and> \<not> ContainsZerocoins tx \<and> txid tx \<noteq> txid cb \<and> outputs_good (cn_params E) tx"
    "block_IsProofOfStake block \<Longrightarrow> output_values cb = 0"
    "length (filter IsCoinStake txs) \<le> (if block_IsProofOfStake block then 1 else 0)"
proof -
  note l = CheckBlock_parts [OF check]
  obtain cb txs where v: "vtx block = cb # txs" using l(1) by (cases "vtx block") (auto simp: check_layout_def)
  have cb: "IsCoinBase cb" and rest: "\<not> list_ex IsCoinBase txs"
    using l(1) v by (auto simp: check_layout_def split: if_split_asm)
  have P: "\<exists>net. ce_params (block_check_env (cn_block E) block) = Params net" "ce_params (block_check_env (cn_block E) block) = cn_params E"
    using ord by (auto simp: ordinary_block_def block_check_env_def)
  have good: "outputs_good (cn_params E) tx" if "tx \<in> set (vtx block)" for tx
    using check_txs_all [OF l(2)] that CheckTransaction_outputs_good P by metis
  have zc: "\<not> ContainsZerocoins tx" if "tx \<in> set (vtx block)" for tx
    using ord that by (auto simp: ordinary_block_def list_all_iff)
  have reg: "regular tx" if "tx \<in> set txs" for tx
    using zc [of tx] rest that v by (auto simp: regular_def list_ex_iff ContainsZerocoins_def)
  have ids: "txid tx \<noteq> txid cb" if "tx \<in> set txs" for tx
    using ord that v by (auto simp: ordinary_block_def) (metis imageI)
  have pos: "output_values cb = 0" "length (filter IsCoinStake txs) \<le> 1" if s: "block_IsProofOfStake block"
  proof -
    have p: "length (vout cb) = 1" "CTxOut_IsEmpty (vout cb ! 0)" "\<not> list_ex IsCoinStake (drop 1 txs)"
      using l(1) s v by (auto simp: check_layout_def split: if_split_asm)
    then obtain out where "vout cb = [out]" "CTxOut_IsEmpty out" by (cases "vout cb") auto
    then show "output_values cb = 0" by (simp add: output_values_def CTxOut_IsEmpty_def)
    have "filter IsCoinStake (drop 1 txs) = []" using p(3) by (auto simp: filter_empty_conv list_ex_iff)
    then show "length (filter IsCoinStake txs) \<le> 1" by (cases txs) auto
  qed
  have "filter IsCoinStake txs = []" if "\<not> block_IsProofOfStake block"
    using stakes that v by (auto simp: filter_empty_conv list_ex_iff)
  with pos show thesis using that [OF v cb] good zc reg ids v by auto
qed

lemma GetBlockValue_bounds:
  "0 \<le> GetBlockValue (Params net) h pos" "GetBlockValue (Params net) h pos \<le> 500000000000000000"
  by (auto simp: GetBlockValue_def COIN_def)

lemma max_money_le: "nMaxMoneyOut (Params net) \<le> 7766279631352241920" "0 < nMaturity (Params net)"
  by (cases net; simp add: params_defs COIN_def)+

text \<open>What the sums of a block mean for the value check.\<close>

lemma connect_finish_limit:
  assumes f: "connect_finish E block pindex cs undos = Inr res" and v: "value_checked (cn_block E) block"
    and P: "cn_params E = Params net"
    and net: "net_sum cs = D + 2 ^ 64 * k" "\<bar>D\<bar> \<le> nMaxMoneyOut (cn_params E)"
    and fees: "nFees cs = F + 2 ^ 64 * l" "0 \<le> F" "block_IsProofOfWork block \<Longrightarrow> F \<le> nMaxMoneyOut (cn_params E)"
  shows "D \<le> GetBlockValue (cn_params E) (int (nHeight pindex)) (block_IsProofOfStake block) +
    (if block_IsProofOfWork block then F else 0)"
proof -
  let ?BV = "GetBlockValue (cn_params E) (int (nHeight pindex)) (block_IsProofOfStake block)"
  define prev where "prev = (case pprev pindex of None \<Rightarrow> 0 | Some p \<Rightarrow> cn_moneySupply E p)"
  define sup where "sup = sub64 (add64 prev (nValueOut cs)) (nValueIn cs)"
  define mint where "mint = add64 (sub64 sup prev) (nFees cs)"
  have valid: "IsBlockValueValid (cn_block E) block
      (if block_IsProofOfWork block then add64 ?BV (nFees cs) else ?BV) mint"
    using f by (simp add: connect_finish_def Let_def prev_def sup_def mint_def split: if_split_asm)
  have "mint mod 2 ^ 64 = D mod 2 ^ 64"
  proof -
    obtain k1 where 1: "add64 prev (nValueOut cs) = prev + nValueOut cs + 2 ^ 64 * k1" by (rule add64_wrap)
    obtain k2 where 2: "sup = add64 prev (nValueOut cs) - nValueIn cs + 2 ^ 64 * k2" unfolding sup_def by (rule sub64_wrap)
    obtain k3 where 3: "sub64 sup prev = sup - prev + 2 ^ 64 * k3" by (rule sub64_wrap)
    obtain k4 where 4: "mint = sub64 sup prev + nFees cs + 2 ^ 64 * k4" unfolding mint_def by (rule add64_wrap)
    have "mint = D + 2 ^ 64 * (k + k1 + k2 + k3 + k4)"
      using 1 2 3 4 net(1) by (simp add: net_sum_def algebra_simps)
    then show ?thesis by (simp only: mod_mult_self2)
  qed
  then have "(sub64 sup prev + nFees cs) mod 2 ^ 64 = D mod 2 ^ 64" unfolding mint_def add64_mod .
  then have mint: "mint = D"
    unfolding mint_def add64_def by (rule wrap_exact) (use net(2) max_money_le(1) [of net] P in simp_all)
  have fee: "add64 ?BV (nFees cs) = ?BV + F" if "block_IsProofOfWork block"
    unfolding add64_def
  proof (rule wrap_exact)
    have e: "?BV + nFees cs = (?BV + F) + 2 ^ 64 * l" using fees(1) by simp
    show "(?BV + nFees cs) mod 2 ^ 64 = (?BV + F) mod 2 ^ 64" unfolding e by (rule mod_mult_self2)
    have "0 \<le> ?BV" "?BV \<le> 500000000000000000" "F \<le> 7766279631352241920"
      using GetBlockValue_bounds fees(3) [OF that] max_money_le(1) [of net] P by simp_all
    with fees(2) show "- (2 ^ 63) \<le> ?BV + F" "?BV + F < 2 ^ 63" by simp_all
  qed
  from value_checked_limit [OF v valid] mint fee show ?thesis by (simp split: if_split_asm)
qed

section \<open>ConnectBlock on the ledger\<close>

definition script_checks :: "connect_env \<Rightarrow> CBlockIndex \<Rightarrow> bool" where
  "script_checks E pindex \<longleftrightarrow>
     GetTotalBlocksEstimate (be_checkpointsEnabled (cn_block E)) (be_checkpoints (cn_block E)) \<le> nHeight pindex"

definition ledger_block ::
  "connect_env \<Rightarrow> CBlock \<Rightarrow> CBlockIndex \<Rightarrow> utxos \<Rightarrow> (connect_state \<times> CTxInUndo list list \<times> utxos) option" where
  "ledger_block E block pindex A =
     ledger_loop E (script_checks E pindex) (block_flags E (script_checks E pindex) pindex) (int (nHeight pindex)) (vtx block)
       connect_start A"

text \<open>The rules on heights: whether proof of stake or of work is allowed there.\<close>

definition type_allowed :: "CChainParams \<Rightarrow> CBlock \<Rightarrow> CBlockIndex \<Rightarrow> bool" where
  "type_allowed P block pindex \<longleftrightarrow>
     (if block_IsProofOfStake block then nFirstPoSBlock P \<le> int (nHeight pindex) else int (nHeight pindex) \<le> nLastPOWBlock P)"

context coins_reader
begin

lemma bip30_fresh:
  assumes "cache_inv vinv absv known v" "bip30_loop GetCoins txs v = (fresh, v')"
  shows "cache_inv vinv absv known v' \<and> cache_abs absv v' = cache_abs absv v \<and> cache_best best v' = cache_best best v \<and>
    (fresh \<longleftrightarrow> (\<forall>tx \<in> set txs. cache_abs absv v (txid tx) = None))"
  using assms
proof (induction txs arbitrary: v)
  case (Cons tx txs)
  obtain r v1 where g: "cache_GetCoins GetCoins v (txid tx) = (r, v1)" by (cases "cache_GetCoins GetCoins v (txid tx)")
  note rd = read_coins [OF Cons.prems(1) g]
  show ?case
  proof (cases "cache_abs absv v (txid tx)")
    case None
    then have "bip30_loop GetCoins txs v1 = (fresh, v')"
      using Cons.prems(2) g rd(2) by (auto simp: visible_def split: option.splits if_split_asm)
    then show ?thesis using Cons.IH [of v1] rd None by simp
  next
    case (Some c)
    then have "r = Some c" "\<not> IsPruned c" using rd(2) by (simp_all add: visible_eq_Some)
    then show ?thesis using Cons.prems(2) g Some rd(1) by auto
  qed
qed simp

lemma ConnectBlock_ledger:
  assumes inv: "cache_inv vinv absv known v" and ord: "ordinary_block E block pindex"
    and good: "\<forall>tx \<in> set (vtx block). outputs_good (cn_params E) tx"
  shows "ConnectBlock E GetCoins GetBest block pindex v False fAlreadyChecked = Some (Inr res, v') \<Longrightarrow>
      \<exists>cs undos r. res = Some r \<and> ledger_block E block pindex (cache_abs absv v) = Some (cs, undos, cache_abs absv v') \<and>
        connect_finish E block pindex cs undos = Inr r \<and> cache_inv vinv absv known v' \<and> hashBlock v' = phashBlock pindex \<and>
        (\<forall>tx \<in> set (vtx block). cache_abs absv v (txid tx) = None)"
    and "ledger_block E block pindex (cache_abs absv v) = Some (cs, undos, A') \<Longrightarrow>
      connect_finish E block pindex cs undos = Inr r \<Longrightarrow> \<forall>tx \<in> set (vtx block). cache_abs absv v (txid tx) = None \<Longrightarrow>
      cache_best best v = phashBlock (cn_store E (the (pprev pindex))) \<Longrightarrow> type_allowed (cn_params E) block pindex \<Longrightarrow>
      \<exists>v'. ConnectBlock E GetCoins GetBest block pindex v False True = Some (Inr (Some r), v') \<and>
        cache_abs absv v' = A' \<and> cache_inv vinv absv known v' \<and> hashBlock v' = phashBlock pindex"
proof -
  let ?A = "cache_abs absv v" and ?h = "int (nHeight pindex)"
  obtain net where P: "cn_params E = Params net" using ord by (auto simp: ordinary_block_def)
  obtain prev where prev: "pprev pindex = Some prev" "nHeight pindex = nHeight (cn_store E prev) + 1"
    "be_mapBlockIndex (cn_block E) (phashBlock (cn_store E prev)) = Some prev"
    using ord by (auto simp: ordinary_block_def)
  have bip: "EnforceBIP30 pindex" "blk_hash block \<noteq> cn_genesis E" using ord by (simp_all add: ordinary_block_def)
  have txs: "\<forall>tx \<in> set (vtx block). \<not> ContainsZerocoins tx \<and> outputs_good (cn_params E) tx"
    using ord good by (simp add: ordinary_block_def list_all_iff)
  obtain hb v1 where g: "cache_GetBestBlock GetBest v = (hb, v1)" by (cases "cache_GetBestBlock GetBest v")
  obtain fresh v2 where f: "bip30_loop GetCoins (vtx block) v1 = (fresh, v2)" by (cases "bip30_loop GetCoins (vtx block) v1")
  note r1 = read_best [OF inv g]
  note r2 = bip30_fresh [OF conjunct1 [OF r1(1)] f]
  have i2: "cache_inv vinv absv known v2" and A2: "cache_abs absv v2 = ?A" and b2: "cache_best best v2 = cache_best best v"
    using r1 r2 by simp_all
  have height: "in_blockHeight (inputs_env_of E) (cache_best best v2) = Some (?h - 1)" if "hb = phashBlock (cn_store E prev)"
    using r1(2) b2 that prev by (simp add: inputs_env_of_def)
  note loop = connect_loop_ledger [OF i2 txs height P, where fScriptChecks = "script_checks E pindex"
      and flags = "block_flags E (script_checks E pindex) pindex" and cs = connect_start and block = block,
      unfolded A2, folded ledger_block_def]
  note unf = ConnectBlock_def Let_def script_checks_def [symmetric]
  {
    assume c: "ConnectBlock E GetCoins GetBest block pindex v False fAlreadyChecked = Some (Inr res, v')"
    obtain cs undos v3 r where l: "hb = phashBlock (cn_store E prev)" "fresh"
      "connect_loop E GetCoins GetBest (script_checks E pindex) (block_flags E (script_checks E pindex) pindex) block ?h (vtx block)
         connect_start v2 = Some (Inr (cs, undos), v3)"
      "connect_finish E block pindex cs undos = Inr r" "res = Some r" "v' = SetBestBlock v3 (phashBlock pindex)"
      using c bip prev(1) g f by (auto simp: unf split: if_split_asm option.splits sum.splits prod.splits)
    then show "\<exists>cs undos r. res = Some r \<and> ledger_block E block pindex ?A = Some (cs, undos, cache_abs absv v') \<and>
        connect_finish E block pindex cs undos = Inr r \<and> cache_inv vinv absv known v' \<and> hashBlock v' = phashBlock pindex \<and>
        (\<forall>tx \<in> set (vtx block). ?A (txid tx) = None)"
      using loop r1 r2 by (auto split: option.splits prod.splits)
  next
    assume l: "ledger_block E block pindex ?A = Some (cs, undos, A')" and fin: "connect_finish E block pindex cs undos = Inr r"
      and new: "\<forall>tx \<in> set (vtx block). ?A (txid tx) = None" and b: "cache_best best v = phashBlock (cn_store E (the (pprev pindex)))"
      and t: "type_allowed (cn_params E) block pindex"
    have hb: "hb = phashBlock (cn_store E prev)" using r1(2) b prev(1) by simp
    have fresh using r2 r1 new by simp
    obtain v3 where v3: "connect_loop E GetCoins GetBest (script_checks E pindex) (block_flags E (script_checks E pindex) pindex) block ?h
        (vtx block) connect_start v2 = Some (Inr (cs, undos), v3)" "cache_inv vinv absv known v3" "cache_abs absv v3 = A'"
      using loop [OF hb] l by auto
    have ty: "\<not> (block_IsProofOfStake block \<and> ?h < nFirstPoSBlock (cn_params E))"
      "\<not> (block_IsProofOfWork block \<and> nLastPOWBlock (cn_params E) < ?h)"
      using t by (auto simp: type_allowed_def block_IsProofOfWork_def split: if_split_asm)
    have "ConnectBlock E GetCoins GetBest block pindex v False True = Some (Inr (Some r), SetBestBlock v3 (phashBlock pindex))"
      using bip prev(1) g f hb \<open>fresh\<close> v3(1) fin ty by (simp add: unf)
    with v3 show "\<exists>v'. ConnectBlock E GetCoins GetBest block pindex v False True = Some (Inr (Some r), v') \<and>
        cache_abs absv v' = A' \<and> cache_inv vinv absv known v' \<and> hashBlock v' = phashBlock pindex"
      by auto
  }
qed

end

section \<open>The theorem\<close>

lemma coinbase_supply:
  assumes cb: "IsCoinBase cb" "outputs_good (cn_params E) cb" and A: "A (txid cb) = None" "utxos_ok A"
    and l: "ledger_loop E fScriptChecks flags h (cb # txs) connect_start A = Some (cs, undos, A')"
  obtains cs1 A1 us where "utxos_ok A1" "\<forall>c. A1 (txid cb) = Some c \<longrightarrow> fCoinBase c \<and> cHeight c = h"
    "utxo_total UNIV A1 \<le> utxo_total UNIV A + output_values cb" "utxo_total (- {txid cb}) A1 \<le> utxo_total UNIV A"
    "nFees cs1 = 0" "\<exists>k. net_sum cs1 = output_values cb + 2 ^ 64 * k"
    "ledger_loop E fScriptChecks flags h txs cs1 A1 = Some (cs, us, A')"
proof -
  let ?cs = "tx_sums A cb connect_start"
  let ?cs1 = "?cs\<lparr>nValueOut := add64 (nValueOut ?cs) (output_values cb)\<rparr>"
  let ?A1 = "A(txid cb := visible (Some (FromTx cb h)))"
  have "update_utxos A cb h = Some ([], ?A1)" using cb(1) by (simp add: update_utxos_def regular_def)
  then obtain us where u: "ledger_loop E fScriptChecks flags h txs ?cs1 ?A1 = Some (cs, us, A')"
    using l by (auto simp: Let_def split: if_split_asm)
  have outs: "\<forall>out \<in> set (vout cb). 0 \<le> nValue out" using cb(2) by (simp add: outputs_good_def)
  have ok: "utxos_ok ?A1" using A(2) coins_value_FromTx(2) [OF outs] by (intro utxos_ok_update) auto
  have "fCoinBase (FromTx cb h) \<and> cHeight (FromTx cb h) = h"
    using cb(1) by (simp add: FromTx_def ClearUnspendable_def Cleanup_def)
  then have k0: "\<forall>c. ?A1 (txid cb) = Some c \<longrightarrow> fCoinBase c \<and> cHeight c = h"
    by (auto simp: visible_Some split: if_split_asm)
  have t: "utxo_total UNIV ?A1 \<le> utxo_total UNIV A + output_values cb"
    unfolding utxo_total_update using coins_value_FromTx(1) [OF outs, of h] A(1) by (simp add: output_values_def)
  have "utxo_total (- {txid cb}) ?A1 = utxo_total (- {txid cb}) A" unfolding utxo_total_update by simp
  also have "\<dots> \<le> utxo_total UNIV A" by (rule utxo_total_subset [OF A(2)]) simp
  finally have s: "utxo_total (- {txid cb}) ?A1 \<le> utxo_total UNIV A" .
  obtain k where "add64 0 (output_values cb) = 0 + output_values cb + 2 ^ 64 * k" by (rule add64_wrap)
  then have n: "\<exists>k. net_sum ?cs1 = output_values cb + 2 ^ 64 * k"
    using cb(1) by (auto simp: net_sum_def connect_start_def tx_sums_def)
  show thesis by (rule that [OF ok k0 t s _ n u]) (use cb(1) in \<open>simp add: connect_start_def tx_sums_def\<close>)
qed

lemma ledger_block_supply:
  assumes ok: "utxos_ok A" and total: "utxo_total UNIV A \<le> nMaxMoneyOut (cn_params E)"
    and check: "CheckBlock (cn_block E) block fCheckPOW fCheckMerkleRoot = Inr ()" and ord: "ordinary_block E block pindex"
    and stakes: "block_IsProofOfStake block \<or> \<not> list_ex IsCoinStake (vtx block)"
    and l: "ledger_block E block pindex A = Some (cs, undos, A')" and fin: "connect_finish E block pindex cs undos = Inr r"
    and new: "\<forall>tx \<in> set (vtx block). A (txid tx) = None"
  shows "utxos_ok A' \<and> utxo_total UNIV A' \<le> utxo_total UNIV A +
      GetBlockValue (cn_params E) (int (nHeight pindex)) (block_IsProofOfStake block)"
proof -
  obtain net where P: "cn_params E = Params net" using ord by (auto simp: ordinary_block_def)
  obtain cb txs where b: "vtx block = cb # txs" "IsCoinBase cb" "outputs_good (cn_params E) cb"
    "\<forall>tx \<in> set txs. regular tx \<and> txid tx \<noteq> txid cb \<and> outputs_good (cn_params E) tx"
    "block_IsProofOfStake block \<Longrightarrow> output_values cb = 0"
    "length (filter IsCoinStake txs) \<le> (if block_IsProofOfStake block then 1 else 0)"
    using checked_block_shape [OF check ord stakes] by metis
  let ?h = "int (nHeight pindex)" and ?M = "nMaxMoneyOut (cn_params E)" and ?cb = "output_values cb"
  have l': "ledger_loop E (script_checks E pindex) (block_flags E (script_checks E pindex) pindex) ?h (cb # txs) connect_start A
      = Some (cs, undos, A')"
    using l by (simp only: ledger_block_def b(1))
  have "A (txid cb) = None" using new b(1) by simp
  from coinbase_supply [OF b(2,3) this ok l']
  obtain cs1 A1 us where w: "utxos_ok A1" "\<forall>c. A1 (txid cb) = Some c \<longrightarrow> fCoinBase c \<and> cHeight c = ?h"
    "utxo_total UNIV A1 \<le> utxo_total UNIV A + ?cb" "utxo_total (- {txid cb}) A1 \<le> utxo_total UNIV A"
    "nFees cs1 = 0" "\<exists>k. net_sum cs1 = ?cb + 2 ^ 64 * k"
    "ledger_loop E (script_checks E pindex) (block_flags E (script_checks E pindex) pindex) ?h txs cs1 A1 = Some (cs, us, A')"
    by metis
  have mat: "0 < nMaturity (cn_params E)" using max_money_le(2) P by simp
  obtain F C k l' where f: "utxos_ok A'" "0 \<le> F" "\<bar>C\<bar> \<le> int (length (filter IsCoinStake txs)) * ?M"
    "nFees cs = nFees cs1 + F + 2 ^ 64 * k" "net_sum cs = net_sum cs1 + C + 2 ^ 64 * l'"
    "utxo_total UNIV A' \<le> utxo_total UNIV A1 + C - F" "utxo_total (- {txid cb}) A' \<le> utxo_total (- {txid cb}) A1 + C - F"
    using ledger_loop_supply [OF b(4) w(2) mat w(1) w(7)] unfolding supply_step_def by blast
  obtain k' where k': "net_sum cs1 = ?cb + 2 ^ 64 * k'" using w(6) by blast
  have cb_bounds: "0 \<le> ?cb" "?cb \<le> ?M" using b(3) by (auto simp: outputs_good_def output_values_def intro!: sum_list_nonneg)
  have C: "\<bar>C\<bar> \<le> (if block_IsProofOfStake block then ?M else 0)"
  proof -
    have "int (length (filter IsCoinStake txs)) * ?M \<le> (if block_IsProofOfStake block then 1 else 0) * ?M"
      using b(6) max_money_int64(1) [of net] P by (intro mult_right_mono) (auto split: if_split_asm)
    with f(3) show ?thesis by (simp split: if_split_asm)
  qed
  have D: "net_sum cs = (?cb + C) + 2 ^ 64 * (k' + l')" "\<bar>?cb + C\<bar> \<le> ?M"
    using f(5) k' cb_bounds C b(5) by (auto simp: algebra_simps split: if_split_asm)
  have Fb: "F \<le> ?M" if "block_IsProofOfWork block"
    using utxos_ok_total [OF f(1), of "- {txid cb}"] f(7) w(4) total C that by (simp add: block_IsProofOfWork_def)
  have fees: "nFees cs = F + 2 ^ 64 * k" using f(4) w(5) by simp
  have vc: "value_checked (cn_block E) block" using ord by (simp add: ordinary_block_def)
  note lim = connect_finish_limit [OF fin vc P D fees f(2) Fb]
  have "utxo_total UNIV A' \<le> utxo_total UNIV A + (?cb + C) - F" using f(6) w(3) by simp
  also have "\<dots> \<le> utxo_total UNIV A + GetBlockValue (cn_params E) ?h (block_IsProofOfStake block)"
    using lim f(2) by (simp split: if_split_asm)
  finally show ?thesis using f(1) by simp
qed

lemma checked_outputs_good:
  assumes "CheckBlock (cn_block E) block fCheckPOW fCheckMerkleRoot = Inr ()" "ordinary_block E block pindex"
  shows "\<forall>tx \<in> set (vtx block). outputs_good (cn_params E) tx"
proof
  fix tx
  assume "tx \<in> set (vtx block)"
  then have "CheckTransaction (block_check_env (cn_block E) block) tx = Inr ()"
    using check_txs_all [OF CheckBlock_parts(2) [OF assms(1)]] by blast
  moreover have P: "ce_params (block_check_env (cn_block E) block) = cn_params E" by (simp add: block_check_env_def)
  moreover obtain net where "cn_params E = Params net" using assms(2) by (auto simp: ordinary_block_def)
  ultimately show "outputs_good (cn_params E) tx" using CheckTransaction_outputs_good by metis
qed

text \<open>C1:
  No inflation: when \<open>ConnectTip\<close> accepts an ordinary block (no zerocoins, distinct ids, value checked)
  that \<open>CheckBlock\<close> let through and that, if it is proof of work, holds no coinstake, the unspent
  outputs of the new tip are worth at most those of the old tip plus the subsidy of the block. The
  64-bit sums of \<open>ConnectBlock\<close> do wrap for extreme fees, and the bound holds all the same. That the
  outputs are not negative and \<open>pcoinsTip\<close> is consistent is preserved.\<close>

theorem ConnectTip_no_inflation:
  assumes "tip_inv tip" "utxos_ok (tip_abs tip)" "utxo_total UNIV (tip_abs tip) \<le> nMaxMoneyOut (cn_params E)"
    "ConnectTip_coins E block pindex tip fAlreadyChecked = Some (Inr res, tip')"
    "CheckBlock (cn_block E) block fCheckPOW fCheckMerkleRoot = Inr ()" "ordinary_block E block pindex"
    "block_IsProofOfStake block \<or> \<not> list_ex IsCoinStake (vtx block)"
  shows "tip_inv tip' \<and> utxos_ok (tip_abs tip') \<and>
    utxo_total UNIV (tip_abs tip') \<le> utxo_total UNIV (tip_abs tip) +
      GetBlockValue (cn_params E) (int (nHeight pindex)) (block_IsProofOfStake block)"
proof -
  have v0: "view_inv (new_cache tip)" using tip.new_cache_spec [OF assms(1)] by blast
  obtain v v' where v: "ConnectBlock E tip_GetCoins tip_GetBestBlock block pindex (new_cache tip) False fAlreadyChecked
      = Some (Inr res, v)" "Flush cache_BatchWrite v = Some v'" "tip' = base v'"
    using assms(4) by (auto simp: ConnectTip_coins_def split: option.splits sum.splits prod.splits)
  note good = checked_outputs_good [OF assms(5,6)]
  obtain cs undos r where l: "ledger_block E block pindex (tip_abs tip) = Some (cs, undos, view_abs v)"
    "connect_finish E block pindex cs undos = Inr r" "view_inv v" "hashBlock v = phashBlock pindex"
    "\<forall>tx \<in> set (vtx block). tip_abs tip (txid tx) = None"
    using tip.ConnectBlock_ledger(1) [OF v0 assms(6) good v(1)] by auto
  have "hashBlock v \<noteq> 0" using l(4) assms(6) by (simp add: ordinary_block_def)
  from tip.Flush_spec [OF l(3) this] v(2,3) have "tip_inv tip'" "tip_abs tip' = view_abs v"
    by (auto simp: cache_inv_def)
  with ledger_block_supply [OF assms(2,3,5,6,7) l(1,2,5)] show ?thesis by simp
qed

end
