(* ===== verification/Inflation.thy ===== *)
theory Inflation
  imports NoInflation
begin

text \<open>
  A node, two blocks and what \<open>ConnectTip\<close> does with them: a block with one payment, and a block of
  proof of work that hides coinstakes, whose wrapping sums let it create 2^64 units of money.
\<close>

section \<open>A concrete node\<close>

text \<open>A node whose tip is block 9 at height 7, and a block with one payment on it.\<close>

definition demo_prev :: CBlockIndex where
  "demo_prev = \<lparr>phashBlock = 9, pprev = None, pskip = None, nHeight = 7, nStatus = 0, nFlags = 0, nVersion = 5,
     nTime = 1700000000, nBits = 0, nStakeModifier = 0, bnChainTrust = [], nChainWork = []\<rparr>"

definition demo_pindex :: CBlockIndex where
  "demo_pindex = demo_prev\<lparr>phashBlock := 10, pprev := Some 1, nHeight := 8\<rparr>"

definition demo_block_env :: block_env where
  "demo_block_env = \<lparr>be_params = main_params, be_adjustedTime = 1700000600, be_store = (\<lambda>p. demo_prev),
     be_mapBlockIndex = (\<lambda>h. if h = 9 then Some 1 else None), be_tip = Some 1, be_IsInitialBlockDownload = False,
     be_checkpointsEnabled = True, be_checkpoints = [], be_maxreorg = None, be_synced = True, be_superblocks = False,
     be_budgetEnforcement = False, be_paymentEnforcement = True, be_lockFiltering = False,
     mapLockedInputs = (\<lambda>out. None), IsBudgetPaymentBlock = (\<lambda>h. False),
     budget_IsTransactionValid = (\<lambda>tx h. Valid), payments_IsTransactionValid = (\<lambda>tx h. True),
     be_CheckZerocoinMint = (\<lambda>h out. True), be_CheckZerocoinSpend = (\<lambda>tx. True), be_serial = (\<lambda>tx txin. None),
     be_hash = (\<lambda>a b. 10 * a + b)\<rparr>"

definition demo_cn :: connect_env where
  "demo_cn = \<lparr>cn_block = demo_block_env, cn_script = (\<lambda>tx i. plain_env), cn_genesis = 1, cn_moneySupply = (\<lambda>p. 50),
     cn_fVerifyingBlocks = False, cn_maintenanceMode = 4000000000, cn_invalidOutPoints = {},
     cn_txHeight = (\<lambda>h. None), cn_denomination = (\<lambda>tx txin. None),
     ContextualCheckZerocoinSpend = (\<lambda>tx txin. True), ContextualCheckZerocoinMint = (\<lambda>tx out. True),
     UpdateZAGRSupply = (\<lambda>block. True), ValidateAccumulatorCheckpoint = (\<lambda>block. True),
     EraseZerocoins = (\<lambda>tx. True), EraseAccumulatorValues = (\<lambda>p. True)\<rparr>"


text \<open>The scripts of the demonstrations pay to anyone.\<close>

definition anyone :: "int \<Rightarrow> CTxOut" where
  "anyone amount = \<lparr>nValue = amount, scriptPubKey = [OP_1], nRounds = -10\<rparr>"

definition spend_of :: "hash256 \<Rightarrow> uint32 \<Rightarrow> CTxIn" where
  "spend_of h n = \<lparr>prevout = \<lparr>op_hash = h, op_n = n\<rparr>, scriptSig = [], nSequence = - 1\<rparr>"

definition demo_spend :: "hash256 \<Rightarrow> CTxIn list \<Rightarrow> CTxOut list \<Rightarrow> CTransaction" where
  "demo_spend h ins outs = \<lparr>txid = h, tx_nVersion = 1, vin = ins, vout = outs, nLockTime = 0\<rparr>"

definition demo_coinbase :: "int \<Rightarrow> CTransaction" where
  "demo_coinbase amount = \<lparr>txid = 70, tx_nVersion = 1,
     vin = [\<lparr>prevout = COutPoint_null, scriptSig = [1, 8], nSequence = - 1\<rparr>], vout = [anyone amount], nLockTime = 0\<rparr>"

definition demo_stake :: "hash256 \<Rightarrow> uint32 \<Rightarrow> CTransaction" where
  "demo_stake h n = demo_spend h [spend_of 5 n]
     [\<lparr>nValue = 0, scriptPubKey = [], nRounds = -10\<rparr>, anyone 1537228672809129313, anyone 1537228672809129313,
      anyone 1537228672809129313, anyone 1537228672809129313]"

definition stake_block :: CBlock where
  "stake_block = \<lparr>blk_hash = 10, blk_nVersion = 5, hashPrevBlock = 9, hashMerkleRoot = 95970, blk_nTime = 1700000500,
     blk_nBits = 0, nNonce = 0, nAccumulatorCheckpoint = 0,
     vtx = [demo_coinbase 5000000020, demo_spend 77 [spend_of 5 0] [anyone 40], demo_stake 78 1, demo_stake 79 2, demo_stake 80 3],
     vchBlockSig = []\<rparr>"

definition stake_db :: coins_db where
  "stake_db = \<lparr>db_coins = [5 \<mapsto> \<lparr>fCoinBase = False, fCoinStake = False, cvout = [anyone 50, anyone 50, anyone 50, anyone 50], cHeight = 3, cVersion = 1\<rparr>],
     db_best = Some 9\<rparr>"

lemmas demo_tx_simps = anyone_def spend_of_def demo_spend_def demo_coinbase_def demo_stake_def COutPoint_null_def

lemmas zero_simps = ContainsZerocoins_def HasZerocoinSpendInputs_def HasZerocoinPublicSpendInputs_def HasZerocoinMintOutputs_def
  CTxIn_IsZerocoinSpend_def CTxIn_IsZerocoinPublicSpend_def CTxOut_IsZerocoinMint_def IsZerocoinSpend_def
  IsZerocoinPublicSpend_def IsZerocoinMint_def StartsWithOpcode_def

lemmas type_simps = IsCoinBase_def IsCoinStake_def COutPoint_IsNull_def CTxOut_IsEmpty_def


lemmas size_simps = CBlock_size_def CTransaction_size_def GetSizeOfCompactSize_def CTxIn_size_def CTxOut_size_def script_size_def

lemmas tx_simps = demo_tx_simps type_simps zero_simps

lemmas node_simps = demo_cn_def demo_block_env_def main_params_def demo_pindex_def demo_prev_def

lemma demo_sigops: "GetLegacySigOpCount (demo_coinbase 5000000020) = 0"
  "GetLegacySigOpCount (demo_stake 78 1) = 0" "GetLegacySigOpCount (demo_stake 79 2) = 0"
  "GetLegacySigOpCount (demo_stake 80 3) = 0" "GetLegacySigOpCount (demo_spend 77 [spend_of 5 0] [anyone 40]) = 0"
  by code_simp+

lemma demo_scripts: "VerifyScript plain_env 517 [] [OP_1] = Some (Inr ())" "block_flags demo_cn True demo_pindex = 517"
  "\<not> IsPayToScriptHash [OP_1]" "\<not> IsUnspendable [OP_1]"
  by code_simp+

lemma demo_checks: "script_checks demo_cn demo_pindex"
  by (simp add: script_checks_def GetTotalBlocksEstimate_def node_simps)

definition stake_utxos :: utxos where
  "stake_utxos = (\<lambda>k. None)(5 := Some \<lparr>fCoinBase = False, fCoinStake = False,
     cvout = [anyone 50, anyone 50, anyone 50, anyone 50], cHeight = 3, cVersion = 1\<rparr>)"

lemmas ledger_simps = update_utxos_def regular_def spend_one_def Spend_def CTxOut_IsNull_def visible_Some Cleanup_def
  pop_null_rev IsPruned_def FromTx_def ClearUnspendable_def CTxOut_null_def Let_def

lemmas good_simps = tx_ok_def inputs_good_def output_of_def IsAvailable_def mature_def value_of_def input_values_def output_values_def
  inputs_env_of_def script_ok_def p2sh_sigops_def p2sh_sigops_in_def ValidOutPoint_def MAX_BLOCK_SIGOPS_CURRENT_def
  MAX_BLOCK_SIZE_CURRENT_def

lemma utxo_total_none [simp]: "utxo_total S (\<lambda>k. None) = 0"
  by (simp add: utxo_total_def)

lemma stake_block_loop: "ledger_block demo_cn stake_block demo_pindex A = ledger_loop demo_cn True 517 8 (vtx stake_block) connect_start A"
  using demo_checks by (simp add: ledger_block_def demo_scripts) (simp add: demo_pindex_def demo_prev_def)

lemma stake_ledger:
  "map_option (\<lambda>(cs, undos, A). (nFees cs, nValueIn cs, nValueOut cs, utxo_total UNIV A))
     (ledger_block demo_cn stake_block demo_pindex stake_utxos) = Some (10, 200, 5000000200, 18446744073709551616 + 5000000200)"
  unfolding stake_block_loop
  by (simp add: stake_block_def ledger_simps good_simps tx_simps demo_scripts
      demo_sigops [unfolded demo_tx_simps] stake_utxos_def tx_sums_def add64_def sub64_def connect_start_def node_simps
      utxo_total_update coins_value_def)

section \<open>Accepting a block\<close>

lemma ConnectTip_accepts:
  assumes inv: "tip_inv tip" and ord: "ordinary_block E block pindex"
    and check: "CheckBlock (cn_block E) block fCheckPOW fCheckMerkleRoot = Inr ()"
    and l: "ledger_block E block pindex (tip_abs tip) = Some (cs, undos, A')" "connect_finish E block pindex cs undos = Inr r"
    and new: "\<forall>tx \<in> set (vtx block). tip_abs tip (txid tx) = None"
    and best: "tip_best tip = phashBlock (cn_store E (the (pprev pindex)))" and t: "type_allowed (cn_params E) block pindex"
  shows "\<exists>tip'. ConnectTip_coins E block pindex tip True = Some (Inr (Some r), tip') \<and> tip_abs tip' = A'"
proof -
  have v0: "view_inv (new_cache tip)" using tip.new_cache_spec [OF inv] by blast
  note good = checked_outputs_good [OF check ord]
  obtain v where v: "ConnectBlock E tip_GetCoins tip_GetBestBlock block pindex (new_cache tip) False True = Some (Inr (Some r), v)"
    "view_abs v = A'" "view_inv v" "hashBlock v = phashBlock pindex"
    using tip.ConnectBlock_ledger(2) [OF v0 ord good, of cs undos A' r] l new best t by auto
  have "hashBlock v \<noteq> 0" using v(4) ord by (simp add: ordinary_block_def)
  from tip.Flush_spec [OF v(3) this] v(1,2) show ?thesis by (auto simp: ConnectTip_coins_def)
qed

lemma stake_node: "tip_inv (new_cache stake_db)" "tip_abs (new_cache stake_db) = stake_utxos" "tip_best (new_cache stake_db) = 9"
proof -
  have "db_inv stake_db" by (simp add: db_inv_def stake_db_def IsPruned_def CTxOut_IsNull_def anyone_def)
  then show "tip_inv (new_cache stake_db)" using db.new_cache_spec by blast
qed (simp_all add: stake_db_def stake_utxos_def db_best_hash_def fun_eq_iff)

lemma stake_total: "utxo_total UNIV stake_utxos = 200"
  by (simp add: stake_utxos_def utxo_total_update coins_value_def anyone_def CTxOut_IsNull_def)

section \<open>A block with a payment\<close>

definition pay_block :: CBlock where
  "pay_block = stake_block\<lparr>hashMerkleRoot := 777, vtx := [demo_coinbase 5000000010, demo_spend 77 [spend_of 5 0] [anyone 40]]\<rparr>"

lemmas check_simps = CheckBlock_def CheckBlockHeader_def check_merkle_def MerkleRoot_def BuildMerkleTree_def merkle_loop.simps
  check_layout_def block_IsProofOfStake_def block_IsProofOfWork_def check_payee_def parent_height_def IsBlockPayeeValid_def
  GetBlockNewTxForPayeeChecks_def CheckTransaction_def MAX_ZEROCOIN_TX_SIZE_def block_check_env_def block_time_def
  add64_def MoneyRange_def check_zerocoin_def check_shape_def nMaxZerocoinSpendsPerTransaction_def
  MAX_BLOCK_SIGOPS_CURRENT_def MAX_BLOCK_SIZE_CURRENT_def

lemma pay_sigops: "GetLegacySigOpCount (demo_coinbase 5000000010) = 0"
  by code_simp

lemma pay_checked: "CheckBlock demo_block_env pay_block False True = Inr ()"
  by (simp add: check_simps pay_block_def stake_block_def node_simps tx_simps size_simps
      demo_sigops [unfolded demo_tx_simps] pay_sigops [unfolded demo_tx_simps])

lemmas ordinary_simps = ordinary_block_def EnforceBIP30_def value_checked_def parent_height_def type_allowed_def
  block_IsProofOfStake_def

lemma main_net: "\<exists>net. main_params = Params net"
  by (rule exI [of _ MAIN]) simp

lemma pay_ordinary: "ordinary_block demo_cn pay_block demo_pindex" "type_allowed (cn_params demo_cn) pay_block demo_pindex"
  using main_net by (simp_all add: ordinary_simps pay_block_def stake_block_def demo_cn_def demo_block_env_def demo_pindex_def
      demo_prev_def tx_simps) (simp add: main_params_def JULIAN_YEAR_SECONDS_def)

lemma stake_checked: "CheckBlock demo_block_env stake_block False True = Inr ()"
  by (simp add: check_simps stake_block_def node_simps tx_simps size_simps demo_sigops [unfolded demo_tx_simps])

lemma stake_ordinary: "ordinary_block demo_cn stake_block demo_pindex" "type_allowed (cn_params demo_cn) stake_block demo_pindex"
  using main_net by (simp_all add: ordinary_simps stake_block_def demo_cn_def demo_block_env_def demo_pindex_def
      demo_prev_def tx_simps) (simp add: main_params_def JULIAN_YEAR_SECONDS_def)

lemma demo_finish:
  "nFees cs = 10 \<Longrightarrow> nValueOut cs = nValueIn cs + 5000000000 \<Longrightarrow> nValueIn cs = 50 \<or> nValueIn cs = 200 \<Longrightarrow>
   block \<in> {pay_block, stake_block} \<Longrightarrow> \<exists>r. connect_finish demo_cn block demo_pindex cs undos = Inr r"
  by (auto simp: connect_finish_def demo_cn_def demo_pindex_def demo_prev_def demo_block_env_def add64_def sub64_def
      GetBlockValue_def COIN_def main_params_def JULIAN_YEAR_SECONDS_def block_IsProofOfWork_def block_IsProofOfStake_def
      pay_block_def stake_block_def tx_simps IsBlockValueValid_def parent_height_def Let_def)

lemma demo_fresh: "block \<in> {pay_block, stake_block} \<Longrightarrow> \<forall>tx \<in> set (vtx block). stake_utxos (txid tx) = None"
  by (auto simp: pay_block_def stake_block_def demo_tx_simps stake_utxos_def)

lemma demo_parent: "9 = phashBlock (cn_store demo_cn (the (pprev demo_pindex)))"
  by (simp add: demo_cn_def demo_block_env_def demo_prev_def)

lemma pay_ledger:
  "map_option (\<lambda>(cs, undos, A). (nFees cs, nValueIn cs, nValueOut cs, utxo_total UNIV A))
     (ledger_block demo_cn pay_block demo_pindex stake_utxos) = Some (10, 50, 5000000050, 5000000200)"
  unfolding ledger_block_def using demo_checks
  by (simp add: demo_scripts)
    (simp add: pay_block_def stake_block_def ledger_simps good_simps tx_simps demo_scripts pay_sigops [unfolded demo_tx_simps]
      demo_sigops [unfolded demo_tx_simps] stake_utxos_def tx_sums_def add64_def sub64_def connect_start_def node_simps
      utxo_total_update coins_value_def)

theorem ConnectTip_no_inflation_witness:
  "\<exists>r tip'. ConnectTip_coins demo_cn pay_block demo_pindex (new_cache stake_db) True = Some (Inr (Some r), tip') \<and>
     utxo_total UNIV (tip_abs tip') \<le> 200 + 50 * COIN"
proof -
  let ?tip = "new_cache stake_db"
  obtain cs undos A where l: "ledger_block demo_cn pay_block demo_pindex stake_utxos = Some (cs, undos, A)"
    "nFees cs = 10" "nValueIn cs = 50" "nValueOut cs = 5000000050"
    using pay_ledger by auto
  obtain r where r: "connect_finish demo_cn pay_block demo_pindex cs undos = Inr r"
    using demo_finish [of cs pay_block undos] l(2-4) by auto
  have check: "CheckBlock (cn_block demo_cn) pay_block False True = Inr ()" using pay_checked by (simp add: demo_cn_def)
  obtain tip' where t: "ConnectTip_coins demo_cn pay_block demo_pindex ?tip True = Some (Inr (Some r), tip')"
    using ConnectTip_accepts [OF stake_node(1) pay_ordinary(1) check _ r _ _ pay_ordinary(2)] l(1) demo_fresh demo_parent
    unfolding stake_node(2,3) by auto
  have ok: "utxos_ok stake_utxos" by (simp add: utxos_ok_def stake_utxos_def anyone_def)
  have stakes: "block_IsProofOfStake pay_block \<or> \<not> list_ex IsCoinStake (vtx pay_block)"
    by (simp add: pay_block_def demo_tx_simps type_simps zero_simps)
  have "utxo_total UNIV (tip_abs tip') \<le> utxo_total UNIV stake_utxos +
      GetBlockValue (cn_params demo_cn) (int (nHeight demo_pindex)) (block_IsProofOfStake pay_block)"
    using ConnectTip_no_inflation [OF stake_node(1) _ _ t check pay_ordinary(1) stakes] ok stake_total
    unfolding stake_node(2) by (simp add: demo_cn_def demo_block_env_def main_params_def)
  moreover have "GetBlockValue (cn_params demo_cn) (int (nHeight demo_pindex)) (block_IsProofOfStake pay_block) \<le> 50 * COIN"
    by (simp add: GetBlockValue_def COIN_def demo_pindex_def demo_prev_def)
  ultimately show ?thesis using t stake_total by auto
qed

section \<open>Coinstakes in a block of proof of work\<close>

text \<open>C2:
  Only a proof-of-stake block is searched for surplus coinstakes. A block of proof of work may hold
  coinstakes from the third transaction on, \<open>CheckInputs\<close> lets each of them create money up to the
  money range, and the 64-bit sum of the outputs wraps: on the main network's parameters, a block that
  \<open>CheckBlock\<close> and \<open>ConnectTip\<close> accept turns unspent outputs worth 200 into outputs worth
  \<open>2 ^ 64\<close> more than those and the subsidy of 50 coins.\<close>

theorem work_block_coinstakes_inflate:
  "CheckBlock demo_block_env stake_block False True = Inr () \<and> block_IsProofOfWork stake_block \<and>
   ordinary_block demo_cn stake_block demo_pindex \<and> cn_params demo_cn = Params MAIN \<and>
   tip_inv (new_cache stake_db) \<and> utxo_total UNIV (tip_abs (new_cache stake_db)) = 200 \<and>
   (\<exists>r tip'. ConnectTip_coins demo_cn stake_block demo_pindex (new_cache stake_db) True = Some (Inr (Some r), tip') \<and>
     utxo_total UNIV (tip_abs tip') = 200 + 50 * COIN + 2 ^ 64)"
proof (intro conjI)
  let ?tip = "new_cache stake_db"
  obtain cs undos A where l: "ledger_block demo_cn stake_block demo_pindex stake_utxos = Some (cs, undos, A)"
    "nFees cs = 10" "nValueIn cs = 200" "nValueOut cs = 5000000200" "utxo_total UNIV A = 18446744073709551616 + 5000000200"
    using stake_ledger by auto
  obtain r where r: "connect_finish demo_cn stake_block demo_pindex cs undos = Inr r"
    using demo_finish [of cs stake_block undos] l(2-4) by auto
  have check: "CheckBlock (cn_block demo_cn) stake_block False True = Inr ()" using stake_checked by (simp add: demo_cn_def)
  obtain tip' where t: "ConnectTip_coins demo_cn stake_block demo_pindex ?tip True = Some (Inr (Some r), tip')" "tip_abs tip' = A"
    using ConnectTip_accepts [OF stake_node(1) stake_ordinary(1) check _ r _ _ stake_ordinary(2)] l(1) demo_fresh demo_parent
    unfolding stake_node(2,3) by auto
  have "utxo_total UNIV (tip_abs tip') = 200 + 50 * COIN + 2 ^ 64" unfolding t(2) l(5) by (simp add: COIN_def)
  with t(1) show "\<exists>r tip'. ConnectTip_coins demo_cn stake_block demo_pindex ?tip True = Some (Inr (Some r), tip') \<and>
      utxo_total UNIV (tip_abs tip') = 200 + 50 * COIN + 2 ^ 64"
    by blast
  show "block_IsProofOfWork stake_block"
    by (simp add: block_IsProofOfWork_def block_IsProofOfStake_def stake_block_def demo_tx_simps type_simps)
  show "cn_params demo_cn = Params MAIN" by (simp add: demo_cn_def demo_block_env_def)
qed (use stake_checked stake_ordinary stake_node stake_total in simp_all)

end
