(* ===== verification/Reorg.thy ===== *)
theory Reorg
  imports Inflation
begin

text \<open>
  Reorganisations: \<open>DisconnectBlock\<close> with the undo records \<open>ConnectBlock\<close> wrote. It brings back every
  unspent output with its height, version and coinbase flag, and never reports a corruption; what it
  does not bring back is the coinstake flag of coins the block spent completely.
\<close>

section \<open>Coins as blocks leave them\<close>

definition coins_wf :: "CCoins \<Rightarrow> bool" where
  "coins_wf c \<longleftrightarrow> pop_null (cvout c) = cvout c \<and> (\<forall>out \<in> set (cvout c). CTxOut_IsNull out \<longrightarrow> out = CTxOut_null) \<and>
     cHeight c \<noteq> 0 \<and> length (cvout c) < 2 ^ 32"

definition utxos_wf :: "utxos \<Rightarrow> bool" where
  "utxos_wf A \<longleftrightarrow> (\<forall>k c. A k = Some c \<longrightarrow> coins_wf c)"

text \<open>
  What comes back for the coins of \<open>k\<close>, when the coins of \<open>N\<close> had been spent completely by a block
  at height \<open>h\<close>.
\<close>

definition stake_lost :: "hash256 set \<Rightarrow> int \<Rightarrow> hash256 \<Rightarrow> CCoins \<Rightarrow> CCoins \<Rightarrow> bool" where
  "stake_lost N h k c c' \<longleftrightarrow>
     (if k \<in> N then c' = c\<lparr>fCoinStake := False\<rparr> \<and> (fCoinStake c \<longrightarrow> cHeight c \<noteq> h) else c' = c)"

definition restored :: "hash256 set \<Rightarrow> int \<Rightarrow> utxos \<Rightarrow> utxos \<Rightarrow> bool" where
  "restored N h A B \<longleftrightarrow> (\<forall>k. rel_option (stake_lost N h k) (A k) (B k))"

lemma restored_refl: "\<forall>k \<in> N. A k = None \<Longrightarrow> restored N h A A"
  by (auto simp: restored_def stake_lost_def option.rel_refl_strong option.rel_sel)

lemma restored_None: "restored N h A B \<Longrightarrow> A k = None \<longleftrightarrow> B k = None"
  unfolding restored_def by (metis option.rel_distinct(1) option.rel_distinct(2) not_None_eq)

lemma restored_Some: "restored N h A B \<Longrightarrow> A k = Some c \<Longrightarrow> \<exists>c'. B k = Some c' \<and> stake_lost N h k c c'"
  unfolding restored_def by (metis option_rel_Some1)

lemma restored_update: "restored N h A B \<Longrightarrow> rel_option (stake_lost N h k) r s \<Longrightarrow> restored N h (A(k := r)) (B(k := s))"
  by (simp add: restored_def)

lemma restored_eq:
  assumes "restored N h A B"
  shows "B k = map_option (\<lambda>c. if k \<in> N then c\<lparr>fCoinStake := False\<rparr> else c) (A k)"
  using restored_None [OF assms, of k] restored_Some [OF assms, of k]
  by (cases "A k") (auto simp: stake_lost_def split: if_split_asm)

lemma restored_unspent:
  assumes "restored N h A B"
  shows "unspent B = unspent A"
proof
  fix out
  show "unspent B out = unspent A out"
  proof (cases "A (op_hash out)")
    case None
    then show ?thesis using restored_None [OF assms, of "op_hash out"] by (simp add: unspent_def)
  next
    case (Some c)
    then show ?thesis using restored_Some [OF assms Some] by (auto simp: unspent_def stake_lost_def split: if_split_asm)
  qed
qed

section \<open>Spending and restoring an output\<close>

lemma nulls_replicate: "list_all CTxOut_IsNull k \<Longrightarrow> \<forall>out \<in> set k. CTxOut_IsNull out \<longrightarrow> out = CTxOut_null \<Longrightarrow>
    k = replicate (length k) CTxOut_null"
  by (induction k) auto

lemma resize_restores:
  assumes clean: "pop_null l = l" and null: "\<forall>out \<in> set l. CTxOut_IsNull out \<longrightarrow> out = CTxOut_null"
    and n: "n < length l" "\<not> CTxOut_IsNull (l ! n)"
  shows "n < length (resize_vout (pop_null (l[n := CTxOut_null])) (n + 1)) \<and>
    (resize_vout (pop_null (l[n := CTxOut_null])) (n + 1))[n := l ! n] = l"
proof -
  obtain bl x where l: "l = bl @ [x]" using n(1) by (cases l rule: rev_cases) auto
  show ?thesis
  proof (cases "n = length bl")
    case True
    obtain k where k: "bl = pop_null bl @ k" "list_all CTxOut_IsNull k" using pop_null_split by blast
    have "\<forall>out \<in> set k. out \<in> set l" using k(1) l by (metis Un_iff set_append)
    then have "k = replicate (length k) CTxOut_null" using null k(2) by (intro nulls_replicate) auto
    then have bl: "bl = pop_null bl @ replicate (length k) CTxOut_null" using k(1) by simp
    have p: "pop_null (l[n := CTxOut_null]) = pop_null bl" using True l by (simp add: pop_null_append)
    have len: "length bl = length (pop_null bl) + length k" using arg_cong [OF k(1), of length] by simp
    have "resize_vout (pop_null bl) (n + 1) = pop_null bl @ replicate (length k + 1) CTxOut_null"
      using True len by (simp add: resize_vout_def)
    also have "\<dots> = bl @ [CTxOut_null]" by (subst (2) bl) (simp add: replicate_append_same)
    finally show ?thesis using True l unfolding p by simp
  next
    case False
    then have "n < length bl" using n(1) l by simp
    have "\<not> CTxOut_IsNull x"
    proof
      assume "CTxOut_IsNull x"
      then have "pop_null bl = bl @ [x]" using clean l by (simp add: pop_null_snoc)
      then show False using length_pop_null [of bl] by simp
    qed
    then have "pop_null (l[n := CTxOut_null]) = l[n := CTxOut_null]"
      using \<open>n < length bl\<close> l by (simp add: list_update_append pop_null_snoc)
    then show ?thesis using n(1) by (simp add: resize_vout_def)
  qed
qed

lemma unat_plus_1_index: "unat (w :: uint32) < len \<Longrightarrow> len < 2 ^ 32 \<Longrightarrow> unat (w + 1) = unat w + 1"
  by (subst unat_add_lem [THEN iffD1]) auto

lemma restore_spent:
  assumes s: "spend_one A txin = Some (undo, A1)" and wf: "utxos_wf A"
    and stake: "\<forall>c. A (op_hash (prevout txin)) = Some c \<longrightarrow> fCoinStake c \<longrightarrow> cHeight c \<noteq> h"
    and N: "A1 (op_hash (prevout txin)) = None \<Longrightarrow> op_hash (prevout txin) \<in> N"
    and B: "restored N h A1 B" and c: "visible (Some c) = B (op_hash (prevout txin))"
  shows "fst (restore_input (prevout txin) undo c) = Some True \<and>
    restored N h A (B(op_hash (prevout txin) := visible (Some (Cleanup (snd (restore_input (prevout txin) undo c))))))"
proof -
  let ?k = "op_hash (prevout txin)" and ?n = "unat (op_n (prevout txin))"
  obtain c0 c' where c0: "A ?k = Some c0" "Spend c0 (prevout txin) = Some (c', undo)" "A1 = A(?k := visible (Some c'))"
    using s by (auto simp: spend_one_def split: option.splits)
  define v where "v = pop_null ((cvout c0)[?n := CTxOut_null])"
  have w: "coins_wf c0" using wf c0(1) by (simp add: utxos_wf_def)
  have n: "?n < length (cvout c0)" "\<not> CTxOut_IsNull (cvout c0 ! ?n)"
    using c0(2) by (auto simp: Spend_def Let_def split: if_split_asm)
  have c': "c' = c0\<lparr>cvout := v\<rparr>"
    and undo: "undo = (if v = [] then \<lparr>u_txout = cvout c0 ! ?n, u_fCoinBase = fCoinBase c0, u_fCoinStake = fCoinStake c0,
        u_nHeight = cHeight c0, u_nVersion = cVersion c0\<rparr> else CTxInUndo_of (cvout c0 ! ?n))"
    using c0(2) by (auto simp: Spend_def Let_def Cleanup_def v_def CTxInUndo_of_def split: if_split_asm)
  have vout: "?n < length (resize_vout v (?n + 1))" "(resize_vout v (?n + 1))[?n := cvout c0 ! ?n] = cvout c0"
    using resize_restores [OF _ _ n] w unfolding v_def coins_wf_def by blast+
  have step: "unat (op_n (prevout txin) + 1) = ?n + 1" using unat_plus_1_index n(1) w by (auto simp: coins_wf_def)
  have clean: "pop_null (cvout c0) = cvout c0" using w by (simp add: coins_wf_def)
  have live: "\<not> list_all CTxOut_IsNull (cvout c0)" using n by (auto simp: list_all_length)
  have pruned: "IsPruned c' \<longleftrightarrow> v = []" unfolding c' IsPruned_def v_def by (simp add: pop_null_eq_Nil [symmetric])
  let ?kept = "\<lambda>r. if ?k \<in> N then r = c0\<lparr>fCoinStake := False\<rparr> else r = c0"
  have fill: "restored N h A (B(?k := visible (Some (Cleanup r))))" if "?kept r" for r
  proof -
    have "Cleanup r = r" "\<not> IsPruned r" using that clean live by (auto simp: Cleanup_def IsPruned_def split: if_split_asm)
    moreover have "stake_lost N h ?k c0 r" using that stake c0(1) by (auto simp: stake_lost_def)
    ultimately have "rel_option (stake_lost N h ?k) (Some c0) (visible (Some (Cleanup r)))" by (simp add: visible_Some)
    from restored_update [OF B this] show ?thesis unfolding c0(3) using c0(1) by (simp add: fun_upd_idem)
  qed
  show ?thesis
  proof (cases "v = []")
    case True
    then have "B ?k = None" using restored_None [OF B, of ?k] c0(3) pruned by (simp add: visible_Some)
    then have "IsPruned c" using c by (simp add: visible_Some split: if_split_asm)
    moreover have "cHeight c0 \<noteq> 0" using w by (simp add: coins_wf_def)
    ultimately have r: "restore_input (prevout txin) undo c = (Some True, c0\<lparr>fCoinStake := False\<rparr>)"
      using vout True by (simp add: restore_input_def undo step IsAvailable_def Clear_def Let_def)
    have "?k \<in> N" by (rule N) (simp add: c0(3) visible_Some pruned True)
    then have "?kept (c0\<lparr>fCoinStake := False\<rparr>)" by simp
    from fill [OF this] r show ?thesis by simp
  next
    case False
    then have "A1 ?k = Some c'" using c0(3) pruned by (simp add: visible_Some)
    then obtain c2 where c2: "B ?k = Some c2" "stake_lost N h ?k c' c2" using restored_Some [OF B] by blast
    then have "c = c2" "\<not> IsPruned c" using c by (simp_all add: visible_Some split: if_split_asm)
    have cv: "cvout c = v" using c2(2) \<open>c = c2\<close> c' by (auto simp: stake_lost_def split: if_split_asm)
    have "CTxOut_IsNull (v ! ?n)" if "?n < length v"
      using that n(1) unfolding v_def by (simp add: pop_null_nth)
    then have "\<not> IsAvailable c ?n" using cv by (auto simp: IsAvailable_def)
    then have r: "restore_input (prevout txin) undo c = (Some True, c\<lparr>cvout := cvout c0\<rparr>)"
      using vout False cv \<open>\<not> IsPruned c\<close> by (simp add: restore_input_def undo step CTxInUndo_of_def Let_def)
    have "?kept (c\<lparr>cvout := cvout c0\<rparr>)" using c2(2) \<open>c = c2\<close> c' by (auto simp: stake_lost_def split: if_split_asm)
    from fill [OF this] r show ?thesis by simp
  qed
qed

section \<open>Transactions\<close>

lemma spend_one_parts:
  assumes "spend_one A txin = Some (undo, A1)" "utxos_wf A"
  shows "utxos_wf A1" "A k = None \<Longrightarrow> A1 k = None" "A (op_hash (prevout txin)) \<noteq> None"
    "A1 k = Some c' \<Longrightarrow> \<exists>c. A k = Some c \<and> fCoinStake c' = fCoinStake c \<and> cHeight c' = cHeight c"
proof -
  let ?k = "op_hash (prevout txin)" and ?n = "unat (op_n (prevout txin))"
  obtain c0 c1 where c0: "A ?k = Some c0" "Spend c0 (prevout txin) = Some (c1, undo)" "A1 = A(?k := visible (Some c1))"
    using assms(1) by (auto simp: spend_one_def split: option.splits)
  have c1: "c1 = c0\<lparr>cvout := pop_null ((cvout c0)[?n := CTxOut_null])\<rparr>"
    using c0(2) by (auto simp: Spend_def Let_def Cleanup_def split: if_split_asm)
  have w: "coins_wf c0" using assms(2) c0(1) by (simp add: utxos_wf_def)
  have "set (pop_null ((cvout c0)[?n := CTxOut_null])) \<subseteq> set (cvout c0) \<union> {CTxOut_null}"
    using set_update_subset_insert [of "cvout c0" ?n CTxOut_null] set_pop_null [of "(cvout c0)[?n := CTxOut_null]"] by auto
  moreover have "length (pop_null ((cvout c0)[?n := CTxOut_null])) \<le> length (cvout c0)"
    using length_pop_null [of "(cvout c0)[?n := CTxOut_null]"] by simp
  ultimately have "coins_wf c1" using w unfolding coins_wf_def c1 by auto
  then show "utxos_wf A1" using assms(2) c0(3) by (auto simp: utxos_wf_def visible_Some)
  show "A1 k = None" if "A k = None" using that c0(1,3) by (auto simp: fun_upd_def)
  show "A ?k \<noteq> None" using c0(1) by simp
  show "\<exists>c. A k = Some c \<and> fCoinStake c' = fCoinStake c \<and> cHeight c' = cHeight c" if "A1 k = Some c'"
    using that c0(1,3) c1 by (auto simp: visible_Some split: if_split_asm)
qed

text \<open>The coinstakes among the coins these inputs spend are older than the block.\<close>

definition old_stakes :: "int \<Rightarrow> utxos \<Rightarrow> CTxIn list \<Rightarrow> bool" where
  "old_stakes h A ins \<longleftrightarrow>
     (\<forall>txin \<in> set ins. \<forall>c. A (op_hash (prevout txin)) = Some c \<longrightarrow> fCoinStake c \<longrightarrow> cHeight c \<noteq> h)"

lemma old_stakes_spend:
  assumes "old_stakes h A (txin # ins)" "spend_one A txin = Some (undo, A1)" "utxos_wf A"
  shows "old_stakes h A1 ins"
  unfolding old_stakes_def
proof (intro ballI allI impI)
  fix x c'
  assume x: "x \<in> set ins" "A1 (op_hash (prevout x)) = Some c'" "fCoinStake c'"
  from spend_one_parts(4) [OF assms(2,3) x(2)]
  obtain c where "A (op_hash (prevout x)) = Some c" "fCoinStake c' = fCoinStake c" "cHeight c' = cHeight c" by blast
  then show "cHeight c' \<noteq> h" using assms(1) x unfolding old_stakes_def by (metis list.set_intros(2))
qed

lemma spend_all_parts:
  assumes "spend_all A ins = Some (undos, A')" "utxos_wf A"
  shows "utxos_wf A' \<and> length undos = length ins \<and> (\<forall>k. A k = None \<longrightarrow> A' k = None)"
  using assms
proof (induction ins arbitrary: A undos)
  case (Cons txin ins)
  obtain undo A1 us where s: "spend_one A txin = Some (undo, A1)" "spend_all A1 ins = Some (us, A')" "undos = undo # us"
    using Cons.prems(1) by (auto split: option.splits)
  note p = spend_one_parts [OF s(1) Cons.prems(2)]
  from Cons.IH [OF s(2) p(1)] show ?case using p(2) s(3) by simp
qed simp

text \<open>A transaction the block check lets through leaves well-formed coins.\<close>

definition tx_wf :: "CTransaction \<Rightarrow> bool" where
  "tx_wf tx \<longleftrightarrow> (\<forall>out \<in> set (vout tx). 0 \<le> nValue out) \<and> length (vout tx) < 2 ^ 32"

lemma FromTx_wf:
  assumes "tx_wf tx" "h \<noteq> 0"
  shows "coins_wf (FromTx tx h)"
proof -
  let ?m = "map (\<lambda>txout. if IsUnspendable (scriptPubKey txout) then CTxOut_null else txout) (vout tx)"
  have v: "cvout (FromTx tx h) = pop_null ?m" by (simp add: FromTx_def ClearUnspendable_def Cleanup_def)
  have "\<forall>out \<in> set ?m. CTxOut_IsNull out \<longrightarrow> out = CTxOut_null"
    using assms(1) by (auto simp: tx_wf_def CTxOut_IsNull_def)
  then have "\<forall>out \<in> set (pop_null ?m). CTxOut_IsNull out \<longrightarrow> out = CTxOut_null" using set_pop_null [of ?m] by blast
  moreover have "length (pop_null ?m) < 2 ^ 32"
    using length_pop_null [of ?m] assms(1) unfolding tx_wf_def length_map by (elim conjE) (rule le_less_trans)
  moreover have "cHeight (FromTx tx h) = h" by (simp add: FromTx_def ClearUnspendable_def Cleanup_def)
  ultimately show ?thesis using assms(2) unfolding coins_wf_def v by simp
qed

lemma update_utxos_parts:
  assumes u: "update_utxos A tx h = Some (undos, A')" and wf: "utxos_wf A" "tx_wf tx" "h \<noteq> 0"
  shows "utxos_wf A'" "A k = None \<Longrightarrow> k \<noteq> txid tx \<Longrightarrow> A' k = None"
proof -
  obtain A1 where a: "A' = A1(txid tx := visible (Some (FromTx tx h)))"
    "(if regular tx then spend_all A (vin tx) else Some ([], A)) = Some (undos, A1)"
    using u by (auto simp: update_utxos_def split: option.splits)
  have p: "utxos_wf A1 \<and> (\<forall>k. A k = None \<longrightarrow> A1 k = None)"
    using a(2) spend_all_parts wf(1) by (auto split: if_split_asm)
  then show "utxos_wf A'" using FromTx_wf [OF wf(2,3)] by (auto simp: a(1) utxos_wf_def visible_Some)
  show "A' k = None" if "A k = None" "k \<noteq> txid tx" using p that by (simp add: a(1))
qed

lemma ClearUnspendable_FromTx: "ClearUnspendable (FromTx tx h) = FromTx tx h"
proof -
  define f where "f = (\<lambda>txout. if IsUnspendable (scriptPubKey txout) then CTxOut_null else txout)"
  have "f x = x" if "x \<in> set (map f (vout tx))" for x using that by (auto simp: f_def)
  then have "f x = x" if "x \<in> set (pop_null (map f (vout tx)))" for x using that set_pop_null by blast
  then have "map f (pop_null (map f (vout tx))) = pop_null (map f (vout tx))" by (rule map_idI)
  then show ?thesis by (simp add: FromTx_def ClearUnspendable_def Cleanup_def f_def)
qed

lemma remove_outputs_match:
  assumes "visible (Some c) = visible (Some (FromTx tx h))"
  shows "fst (remove_outputs tx h c)" "IsPruned (snd (remove_outputs tx h c))"
proof -
  show "IsPruned (snd (remove_outputs tx h c))" by (simp add: remove_outputs_def Let_def Clear_def IsPruned_def)
  show "fst (remove_outputs tx h c)"
  proof (cases "IsPruned (FromTx tx h)")
    case True
    then have "IsPruned c" using assms by (simp add: visible_Some split: if_split_asm)
    then have "IsPruned (ClearUnspendable c)"
      unfolding ClearUnspendable_def IsPruned_Cleanup by (auto simp: IsPruned_def list_all_iff)
    then have "IsPruned ((ClearUnspendable c)\<lparr>cVersion := x\<rparr>)" for x by (simp add: IsPruned_def)
    with True \<open>IsPruned (ClearUnspendable c)\<close> show ?thesis by (simp add: remove_outputs_def Let_def CCoins_eq_def)
  next
    case False
    then have c: "c = FromTx tx h" using assms by (simp add: visible_Some split: if_split_asm)
    show ?thesis unfolding c remove_outputs_def Let_def ClearUnspendable_FromTx by (simp add: CCoins_eq_def)
  qed
qed

section \<open>Undoing what was done\<close>

lemma restore_loop_snoc:
  "restore_loop get v (xs @ [(txin, undo)]) fClean =
     (case restore_loop get v xs fClean of
        None \<Rightarrow> None
      | Some (fClean, v) \<Rightarrow>
          (case ModifyCoins get v (op_hash (prevout txin)) (restore_input (prevout txin) undo) of
             (None, v) \<Rightarrow> None
           | (Some clean, v) \<Rightarrow> Some (fClean \<and> clean, v)))"
  by (induction xs arbitrary: v fClean) (auto split: prod.split option.split)

lemma disconnect_loop_append:
  "disconnect_loop E get h (xs @ ys) fClean v =
     (case disconnect_loop E get h xs fClean v of
        None \<Rightarrow> None
      | Some (Inl u) \<Rightarrow> Some (Inl u)
      | Some (Inr (fClean, v)) \<Rightarrow> disconnect_loop E get h ys fClean v)"
proof (induction xs arbitrary: v fClean)
  case (Cons x xs)
  show ?case by (cases x) (simp add: Cons.IH split: option.split sum.split prod.split)
qed simp

context coins_reader
begin

lemma restore_all:
  assumes "spend_all A ins = Some (undos, A')" "utxos_wf A" "old_stakes h A ins" "cache_inv vinv absv known v"
    "restored N h A' (cache_abs absv v)" "\<And>k. A k \<noteq> None \<Longrightarrow> A' k = None \<Longrightarrow> k \<in> N"
  shows "\<exists>v'. restore_loop GetCoins v (rev (zip ins undos)) fClean = Some (fClean, v') \<and>
    cache_inv vinv absv known v' \<and> cache_best best v' = cache_best best v \<and> restored N h A (cache_abs absv v')"
  using assms
proof (induction ins arbitrary: A undos)
  case (Cons txin ins)
  obtain undo A1 us where s: "spend_one A txin = Some (undo, A1)" "spend_all A1 ins = Some (us, A')" "undos = undo # us"
    using Cons.prems(1) by (auto split: option.splits)
  note wf1 = spend_one_parts(1) [OF s(1) Cons.prems(2)]
  have later: "k \<in> N" if "A1 k \<noteq> None" "A' k = None" for k
    using Cons.prems(6) [of k] spend_one_parts(2) [OF s(1) Cons.prems(2), of k] that by (cases "A k = None") blast+
  obtain v1 where v1: "restore_loop GetCoins v (rev (zip ins us)) fClean = Some (fClean, v1)"
    "cache_inv vinv absv known v1" "cache_best best v1 = cache_best best v" "restored N h A1 (cache_abs absv v1)"
    using Cons.IH [OF s(2) wf1 old_stakes_spend [OF Cons.prems(3) s(1) Cons.prems(2)] Cons.prems(4,5) later] by blast
  let ?k = "op_hash (prevout txin)" and ?f = "restore_input (prevout txin) undo"
  obtain r v2 where m: "ModifyCoins GetCoins v1 ?k ?f = (r, v2)" by (cases "ModifyCoins GetCoins v1 ?k ?f")
  note inv = modify_utxos(1) [OF v1(2) m]
  obtain c where c: "visible (Some c) = cache_abs absv v1 ?k" "r = fst (?f c)"
    "cache_abs absv v2 = (cache_abs absv v1)(?k := visible (Some (Cleanup (snd (?f c)))))"
    using modify_utxos(2) [OF v1(2) m] by blast
  have old: "\<forall>c. A ?k = Some c \<longrightarrow> fCoinStake c \<longrightarrow> cHeight c \<noteq> h" using Cons.prems(3) by (simp add: old_stakes_def)
  have gone: "A1 ?k = None \<Longrightarrow> ?k \<in> N"
    using Cons.prems(6) spend_one_parts(3) [OF s(1) Cons.prems(2)] spend_all_parts [OF s(2) wf1] by blast
  note r = restore_spent [OF s(1) Cons.prems(2) old gone v1(4) c(1)]
  have "restore_loop GetCoins v (rev (zip (txin # ins) undos)) fClean = Some (fClean, v2)"
    using v1(1) m r c(2) by (simp add: s(3) restore_loop_snoc)
  moreover have "restored N h A (cache_abs absv v2)" using r unfolding c(3) by blast
  ultimately show ?case using inv v1(3) by auto
qed auto

lemma disconnect_tx_undoes:
  assumes u: "update_utxos A tx h = Some (undos, A')" and wf: "utxos_wf A" and new: "A (txid tx) = None"
    and old: "regular tx \<Longrightarrow> old_stakes h A (vin tx)"
    and inv: "cache_inv vinv absv known v" and r: "restored N h A' (cache_abs absv v)"
    and us: "regular tx \<Longrightarrow> us = undos" and N: "\<And>k. A k \<noteq> None \<Longrightarrow> A' k = None \<Longrightarrow> k \<in> N"
  shows "\<exists>v'. disconnect_tx GetCoins v tx h us fClean = Some (Inr (fClean, v')) \<and>
    cache_inv vinv absv known v' \<and> cache_best best v' = cache_best best v \<and> restored N h A (cache_abs absv v')"
proof -
  let ?B = "cache_abs absv v"
  obtain A1 where a: "A' = A1(txid tx := visible (Some (FromTx tx h)))"
    "(if regular tx then spend_all A (vin tx) else Some ([], A)) = Some (undos, A1)"
    using u by (auto simp: update_utxos_def split: option.splits)
  have new1: "A1 (txid tx) = None" using a(2) new spend_all_parts wf by (auto split: if_split_asm)
  obtain match v1 where m: "ModifyCoins GetCoins v (txid tx) (remove_outputs tx h) = (match, v1)"
    by (cases "ModifyCoins GetCoins v (txid tx) (remove_outputs tx h)")
  note inv1 = modify_utxos(1) [OF inv m]
  obtain c where c: "visible (Some c) = ?B (txid tx)" "match = fst (remove_outputs tx h c)"
    "cache_abs absv v1 = ?B(txid tx := visible (Some (Cleanup (snd (remove_outputs tx h c)))))"
    using modify_utxos(2) [OF inv m] by blast
  have "rel_option (stake_lost N h (txid tx)) (visible (Some (FromTx tx h))) (?B (txid tx))" using r by (simp add: restored_def a(1) fun_upd_def) metis
  moreover have "cHeight (FromTx tx h) = h" by (simp add: FromTx_def ClearUnspendable_def Cleanup_def)
  ultimately have "visible (Some c) = visible (Some (FromTx tx h))"
    unfolding c(1) by (cases "?B (txid tx)") (auto simp: visible_Some stake_lost_def split: if_split_asm)
  note rm = remove_outputs_match [OF this]
  have B1: "cache_abs absv v1 = ?B(txid tx := None)" unfolding c(3) using rm(2) by (simp add: visible_Some)
  have "A1 = A'(txid tx := None)" using new1 by (simp add: a(1) fun_upd_idem)
  then have r1: "restored N h A1 (cache_abs absv v1)" unfolding B1 using restored_update [OF r, of "txid tx" None None] by simp
  show ?thesis
  proof (cases "regular tx")
    case True
    then have s: "spend_all A (vin tx) = Some (undos, A1)" using a(2) by simp
    have "length undos = length (vin tx)" using spend_all_parts [OF s wf] by simp
    moreover have "k \<in> N" if "A k \<noteq> None" "A1 k = None" for k using N [of k] that new by (cases "k = txid tx") (auto simp: a(1))
    then obtain v2 where "restore_loop GetCoins v1 (rev (zip (vin tx) undos)) fClean = Some (fClean, v2)"
      "cache_inv vinv absv known v2" "cache_best best v2 = cache_best best v1" "restored N h A (cache_abs absv v2)"
      using restore_all [OF s wf old [OF True] _ r1, of fClean] inv1 by blast
    ultimately show ?thesis using inv1 m rm(1) c(2) True us by (auto simp: disconnect_tx_def regular_def)
  next
    case False
    then have "A1 = A" using a(2) by simp
    with False r1 inv1 m rm(1) c(2) show ?thesis by (auto simp: disconnect_tx_def regular_def)
  qed
qed

end

section \<open>Blocks\<close>

lemma mature_old_stakes:
  assumes "inputs_good (inputs_env_of E) A h tx fScriptChecks flags valueOut" "0 < nMaturity (cn_params E)"
  shows "old_stakes h A (vin tx)"
  unfolding old_stakes_def
proof (intro ballI allI impI)
  fix txin c
  assume t: "txin \<in> set (vin tx)" "A (op_hash (prevout txin)) = Some c" "fCoinStake c"
  have "mature (cn_params E) A h txin" using assms(1) t(1) by (simp add: inputs_good_def inputs_env_of_def)
  then show "cHeight c \<noteq> h" using t assms(2) by (auto simp: mature_def)
qed

lemma ledger_loop_Cons:
  assumes "ledger_loop E fScriptChecks flags h (tx # txs) cs A = Some (cs', undos, A')"
  obtains undo us cs1 A1 where "tx_ok E fScriptChecks flags h cs A tx" "update_utxos A tx h = Some (undo, A1)"
    "ledger_loop E fScriptChecks flags h txs cs1 A1 = Some (cs', us, A')" "undos = undo # us"
  using assms by (auto simp: Let_def split: if_split_asm option.splits)

lemma ledger_loop_wf:
  assumes "ledger_loop E fScriptChecks flags h txs cs A = Some (cs', undos, A')" "utxos_wf A" "\<forall>tx \<in> set txs. tx_wf tx" "h \<noteq> 0"
  shows "utxos_wf A' \<and> length undos = length txs \<and> (\<forall>k. A k = None \<longrightarrow> k \<notin> txid ` set txs \<longrightarrow> A' k = None)"
  using assms
proof (induction txs arbitrary: cs A undos)
  case (Cons tx txs)
  obtain undo us cs1 A1 where u: "update_utxos A tx h = Some (undo, A1)"
    "ledger_loop E fScriptChecks flags h txs cs1 A1 = Some (cs', us, A')" "undos = undo # us"
    using ledger_loop_Cons [OF Cons.prems(1)] by metis
  have tx: "tx_wf tx" using Cons.prems(3) by simp
  note p = update_utxos_parts [OF u(1) Cons.prems(2) tx Cons.prems(4)]
  from Cons.IH [OF u(2) p(1)] u(3) p(2) Cons.prems(3,4) show ?case by simp
qed simp

context coins_reader
begin

lemma disconnect_loop_tx:
  assumes "\<not> ContainsZerocoins tx" "regular tx \<Longrightarrow> us \<noteq> None"
    "disconnect_tx GetCoins v tx h (case us of None \<Rightarrow> [] | Some u \<Rightarrow> u) fClean = Some (Inr (fClean', v'))"
  shows "disconnect_loop E GetCoins h [(tx, us)] fClean v = Some (Inr (fClean', v'))"
  using assms by (auto simp: regular_def split: option.splits)

lemma disconnect_loop_undoes:
  assumes "ledger_loop E fScriptChecks flags h txs cs A = Some (cs', undos, A')" "utxos_wf A"
    "\<forall>tx \<in> set txs. tx_wf tx \<and> regular tx \<and> \<not> ContainsZerocoins tx \<and> A (txid tx) = None" "distinct (map txid txs)"
    "h \<noteq> 0" "0 < nMaturity (cn_params E)" "cache_inv vinv absv known v" "restored N h A' (cache_abs absv v)"
    "\<And>k. A' k = None \<Longrightarrow> k \<in> N"
  shows "\<exists>v'. disconnect_loop E GetCoins h (rev (zip txs (map Some undos))) fClean v = Some (Inr (fClean, v')) \<and>
    cache_inv vinv absv known v' \<and> cache_best best v' = cache_best best v \<and> restored N h A (cache_abs absv v')"
  using assms
proof (induction txs arbitrary: cs A undos)
  case (Cons tx txs)
  obtain undo us cs1 A1 where u: "tx_ok E fScriptChecks flags h cs A tx" "update_utxos A tx h = Some (undo, A1)"
    "ledger_loop E fScriptChecks flags h txs cs1 A1 = Some (cs', us, A')" "undos = undo # us"
    by (rule ledger_loop_Cons [OF Cons.prems(1)])
  have tx: "tx_wf tx" "regular tx" "\<not> ContainsZerocoins tx" "A (txid tx) = None" using Cons.prems(3) by simp_all
  note p = update_utxos_parts [OF u(2) Cons.prems(2) tx(1) Cons.prems(5)]
  have d: "distinct (map txid txs)" "\<forall>x \<in> set txs. txid x \<noteq> txid tx" using Cons.prems(4) by (simp, metis distinct.simps(2) imageI list.set_map list.simps(9))
  have txs: "\<forall>x \<in> set txs. tx_wf x \<and> regular x \<and> \<not> ContainsZerocoins x \<and> A1 (txid x) = None"
    using Cons.prems(3) d(2) p(2) by simp
  obtain v1 where v1: "disconnect_loop E GetCoins h (rev (zip txs (map Some us))) fClean v = Some (Inr (fClean, v1))"
    "cache_inv vinv absv known v1" "cache_best best v1 = cache_best best v" "restored N h A1 (cache_abs absv v1)"
    using Cons.IH [OF u(3) p(1) txs d(1) Cons.prems(5-9)] by blast
  have old: "old_stakes h A (vin tx)" using u(1) tx(2) mature_old_stakes Cons.prems(6) by (auto simp: tx_ok_def regular_def)
  have gone: "k \<in> N" if "A k \<noteq> None" "A1 k = None" for k
  proof (rule Cons.prems(9))
    have "k \<notin> txid ` set txs" using Cons.prems(3) that(1) by auto
    then show "A' k = None" using ledger_loop_wf [OF u(3) p(1)] Cons.prems(3,5) that(2) by simp
  qed
  obtain v2 where v2: "disconnect_tx GetCoins v1 tx h undo fClean = Some (Inr (fClean, v2))" "cache_inv vinv absv known v2"
    "cache_best best v2 = cache_best best v1" "restored N h A (cache_abs absv v2)"
    using disconnect_tx_undoes [OF u(2) Cons.prems(2) tx(4) old v1(2,4) refl gone] by blast
  have "disconnect_loop E GetCoins h [(tx, Some undo)] fClean v1 = Some (Inr (fClean, v2))"
    using disconnect_loop_tx [OF tx(3), of "Some undo"] v2(1) by simp
  then have "disconnect_loop E GetCoins h (rev (zip (tx # txs) (map Some undos))) fClean v = Some (Inr (fClean, v2))"
    using v1(1) by (simp add: u(4) disconnect_loop_append)
  then show ?case using v2 v1(3) by auto
qed auto

end

section \<open>The tip\<close>

lemma CheckTransaction_wf:
  assumes "CheckTransaction C tx = Inr ()" "ce_params C = Params net"
  shows "tx_wf tx"
proof -
  have "CTransaction_size tx \<le> 150000"
    using assms(1) by (auto simp: CheckTransaction_def MAX_ZEROCOIN_TX_SIZE_def split: if_split_asm)
  moreover have "1 \<le> CTxOut_size out" for out by (simp add: CTxOut_size_def)
  then have "length (vout tx) \<le> sum_list (map CTxOut_size (vout tx))"
    using sum_list_mono [of "vout tx" "\<lambda>_. 1" CTxOut_size] by (simp add: sum_list_triv)
  ultimately have "length (vout tx) < 2 ^ 32" by (simp add: CTransaction_size_def)
  with CheckTransaction_outputs_good [OF assms] show ?thesis by (simp add: tx_wf_def outputs_good_def)
qed

lemma checked_block_wf:
  assumes check: "CheckBlock (cn_block E) block fCheckPOW fCheckMerkleRoot = Inr ()" and ord: "ordinary_block E block pindex"
  obtains cb txs where "vtx block = cb # txs" "IsCoinBase cb" "\<not> ContainsZerocoins cb" "tx_wf cb"
    "\<forall>tx \<in> set txs. tx_wf tx \<and> regular tx \<and> \<not> ContainsZerocoins tx" "distinct (map txid (cb # txs))"
proof -
  note l = CheckBlock_parts [OF check]
  obtain cb txs where v: "vtx block = cb # txs" using l(1) by (cases "vtx block") (auto simp: check_layout_def)
  have cb: "IsCoinBase cb" and rest: "\<not> list_ex IsCoinBase txs"
    using l(1) v by (auto simp: check_layout_def split: if_split_asm)
  have wf: "tx_wf tx" if "tx \<in> set (vtx block)" for tx
    using check_txs_all [OF l(2)] that CheckTransaction_wf ord by (auto simp: ordinary_block_def block_check_env_def)
  have zc: "\<not> ContainsZerocoins tx" if "tx \<in> set (vtx block)" for tx
    using ord that by (auto simp: ordinary_block_def list_all_iff)
  have "regular tx" if "tx \<in> set txs" for tx
    using zc [of tx] rest that v by (auto simp: regular_def list_ex_iff ContainsZerocoins_def)
  moreover have "distinct (map txid (cb # txs))" using ord v by (simp add: ordinary_block_def)
  ultimately show thesis using that [OF v cb] wf zc v by auto
qed

context coins_reader
begin

lemma DisconnectBlock_undoes:
  assumes check: "CheckBlock (cn_block E) block fCheckPOW fCheckMerkleRoot = Inr ()" and ord: "ordinary_block E block pindex"
    and l: "ledger_block E block pindex A = Some (cs, undos, A')" and wf: "utxos_wf A"
    and new: "\<forall>tx \<in> set (vtx block). A (txid tx) = None"
    and v: "cache_inv vinv absv known v" "cache_abs absv v = A'" "cache_best best v = phashBlock pindex"
    and acc: "cn_fVerifyingBlocks E \<or> EraseAccumulatorValues E (the (pprev pindex))"
  shows "\<exists>v'. DisconnectBlock E GetCoins GetBest block pindex (Some (drop 1 undos)) v = Some (Inr (True, v')) \<and>
    cache_inv vinv absv known v' \<and> restored {k. A' k = None} (int (nHeight pindex)) A (cache_abs absv v') \<and>
    hashBlock v' = phashBlock (cn_store E (the (pprev pindex)))"
proof -
  let ?N = "{k. A' k = None}"
  let ?h = "int (nHeight pindex)" and ?fs = "script_checks E pindex"
  obtain net where P: "cn_params E = Params net" using ord by (auto simp: ordinary_block_def)
  obtain prev where prev: "pprev pindex = Some prev" "?h \<noteq> 0" using ord by (auto simp: ordinary_block_def)
  have mat: "0 < nMaturity (cn_params E)" using max_money_le(2) P by simp
  obtain cb txs where b: "vtx block = cb # txs" "IsCoinBase cb" "\<not> ContainsZerocoins cb" "tx_wf cb"
    "\<forall>tx \<in> set txs. tx_wf tx \<and> regular tx \<and> \<not> ContainsZerocoins tx" "distinct (map txid (cb # txs))"
    by (rule checked_block_wf [OF check ord])
  obtain undo us cs1 A1 where u: "update_utxos A cb ?h = Some (undo, A1)"
    "ledger_loop E ?fs (block_flags E ?fs pindex) ?h txs cs1 A1 = Some (cs, us, A')" "undos = undo # us"
    using ledger_loop_Cons [OF l [unfolded ledger_block_def b(1)]] by metis
  have newcb: "A (txid cb) = None" using new b(1) by simp
  note p = update_utxos_parts [OF u(1) wf b(4) prev(2)]
  have ids: "txid tx \<noteq> txid cb" if "tx \<in> set txs" for tx using b(6) that by (auto simp: image_iff)
  have rest: "\<forall>tx \<in> set txs. tx_wf tx \<and> regular tx \<and> \<not> ContainsZerocoins tx \<and> A1 (txid tx) = None"
    using b(1,5) new p(2) ids by simp
  have d: "distinct (map txid txs)" using b(6) by simp
  have wf': "\<forall>tx \<in> set txs. tx_wf tx" using b(5) by simp
  have len: "length us = length txs" using ledger_loop_wf [OF u(2) p(1) wf' prev(2)] by simp
  obtain hb v0 where g: "cache_GetBestBlock GetBest v = (hb, v0)" by (cases "cache_GetBestBlock GetBest v")
  note r0 = read_best [OF v(1) g]
  have i0: "cache_inv vinv absv known v0" "restored ?N ?h A' (cache_abs absv v0)"
    using r0 v(2) restored_refl [of ?N A'] by simp_all
  have final: "k \<in> ?N" if "A' k = None" for k using that by simp
  obtain v1 where v1: "disconnect_loop E GetCoins ?h (rev (zip txs (map Some us))) True v0 = Some (Inr (True, v1))"
    "cache_inv vinv absv known v1" "restored ?N ?h A1 (cache_abs absv v1)"
    using disconnect_loop_undoes [OF u(2) p(1) rest d prev(2) mat i0 final, of True] by blast
  have gone: "k \<in> ?N" if "A k \<noteq> None" "A1 k = None" for k
  proof -
    have "k \<notin> txid ` set txs" using new b(1) that(1) by auto
    then show ?thesis using ledger_loop_wf [OF u(2) p(1) wf' prev(2)] that(2) by simp
  qed
  have cb: "old_stakes ?h A (vin cb)" "[] = undo" if "regular cb" using that b(2) by (simp_all add: regular_def)
  obtain v2 where v2: "disconnect_tx GetCoins v1 cb ?h [] True = Some (Inr (True, v2))" "cache_inv vinv absv known v2"
    "restored ?N ?h A (cache_abs absv v2)"
    using disconnect_tx_undoes [OF u(1) wf newcb cb(1) v1(2,3) cb(2) gone, of True] by blast
  have "disconnect_loop E GetCoins ?h [(cb, None)] True v1 = Some (Inr (True, v2))"
    using disconnect_loop_tx [OF b(3), of None] v2(1) b(2) by (simp add: regular_def)
  then have loop: "disconnect_loop E GetCoins ?h (rev (zip (vtx block) (None # map Some us))) True v0 = Some (Inr (True, v2))"
    using v1(1) by (simp add: b(1) disconnect_loop_append)
  let ?v = "SetBestBlock v2 (phashBlock (cn_store E prev))"
  have "hb = phashBlock pindex" using r0(2) v(3) by simp
  then have "DisconnectBlock E GetCoins GetBest block pindex (Some us) v = Some (Inr (True, ?v))"
    using g b(1) len loop prev(1) acc by (auto simp: DisconnectBlock_def)
  then show ?thesis using v2 prev(1) by (auto simp: u(3))
qed

end

lemma connect_finish_undo: "connect_finish E block pindex cs undos = Inr r \<Longrightarrow> cr_vtxundo r = drop 1 undos"
  by (auto simp: connect_finish_def Let_def split: if_split_asm)

lemma DisconnectTip_restores:
  assumes "tip_inv tip" "utxos_wf (tip_abs tip)"
    "ConnectTip_coins E block pindex tip fAlreadyChecked = Some (Inr (Some res), tip')"
    "CheckBlock (cn_block E) block fCheckPOW fCheckMerkleRoot = Inr ()" "ordinary_block E block pindex"
    "cn_fVerifyingBlocks E \<or> EraseAccumulatorValues E (the (pprev pindex))"
    "phashBlock (cn_store E (the (pprev pindex))) \<noteq> 0"
  shows "utxos_wf (tip_abs tip') \<and>
    (\<exists>tip''. DisconnectTip_coins E block pindex (Some (cr_vtxundo res)) tip' = Some (Some tip'') \<and> tip_inv tip'' \<and>
      tip_best tip'' = phashBlock (cn_store E (the (pprev pindex))) \<and>
      restored {k. tip_abs tip' k = None} (int (nHeight pindex)) (tip_abs tip) (tip_abs tip''))"
proof -
  have v0: "view_inv (new_cache tip)" using tip.new_cache_spec [OF assms(1)] by blast
  obtain v v' where v: "ConnectBlock E tip_GetCoins tip_GetBestBlock block pindex (new_cache tip) False fAlreadyChecked
      = Some (Inr (Some res), v)" "Flush cache_BatchWrite v = Some v'" "tip' = base v'"
    using assms(3) by (auto simp: ConnectTip_coins_def split: option.splits sum.splits prod.splits)
  obtain cs undos where l: "ledger_block E block pindex (tip_abs tip) = Some (cs, undos, view_abs v)"
    "connect_finish E block pindex cs undos = Inr res" "view_inv v" "hashBlock v = phashBlock pindex"
    "\<forall>tx \<in> set (vtx block). tip_abs tip (txid tx) = None"
    using tip.ConnectBlock_ledger(1) [OF v0 assms(5) checked_outputs_good [OF assms(4,5)] v(1)] by auto
  have nz: "hashBlock v \<noteq> 0" "int (nHeight pindex) \<noteq> 0" using l(4) assms(5) by (auto simp: ordinary_block_def)
  have t: "tip_inv tip'" "tip_abs tip' = view_abs v" "tip_best tip' = phashBlock pindex"
    using tip.Flush_spec [OF l(3) nz(1)] v(2,3) l(4) by (auto simp: cache_inv_def)
  have w: "view_inv (new_cache tip')" using tip.new_cache_spec [OF t(1)] by blast
  obtain u where u: "DisconnectBlock E tip_GetCoins tip_GetBestBlock block pindex (Some (drop 1 undos)) (new_cache tip') = Some (Inr (True, u))"
    "view_inv u" "restored {k. view_abs v k = None} (int (nHeight pindex)) (tip_abs tip) (view_abs u)"
    "hashBlock u = phashBlock (cn_store E (the (pprev pindex)))"
    using tip.DisconnectBlock_undoes [OF assms(4,5) l(1) assms(2) l(5) w _ _ assms(6)] t by auto
  obtain u' where u': "Flush cache_BatchWrite u = Some u'" "tip_inv (base u')" "tip_abs (base u') = view_abs u"
    "tip_best (base u') = hashBlock u"
    using tip.Flush_spec [OF u(2)] u(4) assms(7) by (auto simp: cache_inv_def)
  have "DisconnectTip_coins E block pindex (Some (cr_vtxundo res)) tip' = Some (Some (base u'))"
    using u(1) u'(1) connect_finish_undo [OF l(2)] by (simp add: DisconnectTip_coins_def)
  moreover have "utxos_wf (tip_abs tip')"
  proof -
    obtain cb txs where b: "vtx block = cb # txs" "tx_wf cb" "\<forall>tx \<in> set txs. tx_wf tx"
      using checked_block_wf [OF assms(4,5)] by metis
    then show ?thesis using ledger_loop_wf [OF l(1) [unfolded ledger_block_def] assms(2) _ nz(2)] t(2) by simp
  qed
  ultimately show ?thesis
    using u' u(3,4) unfolding t(2) by auto
qed

text \<open>C3:
  Disconnecting undoes connecting: when \<open>ConnectTip\<close> has accepted an ordinary, checked block,
  \<open>DisconnectTip\<close> with the undo records it wrote succeeds, sees no corruption, and brings back every
  coin of the old tip and the old best block, and so exactly the old unspent outputs. The one
  difference is exact: the coins that the block had spent completely lose their coinstake flag.
  Well-formed coins (no trailing spent outputs, a height, fewer than 2^32 outputs) stay so.\<close>

theorem disconnect_undoes_connect:
  assumes "tip_inv tip" "utxos_wf (tip_abs tip)"
    "ConnectTip_coins E block pindex tip fAlreadyChecked = Some (Inr (Some res), tip')"
    "CheckBlock (cn_block E) block fCheckPOW fCheckMerkleRoot = Inr ()" "ordinary_block E block pindex"
    "cn_fVerifyingBlocks E \<or> EraseAccumulatorValues E (the (pprev pindex))"
    "phashBlock (cn_store E (the (pprev pindex))) \<noteq> 0"
  shows "utxos_wf (tip_abs tip') \<and>
    (\<exists>tip''. DisconnectTip_coins E block pindex (Some (cr_vtxundo res)) tip' = Some (Some tip'') \<and> tip_inv tip'' \<and>
      tip_best tip'' = phashBlock (cn_store E (the (pprev pindex))) \<and>
      (\<forall>k. tip_abs tip'' k = map_option (\<lambda>c. if tip_abs tip' k = None then c\<lparr>fCoinStake := False\<rparr> else c) (tip_abs tip k)) \<and>
      unspent (tip_abs tip'') = unspent (tip_abs tip))"
proof -
  obtain tip'' where t: "utxos_wf (tip_abs tip')"
    "DisconnectTip_coins E block pindex (Some (cr_vtxundo res)) tip' = Some (Some tip'')" "tip_inv tip''"
    "tip_best tip'' = phashBlock (cn_store E (the (pprev pindex)))"
    "restored {k. tip_abs tip' k = None} (int (nHeight pindex)) (tip_abs tip) (tip_abs tip'')"
    using DisconnectTip_restores [OF assms] by blast
  then show ?thesis using restored_unspent [OF t(5)] restored_eq [OF t(5)] by auto
qed

section \<open>A coinstake that grows up in a reorganisation\<close>

text \<open>The node at height 22, where a coinstake of height 3 has just matured; block 10 spends it.\<close>

definition reorg_prev :: CBlockIndex where
  "reorg_prev = demo_prev\<lparr>nHeight := 22\<rparr>"

definition reorg_pindex :: CBlockIndex where
  "reorg_pindex = demo_pindex\<lparr>nHeight := 23\<rparr>"

definition reorg_cn :: connect_env where
  "reorg_cn = demo_cn\<lparr>cn_block := demo_block_env\<lparr>be_store := (\<lambda>p. reorg_prev)\<rparr>\<rparr>"

definition reorg_coin :: CCoins where
  "reorg_coin = \<lparr>fCoinBase = False, fCoinStake = True, cvout = [anyone 50], cHeight = 3, cVersion = 1\<rparr>"

definition reorg_db :: coins_db where
  "reorg_db = \<lparr>db_coins = [5 \<mapsto> reorg_coin], db_best = Some 9\<rparr>"

lemmas reorg_simps = reorg_cn_def reorg_pindex_def reorg_prev_def reorg_coin_def

lemma reorg_node: "tip_inv (new_cache reorg_db)" "tip_abs (new_cache reorg_db) = [5 \<mapsto> reorg_coin]" "tip_best (new_cache reorg_db) = 9"
  "utxos_wf [5 \<mapsto> reorg_coin]"
proof -
  have "db_inv reorg_db" by (simp add: db_inv_def reorg_db_def IsPruned_def CTxOut_IsNull_def anyone_def reorg_coin_def)
  then show "tip_inv (new_cache reorg_db)" using db.new_cache_spec by blast
qed (simp_all add: reorg_db_def db_best_hash_def fun_eq_iff utxos_wf_def coins_wf_def reorg_coin_def anyone_def
    pop_null_rev CTxOut_IsNull_def)

lemma reorg_checked: "CheckBlock (cn_block reorg_cn) pay_block False True = Inr ()"
  by (simp add: check_simps pay_block_def stake_block_def node_simps tx_simps size_simps reorg_simps
      demo_sigops [unfolded demo_tx_simps] pay_sigops [unfolded demo_tx_simps])

lemma reorg_ordinary: "ordinary_block reorg_cn pay_block reorg_pindex" "type_allowed (cn_params reorg_cn) pay_block reorg_pindex"
  using main_net by (simp_all add: ordinary_simps pay_block_def stake_block_def demo_cn_def demo_block_env_def demo_pindex_def
      demo_prev_def tx_simps reorg_simps) (simp add: main_params_def JULIAN_YEAR_SECONDS_def)

lemma reorg_flags: "block_flags reorg_cn True reorg_pindex = 517" "script_checks reorg_cn reorg_pindex"
  by (code_simp, simp add: script_checks_def GetTotalBlocksEstimate_def node_simps reorg_simps)

lemma reorg_ledger:
  "map_option (\<lambda>(cs, undos, A). (nFees cs, nValueIn cs, nValueOut cs, A 5))
     (ledger_block reorg_cn pay_block reorg_pindex [5 \<mapsto> reorg_coin]) = Some (10, 50, 5000000050, None)"
  unfolding ledger_block_def using reorg_flags
  by simp
    (simp add: pay_block_def stake_block_def ledger_simps good_simps tx_simps demo_scripts pay_sigops [unfolded demo_tx_simps]
      demo_sigops [unfolded demo_tx_simps] tx_sums_def add64_def sub64_def connect_start_def node_simps
      reorg_simps)

lemma reorg_finish:
  "nFees cs = 10 \<Longrightarrow> nValueOut cs = 5000000050 \<Longrightarrow> nValueIn cs = 50 \<Longrightarrow>
   \<exists>r. connect_finish reorg_cn pay_block reorg_pindex cs undos = Inr r"
  by (auto simp: connect_finish_def demo_cn_def demo_pindex_def demo_prev_def demo_block_env_def add64_def sub64_def reorg_simps
      GetBlockValue_def COIN_def main_params_def JULIAN_YEAR_SECONDS_def block_IsProofOfWork_def block_IsProofOfStake_def
      pay_block_def stake_block_def tx_simps IsBlockValueValid_def parent_height_def Let_def)

lemma reorg_parent: "phashBlock (cn_store reorg_cn (the (pprev reorg_pindex))) = 9"
  by (simp add: reorg_simps demo_prev_def)

lemma reorg_connects:
  "\<exists>r tip'. ConnectTip_coins reorg_cn pay_block reorg_pindex (new_cache reorg_db) True = Some (Inr (Some r), tip') \<and>
     tip_abs tip' 5 = None"
proof -
  obtain cs undos A where l: "ledger_block reorg_cn pay_block reorg_pindex [5 \<mapsto> reorg_coin] = Some (cs, undos, A)"
    "nFees cs = 10" "nValueIn cs = 50" "nValueOut cs = 5000000050" "A 5 = None"
    using reorg_ledger by auto
  obtain r where r: "connect_finish reorg_cn pay_block reorg_pindex cs undos = Inr r"
    using reorg_finish [of cs undos] l(2-4) by auto
  have fresh: "\<forall>tx \<in> set (vtx pay_block). [5 \<mapsto> reorg_coin] (txid tx) = None" by (simp add: pay_block_def demo_tx_simps)
  obtain tip' where "ConnectTip_coins reorg_cn pay_block reorg_pindex (new_cache reorg_db) True = Some (Inr (Some r), tip')"
    "tip_abs tip' = A"
    using ConnectTip_accepts [OF reorg_node(1) reorg_ordinary(1) reorg_checked _ r _ _ reorg_ordinary(2)] l(1) fresh reorg_parent
    unfolding reorg_node(2,3) by auto
  with l(5) show ?thesis by auto
qed

lemma reorg_erases: "cn_fVerifyingBlocks reorg_cn \<or> EraseAccumulatorValues reorg_cn (the (pprev reorg_pindex))"
  "phashBlock (cn_store reorg_cn (the (pprev reorg_pindex))) \<noteq> 0"
  by (simp_all add: reorg_parent) (simp add: reorg_simps demo_cn_def)

lemma reorg_wf: "utxos_wf (tip_abs (new_cache reorg_db))"
  unfolding reorg_node(2) by (rule reorg_node(4))

theorem disconnect_undoes_connect_witness:
  "\<exists>r tip' tip''. ConnectTip_coins reorg_cn pay_block reorg_pindex (new_cache reorg_db) True = Some (Inr (Some r), tip') \<and>
     DisconnectTip_coins reorg_cn pay_block reorg_pindex (Some (cr_vtxundo r)) tip' = Some (Some tip'') \<and>
     unspent (tip_abs tip'') = unspent [5 \<mapsto> reorg_coin]"
proof -
  obtain r tip' where c: "ConnectTip_coins reorg_cn pay_block reorg_pindex (new_cache reorg_db) True = Some (Inr (Some r), tip')"
    using reorg_connects by blast
  show ?thesis
    using disconnect_undoes_connect [OF reorg_node(1) reorg_wf c reorg_checked reorg_ordinary(1) reorg_erases] c
    unfolding reorg_node(2) by blast
qed

text \<open>A spend of the coinstake, checked on a fork whose last block 4 has height 18.\<close>

definition reorg_inputs :: inputs_env where
  "reorg_inputs = \<lparr>in_params = main_params, in_blockHeight = [4 \<mapsto> 18], in_script = (\<lambda>tx i. plain_env)\<rparr>"

definition reorg_spend :: CTransaction where
  "reorg_spend = demo_spend 78 [spend_of 5 0] [anyone 50]"

lemma reorg_check:
  assumes "tip_inv tip" "tip_abs tip 5 = Some (reorg_coin\<lparr>fCoinStake := stake\<rparr>)"
  shows "\<exists>res v. CheckInputs reorg_inputs db_GetCoins db_GetBestBlock (SetBestBlock tip 4) reorg_spend True 517 = Some (res, v) \<and>
    (res = Inr () \<longleftrightarrow> \<not> stake)"
proof -
  have reg: "regular reorg_spend" by (simp add: regular_def reorg_spend_def tx_simps)
  have out: "GetValueOut reorg_spend = Inr 50" by (simp add: GetValueOut_def reorg_spend_def demo_tx_simps add64_def)
  have h: "in_blockHeight reorg_inputs (tip_best (SetBestBlock tip 4)) = Some 18" by (simp add: reorg_inputs_def)
  have money: "0 \<le> nMaxMoneyOut (in_params reorg_inputs)" "nMaxMoneyOut (in_params reorg_inputs) < 2 ^ 63"
    by (simp_all add: reorg_inputs_def main_params_def)
  have "inputs_good reorg_inputs (tip_abs tip) (18 + 1) reorg_spend True 517 50 \<longleftrightarrow> \<not> stake"
    using assms(2) demo_scripts(1)
    by (simp add: good_simps reorg_spend_def tx_simps reorg_inputs_def reorg_coin_def CTxOut_IsNull_def main_params_def)
  with db.CheckInputs_utxos [OF _ reg h out money, of True 517] assms(1) show ?thesis by auto
qed

text \<open>C6:
  A reorganisation rejuvenates a coinstake: a node on main-net parameters connects a block that spends a
  matured coinstake and disconnects it again. Before, a transaction spending that coinstake on a
  shorter fork is refused as premature; afterwards, with the same best block and the same unspent
  outputs, it is accepted, because the coin is back without its coinstake flag.\<close>

theorem reorg_lifts_maturity:
  "\<exists>r tip' tip'' v e w. ConnectTip_coins reorg_cn pay_block reorg_pindex (new_cache reorg_db) True = Some (Inr (Some r), tip') \<and>
     DisconnectTip_coins reorg_cn pay_block reorg_pindex (Some (cr_vtxundo r)) tip' = Some (Some tip'') \<and>
     tip_best tip'' = tip_best (new_cache reorg_db) \<and> unspent (tip_abs tip'') = unspent (tip_abs (new_cache reorg_db)) \<and>
     CheckInputs reorg_inputs db_GetCoins db_GetBestBlock (SetBestBlock (new_cache reorg_db) 4) reorg_spend True 517 = Some (Inl e, v) \<and>
     CheckInputs reorg_inputs db_GetCoins db_GetBestBlock (SetBestBlock tip'' 4) reorg_spend True 517 = Some (Inr (), w)"
proof -
  obtain r tip' where c: "ConnectTip_coins reorg_cn pay_block reorg_pindex (new_cache reorg_db) True = Some (Inr (Some r), tip')"
    "tip_abs tip' 5 = None"
    using reorg_connects by blast
  obtain tip'' where d: "DisconnectTip_coins reorg_cn pay_block reorg_pindex (Some (cr_vtxundo r)) tip' = Some (Some tip'')"
    "tip_inv tip''" "tip_best tip'' = 9"
    "restored {k. tip_abs tip' k = None} (int (nHeight reorg_pindex)) (tip_abs (new_cache reorg_db)) (tip_abs tip'')"
    using DisconnectTip_restores [OF reorg_node(1) reorg_wf c(1) reorg_checked reorg_ordinary(1) reorg_erases]
    unfolding reorg_parent by blast
  have "tip_abs tip'' 5 = Some (reorg_coin\<lparr>fCoinStake := False\<rparr>)"
    unfolding restored_eq [OF d(4)] using c(2) unfolding reorg_node(2) by simp
  then obtain w where w: "CheckInputs reorg_inputs db_GetCoins db_GetBestBlock (SetBestBlock tip'' 4) reorg_spend True 517 = Some (Inr (), w)"
    using reorg_check [OF d(2), of False] by auto
  have "tip_abs (new_cache reorg_db) 5 = Some (reorg_coin\<lparr>fCoinStake := True\<rparr>)"
    unfolding reorg_node(2) by (simp add: reorg_coin_def)
  then obtain e v where e: "CheckInputs reorg_inputs db_GetCoins db_GetBestBlock (SetBestBlock (new_cache reorg_db) 4) reorg_spend True 517
      = Some (Inl e, v)"
    using reorg_check [OF reorg_node(1), of True] by (metis sumE old.unit.exhaust)
  show ?thesis using c(1) d w e restored_unspent [OF d(4)] reorg_node(3) by auto
qed

end
