(* ===== verification/Rejected.thy ===== *)
theory Rejected
  imports Reorg
begin

text \<open>
  What a failed validation leaves behind. The cache of a block reads the view under it, which may fill
  that view's own cache, and writes nothing to it: any property of the view that its two reads keep is
  kept by every operation of \<open>ConnectBlock\<close>, on every path, success or failure.
\<close>

section \<open>A view that is only read\<close>

locale base_reader =
  fixes get :: "'s getter" and getbest :: "'s \<Rightarrow> hash256 \<times> 's" and Q :: "'s \<Rightarrow> bool"
  assumes get: "get s k = (r, s') \<Longrightarrow> Q s \<Longrightarrow> Q s'"
    and getbest: "getbest s = (h, s') \<Longrightarrow> Q s \<Longrightarrow> Q s'"
begin

lemma read_base: "cache_GetCoins get v k = (r, v') \<Longrightarrow> Q (base v) \<Longrightarrow> Q (base v')"
  by (auto simp: cache_GetCoins_def FetchCoins_def Let_def split: option.splits prod.splits dest: get)

lemma best_base: "cache_GetBestBlock getbest v = (h, v') \<Longrightarrow> Q (base v) \<Longrightarrow> Q (base v')"
  by (auto simp: cache_GetBestBlock_def split: if_split_asm prod.splits dest: getbest)

lemma modify_base: "ModifyCoins get v k f = (r, v') \<Longrightarrow> Q (base v) \<Longrightarrow> Q (base v')"
  by (auto simp: ModifyCoins_def Let_def split: option.splits prod.splits if_split_asm dest: get)

lemma output_base: "GetOutputFor get v txin = Some (out, v') \<Longrightarrow> Q (base v) \<Longrightarrow> Q (base v')"
  by (auto simp: GetOutputFor_def split: option.splits prod.splits if_split_asm dest: read_base)

lemma have_loop_base: "have_inputs_loop get v ins = (b, v') \<Longrightarrow> Q (base v) \<Longrightarrow> Q (base v')"
proof (induction ins arbitrary: v)
  case (Cons txin ins)
  then show ?case by (auto split: option.splits prod.splits if_split_asm dest: read_base)
qed simp

lemma have_base: "HaveInputs get v tx = (b, v') \<Longrightarrow> Q (base v) \<Longrightarrow> Q (base v')"
  by (auto simp: HaveInputs_def split: if_split_asm dest: have_loop_base)

lemma value_loop_base: "value_in_loop get v ins n = Some (r, v') \<Longrightarrow> Q (base v) \<Longrightarrow> Q (base v')"
proof (induction ins arbitrary: v n)
  case (Cons txin ins)
  then show ?case by (auto split: option.splits prod.splits dest: output_base)
qed simp

lemma value_base: "GetValueIn get v tx = Some (r, v') \<Longrightarrow> Q (base v) \<Longrightarrow> Q (base v')"
  by (auto simp: GetValueIn_def split: if_split_asm dest: value_loop_base)

lemma p2sh_loop_base: "p2sh_sigops_loop get v ins n = Some (r, v') \<Longrightarrow> Q (base v) \<Longrightarrow> Q (base v')"
proof (induction ins arbitrary: v n)
  case (Cons txin ins)
  then show ?case by (auto split: option.splits prod.splits if_split_asm dest: output_base)
qed simp

lemma p2sh_base: "GetP2SHSigOpCount get v tx = Some (r, v') \<Longrightarrow> Q (base v) \<Longrightarrow> Q (base v')"
  by (auto simp: GetP2SHSigOpCount_def split: if_split_asm dest: p2sh_loop_base)

lemma values_base: "check_values_loop E get h v ins n = Some (r, v') \<Longrightarrow> Q (base v) \<Longrightarrow> Q (base v')"
proof (induction ins arbitrary: v n)
  case (Cons txin ins)
  then show ?case by (auto simp: Let_def split: option.splits prod.splits if_split_asm dest: read_base)
qed simp

lemma scripts_base: "check_scripts_loop E get v tx flags is = Some (r, v') \<Longrightarrow> Q (base v) \<Longrightarrow> Q (base v')"
proof (induction "is" arbitrary: v)
  case (Cons i "is")
  then show ?case by (auto split: option.splits prod.splits if_split_asm dest: read_base)
qed simp

lemma inputs_base: "CheckInputs E get getbest v tx fScriptChecks flags = Some (r, v') \<Longrightarrow> Q (base v) \<Longrightarrow> Q (base v')"
  by (auto simp: CheckInputs_def split: if_split_asm option.splits prod.splits sum.splits
      dest: have_base best_base values_base scripts_base)

lemma spend_base: "spend_loop get v ins = Some (r, v') \<Longrightarrow> Q (base v) \<Longrightarrow> Q (base v')"
proof (induction ins arbitrary: v r)
  case (Cons txin ins)
  then show ?case by (auto split: option.splits prod.splits dest: modify_base)
qed simp

lemma update_base:
  assumes "UpdateCoins get tx v h = Some (r, v')" "Q (base v)"
  shows "Q (base v')"
proof -
  obtain v1 where "v' = snd (ModifyCoins get v1 (txid tx) (\<lambda>c. ((), FromTx tx h)))" "Q (base v1)"
    using assms by (auto simp: UpdateCoins_def split: if_split_asm option.splits prod.splits dest: spend_base)
  then show ?thesis using modify_base by (metis prod.collapse)
qed

lemma connect_inputs_base:
  "connect_inputs E get getbest fs flags h tx cs v = Some (r, v') \<Longrightarrow> Q (base v) \<Longrightarrow> Q (base v')"
  by (auto simp: connect_inputs_def Let_def split: if_split_asm option.splits prod.splits sum.splits
      dest: have_base p2sh_base value_base inputs_base)

lemma connect_tx_base:
  "connect_tx E get getbest fs flags block h tx cs v = Some (r, v') \<Longrightarrow> Q (base v) \<Longrightarrow> Q (base v')"
  by (auto simp: connect_tx_def Let_def split: if_split_asm dest: connect_inputs_base)

lemma connect_loop_base:
  "connect_loop E get getbest fs flags block h txs cs v = Some (r, v') \<Longrightarrow> Q (base v) \<Longrightarrow> Q (base v')"
proof (induction txs arbitrary: cs v r)
  case (Cons tx txs)
  from Cons.prems show ?case
    by (auto split: option.splits prod.splits sum.splits dest!: connect_tx_base update_base dest: Cons.IH)
qed simp

lemma bip30_base: "bip30_loop get txs v = (b, v') \<Longrightarrow> Q (base v) \<Longrightarrow> Q (base v')"
proof (induction txs arbitrary: v)
  case (Cons tx txs)
  then show ?case by (auto split: option.splits prod.splits if_split_asm dest: read_base)
qed simp

lemma ConnectBlock_base:
  "ConnectBlock E get getbest block pindex v fJustCheck fAlreadyChecked = Some (r, v') \<Longrightarrow> Q (base v) \<Longrightarrow> Q (base v')"
  by (auto simp: ConnectBlock_def Let_def split: if_split_asm option.splits prod.splits sum.splits
      dest!: best_base bip30_base connect_loop_base)

end

section \<open>The tip under a block\<close>

interpretation kept: base_reader tip_GetCoins tip_GetBestBlock "\<lambda>t. tip_inv t \<and> tip_abs t = A \<and> tip_best t = h"
  for A h
  by unfold_locales (use tip.GetCoins tip.GetBest in metis)+

text \<open>C5:
  A rejected block leaves no trace: whatever check of \<open>ConnectBlock\<close> fails, on whatever block, after
  however many of its transactions were applied to the block's own cache, \<open>pcoinsTip\<close> shows the same
  coins and the same best block as before and is still consistent with the database.\<close>

theorem rejected_block_leaves_tip:
  assumes "tip_inv tip" "ConnectTip_coins E block pindex tip fAlreadyChecked = Some (Inl e, tip')"
  shows "tip_inv tip' \<and> tip_abs tip' = tip_abs tip \<and> tip_best tip' = tip_best tip"
proof -
  obtain v where "ConnectBlock E tip_GetCoins tip_GetBestBlock block pindex (new_cache tip) False fAlreadyChecked = Some (Inl e, v)"
    "tip' = base v"
    using assms(2) by (auto simp: ConnectTip_coins_def split: option.splits prod.splits sum.splits)
  with kept.ConnectBlock_base [OF this(1), of "tip_abs tip" "tip_best tip"] assms(1) show ?thesis by simp
qed

text \<open>A block with a transaction whose id still has coins.\<close>

definition overwriting_block :: CBlock where
  "overwriting_block = pay_block\<lparr>vtx := [demo_coinbase 5000000010, demo_spend 5 [spend_of 5 0] [anyone 40]]\<rparr>"

lemma overwriting_rejected:
  "\<exists>tip'. ConnectTip_coins demo_cn overwriting_block demo_pindex (new_cache stake_db) True =
     Some (Inl (100, ''bad-txns-BIP30''), tip')"
proof -
  let ?v = "new_cache (new_cache stake_db)"
  have inv: "view_inv ?v" using tip.new_cache_spec [OF stake_node(1)] by blast
  obtain hb v1 where g: "cache_GetBestBlock tip_GetBestBlock ?v = (hb, v1)" by (cases "cache_GetBestBlock tip_GetBestBlock ?v")
  obtain fresh v2 where f: "bip30_loop tip_GetCoins (vtx overwriting_block) v1 = (fresh, v2)"
    by (cases "bip30_loop tip_GetCoins (vtx overwriting_block) v1")
  have hb: "hb = phashBlock (cn_store demo_cn 1)" and i1: "view_inv v1" "view_abs v1 = stake_utxos"
    using tip.read_best [OF inv g] stake_node(2,3) by (simp_all add: demo_cn_def demo_block_env_def demo_prev_def)
  have "\<not> fresh"
    using tip.bip30_fresh [OF i1(1) f] unfolding i1(2) by (auto simp: overwriting_block_def demo_tx_simps stake_utxos_def)
  moreover have "\<not> block_IsProofOfStake overwriting_block" "blk_hash overwriting_block \<noteq> cn_genesis demo_cn"
    by (simp_all add: block_IsProofOfStake_def overwriting_block_def pay_block_def stake_block_def demo_tx_simps type_simps demo_cn_def)
  moreover have "int (nHeight demo_pindex) \<le> nLastPOWBlock (cn_params demo_cn)" "EnforceBIP30 demo_pindex" "pprev demo_pindex = Some 1"
    by (simp_all add: node_simps EnforceBIP30_def JULIAN_YEAR_SECONDS_def)
  ultimately have "ConnectBlock demo_cn tip_GetCoins tip_GetBestBlock overwriting_block demo_pindex ?v False True =
      Some (Inl (100, ''bad-txns-BIP30''), v2)"
    using g f hb by (simp add: ConnectBlock_def block_IsProofOfWork_def)
  then show ?thesis by (simp add: ConnectTip_coins_def)
qed

theorem rejected_block_leaves_tip_witness:
  "\<exists>tip'. ConnectTip_coins demo_cn overwriting_block demo_pindex (new_cache stake_db) True =
       Some (Inl (100, ''bad-txns-BIP30''), tip') \<and> tip_abs tip' = stake_utxos \<and> tip_best tip' = 9"
proof -
  obtain tip' where t: "ConnectTip_coins demo_cn overwriting_block demo_pindex (new_cache stake_db) True =
      Some (Inl (100, ''bad-txns-BIP30''), tip')"
    using overwriting_rejected by blast
  show ?thesis using rejected_block_leaves_tip [OF stake_node(1) t] t unfolding stake_node(2,3) by blast
qed

end
