(* ===== verification/Chain.thy ===== *)
theory Chain
  imports BlockIndex UintArith "HOL-Library.Monad_Syntax"
begin

text \<open>
  The active chain \<open>CChain\<close> of \<open>src/src/chain.h\<close> and \<open>src/src/chain.cpp\<close>: a vector indexed by
  height of pointers into the block tree, the update of its tip, block locators, forks
  and the last common ancestor of \<open>src/src/main.cpp\<close>, and the trust score of a block. The
  loops are \<open>partial_function\<close>s: \<open>None\<close> is a loop that does not end, a NULL dereference, an
  access outside the vector or a failed \<open>assert\<close>. \<open>path\<close> is the abstract chain: the blocks
  from genesis to a tip.
\<close>

type_synonym cchain = "ptr option list"

definition Genesis :: "cchain \<Rightarrow> ptr option" where
  "Genesis v = (if 0 < length v then v ! 0 else None)"

partial_function (option) Tip_walk :: "store \<Rightarrow> ptr option \<Rightarrow> ptr option option" where
  "Tip_walk st pindex =
     (case pindex of
        None \<Rightarrow> Some None
      | Some p \<Rightarrow> if pprev (st p) \<noteq> None \<and> \<not> IsProofOfStake (st p) then Tip_walk st (pprev (st p))
                  else Some pindex)"

definition Tip :: "store \<Rightarrow> cchain \<Rightarrow> bool \<Rightarrow> ptr option option" where
  "Tip st v fProofOfStake =
     (if length v < 1 then Some None
      else let pindex = v ! (length v - 1)
           in if fProofOfStake then Tip_walk st pindex else Some pindex)"

definition chain_at :: "cchain \<Rightarrow> int \<Rightarrow> ptr option" where
  "chain_at v h = (if h < 0 \<or> int (length v) \<le> h then None else v ! nat h)"

text \<open>\<open>operator==\<close> of two chains reads their last slots, which two empty chains do not have.\<close>

definition chain_eq :: "cchain \<Rightarrow> cchain \<Rightarrow> bool option" where
  "chain_eq a b =
     (if length a \<noteq> length b then Some False
      else if a = [] then None else Some (last a = last b))"

definition Contains :: "store \<Rightarrow> cchain \<Rightarrow> ptr \<Rightarrow> bool" where
  "Contains st v p \<longleftrightarrow> chain_at v (int (nHeight (st p))) = Some p"

definition Next :: "store \<Rightarrow> cchain \<Rightarrow> ptr \<Rightarrow> ptr option" where
  "Next st v p = (if Contains st v p then chain_at v (int (nHeight (st p)) + 1) else None)"

definition Height :: "cchain \<Rightarrow> int" where
  "Height v = int (length v) - 1"

definition resize :: "nat \<Rightarrow> cchain \<Rightarrow> cchain" where
  "resize n v = take n v @ replicate (n - length v) None"

partial_function (option) SetTip_loop :: "store \<Rightarrow> ptr option \<Rightarrow> cchain \<Rightarrow> cchain option" where
  "SetTip_loop st pindex v =
     (case pindex of
        None \<Rightarrow> Some v
      | Some p \<Rightarrow>
          if nHeight (st p) < length v then
            if v ! nHeight (st p) \<noteq> Some p
            then SetTip_loop st (pprev (st p)) (v[nHeight (st p) := Some p])
            else Some v
          else None)"

definition SetTip :: "store \<Rightarrow> cchain \<Rightarrow> ptr option \<Rightarrow> cchain option" where
  "SetTip st v pindex =
     (case pindex of
        None \<Rightarrow> Some []
      | Some p \<Rightarrow> SetTip_loop st (Some p) (resize (nHeight (st p) + 1) v))"

partial_function (option) GetLocator_loop ::
  "store \<Rightarrow> cchain \<Rightarrow> ptr option \<Rightarrow> nat \<Rightarrow> hash256 list \<Rightarrow> hash256 list option" where
  "GetLocator_loop st v pindex nStep vHave =
     (case pindex of
        None \<Rightarrow> Some vHave
      | Some p \<Rightarrow>
          if nHeight (st p) = 0 then Some (vHave @ [phashBlock (st p)])
          else
            Option.bind
              (if Contains st v p
               then Some (chain_at v (max (int (nHeight (st p)) - int nStep) 0))
               else GetAncestor st p (max (int (nHeight (st p)) - int nStep) 0))
              (\<lambda>next. GetLocator_loop st v next
                 (if 10 < length (vHave @ [phashBlock (st p)]) then nStep * 2 else nStep)
                 (vHave @ [phashBlock (st p)])))"

definition GetLocator :: "store \<Rightarrow> cchain \<Rightarrow> ptr option \<Rightarrow> hash256 list option" where
  "GetLocator st v pindex =
     (case pindex of
        None \<Rightarrow> Option.bind (Tip st v False) (\<lambda>tip. GetLocator_loop st v tip 1 [])
      | Some p \<Rightarrow> GetLocator_loop st v (Some p) 1 [])"

partial_function (option) FindFork_loop :: "store \<Rightarrow> cchain \<Rightarrow> ptr option \<Rightarrow> ptr option option" where
  "FindFork_loop st v pindex =
     (case pindex of
        None \<Rightarrow> Some None
      | Some p \<Rightarrow> if \<not> Contains st v p then FindFork_loop st v (pprev (st p)) else Some pindex)"

definition FindFork :: "store \<Rightarrow> cchain \<Rightarrow> ptr \<Rightarrow> ptr option option" where
  "FindFork st v p =
     Option.bind (if Height v < int (nHeight (st p)) then GetAncestor st p (Height v) else Some (Some p))
       (FindFork_loop st v)"

fun FindForkInGlobalIndex ::
  "store \<Rightarrow> (hash256 \<Rightarrow> ptr option) \<Rightarrow> cchain \<Rightarrow> hash256 list \<Rightarrow> ptr option" where
  "FindForkInGlobalIndex st mapBlockIndex v [] = Genesis v"
| "FindForkInGlobalIndex st mapBlockIndex v (h # vHave) =
     (case mapBlockIndex h of
        None \<Rightarrow> FindForkInGlobalIndex st mapBlockIndex v vHave
      | Some p \<Rightarrow> if Contains st v p then Some p
                  else FindForkInGlobalIndex st mapBlockIndex v vHave)"

partial_function (option) LCA_loop ::
  "store \<Rightarrow> ptr option \<Rightarrow> ptr option \<Rightarrow> (ptr option \<times> ptr option) option" where
  "LCA_loop st pa pb =
     (case pa of
        None \<Rightarrow> Some (pa, pb)
      | Some a \<Rightarrow>
          (case pb of
             None \<Rightarrow> Some (pa, pb)
           | Some b \<Rightarrow> if a \<noteq> b then LCA_loop st (pprev (st a)) (pprev (st b)) else Some (pa, pb)))"

definition LastCommonAncestor :: "store \<Rightarrow> ptr \<Rightarrow> ptr \<Rightarrow> ptr option option" where
  "LastCommonAncestor st a b = do {
     pa \<leftarrow> (if nHeight (st b) < nHeight (st a)
            then GetAncestor st a (int (nHeight (st b))) else Some (Some a));
     pb \<leftarrow> (if nHeight (st a) < nHeight (st b)
            then GetAncestor st b (int (nHeight (st a))) else Some (Some b));
     (pa, pb) \<leftarrow> LCA_loop st pa pb;
     (if pa = pb then Some pa else None) }"

text \<open>
  The trust of one block. \<open>uint256 / uint256\<close> throws on a zero divisor, so the quotients are
  \<open>uint_error + base_uint\<close>.
\<close>

definition GetBlockTrust :: "CBlockIndex \<Rightarrow> uint_error + base_uint" where
  "GetBlockTrust b =
     (let (bnTarget, _, _) = SetCompact (nBits b);
          one = bu_of_uint64 8 1
      in if bu_CompareTo bnTarget (bu_of_uint64 8 0) \<le> 0 then Inr (bu_of_uint64 8 0)
         else if IsProofOfStake b then bu_div (bu_shl one 256) (bu_add bnTarget one)
         else (case bu_div (bu_shr (bu_not (bu_of_uint64 8 0)) 20) (bu_add bnTarget one) of
                 Inl e \<Rightarrow> Inl e
               | Inr bnPoWTrust \<Rightarrow> Inr (if 0 < bu_CompareTo bnPoWTrust one then bnPoWTrust else one)))"

section \<open>Paths\<close>

definition path :: "store \<Rightarrow> ptr \<Rightarrow> cchain" where
  "path st p = map (\<lambda>h. climb st (nHeight (st p) - h) p) [0..<Suc (nHeight (st p))]"

text \<open>The invariant of \<open>chainActive\<close>: empty, or the whole path to a block of the tree.\<close>

definition chain_ok :: "store \<Rightarrow> ptr set \<Rightarrow> cchain \<Rightarrow> bool" where
  "chain_ok st S v \<longleftrightarrow> v = [] \<or> (\<exists>p \<in> S. v = path st p)"

lemma length_path [simp]: "length (path st p) = Suc (nHeight (st p))"
  by (simp add: path_def)

lemma path_nth: "h \<le> nHeight (st p) \<Longrightarrow> path st p ! h = climb st (nHeight (st p) - h) p"
  by (simp add: path_def del: upt_Suc)

lemma path_tip: "path st p ! nHeight (st p) = Some p"
  by (simp add: path_nth)

lemma climb_le_trans:
  assumes wf: "wf_tree st S" and p: "p \<in> S" and c: "climb st m p = Some q" "m \<le> nHeight (st p)"
  shows "q \<in> S" "nHeight (st q) = nHeight (st p) - m"
  using climb_total [OF wf p c(2)] c(1) by auto

lemma path_prefix:
  assumes wf: "wf_tree st S" and p: "p \<in> S" and h: "h \<le> nHeight (st p)" and q: "path st p ! h = Some q"
    and k: "k \<le> h"
  shows "path st p ! k = climb st (h - k) q"
proof -
  have c: "climb st (nHeight (st p) - h) p = Some q" using q h by (simp add: path_nth)
  have "nHeight (st p) - k = (nHeight (st p) - h) + (h - k)" using h k by simp
  then show ?thesis using climb_add [OF c, of "h - k"] h k by (simp add: path_nth)
qed

lemma path_block:
  assumes wf: "wf_tree st S" and p: "p \<in> S" and h: "h \<le> nHeight (st p)"
  obtains q where "q \<in> S" "nHeight (st q) = h" "path st p ! h = Some q"
  using climb_total [OF wf p, of "nHeight (st p) - h"] h by (auto simp: path_nth)

lemma chain_at_path: "chain_at (path st p) (int h) = (if h \<le> nHeight (st p) then climb st (nHeight (st p) - h) p else None)"
  by (simp add: chain_at_def path_nth)

text \<open>Being in the chain of \<open>t\<close> is being an ancestor of \<open>t\<close>.\<close>

lemma Contains_path:
  assumes wf: "wf_tree st S" and t: "t \<in> S"
  shows "Contains st (path st t) q \<longleftrightarrow> (\<exists>n \<le> nHeight (st t). climb st n t = Some q)"
proof
  assume "Contains st (path st t) q"
  then show "\<exists>n \<le> nHeight (st t). climb st n t = Some q"
    by (auto simp: Contains_def chain_at_path split: if_splits intro: exI [of _ "nHeight (st t) - nHeight (st q)"])
next
  assume "\<exists>n \<le> nHeight (st t). climb st n t = Some q"
  then obtain n where n: "n \<le> nHeight (st t)" "climb st n t = Some q" by blast
  then have "nHeight (st q) = nHeight (st t) - n" using climb_le_trans [OF wf t n(2,1)] by simp
  then show "Contains st (path st t) q" using n by (simp only: Contains_def chain_at_path) simp
qed

text \<open>An ancestor of a contained block is contained; the slots below it are its ancestors.\<close>

lemma Contains_prev:
  assumes ok: "chain_ok st S v" and wf: "wf_tree st S" and c: "Contains st v q" and k: "k \<le> nHeight (st q)"
  shows "chain_at v (int k) = climb st (nHeight (st q) - k) q"
proof -
  from ok c obtain t where t: "t \<in> S" "v = path st t" by (auto simp: chain_ok_def Contains_def chain_at_def)
  have h: "nHeight (st q) \<le> nHeight (st t)" "path st t ! nHeight (st q) = Some q"
    using c t by (auto simp: Contains_def chain_at_def split: if_splits)
  from path_prefix [OF wf t(1) h k] h(1) k t(2) show ?thesis by (simp add: chain_at_def)
qed

lemma Contains_climb:
  assumes ok: "chain_ok st S v" and wf: "wf_tree st S" and q: "q \<in> S" "Contains st v q"
    and c: "climb st n q = Some r" "n \<le> nHeight (st q)"
  shows "Contains st v r"
  using Contains_prev [OF ok wf q(2), of "nHeight (st q) - n"] climb_le_trans [OF wf q(1) c] c
  by (simp add: Contains_def)

section \<open>Setting the tip\<close>

lemma length_resize [simp]: "length (resize n v) = n"
  by (simp add: resize_def min_def)

lemma resize_nth: "h < n \<Longrightarrow> resize n v ! h = (if h < length v then v ! h else None)"
  by (simp add: resize_def nth_append min_def)

lemma SetTip_loop_path:
  assumes wf: "wf_tree st S" and p: "p \<in> S" and ok: "chain_ok st S v0"
  shows "q \<in> S \<Longrightarrow> climb st (nHeight (st p) - nHeight (st q)) p = Some q \<Longrightarrow>
    nHeight (st q) \<le> nHeight (st p) \<Longrightarrow> length v = Suc (nHeight (st p)) \<Longrightarrow>
    (\<And>h. h \<le> nHeight (st q) \<Longrightarrow> v ! h = (if h < length v0 then v0 ! h else None)) \<Longrightarrow>
    (\<And>h. nHeight (st q) < h \<Longrightarrow> h \<le> nHeight (st p) \<Longrightarrow> v ! h = path st p ! h) \<Longrightarrow>
    SetTip_loop st (Some q) v = Some (path st p)"
proof (induction "nHeight (st q)" arbitrary: q v rule: less_induct)
  case less
  note prems = less.prems
  have pq: "path st p ! nHeight (st q) = Some q" using prems(2,3) by (simp add: path_nth)
  show ?case
  proof (cases "v ! nHeight (st q) = Some q")
    case True
    then have c0: "nHeight (st q) < length v0" "v0 ! nHeight (st q) = Some q"
      using prems(5) [OF le_refl] by (auto split: if_splits)
    then have cont: "Contains st v0 q" by (simp add: Contains_def chain_at_def)
    have "v ! h = path st p ! h" if h: "h < length v" for h
    proof (cases "h \<le> nHeight (st q)")
      case True
      have "v0 ! h = climb st (nHeight (st q) - h) q"
        using Contains_prev [OF ok wf cont True] c0(1) True by (simp add: chain_at_def split: if_splits)
      then show ?thesis
        using prems(5) [OF True] path_prefix [OF wf p prems(3) pq True] c0(1) True by simp
    qed (use prems(4,6) h in simp)
    then have "v = path st p" using prems(4) by (intro nth_equalityI) simp_all
    then show ?thesis using True prems(3,4) by (subst SetTip_loop.simps) simp
  next
    case False
    let ?v = "v[nHeight (st q) := Some q]"
    have step: "SetTip_loop st (Some q) v = SetTip_loop st (pprev (st q)) ?v"
      using False prems(3,4) by (subst SetTip_loop.simps) simp
    show ?thesis
    proof (cases "pprev (st q)")
      case None
      then have h0: "nHeight (st q) = 0" using wf_treeD(1) [OF wf prems(1)] by simp
      have "?v = path st p"
        using prems(4,6) pq h0 by (intro nth_equalityI) (auto simp: nth_list_update)
      then show ?thesis unfolding step None by (subst SetTip_loop.simps) simp
    next
      case (Some r)
      have r: "r \<in> S" "nHeight (st q) = Suc (nHeight (st r))" using wf_treeD(2) [OF wf prems(1) Some] by simp_all
      have e: "nHeight (st p) - nHeight (st r) = Suc (nHeight (st p) - nHeight (st q))" using r(2) prems(3) by simp
      have c: "climb st (nHeight (st p) - nHeight (st r)) p = Some r"
        unfolding e using climb_Suc_prev [OF prems(2)] Some by simp
      have "SetTip_loop st (Some r) ?v = Some (path st p)"
      proof (rule less.hyps [OF _ r(1) c])
        show "?v ! h = path st p ! h" if "nHeight (st r) < h" "h \<le> nHeight (st p)" for h
          using that prems(3,4,6) pq r(2) by (cases "h = nHeight (st q)") simp_all
        show "?v ! h = (if h < length v0 then v0 ! h else None)" if "h \<le> nHeight (st r)" for h
          using that prems(5) [of h] r(2) by simp
      qed (use prems(3,4) r(2) in simp_all)
      then show ?thesis unfolding step Some .
    qed
  qed
qed

lemma SetTip_path:
  assumes "wf_tree st S" "chain_ok st S v" "p \<in> S"
  shows "SetTip st v (Some p) = Some (path st p)"
  unfolding SetTip_def option.case
  by (rule SetTip_loop_path [OF assms(1,3,2,3)]) (simp_all add: resize_nth)

section \<open>Forks\<close>

text \<open>\<open>r\<close> is the last block on the way from \<open>p\<close> to genesis that is in the chain, or there is none.\<close>

definition is_fork :: "store \<Rightarrow> cchain \<Rightarrow> ptr \<Rightarrow> ptr option \<Rightarrow> bool" where
  "is_fork st v p r =
    (case r of
       None \<Rightarrow> \<forall>n \<le> nHeight (st p). \<forall>q. climb st n p = Some q \<longrightarrow> \<not> Contains st v q
     | Some f \<Rightarrow> \<exists>n \<le> nHeight (st p). climb st n p = Some f \<and> Contains st v f \<and>
         (\<forall>m < n. \<forall>q. climb st m p = Some q \<longrightarrow> \<not> Contains st v q))"

lemma FindFork_loop_spec:
  assumes wf: "wf_tree st S" and ok: "chain_ok st S v"
  shows "p \<in> S \<Longrightarrow> \<exists>r. FindFork_loop st v (Some p) = Some r \<and> is_fork st v p r"
  unfolding is_fork_def
proof (induction "nHeight (st p)" arbitrary: p)
  case 0
  have none: "pprev (st p) = None"
    using wf_treeD(2) [OF wf 0(2)] 0(1) by (cases "pprev (st p)") auto
  show ?case
  proof (cases "Contains st v p")
    case True
    then show ?thesis by (subst FindFork_loop.simps) (auto intro: exI [of _ 0])
  next
    case False
    then have "FindFork_loop st v (Some p) = Some None"
      using none by (subst FindFork_loop.simps) (simp add: FindFork_loop.simps)
    then show ?thesis using False 0(1) by simp
  qed
next
  case (Suc k)
  show ?case
  proof (cases "Contains st v p")
    case True
    then show ?thesis by (subst FindFork_loop.simps) (auto intro: exI [of _ 0])
  next
    case False
    obtain q where q: "pprev (st p) = Some q" using wf_treeD(1) [OF wf Suc.prems] Suc.hyps(2) by fastforce
    have qS: "q \<in> S" "k = nHeight (st q)" using wf_treeD(2) [OF wf Suc.prems q] Suc.hyps(2) by simp_all
    have step: "FindFork_loop st v (Some p) = FindFork_loop st v (Some q)"
      using False q by (subst FindFork_loop.simps) simp
    obtain r where r: "FindFork_loop st v (Some q) = Some r"
      and spec: "case r of
         None \<Rightarrow> \<forall>n \<le> nHeight (st q). \<forall>x. climb st n q = Some x \<longrightarrow> \<not> Contains st v x
       | Some f \<Rightarrow> \<exists>n \<le> nHeight (st q). climb st n q = Some f \<and> Contains st v f \<and>
           (\<forall>m < n. \<forall>x. climb st m q = Some x \<longrightarrow> \<not> Contains st v x)"
      using Suc.hyps(1) [OF qS(2) qS(1)] by blast
    have up: "\<not> Contains st v x"
      if "climb st m p = Some x" "\<forall>j. m = Suc j \<longrightarrow> climb st j q = Some x \<longrightarrow> \<not> Contains st v x" for m x
      using that False q by (cases m) simp_all
    show ?thesis
    proof (cases r)
      case None
      then have below: "\<forall>n \<le> k. \<forall>x. climb st n q = Some x \<longrightarrow> \<not> Contains st v x" using spec qS(2) by simp
      have "\<not> Contains st v x" if "n \<le> nHeight (st p)" "climb st n p = Some x" for n x
      proof -
        have "\<forall>j. n = Suc j \<longrightarrow> climb st j q = Some x \<longrightarrow> \<not> Contains st v x"
          using below that(1) unfolding Suc.hyps(2) [symmetric] by auto
        then show ?thesis by (rule up [OF that(2)])
      qed
      then show ?thesis using step r None by simp
    next
      case (Some f)
      with spec obtain n where n: "n \<le> k" "climb st n q = Some f" "Contains st v f"
        "\<forall>m < n. \<forall>x. climb st m q = Some x \<longrightarrow> \<not> Contains st v x" using qS(2) by auto
      have "\<not> Contains st v x" if "m < Suc n" "climb st m p = Some x" for m x
      proof -
        have "\<forall>j. m = Suc j \<longrightarrow> climb st j q = Some x \<longrightarrow> \<not> Contains st v x" using n(4) that(1) by auto
        then show ?thesis by (rule up [OF that(2)])
      qed
      moreover have "climb st (Suc n) p = Some f" using n(2) q by simp
      ultimately show ?thesis
        using n(1,3) Some step r Suc.hyps(2) by (intro exI [of _ r]) (auto intro: exI [of _ "Suc n"])
    qed
  qed
qed

lemma Contains_le_Height: "Contains st v q \<Longrightarrow> int (nHeight (st q)) \<le> Height v"
  by (simp add: Contains_def chain_at_def Height_def split: if_splits)

lemma FindFork_spec:
  assumes wf: "wf_tree st S" and ok: "chain_ok st S v" and p: "p \<in> S"
  shows "\<exists>r. FindFork st v p = Some r \<and> is_fork st v p r"
proof (cases "Height v < int (nHeight (st p))")
  case False
  then show ?thesis using FindFork_loop_spec [OF wf ok p] by (simp add: FindFork_def)
next
  case high: True
  show ?thesis
  proof (cases "v = []")
    case True
    then have "FindFork st v p = Some None"
      using high by (simp add: FindFork_def GetAncestor_def Height_def FindFork_loop.simps)
    then show ?thesis using True by (simp add: is_fork_def Contains_def chain_at_def)
  next
    case False
    define d where "d = nHeight (st p) - (length v - 1)"
    have "length v \<le> nHeight (st p)" using high by (simp add: Height_def)
    then have d: "d \<le> nHeight (st p)" "0 < d" using False by (auto simp: d_def length_greater_0_conv [symmetric] simp del: length_greater_0_conv)
    obtain s where s: "s \<in> S" "climb st d p = Some s" "nHeight (st s) = nHeight (st p) - d"
      using climb_total [OF wf p d(1)] by blast
    have "GetAncestor st p (Height v) = Some (Some s)"
      using GetAncestor_climb [OF wf p, of "Height v"] high False s(2)
      by (simp add: Height_def d_def nat_minus_as_int [symmetric] nat_diff_distrib')
    then have ff: "FindFork st v p = FindFork_loop st v (Some s)" using high by (simp add: FindFork_def)
    have low: "\<not> Contains st v x" if "m < d" "climb st m p = Some x" for m x
      using Contains_le_Height [of st v x] climb_le_trans(2) [OF wf p that(2)] that(1) d high False
      by (auto simp: Height_def d_def)
    have off: "climb st m p = climb st (m - d) s" if "d \<le> m" for m
      using climb_add [OF s(2), of "m - d"] that by simp
    obtain r where r: "FindFork_loop st v (Some s) = Some r"
      and spec: "case r of
         None \<Rightarrow> \<forall>n \<le> nHeight (st s). \<forall>x. climb st n s = Some x \<longrightarrow> \<not> Contains st v x
       | Some f \<Rightarrow> \<exists>n \<le> nHeight (st s). climb st n s = Some f \<and> Contains st v f \<and>
           (\<forall>m < n. \<forall>x. climb st m s = Some x \<longrightarrow> \<not> Contains st v x)"
      using FindFork_loop_spec [OF wf ok s(1)] unfolding is_fork_def by blast
    show ?thesis
    proof (cases r)
      case None
      have "\<not> Contains st v x" if "n \<le> nHeight (st p)" "climb st n p = Some x" for n x
      proof (cases "n < d")
        case False
        have "\<forall>n \<le> nHeight (st s). \<forall>x. climb st n s = Some x \<longrightarrow> \<not> Contains st v x" using spec None by simp
        moreover have "climb st (n - d) s = Some x" "n - d \<le> nHeight (st s)"
          using off [of n] False that s(3) by simp_all
        ultimately show ?thesis by blast
      qed (use low that in blast)
      then show ?thesis using ff r None by (simp add: is_fork_def)
    next
      case (Some f)
      then obtain n where n: "n \<le> nHeight (st s)" "climb st n s = Some f" "Contains st v f"
        "\<forall>m < n. \<forall>x. climb st m s = Some x \<longrightarrow> \<not> Contains st v x" using spec by auto
      have "\<not> Contains st v x" if "m < d + n" "climb st m p = Some x" for m x
      proof (cases "m < d")
        case False
        have "climb st (m - d) s = Some x" "m - d < n" using off [of m] False that by simp_all
        with n(4) show ?thesis by blast
      qed (use low that in blast)
      moreover have "climb st (d + n) p = Some f" using off [of "d + n"] n(2) by simp
      moreover have "d + n \<le> nHeight (st p)" using n(1) s(3) d(1) by simp
      ultimately show ?thesis using ff r Some n(3) by (auto simp: is_fork_def)
    qed
  qed
qed

section \<open>The last common ancestor\<close>

lemma LCA_loop_spec:
  assumes wf: "wf_tree st S"
  shows "a \<in> S \<Longrightarrow> b \<in> S \<Longrightarrow> nHeight (st a) = nHeight (st b) \<Longrightarrow>
    climb st (nHeight (st a)) a = climb st (nHeight (st b)) b \<Longrightarrow>
    \<exists>c n. LCA_loop st (Some a) (Some b) = Some (Some c, Some c) \<and> n \<le> nHeight (st a) \<and>
      climb st n a = Some c \<and> climb st n b = Some c \<and> (\<forall>m < n. climb st m a \<noteq> climb st m b)"
proof (induction "nHeight (st a)" arbitrary: a b)
  case 0
  then have "a = b" by simp
  then show ?case by (subst LCA_loop.simps) (auto intro: exI [of _ 0])
next
  case (Suc k)
  show ?case
  proof (cases "a = b")
    case True
    then show ?thesis by (subst LCA_loop.simps) (auto intro: exI [of _ 0])
  next
    case False
    obtain a' where a': "pprev (st a) = Some a'" using wf_treeD(1) [OF wf Suc.prems(1)] Suc.hyps(2) by fastforce
    obtain b' where b': "pprev (st b) = Some b'"
      using wf_treeD(1) [OF wf Suc.prems(2)] Suc.hyps(2) Suc.prems(3) by fastforce
    have aS: "a' \<in> S" "k = nHeight (st a')" using wf_treeD(2) [OF wf Suc.prems(1) a'] Suc.hyps(2) by simp_all
    have bS: "b' \<in> S" "k = nHeight (st b')"
      using wf_treeD(2) [OF wf Suc.prems(2) b'] Suc.hyps(2) Suc.prems(3) by simp_all
    have root: "climb st (nHeight (st a')) a' = climb st (nHeight (st b')) b'"
      using Suc.prems(3,4) Suc.hyps(2) aS(2) bS(2) a' b' by (metis climb.simps(2) option.simps(5))
    obtain c n where c: "LCA_loop st (Some a') (Some b') = Some (Some c, Some c)" "n \<le> nHeight (st a')"
      "climb st n a' = Some c" "climb st n b' = Some c" "\<forall>m < n. climb st m a' \<noteq> climb st m b'"
      using Suc.hyps(1) [OF aS(2) aS(1) bS(1) _ root] aS(2) bS(2) by auto
    have "climb st m a \<noteq> climb st m b" if "m < Suc n" for m
      using that c(5) False a' b' by (cases m) simp_all
    moreover have "LCA_loop st (Some a) (Some b) = Some (Some c, Some c)"
      using False a' b' c(1) by (subst LCA_loop.simps) simp
    ultimately show ?thesis using c a' b' aS(2) Suc.hyps(2)
      by (intro exI [of _ c] exI [of _ "Suc n"]) simp
  qed
qed

lemma LastCommonAncestor_spec:
  assumes wf: "wf_tree st S" and ab: "a \<in> S" "b \<in> S"
    and root: "climb st (nHeight (st a)) a = climb st (nHeight (st b)) b"
  defines "h \<equiv> min (nHeight (st a)) (nHeight (st b))"
  shows "\<exists>c n. LastCommonAncestor st a b = Some (Some c) \<and> n \<le> h \<and>
    climb st (nHeight (st a) - n) a = Some c \<and> climb st (nHeight (st b) - n) b = Some c \<and>
    (\<forall>m. n < m \<longrightarrow> m \<le> h \<longrightarrow> climb st (nHeight (st a) - m) a \<noteq> climb st (nHeight (st b) - m) b)"
proof -
  let ?da = "nHeight (st a) - h" and ?db = "nHeight (st b) - h"
  obtain a' where a': "a' \<in> S" "climb st ?da a = Some a'" "nHeight (st a') = h"
    using climb_total [OF wf ab(1), of ?da] by (auto simp: h_def min_def split: if_splits)
  obtain b' where b': "b' \<in> S" "climb st ?db b = Some b'" "nHeight (st b') = h"
    using climb_total [OF wf ab(2), of ?db] by (auto simp: h_def min_def split: if_splits)
  have ca: "climb st (nHeight (st a) - m) a = climb st (h - m) a'" if "m \<le> h" for m
    using climb_add [OF a'(2), of "h - m"] that by (simp add: h_def)
  have cb: "climb st (nHeight (st b) - m) b = climb st (h - m) b'" if "m \<le> h" for m
    using climb_add [OF b'(2), of "h - m"] that by (simp add: h_def)
  have "climb st (nHeight (st a')) a' = climb st (nHeight (st b')) b'"
    using root ca [of 0] cb [of 0] a'(3) b'(3) by simp
  from LCA_loop_spec [OF wf a'(1) b'(1) _ this] a'(3) b'(3)
  obtain c n where c: "LCA_loop st (Some a') (Some b') = Some (Some c, Some c)" "n \<le> h"
    "climb st n a' = Some c" "climb st n b' = Some c" "\<forall>m < n. climb st m a' \<noteq> climb st m b'" by auto
  have ga: "(if nHeight (st b) < nHeight (st a) then GetAncestor st a (int (nHeight (st b))) else Some (Some a))
      = Some (Some a')"
    using a'(2) GetAncestor_climb [OF wf ab(1), of "int (nHeight (st b))"] by (auto simp: h_def min_def split: if_splits)
  have gb: "(if nHeight (st a) < nHeight (st b) then GetAncestor st b (int (nHeight (st a))) else Some (Some b))
      = Some (Some b')"
    using b'(2) GetAncestor_climb [OF wf ab(2), of "int (nHeight (st a))"] by (auto simp: h_def min_def split: if_splits)
  have "LastCommonAncestor st a b = Some (Some c)"
    unfolding LastCommonAncestor_def ga gb using c(1) by simp
  moreover have "climb st (nHeight (st a) - (h - n)) a = Some c" "climb st (nHeight (st b) - (h - n)) b = Some c"
    using ca [of "h - n"] cb [of "h - n"] c(2-4) by simp_all
  moreover have "climb st (nHeight (st a) - m) a \<noteq> climb st (nHeight (st b) - m) b" if "h - n < m" "m \<le> h" for m
    using ca [OF that(2)] cb [OF that(2)] c(5) that c(2) by simp
  ultimately show ?thesis by (intro exI [of _ c] exI [of _ "h - n"]) auto
qed

section \<open>Locators\<close>

text \<open>
  The heights a locator visits: steps of one until more than ten hashes are collected,
  then doubling, then genesis.
\<close>

function locator_heights :: "nat \<Rightarrow> nat \<Rightarrow> nat \<Rightarrow> nat list" where
  "locator_heights n step h =
     h # (if h = 0 \<or> step = 0 then [] else locator_heights (n + 1) (if 10 < n + 1 then step * 2 else step) (h - step))"
  by pat_completeness auto
termination by (relation "measure (\<lambda>(n, step, h). h)") auto

declare locator_heights.simps [simp del]

lemma locator_heights_last: "0 < step \<Longrightarrow> locator_heights n step h \<noteq> [] \<and> last (locator_heights n step h) = 0"
proof (induction n step h rule: locator_heights.induct)
  case (1 n step h)
  then show ?case by (subst (1 2) locator_heights.simps) auto
qed

lemma locator_heights_le: "x \<in> set (locator_heights n step h) \<Longrightarrow> x \<le> h"
proof (induction n step h rule: locator_heights.induct)
  case (1 n step h)
  from 1(2) have "x = h \<or> (\<not> (h = 0 \<or> step = 0) \<and>
      x \<in> set (locator_heights (n + 1) (if 10 < n + 1 then step * 2 else step) (h - step)))"
    by (subst (asm) locator_heights.simps) (auto split: if_splits)
  with 1(1) show ?case by fastforce
qed

lemma locator_heights_sorted: "0 < step \<Longrightarrow> sorted_wrt (>) (locator_heights n step h)"
proof (induction n step h rule: locator_heights.induct)
  case (1 n step h)
  have "x < h" if "0 < h" "x \<in> set (locator_heights (n + 1) s (h - step))" for x s
    using locator_heights_le [OF that(2)] that(1) 1(2) by simp
  with 1 show ?case by (subst locator_heights.simps) auto
qed

lemma GetLocator_loop_heights:
  assumes wf: "wf_tree st S" and ok: "chain_ok st S v"
  shows "0 < nStep \<Longrightarrow> p \<in> S \<Longrightarrow> length vHave = n \<Longrightarrow> nHeight (st p) = h \<Longrightarrow>
    GetLocator_loop st v (Some p) nStep vHave =
      Some (vHave @ map (\<lambda>k. phashBlock (st (the (climb st (h - k) p)))) (locator_heights n nStep h))"
proof (induction n nStep h arbitrary: p vHave rule: locator_heights.induct)
  case (1 n nStep h)
  show ?case
  proof (cases "h = 0")
    case True
    then show ?thesis using 1(5) by (subst GetLocator_loop.simps) (simp add: locator_heights.simps)
  next
    case False
    let ?s = "if 10 < n + 1 then nStep * 2 else nStep"
    let ?have = "vHave @ [phashBlock (st p)]"
    obtain q where q: "q \<in> S" "climb st (h - (h - nStep)) p = Some q" "nHeight (st q) = h - nStep"
      using climb_total [OF wf 1(3), of "h - (h - nStep)"] 1(5) by auto
    have hm: "max (int (nHeight (st p)) - int nStep) 0 = int (h - nStep)" using 1(5) by simp
    have nle: "\<not> h < h - nStep" by simp
    have next': "(if Contains st v p then Some (chain_at v (int (h - nStep)))
        else GetAncestor st p (int (h - nStep))) = Some (Some q)"
      using Contains_prev [OF ok wf, of p "h - nStep"] GetAncestor_climb [OF wf 1(3), of "int (h - nStep)"]
        1(5) q(2) nle by (simp del: of_nat_diff)
    have "GetLocator_loop st v (Some p) nStep vHave = Option.bind
        (if Contains st v p then Some (chain_at v (max (int (nHeight (st p)) - int nStep) 0))
         else GetAncestor st p (max (int (nHeight (st p)) - int nStep) 0))
        (\<lambda>next. GetLocator_loop st v next (if 10 < length ?have then nStep * 2 else nStep) ?have)"
      using False 1(5) by (subst GetLocator_loop.simps) simp
    also have "\<dots> = GetLocator_loop st v (Some q) ?s ?have"
      unfolding hm next' using 1(4) by simp
    also have "GetLocator_loop st v (Some q) ?s ?have = Some (?have @ map (\<lambda>k. phashBlock (st (the (climb st (h - nStep - k) q))))
        (locator_heights (n + 1) ?s (h - nStep)))"
      by (rule 1(1)) (use False 1(2,4) q in auto)
    also have "map (\<lambda>k. phashBlock (st (the (climb st (h - nStep - k) q)))) (locator_heights (n + 1) ?s (h - nStep))
      = map (\<lambda>k. phashBlock (st (the (climb st (h - k) p)))) (locator_heights (n + 1) ?s (h - nStep))"
    proof (rule map_cong [OF refl])
      fix k assume "k \<in> set (locator_heights (n + 1) ?s (h - nStep))"
      then have k: "k \<le> h - nStep" by (rule locator_heights_le)
      have e: "h - (h - nStep) + (h - nStep - k) = h - k" using k by simp
      have "climb st (h - nStep - k) q = climb st (h - k) p"
        using climb_add [OF q(2), of "h - nStep - k"] unfolding e by simp
      then show "phashBlock (st (the (climb st (h - nStep - k) q))) = phashBlock (st (the (climb st (h - k) p)))" by simp
    qed
    also have "?have @ map (\<lambda>k. phashBlock (st (the (climb st (h - k) p)))) (locator_heights (n + 1) ?s (h - nStep))
      = vHave @ map (\<lambda>k. phashBlock (st (the (climb st (h - k) p)))) (locator_heights n nStep h)"
      using False 1(2) by (subst (2) locator_heights.simps) simp
    finally show ?thesis .
  qed
qed

lemma GetLocator_heights:
  assumes "wf_tree st S" "chain_ok st S v" "p \<in> S"
  shows "GetLocator st v (Some p) =
    Some (map (\<lambda>k. phashBlock (st (the (climb st (nHeight (st p) - k) p)))) (locator_heights 0 1 (nHeight (st p))))"
  using GetLocator_loop_heights [OF assms(1,2), of 1 p "[]" 0 "nHeight (st p)"] assms(3) by (simp add: GetLocator_def)

section \<open>Trust\<close>

lemma GetBlockTrust_val:
  fixes b :: CBlockIndex
  defines "t \<equiv> compact_value (nBits b) mod 2 ^ 256"
  shows "\<exists>w. GetBlockTrust b = Inr w \<and> length w = 8 \<and> bu_val w =
    (if t = 0 \<or> IsProofOfStake b then 0 else max 1 ((2 ^ 236 - 1) div (t + 1)))"
proof -
  obtain u n o' where sc: "SetCompact (nBits b) = (u, n, o')" by (cases "SetCompact (nBits b)")
  have u: "length u = 8" "bu_val u = t"
    using length_SetCompact [of "nBits b"] SetCompact_val [of "nBits b"] sc by (simp_all add: t_def)
  let ?one = "bu_of_uint64 8 1" and ?zero = "bu_of_uint64 8 0"
  have one: "bu_val ?one = 1" "bu_val ?zero = 0" by (simp_all only: bu_val_of_uint64 unsigned_1 unsigned_0)
  have d: "bu_val (bu_add u ?one) = t + 1" "length (bu_add u ?one) = 8"
    using u one compact_plus_1 [of "nBits b"] by (simp_all add: bu_val_add t_def)
  have le0: "bu_CompareTo u ?zero \<le> 0 \<longleftrightarrow> t = 0" using u one by (simp add: bu_CompareTo_val)
  consider (zero) "t = 0" | (pos) "t \<noteq> 0" "IsProofOfStake b" | (pow) "t \<noteq> 0" "\<not> IsProofOfStake b" by blast
  then show ?thesis
  proof cases
    case zero
    then show ?thesis using one le0 by (simp add: GetBlockTrust_def sc Let_def)
  next
    case pos
    have "bu_val (bu_shl ?one 256) = 0" by (simp only: bu_val_shl one) simp
    then obtain q where "bu_div (bu_shl ?one 256) (bu_add u ?one) = Inr q" "length q = 8" "bu_val q = 0"
      using bu_div_ok [of "bu_shl ?one 256" "bu_add u ?one"] d by auto
    then show ?thesis using pos le0 by (simp add: GetBlockTrust_def sc Let_def)
  next
    case pow
    let ?n = "bu_shr (bu_not ?zero) 20"
    have "bu_val ?n = (2 ^ 256 - 1) div 2 ^ 20"
      by (simp add: bu_val_shr bu_val_not one)
    then have n: "bu_val ?n = 2 ^ 236 - 1" by simp
    obtain q where q: "bu_div ?n (bu_add u ?one) = Inr q" "length q = 8" "bu_val q = (2 ^ 236 - 1) div (t + 1)"
      using bu_div_ok [of ?n "bu_add u ?one"] d n by auto
    have "0 < bu_CompareTo q ?one \<longleftrightarrow> 1 < bu_val q" using q(2) one by (simp add: bu_CompareTo_gt)
    then show ?thesis using pow le0 q one by (simp add: GetBlockTrust_def sc Let_def max_def)
  qed
qed

section \<open>A small tree for the concrete inputs\<close>

text \<open>
  Blocks 0 to 4 form a chain; block 5 forks from block 2. \<open>demo_block\<close> gives a block whose
  hash is its address.
\<close>

definition demo_block :: "nat \<Rightarrow> ptr option \<Rightarrow> ptr option \<Rightarrow> nat \<Rightarrow> CBlockIndex" where
  "demo_block hash prev skip h =
     \<lparr>phashBlock = of_nat hash, pprev = prev, pskip = skip, nHeight = h, nStatus = 0, nFlags = 0,
      nVersion = 1, nTime = 0, nBits = 0x1d00ffff, nStakeModifier = 0, bnChainTrust = [], nChainWork = []\<rparr>"

definition demo_store :: store where
  "demo_store p =
     (if p = 0 then demo_block 0 None None 0
      else if p = 1 then demo_block 1 (Some 0) (Some 0) 1
      else if p = 2 then demo_block 2 (Some 1) (Some 0) 2
      else if p = 3 then demo_block 3 (Some 2) (Some 1) 3
      else if p = 4 then demo_block 4 (Some 3) (Some 0) 4
      else demo_block 5 (Some 2) (Some 1) 3)"

definition demo_tree :: "ptr set" where "demo_tree = {0, 1, 2, 3, 4, 5}"

lemmas demo_defs = demo_store_def demo_block_def demo_tree_def

lemma climb_numeral [simp]:
  "climb st (numeral k) p = (case pprev (st p) of None \<Rightarrow> None | Some q \<Rightarrow> climb st (pred_numeral k) q)"
  by (simp add: numeral_eq_Suc)

lemma climb_one [simp]: "climb st 1 p = pprev (st p)"
  by (simp split: option.splits)

lemma demo_skip_heights:
  "GetSkipHeight 1 = 0" "GetSkipHeight (Suc 0) = 0" "GetSkipHeight 2 = 0" "GetSkipHeight 3 = 1"
  "GetSkipHeight 4 = 0" "GetSkipHeight 5 = 1"
  by (simp_all add: GetSkipHeight_def InvertLowestOne_def)

lemma demo_wf: "wf_tree demo_store demo_tree"
  by (simp add: wf_tree_def demo_defs demo_skip_heights)

lemma demo_path: "path demo_store 4 = [Some 0, Some 1, Some 2, Some 3, Some 4]"
  "path demo_store 5 = [Some 0, Some 1, Some 2, Some 5]"
  by (simp_all add: path_def demo_defs upt_rec)

lemma demo_ok: "chain_ok demo_store demo_tree (path demo_store 4)"
  unfolding chain_ok_def by (rule disjI2, rule bexI [of _ 4]) (simp_all add: demo_tree_def)

section \<open>Properties\<close>

text \<open>C33: In a well-formed block tree the skip-list search \<open>GetAncestor\<close> never dereferences NULL
  and returns exactly the block reached by following \<open>pprev\<close> one block at a time, or NULL when
  the height is negative or above the block.\<close>

theorem GetAncestor_is_naive_walk:
  assumes "wf_tree st S" "p \<in> S"
  shows "GetAncestor st p height =
    Some (if height < 0 \<or> int (nHeight (st p)) < height then None
          else climb st (nHeight (st p) - nat height) p)"
  by (rule GetAncestor_climb [OF assms])

theorem GetAncestor_is_naive_walk_witness: "GetAncestor demo_store 4 1 = Some (Some 1)"
  using GetAncestor_is_naive_walk [OF demo_wf, of 4 1]
  by (simp add: demo_defs)

text \<open>Connecting a new block to its parent with \<open>BuildSkip\<close> keeps the tree well formed,
  changes no other entry, and never dereferences NULL.\<close>

theorem BuildSkip_keeps_tree:
  assumes "wf_tree st S" "p \<notin> S" "pprev (st p) = Some q" "q \<in> S" "nHeight (st p) = nHeight (st q) + 1"
  shows "\<exists>st'. BuildSkip st p = Some st' \<and> wf_tree st' (insert p S) \<and> (\<forall>r \<in> S. st' r = st r)"
  by (rule BuildSkip_wf [OF assms])

theorem BuildSkip_keeps_tree_witness:
  "\<exists>st'. BuildSkip (demo_store(7 := demo_block 7 (Some 4) None 5)) 7 = Some st' \<and> wf_tree st' (insert 7 demo_tree)"
proof -
  let ?st = "demo_store(7 := demo_block 7 (Some 4) None 5)"
  have "wf_tree ?st demo_tree"
    by (simp add: wf_tree_def demo_defs demo_skip_heights)
  from BuildSkip_keeps_tree [OF this, of 7 4] show ?thesis by (auto simp: demo_defs)
qed

text \<open>C31: Setting the tip of a consistent active chain to any block of the tree ends, writes only
  inside the vector, and leaves exactly the path from genesis to that block.\<close>

theorem SetTip_correct:
  assumes "wf_tree st S" "chain_ok st S v" "p \<in> S"
  shows "\<exists>v'. SetTip st v (Some p) = Some v' \<and> chain_ok st S v' \<and> Height v' = int (nHeight (st p)) \<and>
    Tip st v' False = Some (Some p) \<and>
    (\<forall>h \<le> nHeight (st p). chain_at v' (int h) = climb st (nHeight (st p) - h) p)"
proof (intro exI conjI)
  show "SetTip st v (Some p) = Some (path st p)" by (rule SetTip_path [OF assms])
  show "chain_ok st S (path st p)" using assms(3) by (auto simp: chain_ok_def)
  show "Height (path st p) = int (nHeight (st p))" by (simp add: Height_def)
  show "Tip st (path st p) False = Some (Some p)" by (simp add: Tip_def path_tip)
  show "\<forall>h \<le> nHeight (st p). chain_at (path st p) (int h) = climb st (nHeight (st p) - h) p"
    by (simp add: chain_at_path)
qed

theorem SetTip_correct_witness:
  "\<exists>v'. SetTip demo_store [Some 0, Some 1, Some 2, Some 3, Some 4] (Some 5) = Some v' \<and> Height v' = 3"
  using SetTip_correct [OF demo_wf demo_ok, of 5] unfolding demo_path by (auto simp: demo_defs)

text \<open>\<open>FindFork\<close> returns the last block on the way from the given block to genesis that is in
  the active chain, and NULL exactly when there is none.\<close>

theorem FindFork_last_common:
  assumes "wf_tree st S" "chain_ok st S v" "p \<in> S"
  shows "\<exists>r. FindFork st v p = Some r \<and> is_fork st v p r"
  by (rule FindFork_spec [OF assms])

theorem FindFork_last_common_witness:
  "\<exists>r. FindFork demo_store [Some 0, Some 1, Some 2, Some 3, Some 4] 5 = Some r \<and>
     is_fork demo_store [Some 0, Some 1, Some 2, Some 3, Some 4] 5 r"
  using FindFork_last_common [OF demo_wf demo_ok, of 5] unfolding demo_path by (simp add: demo_tree_def)

text \<open>Two blocks with the same genesis have a last common ancestor: the \<open>assert\<close> of
  \<open>LastCommonAncestor\<close> holds, the result is an ancestor of both at the same height, and the two
  paths differ at every greater height.\<close>

theorem LastCommonAncestor_correct:
  assumes "wf_tree st S" "a \<in> S" "b \<in> S"
    and "climb st (nHeight (st a)) a = climb st (nHeight (st b)) b"
  shows "\<exists>c n. LastCommonAncestor st a b = Some (Some c) \<and> n \<le> min (nHeight (st a)) (nHeight (st b)) \<and>
    climb st (nHeight (st a) - n) a = Some c \<and> climb st (nHeight (st b) - n) b = Some c \<and>
    (\<forall>m. n < m \<longrightarrow> m \<le> min (nHeight (st a)) (nHeight (st b)) \<longrightarrow>
       climb st (nHeight (st a) - m) a \<noteq> climb st (nHeight (st b) - m) b)"
  by (rule LastCommonAncestor_spec [OF assms])

theorem LastCommonAncestor_correct_witness:
  "\<exists>c. LastCommonAncestor demo_store 4 5 = Some (Some c)"
  using LastCommonAncestor_correct [OF demo_wf, of 4 5] by (auto simp: demo_defs)

text \<open>A locator built for a block lists hashes of its ancestors at strictly decreasing
  heights, from the block down to genesis; and a node that knows these blocks finds from it a block
  that is in its own chain and is an ancestor of the given one.\<close>

theorem locator_finds_common_block:
  assumes "wf_tree st S" "chain_ok st S v" "p \<in> S" "chain_ok st S w" "w \<noteq> []"
    and "\<And>q. q \<in> S \<Longrightarrow> mapBlockIndex (phashBlock (st q)) = Some q"
    and "climb st (nHeight (st p)) p = Genesis w"
  shows "\<exists>hs vHave f. GetLocator st v (Some p) = Some vHave \<and>
    vHave = map (\<lambda>h. phashBlock (st (the (climb st (nHeight (st p) - h) p)))) hs \<and>
    hd hs = nHeight (st p) \<and> last hs = 0 \<and> sorted_wrt (>) hs \<and>
    FindForkInGlobalIndex st mapBlockIndex w vHave = Some f \<and> Contains st w f \<and>
    (\<exists>n. climb st n p = Some f)"
proof -
  let ?hs = "locator_heights 0 1 (nHeight (st p))"
  let ?f = "\<lambda>h. phashBlock (st (the (climb st (nHeight (st p) - h) p)))"
  have gen: "Contains st w q \<and> (\<exists>n. climb st n p = Some q)" if "Genesis w = Some q" for q
  proof -
    obtain t where t: "t \<in> S" "w = path st t" using assms(4,5) by (auto simp: chain_ok_def)
    have "climb st (nHeight (st t)) t = Some q" using that t(2) by (simp add: Genesis_def path_nth)
    then show ?thesis using Contains_path [OF assms(1) t(1)] t(2) that assms(7) by auto
  qed
  obtain g where g: "Genesis w = Some g" using climb_total [OF assms(1,3) le_refl] assms(7) by auto
  have "\<exists>f. FindForkInGlobalIndex st mapBlockIndex w (map ?f hs) = Some f \<and> Contains st w f \<and>
      (\<exists>n. climb st n p = Some f)" if "\<forall>h \<in> set hs. h \<le> nHeight (st p)" for hs
    using that
  proof (induction hs)
    case Nil
    then show ?case using g gen [OF g] by simp
  next
    case (Cons h hs)
    obtain q where q: "q \<in> S" "climb st (nHeight (st p) - h) p = Some q"
      using climb_total [OF assms(1,3), of "nHeight (st p) - h"] by auto
    then show ?case using assms(6) [OF q(1)] Cons by auto
  qed
  from this [of ?hs] locator_heights_le obtain f where f:
    "FindForkInGlobalIndex st mapBlockIndex w (map ?f ?hs) = Some f" "Contains st w f" "\<exists>n. climb st n p = Some f"
    by blast
  have "hd ?hs = nHeight (st p)" by (subst locator_heights.simps) simp
  then show ?thesis
    using f GetLocator_heights [OF assms(1-3)] locator_heights_last [of 1 0 "nHeight (st p)"]
      locator_heights_sorted [of 1 0 "nHeight (st p)"]
    by (intro exI [of _ ?hs] exI [of _ "map ?f ?hs"] exI [of _ f]) simp
qed

theorem locator_finds_common_block_witness:
  "\<exists>vHave f. GetLocator demo_store [Some 0, Some 1, Some 2, Some 3, Some 4] (Some 5) = Some vHave \<and>
     Contains demo_store [Some 0, Some 1, Some 2, Some 3, Some 4] f"
proof -
  have map: "unat (phashBlock (demo_store q)) = q" if "q \<in> demo_tree" for q
    using that by (auto simp: demo_defs)
  show ?thesis
    using locator_finds_common_block [OF demo_wf demo_ok, of 5 "path demo_store 4" "\<lambda>h. Some (unat h)"] demo_ok
    unfolding demo_path by (auto simp: map) (auto simp: demo_defs Genesis_def)
qed

text \<open>The trust of a block with target \<open>t\<close> is never an exception: it is 0 for a zero target,
  \<open>max 1 ((2^236 - 1) div (t + 1))\<close> for proof of work, and always 0 for proof of stake, because
  \<open>uint256(1) << 256\<close> shifts the only set bit out.\<close>

theorem GetBlockTrust_value:
  "\<exists>w. GetBlockTrust b = Inr w \<and> length w = 8 \<and> bu_val w =
    (let t = compact_value (nBits b) mod 2 ^ 256
     in if t = 0 \<or> IsProofOfStake b then 0 else max 1 ((2 ^ 236 - 1) div (t + 1)))"
  unfolding Let_def by (rule GetBlockTrust_val)

end
