(* ===== verification/Kernel.thy ===== *)
theory Kernel
  imports Chain Connect BlockCheck
begin

text \<open>
  Proof of stake, \<open>src/src/kernel.cpp\<close> and the stake inputs of \<open>src/src/stakeinput.cpp\<close>: the stake
  modifier of a new block, the modifier a kernel hashes with, the target test and
  \<open>CheckProofOfStake\<close>. \<open>Hash\<close> of a byte stream, the transaction index, the block files and the
  zerocoin stakes are functions of an environment. An outer \<open>None\<close> is a loop without end, a NULL
  dereference, a failed \<open>assert\<close> or an index out of range.
\<close>

section \<open>Serialised words\<close>

definition ser_uint32 :: "uint32 \<Rightarrow> bytes" where
  "ser_uint32 x = map (\<lambda>i. ucast (drop_bit (8 * i) x)) [0..<4]"

definition ser_uint64 :: "uint64 \<Rightarrow> bytes" where
  "ser_uint64 x = map (\<lambda>i. ucast (drop_bit (8 * i) x)) [0..<8]"

definition ser_uint256 :: "hash256 \<Rightarrow> bytes" where
  "ser_uint256 h = map (\<lambda>i. ucast (drop_bit (8 * i) h)) [0..<32]"

section \<open>The environment\<close>

text \<open>
  A stake input: the block its coin comes from, its value, its kernel modifier when there is one, and
  its unique bytes. \<open>ke_literal\<close> is the address of a string literal, which the code converts to a
  number.
\<close>

record stake_input =
  si_index :: "ptr option"
  si_value :: int
  si_modifier :: "uint64 option"
  si_unique :: bytes

record kernel_env =
  ke_params :: CChainParams
  ke_store :: store
  ke_mapBlockIndex :: "hash256 \<Rightarrow> ptr option"
  ke_chain :: cchain
  ke_Hash :: "bytes \<Rightarrow> hash256"
  ke_literal :: uint64
  ke_GetTransaction :: "hash256 \<Rightarrow> (CTransaction \<times> hash256) option"
  ke_blockTime :: "ptr \<Rightarrow> uint32 option"
  ke_script :: "CTransaction \<Rightarrow> nat \<Rightarrow> script_env"
  ke_zagrStake :: "CTxIn \<Rightarrow> int \<Rightarrow> stake_input option"

definition nStakeMinAge :: uint32 where "nStakeMinAge = 60 * 60"

definition MODIFIER_INTERVAL :: nat where "MODIFIER_INTERVAL = 60"
definition MODIFIER_INTERVAL_TESTNET :: nat where "MODIFIER_INTERVAL_TESTNET = 60"
definition MODIFIER_INTERVAL_RATIO :: nat where "MODIFIER_INTERVAL_RATIO = 3"

definition getIntervalVersion :: "bool \<Rightarrow> nat" where
  "getIntervalVersion fTest = (if fTest then MODIFIER_INTERVAL_TESTNET else MODIFIER_INTERVAL)"

text \<open>The global \<open>fTestNet\<close> of the file is false.\<close>

definition nInterval :: int where "nInterval = int (getIntervalVersion False)"

section \<open>The modifier of a new block\<close>

partial_function (option) last_modifier_walk :: "store \<Rightarrow> ptr \<Rightarrow> ptr option" where
  "last_modifier_walk st p =
     (if GeneratedStakeModifier (st p) then Some p
      else case pprev (st p) of None \<Rightarrow> Some p | Some q \<Rightarrow> last_modifier_walk st q)"

definition GetLastStakeModifier :: "store \<Rightarrow> ptr option \<Rightarrow> (uint64 \<times> int) option option" where
  "GetLastStakeModifier st pindex =
     (case pindex of
        None \<Rightarrow> Some None
      | Some p \<Rightarrow>
          map_option (\<lambda>q. if \<not> GeneratedStakeModifier (st q) then None
                         else Some (nStakeModifier (st q), GetBlockTime (st q))) (last_modifier_walk st p))"

definition GetStakeModifierSelectionIntervalSection :: "nat \<Rightarrow> int option" where
  "GetStakeModifierSelectionIntervalSection nSection =
     (if nSection < 64
      then Some (int (getIntervalVersion False * 63 div (63 + (63 - nSection) * (MODIFIER_INTERVAL_RATIO - 1))))
      else None)"

fun interval_loop :: "nat list \<Rightarrow> int \<Rightarrow> int option" where
  "interval_loop [] nSelectionInterval = Some nSelectionInterval"
| "interval_loop (nSection # rest) nSelectionInterval =
     (case GetStakeModifierSelectionIntervalSection nSection of
        None \<Rightarrow> None
      | Some a \<Rightarrow> interval_loop rest (nSelectionInterval + a))"

definition GetStakeModifierSelectionInterval :: "int option" where
  "GetStakeModifierSelectionInterval = interval_loop [0..<64] 0"

text \<open>The hash a candidate competes with; proof of stake is favoured by a shift.\<close>

definition selection_hash :: "kernel_env \<Rightarrow> bool \<Rightarrow> uint64 \<Rightarrow> ptr \<Rightarrow> hash256" where
  "selection_hash E fModifierV2 nStakeModifierPrev p =
     (let b = ke_store E p;
          hashProof = (if fModifierV2 then phashBlock b else if IsProofOfStake b then 0 else phashBlock b);
          hashSelection = ke_Hash E (ser_uint256 hashProof @ ser_uint64 nStakeModifierPrev)
      in if IsProofOfStake b then drop_bit 32 hashSelection else hashSelection)"

text \<open>
  The loop of \<open>SelectBlockFromCandidates\<close>. \<open>v2\<close> is \<open>None\<close> on the first run; the last argument holds
  \<open>hashBest\<close> and \<open>pindexSelected\<close> once a block is selected. \<open>Inl\<close> is a candidate without an index.
\<close>

fun select_loop ::
  "kernel_env \<Rightarrow> hash256 list \<Rightarrow> int \<Rightarrow> uint64 \<Rightarrow> (int \<times> hash256) list \<Rightarrow> bool option \<Rightarrow> (hash256 \<times> ptr) option \<Rightarrow>
   unit + (hash256 \<times> ptr) option" where
  "select_loop E selected nStop nPrev [] v2 best = Inr best"
| "select_loop E selected nStop nPrev ((t, h) # rest) v2 best =
     (case ke_mapBlockIndex E h of
        None \<Rightarrow> Inl ()
      | Some p \<Rightarrow>
          if best \<noteq> None \<and> nStop < GetBlockTime (ke_store E p) then Inr best
          else
            let fModifierV2 = (case v2 of
                  None \<Rightarrow> nModifierUpdateBlock (ke_params E) \<le> int (nHeight (ke_store E p))
                | Some b \<Rightarrow> b)
            in if phashBlock (ke_store E p) \<in> set selected
               then select_loop E selected nStop nPrev rest (Some fModifierV2) best
               else
                 let hashSelection = selection_hash E fModifierV2 nPrev p;
                     best' = (case best of
                        None \<Rightarrow> Some (hashSelection, p)
                      | Some (hashBest, q) \<Rightarrow>
                          if hashSelection < hashBest then Some (hashSelection, p) else Some (hashBest, q))
                 in select_loop E selected nStop nPrev rest (Some fModifierV2) best')"

text \<open>\<open>None\<close> when it returns false.\<close>

definition SelectBlockFromCandidates ::
  "kernel_env \<Rightarrow> (int \<times> hash256) list \<Rightarrow> hash256 list \<Rightarrow> int \<Rightarrow> uint64 \<Rightarrow> ptr option" where
  "SelectBlockFromCandidates E vSortedByTimestamp selected nSelectionIntervalStop nStakeModifierPrev =
     (case select_loop E selected nSelectionIntervalStop nStakeModifierPrev vSortedByTimestamp None None of
        Inl _ \<Rightarrow> None
      | Inr best \<Rightarrow> map_option snd best)"

text \<open>The candidates from \<open>pindexPrev\<close> back, newest first.\<close>

partial_function (option) candidates :: "store \<Rightarrow> int \<Rightarrow> ptr option \<Rightarrow> (int \<times> hash256) list option" where
  "candidates st nStart pindex =
     (case pindex of
        None \<Rightarrow> Some []
      | Some p \<Rightarrow>
          if nStart \<le> GetBlockTime (st p)
          then do { cs \<leftarrow> candidates st nStart (pprev (st p)); Some ((GetBlockTime (st p), phashBlock (st p)) # cs) }
          else Some [])"

text \<open>The pairs in ascending order.\<close>

definition sort_candidates :: "(int \<times> hash256) list \<Rightarrow> (int \<times> hash256) list" where
  "sort_candidates cs = sort_key fst (sort_key snd cs)"

text \<open>The rounds; \<open>Inl\<close> is the failure to select, \<open>None\<close> the failed \<open>assert\<close> on the section.\<close>

fun rounds_loop ::
  "kernel_env \<Rightarrow> (int \<times> hash256) list \<Rightarrow> uint64 \<Rightarrow> nat list \<Rightarrow> hash256 list \<Rightarrow> int \<Rightarrow> uint64 \<Rightarrow> (unit + uint64) option" where
  "rounds_loop E cs nPrev [] selected nStop nNew = Some (Inr nNew)"
| "rounds_loop E cs nPrev (nRound # rest) selected nStop nNew =
     (case GetStakeModifierSelectionIntervalSection nRound of
        None \<Rightarrow> None
      | Some section \<Rightarrow>
          (case SelectBlockFromCandidates E cs selected (nStop + section) nPrev of
             None \<Rightarrow> Some (Inl ())
           | Some p \<Rightarrow>
               rounds_loop E cs nPrev rest (phashBlock (ke_store E p) # selected) (nStop + section)
                 (nNew OR push_bit nRound (of_nat (GetStakeEntropyBit (ke_store E p))))))"

text \<open>\<open>ComputeNextStakeModifier\<close>: what it returns, \<open>nStakeModifier\<close> and \<open>fGeneratedStakeModifier\<close>.\<close>

definition ComputeNextStakeModifier :: "kernel_env \<Rightarrow> ptr option \<Rightarrow> (bool \<times> uint64 \<times> bool) option" where
  "ComputeNextStakeModifier E pindexPrev =
     (let st = ke_store E in
      case pindexPrev of
        None \<Rightarrow> Some (True, 0, True)
      | Some prev \<Rightarrow>
          if nHeight (st prev) = 2 then Some (True, ke_literal E, True)
          else do {
            lst \<leftarrow> GetLastStakeModifier st (Some prev);
            (case lst of
               None \<Rightarrow> Some (False, 0, False)
             | Some (nPrev, nModifierTime) \<Rightarrow>
                 if GetBlockTime (st prev) div nInterval \<le> nModifierTime div nInterval
                 then Some (True, nPrev, False)
                 else do {
                   nSelectionInterval \<leftarrow> GetStakeModifierSelectionInterval;
                   let nStart = GetBlockTime (st prev) div nInterval * nInterval - nSelectionInterval;
                   cs \<leftarrow> candidates st nStart (Some prev);
                   let cs = sort_candidates (rev cs);
                   res \<leftarrow> rounds_loop E cs nPrev [0..<min 64 (length cs)] [] nStart 0;
                   (case res of
                      Inl _ \<Rightarrow> Some (False, nPrev, False)
                    | Inr nNew \<Rightarrow> Some (True, nNew, True)) }) })"

section \<open>The modifier of a kernel\<close>

text \<open>The loop; the last two arguments are \<open>pindex\<close> and \<open>nStakeModifierTime\<close>, \<open>Inl\<close> a null \<open>pindexNext\<close>.\<close>

partial_function (option) kernel_walk ::
  "store \<Rightarrow> cchain \<Rightarrow> int \<Rightarrow> ptr option \<Rightarrow> ptr \<Rightarrow> int \<Rightarrow> (unit + ptr) option" where
  "kernel_walk st v nUntil pindexNext p t =
     (if t < nUntil then
        (case pindexNext of
           None \<Rightarrow> Some (Inl ())
         | Some q \<Rightarrow>
             kernel_walk st v nUntil (chain_at v (int (nHeight (st q)) + 1)) q
               (if GeneratedStakeModifier (st q) then GetBlockTime (st q) else t))
      else Some (Inr p))"

text \<open>\<open>Some None\<close> when it returns false.\<close>

definition GetKernelStakeModifier :: "kernel_env \<Rightarrow> hash256 \<Rightarrow> uint64 option option" where
  "GetKernelStakeModifier E hashBlockFrom =
     (let st = ke_store E in
      case ke_mapBlockIndex E hashBlockFrom of
        None \<Rightarrow> Some None
      | Some from \<Rightarrow>
          if int (nHeight (st from)) < nFirstPoSBlock (ke_params E) then Some None
          else if networkID (ke_params E) = REGTEST then Some (Some (nStakeModifier (st from)))
          else do {
            nSelectionInterval \<leftarrow> GetStakeModifierSelectionInterval;
            res \<leftarrow> kernel_walk st (ke_chain E) (GetBlockTime (st from) + nSelectionInterval)
                (chain_at (ke_chain E) (int (nHeight (st from)) + 1)) from (GetBlockTime (st from));
            (case res of
               Inl _ \<Rightarrow> Some None
             | Inr p \<Rightarrow> Some (Some (nStakeModifier (st p)))) })"

section \<open>The target\<close>

definition stakeTargetHit :: "hash256 \<Rightarrow> int \<Rightarrow> base_uint \<Rightarrow> bool" where
  "stakeTargetHit hashProofOfStake nValueIn bnTargetPerCoinDay =
     (case bu_div (bu_of_uint64 8 (word_of_int nValueIn)) (bu_of_uint64 8 100) of
        Inl _ \<Rightarrow> False
      | Inr bnCoinDayWeight \<Rightarrow>
          bu_CompareTo (hash_limbs hashProofOfStake) (bu_mul bnCoinDayWeight bnTargetPerCoinDay) < 0)"

definition stake_hash :: "kernel_env \<Rightarrow> bytes \<Rightarrow> uint64 \<Rightarrow> uint32 \<Rightarrow> uint32 \<Rightarrow> hash256" where
  "stake_hash E ssUniqueID nModifier nTimeBlockFrom nTimeTx =
     ke_Hash E (ser_uint64 nModifier @ ser_uint32 nTimeBlockFrom @ ssUniqueID @ ser_uint32 nTimeTx)"

definition CheckStake ::
  "kernel_env \<Rightarrow> bytes \<Rightarrow> int \<Rightarrow> uint64 \<Rightarrow> base_uint \<Rightarrow> uint32 \<Rightarrow> uint32 \<Rightarrow> bool \<times> hash256" where
  "CheckStake E ssUniqueID nValueIn nModifier bnTarget nTimeBlockFrom nTimeTx =
     (let hashProofOfStake = stake_hash E ssUniqueID nModifier nTimeBlockFrom nTimeTx
      in (stakeTargetHit hashProofOfStake nValueIn bnTarget, hashProofOfStake))"

section \<open>The stake input and the check\<close>

text \<open>
  \<open>CPivStake\<close>: \<open>GetIndexFrom\<close> finds the block of the transaction when it is in the active chain,
  \<open>GetValue\<close> reads the output, so the outer \<open>None\<close> is an index out of range.
\<close>

definition GetIndexFrom :: "kernel_env \<Rightarrow> CTransaction \<Rightarrow> ptr option" where
  "GetIndexFrom E txFrom =
     (case ke_GetTransaction E (txid txFrom) of
        None \<Rightarrow> None
      | Some (_, hashAt) \<Rightarrow>
          (case ke_mapBlockIndex E hashAt of
             None \<Rightarrow> None
           | Some p \<Rightarrow> if Contains (ke_store E) (ke_chain E) p then Some p else None))"

definition GetUniqueness :: "CTransaction \<Rightarrow> uint32 \<Rightarrow> bytes" where
  "GetUniqueness txFrom nPosition = ser_uint32 nPosition @ ser_uint256 (txid txFrom)"

definition GetModifier :: "kernel_env \<Rightarrow> CTransaction \<Rightarrow> uint64 option option" where
  "GetModifier E txFrom =
     (case GetIndexFrom E txFrom of
        None \<Rightarrow> Some None
      | Some p \<Rightarrow> GetKernelStakeModifier E (phashBlock (ke_store E p)))"

definition CPivStake :: "kernel_env \<Rightarrow> CTransaction \<Rightarrow> uint32 \<Rightarrow> stake_input option" where
  "CPivStake E txFrom nPosition =
     (if length (vout txFrom) \<le> unat nPosition then None
      else map_option (\<lambda>nModifier.
          \<lparr>si_index = GetIndexFrom E txFrom, si_value = nValue (vout txFrom ! unat nPosition), si_modifier = nModifier,
           si_unique = GetUniqueness txFrom nPosition\<rparr>) (GetModifier E txFrom))"

text \<open>
  The stake of the coinstake, \<open>Some None\<close> when the code returns false before it has one. The script of
  the previous output is read without a check that it exists.
\<close>

definition make_stake :: "kernel_env \<Rightarrow> CTransaction \<Rightarrow> int \<Rightarrow> stake_input option option" where
  "make_stake E tx nPreviousBlockHeight =
     (let txin = vin tx ! 0 in
      if CTxIn_IsZerocoinSpend txin then Some (ke_zagrStake E txin nPreviousBlockHeight)
      else case ke_GetTransaction E (op_hash (prevout txin)) of
        None \<Rightarrow> Some None
      | Some (txPrev, _) \<Rightarrow>
          if length (vout txPrev) \<le> unat (op_n (prevout txin)) then None
          else (case VerifyScript (ke_script E tx 0) STANDARD_SCRIPT_VERIFY_FLAGS (scriptSig txin)
                    (scriptPubKey (vout txPrev ! unat (op_n (prevout txin)))) of
                  None \<Rightarrow> None
                | Some (Inl _) \<Rightarrow> Some None
                | Some (Inr _) \<Rightarrow> map_option Some (CPivStake E txPrev (op_n (prevout txin)))))"

text \<open>The ages, in the unsigned arithmetic of the code.\<close>

definition stake_age_ok :: "kernel_env \<Rightarrow> CTxIn \<Rightarrow> int \<Rightarrow> uint32 \<Rightarrow> uint32 \<Rightarrow> bool" where
  "stake_age_ok E txin nPreviousBlockHeight nBlockFromTime nTxTime \<longleftrightarrow>
     \<not> (\<not> CTxIn_IsZerocoinSpend txin \<and> nPublicZCSpends (ke_params E) - 1 \<le> nPreviousBlockHeight \<and>
        (nTxTime < nBlockFromTime \<or> nTxTime < nBlockFromTime + nStakeMinAge))"

text \<open>\<open>CheckProofOfStake\<close>: \<open>Some None\<close> is false, otherwise \<open>hashProofOfStake\<close>.\<close>

definition CheckProofOfStake :: "kernel_env \<Rightarrow> CBlock \<Rightarrow> int \<Rightarrow> hash256 option option" where
  "CheckProofOfStake E block nPreviousBlockHeight =
     (if length (vtx block) \<le> 1 then None
      else
        let tx = vtx block ! 1; txin = vin tx ! 0
        in if \<not> IsCoinStake tx then Some None
           else do {
             stake \<leftarrow> make_stake E tx nPreviousBlockHeight;
             (case stake of
                None \<Rightarrow> Some None
              | Some s \<Rightarrow>
                  (case si_index s of
                     None \<Rightarrow> Some None
                   | Some from \<Rightarrow>
                       (case ke_blockTime E from of
                          None \<Rightarrow> Some None
                        | Some nBlockFromTime \<Rightarrow>
                            (case si_modifier s of
                               None \<Rightarrow> Some None
                             | Some nModifier \<Rightarrow>
                                 if \<not> stake_age_ok E txin nPreviousBlockHeight nBlockFromTime (blk_nTime block) then Some None
                                 else case CheckStake E (si_unique s) (si_value s) nModifier (fst (SetCompact (blk_nBits block)))
                                     nBlockFromTime (blk_nTime block) of
                                   (hit, hashProofOfStake) \<Rightarrow>
                                     if hit then Some (Some hashProofOfStake) else Some None)))) })"

text \<open>
  The search of \<open>Stake\<close> over the next \<open>nHashDrift = 60\<close> seconds, while no new block comes in: the time
  that hits, and the hash.
\<close>

fun stake_search ::
  "kernel_env \<Rightarrow> stake_input \<Rightarrow> uint64 \<Rightarrow> base_uint \<Rightarrow> uint32 \<Rightarrow> uint32 \<Rightarrow> nat list \<Rightarrow> (uint32 \<times> hash256) option" where
  "stake_search E s nModifier bnTarget nTimeBlockFrom nTimeTx [] = None"
| "stake_search E s nModifier bnTarget nTimeBlockFrom nTimeTx (i # rest) =
     (let nTryTime = nTimeTx + 60 - of_nat i in
      case CheckStake E (si_unique s) (si_value s) nModifier bnTarget nTimeBlockFrom nTryTime of
        (hit, h) \<Rightarrow>
          if hit then Some (nTryTime, h)
          else stake_search E s nModifier bnTarget nTimeBlockFrom nTimeTx rest)"

definition Stake :: "kernel_env \<Rightarrow> stake_input \<Rightarrow> uint32 \<Rightarrow> uint32 \<Rightarrow> uint32 \<Rightarrow> (uint32 \<times> hash256) option" where
  "Stake E s nCompact nTimeBlockFrom nTimeTx =
     (if Height (ke_chain E) < nFirstPoSBlock (ke_params E) then None
      else if networkID (ke_params E) \<noteq> REGTEST \<and> (nTimeTx < nTimeBlockFrom \<or> nTimeTx < nTimeBlockFrom + nStakeMinAge)
        then None
      else case si_modifier s of
        None \<Rightarrow> None
      | Some nModifier \<Rightarrow> stake_search E s nModifier (fst (SetCompact nCompact)) nTimeBlockFrom nTimeTx [0..<60])"

definition CheckCoinStakeTimestamp :: "int \<Rightarrow> int \<Rightarrow> bool" where
  "CheckCoinStakeTimestamp nTimeBlock nTimeTx \<longleftrightarrow> nTimeBlock = nTimeTx"

definition mapStakeModifierCheckpoints :: "(int \<times> uint32) list" where
  "mapStakeModifierCheckpoints = [(0, 0xfd11f4e7)]"

definition CheckStakeModifierCheckpoints :: "bool \<Rightarrow> int \<Rightarrow> uint32 \<Rightarrow> bool" where
  "CheckStakeModifierCheckpoints fTest h nStakeModifierChecksum =
     (if fTest then True
      else case map_of mapStakeModifierCheckpoints h of None \<Rightarrow> True | Some c \<Rightarrow> nStakeModifierChecksum = c)"

end
