(* ===== verification/KernelProps.thy ===== *)
theory KernelProps
  imports Kernel ScriptSpec Pow
begin

text \<open>
  Properties of proof of stake: the stake modifier of a new block always exists and takes one bit from
  each of up to 64 different ancestors, the kernel modifier is the first one generated a selection
  interval after the coin, the target test multiplies modulo \<open>2 ^ 256\<close>, and \<open>CheckProofOfStake\<close>
  reads past the outputs of the previous transaction exactly when the staked output does not exist.
\<close>

section \<open>Intervals\<close>

lemma section_less: "n < 64 \<Longrightarrow> \<exists>a. GetStakeModifierSelectionIntervalSection n = Some a"
  by (simp add: GetStakeModifierSelectionIntervalSection_def)

definition nSelection :: int where "nSelection = 2087"

lemma selection_interval: "GetStakeModifierSelectionInterval = Some nSelection"
  by (simp add: GetStakeModifierSelectionInterval_def nSelection_def GetStakeModifierSelectionIntervalSection_def upt_rec
      getIntervalVersion_def MODIFIER_INTERVAL_def MODIFIER_INTERVAL_RATIO_def)

section \<open>Candidates\<close>

text \<open>The block and its ancestors, newest first.\<close>

definition lineage :: "store \<Rightarrow> ptr \<Rightarrow> ptr list" where
  "lineage st p = map (\<lambda>i. the (climb st i p)) [0..<Suc (nHeight (st p))]"

lemma lineage_root: "wf_tree st S \<Longrightarrow> p \<in> S \<Longrightarrow> pprev (st p) = None \<Longrightarrow> lineage st p = [p]"
  using wf_treeD(1) [of st S p] by (simp add: lineage_def)

lemma lineage_step:
  assumes "wf_tree st S" "p \<in> S" "pprev (st p) = Some q"
  shows "lineage st p = p # lineage st q"
proof -
  have h: "nHeight (st p) = Suc (nHeight (st q))" using wf_treeD(2) [OF assms] by simp
  have "[0..<Suc (nHeight (st p))] = 0 # map Suc [0..<Suc (nHeight (st q))]"
    unfolding h map_Suc_upt by (rule upt_conv_Cons) simp
  then show ?thesis unfolding lineage_def using assms(3) by (simp only: list.map map_map o_def climb.simps option.case) simp
qed

lemma lineage_set:
  assumes "wf_tree st S" "p \<in> S"
  shows "set (lineage st p) \<subseteq> S" "distinct (lineage st p)"
proof -
  have c: "the (climb st i p) \<in> S \<and> nHeight (st (the (climb st i p))) = nHeight (st p) - i" if "i < Suc (nHeight (st p))" for i
    using climb_total [OF assms, of i] that by auto
  then show "set (lineage st p) \<subseteq> S" by (auto simp: lineage_def)
  have "inj_on (\<lambda>i. the (climb st i p)) (set [0..<Suc (nHeight (st p))])"
  proof (rule inj_onI)
    fix i j
    assume ij: "i \<in> set [0..<Suc (nHeight (st p))]" "j \<in> set [0..<Suc (nHeight (st p))]" "the (climb st i p) = the (climb st j p)"
    then have "nHeight (st p) - i = nHeight (st p) - j" using c [of i] c [of j] by (simp only: set_upt) simp
    moreover have "i \<le> nHeight (st p)" "j \<le> nHeight (st p)" using ij(1,2) by auto
    ultimately show "i = j" by arith
  qed
  then show "distinct (lineage st p)" by (simp add: lineage_def distinct_map del: upt_Suc)
qed

definition candidate :: "store \<Rightarrow> ptr \<Rightarrow> int \<times> hash256" where
  "candidate st p = (GetBlockTime (st p), phashBlock (st p))"

lemma candidates_lineage:
  assumes "wf_tree st S" "p \<in> S"
  shows "candidates st nStart (Some p) =
    Some (map (candidate st) (takeWhile (\<lambda>q. nStart \<le> GetBlockTime (st q)) (lineage st p)))"
  using assms(2)
proof (induction "nHeight (st p)" arbitrary: p rule: less_induct)
  case less
  show ?case
  proof (cases "pprev (st p)")
    case None
    then show ?thesis using lineage_root [OF assms(1) less.prems]
      by (simp add: candidates.simps [of st nStart "Some p"] candidates.simps [of st nStart None] candidate_def)
  next
    case (Some q)
    have q: "q \<in> S" "nHeight (st q) < nHeight (st p)" using wf_treeD(2) [OF assms(1) less.prems Some] by simp_all
    show ?thesis using less.hyps [OF q(2,1)] Some lineage_step [OF assms(1) less.prems Some]
      by (simp add: candidates.simps [of st nStart "Some p"] candidate_def)
  qed
qed

lemma last_modifier_walk_ends:
  assumes "wf_tree st S" "p \<in> S" "\<forall>q \<in> S. pprev (st q) = None \<longrightarrow> GeneratedStakeModifier (st q)"
  shows "\<exists>q. last_modifier_walk st p = Some q \<and> q \<in> S \<and> GeneratedStakeModifier (st q)"
  using assms(2)
proof (induction "nHeight (st p)" arbitrary: p rule: less_induct)
  case less
  show ?case
  proof (cases "GeneratedStakeModifier (st p)")
    case True
    then show ?thesis using less.prems by (simp add: last_modifier_walk.simps [of st p])
  next
    case False
    then obtain q where q: "pprev (st p) = Some q" using assms(3) less.prems by fastforce
    have "q \<in> S" "nHeight (st q) < nHeight (st p)" using wf_treeD(2) [OF assms(1) less.prems q] by simp_all
    with less.hyps [of q] False q show ?thesis by (simp add: last_modifier_walk.simps [of st p])
  qed
qed

section \<open>Selection\<close>

text \<open>Every block of the candidates is in the block index.\<close>

definition indexed :: "kernel_env \<Rightarrow> (int \<times> hash256) list \<Rightarrow> bool" where
  "indexed E cs \<longleftrightarrow> (\<forall>c \<in> set cs. \<exists>p. ke_mapBlockIndex E (snd c) = Some p \<and> phashBlock (ke_store E p) = snd c)"

lemma indexed_Cons:
  "indexed E ((t, h) # cs) \<Longrightarrow>
   indexed E cs \<and> (\<exists>p. ke_mapBlockIndex E h = Some p \<and> phashBlock (ke_store E p) = h)"
  by (simp add: indexed_def)

definition fresh :: "kernel_env \<Rightarrow> hash256 list \<Rightarrow> (int \<times> hash256) list \<Rightarrow> ptr \<Rightarrow> bool" where
  "fresh E selected cs p \<longleftrightarrow>
     phashBlock (ke_store E p) \<in> snd ` set cs \<and> phashBlock (ke_store E p) \<notin> set selected \<and>
     ke_mapBlockIndex E (phashBlock (ke_store E p)) = Some p"

lemma select_loop_some:
  "indexed E cs \<Longrightarrow>
   \<exists>hb' q. select_loop E selected nStop nPrev cs v2 (Some (hb, p)) = Inr (Some (hb', q)) \<and> (q = p \<or> fresh E selected cs q)"
proof (induction cs arbitrary: v2 hb p)
  case Nil
  then show ?case by simp
next
  case (Cons c cs)
  obtain t h where c: "c = (t, h)" by (cases c)
  obtain r where r: "indexed E cs" "ke_mapBlockIndex E h = Some r" "phashBlock (ke_store E r) = h"
    using indexed_Cons [of E t h cs] Cons.prems c by auto
  have mono: "fresh E selected cs q \<Longrightarrow> fresh E selected (c # cs) q" for q by (auto simp: fresh_def)
  have fr: "h \<notin> set selected \<Longrightarrow> fresh E selected (c # cs) r" using r(2,3) c by (simp add: fresh_def)
  show ?case
    using Cons.IH [OF r(1), of _ hb p] Cons.IH [OF r(1), of _ _ r] mono fr r(2,3)
    by (simp add: c Let_def) (metis (no_types))
qed

lemma select_loop_none:
  "indexed E cs \<Longrightarrow> \<exists>c \<in> set cs. snd c \<notin> set selected \<Longrightarrow>
   \<exists>hb q. select_loop E selected nStop nPrev cs v2 None = Inr (Some (hb, q)) \<and> fresh E selected cs q"
proof (induction cs arbitrary: v2)
  case Nil
  then show ?case by simp
next
  case (Cons c cs)
  obtain t h where c: "c = (t, h)" by (cases c)
  obtain r where r: "indexed E cs" "ke_mapBlockIndex E h = Some r" "phashBlock (ke_store E r) = h"
    using indexed_Cons [of E t h cs] Cons.prems(1) c by auto
  have mono: "fresh E selected cs q \<Longrightarrow> fresh E selected (c # cs) q" for q by (auto simp: fresh_def)
  show ?case
  proof (cases "h \<in> set selected")
    case True
    then have "\<exists>c \<in> set cs. snd c \<notin> set selected" using Cons.prems(2) c by auto
    from Cons.IH [OF r(1) this] mono True r(2,3) show ?thesis by (simp add: c Let_def) metis
  next
    case False
    then have fr: "fresh E selected (c # cs) r" using r(2,3) c by (simp add: fresh_def)
    then show ?thesis using select_loop_some [OF r(1)] mono False r(2,3) by (simp add: c Let_def) metis
  qed
qed

lemma SelectBlock_fresh:
  assumes "indexed E cs" "\<exists>c \<in> set cs. snd c \<notin> set selected"
  shows "\<exists>q. SelectBlockFromCandidates E cs selected nStop nPrev = Some q \<and> fresh E selected cs q"
  using select_loop_none [OF assms, of nStop nPrev None] by (auto simp: SelectBlockFromCandidates_def)

lemma bit_round:
  fixes m :: uint64
  assumes "k < 64" "i < 64"
  shows "bit (m OR push_bit k (of_nat (GetStakeEntropyBit b))) i \<longleftrightarrow> bit m i \<or> i = k \<and> GetStakeEntropyBit b = 1"
  using assms by (auto simp: bit_or_iff bit_push_bit_iff GetStakeEntropyBit_def bit_1_iff)

text \<open>
  \<open>picks E selected cs ps\<close>: the blocks \<open>ps\<close> come from the candidates and are different from each other
  and from the selected ones.
\<close>

definition picks :: "kernel_env \<Rightarrow> hash256 list \<Rightarrow> (int \<times> hash256) list \<Rightarrow> ptr list \<Rightarrow> bool" where
  "picks E selected cs ps \<longleftrightarrow>
     distinct (map (\<lambda>p. phashBlock (ke_store E p)) ps) \<and> (\<forall>p \<in> set ps. fresh E selected cs p)"

lemma picks_Cons:
  "fresh E selected cs q \<Longrightarrow> picks E (phashBlock (ke_store E q) # selected) cs ps \<Longrightarrow> picks E selected cs (q # ps)"
  by (auto simp: picks_def fresh_def)

lemma unselected:
  assumes "length selected < card (snd ` set cs)"
  shows "\<exists>c \<in> set cs. snd c \<notin> set selected"
proof (rule ccontr)
  assume "\<not> ?thesis"
  then have "snd ` set cs \<subseteq> set selected" by auto
  from card_mono [OF finite_set this] card_length [of selected] assms show False by linarith
qed

lemma rounds_loop_picks:
  assumes "indexed E cs" "k + m \<le> 64" "m + length selected \<le> card (snd ` set cs)"
  shows "\<exists>nNew ps. rounds_loop E cs nPrev [k..<k + m] selected nStop n0 = Some (Inr nNew) \<and>
     length ps = m \<and> picks E selected cs ps \<and>
     (\<forall>i < 64. bit nNew i \<longleftrightarrow> bit n0 i \<or> k \<le> i \<and> i < k + m \<and> GetStakeEntropyBit (ke_store E (ps ! (i - k))) = 1)"
  using assms(2,3)
proof (induction m arbitrary: k selected nStop n0)
  case 0
  show ?case by (rule exI [of _ n0], rule exI [of _ "[]"]) (auto simp: picks_def)
next
  case (Suc m)
  obtain a where a: "GetStakeModifierSelectionIntervalSection k = Some a" using section_less [of k] Suc.prems(1) by auto
  have l0: "length selected < card (snd ` set cs)" using Suc.prems(2) by simp
  obtain q where q: "SelectBlockFromCandidates E cs selected (nStop + a) nPrev = Some q" "fresh E selected cs q"
    using SelectBlock_fresh [OF assms(1) unselected [OF l0], of "nStop + a" nPrev] by auto
  let ?b = "GetStakeEntropyBit (ke_store E q)"
  obtain nNew ps where r:
    "rounds_loop E cs nPrev [Suc k..<Suc k + m] (phashBlock (ke_store E q) # selected) (nStop + a)
       (n0 OR push_bit k (of_nat ?b)) = Some (Inr nNew)"
    "length ps = m" "picks E (phashBlock (ke_store E q) # selected) cs ps"
    "\<And>i. i < 64 \<Longrightarrow> bit nNew i \<longleftrightarrow> bit (n0 OR push_bit k (of_nat ?b)) i \<or>
       Suc k \<le> i \<and> i < Suc k + m \<and> GetStakeEntropyBit (ke_store E (ps ! (i - Suc k))) = 1"
    using Suc.IH [of "Suc k" "phashBlock (ke_store E q) # selected" "nStop + a" "n0 OR push_bit k (of_nat ?b)"] Suc.prems by auto
  have l: "[k..<k + Suc m] = k # [Suc k..<Suc k + m]" by (simp add: upt_conv_Cons del: upt_Suc)
  have bits: "bit nNew i \<longleftrightarrow> bit n0 i \<or> k \<le> i \<and> i < k + Suc m \<and> GetStakeEntropyBit (ke_store E ((q # ps) ! (i - k))) = 1"
    if i: "i < 64" for i
  proof (cases "i = k")
    case True
    then show ?thesis using r(4) [OF i] bit_round [of k i n0 "ke_store E q"] i by simp
  next
    case False
    then show ?thesis using r(4) [OF i] bit_round [of k i n0 "ke_store E q"] i Suc.prems(1)
      by (cases "Suc k \<le> i") (auto simp: nth_Cons' Suc_diff_le)
  qed
  show ?case
    by (rule exI [of _ nNew], rule exI [of _ "q # ps"])
      (use l a q(1) r(1,2) picks_Cons [OF q(2) r(3)] bits in \<open>simp del: upt_Suc nth_Cons\<close>)
qed

text \<open>
  The state of a node when it computes a modifier: the block tree, every block of it under its hash in
  the block index, and a modifier generated at the genesis block.
\<close>

definition kernel_tree :: "kernel_env \<Rightarrow> ptr set \<Rightarrow> bool" where
  "kernel_tree E S \<longleftrightarrow>
     wf_tree (ke_store E) S \<and>
     (\<forall>p \<in> S. ke_mapBlockIndex E (phashBlock (ke_store E p)) = Some p) \<and>
     (\<forall>p \<in> S. pprev (ke_store E p) = None \<longrightarrow> GeneratedStakeModifier (ke_store E p))"

definition selection_window :: "kernel_env \<Rightarrow> ptr \<Rightarrow> ptr list" where
  "selection_window E p =
     takeWhile (\<lambda>q. GetBlockTime (ke_store E p) div nInterval * nInterval - nSelection \<le> GetBlockTime (ke_store E q))
       (lineage (ke_store E) p)"

lemma window_set:
  assumes "kernel_tree E S" "p \<in> S"
  shows "set (selection_window E p) \<subseteq> S" "distinct (selection_window E p)"
    "set (selection_window E p) \<subseteq> set (lineage (ke_store E) p)"
  using lineage_set [of "ke_store E" S p] assms set_takeWhileD
  by (fastforce simp: kernel_tree_def selection_window_def distinct_takeWhile)+

lemma sort_candidates_set: "set (sort_candidates cs) = set cs" "length (sort_candidates cs) = length cs"
  by (simp_all add: sort_candidates_def)

lemma window_candidates:
  assumes "kernel_tree E S" "p \<in> S"
  defines "cs \<equiv> sort_candidates (rev (map (candidate (ke_store E)) (selection_window E p)))"
  shows "indexed E cs" "snd ` set cs = (\<lambda>q. phashBlock (ke_store E q)) ` set (selection_window E p)"
    "card (snd ` set cs) = length (selection_window E p)"
proof -
  have idx: "ke_mapBlockIndex E (phashBlock (ke_store E q)) = Some q" if "q \<in> set (selection_window E p)" for q
    using that assms(1) window_set(1) [OF assms(1,2)] by (auto simp: kernel_tree_def)
  show s: "snd ` set cs = (\<lambda>q. phashBlock (ke_store E q)) ` set (selection_window E p)"
    by (simp add: cs_def sort_candidates_set image_image candidate_def)
  show "indexed E cs" using idx by (auto simp: indexed_def cs_def sort_candidates_set candidate_def)
  have "inj_on (\<lambda>q. phashBlock (ke_store E q)) (set (selection_window E p))"
    by (rule inj_onI) (metis idx option.inject)
  then show "card (snd ` set cs) = length (selection_window E p)"
    unfolding s by (simp add: card_image distinct_card window_set(2) [OF assms(1,2)])
qed

text \<open>A fresh block of the window is a block of the window.\<close>

lemma picks_window:
  assumes "kernel_tree E S" "p \<in> S"
    and "picks E selected (sort_candidates (rev (map (candidate (ke_store E)) (selection_window E p)))) ps"
  shows "set ps \<subseteq> set (selection_window E p)" "distinct ps"
proof -
  show "distinct ps" using assms(3) by (simp add: picks_def distinct_map)
  have "q \<in> set (selection_window E p)" if q: "q \<in> set ps" for q
  proof -
    from q assms(3) window_candidates(2) [OF assms(1,2)] obtain r
      where r: "r \<in> set (selection_window E p)" "phashBlock (ke_store E r) = phashBlock (ke_store E q)"
        "ke_mapBlockIndex E (phashBlock (ke_store E q)) = Some q"
      by (fastforce simp: picks_def fresh_def)
    have "ke_mapBlockIndex E (phashBlock (ke_store E r)) = Some r"
      using assms(1) window_set(1) [OF assms(1,2)] r(1) by (auto simp: kernel_tree_def)
    with r have "r = q" by simp
    with r(1) show ?thesis by simp
  qed
  then show "set ps \<subseteq> set (selection_window E p)" by blast
qed

section \<open>The target\<close>

lemma bu_val_hash_limbs_n: "bu_val (map (\<lambda>i. ucast (drop_bit (32 * i) h)) [0..<n]) = unat h mod 2 ^ (32 * n)" for h :: hash256
proof (induction n)
  case (Suc n)
  have "unat (ucast (drop_bit (32 * n) h) :: 32 word) = unat h div 2 ^ (32 * n) mod 2 ^ 32"
    by (simp add: unsigned_ucast_eq take_bit_eq_mod unat_drop_bit)
  then have "bu_val (map (\<lambda>i. ucast (drop_bit (32 * i) h)) [0..<Suc n]) =
      unat h mod 2 ^ (32 * n) + 2 ^ (32 * n) * (unat h div 2 ^ (32 * n) mod 2 ^ 32)"
    using Suc by (simp add: bu_val_append)
  also have "\<dots> = unat h mod (2 ^ (32 * n) * 2 ^ 32)" by (simp add: mod_mult2_eq)
  also have "(2::nat) ^ (32 * n) * 2 ^ 32 = 2 ^ (32 * Suc n)" unfolding power_add [symmetric] by (simp only: mult_Suc_right add.commute)
  finally show ?case .
qed simp

lemma hash_limbs_value: "is_u256 (hash_limbs h)" "bu_val (hash_limbs h) = unat h"
proof -
  have "unat h mod 2 ^ 256 = unat h" using unsigned_less [of h, where ?'a = nat] by simp
  then show "bu_val (hash_limbs h) = unat h" unfolding hash_limbs_def bu_val_hash_limbs_n by simp
qed (simp add: is_u256_def hash_limbs_def)

lemma unat_value: "0 \<le> v \<Longrightarrow> v < 2 ^ 63 \<Longrightarrow> unat (word_of_int v :: uint64) = nat v"
  by (simp add: unat_eq_nat_uint uint_word_of_int)

lemma target_value:
  assumes "is_u256 bnTarget"
  shows "stakeTargetHit h v bnTarget \<longleftrightarrow>
    unat h < (unat (word_of_int v :: uint64) div 100 * bu_val bnTarget) mod 2 ^ 256"
proof -
  let ?v = "bu_of_uint64 8 (word_of_int v)"
  have c: "bu_val (bu_of_uint64 8 100) = 100" by (simp add: bu_val_of_uint64)
  then obtain q where q: "bu_div ?v (bu_of_uint64 8 100) = Inr q" "is_u256 q"
    "bu_val q = unat (word_of_int v :: uint64) div 100"
    using u256.div_ok [of ?v "bu_of_uint64 8 100"] by (auto simp: bu_val_of_uint64 u256.of_u64_ok)
  have l: "length q = length bnTarget" "length bnTarget = 8" "length (bu_mul q bnTarget) = length (hash_limbs h)"
    using q(2) assms hash_limbs_value(1) [of h] by (simp_all add: is_u256_def limb_simps)
  have "bu_CompareTo (hash_limbs h) (bu_mul q bnTarget) < 0 \<longleftrightarrow> bu_val (hash_limbs h) < bu_val (bu_mul q bnTarget)"
    using bu_CompareTo_ge [of "hash_limbs h" "bu_mul q bnTarget"] l(3) by linarith
  then show ?thesis using q l(1,2) by (simp add: stakeTargetHit_def hash_limbs_value(2) bu_val_mul is_u256_def)
qed

section \<open>The walk of the kernel modifier\<close>

text \<open>The blocks of the active chain from height \<open>k\<close> on.\<close>

definition blocks_from :: "cchain \<Rightarrow> nat \<Rightarrow> ptr list" where
  "blocks_from v k = map the (drop k v)"

definition chain_heights :: "store \<Rightarrow> cchain \<Rightarrow> bool" where
  "chain_heights st v \<longleftrightarrow> (\<forall>k < length v. \<exists>q. v ! k = Some q \<and> nHeight (st q) = k)"

lemma chain_ok_heights:
  assumes "wf_tree st S" "chain_ok st S v"
  shows "chain_heights st v"
proof (cases "v = []")
  case True
  then show ?thesis by (simp add: chain_heights_def)
next
  case False
  then obtain p where p: "p \<in> S" "v = path st p" using assms(2) by (auto simp: chain_ok_def)
  have "\<exists>q. path st p ! k = Some q \<and> nHeight (st q) = k" if "k \<le> nHeight (st p)" for k
    using climb_total [OF assms(1) p(1), of "nHeight (st p) - k"] that by (auto simp: path_nth)
  then show ?thesis by (simp add: chain_heights_def p(2) less_Suc_eq_le)
qed

lemma kernel_walk_find:
  assumes "chain_heights st v"
  shows "t < nUntil \<Longrightarrow> kernel_walk st v nUntil (chain_at v (int k)) p t =
    Some (case find (\<lambda>q. GeneratedStakeModifier (st q) \<and> nUntil \<le> GetBlockTime (st q)) (blocks_from v k) of
      None \<Rightarrow> Inl () | Some q \<Rightarrow> Inr q)"
proof (induction "length v - k" arbitrary: k p t)
  case 0
  then show ?case by (simp add: kernel_walk.simps [of st v nUntil _ p t] chain_at_def blocks_from_def)
next
  case (Suc n)
  then have k: "k < length v" by simp
  then obtain q where q: "v ! k = Some q" "nHeight (st q) = k" using assms by (auto simp: chain_heights_def)
  have b: "blocks_from v k = q # blocks_from v (Suc k)" 
    by (simp only: blocks_from_def Cons_nth_drop_Suc [OF k, symmetric] list.map q(1) option.sel)
  have nx: "chain_at v (int (nHeight (st q)) + 1) = chain_at v (int (Suc k))" by (simp add: q(2) add.commute)
  have at: "chain_at v (int k) = Some q" using k q(1) by (simp add: chain_at_def)
  let ?t = "if GeneratedStakeModifier (st q) then GetBlockTime (st q) else t"
  have step: "kernel_walk st v nUntil (chain_at v (int k)) p t = kernel_walk st v nUntil (chain_at v (int (Suc k))) q ?t"
    using Suc.prems by (simp add: kernel_walk.simps [of st v nUntil _ p t] at nx)
  show ?case
  proof (cases "?t < nUntil")
    case True
    have "n = length v - Suc k" using Suc.hyps(2) by simp
    from Suc.hyps(1) [OF this True] True show ?thesis unfolding step b by (auto split: if_splits)
  next
    case False
    then show ?thesis using Suc.prems unfolding step b
      by (simp add: kernel_walk.simps [of st v nUntil _ q] split: if_splits)
  qed
qed

lemma kernel_modifier_find:
  assumes "chain_heights (ke_store E) (ke_chain E)" "ke_mapBlockIndex E h = Some from"
    and "nFirstPoSBlock (ke_params E) \<le> int (nHeight (ke_store E from))" "networkID (ke_params E) \<noteq> REGTEST"
  shows "GetKernelStakeModifier E h =
    Some (map_option (\<lambda>q. nStakeModifier (ke_store E q))
      (find (\<lambda>q. GeneratedStakeModifier (ke_store E q) \<and>
          GetBlockTime (ke_store E from) + nSelection \<le> GetBlockTime (ke_store E q))
        (blocks_from (ke_chain E) (Suc (nHeight (ke_store E from))))))"
proof -
  let ?t = "GetBlockTime (ke_store E from)"
  have n: "int (nHeight (ke_store E from)) + 1 = int (Suc (nHeight (ke_store E from)))" by simp
  have "?t < ?t + nSelection" by (simp add: nSelection_def)
  note w = kernel_walk_find [OF assms(1) this, of "Suc (nHeight (ke_store E from))" "from"]
  show ?thesis using assms(2-4)
    by (simp add: GetKernelStakeModifier_def selection_interval Let_def n w del: of_nat_Suc split: option.splits)
qed

lemma kernel_modifier_total:
  assumes "chain_heights (ke_store E) (ke_chain E)"
  shows "GetKernelStakeModifier E h \<noteq> None"
proof (cases "ke_mapBlockIndex E h")
  case (Some p)
  then show ?thesis using kernel_modifier_find [OF assms Some]
    by (cases "int (nHeight (ke_store E p)) < nFirstPoSBlock (ke_params E)"; cases "networkID (ke_params E) = REGTEST")
      (auto simp: GetKernelStakeModifier_def)
qed (simp add: GetKernelStakeModifier_def)

section \<open>A small chain for the concrete inputs\<close>

text \<open>Three blocks at the times 0, 5000 and 9000, each with a modifier.\<close>

definition demo_kernel_store :: store where
  "demo_kernel_store p =
     (if p = 0 then demo_block 0 None None 0\<lparr>nFlags := 4\<rparr>
      else if p = 1 then demo_block 1 (Some 0) (Some 0) 1\<lparr>nFlags := 4, nTime := 5000, nStakeModifier := 41\<rparr>
      else demo_block 2 (Some 1) (Some 0) 2\<lparr>nFlags := 4, nTime := 9000, nStakeModifier := 42\<rparr>)"

definition demo_kernel :: kernel_env where
  "demo_kernel = \<lparr>ke_params = main_params\<lparr>nFirstPoSBlock := 1\<rparr>, ke_store = demo_kernel_store,
     ke_mapBlockIndex = (\<lambda>h. if h = 0 then Some 0 else if h = 1 then Some 1 else if h = 2 then Some 2 else None),
     ke_chain = [Some 0, Some 1, Some 2], ke_Hash = (\<lambda>s. 3), ke_literal = 7,
     ke_GetTransaction = (\<lambda>h. if h = 5 then Some (\<lparr>txid = 5, tx_nVersion = 1, vin = [], vout = [], nLockTime = 0\<rparr>, 1) else None),
     ke_blockTime = (\<lambda>p. Some 5000), ke_script = (\<lambda>tx i. demo_env), ke_zagrStake = (\<lambda>txin h. None)\<rparr>"

lemmas demo_kernel_simps = demo_kernel_def demo_kernel_store_def demo_block_def

lemma demo_kernel_tree: "kernel_tree demo_kernel {0, 1, 2}"
  by (simp add: kernel_tree_def demo_kernel_simps wf_tree_def demo_skip_heights GeneratedStakeModifier_def
      BLOCK_STAKE_MODIFIER_def)

lemma demo_kernel_heights: "chain_heights (ke_store demo_kernel) (ke_chain demo_kernel)"
  by (auto simp: chain_heights_def demo_kernel_simps less_Suc_eq)

definition demo_pos :: CBlock where
  "demo_pos = \<lparr>blk_hash = 10, blk_nVersion = 5, hashPrevBlock = 9, hashMerkleRoot = 0, blk_nTime = 20000, blk_nBits = 0,
     nNonce = 0, nAccumulatorCheckpoint = 0,
     vtx = [\<lparr>txid = 6, tx_nVersion = 1, vin = [], vout = [], nLockTime = 0\<rparr>,
            \<lparr>txid = 7, tx_nVersion = 1,
             vin = [\<lparr>prevout = \<lparr>op_hash = 5, op_n = 0\<rparr>, scriptSig = [], nSequence = - 1\<rparr>],
             vout = [\<lparr>nValue = 0, scriptPubKey = [], nRounds = -10\<rparr>, \<lparr>nValue = 9, scriptPubKey = [OP_1], nRounds = -10\<rparr>],
             nLockTime = 0\<rparr>],
     vchBlockSig = []\<rparr>"

section \<open>Properties\<close>

text \<open>C25: \<open>ComputeNextStakeModifier\<close> always succeeds on a block tree whose genesis has a modifier: no
  candidate is missing from the block index and no round is left without a candidate. A modifier it
  generates after height 2 has the entropy bits of that many different ancestors of the selection
  window as its low bits, one for each of the up to 64 rounds, and zeros above.
\<close>

theorem ComputeNextStakeModifier_total:
  assumes "kernel_tree E S" "p \<in> S"
  shows "\<exists>m gen. ComputeNextStakeModifier E (Some p) = Some (True, m, gen) \<and>
    (gen \<and> nHeight (ke_store E p) \<noteq> 2 \<longrightarrow>
     (\<exists>ps. length ps = min 64 (length (selection_window E p)) \<and> distinct ps \<and>
        set ps \<subseteq> set (selection_window E p) \<and>
        (\<forall>i < 64. bit m i \<longleftrightarrow> i < length ps \<and> GetStakeEntropyBit (ke_store E (ps ! i)) = 1)))"
proof -
  let ?st = "ke_store E"
  let ?cs = "sort_candidates (rev (map (candidate ?st) (selection_window E p)))"
  let ?start = "GetBlockTime (?st p) div nInterval * nInterval - nSelection"
  have wf: "wf_tree ?st S" using assms(1) by (simp add: kernel_tree_def)
  obtain q where q: "last_modifier_walk ?st p = Some q" "GeneratedStakeModifier (?st q)"
    using last_modifier_walk_ends [OF wf assms(2)] assms(1) by (auto simp: kernel_tree_def)
  have c: "candidates ?st ?start (Some p) = Some (map (candidate ?st) (selection_window E p))"
    using candidates_lineage [OF wf assms(2)] by (simp add: selection_window_def)
  have len: "length ?cs = length (selection_window E p)" by (simp add: sort_candidates_set)
  obtain nNew ps where r:
    "rounds_loop E ?cs (nStakeModifier (?st q)) [0..<min 64 (length (selection_window E p))] [] ?start 0 = Some (Inr nNew)"
    "length ps = min 64 (length (selection_window E p))" "picks E [] ?cs ps"
    "\<And>i. i < 64 \<Longrightarrow> bit nNew i \<longleftrightarrow> i < length ps \<and> GetStakeEntropyBit (?st (ps ! i)) = 1"
    using rounds_loop_picks [OF window_candidates(1) [OF assms], of 0 "min 64 (length (selection_window E p))" "[]"
        "nStakeModifier (?st q)" ?start 0] window_candidates(3) [OF assms] by auto
  note ps = picks_window [OF assms r(3)]
  show ?thesis
    using q c r(1,2,4) ps len
    by (auto simp: ComputeNextStakeModifier_def Let_def GetLastStakeModifier_def selection_interval intro!: exI [of _ ps])
qed

theorem ComputeNextStakeModifier_total_witness:
  "\<exists>m gen. ComputeNextStakeModifier demo_kernel (Some 1) = Some (True, m, gen)"
  using ComputeNextStakeModifier_total [OF demo_kernel_tree, of 1] by auto

text \<open>C26: Outside the regression test network the modifier a kernel uses is exactly the one of the first
  block of the active chain above the coin's block that generated a modifier at least 2087 seconds
  later; when there is none, \<open>GetKernelStakeModifier\<close> reports failure, and it never loops.
\<close>

theorem GetKernelStakeModifier_exact:
  assumes "wf_tree (ke_store E) S" "chain_ok (ke_store E) S (ke_chain E)" "ke_mapBlockIndex E h = Some from"
    and "nFirstPoSBlock (ke_params E) \<le> int (nHeight (ke_store E from))" "networkID (ke_params E) \<noteq> REGTEST"
  shows "GetKernelStakeModifier E h =
    Some (map_option (\<lambda>q. nStakeModifier (ke_store E q))
      (find (\<lambda>q. GeneratedStakeModifier (ke_store E q) \<and>
          GetBlockTime (ke_store E from) + nSelection \<le> GetBlockTime (ke_store E q))
        (blocks_from (ke_chain E) (Suc (nHeight (ke_store E from))))))"
  by (rule kernel_modifier_find [OF chain_ok_heights [OF assms(1,2)] assms(3-5)])

theorem GetKernelStakeModifier_exact_witness: "GetKernelStakeModifier demo_kernel 1 = Some (Some 42)"
proof -
  have c: "chain_ok (ke_store demo_kernel) {0, 1, 2} (ke_chain demo_kernel)"
    unfolding chain_ok_def by (rule disjI2, rule bexI [of _ 2]) (simp_all add: path_def demo_kernel_simps upt_rec)
  have t: "wf_tree (ke_store demo_kernel) {0, 1, 2}" using demo_kernel_tree by (simp add: kernel_tree_def)
  from GetKernelStakeModifier_exact [OF t c, of 1 1] show ?thesis
    by (simp add: demo_kernel_simps main_params_def blocks_from_def GeneratedStakeModifier_def BLOCK_STAKE_MODIFIER_def
        GetBlockTime_def nSelection_def)
qed



lemma stake_age:
  "\<not> CTxIn_IsZerocoinSpend txin \<Longrightarrow>
   stake_age_ok E txin ht t nTxTime \<longleftrightarrow>
     (nPublicZCSpends (ke_params E) - 1 \<le> ht \<longrightarrow> t \<le> nTxTime \<and> t + 3600 \<le> nTxTime)"
  by (auto simp: stake_age_ok_def nStakeMinAge_def not_less)

text \<open>What \<open>CheckProofOfStake\<close> asks of a staked output that exists.\<close>

definition stake_accepted :: "kernel_env \<Rightarrow> CBlock \<Rightarrow> int \<Rightarrow> CTransaction \<Rightarrow> hash256 \<Rightarrow> bool" where
  "stake_accepted E block nPreviousBlockHeight txPrev h \<longleftrightarrow>
     (let tx = vtx block ! 1; txin = vin tx ! 0; n = op_n (prevout txin); out = vout txPrev ! unat n in
      VerifyScript (ke_script E tx 0) STANDARD_SCRIPT_VERIFY_FLAGS (scriptSig txin) (scriptPubKey out) = Some (Inr ()) \<and>
      (\<exists>p t m. GetIndexFrom E txPrev = Some p \<and> ke_blockTime E p = Some t \<and>
         GetKernelStakeModifier E (phashBlock (ke_store E p)) = Some (Some m) \<and>
         (nPublicZCSpends (ke_params E) - 1 \<le> nPreviousBlockHeight \<longrightarrow>
           t \<le> blk_nTime block \<and> t + 3600 \<le> blk_nTime block) \<and>
         h = stake_hash E (GetUniqueness txPrev n) m t (blk_nTime block) \<and>
         unat h < (unat (word_of_int (nValue out) :: uint64) div 100 * bu_val (fst (SetCompact (blk_nBits block)))) mod 2 ^ 256))"

text \<open>C24: \<open>CheckProofOfStake\<close> reads outside the outputs of the previous transaction exactly when the staked
  output does not exist: nothing checks the index first. When the output exists the check always
  returns, and it accepts a kernel hash exactly when the input script verifies, the coin's block is
  in the active chain and on disk, it has a kernel modifier, the ages are right, and the hash of that
  modifier, the times and the coin is under the value-weighted target.
\<close>

theorem CheckProofOfStake_exact:
  assumes "chain_heights (ke_store E) (ke_chain E)" "1 < length (vtx block)" "IsCoinStake (vtx block ! 1)"
    and "\<not> CTxIn_IsZerocoinSpend (vin (vtx block ! 1) ! 0)"
    and "ke_GetTransaction E (op_hash (prevout (vin (vtx block ! 1) ! 0))) = Some (txPrev, hashAt)"
  shows "(CheckProofOfStake E block ht = None \<longleftrightarrow>
      length (vout txPrev) \<le> unat (op_n (prevout (vin (vtx block ! 1) ! 0)))) \<and>
    (unat (op_n (prevout (vin (vtx block ! 1) ! 0))) < length (vout txPrev) \<longrightarrow>
      (CheckProofOfStake E block ht = Some (Some h) \<longleftrightarrow> stake_accepted E block ht txPrev h))"
proof -
  let ?tx = "vtx block ! 1"
  let ?in = "vin ?tx ! 0"
  let ?n = "op_n (prevout ?in)"
  let ?res = "VerifyScript (ke_script E ?tx 0) STANDARD_SCRIPT_VERIFY_FLAGS (scriptSig ?in) (scriptPubKey (vout txPrev ! unat ?n))"
  show ?thesis
  proof (cases "length (vout txPrev) \<le> unat ?n")
    case True
    then show ?thesis using assms by (simp add: CheckProofOfStake_def make_stake_def Let_def)
  next
    case False
    obtain res where res: "?res = Some res" using VerifyScript_never_asserts by blast
    have gm: "GetModifier E txPrev \<noteq> None"
      using kernel_modifier_total [OF assms(1)] by (auto simp: GetModifier_def split: option.splits)
    then obtain m where m: "GetModifier E txPrev = Some m" by blast
    have tv: "stakeTargetHit k v (fst (SetCompact (blk_nBits block))) \<longleftrightarrow>
        unat k < (unat (word_of_int v :: uint64) div 100 * bu_val (fst (SetCompact (blk_nBits block)))) mod 2 ^ 256" for k v
      by (rule target_value) simp
    show ?thesis
    proof (cases res)
      case (Inl e)
      then show ?thesis using assms False res
        by (simp add: CheckProofOfStake_def make_stake_def stake_accepted_def Let_def)
    next
      case (Inr u)
      have ms: "make_stake E ?tx ht = Some (Some \<lparr>si_index = GetIndexFrom E txPrev, si_value = nValue (vout txPrev ! unat ?n),
          si_modifier = m, si_unique = GetUniqueness txPrev ?n\<rparr>)"
        using assms(4,5) False res Inr m by (simp add: make_stake_def CPivStake_def Let_def)
      have mk: "GetIndexFrom E txPrev = Some p \<Longrightarrow> GetKernelStakeModifier E (phashBlock (ke_store E p)) = Some m" for p
        using m by (simp add: GetModifier_def)
      show ?thesis using assms(2,3,4) False res Inr ms mk
        by (simp add: CheckProofOfStake_def stake_accepted_def Let_def CheckStake_def tv stake_age split: option.splits) blast
    qed
  qed
qed

theorem CheckProofOfStake_exact_witness: "CheckProofOfStake demo_kernel demo_pos 100 = None"
proof -
  have "IsCoinStake (vtx demo_pos ! 1)"
    by (simp add: demo_pos_def IsCoinStake_def COutPoint_IsNull_def CTxOut_IsEmpty_def CTxIn_IsZerocoinSpend_def)
  moreover have "\<not> CTxIn_IsZerocoinSpend (vin (vtx demo_pos ! 1) ! 0)"
    by (simp add: demo_pos_def CTxIn_IsZerocoinSpend_def StartsWithOpcode_def)
  moreover have "ke_GetTransaction demo_kernel (op_hash (prevout (vin (vtx demo_pos ! 1) ! 0))) =
      Some (\<lparr>txid = 5, tx_nVersion = 1, vin = [], vout = [], nLockTime = 0\<rparr>, 1)"
    by (simp add: demo_pos_def demo_kernel_def)
  ultimately show ?thesis
    using CheckProofOfStake_exact [OF demo_kernel_heights, of demo_pos] by (simp add: demo_pos_def)
qed

end
