(* ===== verification/ChainState.thy ===== *)
theory ChainState
  imports Chain Pow Kernel Block
begin

text \<open>
  The globals of \<open>src/src/main.cpp\<close> that choose the chain: the candidates for the best tip, the blocks
  whose ancestors miss data, the best invalid block and the active chain, with the operations that
  enter a block and find the chain with the most work. Fields of \<open>CBlockIndex\<close> that only this part
  reads are maps of their own. \<open>None\<close> is a failed \<open>assert\<close>, a NULL dereference, a throw or a loop
  that does not end.
\<close>

section \<open>Ordered sets\<close>

text \<open>\<open>std::set\<close> with a comparator: the list of its elements in order.\<close>

fun oset_insert :: "('a \<Rightarrow> 'a \<Rightarrow> bool) \<Rightarrow> 'a \<Rightarrow> 'a list \<Rightarrow> 'a list" where
  "oset_insert lt x [] = [x]"
| "oset_insert lt x (y # ys) =
     (if lt x y then x # y # ys else if lt y x then y # oset_insert lt x ys else y # ys)"

definition oset_erase :: "('a \<Rightarrow> 'a \<Rightarrow> bool) \<Rightarrow> 'a \<Rightarrow> 'a list \<Rightarrow> 'a list" where
  "oset_erase lt x ys = filter (\<lambda>y. lt x y \<or> lt y x) ys"

section \<open>The state\<close>

record chain_index =
  ix_store :: store
  mapBlockIndex :: "(hash256 \<times> ptr) list"
  nTx :: "ptr \<Rightarrow> uint32"
  nChainTx :: "ptr \<Rightarrow> uint32"
  nSequenceId :: "ptr \<Rightarrow> uint32"
  setBlockIndexCandidates :: "ptr list"
  mapBlocksUnlinked :: "(ptr \<times> ptr) list"
  pindexBestInvalid :: "ptr option"
  pindexBestHeader :: "ptr option"
  setDirtyBlockIndex :: "ptr set"
  chainActive :: cchain
  nBlockSequenceId :: uint32

definition ix_tip :: "chain_index \<Rightarrow> ptr option" where
  "ix_tip s = (if chainActive s = [] then None else last (chainActive s))"

abbreviation ix_contains :: "chain_index \<Rightarrow> ptr \<Rightarrow> bool" where
  "ix_contains s p \<equiv> Contains (ix_store s) (chainActive s) p"

definition set_status :: "ptr \<Rightarrow> uint32 \<Rightarrow> chain_index \<Rightarrow> chain_index" where
  "set_status p status s = s\<lparr>ix_store := (ix_store s)(p := (ix_store s p)\<lparr>nStatus := status\<rparr>)\<rparr>"

definition is_failed :: "chain_index \<Rightarrow> ptr \<Rightarrow> bool" where
  "is_failed s p \<longleftrightarrow> nStatus (ix_store s p) AND BLOCK_FAILED_MASK \<noteq> 0"

definition has_data :: "chain_index \<Rightarrow> ptr \<Rightarrow> bool" where
  "has_data s p \<longleftrightarrow> nStatus (ix_store s p) AND BLOCK_HAVE_DATA \<noteq> 0"

definition more_work :: "chain_index \<Rightarrow> ptr \<Rightarrow> ptr \<Rightarrow> bool" where
  "more_work s a b \<longleftrightarrow> 0 < bu_CompareTo (nChainWork (ix_store s a)) (nChainWork (ix_store s b))"

text \<open>\<open>CBlockIndexWorkComparator\<close>; an address is a number.\<close>

definition WorkLess :: "chain_index \<Rightarrow> ptr \<Rightarrow> ptr \<Rightarrow> bool" where
  "WorkLess s pa pb =
     (if more_work s pa pb then False
      else if more_work s pb pa then True
      else if nSequenceId s pa < nSequenceId s pb then False
      else if nSequenceId s pb < nSequenceId s pa then True
      else if pa < pb then False
      else if pb < pa then True
      else False)"

definition add_candidate :: "ptr \<Rightarrow> chain_index \<Rightarrow> chain_index" where
  "add_candidate p s = s\<lparr>setBlockIndexCandidates := oset_insert (WorkLess s) p (setBlockIndexCandidates s)\<rparr>"

definition drop_candidate :: "ptr \<Rightarrow> chain_index \<Rightarrow> chain_index" where
  "drop_candidate p s = s\<lparr>setBlockIndexCandidates := oset_erase (WorkLess s) p (setBlockIndexCandidates s)\<rparr>"

section \<open>The chain with the most work\<close>

text \<open>
  The walk from a candidate to the active chain: the first block on it that is failed or without data,
  or NULL when there is none.
\<close>

partial_function (option) unusable_walk :: "chain_index \<Rightarrow> ptr option \<Rightarrow> ptr option option" where
  "unusable_walk s pindexTest =
     (case pindexTest of
        None \<Rightarrow> Some None
      | Some p \<Rightarrow>
          if ix_contains s p then Some None
          else if nChainTx s p = 0 \<and> nHeight (ix_store s p) \<noteq> 0 then None
          else if is_failed s p \<or> \<not> has_data s p then Some (Some p)
          else unusable_walk s (pprev (ix_store s p)))"

text \<open>The inner loop that takes the chain from the candidate down to \<open>pindexTest\<close> out of the set.\<close>

partial_function (option) drop_chain :: "bool \<Rightarrow> ptr \<Rightarrow> ptr option \<Rightarrow> chain_index \<Rightarrow> chain_index option" where
  "drop_chain fFailedChain pindexTest pindexFailed s =
     (case pindexFailed of
        None \<Rightarrow> None
      | Some f \<Rightarrow>
          if f = pindexTest then Some s
          else
            let s1 = (if fFailedChain then set_status f (nStatus (ix_store s f) OR BLOCK_FAILED_CHILD) s
                      else case pprev (ix_store s f) of
                        None \<Rightarrow> s
                      | Some q \<Rightarrow> s\<lparr>mapBlocksUnlinked := mapBlocksUnlinked s @ [(q, f)]\<rparr>)
            in drop_chain fFailedChain pindexTest (pprev (ix_store s f)) (drop_candidate f s1))"

partial_function (option) FindMostWorkChain :: "chain_index \<Rightarrow> (ptr option \<times> chain_index) option" where
  "FindMostWorkChain s =
     (if setBlockIndexCandidates s = [] then Some (None, s)
      else
        let pindexNew = last (setBlockIndexCandidates s)
        in case unusable_walk s (Some pindexNew) of
             None \<Rightarrow> None
           | Some None \<Rightarrow> Some (Some pindexNew, s)
           | Some (Some pindexTest) \<Rightarrow>
               let fFailedChain = is_failed s pindexTest;
                   s1 = (if fFailedChain \<and>
                           (case pindexBestInvalid s of None \<Rightarrow> True | Some b \<Rightarrow> more_work s pindexNew b)
                         then s\<lparr>pindexBestInvalid := Some pindexNew\<rparr> else s)
               in (case drop_chain fFailedChain pindexTest (Some pindexNew) s1 of
                     None \<Rightarrow> None
                   | Some s2 \<Rightarrow> FindMostWorkChain (drop_candidate pindexTest s2)))"

definition PruneBlockIndexCandidates :: "chain_index \<Rightarrow> chain_index option" where
  "PruneBlockIndexCandidates s =
     (case ix_tip s of
        None \<Rightarrow> None
      | Some tip \<Rightarrow>
          let cs = dropWhile (\<lambda>p. WorkLess s p tip) (setBlockIndexCandidates s)
          in if cs = [] then None else Some (s\<lparr>setBlockIndexCandidates := cs\<rparr>))"

section \<open>Invalid blocks\<close>

text \<open>The log line reads the tip, so an empty chain is a NULL dereference.\<close>

definition InvalidChainFound :: "ptr \<Rightarrow> chain_index \<Rightarrow> chain_index option" where
  "InvalidChainFound pindexNew s =
     (case ix_tip s of
        None \<Rightarrow> None
      | Some tip \<Rightarrow>
          Some (if (case pindexBestInvalid s of None \<Rightarrow> True | Some b \<Rightarrow> more_work s pindexNew b)
                then s\<lparr>pindexBestInvalid := Some pindexNew\<rparr> else s))"

text \<open>Without the penalty for the peer that sent the block.\<close>

definition InvalidBlockFound :: "ptr \<Rightarrow> bool \<Rightarrow> chain_index \<Rightarrow> chain_index option" where
  "InvalidBlockFound p fCorruptionPossible s =
     (if fCorruptionPossible then Some s
      else
        let s = set_status p (nStatus (ix_store s p) OR BLOCK_FAILED_VALID) s;
            s = drop_candidate p (s\<lparr>setDirtyBlockIndex := insert p (setDirtyBlockIndex s)\<rparr>)
        in InvalidChainFound p s)"

section \<open>Entering a block\<close>

text \<open>
  \<open>AddToBlockIndex\<close> at a fresh address \<open>p\<close>. The comparison of the modifier checksum only logs and is
  left out.
\<close>

definition new_index :: "CBlock \<Rightarrow> CBlockIndex" where
  "new_index block =
     (let b = \<lparr>phashBlock = blk_hash block, pprev = None, pskip = None, nHeight = 0, nStatus = 0, nFlags = 0,
        nVersion = blk_nVersion block, nTime = blk_nTime block, nBits = blk_nBits block, nStakeModifier = 0,
        bnChainTrust = bu_of_uint64 8 0, nChainWork = bu_of_uint64 8 0\<rparr>
      in if block_IsProofOfStake block then SetProofOfStake b else b)"

definition AddToBlockIndex :: "kernel_env \<Rightarrow> CBlock \<Rightarrow> ptr \<Rightarrow> chain_index \<Rightarrow> (ptr \<times> chain_index) option" where
  "AddToBlockIndex K block p s =
     (case map_of (mapBlockIndex s) (blk_hash block) of
        Some q \<Rightarrow> Some (q, s)
      | None \<Rightarrow>
          let b = new_index block;
              miPrev = map_of (mapBlockIndex s) (hashPrevBlock block);
              st = (ix_store s)(p := b)
          in do {
            st \<leftarrow> (case miPrev of
                     None \<Rightarrow> Some st
                   | Some q \<Rightarrow> do {
                       let st = st(p := b\<lparr>pprev := Some q, nHeight := nHeight (st q) + 1\<rparr>);
                       st \<leftarrow> BuildSkip st p;
                       trust \<leftarrow> (case GetBlockTrust (st p) of Inl e \<Rightarrow> None | Inr t \<Rightarrow> Some t);
                       let b = (st p)\<lparr>bnChainTrust := bu_add (bnChainTrust (st q)) trust\<rparr>;
                       let b = snd (SetStakeEntropyBit (GetStakeEntropyBit b) b);
                       (ok, modifier, fGenerated) \<leftarrow>
                         ComputeNextStakeModifier (K\<lparr>ke_store := st(p := b), ke_mapBlockIndex := map_of ((blk_hash block, p) # mapBlockIndex s)\<rparr>) (Some q);
                       Some (st(p := SetStakeModifier modifier fGenerated b)) });
            proof \<leftarrow> (case GetBlockProof (st p) of Inl e \<Rightarrow> None | Inr w \<Rightarrow> Some w);
            let work = (case pprev (st p) of None \<Rightarrow> bu_of_uint64 8 0 | Some q \<Rightarrow> nChainWork (st q));
            (raised, b) \<leftarrow> RaiseValidity BLOCK_VALID_TREE ((st p)\<lparr>nChainWork := bu_add work proof\<rparr>);
            let s = s\<lparr>ix_store := st(p := b), mapBlockIndex := (blk_hash block, p) # mapBlockIndex s,
                       nTx := (nTx s)(p := 0), nChainTx := (nChainTx s)(p := 0), nSequenceId := (nSequenceId s)(p := 0)\<rparr>;
            Some (p, s\<lparr>pindexBestHeader :=
                         (case pindexBestHeader s of
                            None \<Rightarrow> Some p
                          | Some h \<Rightarrow> if more_work s p h then Some p else Some h),
                       setDirtyBlockIndex := insert p (setDirtyBlockIndex s)\<rparr>) })"

text \<open>
  The queue of \<open>ReceivedBlockTransactions\<close>: every block that can now be linked gets its count of
  transactions, its place in the order of arrival and becomes a candidate if it is no worse than the tip.
\<close>

definition link_block :: "ptr \<Rightarrow> chain_index \<Rightarrow> chain_index" where
  "link_block p s =
     (let s = s\<lparr>nChainTx := (nChainTx s)(p := (case pprev (ix_store s p) of None \<Rightarrow> 0 | Some q \<Rightarrow> nChainTx s q) + nTx s p),
                nSequenceId := (nSequenceId s)(p := nBlockSequenceId s), nBlockSequenceId := nBlockSequenceId s + 1\<rparr>;
          s = (if (case ix_tip s of None \<Rightarrow> True | Some tip \<Rightarrow> \<not> WorkLess s p tip) then add_candidate p s else s)
      in s\<lparr>mapBlocksUnlinked := filter (\<lambda>u. fst u \<noteq> p) (mapBlocksUnlinked s)\<rparr>)"

lemma link_block_unlinked: "mapBlocksUnlinked (link_block p s) = filter (\<lambda>u. fst u \<noteq> p) (mapBlocksUnlinked s)"
  by (simp add: link_block_def Let_def add_candidate_def split: option.split)

function link_queue :: "ptr list \<Rightarrow> chain_index \<Rightarrow> chain_index" where
  "link_queue [] s = s"
| "link_queue (p # queue) s =
     link_queue (queue @ map snd (filter (\<lambda>u. fst u = p) (mapBlocksUnlinked s))) (link_block p s)"
  by pat_completeness auto
termination
proof (relation "measure (\<lambda>(queue, s). length queue + length (mapBlocksUnlinked s))", simp)
  fix p queue and s :: chain_index
  show "((queue @ map snd (filter (\<lambda>u. fst u = p) (mapBlocksUnlinked s)), link_block p s), p # queue, s)
      \<in> measure (\<lambda>(queue, s). length queue + length (mapBlocksUnlinked s))"
    using sum_length_filter_compl [of "\<lambda>u. fst u = p" "mapBlocksUnlinked s"] by (simp add: link_block_unlinked)
qed

text \<open>The position of the block in its file is left out.\<close>

definition ReceivedBlockTransactions :: "CBlock \<Rightarrow> ptr \<Rightarrow> chain_index \<Rightarrow> chain_index option" where
  "ReceivedBlockTransactions block p s = do {
     let b = (if block_IsProofOfStake block then SetProofOfStake (ix_store s p) else ix_store s p);
     (raised, b) \<leftarrow> RaiseValidity BLOCK_VALID_TRANSACTIONS (b\<lparr>nStatus := nStatus b OR BLOCK_HAVE_DATA\<rparr>);
     let s = s\<lparr>ix_store := (ix_store s)(p := b), nTx := (nTx s)(p := of_nat (length (vtx block))), nChainTx := (nChainTx s)(p := 0),
                setDirtyBlockIndex := insert p (setDirtyBlockIndex s)\<rparr>;
     (case pprev b of
        None \<Rightarrow> Some (link_queue [p] s)
      | Some q \<Rightarrow>
          if nChainTx s q \<noteq> 0 then Some (link_queue [p] s)
          else do {
            valid \<leftarrow> IsValid BLOCK_VALID_TREE (ix_store s q);
            Some (if valid then s\<lparr>mapBlocksUnlinked := mapBlocksUnlinked s @ [(q, p)]\<rparr> else s) }) }"

end
