(* ===== verification/Mempool.thy ===== *)
theory Mempool
  imports Connect
begin

text \<open>
  The memory pool \<open>CTxMemPool\<close> of \<open>src/src/txmempool.cpp\<close>: its transactions, the index from spent
  outputs to the inputs that spend them, and the view \<open>CCoinsViewMemPool\<close>. A \<open>std::map\<close> is an ordered
  association list. A pointer to a pooled transaction is the key of its node, so a dangling pointer is
  a key without an entry, and following one is the outer \<open>None\<close>. Priorities (doubles) and the fee
  estimator are left out.
\<close>

section \<open>Ordered maps\<close>

fun omap_insert :: "('k \<Rightarrow> 'k \<Rightarrow> bool) \<Rightarrow> 'k \<Rightarrow> 'v \<Rightarrow> ('k \<times> 'v) list \<Rightarrow> ('k \<times> 'v) list" where
  "omap_insert lt k v [] = [(k, v)]"
| "omap_insert lt k v ((a, b) # m) =
     (if k = a then (k, v) # m
      else if lt k a then (k, v) # (a, b) # m
      else (a, b) # omap_insert lt k v m)"

definition omap_erase :: "'k \<Rightarrow> ('k \<times> 'v) list \<Rightarrow> ('k \<times> 'v) list" where
  "omap_erase k m = filter (\<lambda>p. fst p \<noteq> k) m"

section \<open>The state\<close>

definition MEMPOOL_HEIGHT :: int where "MEMPOOL_HEIGHT = 0x7FFFFFFF"

record CTxMemPoolEntry =
  me_tx :: CTransaction
  me_nFee :: int
  me_nTxSize :: nat
  me_nModSize :: nat
  me_nTime :: int
  me_nHeight :: uint32

text \<open>The constructor; the size is the one of the serialisation.\<close>

definition CTxMemPoolEntry_of :: "CTransaction \<Rightarrow> nat \<Rightarrow> int \<Rightarrow> int \<Rightarrow> uint32 \<Rightarrow> CTxMemPoolEntry" where
  "CTxMemPoolEntry_of tx nTxSize nFee now h =
     \<lparr>me_tx = tx, me_nFee = nFee, me_nTxSize = nTxSize, me_nModSize = CalculateModifiedSize tx nTxSize,
      me_nTime = now, me_nHeight = h\<rparr>"

record CInPoint =
  ip_ptx :: hash256
  ip_n :: uint32

record CTxMemPool =
  mapTx :: "(hash256 \<times> CTxMemPoolEntry) list"
  mapNextTx :: "(COutPoint \<times> CInPoint) list"
  mapDeltas :: "(hash256 \<times> int) list"
  totalTxSize :: uint64
  nTransactionsUpdated :: uint32

definition empty_pool :: CTxMemPool where
  "empty_pool = \<lparr>mapTx = [], mapNextTx = [], mapDeltas = [], totalTxSize = 0, nTransactionsUpdated = 0\<rparr>"

definition pool_exists :: "CTxMemPool \<Rightarrow> hash256 \<Rightarrow> bool" where
  "pool_exists st h \<longleftrightarrow> map_of (mapTx st) h \<noteq> None"

definition pool_lookup :: "CTxMemPool \<Rightarrow> hash256 \<Rightarrow> CTransaction option" where
  "pool_lookup st h = map_option me_tx (map_of (mapTx st) h)"

definition queryHashes :: "CTxMemPool \<Rightarrow> hash256 list" where
  "queryHashes st = map fst (mapTx st)"

section \<open>Adding\<close>

fun link_inputs :: "hash256 \<Rightarrow> CTxIn list \<Rightarrow> nat \<Rightarrow> (COutPoint \<times> CInPoint) list \<Rightarrow> (COutPoint \<times> CInPoint) list" where
  "link_inputs h [] i m = m"
| "link_inputs h (txin # ins) i m =
     link_inputs h ins (Suc i) (omap_insert COutPoint_less (prevout txin) \<lparr>ip_ptx = h, ip_n = of_nat i\<rparr> m)"

definition addUnchecked :: "hash256 \<Rightarrow> CTxMemPoolEntry \<Rightarrow> CTxMemPool \<Rightarrow> CTxMemPool" where
  "addUnchecked h e st =
     st\<lparr>mapTx := omap_insert (<) h e (mapTx st),
        mapNextTx := (if \<not> HasZerocoinSpendInputs (me_tx e) then link_inputs h (vin (me_tx e)) 0 (mapNextTx st) else mapNextTx st),
        nTransactionsUpdated := nTransactionsUpdated st + 1,
        totalTxSize := totalTxSize st + of_nat (me_nTxSize e)\<rparr>"

section \<open>Removing\<close>

text \<open>The transactions of the pool that spend the outputs \<open>is\<close> of \<open>h\<close>.\<close>

fun children_loop :: "CTxMemPool \<Rightarrow> hash256 \<Rightarrow> nat list \<Rightarrow> hash256 list option" where
  "children_loop st h [] = Some []"
| "children_loop st h (i # is) =
     (case map_of (mapNextTx st) \<lparr>op_hash = h, op_n = of_nat i\<rparr> of
        None \<Rightarrow> children_loop st h is
      | Some it \<Rightarrow>
          (case map_of (mapTx st) (ip_ptx it) of
             None \<Rightarrow> None
           | Some e \<Rightarrow> map_option (\<lambda>cs. txid (me_tx e) # cs) (children_loop st h is)))"

definition remove_one :: "hash256 \<Rightarrow> CTxMemPoolEntry \<Rightarrow> CTxMemPool \<Rightarrow> CTxMemPool" where
  "remove_one h e st =
     st\<lparr>mapNextTx := fold (\<lambda>txin. omap_erase (prevout txin)) (vin (me_tx e)) (mapNextTx st),
        totalTxSize := totalTxSize st - of_nat (me_nTxSize e),
        mapTx := omap_erase h (mapTx st),
        nTransactionsUpdated := nTransactionsUpdated st + 1\<rparr>"

lemma length_omap_erase: "map_of m k = Some v \<Longrightarrow> length (omap_erase k m) < length m"
  unfolding omap_erase_def by (rule length_filter_less [of "(k, v)"]) (auto dest: map_of_SomeD)

text \<open>The loop over the queue \<open>txToRemove\<close>.\<close>

function remove_loop ::
  "CTxMemPool \<Rightarrow> bool \<Rightarrow> hash256 list \<Rightarrow> CTransaction list \<Rightarrow> (CTransaction list \<times> CTxMemPool) option" where
  "remove_loop st fRecursive [] removed = Some (removed, st)"
| "remove_loop st fRecursive (h # q) removed =
     (case map_of (mapTx st) h of
        None \<Rightarrow> remove_loop st fRecursive q removed
      | Some e \<Rightarrow>
          (case (if fRecursive then children_loop st h [0..<length (vout (me_tx e))] else Some []) of
             None \<Rightarrow> None
           | Some cs \<Rightarrow> remove_loop (remove_one h e st) fRecursive (q @ cs) (removed @ [me_tx e])))"
  by pat_completeness auto
termination
  by (relation "measures [\<lambda>(st, f, q, r). length (mapTx st), \<lambda>(st, f, q, r). length q]")
    (auto simp: remove_one_def length_omap_erase)

definition pool_remove ::
  "CTxMemPool \<Rightarrow> CTransaction \<Rightarrow> CTransaction list \<Rightarrow> bool \<Rightarrow> (CTransaction list \<times> CTxMemPool) option" where
  "pool_remove st origTx removed fRecursive =
     (case (if fRecursive \<and> \<not> pool_exists st (txid origTx)
            then children_loop st (txid origTx) [0..<length (vout origTx)] else Some []) of
        None \<Rightarrow> None
      | Some cs \<Rightarrow> remove_loop st fRecursive (txid origTx # cs) removed)"

text \<open>Two transactions are the same when their hashes are.\<close>

fun conflicts_loop ::
  "CTxMemPool \<Rightarrow> CTransaction \<Rightarrow> CTxIn list \<Rightarrow> CTransaction list \<Rightarrow> (CTransaction list \<times> CTxMemPool) option" where
  "conflicts_loop st tx [] removed = Some (removed, st)"
| "conflicts_loop st tx (txin # ins) removed =
     (case map_of (mapNextTx st) (prevout txin) of
        None \<Rightarrow> conflicts_loop st tx ins removed
      | Some it \<Rightarrow>
          (case map_of (mapTx st) (ip_ptx it) of
             None \<Rightarrow> None
           | Some e \<Rightarrow>
               if txid (me_tx e) \<noteq> txid tx then
                 (case pool_remove st (me_tx e) removed True of
                    None \<Rightarrow> None
                  | Some (removed, st) \<Rightarrow> conflicts_loop st tx ins removed)
               else conflicts_loop st tx ins removed))"

definition removeConflicts ::
  "CTxMemPool \<Rightarrow> CTransaction \<Rightarrow> CTransaction list \<Rightarrow> (CTransaction list \<times> CTxMemPool) option" where
  "removeConflicts st tx removed = conflicts_loop st tx (vin tx) removed"

definition ClearPrioritisation :: "CTxMemPool \<Rightarrow> hash256 \<Rightarrow> CTxMemPool" where
  "ClearPrioritisation st h = st\<lparr>mapDeltas := omap_erase h (mapDeltas st)\<rparr>"

text \<open>The fee part of \<open>PrioritiseTransaction\<close>.\<close>

definition PrioritiseTransaction :: "CTxMemPool \<Rightarrow> hash256 \<Rightarrow> int \<Rightarrow> CTxMemPool" where
  "PrioritiseTransaction st h nFeeDelta =
     st\<lparr>mapDeltas := omap_insert (<) h
          (add64 (case map_of (mapDeltas st) h of None \<Rightarrow> 0 | Some d \<Rightarrow> d) nFeeDelta) (mapDeltas st)\<rparr>"

definition ApplyDeltas :: "CTxMemPool \<Rightarrow> hash256 \<Rightarrow> int \<Rightarrow> int" where
  "ApplyDeltas st h nFeeDelta = (case map_of (mapDeltas st) h of None \<Rightarrow> nFeeDelta | Some d \<Rightarrow> add64 nFeeDelta d)"

fun removeForBlock ::
  "CTxMemPool \<Rightarrow> CTransaction list \<Rightarrow> CTransaction list \<Rightarrow> (CTransaction list \<times> CTxMemPool) option" where
  "removeForBlock st [] conflicts = Some (conflicts, st)"
| "removeForBlock st (tx # txs) conflicts =
     (case pool_remove st tx [] False of
        None \<Rightarrow> None
      | Some (dummy, st) \<Rightarrow>
          (case removeConflicts st tx conflicts of
             None \<Rightarrow> None
           | Some (conflicts, st) \<Rightarrow> removeForBlock (ClearPrioritisation st (txid tx)) txs conflicts))"

definition pool_clear :: "CTxMemPool \<Rightarrow> CTxMemPool" where
  "pool_clear st = st\<lparr>mapTx := [], mapNextTx := [], totalTxSize := 0, nTransactionsUpdated := nTransactionsUpdated st + 1\<rparr>"

section \<open>Immature coinbase spends\<close>

text \<open>Whether one transaction has to go; \<open>None\<close> is the failed \<open>assert\<close> of the sanity check.\<close>

fun immature_loop ::
  "'s getter \<Rightarrow> CTxMemPool \<Rightarrow> bool \<Rightarrow> uint32 \<Rightarrow> uint32 \<Rightarrow> 's view_cache \<Rightarrow> CTxIn list \<Rightarrow> (bool \<times> 's view_cache) option" where
  "immature_loop get st fSanityCheck nMemPoolHeight maturity v [] = Some (False, v)"
| "immature_loop get st fSanityCheck nMemPoolHeight maturity v (txin # ins) =
     (if pool_exists st (op_hash (prevout txin))
      then immature_loop get st fSanityCheck nMemPoolHeight maturity v ins
      else case cache_GetCoins get v (op_hash (prevout txin)) of
        (None, v) \<Rightarrow> if fSanityCheck then None else Some (True, v)
      | (Some c, v) \<Rightarrow>
          if (fCoinBase c \<or> fCoinStake c) \<and> nMemPoolHeight - of_int (cHeight c) < maturity then Some (True, v)
          else immature_loop get st fSanityCheck nMemPoolHeight maturity v ins)"

fun immature_txs ::
  "'s getter \<Rightarrow> CTxMemPool \<Rightarrow> bool \<Rightarrow> uint32 \<Rightarrow> uint32 \<Rightarrow> 's view_cache \<Rightarrow> (hash256 \<times> CTxMemPoolEntry) list \<Rightarrow>
   (CTransaction list \<times> 's view_cache) option" where
  "immature_txs get st fSanityCheck h maturity v [] = Some ([], v)"
| "immature_txs get st fSanityCheck h maturity v ((k, e) # m) =
     (case immature_loop get st fSanityCheck h maturity v (vin (me_tx e)) of
        None \<Rightarrow> None
      | Some (b, v) \<Rightarrow>
          map_option (\<lambda>(txs, v). (if b then me_tx e # txs else txs, v)) (immature_txs get st fSanityCheck h maturity v m))"

fun remove_each :: "CTxMemPool \<Rightarrow> CTransaction list \<Rightarrow> CTxMemPool option" where
  "remove_each st [] = Some st"
| "remove_each st (tx # txs) =
     (case pool_remove st tx [] True of None \<Rightarrow> None | Some (removed, st) \<Rightarrow> remove_each st txs)"

definition removeCoinbaseSpends ::
  "'s getter \<Rightarrow> bool \<Rightarrow> uint32 \<Rightarrow> uint32 \<Rightarrow> 's view_cache \<Rightarrow> CTxMemPool \<Rightarrow> (CTxMemPool \<times> 's view_cache) option" where
  "removeCoinbaseSpends get fSanityCheck maturity nMemPoolHeight v st =
     (case immature_txs get st fSanityCheck nMemPoolHeight maturity v (mapTx st) of
        None \<Rightarrow> None
      | Some (txs, v) \<Rightarrow> map_option (\<lambda>st. (st, v)) (remove_each st txs))"

section \<open>Views\<close>

definition pruneSpent :: "CTxMemPool \<Rightarrow> hash256 \<Rightarrow> CCoins \<Rightarrow> CCoins" where
  "pruneSpent st hashTx c =
     fold (\<lambda>(out, ip) c. case Spend c \<lparr>op_hash = 0, op_n = op_n out\<rparr> of None \<Rightarrow> c | Some (c', undo) \<Rightarrow> c')
       (takeWhile (\<lambda>p. op_hash (fst p) = hashTx)
         (dropWhile (\<lambda>p. COutPoint_less (fst p) \<lparr>op_hash = hashTx, op_n = 0\<rparr>) (mapNextTx st))) c"

text \<open>The pool over a view; the state is the pool and the state of the view.\<close>

definition mempool_GetCoins :: "'s getter \<Rightarrow> (CTxMemPool \<times> 's) getter" where
  "mempool_GetCoins get s h =
     (case pool_lookup (fst s) h of
        Some tx \<Rightarrow> (Some (FromTx tx MEMPOOL_HEIGHT), s)
      | None \<Rightarrow>
          (case get (snd s) h of
             (None, b) \<Rightarrow> (None, (fst s, b))
           | (Some c, b) \<Rightarrow> (if IsPruned c then None else Some c, (fst s, b))))"

definition mempool_GetBestBlock :: "('s \<Rightarrow> hash256 \<times> 's) \<Rightarrow> CTxMemPool \<times> 's \<Rightarrow> hash256 \<times> (CTxMemPool \<times> 's)" where
  "mempool_GetBestBlock getbest s = (case getbest (snd s) of (h, b) \<Rightarrow> (h, (fst s, b)))"

definition mempool_HaveCoins ::
  "('s \<Rightarrow> hash256 \<Rightarrow> bool \<times> 's) \<Rightarrow> CTxMemPool \<times> 's \<Rightarrow> hash256 \<Rightarrow> bool \<times> (CTxMemPool \<times> 's)" where
  "mempool_HaveCoins have s h =
     (if pool_exists (fst s) h then (True, s) else case have (snd s) h of (b, s') \<Rightarrow> (b, (fst s, s')))"

end
