(* ===== verification/Accept.thy ===== *)
theory Accept
  imports Mempool ConnectBlock
begin

text \<open>
  \<open>AcceptToMemoryPool\<close> of \<open>src/src/main.cpp\<close>: the checks of a loose transaction, in a cache over
  the memory pool over \<open>pcoinsTip\<close>, and its entry into the pool. Priorities, the rate limiter of free
  transactions and the zerocoin proofs are functions of an environment. The outer \<open>None\<close> is a failed
  \<open>assert\<close>, a dereferenced NULL or an index out of range.
\<close>

record accept_env =
  ae_connect :: connect_env
  ae_standard :: standard_env
  ae_height :: int
  ae_GetTime :: int
  ae_minRelayTxFee :: int
  ae_mintFee :: int
  ae_base_script :: script_env
  ae_priorityDelta :: "hash256 \<Rightarrow> bool"
  ae_AllowFree :: "CTransaction \<Rightarrow> bool"
  ae_relaypriority :: bool
  ae_rateLimited :: bool
  ae_broadcast :: "hash256 \<Rightarrow> bool"

abbreviation ae_params :: "accept_env \<Rightarrow> CChainParams" where
  "ae_params E \<equiv> cn_params (ae_connect E)"

abbreviation ae_block :: "accept_env \<Rightarrow> block_env" where
  "ae_block E \<equiv> cn_block (ae_connect E)"

record accept_flags =
  fLimitFree :: bool
  fRejectInsaneFee :: bool
  ignoreFees :: bool

definition DEFAULT_BLOCK_PRIORITY_SIZE :: nat where "DEFAULT_BLOCK_PRIORITY_SIZE = 50000"

definition MAX_TX_SIGOPS_CURRENT :: nat where "MAX_TX_SIGOPS_CURRENT = MAX_BLOCK_SIGOPS_CURRENT div 5"

definition GetMinRelayFee :: "accept_env \<Rightarrow> CTxMemPool \<Rightarrow> CTransaction \<Rightarrow> nat \<Rightarrow> bool \<Rightarrow> int" where
  "GetMinRelayFee E pool tx nBytes fAllowFree =
     (if ae_priorityDelta E (txid tx) \<or> 0 < ApplyDeltas pool (txid tx) 0 then 0
      else
        let nMinFee = GetFee (ae_minRelayTxFee E) nBytes;
            nMinFee = (if fAllowFree \<and> nBytes < DEFAULT_BLOCK_PRIORITY_SIZE - 1000 then 0 else nMinFee)
        in if \<not> MoneyRange (ae_params E) nMinFee then nMaxMoneyOut (ae_params E) else nMinFee)"

text \<open>\<open>CheckFinalTx\<close> with \<open>STANDARD_LOCKTIME_VERIFY_FLAGS\<close>, which take the median time of the tip.\<close>

definition CheckFinalTx :: "accept_env \<Rightarrow> CTransaction \<Rightarrow> bool option" where
  "CheckFinalTx E tx =
     (case be_tip (ae_block E) of
        None \<Rightarrow> None
      | Some tip \<Rightarrow>
          Some (IsFinalTx (ae_height E) (be_adjustedTime (ae_block E)) tx (ae_height E + 1)
                  (GetMedianTimePast (be_store (ae_block E)) tip)))"

definition accept_check_env :: "accept_env \<Rightarrow> check_env" where
  "accept_check_env E = \<lparr>ce_params = ae_params E,
     fZerocoinActive = (nZerocoinStartHeight (ae_params E) \<le> ae_height E),
     CheckZerocoinMint = be_CheckZerocoinMint (ae_block E), CheckZerocoinSpend = be_CheckZerocoinSpend (ae_block E)\<rparr>"

text \<open>The checks before the coins are looked up, up to the conflicts in the pool.\<close>

definition accept_loose :: "accept_env \<Rightarrow> CTxMemPool \<Rightarrow> CTransaction \<Rightarrow> unit validation option" where
  "accept_loose E pool tx =
     (if cn_maintenanceMode (ae_connect E) < be_adjustedTime (ae_block E) \<and> ContainsZerocoins tx
        then Some (Inl (10, ''bad-tx''))
      else if CheckTransaction (accept_check_env E) tx \<noteq> Inr () then Some (Inl (100, ''bad-tx''))
      else if IsCoinBase tx then Some (Inl (100, ''coinbase''))
      else if IsCoinStake tx then Some (Inl (100, ''coinstake''))
      else case CheckFinalTx E tx of
        None \<Rightarrow> None
      | Some False \<Rightarrow> Some (Inl (0, ''non-final''))
      | Some True \<Rightarrow>
          (case (if fRequireStandard (ae_params E) then IsStandardTx (ae_standard E) tx else Some (Inr ())) of
             None \<Rightarrow> None
           | Some (Inl reason) \<Rightarrow> Some (Inl (0, reason))
           | Some (Inr _) \<Rightarrow>
               if pool_exists pool (txid tx) then Some (Inl (0, ''''))
               else if list_ex (\<lambda>txin. case mapLockedInputs (ae_block E) (prevout txin) of
                        None \<Rightarrow> False | Some h \<Rightarrow> h \<noteq> txid tx) (vin tx)
                 then Some (Inl (0, ''tx-lock-conflict''))
               else if \<not> HasZerocoinSpendInputs tx \<and>
                       list_ex (\<lambda>txin. map_of (mapNextTx pool) (prevout txin) \<noteq> None) (vin tx)
                 then Some (Inl (0, ''''))
               else Some (Inr ())))"

section \<open>The coins\<close>

text \<open>The inputs of a zerocoin spend; only public spends are parsed.\<close>

fun zerocoin_spends_loop :: "accept_env \<Rightarrow> CTransaction \<Rightarrow> CTxIn list \<Rightarrow> unit validation" where
  "zerocoin_spends_loop E tx [] = Inr ()"
| "zerocoin_spends_loop E tx (txin # ins) =
     (let isPublicSpend = CTxIn_IsZerocoinPublicSpend txin
      in if \<not> CTxIn_IsZerocoinSpend txin \<and> \<not> isPublicSpend then Inl (0, ''bad-txns-invalid-zagr'')
         else if \<not> CheckPublicCoinSpendEnforced (ae_params E) (ae_height E) isPublicSpend
           then Inl (0, ''bad-txns-invalid-zagr'')
         else if isPublicSpend \<and> cn_denomination (ae_connect E) tx txin = None then Inl (0, '''')
         else if \<not> ContextualCheckZerocoinSpend (ae_connect E) tx txin then Inl (0, ''bad-txns-invalid-zagr'')
         else zerocoin_spends_loop E tx ins)"

text \<open>The result is \<open>nValueIn\<close>.\<close>

definition accept_zerocoin :: "accept_env \<Rightarrow> CTransaction \<Rightarrow> int validation" where
  "accept_zerocoin E tx =
     (if cn_txHeight (ae_connect E) (txid tx) \<noteq> None then Inl (0, ''bad-txns-inputs-spent'')
      else case zerocoin_spends_loop E tx (vin tx) of
        Inl e \<Rightarrow> Inl e
      | Inr _ \<Rightarrow> Inr (GetZerocoinSpent tx))"

text \<open>The loop that looks every input up; the flag is \<open>pfMissingInputs\<close>.\<close>

fun lookup_inputs ::
  "accept_env \<Rightarrow> 's getter \<Rightarrow> 's view_cache \<Rightarrow> CTxIn list \<Rightarrow> (bool \<times> unit validation) \<times> 's view_cache" where
  "lookup_inputs E get v [] = ((False, Inr ()), v)"
| "lookup_inputs E get v (txin # ins) =
     (case cache_HaveCoins get v (op_hash (prevout txin)) of
        (have, v) \<Rightarrow>
          if \<not> have then ((True, Inl (0, '''')), v)
          else if \<not> ValidOutPoint (ae_connect E) (prevout txin) (ae_height E)
            then ((False, Inl (0, ''bad-txns-invalid-inputs'')), v)
          else lookup_inputs E get v ins)"

text \<open>The coins of a transaction with ordinary inputs; the result is \<open>nValueIn\<close>.\<close>

definition accept_coins ::
  "accept_env \<Rightarrow> 's getter \<Rightarrow> ('s \<Rightarrow> hash256 \<times> 's) \<Rightarrow> 's view_cache \<Rightarrow> CTransaction \<Rightarrow>
   ((bool \<times> int validation) \<times> 's view_cache) option" where
  "accept_coins E get getbest v tx =
     (case cache_HaveCoins get v (txid tx) of
        (already, v) \<Rightarrow>
          if already then Some ((False, Inl (0, '''')), v)
          else case lookup_inputs E get v (vin tx) of
            ((missing, Inl e), v) \<Rightarrow> Some ((missing, Inl e), v)
          | ((missing, Inr _), v) \<Rightarrow>
              if \<not> list_all (\<lambda>out. CTxOut_IsZerocoinMint out \<longrightarrow> ContextualCheckZerocoinMint (ae_connect E) tx out) (vout tx)
              then Some ((False, Inl (0, '''')), v)
              else case HaveInputs get v tx of
                (have, v) \<Rightarrow>
                  if \<not> have then Some ((False, Inl (0, ''bad-txns-inputs-spent'')), v)
                  else case cache_GetBestBlock getbest v of
                    (h, v) \<Rightarrow>
                      (case GetValueIn get v tx of
                         None \<Rightarrow> None
                       | Some (valueIn, v) \<Rightarrow> Some ((False, Inr valueIn), v)))"

text \<open>\<open>SetBackend\<close> of the dummy view, which has no coins and no best block.\<close>

definition dummy_GetCoins :: "unit getter" where
  "dummy_GetCoins s h = (None, s)"

definition dummy_GetBestBlock :: "unit \<Rightarrow> hash256 \<times> unit" where
  "dummy_GetBestBlock s = (0, s)"

definition detach :: "'s view_cache \<Rightarrow> unit view_cache" where
  "detach v = \<lparr>base = (), cacheCoins = cacheCoins v, hashBlock = hashBlock v\<rparr>"

section \<open>Fees and scripts\<close>

definition accept_fees :: "accept_env \<Rightarrow> accept_flags \<Rightarrow> CTxMemPool \<Rightarrow> CTransaction \<Rightarrow> nat \<Rightarrow> int \<Rightarrow> unit validation" where
  "accept_fees E fl pool tx nSize nTxFees =
     (let low = (nTxFees < GetFee (ae_minRelayTxFee E) nSize); zc = HasZerocoinSpendInputs tx
      in if fLimitFree fl \<and> nTxFees < GetMinRelayFee E pool tx nSize True \<and> \<not> zc then Inl (0, ''insufficient fee'')
         else if HasZerocoinMintOutputs tx \<and> nTxFees < ae_mintFee E * int (GetZerocoinMintCount tx)
           then Inl (0, ''insufficient fee for zerocoinmint'')
         else if \<not> HasZerocoinMintOutputs tx \<and> \<not> zc \<and> ae_relaypriority E \<and> low \<and> \<not> ae_AllowFree E tx
           then Inl (0, ''insufficient priority'')
         else if fLimitFree fl \<and> low \<and> \<not> zc \<and> ae_rateLimited E then Inl (0, ''rate limited free transaction'')
         else Inr ())"

text \<open>The flag that a supermajority of the upgrade adds.\<close>

definition accept_cltv :: "accept_env \<Rightarrow> uint32" where
  "accept_cltv E =
     (if IsSuperMajority (ae_params E) (be_store (ae_block E)) 5 (be_tip (ae_block E))
           (nat (nEnforceBlockUpgradeMajority (ae_params E)))
      then SCRIPT_VERIFY_CHECKLOCKTIMEVERIFY else 0)"

text \<open>The two runs of \<open>CheckInputs\<close>, with the standard and with the mandatory flags.\<close>

definition accept_scripts ::
  "accept_env \<Rightarrow> 's getter \<Rightarrow> ('s \<Rightarrow> hash256 \<times> 's) \<Rightarrow> 's view_cache \<Rightarrow> CTransaction \<Rightarrow> unit validation option" where
  "accept_scripts E get getbest v tx =
     (let cltv = accept_cltv E;
          IE = inputs_env_of (ae_connect E)
      in case CheckInputs IE get getbest v tx True (STANDARD_SCRIPT_VERIFY_FLAGS OR cltv) of
           None \<Rightarrow> None
         | Some (Inl e, v) \<Rightarrow> Some (Inl e)
         | Some (Inr _, v) \<Rightarrow>
             map_option fst (CheckInputs IE get getbest v tx True (MANDATORY_SCRIPT_VERIFY_FLAGS OR cltv)))"

text \<open>
  What follows the lookup of the coins. The pool comes back with the entry, or only with the deltas of
  a broadcast transaction.
\<close>

definition accept_entry ::
  "accept_env \<Rightarrow> accept_flags \<Rightarrow> 's getter \<Rightarrow> ('s \<Rightarrow> hash256 \<times> 's) \<Rightarrow> 's view_cache \<Rightarrow> CTxMemPool \<Rightarrow> CTransaction \<Rightarrow> int \<Rightarrow>
   (unit validation \<times> CTxMemPool) option" where
  "accept_entry E fl get getbest v pool tx valueIn =
     (case (if fRequireStandard (ae_params E) then AreInputsStandard (ae_base_script E) get v tx else Some (True, v)) of
        None \<Rightarrow> None
      | Some (False, v) \<Rightarrow> Some (Inl (0, ''''), pool)
      | Some (True, v) \<Rightarrow>
          (case (if \<not> HasZerocoinSpendInputs tx then GetP2SHSigOpCount get v tx else Some (0, v)) of
             None \<Rightarrow> None
           | Some (n, v) \<Rightarrow>
               if \<not> HasZerocoinSpendInputs tx \<and> MAX_TX_SIGOPS_CURRENT < GetLegacySigOpCount tx + n
               then Some (Inl (0, ''bad-txns-too-many-sigops''), pool)
               else (case GetValueOut tx of
                  Inl _ \<Rightarrow> None
                | Inr valueOut \<Rightarrow>
                    let nTxFees = sub64 valueIn valueOut;
                        nSize = CTransaction_size tx;
                        entry = CTxMemPoolEntry_of tx nSize nTxFees (ae_GetTime E) (of_int (ae_height E));
                        (fees, pool) =
                          (if ae_broadcast E (txid tx) then (Inr (), PrioritiseTransaction pool (txid tx) (COIN div 10))
                           else (if \<not> ignoreFees fl then accept_fees E fl pool tx nSize nTxFees else Inr (), pool))
                    in (case fees of
                          Inl e \<Rightarrow> Some (Inl e, pool)
                        | Inr _ \<Rightarrow>
                            if fRejectInsaneFee fl \<and>
                               signed_take_bit 63 (GetFee (ae_minRelayTxFee E) nSize * 10000) < nTxFees
                            then Some (Inl (0, ''''), pool)
                            else (case accept_scripts E get getbest v tx of
                               None \<Rightarrow> None
                             | Some (Inl e) \<Rightarrow> Some (Inl e, pool)
                             | Some (Inr _) \<Rightarrow> Some (Inr (), addUnchecked (txid tx) entry pool))))))"

text \<open>The whole: the flag \<open>pfMissingInputs\<close>, the result, the pool and \<open>pcoinsTip\<close>.\<close>

definition AcceptToMemoryPool ::
  "accept_env \<Rightarrow> accept_flags \<Rightarrow> 's getter \<Rightarrow> ('s \<Rightarrow> hash256 \<times> 's) \<Rightarrow> 's \<Rightarrow> CTxMemPool \<Rightarrow> CTransaction \<Rightarrow>
   (bool \<times> unit validation \<times> CTxMemPool \<times> 's) option" where
  "AcceptToMemoryPool E fl get getbest tip pool tx =
     (case accept_loose E pool tx of
        None \<Rightarrow> None
      | Some (Inl e) \<Rightarrow> Some (False, Inl e, pool, tip)
      | Some (Inr _) \<Rightarrow>
          if HasZerocoinSpendInputs tx then
            (case accept_zerocoin E tx of
               Inl e \<Rightarrow> Some (False, Inl e, pool, tip)
             | Inr valueIn \<Rightarrow>
                 map_option (\<lambda>(r, pool). (False, r, pool, tip))
                   (accept_entry E fl dummy_GetCoins dummy_GetBestBlock (new_cache ()) pool tx valueIn))
          else
            (case accept_coins E (mempool_GetCoins get) (mempool_GetBestBlock getbest) (new_cache (pool, tip)) tx of
               None \<Rightarrow> None
             | Some ((missing, Inl e), v) \<Rightarrow> Some (missing, Inl e, pool, snd (base v))
             | Some ((missing, Inr valueIn), v) \<Rightarrow>
                 map_option (\<lambda>(r, pool). (False, r, pool, snd (base v)))
                   (accept_entry E fl dummy_GetCoins dummy_GetBestBlock (detach v) pool tx valueIn)))"

end
