(* ===== verification/Activate.thy ===== *)
theory Activate
  imports ChainState Accept
begin

text \<open>
  The node: block index, coins, memory pool and undo files together, and the operations of
  \<open>src/src/main.cpp\<close> that move the tip: \<open>ConnectTip\<close>, \<open>DisconnectTip\<close>, \<open>ActivateBestChain\<close>,
  \<open>InvalidateBlock\<close> and \<open>ReconsiderBlock\<close>. Of a step \<open>None\<close> is a failed \<open>assert\<close>, a NULL dereference
  or a throw. Of a loop the outer \<open>None\<close> is a loop that never ends and \<open>Some None\<close> such a crash. Signals
  to the wallet and to peers, warnings and the self-checks of the pool and the index are left out.
\<close>

record node =
  nd_index :: chain_index
  nd_coins :: coins_tip
  nd_pool :: CTxMemPool
  nd_undo :: "ptr \<Rightarrow> CTxInUndo list list option"
  nd_supply :: "ptr \<Rightarrow> int"

text \<open>
  The outside: what \<open>ReadBlockFromDisk\<close> finds, whether the writes of \<open>ConnectBlock\<close> and of
  \<open>FlushStateToDisk\<close> succeed, and whether two blocks are in different files.
\<close>

record node_env =
  ne_connect :: connect_env
  ne_accept :: accept_env
  ne_disk :: "ptr \<Rightarrow> CBlock option"
  ne_connect_writes :: "node \<Rightarrow> ptr \<Rightarrow> bool"
  ne_flush_writes :: "node \<Rightarrow> bool"
  ne_flush_expired :: "node \<Rightarrow> bool"
  ne_new_file :: "ptr \<Rightarrow> ptr \<Rightarrow> bool"
  ne_nCoinCacheSize :: nat
  ne_fSanityCheck :: bool

abbreviation nd_tip :: "node \<Rightarrow> ptr option" where
  "nd_tip nd \<equiv> ix_tip (nd_index nd)"

abbreviation nd_store :: "node \<Rightarrow> store" where
  "nd_store nd \<equiv> ix_store (nd_index nd)"

definition node_cn :: "node_env \<Rightarrow> node \<Rightarrow> connect_env" where
  "node_cn E nd = (ne_connect E)\<lparr>
     cn_block := (cn_block (ne_connect E))\<lparr>be_store := nd_store nd, be_mapBlockIndex := map_of (mapBlockIndex (nd_index nd)),
       be_tip := nd_tip nd\<rparr>,
     cn_moneySupply := nd_supply nd\<rparr>"

definition node_ae :: "node_env \<Rightarrow> node \<Rightarrow> accept_env" where
  "node_ae E nd = (ne_accept E)\<lparr>ae_connect := node_cn E nd, ae_height := Height (chainActive (nd_index nd))\<rparr>"

text \<open>A failed write leaves the state as it was.\<close>

definition FlushStateToDisk :: "node_env \<Rightarrow> bool \<Rightarrow> bool \<Rightarrow> node \<Rightarrow> bool \<times> node" where
  "FlushStateToDisk E always periodic nd =
     (if \<not> flush_due always periodic (ne_flush_expired E nd) (length (cacheCoins (nd_coins nd))) (ne_nCoinCacheSize E) then (True, nd)
      else if \<not> ne_flush_writes E nd then (False, nd)
      else case FlushStateToDisk_coins always periodic (ne_flush_expired E nd) (ne_nCoinCacheSize E) (nd_coins nd) of
        None \<Rightarrow> (False, nd)
      | Some c \<Rightarrow> (True, nd\<lparr>nd_coins := c, nd_index := (nd_index nd)\<lparr>setDirtyBlockIndex := {}\<rparr>\<rparr>))"

definition UpdateTip :: "ptr option \<Rightarrow> node \<Rightarrow> node option" where
  "UpdateTip pindexNew nd =
     (case SetTip (nd_store nd) (chainActive (nd_index nd)) pindexNew of
        None \<Rightarrow> None
      | Some v \<Rightarrow>
          if pindexNew = None then None
          else Some (nd\<lparr>nd_index := (nd_index nd)\<lparr>chainActive := v\<rparr>,
                        nd_pool := (nd_pool nd)\<lparr>nTransactionsUpdated := nTransactionsUpdated (nd_pool nd) + 1\<rparr>\<rparr>))"

section \<open>Disconnecting the tip\<close>

text \<open>The transactions of the block go back to the pool, or out of it with what depends on them.\<close>

fun resurrect :: "node_env \<Rightarrow> CTransaction list \<Rightarrow> node \<Rightarrow> node option" where
  "resurrect E [] nd = Some nd"
| "resurrect E (tx # txs) nd =
     (case (if IsCoinBase tx \<or> IsCoinStake tx then Some (False, nd)
            else case AcceptToMemoryPool (node_ae E nd) \<lparr>fLimitFree = False, fRejectInsaneFee = False, ignoreFees = False\<rparr>
                        tip_GetCoins tip_GetBestBlock (nd_coins nd) (nd_pool nd) tx of
              None \<Rightarrow> None
            | Some (missing, r, pool, tip) \<Rightarrow> Some (r = Inr (), nd\<lparr>nd_pool := pool, nd_coins := tip\<rparr>)) of
        None \<Rightarrow> None
      | Some (True, nd) \<Rightarrow> resurrect E txs nd
      | Some (False, nd) \<Rightarrow>
          (case pool_remove (nd_pool nd) tx [] True of
             None \<Rightarrow> None
           | Some (removed, pool) \<Rightarrow> resurrect E txs (nd\<lparr>nd_pool := pool\<rparr>)))"

definition DisconnectTip :: "node_env \<Rightarrow> node \<Rightarrow> (bool \<times> node) option" where
  "DisconnectTip E nd =
     (case nd_tip nd of
        None \<Rightarrow> None
      | Some p \<Rightarrow>
          (case ne_disk E p of
             None \<Rightarrow> Some (False, nd)
           | Some block \<Rightarrow>
               (case DisconnectTip_coins (node_cn E nd) block (nd_store nd p) (nd_undo nd p) (nd_coins nd) of
                  None \<Rightarrow> None
                | Some None \<Rightarrow> Some (False, nd)
                | Some (Some c) \<Rightarrow>
                    (case FlushStateToDisk E True False (nd\<lparr>nd_coins := c\<rparr>) of
                       (False, nd) \<Rightarrow> Some (False, nd)
                     | (True, nd) \<Rightarrow>
                         (case resurrect E (vtx block) nd of
                            None \<Rightarrow> None
                          | Some nd \<Rightarrow>
                              (case removeCoinbaseSpends db_GetCoins (ne_fSanityCheck E)
                                      (of_int (nMaturity (cn_params (ne_connect E)))) (of_nat (nHeight (nd_store nd p)))
                                      (nd_coins nd) (nd_pool nd) of
                                 None \<Rightarrow> None
                               | Some (pool, c) \<Rightarrow>
                                   map_option (\<lambda>nd. (True, nd))
                                     (UpdateTip (pprev (nd_store nd p)) (nd\<lparr>nd_pool := pool, nd_coins := c\<rparr>))))))))"

section \<open>Connecting a block to the tip\<close>

text \<open>\<open>TipInvalid\<close> is a block that breaks a rule, with \<open>CorruptionPossible\<close>; \<open>TipSystem\<close> is any other failure.\<close>

datatype tip_error = TipInvalid bool | TipSystem

definition CorruptionPossible :: "connect_env \<Rightarrow> CBlock \<Rightarrow> bool \<Rightarrow> bool" where
  "CorruptionPossible E block fAlreadyChecked \<longleftrightarrow>
     \<not> fAlreadyChecked \<and>
     (case CheckBlock (cn_block E) block True True of
        Inl (score, reason) \<Rightarrow> reason \<in> {''bad-header'', ''bad-txnmrklroot'', ''bad-txns-duplicate'', ''bad-blk-sigops''}
      | Inr _ \<Rightarrow> False)"

text \<open>What \<open>ConnectBlock\<close> writes once the checks have passed: the undo data and the entry of the block.\<close>

definition record_connected :: "ptr \<Rightarrow> connect_result \<Rightarrow> node \<Rightarrow> node option" where
  "record_connected p r nd =
     (let b = nd_store nd p; ix = nd_index nd
      in case IsValid BLOCK_VALID_SCRIPTS b of
           None \<Rightarrow> None
         | Some valid \<Rightarrow>
             if nStatus b AND BLOCK_HAVE_UNDO \<noteq> 0 \<and> valid then Some (nd\<lparr>nd_supply := (nd_supply nd)(p := cr_nMoneySupply r)\<rparr>)
             else
               let fresh = (nStatus b AND BLOCK_HAVE_UNDO = 0);
                   b = (if fresh then b\<lparr>nStatus := nStatus b OR BLOCK_HAVE_UNDO\<rparr> else b)
               in (case RaiseValidity BLOCK_VALID_SCRIPTS b of
                     None \<Rightarrow> None
                   | Some (raised, b) \<Rightarrow>
                       Some (nd\<lparr>nd_undo := (if fresh then (nd_undo nd)(p := Some (cr_vtxundo r)) else nd_undo nd),
                                nd_supply := (nd_supply nd)(p := cr_nMoneySupply r),
                                nd_index := ix\<lparr>ix_store := (ix_store ix)(p := b), setDirtyBlockIndex := insert p (setDirtyBlockIndex ix)\<rparr>\<rparr>)))"

definition ConnectTip ::
  "node_env \<Rightarrow> ptr \<Rightarrow> CBlock option \<Rightarrow> bool \<Rightarrow> node \<Rightarrow> ((tip_error + unit) \<times> node) option" where
  "ConnectTip E p pblock fAlreadyChecked nd =
     (if pprev (nd_store nd p) \<noteq> nd_tip nd then None
      else
        let fAlreadyChecked = (pblock \<noteq> None \<and> fAlreadyChecked); cn = node_cn E nd
        in case (case pblock of None \<Rightarrow> ne_disk E p | Some block \<Rightarrow> Some block) of
             None \<Rightarrow> Some (Inl TipSystem, nd)
           | Some block \<Rightarrow>
               (case ConnectBlock cn tip_GetCoins tip_GetBestBlock block (nd_store nd p) (new_cache (nd_coins nd)) False fAlreadyChecked of
                  None \<Rightarrow> None
                | Some (Inl e, v) \<Rightarrow>
                    (case InvalidBlockFound p (CorruptionPossible cn block fAlreadyChecked) (nd_index nd) of
                       None \<Rightarrow> None
                     | Some ix \<Rightarrow>
                         Some (Inl (TipInvalid (CorruptionPossible cn block fAlreadyChecked)), nd\<lparr>nd_index := ix, nd_coins := base v\<rparr>))
                | Some (Inr res, v) \<Rightarrow>
                    if res \<noteq> None \<and> \<not> ne_connect_writes E nd p then Some (Inl TipSystem, nd\<lparr>nd_coins := base v\<rparr>)
                    else
                      (case (case res of None \<Rightarrow> Some nd | Some r \<Rightarrow> record_connected p r nd) of
                         None \<Rightarrow> None
                       | Some nd \<Rightarrow>
                           (case Flush cache_BatchWrite v of
                              None \<Rightarrow> None
                            | Some v \<Rightarrow>
                                (case FlushStateToDisk E (case pprev (nd_store nd p) of None \<Rightarrow> False | Some q \<Rightarrow> ne_new_file E p q) False
                                        (nd\<lparr>nd_coins := base v\<rparr>) of
                                   (False, nd) \<Rightarrow> Some (Inl TipSystem, nd)
                                 | (True, nd) \<Rightarrow>
                                     (case removeForBlock (nd_pool nd) (vtx block) [] of
                                        None \<Rightarrow> None
                                      | Some (conflicted, pool) \<Rightarrow>
                                          map_option (\<lambda>nd. (Inr (), nd)) (UpdateTip (Some p) (nd\<lparr>nd_pool := pool\<rparr>))))))))"

section \<open>Activating the best chain\<close>

text \<open>The disconnected blocks down to the fork; \<open>False\<close> is a failed \<open>DisconnectTip\<close>.\<close>

partial_function (option) disconnect_to :: "node_env \<Rightarrow> ptr option \<Rightarrow> node \<Rightarrow> (bool \<times> node) option option" where
  "disconnect_to E pindexFork nd =
     (if nd_tip nd = None \<or> nd_tip nd = pindexFork then Some (Some (True, nd))
      else case DisconnectTip E nd of
        None \<Rightarrow> Some None
      | Some (ok, nd) \<Rightarrow> if ok then disconnect_to E pindexFork nd else Some (Some (False, nd)))"

text \<open>\<open>vpindexToConnect\<close>: the blocks from \<open>pindexIter\<close> down to the one above height \<open>h\<close>.\<close>

partial_function (option) blocks_above :: "store \<Rightarrow> int \<Rightarrow> ptr option \<Rightarrow> ptr list option" where
  "blocks_above st h pindexIter =
     (case pindexIter of
        None \<Rightarrow> Some []
      | Some p \<Rightarrow>
          if int (nHeight (st p)) = h then Some []
          else Option.bind (blocks_above st h (pprev (st p))) (\<lambda>ps. Some (p # ps)))"

text \<open>
  Connecting a batch, lowest block first; \<open>lowest\<close> is \<open>vpindexToConnect.back()\<close>. \<open>BatchStop\<close> leaves the
  loops of \<open>ActivateBestChainStep\<close>, \<open>BatchFail\<close> is a system error, \<open>BatchGo\<close> the next batch.
\<close>

datatype batch_end = BatchFail | BatchStop | BatchGo

fun connect_batch ::
  "node_env \<Rightarrow> ptr \<Rightarrow> CBlock option \<Rightarrow> bool \<Rightarrow> ptr option \<Rightarrow> ptr \<Rightarrow> ptr list \<Rightarrow> node \<Rightarrow> (batch_end \<times> node) option" where
  "connect_batch E mostWork pblock fAlreadyChecked oldTip lowest [] nd = Some (BatchGo, nd)"
| "connect_batch E mostWork pblock fAlreadyChecked oldTip lowest (p # ps) nd =
     (case ConnectTip E p (if p = mostWork then pblock else None) fAlreadyChecked nd of
        None \<Rightarrow> None
      | Some (Inl TipSystem, nd) \<Rightarrow> Some (BatchFail, nd)
      | Some (Inl (TipInvalid corrupt), nd) \<Rightarrow>
          map_option (\<lambda>ix. (BatchStop, nd\<lparr>nd_index := ix\<rparr>))
            (if corrupt then Some (nd_index nd) else InvalidChainFound lowest (nd_index nd))
      | Some (Inr _, nd) \<Rightarrow>
          (case PruneBlockIndexCandidates (nd_index nd) of
             None \<Rightarrow> None
           | Some ix \<Rightarrow>
               if (case oldTip of None \<Rightarrow> True | Some old \<Rightarrow> (case ix_tip ix of None \<Rightarrow> False | Some tip \<Rightarrow> more_work ix tip old))
               then Some (BatchStop, nd\<lparr>nd_index := ix\<rparr>)
               else connect_batch E mostWork pblock fAlreadyChecked oldTip lowest ps (nd\<lparr>nd_index := ix\<rparr>)))"

partial_function (option) connect_batches ::
  "node_env \<Rightarrow> ptr \<Rightarrow> CBlock option \<Rightarrow> bool \<Rightarrow> ptr option \<Rightarrow> int \<Rightarrow> node \<Rightarrow> (bool \<times> node) option option" where
  "connect_batches E mostWork pblock fAlreadyChecked oldTip h nd =
     (if h = int (nHeight (nd_store nd mostWork)) then Some (Some (True, nd))
      else
        let target = min (h + 32) (int (nHeight (nd_store nd mostWork)))
        in case GetAncestor (nd_store nd) mostWork target of
             None \<Rightarrow> Some None
           | Some pindexIter \<Rightarrow>
               Option.bind (blocks_above (nd_store nd) h pindexIter) (\<lambda>ps.
                 case connect_batch E mostWork pblock fAlreadyChecked oldTip (if ps = [] then mostWork else last ps) (rev ps) nd of
                   None \<Rightarrow> Some None
                 | Some (res, nd) \<Rightarrow>
                     if res = BatchFail then Some (Some (False, nd))
                     else if res = BatchStop then Some (Some (True, nd))
                     else connect_batches E mostWork pblock fAlreadyChecked oldTip target nd))"

definition ActivateBestChainStep ::
  "node_env \<Rightarrow> ptr \<Rightarrow> CBlock option \<Rightarrow> bool \<Rightarrow> node \<Rightarrow> (bool \<times> node) option option" where
  "ActivateBestChainStep E mostWork pblock fAlreadyChecked nd =
     (let oldTip = nd_tip nd; f = (pblock \<noteq> None \<and> fAlreadyChecked)
      in case FindFork (nd_store nd) (chainActive (nd_index nd)) mostWork of
           None \<Rightarrow> Some None
         | Some pindexFork \<Rightarrow>
             Option.bind (disconnect_to E pindexFork nd) (\<lambda>r.
               case r of
                 None \<Rightarrow> Some None
               | Some (ok, nd) \<Rightarrow>
                   if \<not> ok then Some (Some (False, nd))
                   else connect_batches E mostWork pblock f oldTip
                          (case pindexFork of None \<Rightarrow> -1 | Some p \<Rightarrow> int (nHeight (nd_store nd p))) nd))"

text \<open>Without the waiting for \<open>cs_main\<close> and the notifications, of which reading the new tip remains.\<close>

partial_function (option) ActivateBestChain ::
  "node_env \<Rightarrow> CBlock option \<Rightarrow> bool \<Rightarrow> node \<Rightarrow> (bool \<times> node) option option" where
  "ActivateBestChain E pblock fAlreadyChecked nd =
     (case FindMostWorkChain (nd_index nd) of
        None \<Rightarrow> Some None
      | Some (pindexMostWork, ix) \<Rightarrow>
          if pindexMostWork = None \<or> pindexMostWork = ix_tip ix then Some (Some (True, nd\<lparr>nd_index := ix\<rparr>))
          else
            let p = the pindexMostWork;
                own = (case pblock of None \<Rightarrow> None
                       | Some block \<Rightarrow> if blk_hash block = phashBlock (ix_store ix p) then Some block else None)
            in Option.bind (ActivateBestChainStep E p own fAlreadyChecked (nd\<lparr>nd_index := ix\<rparr>)) (\<lambda>r.
                 case r of
                   None \<Rightarrow> Some None
                 | Some (ok, nd) \<Rightarrow>
                     if \<not> ok then Some (Some (False, nd))
                     else if nd_tip nd = None \<and> \<not> be_IsInitialBlockDownload (cn_block (ne_connect E)) then Some None
                     else if nd_tip nd \<noteq> Some p then ActivateBestChain E pblock fAlreadyChecked nd
                     else Some (Some (FlushStateToDisk E False True nd))))"

section \<open>Invalidating and reconsidering\<close>

text \<open>Both loops add a valid block with all its transactions; \<open>fits\<close> compares it with the tip.\<close>

definition add_valid_candidate :: "(ptr \<Rightarrow> ptr \<Rightarrow> bool) \<Rightarrow> ptr \<Rightarrow> chain_index \<Rightarrow> chain_index option" where
  "add_valid_candidate fits p s =
     (case IsValid BLOCK_VALID_TRANSACTIONS (ix_store s p) of
        None \<Rightarrow> None
      | Some valid \<Rightarrow>
          if valid \<and> nChainTx s p \<noteq> 0 then
            (case ix_tip s of None \<Rightarrow> None | Some tip \<Rightarrow> Some (if fits p tip then add_candidate p s else s))
          else Some s)"

fun restore_candidates :: "ptr list \<Rightarrow> chain_index \<Rightarrow> chain_index option" where
  "restore_candidates [] s = Some s"
| "restore_candidates (p # ps) s =
     Option.bind (add_valid_candidate (\<lambda>p tip. \<not> WorkLess s p tip) p s) (restore_candidates ps)"

partial_function (option) invalidate_loop :: "node_env \<Rightarrow> ptr \<Rightarrow> node \<Rightarrow> (bool \<times> node) option option" where
  "invalidate_loop E p nd =
     (if \<not> ix_contains (nd_index nd) p then Some (Some (True, nd))
      else case nd_tip nd of
        None \<Rightarrow> Some None
      | Some walk \<Rightarrow>
          let ix = set_status walk (nStatus (nd_store nd walk) OR BLOCK_FAILED_CHILD) (nd_index nd);
              ix = drop_candidate walk (ix\<lparr>setDirtyBlockIndex := insert walk (setDirtyBlockIndex ix)\<rparr>)
          in case DisconnectTip E (nd\<lparr>nd_index := ix\<rparr>) of
               None \<Rightarrow> Some None
             | Some (ok, nd) \<Rightarrow> if ok then invalidate_loop E p nd else Some (Some (False, nd)))"

definition InvalidateBlock :: "node_env \<Rightarrow> ptr \<Rightarrow> node \<Rightarrow> (bool \<times> node) option option" where
  "InvalidateBlock E p nd =
     (let ix = set_status p (nStatus (nd_store nd p) OR BLOCK_FAILED_VALID) (nd_index nd);
          ix = drop_candidate p (ix\<lparr>setDirtyBlockIndex := insert p (setDirtyBlockIndex ix)\<rparr>)
      in Option.bind (invalidate_loop E p (nd\<lparr>nd_index := ix\<rparr>)) (\<lambda>r.
           case r of
             None \<Rightarrow> Some None
           | Some (ok, nd) \<Rightarrow>
               if \<not> ok then Some (Some (False, nd))
               else Some (map_option (\<lambda>ix. (True, nd\<lparr>nd_index := ix\<rparr>))
                      (Option.bind (restore_candidates (map snd (mapBlockIndex (nd_index nd))) (nd_index nd)) (InvalidChainFound p)))))"

definition clear_failed :: "ptr \<Rightarrow> chain_index \<Rightarrow> chain_index" where
  "clear_failed p s =
     (let s = set_status p (nStatus (ix_store s p) AND NOT BLOCK_FAILED_MASK) s
      in s\<lparr>setDirtyBlockIndex := insert p (setDirtyBlockIndex s)\<rparr>)"

fun reconsider_all :: "ptr \<Rightarrow> int \<Rightarrow> ptr list \<Rightarrow> chain_index \<Rightarrow> chain_index option" where
  "reconsider_all pindex h [] s = Some s"
| "reconsider_all pindex h (p # ps) s =
     (case IsValid BLOCK_VALID_TRANSACTIONS (ix_store s p) of
        None \<Rightarrow> None
      | Some valid \<Rightarrow>
          if valid then reconsider_all pindex h ps s
          else case GetAncestor (ix_store s) p h of
            None \<Rightarrow> None
          | Some a \<Rightarrow>
              if a \<noteq> Some pindex then reconsider_all pindex h ps s
              else
                let s = clear_failed p s
                in Option.bind (add_valid_candidate (\<lambda>p tip. WorkLess s tip p) p s) (\<lambda>s.
                     reconsider_all pindex h ps
                       (if pindexBestInvalid s = Some p then s\<lparr>pindexBestInvalid := None\<rparr> else s)))"

partial_function (option) reconsider_ancestors :: "ptr option \<Rightarrow> chain_index \<Rightarrow> chain_index option" where
  "reconsider_ancestors pindex s =
     (case pindex of
        None \<Rightarrow> Some s
      | Some p \<Rightarrow> reconsider_ancestors (pprev (ix_store s p)) (if is_failed s p then clear_failed p s else s))"

definition ReconsiderBlock :: "ptr \<Rightarrow> chain_index \<Rightarrow> chain_index option" where
  "ReconsiderBlock p s =
     Option.bind (reconsider_all p (int (nHeight (ix_store s p))) (map snd (mapBlockIndex s)) s) (reconsider_ancestors (Some p))"

text \<open>The results of \<open>DisconnectTip\<close> are ignored; \<open>blocks + 1\<close> blocks are disconnected.\<close>

fun disconnect_times :: "node_env \<Rightarrow> nat \<Rightarrow> node \<Rightarrow> node option" where
  "disconnect_times E 0 nd = Some nd"
| "disconnect_times E (Suc n) nd = (case DisconnectTip E nd of None \<Rightarrow> None | Some (ok, nd) \<Rightarrow> disconnect_times E n nd)"

definition DisconnectBlocksAndReprocess :: "node_env \<Rightarrow> int \<Rightarrow> node \<Rightarrow> node option" where
  "DisconnectBlocksAndReprocess E blocks nd = disconnect_times E (nat (blocks + 1)) nd"

end
