(* ===== verification/ChainStateProps.thy ===== *)
theory ChainStateProps
  imports ChainState
begin

text \<open>
  The candidates are strictly ordered, the search for the chain with the most work ends at the best
  usable candidate, and pruning keeps exactly the candidates no worse than the tip.
\<close>

section \<open>The order of the candidates\<close>

definition work_of :: "chain_index \<Rightarrow> ptr \<Rightarrow> nat" where
  "work_of s p = bu_val (nChainWork (ix_store s p))"

definition work_ok :: "chain_index \<Rightarrow> ptr \<Rightarrow> bool" where
  "work_ok s p \<longleftrightarrow> is_u256 (nChainWork (ix_store s p))"

lemma more_work_iff: "work_ok s a \<Longrightarrow> work_ok s b \<Longrightarrow> more_work s a b \<longleftrightarrow> work_of s b < work_of s a"
  by (simp add: more_work_def work_of_def work_ok_def is_u256_def bu_CompareTo_gt)

lemma WorkLess_iff:
  "work_ok s a \<Longrightarrow> work_ok s b \<Longrightarrow> WorkLess s a b \<longleftrightarrow>
     work_of s a < work_of s b \<or>
     work_of s a = work_of s b \<and> (nSequenceId s b < nSequenceId s a \<or> nSequenceId s a = nSequenceId s b \<and> b < a)"
  by (auto simp: WorkLess_def more_work_iff)

definition linear_on :: "('a \<Rightarrow> 'a \<Rightarrow> bool) \<Rightarrow> 'a set \<Rightarrow> bool" where
  "linear_on lt S \<longleftrightarrow>
     (\<forall>a \<in> S. \<not> lt a a) \<and> (\<forall>a \<in> S. \<forall>b \<in> S. \<forall>c \<in> S. lt a b \<longrightarrow> lt b c \<longrightarrow> lt a c) \<and>
     (\<forall>a \<in> S. \<forall>b \<in> S. lt a b \<or> a = b \<or> lt b a)"

lemma linear_onD:
  assumes "linear_on lt S"
  shows "a \<in> S \<Longrightarrow> \<not> lt a a"
    and "lt a b \<Longrightarrow> lt b c \<Longrightarrow> a \<in> S \<Longrightarrow> b \<in> S \<Longrightarrow> c \<in> S \<Longrightarrow> lt a c"
    and "a \<in> S \<Longrightarrow> b \<in> S \<Longrightarrow> lt a b \<or> a = b \<or> lt b a"
    and "lt a b \<Longrightarrow> a \<in> S \<Longrightarrow> b \<in> S \<Longrightarrow> \<not> lt b a"
  using assms unfolding linear_on_def by blast+

lemma WorkLess_linear: "\<forall>p \<in> S. work_ok s p \<Longrightarrow> linear_on (WorkLess s) S"
  unfolding linear_on_def by (auto simp: WorkLess_iff)

lemma set_oset_insert:
  "linear_on lt S \<Longrightarrow> x \<in> S \<Longrightarrow> set ys \<subseteq> S \<Longrightarrow> set (oset_insert lt x ys) = insert x (set ys)"
  by (induction ys) (auto dest: linear_onD(3) [of lt S x])

lemma sorted_oset_insert:
  assumes lin: "linear_on lt S"
  shows "x \<in> S \<Longrightarrow> set ys \<subseteq> S \<Longrightarrow> sorted_wrt lt ys \<Longrightarrow> sorted_wrt lt (oset_insert lt x ys)"
proof (induction ys)
  case (Cons y ys)
  then show ?case
    using set_oset_insert [OF lin, of x ys] by (auto intro: linear_onD(2) [OF lin, of x y])
qed simp

lemma set_oset_erase: "linear_on lt S \<Longrightarrow> x \<in> S \<Longrightarrow> set ys \<subseteq> S \<Longrightarrow> set (oset_erase lt x ys) = set ys - {x}"
  by (auto simp: oset_erase_def dest: linear_onD(1,3))

lemma sorted_oset_erase: "sorted_wrt lt ys \<Longrightarrow> sorted_wrt lt (oset_erase lt x ys)"
  by (simp add: oset_erase_def sorted_wrt_filter)

lemma sorted_last: "sorted_wrt lt ys \<Longrightarrow> y \<in> set ys \<Longrightarrow> y = last ys \<or> lt y (last ys)"
  by (induction ys) auto

section \<open>What changes and what stays\<close>

text \<open>Two states with the same tree, order and active chain.\<close>

definition same_shape :: "chain_index \<Rightarrow> chain_index \<Rightarrow> bool" where
  "same_shape s s' \<longleftrightarrow>
     (\<forall>p. pprev (ix_store s' p) = pprev (ix_store s p) \<and> pskip (ix_store s' p) = pskip (ix_store s p) \<and>
        nHeight (ix_store s' p) = nHeight (ix_store s p) \<and> nChainWork (ix_store s' p) = nChainWork (ix_store s p) \<and>
        phashBlock (ix_store s' p) = phashBlock (ix_store s p)) \<and>
     mapBlockIndex s' = mapBlockIndex s \<and> nTx s' = nTx s \<and>
     nChainTx s' = nChainTx s \<and> nSequenceId s' = nSequenceId s \<and> chainActive s' = chainActive s"

lemma same_shape_refl [simp]: "same_shape s s" by (simp add: same_shape_def)

lemma same_shape_trans: "same_shape s s1 \<Longrightarrow> same_shape s1 s2 \<Longrightarrow> same_shape s s2"
  by (simp add: same_shape_def)

lemma climb_cong: "(\<And>p. pprev (st' p) = pprev (st p)) \<Longrightarrow> climb st' n p = climb st n p"
  by (induction n arbitrary: p) (auto split: option.split)

lemma climb_shape: "same_shape s s' \<Longrightarrow> climb (ix_store s') = climb (ix_store s)"
  by (intro ext climb_cong) (simp add: same_shape_def)

lemma climb_height: "wf_tree st S \<Longrightarrow> p \<in> S \<Longrightarrow> climb st n p = Some q \<Longrightarrow> n \<le> nHeight (st p)"
proof (induction n arbitrary: p)
  case (Suc n)
  then obtain r where r: "pprev (st p) = Some r" "climb st n r = Some q" by (auto split: option.splits)
  with Suc show ?case using wf_treeD(2) [OF Suc.prems(1,2) r(1)] by auto
qed simp

lemma wf_tree_cong:
  assumes "\<And>p. pprev (st' p) = pprev (st p) \<and> pskip (st' p) = pskip (st p) \<and> nHeight (st' p) = nHeight (st p)" "wf_tree st S"
  shows "wf_tree st' S"
  using assms(2) climb_cong [of st' st] assms(1) by (auto simp: wf_tree_def split: option.splits)

lemma path_cong:
  assumes "\<And>p. pprev (st' p) = pprev (st p) \<and> nHeight (st' p) = nHeight (st p)"
  shows "path st' p = path st p"
  using climb_cong [of st' st] assms by (simp add: path_def)

lemma wf_tree_shape: "same_shape s s' \<Longrightarrow> wf_tree (ix_store s) S \<Longrightarrow> wf_tree (ix_store s') S"
  by (erule wf_tree_cong [rotated]) (simp add: same_shape_def)

lemma chain_ok_shape: "same_shape s s' \<Longrightarrow> chain_ok (ix_store s) S (chainActive s) \<Longrightarrow> chain_ok (ix_store s') S (chainActive s')"
  using path_cong [of "ix_store s'" "ix_store s"] by (simp add: chain_ok_def same_shape_def)

lemma contains_shape: "same_shape s s' \<Longrightarrow> ix_contains s' p \<longleftrightarrow> ix_contains s p"
  by (simp add: Contains_def same_shape_def)

lemma WorkLess_shape: "same_shape s s' \<Longrightarrow> WorkLess s' = WorkLess s"
  by (intro ext) (simp add: WorkLess_def more_work_def same_shape_def)

lemma work_shape: "same_shape s s' \<Longrightarrow> work_ok s' p \<longleftrightarrow> work_ok s p" "same_shape s s' \<Longrightarrow> work_of s' p = work_of s p"
  by (simp_all add: work_ok_def work_of_def same_shape_def)

lemma set_status_simps [simp]:
  "same_shape s (set_status p n s)" "setBlockIndexCandidates (set_status p n s) = setBlockIndexCandidates s"
  "nStatus (ix_store (set_status p n s) q) = (if q = p then n else nStatus (ix_store s q))"
  "chainActive (set_status p n s) = chainActive s"
  by (simp_all add: set_status_def same_shape_def)

lemma drop_candidate_simps [simp]:
  "same_shape s (drop_candidate p s)" "ix_store (drop_candidate p s) = ix_store s" "chainActive (drop_candidate p s) = chainActive s"
  by (simp_all add: drop_candidate_def same_shape_def)

section \<open>The invariant\<close>

text \<open>\<open>linked\<close>: the block and all its ancestors, genesis apart, have their transactions.\<close>

definition linked :: "chain_index \<Rightarrow> ptr \<Rightarrow> bool" where
  "linked s p \<longleftrightarrow> (\<forall>n q. climb (ix_store s) n p = Some q \<longrightarrow> nHeight (ix_store s q) \<noteq> 0 \<longrightarrow> nChainTx s q \<noteq> 0)"

definition index_inv :: "chain_index \<Rightarrow> ptr set \<Rightarrow> bool" where
  "index_inv s S \<longleftrightarrow>
     wf_tree (ix_store s) S \<and> finite S \<and> chain_ok (ix_store s) S (chainActive s) \<and> (\<forall>p \<in> S. work_ok s p) \<and>
     set (setBlockIndexCandidates s) \<subseteq> S \<and> sorted_wrt (WorkLess s) (setBlockIndexCandidates s) \<and>
     (\<forall>p \<in> set (setBlockIndexCandidates s). linked s p)"

lemma index_invD:
  assumes "index_inv s S"
  shows "wf_tree (ix_store s) S" "finite S" "chain_ok (ix_store s) S (chainActive s)" "p \<in> S \<Longrightarrow> work_ok s p"
    "set (setBlockIndexCandidates s) \<subseteq> S" "sorted_wrt (WorkLess s) (setBlockIndexCandidates s)"
    "p \<in> set (setBlockIndexCandidates s) \<Longrightarrow> linked s p" "linear_on (WorkLess s) S"
  using assms WorkLess_linear by (auto simp: index_inv_def)

lemma index_inv_shape:
  assumes "index_inv s S" "same_shape s s'" "set (setBlockIndexCandidates s') \<subseteq> set (setBlockIndexCandidates s)"
    "sorted_wrt (WorkLess s) (setBlockIndexCandidates s')"
  shows "index_inv s' S"
proof -
  have "linked s' p \<longleftrightarrow> linked s p" for p
    using assms(2) by (simp add: linked_def climb_shape) (simp add: same_shape_def)
  then show ?thesis
    using assms wf_tree_shape [OF assms(2)] chain_ok_shape [OF assms(2)] work_shape [OF assms(2)]
    unfolding index_inv_def by (auto simp: WorkLess_shape)
qed

text \<open>\<open>usable\<close>: no block between the candidate and the active chain is failed or without data.\<close>

definition usable :: "chain_index \<Rightarrow> ptr \<Rightarrow> bool" where
  "usable s p \<longleftrightarrow>
     (\<forall>n q. climb (ix_store s) n p = Some q \<longrightarrow> \<not> ix_contains s q \<longrightarrow> \<not> is_failed s q \<and> has_data s q)"

lemma usable_prev:
  assumes "pprev (ix_store s p) = Some q" "usable s q" "\<not> is_failed s p" "has_data s p"
  shows "usable s p"
  unfolding usable_def
proof (intro allI impI)
  fix n r assume "climb (ix_store s) n p = Some r" "\<not> ix_contains s r"
  then show "\<not> is_failed s r \<and> has_data s r" using assms by (cases n) (auto simp: usable_def)
qed

lemma contains_usable:
  assumes "index_inv s S" "p \<in> S" "ix_contains s p"
  shows "usable s p"
  unfolding usable_def
proof (intro allI impI)
  fix n q assume c: "climb (ix_store s) n p = Some q" and n: "\<not> ix_contains s q"
  have "n \<le> nHeight (ix_store s p)" using climb_height [OF index_invD(1) [OF assms(1)] assms(2) c] .
  from Contains_climb [OF index_invD(3) [OF assms(1)] index_invD(1) [OF assms(1)] assms(2,3) c this] n
  show "\<not> is_failed s q \<and> has_data s q" by simp
qed

section \<open>The walk down from a candidate\<close>

text \<open>The first unusable block on the way from \<open>p\<close>, \<open>n\<close> steps down.\<close>

definition first_bad :: "chain_index \<Rightarrow> ptr \<Rightarrow> nat \<Rightarrow> ptr \<Rightarrow> bool" where
  "first_bad s p n t \<longleftrightarrow> climb (ix_store s) n p = Some t \<and> \<not> ix_contains s t \<and> (is_failed s t \<or> \<not> has_data s t)"

lemma linked_prev: "linked s p \<Longrightarrow> pprev (ix_store s p) = Some q \<Longrightarrow> linked s q"
proof -
  assume l: "linked s p" and q: "pprev (ix_store s p) = Some q"
  have "climb (ix_store s) (Suc n) p = climb (ix_store s) n q" for n using q by simp
  then show "linked s q" using l unfolding linked_def by metis
qed

lemma linked_self: "linked s p \<Longrightarrow> nHeight (ix_store s p) \<noteq> 0 \<Longrightarrow> nChainTx s p \<noteq> 0"
  unfolding linked_def by (metis climb.simps(1))

lemma unusable_walk_spec:
  assumes inv: "index_inv s S"
  shows "p \<in> S \<Longrightarrow> linked s p \<Longrightarrow>
    unusable_walk s (Some p) = Some None \<and> usable s p \<or>
    (\<exists>t n. unusable_walk s (Some p) = Some (Some t) \<and> first_bad s p n t)"
proof (induction "nHeight (ix_store s p)" arbitrary: p)
  case 0
  note wf = index_invD(1) [OF inv]
  have top: "pprev (ix_store s p) = None" using wf_treeD(2) [OF wf 0(2)] 0(1) by (cases "pprev (ix_store s p)") auto
  have all: "climb (ix_store s) n p = Some q \<Longrightarrow> q = p" for n q using top by (cases n) simp_all
  consider "ix_contains s p" | "\<not> ix_contains s p" "is_failed s p \<or> \<not> has_data s p" | "\<not> ix_contains s p" "\<not> is_failed s p" "has_data s p"
    by blast
  then show ?case
  proof cases
    case 1
    then show ?thesis using contains_usable [OF inv 0(2)] by (subst unusable_walk.simps) simp
  next
    case 2
    then have "unusable_walk s (Some p) = Some (Some p)" using 0(1) by (subst unusable_walk.simps) simp
    then show ?thesis using 2 by (auto simp: first_bad_def intro!: exI [of _ 0])
  next
    case 3
    have "unusable_walk s (Some p) = unusable_walk s None" using 3 0(1) top by (subst unusable_walk.simps) simp
    moreover have "unusable_walk s None = Some None" by (subst unusable_walk.simps) simp
    moreover have "usable s p" using 3 all by (auto simp: usable_def)
    ultimately show ?thesis by simp
  qed
next
  case (Suc h)
  note wf = index_invD(1) [OF inv]
  obtain q where q: "pprev (ix_store s p) = Some q" using wf_treeD(1) [OF wf Suc(3)] Suc(2) by fastforce
  have qS: "q \<in> S" "h = nHeight (ix_store s q)" using wf_treeD(2) [OF wf Suc(3) q] Suc(2) by simp_all
  have tx: "nChainTx s p \<noteq> 0" using linked_self [OF Suc(4)] Suc(2) by simp
  consider "ix_contains s p" | "\<not> ix_contains s p" "is_failed s p \<or> \<not> has_data s p" | "\<not> ix_contains s p" "\<not> is_failed s p" "has_data s p"
    by blast
  then show ?case
  proof cases
    case 1
    then show ?thesis using contains_usable [OF inv Suc(3)] by (subst unusable_walk.simps) simp
  next
    case 2
    then have "unusable_walk s (Some p) = Some (Some p)" using tx by (subst unusable_walk.simps) simp
    then show ?thesis using 2 by (auto simp: first_bad_def intro!: exI [of _ 0])
  next
    case 3
    have w: "unusable_walk s (Some p) = unusable_walk s (Some q)" using 3 tx q by (subst unusable_walk.simps) simp
    from Suc.hyps(1) [OF qS(2) qS(1) linked_prev [OF Suc(4) q]] show ?thesis
    proof
      assume "unusable_walk s (Some q) = Some None \<and> usable s q"
      then show ?thesis using w usable_prev [OF q _ 3(2,3)] by simp
    next
      assume "\<exists>t n. unusable_walk s (Some q) = Some (Some t) \<and> first_bad s q n t"
      then obtain t n where t: "unusable_walk s (Some q) = Some (Some t)" "first_bad s q n t" by blast
      then have "first_bad s p (Suc n) t" using q by (simp add: first_bad_def)
      then show ?thesis using w t(1) by auto
    qed
  qed
qed

lemma first_bad_unusable: "first_bad s p n t \<Longrightarrow> \<not> usable s p"
  by (auto simp: first_bad_def usable_def)

section \<open>Taking a chain out of the candidates\<close>

text \<open>The blocks from \<open>f\<close> down to the one before \<open>n\<close> steps.\<close>

definition chain_part :: "chain_index \<Rightarrow> ptr \<Rightarrow> nat \<Rightarrow> ptr set" where
  "chain_part s f n = {q. \<exists>m < n. climb (ix_store s) m f = Some q}"

lemma chain_part_0 [simp]: "chain_part s f 0 = {}" by (simp add: chain_part_def)

lemma chain_part_Suc: "pprev (ix_store s f) = Some g \<Longrightarrow> chain_part s f (Suc n) = insert f (chain_part s g n)"
proof -
  assume g: "pprev (ix_store s f) = Some g"
  show ?thesis
  proof
    show "chain_part s f (Suc n) \<subseteq> insert f (chain_part s g n)"
    proof
      fix q assume "q \<in> chain_part s f (Suc n)"
      then obtain m where "m < Suc n" "climb (ix_store s) m f = Some q" by (auto simp: chain_part_def)
      then show "q \<in> insert f (chain_part s g n)" using g by (cases m) (auto simp: chain_part_def)
    qed
    show "insert f (chain_part s g n) \<subseteq> chain_part s f (Suc n)"
    proof
      fix q assume "q \<in> insert f (chain_part s g n)"
      then consider "q = f" | m where "m < n" "climb (ix_store s) m g = Some q" by (auto simp: chain_part_def)
      then show "q \<in> chain_part s f (Suc n)"
      proof cases
        case 1
        then have "climb (ix_store s) 0 f = Some q" by simp
        then show ?thesis unfolding chain_part_def by blast
      next
        case 2
        then have "Suc m < Suc n" "climb (ix_store s) (Suc m) f = Some q" using g by simp_all
        then show ?thesis unfolding chain_part_def by blast
      qed
    qed
  qed
qed

lemma failed_or [simp]: "(w OR BLOCK_FAILED_CHILD) AND BLOCK_FAILED_MASK \<noteq> 0" "(w OR BLOCK_FAILED_VALID) AND BLOCK_FAILED_MASK \<noteq> 0"
proof -
  have "bit BLOCK_FAILED_CHILD 6" "bit BLOCK_FAILED_MASK 6" "bit BLOCK_FAILED_VALID 5" "bit BLOCK_FAILED_MASK 5" by code_simp+
  then have "bit ((w OR BLOCK_FAILED_CHILD) AND BLOCK_FAILED_MASK) 6" "bit ((w OR BLOCK_FAILED_VALID) AND BLOCK_FAILED_MASK) 5"
    by (simp_all add: bit_or_iff bit_and_iff)
  then show "(w OR BLOCK_FAILED_CHILD) AND BLOCK_FAILED_MASK \<noteq> 0" "(w OR BLOCK_FAILED_VALID) AND BLOCK_FAILED_MASK \<noteq> 0"
    using bit_0_eq by fastforce+
qed

lemma data_or [simp]: "(w OR BLOCK_FAILED_CHILD) AND BLOCK_HAVE_DATA = w AND BLOCK_HAVE_DATA"
  "(w OR BLOCK_FAILED_VALID) AND BLOCK_HAVE_DATA = w AND BLOCK_HAVE_DATA"
proof -
  have "BLOCK_FAILED_CHILD AND BLOCK_HAVE_DATA = 0" "BLOCK_FAILED_VALID AND BLOCK_HAVE_DATA = 0" by code_simp+
  then show "(w OR BLOCK_FAILED_CHILD) AND BLOCK_HAVE_DATA = w AND BLOCK_HAVE_DATA"
    "(w OR BLOCK_FAILED_VALID) AND BLOCK_HAVE_DATA = w AND BLOCK_HAVE_DATA"
    by (simp_all add: bit.conj_disj_distrib2)
qed

lemma unlinked_simps [simp]:
  "same_shape s (s\<lparr>mapBlocksUnlinked := u\<rparr>)" "is_failed (s\<lparr>mapBlocksUnlinked := u\<rparr>) q = is_failed s q"
  "has_data (s\<lparr>mapBlocksUnlinked := u\<rparr>) q = has_data s q"
  by (simp_all add: same_shape_def is_failed_def has_data_def)

lemma marked_simps [simp]:
  "is_failed (set_status f (nStatus (ix_store s f) OR BLOCK_FAILED_CHILD) s) q \<longleftrightarrow> q = f \<or> is_failed s q"
  "has_data (set_status f (nStatus (ix_store s f) OR BLOCK_FAILED_CHILD) s) q \<longleftrightarrow> has_data s q"
  "is_failed (set_status f (nStatus (ix_store s f) OR BLOCK_FAILED_VALID) s) q \<longleftrightarrow> q = f \<or> is_failed s q"
  "has_data (set_status f (nStatus (ix_store s f) OR BLOCK_FAILED_VALID) s) q \<longleftrightarrow> has_data s q"
  by (auto simp: is_failed_def has_data_def)

lemma dropped_status [simp]: "is_failed (drop_candidate p s) q = is_failed s q" "has_data (drop_candidate p s) q = has_data s q"
  by (simp_all add: is_failed_def has_data_def)

lemma drop_candidate_inv:
  assumes inv: "index_inv s S" and p: "p \<in> S"
  shows "index_inv (drop_candidate p s) S" "set (setBlockIndexCandidates (drop_candidate p s)) = set (setBlockIndexCandidates s) - {p}"
proof -
  show c: "set (setBlockIndexCandidates (drop_candidate p s)) = set (setBlockIndexCandidates s) - {p}"
    using set_oset_erase [OF index_invD(8) [OF inv] p index_invD(5) [OF inv]] by (simp add: drop_candidate_def)
  show "index_inv (drop_candidate p s) S"
  proof (rule index_inv_shape [OF inv drop_candidate_simps(1)])
    show "sorted_wrt (WorkLess s) (setBlockIndexCandidates (drop_candidate p s))"
      using sorted_oset_erase [OF index_invD(6) [OF inv]] by (simp add: drop_candidate_def)
  qed (use c in auto)
qed

lemma drop_chain_spec:
  "index_inv s S \<Longrightarrow> f \<in> S \<Longrightarrow> climb (ix_store s) n f = Some t \<Longrightarrow>
   \<exists>s'. drop_chain fFailed t (Some f) s = Some s' \<and> index_inv s' S \<and> same_shape s s' \<and>
     (\<forall>q. is_failed s' q \<longleftrightarrow> is_failed s q \<or> (fFailed \<and> q \<in> chain_part s f n)) \<and> (\<forall>q. has_data s' q \<longleftrightarrow> has_data s q) \<and>
     set (setBlockIndexCandidates s') = set (setBlockIndexCandidates s) - chain_part s f n"
proof (induction n arbitrary: f s)
  case 0
  then have "drop_chain fFailed t (Some f) s = Some s" by (subst drop_chain.simps) simp
  then show ?case using 0 by simp
next
  case (Suc n)
  note wf = index_invD(1) [OF Suc.prems(1)]
  obtain g where g: "pprev (ix_store s f) = Some g" "climb (ix_store s) n g = Some t"
    using Suc.prems(3) by (auto split: option.splits)
  have gS: "g \<in> S" using wf_treeD(2) [OF wf Suc.prems(2) g(1)] by simp
  have "nHeight (ix_store s t) = nHeight (ix_store s f) - Suc n" "Suc n \<le> nHeight (ix_store s f)"
    using climb_le_trans(2) [OF wf Suc.prems(2,3)] climb_height [OF wf Suc.prems(2,3)] by simp_all
  then have ne: "f \<noteq> t" by auto
  define s1 where "s1 = (if fFailed then set_status f (nStatus (ix_store s f) OR BLOCK_FAILED_CHILD) s
    else s\<lparr>mapBlocksUnlinked := mapBlocksUnlinked s @ [(g, f)]\<rparr>)"
  have sh1: "same_shape s s1" and c1: "setBlockIndexCandidates s1 = setBlockIndexCandidates s" by (simp_all add: s1_def)
  have i1: "index_inv s1 S" by (rule index_inv_shape [OF Suc.prems(1) sh1]) (simp_all add: c1 index_invD(6) [OF Suc.prems(1)])
  note d = drop_candidate_inv [OF i1 Suc.prems(2)]
  have sh2: "same_shape s (drop_candidate f s1)" using same_shape_trans [OF sh1] by simp
  have step: "drop_chain fFailed t (Some f) s = drop_chain fFailed t (Some g) (drop_candidate f s1)"
    using ne g(1) by (subst drop_chain.simps) (simp add: s1_def Let_def)
  have "climb (ix_store (drop_candidate f s1)) n g = Some t" using g(2) climb_shape [OF sh2] by simp
  from Suc.IH [OF d(1) gS this] obtain s' where s': "drop_chain fFailed t (Some g) (drop_candidate f s1) = Some s'"
    "index_inv s' S" "same_shape (drop_candidate f s1) s'"
    "\<forall>q. is_failed s' q \<longleftrightarrow> is_failed (drop_candidate f s1) q \<or> (fFailed \<and> q \<in> chain_part (drop_candidate f s1) g n)"
    "\<forall>q. has_data s' q \<longleftrightarrow> has_data (drop_candidate f s1) q"
    "set (setBlockIndexCandidates s') = set (setBlockIndexCandidates (drop_candidate f s1)) - chain_part (drop_candidate f s1) g n"
    by blast
  have part: "chain_part (drop_candidate f s1) g n = chain_part s g n" by (simp add: chain_part_def climb_shape [OF sh2] del: drop_candidate_simps)
  have "is_failed s' q \<longleftrightarrow> is_failed s q \<or> (fFailed \<and> q \<in> chain_part s f (Suc n))" for q
    using s'(4) part g(1) by (auto simp: s1_def chain_part_Suc)
  moreover have "has_data s' q \<longleftrightarrow> has_data s q" for q using s'(5) by (simp add: s1_def)
  moreover have "set (setBlockIndexCandidates s') = set (setBlockIndexCandidates s) - chain_part s f (Suc n)"
    using s'(6) d(2) part g(1) by (auto simp: c1 chain_part_Suc)
  ultimately show ?case using step s'(1,2) same_shape_trans [OF sh2 s'(3)] by auto
qed

section \<open>The search\<close>

text \<open>A search that changes no usability and drops only unusable candidates.\<close>

definition search_kept :: "chain_index \<Rightarrow> chain_index \<Rightarrow> ptr set \<Rightarrow> bool" where
  "search_kept s s' S \<longleftrightarrow>
     index_inv s' S \<and> same_shape s s' \<and> (\<forall>q. is_failed s q \<longrightarrow> is_failed s' q) \<and> (\<forall>q. has_data s' q \<longleftrightarrow> has_data s q) \<and>
     (\<forall>q \<in> S. usable s' q \<longleftrightarrow> usable s q) \<and> set (setBlockIndexCandidates s') \<subseteq> set (setBlockIndexCandidates s) \<and>
     (\<forall>q \<in> set (setBlockIndexCandidates s) - set (setBlockIndexCandidates s'). \<not> usable s q)"

lemma search_kept_refl: "index_inv s S \<Longrightarrow> search_kept s s S"
  by (simp add: search_kept_def)

lemma search_kept_trans: "search_kept s s1 S \<Longrightarrow> search_kept s1 s2 S \<Longrightarrow> index_inv s S \<Longrightarrow> search_kept s s2 S"
proof -
  assume a: "search_kept s s1 S" and b: "search_kept s1 s2 S" and inv: "index_inv s S"
  have "\<not> usable s q" if q: "q \<in> set (setBlockIndexCandidates s)" "q \<notin> set (setBlockIndexCandidates s2)" for q
  proof (cases "q \<in> set (setBlockIndexCandidates s1)")
    case True
    then have "\<not> usable s1 q" using b q(2) by (simp add: search_kept_def)
    then show ?thesis using a q(1) index_invD(5) [OF inv] by (auto simp: search_kept_def)
  qed (use a q(1) in \<open>simp add: search_kept_def\<close>)
  then show ?thesis using a b same_shape_trans [of s s1 s2] by (auto simp: search_kept_def)
qed

lemma usable_marked:
  assumes sh: "same_shape s s'" and data: "\<forall>q. has_data s' q \<longleftrightarrow> has_data s q"
    and fail: "\<forall>q. is_failed s' q \<longleftrightarrow> is_failed s q \<or> (is_failed s t \<and> q \<in> chain_part s p n)"
    and t: "first_bad s p n t"
  shows "usable s' q \<longleftrightarrow> usable s q"
proof
  assume "usable s q"
  then have u: "climb (ix_store s) m q = Some r \<Longrightarrow> \<not> ix_contains s r \<Longrightarrow> \<not> is_failed s r \<and> has_data s r" for m r
    by (simp add: usable_def)
  show "usable s' q"
    unfolding usable_def climb_shape [OF sh] contains_shape [OF sh]
  proof (intro allI impI conjI)
    fix m r assume r: "climb (ix_store s) m q = Some r" "\<not> ix_contains s r"
    show "has_data s' r" using u [OF r] data by simp
    show "\<not> is_failed s' r"
    proof
      assume "is_failed s' r"
      then obtain k where k: "is_failed s t" "k < n" "climb (ix_store s) k p = Some r"
        using fail u [OF r] by (auto simp: chain_part_def)
      have "climb (ix_store s) (n - k) r = Some t"
        using climb_add [OF k(3), of "n - k"] k(2) t by (simp add: first_bad_def)
      then have "climb (ix_store s) (m + (n - k)) q = Some t" using climb_add [OF r(1)] by simp
      from u [OF this] t k(1) show False by (simp add: first_bad_def)
    qed
  qed
next
  assume "usable s' q"
  then show "usable s q"
    unfolding usable_def climb_shape [OF sh] contains_shape [OF sh] using data fail by blast
qed

lemma chain_part_in: "index_inv s S \<Longrightarrow> p \<in> S \<Longrightarrow> q \<in> chain_part s p n \<Longrightarrow> q \<in> S"
  using climb_le_trans(1) [OF index_invD(1)] climb_height [OF index_invD(1)] by (fastforce simp: chain_part_def)

lemma chain_part_unusable: "first_bad s p n t \<Longrightarrow> q \<in> chain_part s p n \<Longrightarrow> \<not> usable s q"
proof -
  assume t: "first_bad s p n t" and "q \<in> chain_part s p n"
  then obtain k where k: "k < n" "climb (ix_store s) k p = Some q" by (auto simp: chain_part_def)
  then have "climb (ix_store s) (n - k) q = Some t" using climb_add [OF k(2), of "n - k"] t by (simp add: first_bad_def)
  then show ?thesis using t by (auto simp: usable_def first_bad_def)
qed

lemma best_invalid_simps [simp]: "same_shape s (s\<lparr>pindexBestInvalid := b\<rparr>)"
  "is_failed (s\<lparr>pindexBestInvalid := b\<rparr>) q = is_failed s q" "has_data (s\<lparr>pindexBestInvalid := b\<rparr>) q = has_data s q"
  by (simp_all add: same_shape_def is_failed_def has_data_def)

text \<open>One round of the search that finds the last candidate unusable.\<close>

lemma search_round:
  assumes inv: "index_inv s S" and cs: "setBlockIndexCandidates s \<noteq> []"
    and t: "first_bad s (last (setBlockIndexCandidates s)) n t"
    and s1: "s1 = s \<or> s1 = s\<lparr>pindexBestInvalid := b\<rparr>"
  shows "\<exists>s2. drop_chain (is_failed s t) t (Some (last (setBlockIndexCandidates s))) s1 = Some s2 \<and>
    search_kept s (drop_candidate t s2) S \<and>
    last (setBlockIndexCandidates s) \<notin> set (setBlockIndexCandidates (drop_candidate t s2))"
proof -
  let ?p = "last (setBlockIndexCandidates s)"
  have pS: "?p \<in> S" using cs index_invD(5) [OF inv] by auto
  have c: "climb (ix_store s) n ?p = Some t" using t by (simp add: first_bad_def)
  have tS: "t \<in> S" using climb_le_trans(1) [OF index_invD(1) [OF inv] pS c] climb_height [OF index_invD(1) [OF inv] pS c] by simp
  have sh1: "same_shape s s1" and same: "\<And>q. is_failed s1 q = is_failed s q" "\<And>q. has_data s1 q = has_data s q"
    "setBlockIndexCandidates s1 = setBlockIndexCandidates s" "ix_store s1 = ix_store s"
    using s1 by auto
  have i1: "index_inv s1 S" using index_invD(6) [OF inv] by (intro index_inv_shape [OF inv sh1]) (simp_all add: same)
  have part: "chain_part s1 q m = chain_part s q m" for q m by (simp add: chain_part_def same)
  obtain s2 where s2: "drop_chain (is_failed s t) t (Some ?p) s1 = Some s2" "index_inv s2 S" "same_shape s1 s2"
    "\<forall>q. is_failed s2 q \<longleftrightarrow> is_failed s q \<or> (is_failed s t \<and> q \<in> chain_part s ?p n)" "\<forall>q. has_data s2 q \<longleftrightarrow> has_data s q"
    "set (setBlockIndexCandidates s2) = set (setBlockIndexCandidates s) - chain_part s ?p n"
    using drop_chain_spec [OF i1 pS, of n t "is_failed s t"] c by (auto simp: same part)
  note d = drop_candidate_inv [OF s2(2) tS]
  have sh: "same_shape s s2" by (rule same_shape_trans [OF sh1 s2(3)])
  have sh': "same_shape s (drop_candidate t s2)" by (rule same_shape_trans [OF sh]) simp
  have us: "usable (drop_candidate t s2) q \<longleftrightarrow> usable s q" for q
    by (rule usable_marked [OF sh' _ _ t]) (simp_all add: s2(4,5))
  have bad: "\<not> usable s q" if "q \<in> insert t (chain_part s ?p n)" for q
  proof (cases "q = t")
    case True
    moreover have "first_bad s t 0 t" using t by (simp add: first_bad_def)
    ultimately show ?thesis using first_bad_unusable by blast
  qed (use that chain_part_unusable [OF t] in blast)
  have "?p \<in> insert t (chain_part s ?p n)"
  proof (cases n)
    case (Suc m)
    then have "0 < n" "climb (ix_store s) 0 ?p = Some ?p" by simp_all
    then show ?thesis unfolding chain_part_def by blast
  qed (use c in simp)
  then have "?p \<notin> set (setBlockIndexCandidates (drop_candidate t s2))" using d(2) s2(6) by auto
  moreover have "search_kept s (drop_candidate t s2) S"
    using d s2(4-6) sh' us bad by (auto simp: search_kept_def)
  ultimately show ?thesis using s2(1) by blast
qed

lemma FindMostWorkChain_spec:
  "index_inv s S \<Longrightarrow> \<exists>r s'. FindMostWorkChain s = Some (r, s') \<and> search_kept s s' S \<and>
     (case r of None \<Rightarrow> setBlockIndexCandidates s' = []
      | Some p \<Rightarrow> setBlockIndexCandidates s' \<noteq> [] \<and> p = last (setBlockIndexCandidates s') \<and> usable s p)"
proof (induction "card (set (setBlockIndexCandidates s))" arbitrary: s rule: less_induct)
  case less
  note inv = less.prems
  show ?case
  proof (cases "setBlockIndexCandidates s = []")
    case True
    then have "FindMostWorkChain s = Some (None, s)" by (subst FindMostWorkChain.simps) simp
    then show ?thesis using True search_kept_refl [OF inv] by auto
  next
    case False
    let ?p = "last (setBlockIndexCandidates s)"
    have p: "?p \<in> set (setBlockIndexCandidates s)" "?p \<in> S" using False index_invD(5) [OF inv] by auto
    from unusable_walk_spec [OF inv p(2) index_invD(7) [OF inv p(1)]] show ?thesis
    proof (elim disjE exE conjE)
      assume u: "unusable_walk s (Some ?p) = Some None" "usable s ?p"
      then have "FindMostWorkChain s = Some (Some ?p, s)" using False by (subst FindMostWorkChain.simps) (simp add: Let_def)
      then show ?thesis using u False search_kept_refl [OF inv] by auto
    next
      fix t n assume u: "unusable_walk s (Some ?p) = Some (Some t)" and t: "first_bad s ?p n t"
      define s1 where "s1 = (if is_failed s t \<and> (case pindexBestInvalid s of None \<Rightarrow> True | Some b \<Rightarrow> more_work s ?p b)
        then s\<lparr>pindexBestInvalid := Some ?p\<rparr> else s)"
      have "s1 = s \<or> s1 = s\<lparr>pindexBestInvalid := Some ?p\<rparr>" by (simp add: s1_def)
      from search_round [OF inv False t this] obtain s2 where
        s2: "drop_chain (is_failed s t) t (Some ?p) s1 = Some s2" "search_kept s (drop_candidate t s2) S"
          "?p \<notin> set (setBlockIndexCandidates (drop_candidate t s2))" by blast
      have step: "FindMostWorkChain s = FindMostWorkChain (drop_candidate t s2)"
        using False u s2(1) by (subst FindMostWorkChain.simps) (simp add: Let_def s1_def)
      have k: "index_inv (drop_candidate t s2) S"
        "set (setBlockIndexCandidates (drop_candidate t s2)) \<subset> set (setBlockIndexCandidates s)"
        using s2(2,3) p(1) by (auto simp: search_kept_def)
      from less.hyps [OF psubset_card_mono [OF _ k(2)] k(1)] obtain r s' where
        r: "FindMostWorkChain (drop_candidate t s2) = Some (r, s')" "search_kept (drop_candidate t s2) s' S"
          "case r of None \<Rightarrow> setBlockIndexCandidates s' = []
           | Some p \<Rightarrow> setBlockIndexCandidates s' \<noteq> [] \<and> p = last (setBlockIndexCandidates s') \<and> usable (drop_candidate t s2) p"
        by auto
      have "usable s q" if "r = Some q" for q
      proof -
        have "q \<in> set (setBlockIndexCandidates s')" "usable (drop_candidate t s2) q" using r(3) that by auto
        moreover then have "q \<in> S" using r(2) k(1) index_invD(5) [OF k(1)] by (auto simp: search_kept_def)
        ultimately show ?thesis using s2(2) by (simp add: search_kept_def)
      qed
      then show ?thesis
        using step r search_kept_trans [OF s2(2) r(2) inv] by (auto split: option.splits)
    qed
  qed
qed

section \<open>Properties\<close>

text \<open>C17:
  The search for the chain with the most work returns and fails no \<open>assert\<close>. It answers NULL only if no
  candidate is usable; otherwise its answer is a candidate with no failed block and no missing data
  between it and the active chain, and every other usable candidate comes before it in the order of
  work and arrival. Only unusable candidates leave the set, no block that was failed is cleared, and
  the tree and the active chain stay the same.\<close>

theorem FindMostWorkChain_best:
  assumes inv: "index_inv s S"
  shows "\<exists>r s'. FindMostWorkChain s = Some (r, s') \<and> index_inv s' S \<and> same_shape s s' \<and>
    (\<forall>q. is_failed s q \<longrightarrow> is_failed s' q) \<and>
    (\<forall>q \<in> set (setBlockIndexCandidates s). usable s q \<longrightarrow> q \<in> set (setBlockIndexCandidates s')) \<and>
    (case r of
       None \<Rightarrow> \<forall>q \<in> set (setBlockIndexCandidates s). \<not> usable s q
     | Some p \<Rightarrow> p \<in> set (setBlockIndexCandidates s) \<and> usable s p \<and>
         (\<forall>q \<in> set (setBlockIndexCandidates s). usable s q \<longrightarrow> q = p \<or> WorkLess s q p))"
proof -
  obtain r s' where r: "FindMostWorkChain s = Some (r, s')" "search_kept s s' S"
    "case r of None \<Rightarrow> setBlockIndexCandidates s' = []
     | Some p \<Rightarrow> setBlockIndexCandidates s' \<noteq> [] \<and> p = last (setBlockIndexCandidates s') \<and> usable s p"
    using FindMostWorkChain_spec [OF inv] by blast
  have k: "index_inv s' S" "same_shape s s'" "\<forall>q. is_failed s q \<longrightarrow> is_failed s' q"
    "set (setBlockIndexCandidates s') \<subseteq> set (setBlockIndexCandidates s)"
    "\<forall>q \<in> set (setBlockIndexCandidates s). usable s q \<longrightarrow> q \<in> set (setBlockIndexCandidates s')"
    using r(2) by (auto simp: search_kept_def)
  have "case r of None \<Rightarrow> \<forall>q \<in> set (setBlockIndexCandidates s). \<not> usable s q
     | Some p \<Rightarrow> p \<in> set (setBlockIndexCandidates s) \<and> usable s p \<and>
         (\<forall>q \<in> set (setBlockIndexCandidates s). usable s q \<longrightarrow> q = p \<or> WorkLess s q p)"
    using r(3) k(4,5) sorted_last [OF index_invD(6) [OF k(1)]] WorkLess_shape [OF k(2)] by (fastforce split: option.splits)
  with r(1) k show ?thesis by blast
qed

text \<open>The chain 0, 1, 2 is active; on it are 3 and 4, and with more work the invalid 5.\<close>

definition demo_index_store :: store where
  "demo_index_store p = (demo_store p)\<lparr>
     nStatus := (if p = 5 then BLOCK_HAVE_DATA OR BLOCK_FAILED_VALID else BLOCK_HAVE_DATA),
     nChainWork := bu_of_uint64 8 (if p = 5 then 9 else if p < 5 then of_nat p else 0)\<rparr>"

definition demo_index :: chain_index where
  "demo_index = \<lparr>ix_store = demo_index_store, mapBlockIndex = map (\<lambda>p. (of_nat p, p)) [0..<6],
     nTx = (\<lambda>p. 1), nChainTx = (\<lambda>p. of_nat (min p 5) + 1), nSequenceId = of_nat,
     setBlockIndexCandidates = [2, 4, 5], mapBlocksUnlinked = [], pindexBestInvalid = None, pindexBestHeader = Some 5,
     setDirtyBlockIndex = {}, chainActive = path demo_store 2, nBlockSequenceId = 7\<rparr>"

lemma demo_index_tree: "wf_tree demo_index_store demo_tree" "climb demo_index_store = climb demo_store"
  by (rule wf_tree_cong [OF _ demo_wf], simp add: demo_index_store_def, intro ext climb_cong, simp add: demo_index_store_def)

lemma demo_index_work: "work_ok demo_index p" "work_of demo_index p = (if p = 5 then 9 else if p < 5 then p else 0)"
proof -
  have "p < 5 \<Longrightarrow> unat (of_nat p :: uint64) = p" by (simp add: unsigned_of_nat take_bit_nat_eq_self)
  then show "work_ok demo_index p" "work_of demo_index p = (if p = 5 then 9 else if p < 5 then p else 0)"
    using u256.of_u64_ok by (simp_all add: work_ok_def work_of_def demo_index_def demo_index_store_def)
qed

lemma demo_index_less: "WorkLess demo_index 2 4" "WorkLess demo_index 4 5" "WorkLess demo_index 2 5"
  using demo_index_work by (simp_all add: WorkLess_iff)

text \<open>The invariant holds with any candidates in order, any active chain and any hashes.\<close>

lemma demo_index_ok:
  assumes st: "\<And>p. ix_store s p = (demo_index_store p)\<lparr>phashBlock := h p\<rparr>" and tx: "nChainTx s = nChainTx demo_index"
    and c: "set (setBlockIndexCandidates s) \<subseteq> demo_tree" "sorted_wrt (WorkLess s) (setBlockIndexCandidates s)"
    and v: "chainActive s = [] \<or> (\<exists>p \<in> demo_tree. chainActive s = path demo_store p)"
  shows "index_inv s demo_tree"
proof -
  have climb: "climb (ix_store s) = climb demo_store" by (intro ext climb_cong) (simp add: st demo_index_store_def)
  have wf: "wf_tree (ix_store s) demo_tree" by (rule wf_tree_cong [OF _ demo_wf]) (simp add: st demo_index_store_def)
  have "chain_ok (ix_store s) demo_tree (chainActive s)"
    using v by (simp add: chain_ok_def path_def climb st demo_index_store_def)
  moreover have "linked s p" if "p \<in> demo_tree" for p
  proof -
    have "q \<in> demo_tree" if "climb (ix_store s) n p = Some q" for n q
      using climb_le_trans(1) [OF wf \<open>p \<in> demo_tree\<close> that] climb_height [OF wf \<open>p \<in> demo_tree\<close> that] by simp
    then show ?thesis by (fastforce simp: linked_def demo_index_def demo_tree_def tx)
  qed
  moreover have "work_ok s p" for p using demo_index_work(1) [of p] by (simp add: work_ok_def st demo_index_def)
  ultimately show ?thesis using wf c by (auto simp: index_inv_def) (simp add: demo_tree_def)
qed

lemma demo_index_inv: "index_inv demo_index demo_tree"
proof (rule demo_index_ok [where h = "\<lambda>p. phashBlock (demo_index_store p)"])
  show "chainActive demo_index = [] \<or> (\<exists>p \<in> demo_tree. chainActive demo_index = path demo_store p)"
    by (rule disjI2, rule bexI [of _ 2]) (simp_all add: demo_index_def demo_tree_def)
  show "sorted_wrt (WorkLess demo_index) (setBlockIndexCandidates demo_index)"
    using demo_index_less by (simp add: demo_index_def)
qed (simp_all add: demo_index_def demo_tree_def)

lemma demo_index_usable: "usable demo_index 4" "\<not> usable demo_index 5"
proof -
  have st: "pprev (demo_index_store 4) = Some 3" "pprev (demo_index_store 3) = Some 2" "nHeight (demo_index_store 2) = 2"
    "nHeight (demo_index_store 5) = 3"
    by (simp_all add: demo_index_store_def demo_defs)
  have flags: "\<not> is_failed demo_index 3" "\<not> is_failed demo_index 4" "has_data demo_index 3" "has_data demo_index 4" "is_failed demo_index 5"
    by (simp_all add: is_failed_def has_data_def demo_index_def demo_index_store_def block_flag_defs)
  have len: "length (path demo_store 2) = 3" by (simp add: demo_defs)
  have c: "ix_contains demo_index 2" "\<not> ix_contains demo_index 5"
    using st(3,4) len path_tip [of demo_store 2] by (simp_all add: Contains_def chain_at_def demo_index_def demo_defs)
  have u2: "usable demo_index 2" by (rule contains_usable [OF demo_index_inv _ c(1)]) (simp add: demo_tree_def)
  have "usable demo_index 3" using st flags by (intro usable_prev [OF _ u2]) (simp_all add: demo_index_def)
  then show "usable demo_index 4" using st flags by (intro usable_prev [of _ 4 3]) (simp_all add: demo_index_def)
  have "climb (ix_store demo_index) 0 5 = Some 5" by simp
  then show "\<not> usable demo_index 5" using c(2) flags(5) unfolding usable_def by blast
qed

theorem FindMostWorkChain_best_witness: "\<exists>s'. FindMostWorkChain demo_index = Some (Some 4, s')"
proof -
  have cs: "set (setBlockIndexCandidates demo_index) = {2, 4, 5}" by (simp add: demo_index_def)
  have "\<not> WorkLess demo_index 4 2" using demo_index_work by (simp add: WorkLess_iff)
  then show ?thesis
    using FindMostWorkChain_best [OF demo_index_inv] demo_index_usable unfolding cs by (auto split: option.splits)
qed

end
