(* ===== verification/MempoolProps.thy ===== *)
theory MempoolProps
  imports Mempool Utxo
begin

text \<open>
  The invariant of the memory pool and what its operations do to it: the index of spent outputs holds
  exactly the inputs of the pooled transactions, no pointer dangles, the recursive removal takes out
  exactly the descendants, and after a block no pooled transaction conflicts with it.
\<close>

section \<open>Ordered maps\<close>

lemma map_of_omap_insert [simp]: "map_of (omap_insert lt k v m) = (map_of m)(k \<mapsto> v)"
  by (induction m) (auto simp: fun_eq_iff)

lemma map_of_omap_erase [simp]: "map_of (omap_erase k m) = (map_of m)(k := None)"
  by (induction m) (auto simp: omap_erase_def fun_eq_iff)

lemma keys_omap_insert: "fst ` set (omap_insert lt k v m) = insert k (fst ` set m)"
  by (simp add: dom_map_of_conv_image_fst [symmetric])

lemma distinct_omap_insert: "distinct (map fst m) \<Longrightarrow> map_of m k = None \<Longrightarrow> distinct (map fst (omap_insert lt k v m))"
proof (induction m)
  case (Cons p m)
  then show ?case by (cases p) (simp add: keys_omap_insert map_of_eq_None_iff split: if_splits)
qed simp

lemma omap_insert_new:
  "map_of m k = None \<Longrightarrow> \<exists>as bs. m = as @ bs \<and> omap_insert lt k v m = as @ (k, v) # bs"
proof (induction m)
  case (Cons p m)
  obtain a b where p: "p = (a, b)" by (cases p)
  have k: "k \<noteq> a" "map_of m k = None" using Cons.prems p by (auto split: if_splits)
  from Cons.IH [OF k(2)] obtain as bs where "m = as @ bs" "omap_insert lt k v m = as @ (k, v) # bs" by blast
  then show ?case using k p
    by (cases "lt k a") (force intro: exI [of _ "[]"] exI [of _ "(a, b) # as"])+
qed simp

lemma omap_erase_filter: "distinct (map fst m) \<Longrightarrow> map_of m k = Some v \<Longrightarrow>
   \<exists>as bs. m = as @ (k, v) # bs \<and> omap_erase k m = as @ bs"
proof (induction m)
  case (Cons p m)
  obtain a b where p: "p = (a, b)" by (cases p)
  show ?case
  proof (cases "a = k")
    case True
    have "filter (\<lambda>p. fst p \<noteq> k) m = m" using Cons.prems(1) p True by (intro filter_True) force
    then have "p # m = [] @ (k, v) # m \<and> omap_erase k (p # m) = [] @ m" using Cons.prems p True by (simp add: omap_erase_def)
    then show ?thesis by blast
  next
    case False
    then obtain as bs where "m = as @ (k, v) # bs" "omap_erase k m = as @ bs" using Cons p by auto
    then show ?thesis using p False by (intro exI [of _ "(a, b) # as"] exI [of _ bs]) (simp add: omap_erase_def)
  qed
qed simp

section \<open>The invariant\<close>

lemma unat_32: "n < 2 ^ 32 \<Longrightarrow> unat (of_nat n :: uint32) = n"
  by (simp add: unsigned_of_nat take_bit_nat_eq_self)

text \<open>Input \<open>n\<close> of the pooled transaction \<open>h\<close> spends \<open>out\<close>; zerocoin spends have no such inputs.\<close>

definition pool_spends :: "CTxMemPool \<Rightarrow> COutPoint \<Rightarrow> hash256 \<Rightarrow> nat \<Rightarrow> bool" where
  "pool_spends st out h n \<longleftrightarrow>
     (\<exists>e. map_of (mapTx st) h = Some e \<and> \<not> HasZerocoinSpendInputs (me_tx e) \<and>
        n < length (vin (me_tx e)) \<and> prevout (vin (me_tx e) ! n) = out)"

definition pool_size :: "(hash256 \<times> CTxMemPoolEntry) list \<Rightarrow> nat" where
  "pool_size m = sum_list (map (\<lambda>p. me_nTxSize (snd p)) m)"

definition pool_inv :: "CTxMemPool \<Rightarrow> bool" where
  "pool_inv st \<longleftrightarrow>
     distinct (map fst (mapTx st)) \<and>
     (\<forall>h e. map_of (mapTx st) h = Some e \<longrightarrow> txid (me_tx e) = h \<and> length (vin (me_tx e)) < 2 ^ 32 \<and>
        (HasZerocoinSpendInputs (me_tx e) \<longrightarrow> (\<forall>txin \<in> set (vin (me_tx e)). map_of (mapNextTx st) (prevout txin) = None))) \<and>
     (\<forall>out h n. map_of (mapNextTx st) out = Some \<lparr>ip_ptx = h, ip_n = n\<rparr> \<longleftrightarrow> pool_spends st out h (unat n)) \<and>
     totalTxSize st = of_nat (pool_size (mapTx st))"

text \<open>What \<open>AcceptToMemoryPool\<close> checks before it adds a transaction.\<close>

definition addable :: "CTxMemPool \<Rightarrow> CTransaction \<Rightarrow> bool" where
  "addable st tx \<longleftrightarrow>
     map_of (mapTx st) (txid tx) = None \<and> length (vin tx) < 2 ^ 32 \<and>
     (\<forall>txin \<in> set (vin tx). map_of (mapNextTx st) (prevout txin) = None) \<and>
     (\<not> HasZerocoinSpendInputs tx \<longrightarrow>
        distinct (map prevout (vin tx)) \<and>
        (\<forall>h e. map_of (mapTx st) h = Some e \<longrightarrow> HasZerocoinSpendInputs (me_tx e) \<longrightarrow>
           prevout ` set (vin tx) \<inter> prevout ` set (vin (me_tx e)) = {}))"

lemma pool_invD:
  assumes "pool_inv st"
  shows "distinct (map fst (mapTx st))"
    and "map_of (mapTx st) h = Some e \<Longrightarrow> txid (me_tx e) = h \<and> length (vin (me_tx e)) < 2 ^ 32"
    and "map_of (mapTx st) h = Some e \<Longrightarrow> HasZerocoinSpendInputs (me_tx e) \<Longrightarrow> txin \<in> set (vin (me_tx e)) \<Longrightarrow>
          map_of (mapNextTx st) (prevout txin) = None"
    and "map_of (mapNextTx st) out = Some ip \<longleftrightarrow> pool_spends st out (ip_ptx ip) (unat (ip_n ip))"
    and "totalTxSize st = of_nat (pool_size (mapTx st))"
proof -
  show "map_of (mapNextTx st) out = Some ip \<longleftrightarrow> pool_spends st out (ip_ptx ip) (unat (ip_n ip))"
    using assms by (cases ip) (simp add: pool_inv_def)
qed (use assms in \<open>auto simp: pool_inv_def\<close>)

lemma pool_spends_index:
  assumes "pool_inv st" "pool_spends st out h n"
  shows "map_of (mapNextTx st) out = Some \<lparr>ip_ptx = h, ip_n = of_nat n\<rparr>"
proof -
  obtain e where e: "map_of (mapTx st) h = Some e" "n < length (vin (me_tx e))" using assms(2) by (auto simp: pool_spends_def)
  then have "n < 2 ^ 32" using pool_invD(2) [OF assms(1) e(1)] by linarith
  then have "unat (of_nat n :: uint32) = n" by (rule unat_32)
  then show ?thesis using pool_invD(4) [OF assms(1), of out "\<lparr>ip_ptx = h, ip_n = of_nat n\<rparr>"] assms(2) by simp
qed

text \<open>No output is spent twice in the pool.\<close>

lemma pool_spends_unique:
  assumes "pool_inv st" "pool_spends st out h n" "pool_spends st out h' n'"
  shows "h = h' \<and> n = n'"
proof -
  obtain e e' where e: "map_of (mapTx st) h = Some e" "n < length (vin (me_tx e))"
    "map_of (mapTx st) h' = Some e'" "n' < length (vin (me_tx e'))"
    using assms(2,3) by (auto simp: pool_spends_def)
  then have "n < 2 ^ 32" "n' < 2 ^ 32" using pool_invD(2) [OF assms(1)] by fastforce+
  moreover have "h = h'" "(of_nat n :: uint32) = of_nat n'"
    using pool_spends_index [OF assms(1,2)] pool_spends_index [OF assms(1,3)] by simp_all
  ultimately show ?thesis using unat_32 by metis
qed

lemma empty_pool_inv: "pool_inv empty_pool"
  by (simp add: pool_inv_def empty_pool_def pool_size_def pool_spends_def)

section \<open>Adding a transaction\<close>

lemma link_inputs_other: "out \<notin> prevout ` set ins \<Longrightarrow> map_of (link_inputs h ins i m) out = map_of m out"
  by (induction ins arbitrary: i m) auto

lemma link_inputs_nth:
  "distinct (map prevout ins) \<Longrightarrow> n < length ins \<Longrightarrow>
   map_of (link_inputs h ins i m) (prevout (ins ! n)) = Some \<lparr>ip_ptx = h, ip_n = of_nat (i + n)\<rparr>"
proof (induction ins arbitrary: i m n)
  case (Cons txin ins)
  show ?case
  proof (cases n)
    case 0
    then show ?thesis using Cons.prems(1) by (simp add: link_inputs_other)
  next
    case (Suc k)
    then show ?thesis using Cons.IH [of k "Suc i"] Cons.prems by simp
  qed
qed simp

lemma link_inputs_iff:
  assumes "distinct (map prevout ins)" "\<forall>txin \<in> set ins. map_of m (prevout txin) = None" "length ins < 2 ^ 32"
  shows "map_of (link_inputs h ins 0 m) out = Some \<lparr>ip_ptx = k, ip_n = n\<rparr> \<longleftrightarrow>
    map_of m out = Some \<lparr>ip_ptx = k, ip_n = n\<rparr> \<or> (k = h \<and> unat n < length ins \<and> prevout (ins ! unat n) = out)"
proof (cases "out \<in> prevout ` set ins")
  case False
  then have "\<not> (unat n < length ins \<and> prevout (ins ! unat n) = out)" by (metis image_eqI nth_mem)
  with False show ?thesis by (auto simp: link_inputs_other)
next
  case True
  then obtain j where j: "j < length ins" "prevout (ins ! j) = out" by (auto simp: in_set_conv_nth)
  have u: "unat (of_nat j :: uint32) = j" using j(1) assms(3) by (intro unat_32) linarith
  have inj: "i < length ins \<Longrightarrow> prevout (ins ! i) = out \<longleftrightarrow> i = j" for i
    using nth_eq_iff_index_eq [OF assms(1), of i j] j by auto
  have "map_of m out = None" using True assms(2) by auto
  moreover have "map_of (link_inputs h ins 0 m) out = Some \<lparr>ip_ptx = h, ip_n = of_nat j\<rparr>"
    using link_inputs_nth [OF assms(1) j(1), of h 0 m] j(2) by simp
  moreover have "of_nat j = n \<longleftrightarrow> unat n = j" using u by auto
  ultimately show ?thesis using inj [of "unat n"] j(1) by auto
qed

lemma pool_size_insert: "map_of m h = None \<Longrightarrow> pool_size (omap_insert lt h e m) = pool_size m + me_nTxSize e"
  using omap_insert_new [of m h lt e] by (auto simp: pool_size_def)

lemma add_pool_inv:
  assumes "pool_inv st" "addable st (me_tx e)"
  shows "pool_inv (addUnchecked (txid (me_tx e)) e st)"
proof -
  let ?tx = "me_tx e" and ?h = "txid (me_tx e)"
  let ?st = "addUnchecked ?h e st"
  note i = pool_invD [OF assms(1)]
  have new: "map_of (mapTx st) ?h = None" "length (vin ?tx) < 2 ^ 32"
    "\<forall>txin \<in> set (vin ?tx). map_of (mapNextTx st) (prevout txin) = None"
    using assms(2) by (simp_all add: addable_def)
  have mt: "map_of (mapTx ?st) = (map_of (mapTx st))(?h \<mapsto> e)" by (simp add: addUnchecked_def)
  have old: "pool_spends st out k n \<Longrightarrow> k \<noteq> ?h" for out k n using new(1) by (auto simp: pool_spends_def)
  have sp: "pool_spends ?st out k n \<longleftrightarrow> pool_spends st out k n \<or>
      (k = ?h \<and> \<not> HasZerocoinSpendInputs ?tx \<and> n < length (vin ?tx) \<and> prevout (vin ?tx ! n) = out)" for out k n
    using old [of out k n] unfolding pool_spends_def mt by (cases "k = ?h") auto
  have nx: "map_of (mapNextTx ?st) out = Some \<lparr>ip_ptx = k, ip_n = n\<rparr> \<longleftrightarrow>
      map_of (mapNextTx st) out = Some \<lparr>ip_ptx = k, ip_n = n\<rparr> \<or>
      (k = ?h \<and> \<not> HasZerocoinSpendInputs ?tx \<and> unat n < length (vin ?tx) \<and> prevout (vin ?tx ! unat n) = out)" for out k n
    using link_inputs_iff [OF _ new(3,2), of ?h out k n] assms(2) by (simp add: addUnchecked_def addable_def)
  have zc: "map_of (mapNextTx ?st) (prevout txin) = None"
    if t: "map_of (mapTx ?st) k = Some f" "HasZerocoinSpendInputs (me_tx f)" "txin \<in> set (vin (me_tx f))" for k f txin
  proof (cases "k = ?h")
    case True
    then have "f = e" using t(1) mt by simp
    then show ?thesis using t new(3) by (simp add: addUnchecked_def)
  next
    case False
    then have f: "map_of (mapTx st) k = Some f" using t(1) mt by simp
    have "HasZerocoinSpendInputs ?tx \<or> prevout txin \<notin> prevout ` set (vin ?tx)"
      using assms(2) f t(2,3) unfolding addable_def by blast
    then show ?thesis using i(3) [OF f t(2,3)] by (auto simp: addUnchecked_def link_inputs_other)
  qed
  show ?thesis
    unfolding pool_inv_def
  proof (intro conjI allI impI ballI)
    show "distinct (map fst (mapTx ?st))" using i(1) new(1) by (simp add: addUnchecked_def distinct_omap_insert)
  next
    fix k f assume "map_of (mapTx ?st) k = Some f"
    then show "txid (me_tx f) = k" "length (vin (me_tx f)) < 2 ^ 32"
      using i(2) new(2) mt by (auto split: if_splits)
  next
    fix k f txin assume "map_of (mapTx ?st) k = Some f" "HasZerocoinSpendInputs (me_tx f)" "txin \<in> set (vin (me_tx f))"
    then show "map_of (mapNextTx ?st) (prevout txin) = None" by (rule zc)
  next
    fix out k n
    show "map_of (mapNextTx ?st) out = Some \<lparr>ip_ptx = k, ip_n = n\<rparr> \<longleftrightarrow> pool_spends ?st out k (unat n)"
      unfolding nx sp using i(4) [of out "\<lparr>ip_ptx = k, ip_n = n\<rparr>"] by simp
  next
    show "totalTxSize ?st = of_nat (pool_size (mapTx ?st))"
      using i(5) new(1) by (simp add: addUnchecked_def pool_size_insert)
  qed
qed

section \<open>Removing a transaction\<close>

lemma map_of_fold_erase:
  "map_of (fold (\<lambda>txin. omap_erase (prevout txin)) ins m) out = (if out \<in> prevout ` set ins then None else map_of m out)"
  by (induction ins arbitrary: m) auto

lemma pool_size_erase: "distinct (map fst m) \<Longrightarrow> map_of m h = Some e \<Longrightarrow> pool_size m = pool_size (omap_erase h m) + me_nTxSize e"
  using omap_erase_filter [of m h e] by (auto simp: pool_size_def)

lemma remove_one_mapTx: "map_of (mapTx (remove_one h e st)) = (map_of (mapTx st))(h := None)"
  by (simp add: remove_one_def)

lemma remove_one_spends: "pool_spends (remove_one h e st) out k n \<longleftrightarrow> k \<noteq> h \<and> pool_spends st out k n"
  unfolding pool_spends_def remove_one_mapTx by auto

text \<open>The inputs of the transaction are exactly the outputs it spent alone.\<close>

lemma remove_one_mapNextTx:
  assumes "pool_inv st" "map_of (mapTx st) h = Some e"
  shows "map_of (mapNextTx (remove_one h e st)) out =
    (case map_of (mapNextTx st) out of None \<Rightarrow> None | Some ip \<Rightarrow> if ip_ptx ip = h then None else Some ip)"
proof -
  have r: "map_of (mapNextTx (remove_one h e st)) out =
      (if out \<in> prevout ` set (vin (me_tx e)) then None else map_of (mapNextTx st) out)"
    by (simp add: remove_one_def map_of_fold_erase)
  show ?thesis
  proof (cases "map_of (mapNextTx st) out")
    case None
    then show ?thesis using r by simp
  next
    case (Some ip)
    then have sp: "pool_spends st out (ip_ptx ip) (unat (ip_n ip))" using pool_invD(4) [OF assms(1)] by blast
    have "ip_ptx ip = h \<longleftrightarrow> out \<in> prevout ` set (vin (me_tx e))"
    proof
      assume "ip_ptx ip = h"
      then show "out \<in> prevout ` set (vin (me_tx e))" using sp assms(2) by (auto simp: pool_spends_def)
    next
      assume "out \<in> prevout ` set (vin (me_tx e))"
      then obtain n where n: "n < length (vin (me_tx e))" "prevout (vin (me_tx e) ! n) = out" by (auto simp: in_set_conv_nth)
      have "\<not> HasZerocoinSpendInputs (me_tx e)"
        using pool_invD(3) [OF assms] \<open>out \<in> _\<close> Some by auto
      then have "pool_spends st out h n" using n assms(2) by (auto simp: pool_spends_def)
      then show "ip_ptx ip = h" using pool_spends_unique [OF assms(1) sp] by blast
    qed
    then show ?thesis using r Some by simp
  qed
qed

lemma remove_one_inv:
  assumes "pool_inv st" "map_of (mapTx st) h = Some e"
  shows "pool_inv (remove_one h e st)"
proof -
  let ?st = "remove_one h e st"
  note i = pool_invD [OF assms(1)]
  note nx = remove_one_mapNextTx [OF assms]
  have sub: "map_of (mapTx ?st) k = Some f \<Longrightarrow> map_of (mapTx st) k = Some f" for k f
    by (auto simp: remove_one_mapTx split: if_splits)
  show ?thesis
    unfolding pool_inv_def
  proof (intro conjI allI impI ballI)
    show "distinct (map fst (mapTx ?st))" using i(1) by (simp add: remove_one_def omap_erase_def distinct_map_filter)
  next
    fix k f assume "map_of (mapTx ?st) k = Some f"
    then show "txid (me_tx f) = k" "length (vin (me_tx f)) < 2 ^ 32" using i(2) sub by auto
  next
    fix k f txin assume "map_of (mapTx ?st) k = Some f" "HasZerocoinSpendInputs (me_tx f)" "txin \<in> set (vin (me_tx f))"
    then show "map_of (mapNextTx ?st) (prevout txin) = None" using i(3) [OF sub] by (simp add: nx)
  next
    fix out k n
    show "map_of (mapNextTx ?st) out = Some \<lparr>ip_ptx = k, ip_n = n\<rparr> \<longleftrightarrow> pool_spends ?st out k (unat n)"
      unfolding nx remove_one_spends using i(4) [of out "\<lparr>ip_ptx = k, ip_n = n\<rparr>"] by (auto split: option.splits if_splits)
  next
    show "totalTxSize ?st = of_nat (pool_size (mapTx ?st))"
      using i(5) pool_size_erase [OF i(1) assms(2)] by (simp add: remove_one_def)
  qed
qed

section \<open>Descendants\<close>

text \<open>\<open>pool_child st h k\<close>: the pooled \<open>k\<close> spends an output of the pooled \<open>h\<close>.\<close>

definition spends_output :: "CTxMemPool \<Rightarrow> hash256 \<Rightarrow> nat \<Rightarrow> hash256 \<Rightarrow> bool" where
  "spends_output st h n k \<longleftrightarrow>
     (\<exists>i ip. i < n \<and> map_of (mapNextTx st) \<lparr>op_hash = h, op_n = of_nat i\<rparr> = Some ip \<and> ip_ptx ip = k)"

definition pool_child :: "CTxMemPool \<Rightarrow> hash256 \<Rightarrow> hash256 \<Rightarrow> bool" where
  "pool_child st h k \<longleftrightarrow> (\<exists>e. map_of (mapTx st) h = Some e \<and> spends_output st h (length (vout (me_tx e))) k)"

definition descendants :: "CTxMemPool \<Rightarrow> hash256 set \<Rightarrow> hash256 set" where
  "descendants st H = {k. \<exists>h \<in> H. (pool_child st)\<^sup>*\<^sup>* h k}"

lemma children_loop_spec:
  assumes "pool_inv st"
  shows "\<exists>cs. children_loop st h is = Some cs \<and>
    set cs = {k. \<exists>i \<in> set is. \<exists>ip. map_of (mapNextTx st) \<lparr>op_hash = h, op_n = of_nat i\<rparr> = Some ip \<and> ip_ptx ip = k}"
proof (induction "is")
  case (Cons i "is")
  then obtain cs where cs: "children_loop st h is = Some cs"
    "set cs = {k. \<exists>i \<in> set is. \<exists>ip. map_of (mapNextTx st) \<lparr>op_hash = h, op_n = of_nat i\<rparr> = Some ip \<and> ip_ptx ip = k}" by blast
  show ?case
  proof (cases "map_of (mapNextTx st) \<lparr>op_hash = h, op_n = of_nat i\<rparr>")
    case None
    then show ?thesis using cs by auto
  next
    case (Some ip)
    then obtain e where e: "map_of (mapTx st) (ip_ptx ip) = Some e"
      using pool_invD(4) [OF assms] by (auto simp: pool_spends_def)
    then have "txid (me_tx e) = ip_ptx ip" using pool_invD(2) [OF assms] by blast
    then show ?thesis using Some e cs by auto
  qed
qed simp

lemma children_spec:
  "pool_inv st \<Longrightarrow> \<exists>cs. children_loop st h [0..<n] = Some cs \<and> set cs = {k. spends_output st h n k}"
  using children_loop_spec [of st h "[0..<n]"] unfolding spends_output_def set_upt Bex_def atLeastLessThan_iff by auto

lemma pool_child_remove:
  assumes "pool_inv st" "map_of (mapTx st) h = Some e"
  shows "pool_child (remove_one h e st) a b \<longleftrightarrow> pool_child st a b \<and> a \<noteq> h \<and> b \<noteq> h"
proof -
  have "map_of (mapNextTx (remove_one h e st)) out = Some ip \<longleftrightarrow> map_of (mapNextTx st) out = Some ip \<and> ip_ptx ip \<noteq> h" for out ip
    unfolding remove_one_mapNextTx [OF assms] by (auto split: option.splits)
  then have "spends_output (remove_one h e st) a n b \<longleftrightarrow> spends_output st a n b \<and> b \<noteq> h" for n
    unfolding spends_output_def by blast
  then show ?thesis by (auto simp: pool_child_def remove_one_mapTx)
qed

text \<open>Reaching around a node that has been handled.\<close>

lemma reach_without:
  assumes "R\<^sup>*\<^sup>* x y"
  shows "y = h \<or> (\<lambda>a b. R a b \<and> a \<noteq> h \<and> b \<noteq> h)\<^sup>*\<^sup>* x y \<or> (\<exists>z. R h z \<and> (\<lambda>a b. R a b \<and> a \<noteq> h \<and> b \<noteq> h)\<^sup>*\<^sup>* z y)"
  using assms
proof (induction rule: rtranclp_induct)
  case (step y w)
  then show ?case
    by (cases "w = h"; cases "y = h") (auto intro: rtranclp.rtrancl_into_rtrancl)
qed simp

lemma reach_within: "(\<lambda>a b. R a b \<and> a \<noteq> h \<and> b \<noteq> h)\<^sup>*\<^sup>* x y \<Longrightarrow> R\<^sup>*\<^sup>* x y"
  by (erule rtranclp_mono [THEN predicate2D, rotated]) auto

lemma descendants_step:
  assumes "pool_inv st" "map_of (mapTx st) h = Some e" "set cs = {k. pool_child st h k}"
  shows "insert h (descendants (remove_one h e st) (H \<union> set cs)) = descendants st (insert h H)"
proof -
  let ?R = "pool_child st" and ?S = "\<lambda>a b. pool_child st a b \<and> a \<noteq> h \<and> b \<noteq> h"
  have S: "pool_child (remove_one h e st) = ?S" using pool_child_remove [OF assms(1,2)] by (intro ext) simp
  have "k \<in> descendants st (insert h H)" if "k \<in> descendants (remove_one h e st) (H \<union> set cs)" for k
  proof -
    from that obtain x where x: "x \<in> H \<or> ?R h x" "?S\<^sup>*\<^sup>* x k" using assms(3) by (auto simp: descendants_def S)
    have "?R\<^sup>*\<^sup>* x k" by (rule reach_within [OF x(2)])
    with x(1) show ?thesis by (auto simp: descendants_def intro: converse_rtranclp_into_rtranclp)
  qed
  moreover have "k = h \<or> k \<in> descendants (remove_one h e st) (H \<union> set cs)" if k: "k \<in> descendants st (insert h H)" for k
  proof -
    from k obtain x where x: "x = h \<or> x \<in> H" "?R\<^sup>*\<^sup>* x k" by (auto simp: descendants_def)
    from reach_without [OF x(2), of h] show ?thesis
    proof (elim disjE exE conjE)
      assume r: "?S\<^sup>*\<^sup>* x k"
      then have "x = h \<Longrightarrow> k = h" by (auto elim: converse_rtranclpE)
      with x(1) r show ?thesis by (auto simp: descendants_def S)
    next
      fix z assume "?R h z" "?S\<^sup>*\<^sup>* z k"
      then show ?thesis using assms(3) by (auto simp: descendants_def S)
    qed simp
  qed
  moreover have "h \<in> descendants st (insert h H)" by (auto simp: descendants_def)
  ultimately show ?thesis by blast
qed

section \<open>The removal loop\<close>

text \<open>\<open>pool_without st st' D\<close>: \<open>st'\<close> is the pool without the transactions of \<open>D\<close>.\<close>

definition pool_without :: "CTxMemPool \<Rightarrow> CTxMemPool \<Rightarrow> hash256 set \<Rightarrow> bool" where
  "pool_without st st' D \<longleftrightarrow>
     pool_inv st' \<and> mapTx st' = filter (\<lambda>p. fst p \<notin> D) (mapTx st) \<and>
     (\<forall>out. map_of (mapNextTx st') out =
        (case map_of (mapNextTx st) out of None \<Rightarrow> None | Some ip \<Rightarrow> if ip_ptx ip \<in> D then None else Some ip))"

lemma pool_without_refl: "pool_inv st \<Longrightarrow> (\<forall>h \<in> D. map_of (mapTx st) h = None) \<Longrightarrow> pool_without st st D"
proof -
  assume i: "pool_inv st" and D: "\<forall>h \<in> D. map_of (mapTx st) h = None"
  have "fst p \<notin> D" if "p \<in> set (mapTx st)" for p
    using D that by (auto simp: map_of_eq_None_iff)
  then have "filter (\<lambda>p. fst p \<notin> D) (mapTx st) = mapTx st" by simp
  moreover have "ip_ptx ip \<notin> D" if "map_of (mapNextTx st) out = Some ip" for out ip
    using that pool_invD(4) [OF i] D by (auto simp: pool_spends_def)
  ultimately show ?thesis using i by (auto simp: pool_without_def split: option.splits)
qed

lemma pool_without_one:
  assumes "pool_inv st" "map_of (mapTx st) h = Some e"
  shows "pool_without st (remove_one h e st) {h}"
  using remove_one_inv [OF assms] remove_one_mapNextTx [OF assms]
  by (simp add: pool_without_def remove_one_def omap_erase_def split: option.splits)

lemma pool_without_trans:
  "pool_without st st1 D1 \<Longrightarrow> pool_without st1 st2 D2 \<Longrightarrow> pool_without st st2 (D1 \<union> D2)"
  by (auto simp: pool_without_def conj_commute intro: filter_cong split: option.splits)

lemma map_of_filter_keys: "map_of (filter (\<lambda>p. fst p \<notin> D) m) h = (if h \<in> D then None else map_of m h)"
  by (induction m) auto

lemma pool_without_mapTx: "pool_without st st' D \<Longrightarrow> map_of (mapTx st') h = (if h \<in> D then None else map_of (mapTx st) h)"
  by (simp add: pool_without_def map_of_filter_keys)

definition taken :: "CTxMemPool \<Rightarrow> hash256 set \<Rightarrow> CTransaction set" where
  "taken st D = (\<lambda>p. me_tx (snd p)) ` {p \<in> set (mapTx st). fst p \<in> D}"

lemma taken_absent: "(\<forall>h \<in> D. map_of (mapTx st) h = None) \<Longrightarrow> taken st D = {}"
  by (auto simp: taken_def map_of_eq_None_iff)

lemma taken_one:
  assumes "pool_inv st" "map_of (mapTx st) h = Some e"
  shows "taken st ({h} \<union> D) = insert (me_tx e) (taken (remove_one h e st) D)"
proof -
  have "(h, f) \<in> set (mapTx st) \<longleftrightarrow> f = e" for f
    using assms(2) by (auto simp: map_of_eq_Some_iff [OF pool_invD(1) [OF assms(1)], symmetric])
  then have "p \<in> set (mapTx st) \<and> fst p \<in> {h} \<union> D \<longleftrightarrow> p = (h, e) \<or> p \<in> set (mapTx (remove_one h e st)) \<and> fst p \<in> D" for p
    by (cases p; cases "fst p = h") (simp_all add: remove_one_def omap_erase_def)
  then have "{p \<in> set (mapTx st). fst p \<in> {h} \<union> D} = insert (h, e) {p \<in> set (mapTx (remove_one h e st)). fst p \<in> D}"
    by blast
  then show ?thesis by (simp add: taken_def)
qed

text \<open>With the flag the loop removes the descendants of its queue, without it the queue.\<close>

lemma remove_loop_spec:
  assumes "pool_inv st"
  shows "\<exists>rem st'. remove_loop st f q removed = Some (removed @ rem, st') \<and>
    pool_without st st' (if f then descendants st (set q) else set q) \<and>
    set rem = taken st (if f then descendants st (set q) else set q)"
  using assms
proof (induction st f q removed rule: remove_loop.induct)
  case (1 st f removed)
  have "(if f then descendants st (set []) else set []) = {}" by (simp add: descendants_def)
  then show ?case using pool_without_refl [OF 1] by (simp add: taken_absent)
next
  case (2 st f h q removed)
  show ?case
  proof (cases "map_of (mapTx st) h")
    case None
    obtain rem st' where r: "remove_loop st f q removed = Some (removed @ rem, st')"
      "pool_without st st' (if f then descendants st (set q) else set q)"
      "set rem = taken st (if f then descendants st (set q) else set q)"
      using "2.IH"(1) [OF None "2.prems"] by blast
    have "(pool_child st)\<^sup>*\<^sup>* h k \<Longrightarrow> k = h" for k
      using None by (auto simp: pool_child_def elim: converse_rtranclpE)
    then have "descendants st (set (h # q)) = insert h (descendants st (set q))" by (auto simp: descendants_def)
    then have D: "(if f then descendants st (set (h # q)) else set (h # q)) =
        (if f then descendants st (set q) else set q) \<union> {h}" by auto
    have "pool_without st' st' {h}"
      using r(2) None pool_without_mapTx [OF r(2), of h]
      by (intro pool_without_refl) (auto simp: pool_without_def)
    moreover have "taken st ((if f then descendants st (set q) else set q) \<union> {h}) = taken st (if f then descendants st (set q) else set q)"
      using None by (auto simp: taken_def map_of_eq_None_iff)
    moreover note pool_without_trans [OF r(2) \<open>pool_without st' st' {h}\<close>]
    ultimately show ?thesis using r(1,3) None unfolding D by auto
  next
    case (Some e)
    obtain cs where cs: "(if f then children_loop st h [0..<length (vout (me_tx e))] else Some []) = Some cs"
      "f \<Longrightarrow> set cs = {k. pool_child st h k}"
    proof (cases f)
      case True
      obtain cs where "children_loop st h [0..<length (vout (me_tx e))] = Some cs"
        "set cs = {k. spends_output st h (length (vout (me_tx e))) k}" using children_spec [OF "2.prems"] by blast
      then show thesis using True Some by (intro that [of cs]) (auto simp: pool_child_def)
    next
      case False
      then show thesis by (intro that [of "[]"]) simp_all
    qed
    let ?st = "remove_one h e st"
    obtain rem st' where r: "remove_loop ?st f (q @ cs) (removed @ [me_tx e]) = Some ((removed @ [me_tx e]) @ rem, st')"
      "pool_without ?st st' (if f then descendants ?st (set (q @ cs)) else set (q @ cs))"
      "set rem = taken ?st (if f then descendants ?st (set (q @ cs)) else set (q @ cs))"
      using "2.IH"(2) [OF Some cs(1) remove_one_inv [OF "2.prems" Some]] by blast
    have w: "pool_without st st' ({h} \<union> (if f then descendants ?st (set (q @ cs)) else set (q @ cs)))"
      by (rule pool_without_trans [OF pool_without_one [OF "2.prems" Some] r(2)])
    have D: "{h} \<union> (if f then descendants ?st (set (q @ cs)) else set (q @ cs)) =
        (if f then descendants st (set (h # q)) else set (h # q))"
    proof (cases f)
      case True
      then show ?thesis using descendants_step [OF "2.prems" Some cs(2) [OF True], of "set q"] by simp
    next
      case False
      then show ?thesis using cs(1) by auto
    qed
    have "remove_loop st f (h # q) removed = Some (removed @ ([me_tx e] @ rem), st')"
      using r(1) Some cs(1) by simp
    moreover have "set ([me_tx e] @ rem) = taken st (if f then descendants st (set (h # q)) else set (h # q))"
      using taken_one [OF "2.prems" Some] r(3) unfolding D [symmetric] by simp
    ultimately show ?thesis using w unfolding D by blast
  qed
qed

section \<open>Removing for a block\<close>

text \<open>Where the removal starts: the transaction, or its spenders too when it is not in the pool.\<close>

definition removal_roots :: "CTxMemPool \<Rightarrow> CTransaction \<Rightarrow> hash256 set" where
  "removal_roots st tx =
     insert (txid tx) (if pool_exists st (txid tx) then {} else {k. spends_output st (txid tx) (length (vout tx)) k})"

lemma pool_remove_spec:
  assumes "pool_inv st"
  shows "\<exists>rem st'. pool_remove st tx removed f = Some (removed @ rem, st') \<and>
    pool_without st st' (if f then descendants st (removal_roots st tx) else {txid tx}) \<and>
    set rem = taken st (if f then descendants st (removal_roots st tx) else {txid tx})"
proof -
  obtain cs where cs: "(if f \<and> \<not> pool_exists st (txid tx) then children_loop st (txid tx) [0..<length (vout tx)] else Some []) = Some cs"
    "f \<Longrightarrow> set (txid tx # cs) = removal_roots st tx" "\<not> f \<Longrightarrow> cs = []"
  proof (cases "f \<and> \<not> pool_exists st (txid tx)")
    case True
    obtain cs where "children_loop st (txid tx) [0..<length (vout tx)] = Some cs"
      "set cs = {k. spends_output st (txid tx) (length (vout tx)) k}" using children_spec [OF assms] by blast
    then show thesis using True by (intro that [of cs]) (simp_all add: removal_roots_def)
  next
    case False
    then show thesis by (intro that [of "[]"]) (auto simp: removal_roots_def)
  qed
  from remove_loop_spec [OF assms, of f "txid tx # cs" removed] show ?thesis
    using cs by (cases f) (auto simp: pool_remove_def)
qed

lemma pool_remove_pooled:
  assumes "pool_inv st" "map_of (mapTx st) h = Some e"
  shows "\<exists>rem st'. pool_remove st (me_tx e) removed True = Some (removed @ rem, st') \<and> pool_without st st' (descendants st {h}) \<and>
    set rem = taken st (descendants st {h})"
  using pool_remove_spec [OF assms(1), of "me_tx e" removed True] pool_invD(2) [OF assms] assms(2)
  by (simp add: removal_roots_def pool_exists_def)

lemma pool_without_child: "pool_without st st' D \<Longrightarrow> pool_child st' a b \<Longrightarrow> pool_child st a b"
  using pool_without_mapTx [of st st' D]
  by (fastforce simp: pool_child_def spends_output_def pool_without_def split: option.splits if_splits)

lemma descendants_sub:
  assumes "pool_without st st' D" "H \<subseteq> descendants st C"
  shows "descendants st' H \<subseteq> descendants st C"
proof
  fix k assume "k \<in> descendants st' H"
  then obtain h where h: "h \<in> H" "(pool_child st')\<^sup>*\<^sup>* h k" by (auto simp: descendants_def)
  then have "(pool_child st)\<^sup>*\<^sup>* h k"
    using pool_without_child [OF assms(1)] rtranclp_mono [of "pool_child st'" "pool_child st"] by blast
  moreover obtain c where "c \<in> C" "(pool_child st)\<^sup>*\<^sup>* c h" using h(1) assms(2) by (auto simp: descendants_def)
  ultimately show "k \<in> descendants st C" by (auto simp: descendants_def intro: rtranclp_trans)
qed

lemma pool_without_index:
  "pool_without st st' D \<Longrightarrow> map_of (mapNextTx st') out = Some ip \<Longrightarrow> map_of (mapNextTx st) out = Some ip \<and> ip_ptx ip \<notin> D"
  by (auto simp: pool_without_def split: option.splits if_splits)

text \<open>The pooled transactions that spend an input of \<open>tx\<close>.\<close>

definition rivals :: "CTxMemPool \<Rightarrow> CTransaction \<Rightarrow> CTxIn list \<Rightarrow> hash256 set" where
  "rivals st tx ins =
     {k. k \<noteq> txid tx \<and> (\<exists>txin \<in> set ins. \<exists>ip. map_of (mapNextTx st) (prevout txin) = Some ip \<and> ip_ptx ip = k)}"

lemma rivals_sub: "pool_without st st' D \<Longrightarrow> rivals st' tx ins \<subseteq> rivals st tx ins"
  using pool_without_index by (fastforce simp: rivals_def)

lemma descendants_incl: "H \<subseteq> descendants st H"
  by (auto simp: descendants_def)

lemma descendants_mono: "A \<subseteq> B \<Longrightarrow> descendants st A \<subseteq> descendants st B"
  by (auto simp: descendants_def)

lemma conflicts_loop_spec:
  assumes "pool_inv st"
  shows "\<exists>rem st' D. conflicts_loop st tx ins removed = Some (removed @ rem, st') \<and> pool_without st st' D \<and>
    D \<subseteq> descendants st (rivals st tx ins) \<and> rivals st' tx ins = {}"
  using assms
proof (induction ins arbitrary: st removed)
  case Nil
  then show ?case using pool_without_refl [OF Nil, of "{}"] by (auto simp: rivals_def)
next
  case (Cons txin ins)
  have skip: "?case" if nx: "conflicts_loop st tx (txin # ins) removed = conflicts_loop st tx ins removed"
    and none: "\<And>ip. map_of (mapNextTx st) (prevout txin) = Some ip \<Longrightarrow> ip_ptx ip = txid tx"
  proof -
    obtain rem st' D where r: "conflicts_loop st tx ins removed = Some (removed @ rem, st')" "pool_without st st' D"
      "D \<subseteq> descendants st (rivals st tx ins)" "rivals st' tx ins = {}" using Cons.IH [OF Cons.prems] by blast
    have "rivals st tx (txin # ins) = rivals st tx ins" using none by (auto simp: rivals_def)
    moreover have "rivals st' tx (txin # ins) = rivals st' tx ins"
      using none pool_without_index [OF r(2)] by (fastforce simp: rivals_def)
    ultimately show ?thesis using r nx by auto
  qed
  show ?case
  proof (cases "map_of (mapNextTx st) (prevout txin)")
    case None
    then show ?thesis by (intro skip) simp_all
  next
    case (Some ip)
    then obtain e where e: "map_of (mapTx st) (ip_ptx ip) = Some e"
      using pool_invD(4) [OF Cons.prems] by (auto simp: pool_spends_def)
    have tx: "txid (me_tx e) = ip_ptx ip" using pool_invD(2) [OF Cons.prems e] by simp
    show ?thesis
    proof (cases "ip_ptx ip = txid tx")
      case True
      then show ?thesis using Some e tx by (intro skip) simp_all
    next
      case False
      obtain rem1 st1 where p: "pool_remove st (me_tx e) removed True = Some (removed @ rem1, st1)"
        "pool_without st st1 (descendants st {ip_ptx ip})" using pool_remove_pooled [OF Cons.prems e] by blast
      have i1: "pool_inv st1" using p(2) by (simp add: pool_without_def)
      obtain rem st' D where r: "conflicts_loop st1 tx ins (removed @ rem1) = Some ((removed @ rem1) @ rem, st')"
        "pool_without st1 st' D" "D \<subseteq> descendants st1 (rivals st1 tx ins)" "rivals st' tx ins = {}"
        using Cons.IH [OF i1] by blast
      have iv: "ip_ptx ip \<in> rivals st tx (txin # ins)" using Some False by (auto simp: rivals_def)
      have "rivals st1 tx ins \<subseteq> rivals st tx (txin # ins)" using rivals_sub [OF p(2), of tx ins] by (auto simp: rivals_def)
      then have "descendants st1 (rivals st1 tx ins) \<subseteq> descendants st (rivals st tx (txin # ins))"
        by (intro descendants_sub [OF p(2)]) (use descendants_incl in blast)
      then have "descendants st {ip_ptx ip} \<union> D \<subseteq> descendants st (rivals st tx (txin # ins))"
        using r(3) iv descendants_mono [of "{ip_ptx ip}" "rivals st tx (txin # ins)"] by auto
      moreover have "ip_ptx ip \<in> descendants st {ip_ptx ip}" using descendants_incl by blast
      then have "map_of (mapNextTx st1) (prevout txin) = None" using p(2) Some by (simp add: pool_without_def)
      then have "map_of (mapNextTx st') (prevout txin) = None" using pool_without_index [OF r(2), of "prevout txin"]
        by (cases "map_of (mapNextTx st') (prevout txin)") simp_all
      then have "rivals st' tx (txin # ins) = {}" using r(4) by (auto simp: rivals_def)
      moreover have "conflicts_loop st tx (txin # ins) removed = Some (removed @ (rem1 @ rem), st')"
        using Some e tx False p(1) r(1) by simp
      ultimately show ?thesis using pool_without_trans [OF p(2) r(2)] by blast
    qed
  qed
qed

lemma pool_without_deltas: "pool_inv st \<Longrightarrow> pool_without st (st\<lparr>mapDeltas := m\<rparr>) {}"
  by (auto simp: pool_without_def pool_inv_def pool_spends_def split: option.splits)

lemma removeForBlock_spec:
  assumes "pool_inv st"
  shows "\<exists>conf st' D. removeForBlock st txs conflicts = Some (conflicts @ conf, st') \<and> pool_without st st' D \<and>
    D \<subseteq> txid ` set txs \<union> descendants st (\<Union>tx \<in> set txs. rivals st tx (vin tx)) \<and>
    (\<forall>tx \<in> set txs. map_of (mapTx st') (txid tx) = None \<and>
       (\<forall>txin \<in> set (vin tx). map_of (mapNextTx st') (prevout txin) = None))"
  using assms
proof (induction txs arbitrary: st conflicts)
  case Nil
  then show ?case using pool_without_refl [OF Nil, of "{}"] by auto
next
  case (Cons tx txs)
  obtain rem1 st1 where p: "pool_remove st tx [] False = Some ([] @ rem1, st1)" "pool_without st st1 {txid tx}"
    using pool_remove_spec [OF Cons.prems, of tx "[]" False] by auto
  have i1: "pool_inv st1" using p(2) by (simp add: pool_without_def)
  obtain conf1 st2 D2 where c: "conflicts_loop st1 tx (vin tx) conflicts = Some (conflicts @ conf1, st2)" "pool_without st1 st2 D2"
    "D2 \<subseteq> descendants st1 (rivals st1 tx (vin tx))" "rivals st2 tx (vin tx) = {}"
    using conflicts_loop_spec [OF i1] by blast
  let ?st3 = "ClearPrioritisation st2 (txid tx)"
  have i2: "pool_inv st2" using c(2) by (simp add: pool_without_def)
  have w3: "pool_without st2 ?st3 {}" using pool_without_deltas [OF i2] by (simp add: ClearPrioritisation_def)
  have i3: "pool_inv ?st3" using w3 by (simp add: pool_without_def)
  obtain conf st' D where r: "removeForBlock ?st3 txs (conflicts @ conf1) = Some ((conflicts @ conf1) @ conf, st')"
    "pool_without ?st3 st' D" "D \<subseteq> txid ` set txs \<union> descendants ?st3 (\<Union>tx \<in> set txs. rivals ?st3 tx (vin tx))"
    "\<forall>tx \<in> set txs. map_of (mapTx st') (txid tx) = None \<and> (\<forall>txin \<in> set (vin tx). map_of (mapNextTx st') (prevout txin) = None)"
    using Cons.IH [OF i3] by blast
  note w13 = pool_without_trans [OF p(2) c(2)]
  have w3': "pool_without st ?st3 (({txid tx} \<union> D2) \<union> {})" by (rule pool_without_trans [OF w13 w3])
  then have w: "pool_without st ?st3 ({txid tx} \<union> D2)" by simp
  note w' = pool_without_trans [OF w r(2)]
  let ?C = "\<Union>t \<in> set (tx # txs). rivals st t (vin t)"
  have "descendants st1 (rivals st1 tx (vin tx)) \<subseteq> descendants st ?C"
    by (rule descendants_sub [OF p(2)]) (use rivals_sub [OF p(2), of tx "vin tx"] descendants_incl [of ?C st] in auto)
  moreover have "(\<Union>t \<in> set txs. rivals ?st3 t (vin t)) \<subseteq> ?C"
  proof
    fix k assume "k \<in> (\<Union>t \<in> set txs. rivals ?st3 t (vin t))"
    then obtain t where t: "t \<in> set txs" "k \<in> rivals ?st3 t (vin t)" by blast
    then have "k \<in> rivals st t (vin t)" using rivals_sub [OF w, of t "vin t"] by blast
    with t(1) show "k \<in> ?C" by auto
  qed
  then have "descendants ?st3 (\<Union>t \<in> set txs. rivals ?st3 t (vin t)) \<subseteq> descendants st ?C"
    by (intro descendants_sub [OF w]) (use descendants_incl [of ?C st] in blast)
  ultimately have D: "({txid tx} \<union> D2) \<union> D \<subseteq> txid ` set (tx # txs) \<union> descendants st ?C"
    using c(3) r(3) by auto
  have gone: "map_of (mapTx st') (txid tx) = None" using pool_without_mapTx [OF w', of "txid tx"] by simp
  have free: "map_of (mapNextTx st') (prevout txin) = None" if "txin \<in> set (vin tx)" for txin
  proof (rule ccontr)
    assume "map_of (mapNextTx st') (prevout txin) \<noteq> None"
    then obtain ip where ip: "map_of (mapNextTx st') (prevout txin) = Some ip" by blast
    have ip2: "map_of (mapNextTx st2) (prevout txin) = Some ip"
      using pool_without_index [OF w3] pool_without_index [OF r(2) ip] by blast
    then have "ip_ptx ip = txid tx" using c(4) that by (auto simp: rivals_def)
    then show False using pool_without_index [OF w' ip] by simp
  qed
  have "removeForBlock st (tx # txs) conflicts = Some (conflicts @ (conf1 @ conf), st')"
    using p(1) c(1) r(1) by (simp add: removeConflicts_def)
  then show ?case using w' D gone free r(4) by (intro exI [of _ "conf1 @ conf"] exI [of _ st'] exI [of _ "{txid tx} \<union> D2 \<union> D"]) auto
qed

lemma remove_each_spec:
  assumes "pool_inv st"
  shows "\<exists>st' D. remove_each st txs = Some st' \<and> pool_without st st' D \<and> txid ` set txs \<subseteq> D"
  using assms
proof (induction txs arbitrary: st)
  case Nil
  then show ?case using pool_without_refl [OF Nil, of "{}"] by auto
next
  case (Cons tx txs)
  obtain rem st1 where p: "pool_remove st tx [] True = Some ([] @ rem, st1)" "pool_without st st1 (descendants st (removal_roots st tx))"
    using pool_remove_spec [OF Cons.prems, of tx "[]" True] by auto
  have i1: "pool_inv st1" using p(2) by (simp add: pool_without_def)
  obtain st' D where r: "remove_each st1 txs = Some st'" "pool_without st1 st' D" "txid ` set txs \<subseteq> D" using Cons.IH [OF i1] by blast
  have "txid tx \<in> descendants st (removal_roots st tx)"
    using descendants_incl [of "removal_roots st tx" st] by (auto simp: removal_roots_def)
  then show ?case using p(1) r(1,3) pool_without_trans [OF p(2) r(2)]
    by (intro exI [of _ st'] exI [of _ "descendants st (removal_roots st tx) \<union> D"]) auto
qed

section \<open>Runs of the pool\<close>

text \<open>The operations of the pool as steps; a transaction is added only when it passed the checks.\<close>

inductive pool_step :: "CTxMemPool \<Rightarrow> CTxMemPool \<Rightarrow> bool" where
  accept: "addable st (me_tx e) \<Longrightarrow> pool_step st (addUnchecked (txid (me_tx e)) e st)"
| remove: "pool_remove st tx [] f = Some (removed, st') \<Longrightarrow> pool_step st st'"
| conflicts: "removeConflicts st tx [] = Some (removed, st') \<Longrightarrow> pool_step st st'"
| connected: "removeForBlock st txs [] = Some (removed, st') \<Longrightarrow> pool_step st st'"
| immature: "removeCoinbaseSpends db_GetCoins f maturity h v st = Some (st', v') \<Longrightarrow> pool_step st st'"
| prioritise: "pool_step st (PrioritiseTransaction st h d)"
| clear: "pool_step st (pool_clear st)"

inductive pool_reachable :: "CTxMemPool \<Rightarrow> bool" where
  start: "pool_reachable empty_pool"
| step: "pool_reachable st \<Longrightarrow> pool_step st st' \<Longrightarrow> pool_reachable st'"

lemma pool_step_inv: "pool_step st st' \<Longrightarrow> pool_inv st \<Longrightarrow> pool_inv st'"
proof (induction rule: pool_step.induct)
  case (accept st e)
  then show ?case by (intro add_pool_inv)
next
  case (remove st tx f removed st')
  then show ?case using pool_remove_spec [of st tx "[]" f] by (auto simp: pool_without_def)
next
  case (conflicts st tx removed st')
  then show ?case using conflicts_loop_spec [of st tx "vin tx" "[]"] by (auto simp: removeConflicts_def pool_without_def)
next
  case (connected st txs removed st')
  then show ?case using removeForBlock_spec [of st txs "[]"] by (auto simp: pool_without_def)
next
  case (immature f maturity h v st st' v')
  then obtain txs where "remove_each st txs = Some st'" by (auto simp: removeCoinbaseSpends_def split: option.splits)
  then show ?case using remove_each_spec [OF immature.prems, of txs] by (auto simp: pool_without_def)
next
  case (prioritise st h d)
  then show ?case using pool_without_deltas [of st] by (simp add: PrioritiseTransaction_def pool_without_def)
next
  case (clear st)
  then show ?case by (simp add: pool_inv_def pool_clear_def pool_size_def pool_spends_def)
qed

lemma pool_reachable_inv: "pool_reachable st \<Longrightarrow> pool_inv st"
  by (induction rule: pool_reachable.induct) (auto intro: pool_step_inv empty_pool_inv)

section \<open>A small pool for the concrete inputs\<close>

definition demo_child :: CTransaction where
  "demo_child = demo_tx\<lparr>txid := 78, vin := [\<lparr>prevout = \<lparr>op_hash = 77, op_n = 0\<rparr>, scriptSig = [], nSequence = - 1\<rparr>]\<rparr>"

definition demo_entry :: "CTransaction \<Rightarrow> CTxMemPoolEntry" where
  "demo_entry tx = CTxMemPoolEntry_of tx 60 10 0 8"

definition demo_pool :: CTxMemPool where
  "demo_pool = addUnchecked 78 (demo_entry demo_child) (addUnchecked 77 (demo_entry demo_tx) empty_pool)"

lemma demo_plain: "\<not> HasZerocoinSpendInputs demo_tx" "\<not> HasZerocoinSpendInputs demo_child"
  by (simp_all add: demo_child_def demo_tx_def HasZerocoinSpendInputs_def
      CTxIn_IsZerocoinSpend_def CTxIn_IsZerocoinPublicSpend_def IsZerocoinPublicSpend_def StartsWithOpcode_def)

lemma demo_entries [simp]: "me_tx (demo_entry tx) = tx" "me_nTxSize (demo_entry tx) = 60"
  by (simp_all add: demo_entry_def CTxMemPoolEntry_of_def)

lemma demo_pool_reachable: "pool_reachable demo_pool"
proof -
  have a: "addable empty_pool demo_tx" by (simp add: addable_def empty_pool_def demo_tx_def)
  have p1: "pool_reachable (addUnchecked 77 (demo_entry demo_tx) empty_pool)"
    using pool_reachable.step [OF pool_reachable.start pool_step.accept [of empty_pool "demo_entry demo_tx"]] a
    by (simp add: demo_tx_def)
  have b: "addable (addUnchecked 77 (demo_entry demo_tx) empty_pool) demo_child"
    using demo_plain by (simp add: addable_def addUnchecked_def empty_pool_def demo_tx_def demo_child_def)
  show ?thesis
    using pool_reachable.step [OF p1 pool_step.accept [of _ "demo_entry demo_child"]] b
    by (simp add: demo_pool_def demo_child_def)
qed

lemma demo_pool_maps:
  "mapTx demo_pool = [(77, demo_entry demo_tx), (78, demo_entry demo_child)]"
  "map_of (mapNextTx demo_pool) \<lparr>op_hash = 77, op_n = 0\<rparr> = Some \<lparr>ip_ptx = 78, ip_n = 0\<rparr>"
  "map_of (mapNextTx demo_pool) \<lparr>op_hash = 5, op_n = 0\<rparr> = Some \<lparr>ip_ptx = 77, ip_n = 0\<rparr>"
  using demo_plain
  by (simp_all add: demo_pool_def addUnchecked_def empty_pool_def demo_tx_def demo_child_def)

section \<open>Properties\<close>

text \<open>C12:
  In every state the pool reaches by its operations, each adding only a transaction that passed the
  checks of \<open>AcceptToMemoryPool\<close>, the index of spent outputs holds exactly the inputs of the pooled
  transactions, no output is spent by two of them, the total size is the sum of the sizes, and no
  operation follows a dangling pointer.\<close>

theorem pool_reachable_consistent:
  assumes "pool_reachable st"
  shows "(\<forall>out ip. map_of (mapNextTx st) out = Some ip \<longleftrightarrow> pool_spends st out (ip_ptx ip) (unat (ip_n ip))) \<and>
    (\<forall>out h n h' n'. pool_spends st out h n \<and> pool_spends st out h' n' \<longrightarrow> h = h' \<and> n = n') \<and>
    totalTxSize st = of_nat (pool_size (mapTx st)) \<and>
    (\<forall>tx f. pool_remove st tx [] f \<noteq> None) \<and> (\<forall>txs. removeForBlock st txs [] \<noteq> None)"
proof -
  note i = pool_reachable_inv [OF assms]
  have "pool_remove st tx [] f \<noteq> None" for tx f using pool_remove_spec [OF i, of tx "[]" f] by auto
  moreover have "removeForBlock st txs [] \<noteq> None" for txs using removeForBlock_spec [OF i, of txs "[]"] by auto
  ultimately show ?thesis using pool_invD(4,5) [OF i] pool_spends_unique [OF i] by blast
qed

theorem pool_reachable_consistent_witness: "removeForBlock demo_pool [demo_tx] [] \<noteq> None"
  using pool_reachable_consistent [OF demo_pool_reachable] by blast

text \<open>C13:
  The recursive removal of a pooled transaction returns, takes out exactly the transaction and those
  that spend its outputs directly or through others, reports exactly these, and keeps the rest in order.\<close>

theorem remove_takes_descendants:
  assumes "pool_reachable st" "map_of (mapTx st) h = Some e"
  shows "\<exists>removed st'. pool_remove st (me_tx e) [] True = Some (removed, st') \<and>
    mapTx st' = filter (\<lambda>p. fst p \<notin> descendants st {h}) (mapTx st) \<and>
    set removed = taken st (descendants st {h})"
  using pool_remove_pooled [OF pool_reachable_inv [OF assms(1)] assms(2), of "[]"] by (auto simp: pool_without_def)

theorem remove_takes_descendants_witness:
  "\<exists>removed st'. pool_remove demo_pool demo_tx [] True = Some (removed, st') \<and> mapTx st' = []"
proof -
  have c: "pool_child demo_pool 77 78"
    by (auto simp: pool_child_def spends_output_def demo_pool_maps demo_tx_def intro!: exI [of _ 0])
  then have "{77, 78} \<subseteq> descendants demo_pool {77}" by (auto simp: descendants_def)
  then show ?thesis
    using remove_takes_descendants [OF demo_pool_reachable, of 77 "demo_entry demo_tx"]
    by (auto simp: demo_pool_maps)
qed

text \<open>C14:
  After a block is connected no pooled transaction is one of the block or spends an output that the
  block spends, and a transaction left the pool only because it is in the block or descends from one
  that competes with the block for an output.\<close>

theorem removeForBlock_leaves_no_conflict:
  assumes "pool_reachable st"
  shows "\<exists>conflicts st'. removeForBlock st txs [] = Some (conflicts, st') \<and>
    (\<forall>tx \<in> set txs. \<not> pool_exists st' (txid tx) \<and> (\<forall>txin \<in> set (vin tx). map_of (mapNextTx st') (prevout txin) = None)) \<and>
    (\<exists>D. mapTx st' = filter (\<lambda>p. fst p \<notin> D) (mapTx st) \<and>
       D \<subseteq> txid ` set txs \<union> descendants st (\<Union>tx \<in> set txs. rivals st tx (vin tx)))"
proof -
  obtain conflicts st' D where r: "removeForBlock st txs [] = Some ([] @ conflicts, st')" "pool_without st st' D"
    "D \<subseteq> txid ` set txs \<union> descendants st (\<Union>tx \<in> set txs. rivals st tx (vin tx))"
    "\<forall>tx \<in> set txs. map_of (mapTx st') (txid tx) = None \<and> (\<forall>txin \<in> set (vin tx). map_of (mapNextTx st') (prevout txin) = None)"
    using removeForBlock_spec [OF pool_reachable_inv [OF assms]] by blast
  then show ?thesis by (auto simp: pool_exists_def pool_without_def)
qed

theorem removeForBlock_leaves_no_conflict_witness:
  "\<exists>conflicts st'. removeForBlock demo_pool [demo_tx\<lparr>txid := 79\<rparr>] [] = Some (conflicts, st') \<and> \<not> pool_exists st' 79 \<and>
     map_of (mapNextTx st') \<lparr>op_hash = 5, op_n = 0\<rparr> = None"
  using removeForBlock_leaves_no_conflict [OF demo_pool_reachable, of "[demo_tx\<lparr>txid := 79\<rparr>]"]
  by (auto simp: demo_tx_def)

end
