(* ===== verification/ActivateProps.thy ===== *)
theory ActivateProps
  imports Activate ChainStateProps MempoolProps
begin

text \<open>
  Moving the tip: what each step does to the block index, that \<open>ActivateBestChain\<close> never loops for
  ever, and that the tip it leaves is the best usable candidate.
\<close>

section \<open>States that differ in the active chain\<close>

definition tree_same :: "chain_index \<Rightarrow> chain_index \<Rightarrow> bool" where
  "tree_same s s' \<longleftrightarrow> same_shape s (s'\<lparr>chainActive := chainActive s\<rparr>)"

lemma tree_same_refl [simp]: "tree_same s s" by (simp add: tree_same_def)

lemma tree_same_shape: "same_shape s s' \<Longrightarrow> tree_same s s'"
  by (simp add: tree_same_def same_shape_def)

lemma tree_same_trans: "tree_same s s1 \<Longrightarrow> tree_same s1 s2 \<Longrightarrow> tree_same s s2"
  by (simp add: tree_same_def same_shape_def)

lemma tree_sameD:
  assumes "tree_same s s'"
  shows "climb (ix_store s') = climb (ix_store s)" "WorkLess s' = WorkLess s" "work_of s' p = work_of s p"
    "nHeight (ix_store s' p) = nHeight (ix_store s p)" "pprev (ix_store s' p) = pprev (ix_store s p)"
    "path (ix_store s') p = path (ix_store s) p" "more_work s' a b = more_work s a b" "Contains (ix_store s') = Contains (ix_store s)"
  using assms climb_shape [of s "s'\<lparr>chainActive := chainActive s\<rparr>"] WorkLess_shape [of s "s'\<lparr>chainActive := chainActive s\<rparr>"]
  by (simp_all add: tree_same_def same_shape_def work_of_def path_def more_work_def WorkLess_def Contains_def fun_eq_iff)

lemma index_inv_moved:
  assumes inv: "index_inv s S" and t: "tree_same s s'"
    and c: "set (setBlockIndexCandidates s') \<subseteq> set (setBlockIndexCandidates s)" "sorted_wrt (WorkLess s) (setBlockIndexCandidates s')"
    and ok: "chain_ok (ix_store s') S (chainActive s')"
  shows "index_inv s' S"
proof -
  let ?u = "s'\<lparr>chainActive := chainActive s\<rparr>"
  have u: "index_inv ?u S" using t c by (intro index_inv_shape [OF inv]) (simp_all add: tree_same_def)
  have "WorkLess ?u = WorkLess s'" "linked ?u = linked s'" "work_ok ?u = work_ok s'"
    by (simp_all add: fun_eq_iff WorkLess_def more_work_def linked_def work_ok_def)
  then show ?thesis using u ok by (simp add: index_inv_def)
qed

text \<open>\<open>moved\<close>: the tree stays, blocks only become failed, candidates only leave.\<close>

definition moved :: "chain_index \<Rightarrow> chain_index \<Rightarrow> ptr set \<Rightarrow> bool" where
  "moved s s' S \<longleftrightarrow>
     index_inv s' S \<and> tree_same s s' \<and> (\<forall>q. is_failed s q \<longrightarrow> is_failed s' q) \<and> (\<forall>q. has_data s' q \<longleftrightarrow> has_data s q) \<and>
     set (setBlockIndexCandidates s') \<subseteq> set (setBlockIndexCandidates s)"

lemma moved_refl: "index_inv s S \<Longrightarrow> moved s s S"
  by (simp add: moved_def)

lemma moved_trans: "moved s s1 S \<Longrightarrow> moved s1 s2 S \<Longrightarrow> moved s s2 S"
  using tree_same_trans by (auto simp: moved_def)

lemma search_moved: "search_kept s s' S \<Longrightarrow> moved s s' S"
  by (simp add: search_kept_def moved_def tree_same_shape)

lemma path_last: "last (path st p) = Some p"
  by (simp add: path_def)

lemma path_not_empty [simp]: "path st p \<noteq> []" by (simp add: path_def)

lemma ix_tip_path: "chainActive s = path st p \<Longrightarrow> ix_tip s = Some p"
  by (simp add: ix_tip_def path_last)

lemma index_tip:
  assumes "index_inv s S" "ix_tip s = Some t"
  shows "t \<in> S" "chainActive s = path (ix_store s) t"
  using index_invD(3) [OF assms(1)] assms(2) by (auto simp: chain_ok_def ix_tip_def path_last)

section \<open>Disconnecting\<close>

lemma resurrect_index: "resurrect E txs nd = Some nd' \<Longrightarrow> nd_index nd' = nd_index nd"
proof (induction txs arbitrary: nd)
  case (Cons tx txs)
  then show ?case by (auto split: if_split_asm option.splits bool.splits prod.splits dest!: Cons.IH)
qed simp

lemma flush_index: "FlushStateToDisk E always periodic nd = (ok, nd') \<Longrightarrow>
   \<exists>d. nd_index nd' = (nd_index nd)\<lparr>setDirtyBlockIndex := d\<rparr>"
proof -
  assume "FlushStateToDisk E always periodic nd = (ok, nd')"
  then have "nd_index nd' = (nd_index nd)\<lparr>setDirtyBlockIndex := setDirtyBlockIndex (nd_index nd)\<rparr> \<or>
      nd_index nd' = (nd_index nd)\<lparr>setDirtyBlockIndex := {}\<rparr>"
    by (auto simp: FlushStateToDisk_def split: if_split_asm option.splits)
  then show ?thesis by blast
qed

lemma DisconnectTip_index:
  assumes "DisconnectTip E nd = Some (True, nd')"
  obtains p q v d where "nd_tip nd = Some p" "pprev (nd_store nd p) = Some q"
    "SetTip (nd_store nd) (chainActive (nd_index nd)) (Some q) = Some v"
    "nd_index nd' = (nd_index nd)\<lparr>setDirtyBlockIndex := d, chainActive := v\<rparr>"
proof -
  obtain p where p: "nd_tip nd = Some p" using assms by (auto simp: DisconnectTip_def split: option.splits)
  from assms p obtain block c where c: "ne_disk E p = Some block"
    "DisconnectTip_coins (node_cn E nd) block (nd_store nd p) (nd_undo nd p) (nd_coins nd) = Some (Some c)"
    by (auto simp: DisconnectTip_def split: option.splits)
  from assms p c obtain nd1 where f: "FlushStateToDisk E True False (nd\<lparr>nd_coins := c\<rparr>) = (True, nd1)"
    by (auto simp: DisconnectTip_def split: prod.splits bool.splits)
  from assms p c f obtain nd2 where r: "resurrect E (vtx block) nd1 = Some nd2"
    by (auto simp: DisconnectTip_def split: option.splits)
  from assms p c f r obtain pool c2 where u: "UpdateTip (pprev (nd_store nd2 p)) (nd2\<lparr>nd_pool := pool, nd_coins := c2\<rparr>) = Some nd'"
    by (auto simp: DisconnectTip_def split: option.splits)
  obtain d where d: "nd_index nd2 = (nd_index nd)\<lparr>setDirtyBlockIndex := d\<rparr>"
    using flush_index [OF f] resurrect_index [OF r] by auto
  show ?thesis
    using u d p by (auto simp: UpdateTip_def split: option.splits if_split_asm intro!: that)
qed

text \<open>A new active chain over the same tree.\<close>

lemma moved_chain:
  assumes "index_inv s S" "t \<in> S"
  shows "moved s (s\<lparr>setDirtyBlockIndex := d, chainActive := path (ix_store s) t\<rparr>) S"
proof -
  have "tree_same s (s\<lparr>setDirtyBlockIndex := d, chainActive := path (ix_store s) t\<rparr>)" by (simp add: tree_same_def same_shape_def)
  then have "index_inv (s\<lparr>setDirtyBlockIndex := d, chainActive := path (ix_store s) t\<rparr>) S"
    using assms index_invD(6) by (intro index_inv_moved [OF assms(1)]) (auto simp: chain_ok_def)
  then show ?thesis using \<open>tree_same s _\<close> by (simp add: moved_def is_failed_def has_data_def)
qed

lemma disconnect_step:
  assumes inv: "index_inv (nd_index nd) S" and d: "DisconnectTip E nd = Some (True, nd')"
  obtains p q where "nd_tip nd = Some p" "p \<in> S" "pprev (nd_store nd p) = Some q" "q \<in> S" "nd_tip nd' = Some q"
    "nHeight (nd_store nd p) = Suc (nHeight (nd_store nd q))"
    "moved (nd_index nd) (nd_index nd') S" "\<forall>r. is_failed (nd_index nd') r \<longleftrightarrow> is_failed (nd_index nd) r"
    "setBlockIndexCandidates (nd_index nd') = setBlockIndexCandidates (nd_index nd)"
proof -
  obtain p q v dd where e: "nd_tip nd = Some p" "pprev (nd_store nd p) = Some q"
    "SetTip (nd_store nd) (chainActive (nd_index nd)) (Some q) = Some v"
    "nd_index nd' = (nd_index nd)\<lparr>setDirtyBlockIndex := dd, chainActive := v\<rparr>"
    by (rule DisconnectTip_index [OF d])
  have pS: "p \<in> S" using index_tip(1) [OF inv e(1)] .
  have q: "q \<in> S" "nHeight (nd_store nd p) = Suc (nHeight (nd_store nd q))" using wf_treeD(2) [OF index_invD(1) [OF inv] pS e(2)] by simp_all
  have v: "v = path (nd_store nd) q" using SetTip_path [OF index_invD(1,3) [OF inv] q(1)] e(3) by simp
  have m: "moved (nd_index nd) (nd_index nd') S" unfolding e(4) v by (rule moved_chain [OF inv q(1)])
  have f: "\<forall>r. is_failed (nd_index nd') r \<longleftrightarrow> is_failed (nd_index nd) r" by (simp add: e(4) is_failed_def)
  have t: "nd_tip nd' = Some q" by (rule ix_tip_path [where st = "nd_store nd"]) (simp add: e(4) v)
  show ?thesis by (rule that [OF e(1) pS e(2) q(1) t q(2) m f]) (simp add: e(4))
qed

text \<open>Disconnecting to a fork ends, and at the fork.\<close>

lemma disconnect_to_spec:
  "index_inv (nd_index nd) S \<Longrightarrow> \<exists>r. disconnect_to E fork nd = Some r \<and>
    (\<forall>nd'. r = Some (True, nd') \<longrightarrow> moved (nd_index nd) (nd_index nd') S \<and> (nd_tip nd' = None \<longrightarrow> nd_tip nd = None) \<and> (nd_tip nd' = None \<or> nd_tip nd' = fork) \<and>
       (\<forall>q. is_failed (nd_index nd') q \<longleftrightarrow> is_failed (nd_index nd) q) \<and>
       setBlockIndexCandidates (nd_index nd') = setBlockIndexCandidates (nd_index nd))"
proof (induction "length (chainActive (nd_index nd))" arbitrary: nd rule: less_induct)
  case less
  show ?case
  proof (cases "nd_tip nd = None \<or> nd_tip nd = fork")
    case True
    then have "disconnect_to E fork nd = Some (Some (True, nd))" by (subst disconnect_to.simps) simp
    then show ?thesis using True moved_refl [OF less.prems] by auto
  next
    case False
    consider "DisconnectTip E nd = None" | nd1 where "DisconnectTip E nd = Some (False, nd1)"
      | nd1 where "DisconnectTip E nd = Some (True, nd1)"
      by (metis option.exhaust surj_pair)
    then show ?thesis
    proof cases
      case 1
      then have "disconnect_to E fork nd = Some None" using False by (subst disconnect_to.simps) simp
      then show ?thesis by simp
    next
      case 2
      then have "disconnect_to E fork nd = Some (Some (False, nd1))" using False by (subst disconnect_to.simps) simp
      then show ?thesis by simp
    next
      case 3
      then have step: "disconnect_to E fork nd = disconnect_to E fork nd1" using False by (subst disconnect_to.simps) auto
      obtain p q where s: "nd_tip nd = Some p" "nd_tip nd1 = Some q" "nHeight (nd_store nd p) = Suc (nHeight (nd_store nd q))"
        "moved (nd_index nd) (nd_index nd1) S" "\<forall>r. is_failed (nd_index nd1) r \<longleftrightarrow> is_failed (nd_index nd) r"
        "setBlockIndexCandidates (nd_index nd1) = setBlockIndexCandidates (nd_index nd)"
        by (rule disconnect_step [OF less.prems 3])
      have i1: "index_inv (nd_index nd1) S" and t: "tree_same (nd_index nd) (nd_index nd1)" using s(4) by (simp_all add: moved_def)
      have "length (chainActive (nd_index nd1)) < length (chainActive (nd_index nd))"
        using index_tip(2) [OF less.prems s(1)] index_tip(2) [OF i1 s(2)] s(3) tree_sameD(4) [OF t] by simp
      from less.hyps [OF this i1] obtain r where r: "disconnect_to E fork nd1 = Some r"
        "\<And>nd'. r = Some (True, nd') \<Longrightarrow> moved (nd_index nd1) (nd_index nd') S \<and> (nd_tip nd' = None \<longrightarrow> nd_tip nd1 = None) \<and>
          (nd_tip nd' = None \<or> nd_tip nd' = fork) \<and> (\<forall>q. is_failed (nd_index nd') q \<longleftrightarrow> is_failed (nd_index nd1) q) \<and>
          setBlockIndexCandidates (nd_index nd') = setBlockIndexCandidates (nd_index nd1)"
        by blast
      show ?thesis unfolding step r(1) using r(2) s(2,5,6) moved_trans [OF s(4)] by auto
    qed
  qed
qed

section \<open>Connecting\<close>

text \<open>The index after \<open>record_connected\<close>: only the status of the block changes, and not its failure.\<close>

lemma raise_status:
  assumes "RaiseValidity BLOCK_VALID_SCRIPTS b = Some (raised, b')"
  shows "\<exists>n. b' = b\<lparr>nStatus := n\<rparr> \<and> n AND BLOCK_FAILED_MASK = nStatus b AND BLOCK_FAILED_MASK \<and> n AND BLOCK_HAVE_DATA = nStatus b AND BLOCK_HAVE_DATA"
proof -
  have m: "NOT BLOCK_VALID_MASK AND BLOCK_FAILED_MASK = BLOCK_FAILED_MASK" "BLOCK_VALID_SCRIPTS AND BLOCK_FAILED_MASK = 0"
    "NOT BLOCK_VALID_MASK AND BLOCK_HAVE_DATA = BLOCK_HAVE_DATA" "BLOCK_VALID_SCRIPTS AND BLOCK_HAVE_DATA = 0"
    by code_simp+
  have "(nStatus b AND NOT BLOCK_VALID_MASK OR BLOCK_VALID_SCRIPTS) AND BLOCK_FAILED_MASK = nStatus b AND BLOCK_FAILED_MASK"
    "(nStatus b AND NOT BLOCK_VALID_MASK OR BLOCK_VALID_SCRIPTS) AND BLOCK_HAVE_DATA = nStatus b AND BLOCK_HAVE_DATA"
    using m by (simp_all add: bit.conj_disj_distrib2 and.assoc)
  moreover have "b' = b\<lparr>nStatus := nStatus b\<rparr> \<or> b' = b\<lparr>nStatus := nStatus b AND NOT BLOCK_VALID_MASK OR BLOCK_VALID_SCRIPTS\<rparr>"
    using assms by (auto simp: RaiseValidity_def split: if_split_asm)
  ultimately show ?thesis by blast
qed

lemma record_connected_index:
  assumes "record_connected p r nd = Some nd'"
  shows "\<exists>n d. nd_index nd' = (set_status p n (nd_index nd))\<lparr>setDirtyBlockIndex := d\<rparr> \<and>
    n AND BLOCK_FAILED_MASK = nStatus (nd_store nd p) AND BLOCK_FAILED_MASK \<and>
    n AND BLOCK_HAVE_DATA = nStatus (nd_store nd p) AND BLOCK_HAVE_DATA"
proof (cases "nd_index nd' = nd_index nd")
  case True
  have "nd_index nd = (set_status p (nStatus (nd_store nd p)) (nd_index nd))\<lparr>setDirtyBlockIndex := setDirtyBlockIndex (nd_index nd)\<rparr>"
    by (simp add: set_status_def)
  then show ?thesis using True by metis
next
  case False
  have u: "(nStatus b OR BLOCK_HAVE_UNDO) AND BLOCK_FAILED_MASK = nStatus b AND BLOCK_FAILED_MASK"
    "(nStatus b OR BLOCK_HAVE_UNDO) AND BLOCK_HAVE_DATA = nStatus b AND BLOCK_HAVE_DATA" for b :: CBlockIndex
  proof -
    have "BLOCK_HAVE_UNDO AND BLOCK_FAILED_MASK = 0" "BLOCK_HAVE_UNDO AND BLOCK_HAVE_DATA = 0" by code_simp+
    then show "(nStatus b OR BLOCK_HAVE_UNDO) AND BLOCK_FAILED_MASK = nStatus b AND BLOCK_FAILED_MASK"
      "(nStatus b OR BLOCK_HAVE_UNDO) AND BLOCK_HAVE_DATA = nStatus b AND BLOCK_HAVE_DATA"
      by (simp_all add: bit.conj_disj_distrib2)
  qed
  define b where "b = (if nStatus (nd_store nd p) AND BLOCK_HAVE_UNDO = 0
    then (nd_store nd p)\<lparr>nStatus := nStatus (nd_store nd p) OR BLOCK_HAVE_UNDO\<rparr> else nd_store nd p)"
  obtain raised b' where b: "RaiseValidity BLOCK_VALID_SCRIPTS b = Some (raised, b')"
    "nd_index nd' = (nd_index nd)\<lparr>ix_store := (nd_store nd)(p := b'), setDirtyBlockIndex := insert p (setDirtyBlockIndex (nd_index nd))\<rparr>"
    using assms False unfolding record_connected_def Let_def b_def [symmetric]
    by (cases "RaiseValidity BLOCK_VALID_SCRIPTS b") (auto split: option.splits if_split_asm)
  obtain n where n: "b' = b\<lparr>nStatus := n\<rparr>" "n AND BLOCK_FAILED_MASK = nStatus b AND BLOCK_FAILED_MASK"
    "n AND BLOCK_HAVE_DATA = nStatus b AND BLOCK_HAVE_DATA"
    using raise_status [OF b(1)] by blast
  have "b' = (nd_store nd p)\<lparr>nStatus := n\<rparr>" using n(1) by (simp add: b_def)
  moreover have "nStatus b AND BLOCK_FAILED_MASK = nStatus (nd_store nd p) AND BLOCK_FAILED_MASK"
    "nStatus b AND BLOCK_HAVE_DATA = nStatus (nd_store nd p) AND BLOCK_HAVE_DATA"
    using u by (simp_all add: b_def)
  ultimately show ?thesis using n(2,3) b(2) by (auto simp: set_status_def)
qed

lemma ConnectTip_success:
  assumes "ConnectTip E p pblock f nd = Some (Inr (), nd')"
  obtains nd1 c nd2 pool always where "nd1 = nd \<or> (\<exists>r. record_connected p r nd = Some nd1)"
    "FlushStateToDisk E always False (nd1\<lparr>nd_coins := c\<rparr>) = (True, nd2)"
    "UpdateTip (Some p) (nd2\<lparr>nd_pool := pool\<rparr>) = Some nd'"
proof -
  obtain block where b: "pprev (nd_store nd p) = nd_tip nd" "(case pblock of None \<Rightarrow> ne_disk E p | Some block \<Rightarrow> Some block) = Some block"
    using assms by (auto simp: ConnectTip_def Let_def split: if_split_asm option.splits)
  obtain res v where c: "ConnectBlock (node_cn E nd) tip_GetCoins tip_GetBestBlock block (nd_store nd p) (new_cache (nd_coins nd))
      False (pblock \<noteq> None \<and> f) = Some (Inr res, v)" "res = None \<or> ne_connect_writes E nd p"
    using assms b by (auto simp: ConnectTip_def Let_def split: if_split_asm option.splits sum.splits)
  obtain nd1 where n1: "(case res of None \<Rightarrow> Some nd | Some r \<Rightarrow> record_connected p r nd) = Some nd1"
    using assms b c by (auto simp: ConnectTip_def Let_def split: option.splits)
  obtain v1 where fl: "Flush cache_BatchWrite v = Some v1"
    using assms b c n1 by (auto simp: ConnectTip_def Let_def split: option.splits)
  obtain nd2 where n2: "FlushStateToDisk E (case pprev (nd_store nd1 p) of None \<Rightarrow> False | Some q \<Rightarrow> ne_new_file E p q) False
      (nd1\<lparr>nd_coins := base v1\<rparr>) = (True, nd2)"
    using assms b c n1 fl by (auto simp: ConnectTip_def Let_def split: prod.splits bool.splits)
  obtain conflicted pool where "UpdateTip (Some p) (nd2\<lparr>nd_pool := pool\<rparr>) = Some nd'"
    using assms b c n1 fl n2 by (auto simp: ConnectTip_def Let_def split: option.splits)
  then show ?thesis using n1 n2 by (intro that) (auto split: option.splits)
qed

lemma status_moved:
  assumes inv: "index_inv s S" and n: "n AND BLOCK_FAILED_MASK = nStatus (ix_store s p) AND BLOCK_FAILED_MASK"
    "n AND BLOCK_HAVE_DATA = nStatus (ix_store s p) AND BLOCK_HAVE_DATA"
  shows "moved s ((set_status p n s)\<lparr>setDirtyBlockIndex := d\<rparr>) S"
    "\<forall>q. is_failed ((set_status p n s)\<lparr>setDirtyBlockIndex := d\<rparr>) q \<longleftrightarrow> is_failed s q"
proof -
  let ?s = "(set_status p n s)\<lparr>setDirtyBlockIndex := d\<rparr>"
  show f: "\<forall>q. is_failed ?s q \<longleftrightarrow> is_failed s q" using n(1) by (simp add: is_failed_def)
  have "\<forall>q. has_data ?s q \<longleftrightarrow> has_data s q" using n(2) by (simp add: has_data_def)
  moreover have sh: "same_shape s ?s" by (simp add: same_shape_def set_status_def)
  moreover have "index_inv ?s S" using index_invD(6) [OF inv] by (intro index_inv_shape [OF inv sh]) simp_all
  ultimately show "moved s ?s S" using f tree_same_shape [OF sh] by (simp add: moved_def)
qed

lemma connect_success:
  assumes inv: "index_inv (nd_index nd) S" and p: "p \<in> S" and c: "ConnectTip E p pblock f nd = Some (Inr (), nd')"
  shows "moved (nd_index nd) (nd_index nd') S \<and> nd_tip nd' = Some p \<and> (\<forall>q. is_failed (nd_index nd') q \<longleftrightarrow> is_failed (nd_index nd) q) \<and>
    setBlockIndexCandidates (nd_index nd') = setBlockIndexCandidates (nd_index nd)"
proof -
  obtain nd1 c nd2 pool always where s: "nd1 = nd \<or> (\<exists>r. record_connected p r nd = Some nd1)"
    "FlushStateToDisk E always False (nd1\<lparr>nd_coins := c\<rparr>) = (True, nd2)"
    "UpdateTip (Some p) (nd2\<lparr>nd_pool := pool\<rparr>) = Some nd'"
    by (rule ConnectTip_success [OF c])
  obtain n d where n: "nd_index nd1 = (set_status p n (nd_index nd))\<lparr>setDirtyBlockIndex := d\<rparr>"
    "n AND BLOCK_FAILED_MASK = nStatus (nd_store nd p) AND BLOCK_FAILED_MASK"
    "n AND BLOCK_HAVE_DATA = nStatus (nd_store nd p) AND BLOCK_HAVE_DATA"
    using s(1)
  proof
    assume "nd1 = nd"
    then have "nd_index nd1 = (set_status p (nStatus (nd_store nd p)) (nd_index nd))\<lparr>setDirtyBlockIndex := setDirtyBlockIndex (nd_index nd)\<rparr>"
      by (simp add: set_status_def)
    then show ?thesis by (rule that) simp_all
  qed (use record_connected_index that in blast)
  obtain d2 where d2: "nd_index nd2 = (set_status p n (nd_index nd))\<lparr>setDirtyBlockIndex := d2\<rparr>"
    using flush_index [OF s(2)] n(1) by auto
  note m2 = status_moved [OF inv n(2,3), of d2, folded d2]
  have i2: "index_inv (nd_index nd2) S" using m2(1) by (simp add: moved_def)
  have u: "nd_index nd' = (nd_index nd2)\<lparr>chainActive := path (nd_store nd2) p\<rparr>"
    using s(3) SetTip_path [OF index_invD(1,3) [OF i2] p] by (auto simp: UpdateTip_def)
  have e: "nd_index nd' = (nd_index nd2)\<lparr>setDirtyBlockIndex := setDirtyBlockIndex (nd_index nd2), chainActive := path (nd_store nd2) p\<rparr>"
    using u by simp
  have "moved (nd_index nd2) (nd_index nd') S" unfolding e by (rule moved_chain [OF i2 p])
  moreover have "nd_tip nd' = Some p" by (rule ix_tip_path [where st = "nd_store nd2"]) (simp add: u)
  moreover have "is_failed (nd_index nd') q \<longleftrightarrow> is_failed (nd_index nd2) q" for q by (simp add: u is_failed_def)
  moreover have "setBlockIndexCandidates (nd_index nd') = setBlockIndexCandidates (nd_index nd)" by (simp add: u d2)
  ultimately show ?thesis using m2 moved_trans by blast
qed

lemma best_invalid_moved:
  assumes "index_inv s S" "InvalidChainFound p s = Some s'"
  shows "moved s s' S" "\<forall>q. is_failed s' q \<longleftrightarrow> is_failed s q" "chainActive s' = chainActive s"
proof -
  have e: "s' = s \<or> s' = s\<lparr>pindexBestInvalid := Some p\<rparr>" using assms(2) by (auto simp: InvalidChainFound_def split: option.splits if_split_asm)
  then have sh: "same_shape s s'" "setBlockIndexCandidates s' = setBlockIndexCandidates s" by auto
  have i: "index_inv s' S" using index_invD(6) [OF assms(1)] by (intro index_inv_shape [OF assms(1) sh(1)]) (simp_all add: sh(2))
  show f: "\<forall>q. is_failed s' q \<longleftrightarrow> is_failed s q" using e by auto
  have "\<forall>q. has_data s' q \<longleftrightarrow> has_data s q" using e by auto
  then show "moved s s' S" using i f sh tree_same_shape by (simp add: moved_def)
  show "chainActive s' = chainActive s" using e by auto
qed

text \<open>No block on disk, nor the one at hand, fails a check that leaves its data in doubt.\<close>

definition incorrupt :: "node_env \<Rightarrow> CBlock option \<Rightarrow> bool" where
  "incorrupt E pblock \<longleftrightarrow>
     (\<forall>nd block f. (\<exists>p. ne_disk E p = Some block) \<or> pblock = Some block \<longrightarrow> \<not> CorruptionPossible (node_cn E nd) block f)"

lemma connect_invalid:
  assumes inv: "index_inv (nd_index nd) S" and p: "p \<in> S" and ok: "incorrupt E pblock"
    and c: "ConnectTip E p pblock f nd = Some (Inl (TipInvalid corrupt), nd')"
  shows "\<not> corrupt \<and> moved (nd_index nd) (nd_index nd') S \<and> is_failed (nd_index nd') p"
proof -
  obtain block where b: "pprev (nd_store nd p) = nd_tip nd" "(case pblock of None \<Rightarrow> ne_disk E p | Some block \<Rightarrow> Some block) = Some block"
    using c by (auto simp: ConnectTip_def Let_def split: if_split_asm option.splits)
  have nc: "\<not> CorruptionPossible (node_cn E nd) block g" for g
    using ok b(2) unfolding incorrupt_def by (auto split: option.splits)
  obtain e v where cb: "ConnectBlock (node_cn E nd) tip_GetCoins tip_GetBestBlock block (nd_store nd p) (new_cache (nd_coins nd))
      False (pblock \<noteq> None \<and> f) = Some (Inl e, v)"
    using c b by (auto simp: ConnectTip_def Let_def split: if_split_asm option.splits sum.splits prod.splits bool.splits)
  obtain ix where ix: "InvalidBlockFound p False (nd_index nd) = Some ix" "nd_index nd' = ix" "\<not> corrupt"
    using c b cb nc by (auto simp: ConnectTip_def Let_def split: option.splits)
  let ?s1 = "set_status p (nStatus (nd_store nd p) OR BLOCK_FAILED_VALID) (nd_index nd)"
  let ?s2 = "?s1\<lparr>setDirtyBlockIndex := insert p (setDirtyBlockIndex ?s1)\<rparr>"
  have sh2: "same_shape (nd_index nd) ?s2" by (simp add: same_shape_def set_status_def)
  have i2: "index_inv ?s2 S" using index_invD(6) [OF inv] by (intro index_inv_shape [OF inv sh2]) simp_all
  note d = drop_candidate_inv [OF i2 p]
  have f2: "is_failed ?s2 q \<longleftrightarrow> q = p \<or> is_failed (nd_index nd) q" "has_data ?s2 q \<longleftrightarrow> has_data (nd_index nd) q" for q
    using marked_simps(3,4) [of p "nd_index nd" q] by (simp_all add: is_failed_def has_data_def)
  have m: "moved (nd_index nd) (drop_candidate p ?s2) S"
    using d f2 tree_same_shape [OF same_shape_trans [OF sh2 drop_candidate_simps(1) [of ?s2 p]]] by (auto simp: moved_def)
  have "InvalidChainFound p (drop_candidate p ?s2) = Some ix" using ix(1) by (simp add: InvalidBlockFound_def Let_def set_status_def)
  note v = best_invalid_moved [OF d(1) this]
  show ?thesis using ix(2,3) moved_trans [OF m v(1)] v(2) f2 by simp
qed

lemma prune_moved:
  assumes inv: "index_inv s S" and pr: "PruneBlockIndexCandidates s = Some s'"
  shows "moved s s' S \<and> (\<forall>q. is_failed s' q \<longleftrightarrow> is_failed s q) \<and> chainActive s' = chainActive s"
proof -
  obtain tip cs where e: "s' = s\<lparr>setBlockIndexCandidates := cs\<rparr>" "cs = dropWhile (\<lambda>p. WorkLess s p tip) (setBlockIndexCandidates s)"
    using pr by (auto simp: PruneBlockIndexCandidates_def Let_def split: option.splits if_split_asm)
  have sh: "same_shape s s'" by (simp add: e(1) same_shape_def)
  have sub: "set cs \<subseteq> set (setBlockIndexCandidates s)" "sorted_wrt (WorkLess s) cs"
    unfolding e(2) using set_dropWhileD index_invD(6) [OF inv] by (auto intro: sorted_wrt_dropWhile)
  then have "index_inv s' S" by (intro index_inv_shape [OF inv sh]) (simp_all add: e(1))
  then show ?thesis using sub(1) tree_same_shape [OF sh] by (simp add: moved_def e(1) is_failed_def has_data_def)
qed

section \<open>One step\<close>

text \<open>Progress: a block became known to be failed, or the tip has more work than \<open>old\<close>.\<close>

definition progress :: "ptr set \<Rightarrow> ptr option \<Rightarrow> chain_index \<Rightarrow> chain_index \<Rightarrow> bool" where
  "progress S old s s' \<longleftrightarrow>
     (\<exists>q \<in> S. \<not> is_failed s q \<and> is_failed s' q) \<or>
     (\<exists>t. ix_tip s' = Some t \<and> (case old of None \<Rightarrow> True | Some p \<Rightarrow> more_work s' t p))"

lemma progress_later: "progress S old s1 s' \<Longrightarrow> \<forall>q. is_failed s1 q \<longleftrightarrow> is_failed s q \<Longrightarrow> progress S old s s'"
  by (simp add: progress_def)

lemma connect_batch_spec:
  assumes ok: "incorrupt E pblock"
  shows "index_inv (nd_index nd) S \<Longrightarrow> set ps \<subseteq> S \<Longrightarrow> \<forall>p \<in> set ps. \<not> is_failed (nd_index nd) p \<Longrightarrow>
    connect_batch E mw pblock f old lowest ps nd = Some (res, nd') \<Longrightarrow> res \<noteq> BatchFail \<Longrightarrow>
    moved (nd_index nd) (nd_index nd') S \<and> (res = BatchStop \<longrightarrow> progress S old (nd_index nd) (nd_index nd')) \<and>
    (res = BatchGo \<longrightarrow> nd_tip nd' = (if ps = [] then nd_tip nd else Some (last ps)) \<and>
       (\<forall>q. is_failed (nd_index nd') q \<longleftrightarrow> is_failed (nd_index nd) q))"
proof (induction ps arbitrary: nd)
  case Nil
  then show ?case using moved_refl by auto
next
  case (Cons p ps)
  have pS: "p \<in> S" using Cons.prems(2) by simp
  let ?own = "if p = mw then pblock else None"
  have ok': "incorrupt E ?own" using ok by (auto simp: incorrupt_def)
  consider corrupt nd1 where "ConnectTip E p ?own f nd = Some (Inl (TipInvalid corrupt), nd1)"
    | nd1 where "ConnectTip E p ?own f nd = Some (Inr (), nd1)"
    using Cons.prems(4,5) by (auto split: option.splits sum.splits tip_error.splits)
  then show ?case
  proof cases
    case 1
    note i = connect_invalid [OF Cons.prems(1) pS ok' 1]
    obtain ix where ix: "InvalidChainFound lowest (nd_index nd1) = Some ix" "nd' = nd1\<lparr>nd_index := ix\<rparr>" "res = BatchStop"
      using Cons.prems(4) 1 i by auto
    have "index_inv (nd_index nd1) S" using i by (simp add: moved_def)
    note b = best_invalid_moved [OF this ix(1)]
    have "is_failed ix p" "\<not> is_failed (nd_index nd) p" using i b(2) Cons.prems(3) by simp_all
    then have "progress S old (nd_index nd) ix" using pS by (auto simp: progress_def)
    moreover have "moved (nd_index nd) ix S" using moved_trans i b(1) by blast
    ultimately show ?thesis using ix(2,3) by simp
  next
    case 2
    note c = connect_success [OF Cons.prems(1) pS 2]
    obtain ix where ix: "PruneBlockIndexCandidates (nd_index nd1) = Some ix"
      using Cons.prems(4) 2 by (auto split: option.splits)
    have i1: "index_inv (nd_index nd1) S" using c by (simp add: moved_def)
    note pr = prune_moved [OF i1 ix]
    have m: "moved (nd_index nd) ix S" using moved_trans c pr by blast
    have tip: "ix_tip ix = Some p" using c pr by (auto simp: ix_tip_def split: if_split_asm)
    let ?stop = "case old of None \<Rightarrow> True | Some old \<Rightarrow> (case ix_tip ix of None \<Rightarrow> False | Some tip \<Rightarrow> more_work ix tip old)"
    show ?thesis
    proof (cases ?stop)
      case True
      then have "progress S old (nd_index nd) ix" using tip by (auto simp: progress_def split: option.splits)
      moreover have "nd' = nd1\<lparr>nd_index := ix\<rparr>" "res = BatchStop" using Cons.prems(4) 2 ix True by auto
      ultimately show ?thesis using m by simp
    next
      case False
      let ?nd = "nd1\<lparr>nd_index := ix\<rparr>"
      have same: "\<forall>q. is_failed ix q \<longleftrightarrow> is_failed (nd_index nd) q" using c pr by simp
      have "connect_batch E mw pblock f old lowest ps ?nd = Some (res, nd')" using Cons.prems(4) 2 ix False by simp
      moreover have "index_inv ix S" using m by (simp add: moved_def)
      ultimately have "moved ix (nd_index nd') S \<and> (res = BatchStop \<longrightarrow> progress S old ix (nd_index nd')) \<and>
          (res = BatchGo \<longrightarrow> nd_tip nd' = (if ps = [] then ix_tip ix else Some (last ps)) \<and> (\<forall>q. is_failed (nd_index nd') q \<longleftrightarrow> is_failed ix q))"
        using Cons.IH [of ?nd] Cons.prems(2,3,5) same by simp
      then show ?thesis using m same tip moved_trans progress_later by auto
    qed
  qed
qed

lemma blocks_above_spec:
  assumes wf: "wf_tree st S"
  shows "p \<in> S \<Longrightarrow> - 1 \<le> h \<Longrightarrow> h \<le> int (nHeight (st p)) \<Longrightarrow>
    \<exists>ps. blocks_above st h (Some p) = Some ps \<and> set ps \<subseteq> S \<and> (\<forall>q \<in> set ps. h < int (nHeight (st q)) \<and> (\<exists>n. climb st n p = Some q)) \<and>
      (if h = int (nHeight (st p)) then ps = [] else \<exists>qs. ps = p # qs)"
proof (induction "nHeight (st p)" arbitrary: p)
  case 0
  have top: "pprev (st p) = None" using wf_treeD(2) [OF wf 0(2)] 0(1) by (cases "pprev (st p)") auto
  have n: "blocks_above st h None = Some []" by (subst blocks_above.simps) simp
  have "blocks_above st h (Some p) = (if h = 0 then Some [] else Some [p])"
    using 0(1) top n by (subst blocks_above.simps) simp
  then show ?case using 0 by (auto intro: exI [of _ 0])
next
  case (Suc k)
  obtain q where q: "pprev (st p) = Some q" using wf_treeD(1) [OF wf Suc(3)] Suc(2) by fastforce
  have qS: "q \<in> S" "k = nHeight (st q)" using wf_treeD(2) [OF wf Suc(3) q] Suc(2) by simp_all
  show ?case
  proof (cases "h = int (nHeight (st p))")
    case True
    then have "blocks_above st h (Some p) = Some []" by (subst blocks_above.simps) simp
    then show ?thesis using True by simp
  next
    case False
    then have "h \<le> int (nHeight (st q))" using Suc(2,5) qS(2) by simp
    from Suc.hyps(1) [OF qS(2,1) Suc(4) this] obtain ps where ps: "blocks_above st h (Some q) = Some ps" "set ps \<subseteq> S"
      "\<forall>r \<in> set ps. h < int (nHeight (st r)) \<and> (\<exists>n. climb st n q = Some r)" by blast
    have "blocks_above st h (Some p) = Some (p # ps)" using False q ps(1) by (subst blocks_above.simps) simp
    moreover have "\<exists>n. climb st n p = Some r" if r: "r \<in> set (p # ps)" for r
    proof (cases "r = p")
      case True
      then have "climb st 0 p = Some r" by simp
      then show ?thesis by blast
    next
      case False
      then obtain n where "climb st n q = Some r" using r ps(3) by auto
      then have "climb st (Suc n) p = Some r" using q by simp
      then show ?thesis by blast
    qed
    ultimately show ?thesis using ps(2,3) Suc(3,5) False by auto
  qed
qed

lemma connect_batches_spec:
  assumes ok: "incorrupt E pblock" and mw: "mw \<in> S"
  shows "index_inv (nd_index nd) S \<Longrightarrow> - 1 \<le> h \<Longrightarrow> h \<le> int (nHeight (nd_store nd mw)) \<Longrightarrow>
    (\<And>n q. climb (nd_store nd) n mw = Some q \<Longrightarrow> h < int (nHeight (nd_store nd q)) \<Longrightarrow> \<not> is_failed (nd_index nd) q) \<Longrightarrow>
    (h = int (nHeight (nd_store nd mw)) \<Longrightarrow> nd_tip nd = Some mw) \<Longrightarrow>
    \<exists>r. connect_batches E mw pblock f old h nd = Some r \<and>
      (\<forall>nd'. r = Some (True, nd') \<longrightarrow> moved (nd_index nd) (nd_index nd') S \<and>
         (nd_tip nd' = Some mw \<or> progress S old (nd_index nd) (nd_index nd')))"
proof (induction "nat (int (nHeight (nd_store nd mw)) - h)" arbitrary: nd h rule: less_induct)
  case less
  note inv = less.prems(1)
  note wf = index_invD(1) [OF inv]
  let ?H = "int (nHeight (nd_store nd mw))"
  show ?case
  proof (cases "h = ?H")
    case True
    then have "connect_batches E mw pblock f old h nd = Some (Some (True, nd))" by (subst connect_batches.simps) simp
    then show ?thesis using less.prems(5) [OF True] moved_refl [OF inv] by simp
  next
    case False
    define target where "target = min (h + 32) ?H"
    have t: "h < target" "0 \<le> target" "target \<le> ?H" using False less.prems(2,3) by (auto simp: target_def)
    obtain it where it: "it \<in> S" "climb (nd_store nd) (nHeight (nd_store nd mw) - nat target) mw = Some it"
      "nHeight (nd_store nd it) = nat target"
      using climb_total [OF wf mw, of "nHeight (nd_store nd mw) - nat target"] t by (auto simp: nat_le_iff)
    have ga: "GetAncestor (nd_store nd) mw target = Some (Some it)"
      using GetAncestor_climb [OF wf mw, of target] it(2) t(2,3) by simp
    obtain ps where ps: "blocks_above (nd_store nd) h (Some it) = Some ps" "set ps \<subseteq> S"
      "\<forall>q \<in> set ps. h < int (nHeight (nd_store nd q)) \<and> (\<exists>n. climb (nd_store nd) n it = Some q)" "\<exists>qs. ps = it # qs"
      using blocks_above_spec [OF wf it(1) less.prems(2)] it(3) t by auto
    let ?low = "if ps = [] then mw else last ps"
    have good: "\<forall>q \<in> set (rev ps). \<not> is_failed (nd_index nd) q"
    proof
      fix q assume "q \<in> set (rev ps)"
      then obtain n where "h < int (nHeight (nd_store nd q))" "climb (nd_store nd) n it = Some q" using ps(3) by auto
      then show "\<not> is_failed (nd_index nd) q" using climb_add [OF it(2), of n] less.prems(4) by metis
    qed
    have step: "connect_batches E mw pblock f old h nd =
      (case connect_batch E mw pblock f old ?low (rev ps) nd of
         None \<Rightarrow> Some None
       | Some (res, nd) \<Rightarrow>
           if res = BatchFail then Some (Some (False, nd))
           else if res = BatchStop then Some (Some (True, nd))
           else connect_batches E mw pblock f old target nd)"
      using False ga ps(1) by (subst connect_batches.simps) (simp add: Let_def target_def [symmetric])
    consider "connect_batch E mw pblock f old ?low (rev ps) nd = None"
      | nd1 where "connect_batch E mw pblock f old ?low (rev ps) nd = Some (BatchFail, nd1)"
      | nd1 where "connect_batch E mw pblock f old ?low (rev ps) nd = Some (BatchStop, nd1)"
      | nd1 where "connect_batch E mw pblock f old ?low (rev ps) nd = Some (BatchGo, nd1)"
    proof (cases "connect_batch E mw pblock f old ?low (rev ps) nd")
      case (Some a)
      obtain res nd1 where "a = (res, nd1)" by (cases a)
      then show ?thesis using Some that(2-4) by (cases res) simp_all
    qed (use that(1) in blast)
    then show ?thesis
    proof cases
      case 3
      then show ?thesis using step connect_batch_spec [OF ok inv _ good 3] ps(2) by simp
    next
      case 4
      have b: "moved (nd_index nd) (nd_index nd1) S" "nd_tip nd1 = Some it" "\<forall>q. is_failed (nd_index nd1) q \<longleftrightarrow> is_failed (nd_index nd) q"
        using connect_batch_spec [OF ok inv _ good 4] ps(2,4) by auto
      have i1: "index_inv (nd_index nd1) S" and ts: "tree_same (nd_index nd) (nd_index nd1)" using b(1) by (simp_all add: moved_def)
      note same = tree_sameD(1,4) [OF ts]
      have top: "nd_tip nd1 = Some mw" if "target = int (nHeight (nd_store nd1 mw))"
      proof -
        have "nHeight (nd_store nd mw) - nat target = 0" using that same by simp
        then show ?thesis using it(2) b(2) by simp
      qed
      have "nat (int (nHeight (nd_store nd1 mw)) - target) < nat (?H - h)" using t same by simp
      from less.hyps [OF this i1 _ _ _ top] obtain r where r: "connect_batches E mw pblock f old target nd1 = Some r"
        "\<And>nd'. r = Some (True, nd') \<Longrightarrow> moved (nd_index nd1) (nd_index nd') S \<and>
           (nd_tip nd' = Some mw \<or> progress S old (nd_index nd1) (nd_index nd'))"
        using t less.prems(4) b(3) same by auto
      have "moved (nd_index nd) (nd_index nd') S \<and> (nd_tip nd' = Some mw \<or> progress S old (nd_index nd) (nd_index nd'))"
        if "r = Some (True, nd')" for nd'
        using r(2) [OF that] moved_trans [OF b(1)] progress_later [OF _ b(3)] by blast
      then show ?thesis using step 4 r(1) by simp
    qed (use step in simp_all)
  qed
qed

lemma Contains_not_empty: "Contains st v p \<Longrightarrow> v \<noteq> []"
proof
  assume "Contains st v p" "v = []"
  moreover have "chain_at [] h = None" for h by (auto simp: chain_at_def)
  ultimately show False by (simp add: Contains_def)
qed

lemma ActivateBestChainStep_spec:
  assumes ok: "incorrupt E pblock" and inv: "index_inv (nd_index nd) S" and mw: "mw \<in> S" "usable (nd_index nd) mw"
  shows "\<exists>r. ActivateBestChainStep E mw pblock f nd = Some r \<and>
    (\<forall>nd'. r = Some (True, nd') \<longrightarrow> moved (nd_index nd) (nd_index nd') S \<and>
       (nd_tip nd' = Some mw \<or> progress S (nd_tip nd) (nd_index nd) (nd_index nd')))"
proof -
  note wf = index_invD(1) [OF inv]
  obtain fork where fork: "FindFork (nd_store nd) (chainActive (nd_index nd)) mw = Some fork"
    "is_fork (nd_store nd) (chainActive (nd_index nd)) mw fork"
    using FindFork_spec [OF wf index_invD(3) [OF inv] mw(1)] by blast
  obtain r where r: "disconnect_to E fork nd = Some r"
    "\<And>nd1. r = Some (True, nd1) \<Longrightarrow> moved (nd_index nd) (nd_index nd1) S \<and> (nd_tip nd1 = None \<longrightarrow> nd_tip nd = None) \<and>
       (nd_tip nd1 = None \<or> nd_tip nd1 = fork) \<and> (\<forall>q. is_failed (nd_index nd1) q \<longleftrightarrow> is_failed (nd_index nd) q)"
    using disconnect_to_spec [OF inv, of E fork] by blast
  let ?h = "\<lambda>nd1. case fork of None \<Rightarrow> -1 | Some p \<Rightarrow> int (nHeight (nd_store nd1 p))"
  have step: "ActivateBestChainStep E mw pblock f nd =
    (case r of None \<Rightarrow> Some None
     | Some (ok, nd1) \<Rightarrow> if \<not> ok then Some (Some (False, nd1))
         else connect_batches E mw pblock (pblock \<noteq> None \<and> f) (nd_tip nd) (?h nd1) nd1)"
    by (simp only: ActivateBestChainStep_def Let_def fork(1) r(1) option.case Option.bind.simps)
  consider "r = None" | nd1 where "r = Some (False, nd1)" | nd1 where "r = Some (True, nd1)"
    by (metis option.exhaust surj_pair)
  then show ?thesis
  proof cases
    case 3
    note d = r(2) [OF 3]
    have i1: "index_inv (nd_index nd1) S" and ts: "tree_same (nd_index nd) (nd_index nd1)" using d by (simp_all add: moved_def)
    note same = tree_sameD(1,4) [OF ts]
    have fk: "\<exists>n \<le> nHeight (nd_store nd mw). climb (nd_store nd) n mw = Some p \<and> nHeight (nd_store nd p) = nHeight (nd_store nd mw) - n \<and>
        (\<forall>m < n. \<forall>q. climb (nd_store nd) m mw = Some q \<longrightarrow> \<not> ix_contains (nd_index nd) q)" "ix_contains (nd_index nd) p" if "fork = Some p" for p
      using fork(2) that climb_le_trans(2) [OF wf mw(1)] by (auto simp: is_fork_def)
    have above: "\<not> ix_contains (nd_index nd) q" if q: "climb (nd_store nd) n mw = Some q" "?h nd1 < int (nHeight (nd_store nd1 q))" for n q
    proof -
      have n: "n \<le> nHeight (nd_store nd mw)" using climb_height [OF wf mw(1) q(1)] .
      show ?thesis
      proof (cases fork)
        case None
        then show ?thesis using fork(2) q(1) n by (simp add: is_fork_def)
      next
        case (Some p)
        obtain m where m: "m \<le> nHeight (nd_store nd mw)" "nHeight (nd_store nd p) = nHeight (nd_store nd mw) - m"
          "\<forall>k < m. \<forall>q. climb (nd_store nd) k mw = Some q \<longrightarrow> \<not> ix_contains (nd_index nd) q" using fk(1) [OF Some] by blast
        have "n < m" using q(2) m(1,2) Some climb_le_trans(2) [OF wf mw(1) q(1) n] n by (simp add: same)
        then show ?thesis using m(3) q(1) by blast
      qed
    qed
    have h: "- 1 \<le> ?h nd1" "?h nd1 \<le> int (nHeight (nd_store nd1 mw))"
      using fk(1) by (auto simp: same split: option.splits)
    have good: "\<not> is_failed (nd_index nd1) q" if "climb (nd_store nd1) n mw = Some q" "?h nd1 < int (nHeight (nd_store nd1 q))" for n q
      using above [of n q] that mw(2) d unfolding usable_def by (simp add: same)
    have top: "nd_tip nd1 = Some mw" if t: "?h nd1 = int (nHeight (nd_store nd1 mw))"
    proof -
      obtain p where p: "fork = Some p" "nHeight (nd_store nd p) = nHeight (nd_store nd mw)" using t by (auto simp: same split: option.splits)
      obtain m where m: "climb (nd_store nd) m mw = Some p" "m \<le> nHeight (nd_store nd mw)" "nHeight (nd_store nd p) = nHeight (nd_store nd mw) - m"
        using fk(1) [OF p(1)] by blast
      then have "m = 0" using p(2) by linarith
      then have pm: "p = mw" using m(1) by simp
      have "chainActive (nd_index nd) \<noteq> []" by (rule Contains_not_empty [OF fk(2) [OF p(1)]])
      then have "nd_tip nd \<noteq> None" using index_invD(3) [OF inv] ix_tip_path unfolding chain_ok_def by blast
      then show ?thesis using d p(1) pm by auto
    qed
    have "\<exists>r1. connect_batches E mw pblock (pblock \<noteq> None \<and> f) (nd_tip nd) (?h nd1) nd1 = Some r1 \<and>
        (\<forall>nd'. r1 = Some (True, nd') \<longrightarrow> moved (nd_index nd1) (nd_index nd') S \<and>
           (nd_tip nd' = Some mw \<or> progress S (nd_tip nd) (nd_index nd1) (nd_index nd')))"
      by (rule connect_batches_spec [OF ok mw(1) i1 h]) (erule (1) good, erule top)
    then obtain r1 where r1: "connect_batches E mw pblock (pblock \<noteq> None \<and> f) (nd_tip nd) (?h nd1) nd1 = Some r1"
      "\<And>nd'. r1 = Some (True, nd') \<Longrightarrow> moved (nd_index nd1) (nd_index nd') S \<and>
         (nd_tip nd' = Some mw \<or> progress S (nd_tip nd) (nd_index nd1) (nd_index nd'))"
      by (elim exE conjE) simp
    have "moved (nd_index nd) (nd_index nd') S \<and> (nd_tip nd' = Some mw \<or> progress S (nd_tip nd) (nd_index nd) (nd_index nd'))"
      if "r1 = Some (True, nd')" for nd'
      using r1(2) [OF that] d moved_trans progress_later by blast
    then show ?thesis using step 3 r1(1) by simp
  qed (use step in simp_all)
qed

section \<open>The whole activation\<close>

text \<open>What decreases from round to round: the blocks not known to be failed, then those above the tip.\<close>

definition sound_blocks :: "chain_index \<Rightarrow> ptr set \<Rightarrow> ptr set" where
  "sound_blocks s S = {p \<in> S. \<not> is_failed s p}"

definition better_blocks :: "chain_index \<Rightarrow> ptr set \<Rightarrow> ptr set" where
  "better_blocks s S = {p \<in> S. case ix_tip s of None \<Rightarrow> True | Some t \<Rightarrow> work_of s t < work_of s p}"

definition rounds_left :: "chain_index \<Rightarrow> ptr set \<Rightarrow> nat" where
  "rounds_left s S = card (sound_blocks s S) * Suc (card S) + card (better_blocks s S)"

lemma progress_decreases:
  assumes inv: "index_inv s S" and m: "moved s s' S" and pr: "progress S (ix_tip s) s s'"
  shows "rounds_left s' S < rounds_left s S"
proof -
  have fin: "finite S" using index_invD(2) [OF inv] .
  have ts: "tree_same s s'" and i': "index_inv s' S" and mono: "\<forall>q. is_failed s q \<longrightarrow> is_failed s' q" using m by (simp_all add: moved_def)
  have sub: "sound_blocks s' S \<subseteq> sound_blocks s S" using mono by (auto simp: sound_blocks_def)
  have fs: "finite (sound_blocks s S)" "finite (better_blocks s S)" using fin by (simp_all add: sound_blocks_def better_blocks_def)
  have le: "card (better_blocks s' S) \<le> card S" using fin by (intro card_mono) (auto simp: better_blocks_def)
  from pr consider q where "q \<in> S" "\<not> is_failed s q" "is_failed s' q"
    | t where "ix_tip s' = Some t" "case ix_tip s of None \<Rightarrow> True | Some p \<Rightarrow> more_work s' t p"
    by (auto simp: progress_def)
  then show ?thesis
  proof cases
    case 1
    then have "sound_blocks s' S \<subset> sound_blocks s S" using sub by (auto simp: sound_blocks_def)
    then have "card (sound_blocks s' S) < card (sound_blocks s S)" by (rule psubset_card_mono [OF fs(1)])
    then have "Suc (card (sound_blocks s' S)) \<le> card (sound_blocks s S)" by (rule Suc_leI)
    then have "Suc (card (sound_blocks s' S)) * Suc (card S) \<le> card (sound_blocks s S) * Suc (card S)" by (rule mult_le_mono1)
    then show ?thesis using le by (simp add: rounds_left_def)
  next
    case 2
    have tS: "t \<in> S" using index_tip(1) [OF i' 2(1)] .
    have w: "work_of s' q = work_of s q" for q by (rule tree_sameD(3) [OF ts])
    have up: "work_of s o' < work_of s t" if "ix_tip s = Some o'" for o'
    proof -
      have "o' \<in> S" using index_tip(1) [OF inv that] .
      then show ?thesis using 2(2) that more_work_iff [OF index_invD(4) [OF i' tS] index_invD(4) [OF i']] w by simp
    qed
    have "better_blocks s' S \<subseteq> better_blocks s S"
      using up by (fastforce simp: better_blocks_def 2(1) w split: option.splits)
    moreover have "t \<in> better_blocks s S" using up tS by (auto simp: better_blocks_def split: option.splits)
    moreover have "t \<notin> better_blocks s' S" by (simp add: better_blocks_def 2(1))
    ultimately have "card (better_blocks s' S) < card (better_blocks s S)" by (intro psubset_card_mono fs) auto
    moreover have "card (sound_blocks s' S) \<le> card (sound_blocks s S)" by (rule card_mono [OF fs(1) sub])
    ultimately show ?thesis unfolding rounds_left_def by (simp add: add_le_less_mono mult_le_mono1 del: mult_Suc_right)
  qed
qed

lemma rounds_moved:
  assumes "index_inv s S" "moved s s' S" "chainActive s' = chainActive s"
  shows "rounds_left s' S \<le> rounds_left s S"
proof -
  have "tree_same s s'" using assms(2) by (simp add: moved_def)
  then have w: "work_of s' p = work_of s p" for p by (rule tree_sameD(3))
  have "better_blocks s' S = better_blocks s S" by (simp add: better_blocks_def ix_tip_def assms(3) w cong: option.case_cong)
  moreover have "card (sound_blocks s' S) \<le> card (sound_blocks s S)"
    using assms index_invD(2) [OF assms(1)] by (intro card_mono) (auto simp: sound_blocks_def moved_def)
  ultimately show ?thesis unfolding rounds_left_def by (simp add: mult_le_mono1 del: mult_Suc_right)
qed

text \<open>The tip is the best usable candidate.\<close>

definition best_tip :: "chain_index \<Rightarrow> bool" where
  "best_tip s \<longleftrightarrow> (\<forall>q \<in> set (setBlockIndexCandidates s). usable s q \<longrightarrow>
     (\<exists>t. ix_tip s = Some t \<and> (q = t \<or> WorkLess s q t)))"

lemma best_tip_dirty [simp]: "best_tip (s\<lparr>setDirtyBlockIndex := d\<rparr>) \<longleftrightarrow> best_tip s"
  by (simp add: best_tip_def usable_def is_failed_def has_data_def ix_tip_def WorkLess_def more_work_def)

lemma moved_dirty: "index_inv s S \<Longrightarrow> moved s (s\<lparr>setDirtyBlockIndex := d\<rparr>) S"
proof -
  assume inv: "index_inv s S"
  have sh: "same_shape s (s\<lparr>setDirtyBlockIndex := d\<rparr>)" by (simp add: same_shape_def)
  have "index_inv (s\<lparr>setDirtyBlockIndex := d\<rparr>) S" using index_invD(6) [OF inv] by (intro index_inv_shape [OF inv sh]) simp_all
  then show ?thesis using tree_same_shape [OF sh] by (simp add: moved_def is_failed_def has_data_def)
qed

lemma activated_best:
  assumes inv: "index_inv s S" and mw: "mw \<in> set (setBlockIndexCandidates s)" "usable s mw"
    and best: "\<forall>q \<in> set (setBlockIndexCandidates s). usable s q \<longrightarrow> q = mw \<or> WorkLess s q mw"
    and m: "moved s s' S" and t: "ix_tip s' = Some mw"
  shows "best_tip s'"
  unfolding best_tip_def
proof (intro ballI impI)
  fix q assume q: "q \<in> set (setBlockIndexCandidates s')" "usable s' q"
  have ts: "tree_same s s'" and i': "index_inv s' S" using m by (simp_all add: moved_def)
  have mwS: "mw \<in> S" using index_tip(1) [OF i' t] .
  have chain: "chainActive s' = path (ix_store s) mw" using index_tip(2) [OF i' t] tree_sameD(6) [OF ts] by simp
  have "usable s q"
    unfolding usable_def
  proof (intro allI impI)
    fix n r assume r: "climb (ix_store s) n q = Some r" "\<not> ix_contains s r"
    show "\<not> is_failed s r \<and> has_data s r"
    proof (cases "ix_contains s' r")
      case True
      then obtain k where "climb (ix_store s) k mw = Some r"
        using Contains_path [OF index_invD(1) [OF inv] mwS] chain tree_sameD(8) [OF ts] by auto
      then show ?thesis using mw(2) r(2) by (simp add: usable_def)
    next
      case False
      then have "\<not> is_failed s' r \<and> has_data s' r" using q(2) r(1) tree_sameD(1) [OF ts] by (simp add: usable_def)
      then show ?thesis using m by (auto simp: moved_def)
    qed
  qed
  then have "q = mw \<or> WorkLess s q mw" using best q(1) m by (auto simp: moved_def)
  then show "\<exists>t. ix_tip s' = Some t \<and> (q = t \<or> WorkLess s' q t)" using t tree_sameD(2) [OF ts] by simp
qed

lemma own_incorrupt: "incorrupt E pblock \<Longrightarrow>
  incorrupt E (case pblock of None \<Rightarrow> None | Some block \<Rightarrow> if blk_hash block = h then Some block else None)"
  by (auto simp: incorrupt_def split: option.splits if_split_asm)

lemma flush_moved:
  assumes "index_inv (nd_index nd) S" "FlushStateToDisk E always periodic nd = (ok, nd')"
  shows "moved (nd_index nd) (nd_index nd') S" "best_tip (nd_index nd') \<longleftrightarrow> best_tip (nd_index nd)"
  using flush_index [OF assms(2)] moved_dirty [OF assms(1)] by auto

text \<open>One round: it ends the loop with the best tip, or fails, or leaves less to do.\<close>

definition round_result :: "node_env \<Rightarrow> CBlock option \<Rightarrow> bool \<Rightarrow> node \<Rightarrow> ptr set \<Rightarrow> bool" where
  "round_result E pblock f nd S \<longleftrightarrow>
     (\<exists>r. ActivateBestChain E pblock f nd = Some r \<and>
        (\<forall>ok nd'. r = Some (ok, nd') \<longrightarrow> ok \<longrightarrow> moved (nd_index nd) (nd_index nd') S \<and> best_tip (nd_index nd'))) \<or>
     (\<exists>nd1. ActivateBestChain E pblock f nd = ActivateBestChain E pblock f nd1 \<and> moved (nd_index nd) (nd_index nd1) S \<and>
        rounds_left (nd_index nd1) S < rounds_left (nd_index nd) S)"

lemma activate_round:
  assumes ok: "incorrupt E pblock" and inv: "index_inv (nd_index nd) S"
  shows "round_result E pblock f nd S"
proof -
  obtain r ix where fm: "FindMostWorkChain (nd_index nd) = Some (r, ix)" "search_kept (nd_index nd) ix S"
    "case r of None \<Rightarrow> setBlockIndexCandidates ix = []
     | Some p \<Rightarrow> setBlockIndexCandidates ix \<noteq> [] \<and> p = last (setBlockIndexCandidates ix) \<and> usable (nd_index nd) p"
    using FindMostWorkChain_spec [OF inv] by blast
  have m0: "moved (nd_index nd) ix S" using search_moved [OF fm(2)] .
  have i0: "index_inv ix S" and sh: "same_shape (nd_index nd) ix" using fm(2) by (simp_all add: search_kept_def)
  have best: "q = last (setBlockIndexCandidates ix) \<or> WorkLess ix q (last (setBlockIndexCandidates ix))"
    if "q \<in> set (setBlockIndexCandidates ix)" for q
    using sorted_last [OF index_invD(6) [OF i0] that] .
  show ?thesis
  proof (cases "r = None \<or> r = ix_tip ix")
    case True
    then have "ActivateBestChain E pblock f nd = Some (Some (True, nd\<lparr>nd_index := ix\<rparr>))"
      by (subst ActivateBestChain.simps) (simp add: fm(1))
    moreover have "best_tip ix"
    proof (cases r)
      case None
      then show ?thesis using fm(3) by (simp add: best_tip_def)
    next
      case (Some p)
      have "p = last (setBlockIndexCandidates ix)" using fm(3) unfolding Some by simp
      moreover have "ix_tip ix = Some p" using True Some by simp
      ultimately have "ix_tip ix = Some (last (setBlockIndexCandidates ix))" by simp
      then show ?thesis using best unfolding best_tip_def by simp
    qed
    ultimately show ?thesis using m0 by (simp add: round_result_def)
  next
    case False
    then obtain mw where mw: "r = Some mw" "ix_tip ix \<noteq> Some mw" by auto
    have cand: "mw \<in> set (setBlockIndexCandidates ix)" "mw = last (setBlockIndexCandidates ix)" using fm(3) mw(1) by auto
    have mwS: "mw \<in> S" using cand(1) index_invD(5) [OF i0] by blast
    have "usable (nd_index nd) mw" using fm(3) unfolding mw(1) option.case by blast
    moreover have "\<forall>q \<in> S. usable ix q \<longleftrightarrow> usable (nd_index nd) q" using fm(2) by (simp add: search_kept_def)
    ultimately have us: "usable ix mw" using mwS by blast
    let ?own = "case pblock of None \<Rightarrow> None | Some block \<Rightarrow> if blk_hash block = phashBlock (ix_store ix mw) then Some block else None"
    have "\<exists>r1. ActivateBestChainStep E mw ?own f (nd\<lparr>nd_index := ix\<rparr>) = Some r1 \<and>
        (\<forall>nd'. r1 = Some (True, nd') \<longrightarrow> moved ix (nd_index nd') S \<and> (nd_tip nd' = Some mw \<or> progress S (ix_tip ix) ix (nd_index nd')))"
      using ActivateBestChainStep_spec [OF own_incorrupt [OF ok], of "nd\<lparr>nd_index := ix\<rparr>" S mw "phashBlock (ix_store ix mw)" f] i0 mwS us by simp
    then obtain r1 where st: "ActivateBestChainStep E mw ?own f (nd\<lparr>nd_index := ix\<rparr>) = Some r1"
      "\<And>nd'. r1 = Some (True, nd') \<Longrightarrow> moved ix (nd_index nd') S \<and> (nd_tip nd' = Some mw \<or> progress S (ix_tip ix) ix (nd_index nd'))"
      by blast
    have step: "ActivateBestChain E pblock f nd = (case r1 of
         None \<Rightarrow> Some None
       | Some (ok, nd) \<Rightarrow>
           if \<not> ok then Some (Some (False, nd))
           else if nd_tip nd = None \<and> \<not> be_IsInitialBlockDownload (cn_block (ne_connect E)) then Some None
           else if nd_tip nd \<noteq> Some mw then ActivateBestChain E pblock f nd
           else Some (Some (FlushStateToDisk E False True nd)))"
      using mw by (subst ActivateBestChain.simps) (simp add: fm(1) st(1) Let_def)
    consider "r1 = None" | nd1 where "r1 = Some (False, nd1)" | nd1 where "r1 = Some (True, nd1)"
      by (metis option.exhaust surj_pair)
    then show ?thesis
    proof cases
      case 1
      then have "ActivateBestChain E pblock f nd = Some None" using step by simp
      then show ?thesis by (simp add: round_result_def)
    next
      case 2
      then have "ActivateBestChain E pblock f nd = Some (Some (False, nd1))" using step by simp
      then show ?thesis by (simp add: round_result_def)
    next
      case 3
      note m1 = st(2) [OF 3]
      have m: "moved (nd_index nd) (nd_index nd1) S" using moved_trans [OF m0] m1 by blast
      have i1: "index_inv (nd_index nd1) S" using m by (simp add: moved_def)
      consider "nd_tip nd1 = None" "\<not> be_IsInitialBlockDownload (cn_block (ne_connect E))"
        | "nd_tip nd1 \<noteq> Some mw" "ActivateBestChain E pblock f nd = ActivateBestChain E pblock f nd1"
        | "nd_tip nd1 = Some mw"
        using step 3 by (cases "nd_tip nd1 = None \<and> \<not> be_IsInitialBlockDownload (cn_block (ne_connect E))"; cases "nd_tip nd1 = Some mw") simp_all
      then show ?thesis
      proof cases
        case 1
        then have "ActivateBestChain E pblock f nd = Some None" using step 3 by simp
        then show ?thesis by (simp add: round_result_def)
      next
        case 2
        have "rounds_left (nd_index nd1) S < rounds_left ix S"
          using progress_decreases [OF i0] m1 2(1) by blast
        moreover have "rounds_left ix S \<le> rounds_left (nd_index nd) S"
          using rounds_moved [OF inv m0] sh by (simp add: same_shape_def)
        ultimately have "rounds_left (nd_index nd1) S < rounds_left (nd_index nd) S" by linarith
        then show ?thesis using 2(2) m unfolding round_result_def by blast
      next
        case 3
        obtain fok nd2 where fl: "FlushStateToDisk E False True nd1 = (fok, nd2)" by (cases "FlushStateToDisk E False True nd1")
        have "best_tip (nd_index nd1)"
          using activated_best [OF i0 cand(1) us _ _ 3] best m1 cand(2) by blast
        moreover have "moved (nd_index nd) (nd_index nd2) S" "best_tip (nd_index nd2) \<longleftrightarrow> best_tip (nd_index nd1)"
          using flush_moved [OF i1 fl] moved_trans [OF m] by blast+
        moreover have "ActivateBestChain E pblock f nd = Some (Some (fok, nd2))" using step \<open>r1 = Some (True, nd1)\<close> 3 fl by simp
        ultimately show ?thesis by (simp add: round_result_def)
      qed
    qed
  qed
qed

lemma ActivateBestChain_spec:
  "incorrupt E pblock \<Longrightarrow> index_inv (nd_index nd) S \<Longrightarrow>
    \<exists>r. ActivateBestChain E pblock f nd = Some r \<and>
      (\<forall>ok nd'. r = Some (ok, nd') \<longrightarrow> ok \<longrightarrow> moved (nd_index nd) (nd_index nd') S \<and> best_tip (nd_index nd'))"
proof (induction "rounds_left (nd_index nd) S" arbitrary: nd rule: less_induct)
  case less
  have "round_result E pblock f nd S" by (rule activate_round [OF less.prems])
  then show ?case
    unfolding round_result_def
  proof (elim disjE exE conjE)
    fix nd1
    assume s: "ActivateBestChain E pblock f nd = ActivateBestChain E pblock f nd1" and m: "moved (nd_index nd) (nd_index nd1) S"
      and l: "rounds_left (nd_index nd1) S < rounds_left (nd_index nd) S"
    have "index_inv (nd_index nd1) S" using m by (simp add: moved_def)
    from less.hyps [OF l less.prems(1) this] obtain r where r: "ActivateBestChain E pblock f nd1 = Some r"
      "\<And>ok nd'. r = Some (ok, nd') \<Longrightarrow> ok \<Longrightarrow> moved (nd_index nd1) (nd_index nd') S \<and> best_tip (nd_index nd')"
      by blast
    show ?case unfolding s r(1) using r(2) moved_trans [OF m] by blast
  next
    fix r
    assume "ActivateBestChain E pblock f nd = Some r"
      "\<forall>ok nd'. r = Some (ok, nd') \<longrightarrow> ok \<longrightarrow> moved (nd_index nd) (nd_index nd') S \<and> best_tip (nd_index nd')"
    then show ?case by blast
  qed
qed

end
