(* ===== verification/AcceptProps.thy ===== *)
theory AcceptProps
  imports Accept MempoolProps Inflation
begin

text \<open>
  What \<open>AcceptToMemoryPool\<close> lets in: the pool over a view is a view, reads of cached inputs do not
  depend on the backend, and an accepted transaction has good inputs in the coins of the tip and the
  pool together, conflicts with nothing and keeps the invariant of the pool.
\<close>

section \<open>The pool over a view is a view\<close>

definition pool_abs :: "CTxMemPool \<Rightarrow> utxos \<Rightarrow> utxos" where
  "pool_abs pool A k =
     (case pool_lookup pool k of Some tx \<Rightarrow> visible (Some (FromTx tx MEMPOOL_HEIGHT)) | None \<Rightarrow> A k)"

context coins_reader
begin

lemma mempool_reader:
  "coins_reader (mempool_GetCoins GetCoins) (mempool_GetBestBlock GetBest)
     (\<lambda>s. vinv (snd s) \<and> fst s = pool \<and> absv (snd s) = A \<and> best (snd s) = b)
     (\<lambda>s. pool_abs (fst s) (absv (snd s))) (\<lambda>s k. True) (\<lambda>s. best (snd s))"
proof unfold_locales
  fix s k r s'
  assume i: "vinv (snd s) \<and> fst s = pool \<and> absv (snd s) = A \<and> best (snd s) = b"
    and g: "mempool_GetCoins GetCoins s k = (r, s')"
  obtain c b1 where c: "GetCoins (snd s) k = (c, b1)" by (cases "GetCoins (snd s) k")
  have b: "vinv b1" "absv b1 = absv (snd s)" "best b1 = best (snd s)" "visible c = absv (snd s) k"
    using GetCoins [OF _ c] i by simp_all
  show "(vinv (snd s') \<and> fst s' = pool \<and> absv (snd s') = A \<and> best (snd s') = b) \<and>
      pool_abs (fst s') (absv (snd s')) = pool_abs (fst s) (absv (snd s)) \<and> best (snd s') = best (snd s) \<and>
      visible r = pool_abs (fst s) (absv (snd s)) k \<and> (r \<noteq> None \<longrightarrow> True) \<and> (\<forall>j. True \<longrightarrow> True)"
  proof (cases "pool_lookup (fst s) k")
    case None
    then have "visible r = visible c" "s' = (fst s, b1)"
      using g by (auto simp: mempool_GetCoins_def c visible_Some split: option.splits if_splits)
    then show ?thesis using i b None by (simp add: pool_abs_def)
  next
    case (Some tx)
    then show ?thesis using i g by (auto simp: mempool_GetCoins_def pool_abs_def)
  qed
next
  fix s h s'
  assume i: "vinv (snd s) \<and> fst s = pool \<and> absv (snd s) = A \<and> best (snd s) = b"
    and g: "mempool_GetBestBlock GetBest s = (h, s')"
  obtain h1 b1 where c: "GetBest (snd s) = (h1, b1)" by (cases "GetBest (snd s)")
  then show "h = best (snd s) \<and> (vinv (snd s') \<and> fst s' = pool \<and> absv (snd s') = A \<and> best (snd s') = b) \<and>
      pool_abs (fst s') (absv (snd s')) = pool_abs (fst s) (absv (snd s)) \<and> best (snd s') = best (snd s) \<and>
      (\<forall>j. True \<longrightarrow> True)"
    using GetBest [OF _ c] i g by (auto simp: mempool_GetBestBlock_def)
qed

end

section \<open>Reads of cached inputs\<close>

definition cached :: "'s view_cache \<Rightarrow> CTxIn list \<Rightarrow> bool" where
  "cached v ins \<longleftrightarrow> (\<forall>txin \<in> set ins. map_of (cacheCoins v) (op_hash (prevout txin)) \<noteq> None)"

lemma cached_simps [simp]: "cached v []"
  "cached v (txin # ins) \<longleftrightarrow> map_of (cacheCoins v) (op_hash (prevout txin)) \<noteq> None \<and> cached v ins"
  by (simp_all add: cached_def)

lemma read_cached: "map_of (cacheCoins v) k = Some e \<Longrightarrow> cache_GetCoins get v k = (Some (coins e), v)"
  by (simp add: cache_GetCoins_def FetchCoins_def)

lemma have_inputs_cached:
  "cached v ins \<Longrightarrow> cacheCoins w = cacheCoins v \<Longrightarrow>
   have_inputs_loop get' w ins = (fst (have_inputs_loop get v ins), w) \<and> snd (have_inputs_loop get v ins) = v"
  by (induction ins) (auto simp: read_cached)

lemma HaveInputs_cached:
  "cached v (vin tx) \<Longrightarrow> cacheCoins w = cacheCoins v \<Longrightarrow>
   HaveInputs get' w tx = (fst (HaveInputs get v tx), w) \<and> snd (HaveInputs get v tx) = v"
  using have_inputs_cached [of v "vin tx" w get' get] by (simp add: HaveInputs_def)

lemma output_cached:
  "map_of (cacheCoins v) (op_hash (prevout txin)) = Some e \<Longrightarrow> GetOutputFor get v txin = Some (out, v') \<Longrightarrow> v' = v"
  by (auto simp: GetOutputFor_def read_cached split: if_splits)

lemma value_in_cached: "cached v ins \<Longrightarrow> value_in_loop get v ins s = Some (t, v') \<Longrightarrow> v' = v"
  by (induction ins arbitrary: s) (auto dest: output_cached split: option.splits)

lemma p2sh_sigops_cached: "cached v ins \<Longrightarrow> p2sh_sigops_loop get v ins n = Some (t, v') \<Longrightarrow> v' = v"
  by (induction ins arbitrary: n) (auto dest: output_cached split: option.splits)

lemma inputs_standard_cached: "cached v ins \<Longrightarrow> inputs_standard_loop E get v ins = Some (t, v') \<Longrightarrow> v' = v"
  by (induction ins) (auto dest: output_cached split: option.splits sum.splits)

lemma check_values_cached:
  "cached v ins \<Longrightarrow> cacheCoins w = cacheCoins v \<Longrightarrow>
   check_values_loop E get' h w ins s = map_option (\<lambda>(r, u). (r, w)) (check_values_loop E get h v ins s) \<and>
   (\<forall>r u. check_values_loop E get h v ins s = Some (r, u) \<longrightarrow> u = v)"
  by (induction ins arbitrary: s) (auto simp: read_cached Let_def split: if_splits)

lemma check_scripts_cached:
  "cached v (vin tx) \<Longrightarrow> cacheCoins w = cacheCoins v \<Longrightarrow> \<forall>i \<in> set is. i < length (vin tx) \<Longrightarrow>
   check_scripts_loop E get' w tx flags is = map_option (\<lambda>(r, u). (r, w)) (check_scripts_loop E get v tx flags is)"
proof (induction "is")
  case (Cons i "is")
  then have "vin tx ! i \<in> set (vin tx)" by simp
  then obtain e where "map_of (cacheCoins v) (op_hash (prevout (vin tx ! i))) = Some e"
    using Cons.prems(1) by (auto simp: cached_def)
  with Cons show ?case by (simp add: read_cached)
qed simp

text \<open>\<open>CheckInputs\<close> gives the same result over any backend once the inputs and the best block are cached.\<close>

lemma CheckInputs_cached:
  assumes "cached v (vin tx)" "hashBlock v \<noteq> 0" "cacheCoins w = cacheCoins v" "hashBlock w = hashBlock v"
  shows "CheckInputs E get' gb' w tx s flags = map_option (\<lambda>(r, u). (r, w)) (CheckInputs E get gb v tx s flags)"
proof -
  obtain b where h: "HaveInputs get v tx = (b, v)" "HaveInputs get' w tx = (b, w)"
    using HaveInputs_cached [OF assms(1,3), of get' get] by (cases "HaveInputs get v tx") auto
  have best: "cache_GetBestBlock gb v = (hashBlock v, v)" "cache_GetBestBlock gb' w = (hashBlock v, w)"
    using assms(2,4) by (simp_all add: cache_GetBestBlock_def)
  have vals: "check_values_loop E get' k w (vin tx) 0 = map_option (\<lambda>(r, u). (r, w)) (check_values_loop E get k v (vin tx) 0)"
    "\<And>r u. check_values_loop E get k v (vin tx) 0 = Some (r, u) \<Longrightarrow> u = v" for k
    using check_values_cached [OF assms(1,3), of E get' k 0 get] by auto
  have scr: "check_scripts_loop E get' w tx flags [0..<length (vin tx)] =
      map_option (\<lambda>(r, u). (r, w)) (check_scripts_loop E get v tx flags [0..<length (vin tx)])"
    by (rule check_scripts_cached [OF assms(1,3)]) simp
  show ?thesis
    using vals(2) by (auto simp: CheckInputs_def h best vals(1) scr split: option.splits sum.splits prod.splits)
qed

section \<open>Looking the inputs up\<close>

interpretation pooled: coins_reader "mempool_GetCoins tip_GetCoins" "mempool_GetBestBlock tip_GetBestBlock"
  "\<lambda>s. tip_inv (snd s) \<and> fst s = pool \<and> tip_abs (snd s) = A \<and> tip_best (snd s) = b"
  "\<lambda>s. pool_abs (fst s) (tip_abs (snd s))" "\<lambda>s k. True" "\<lambda>s. tip_best (snd s)"
  for pool A b
  by (rule tip.mempool_reader)

text \<open>A cache over the pool over the tip that shows the coins of both.\<close>

definition tracks :: "CTxMemPool \<Rightarrow> utxos \<Rightarrow> hash256 \<Rightarrow> (CTxMemPool \<times> coins_tip) view_cache \<Rightarrow> bool" where
  "tracks pool A b v \<longleftrightarrow>
     cache_inv (\<lambda>s. tip_inv (snd s) \<and> fst s = pool \<and> tip_abs (snd s) = A \<and> tip_best (snd s) = b)
       (\<lambda>s. pool_abs (fst s) (tip_abs (snd s))) (\<lambda>s k. True) v \<and>
     cache_abs (\<lambda>s. pool_abs (fst s) (tip_abs (snd s))) v = pool_abs pool A \<and>
     cache_best (\<lambda>s. tip_best (snd s)) v = b"

lemma tracks_base: "tracks pool A b v \<Longrightarrow> fst (base v) = pool \<and> tip_inv (snd (base v)) \<and> tip_abs (snd (base v)) = A \<and> tip_best (snd (base v)) = b"
  by (simp add: tracks_def cache_inv_def)

lemma tracks_new: "tip_inv tip \<Longrightarrow> tracks pool (tip_abs tip) (tip_best tip) (new_cache (pool, tip))"
  by (simp add: tracks_def cache_inv_def entries_ok_def)

lemma have_coins_tracks:
  assumes "tracks pool A b v" "cache_HaveCoins (mempool_GetCoins tip_GetCoins) v k = (h, v')"
  shows "tracks pool A b v'" "h \<Longrightarrow> cache_known v' k" "cache_known v j \<Longrightarrow> cache_known v' j"
proof -
  obtain r where f: "FetchCoins (mempool_GetCoins tip_GetCoins) v k = (r, v')" "h \<Longrightarrow> r \<noteq> None"
    using assms(2) by (auto simp: cache_HaveCoins_def split: prod.splits option.splits)
  have i: "cache_inv (\<lambda>s. tip_inv (snd s) \<and> fst s = pool \<and> tip_abs (snd s) = A \<and> tip_best (snd s) = b)
       (\<lambda>s. pool_abs (fst s) (tip_abs (snd s))) (\<lambda>s k. True) v" using assms(1) by (simp add: tracks_def)
  note s = pooled.FetchCoins_spec [OF i f(1)]
  show "tracks pool A b v'" using s assms(1) by (simp add: tracks_def)
  show "h \<Longrightarrow> cache_known v' k" using s f(2) by (auto simp: cache_known_def)
  show "cache_known v j \<Longrightarrow> cache_known v' j" using s by blast
qed

lemma lookup_tracks:
  assumes "tracks pool A b v" "lookup_inputs E (mempool_GetCoins tip_GetCoins) v ins = ((m, r), v')"
  shows "tracks pool A b v' \<and> (r = Inr () \<longrightarrow> cached v' ins) \<and> (\<forall>j. cache_known v j \<longrightarrow> cache_known v' j)"
  using assms
proof (induction ins arbitrary: v)
  case (Cons txin ins)
  obtain h v1 where h: "cache_HaveCoins (mempool_GetCoins tip_GetCoins) v (op_hash (prevout txin)) = (h, v1)"
    by (cases "cache_HaveCoins (mempool_GetCoins tip_GetCoins) v (op_hash (prevout txin))")
  note t = have_coins_tracks [OF Cons.prems(1) h]
  show ?case
  proof (cases "h \<and> ValidOutPoint (ae_connect E) (prevout txin) (ae_height E)")
    case True
    then have "lookup_inputs E (mempool_GetCoins tip_GetCoins) v1 ins = ((m, r), v')" using Cons.prems(2) h by simp
    from Cons.IH [OF t(1) this] True t show ?thesis by (auto simp: cache_known_def)
  next
    case False
    then show ?thesis using Cons.prems(2) h t by (auto split: if_splits)
  qed
qed auto

lemma accept_coins_tracks:
  assumes v: "tracks pool A b v" and tx: "regular tx" and b: "b \<noteq> 0"
    and ac: "accept_coins E (mempool_GetCoins tip_GetCoins) (mempool_GetBestBlock tip_GetBestBlock) v tx = Some ((m, r), v')"
  shows "tracks pool A b v'"
    and "r = Inr x \<Longrightarrow> cached v' (vin tx) \<and> hashBlock v' \<noteq> 0 \<and> x = foldl add64 0 (map (value_of (pool_abs pool A)) (vin tx))"
proof -
  let ?get = "mempool_GetCoins tip_GetCoins" and ?best = "mempool_GetBestBlock tip_GetBestBlock"
  obtain already v1 where h: "cache_HaveCoins ?get v (txid tx) = (already, v1)" by (cases "cache_HaveCoins ?get v (txid tx)")
  have v1: "tracks pool A b v1" by (rule have_coins_tracks(1) [OF v h])
  obtain m2 r2 v2 where l: "lookup_inputs E ?get v1 (vin tx) = ((m2, r2), v2)"
    by (metis surj_pair)
  note lk = lookup_tracks [OF v1 l]
  obtain have3 v3 where hi: "HaveInputs ?get v2 tx = (have3, v3)" by (cases "HaveInputs ?get v2 tx")
  have i2: "cache_inv (\<lambda>s. tip_inv (snd s) \<and> fst s = pool \<and> tip_abs (snd s) = A \<and> tip_best (snd s) = b)
       (\<lambda>s. pool_abs (fst s) (tip_abs (snd s))) (\<lambda>s k. True) v2" using lk by (simp add: tracks_def)
  have v3: "tracks pool A b v3" using pooled.HaveInputs_utxos [OF i2 hi] lk by (simp add: tracks_def)
  obtain hb v4 where gb: "cache_GetBestBlock ?best v3 = (hb, v4)" by (cases "cache_GetBestBlock ?best v3")
  have i3: "cache_inv (\<lambda>s. tip_inv (snd s) \<and> fst s = pool \<and> tip_abs (snd s) = A \<and> tip_best (snd s) = b)
       (\<lambda>s. pool_abs (fst s) (tip_abs (snd s))) (\<lambda>s k. True) v3" using v3 by (simp add: tracks_def)
  note rb = pooled.read_best [OF i3 gb]
  have v4: "tracks pool A b v4" using rb v3 by (simp add: tracks_def)
  have hb: "hashBlock v4 \<noteq> 0" "cacheCoins v4 = cacheCoins v3"
    using gb rb(2) v3 b by (auto simp: cache_GetBestBlock_def tracks_def split: prod.splits if_splits)
  have i4: "cache_inv (\<lambda>s. tip_inv (snd s) \<and> fst s = pool \<and> tip_abs (snd s) = A \<and> tip_best (snd s) = b)
       (\<lambda>s. pool_abs (fst s) (tip_abs (snd s))) (\<lambda>s k. True) v4" using v4 by (simp add: tracks_def)
  have gv: "GetValueIn ?get v4 tx = value_in_loop ?get v4 (vin tx) 0" using tx by (simp add: GetValueIn_def regular_def)
  note val = pooled.value_in_utxos [OF i4, of "vin tx" 0]
  have c4: "r2 = Inr () \<Longrightarrow> cached v4 (vin tx)"
  proof -
    assume "r2 = Inr ()"
    then have "cached v2 (vin tx)" using lk by blast
    then show ?thesis using HaveInputs_cached [of v2 tx v2 ?get ?get] hi hb(2) by (auto simp: cached_def)
  qed
  show "tracks pool A b v'"
    using ac h l hi gb gv val v1 lk v3 v4 by (auto simp: accept_coins_def tracks_def split: if_splits sum.splits option.splits)
  assume r: "r = Inr x"
  then have ok: "r2 = Inr ()" "value_in_loop ?get v4 (vin tx) 0 = Some (x, v')"
    using ac h l hi gb gv by (auto simp: accept_coins_def split: if_splits sum.splits option.splits)
  from value_in_cached [OF c4 [OF ok(1)] ok(2)] have "v' = v4" .
  then show "cached v' (vin tx) \<and> hashBlock v' \<noteq> 0 \<and> x = foldl add64 0 (map (value_of (pool_abs pool A)) (vin tx))"
    using c4 [OF ok(1)] hb(1) val ok(2) v4 by (simp add: tracks_def)
qed

section \<open>The entry\<close>

lemma CheckInputs_cached_height:
  assumes "cached v (vin tx)" "hashBlock v \<noteq> 0" "regular tx" "CheckInputs E get gb v tx s flags = Some (Inr u, v')"
  shows "in_blockHeight E (hashBlock v) \<noteq> None"
proof -
  obtain b where "HaveInputs get v tx = (b, v)"
    using HaveInputs_cached [OF assms(1) refl, of get get] by (cases "HaveInputs get v tx") auto
  then show ?thesis using assms(2-4)
    by (auto simp: CheckInputs_def cache_GetBestBlock_def regular_def split: if_splits option.splits)
qed

lemma CheckInputs_detached:
  assumes v: "tracks pool A b v" "cached v (vin tx)" "hashBlock v \<noteq> 0" and tx: "regular tx" "GetValueOut tx = Inr valueOut"
    and P: "in_params E = Params net"
    and ok: "CheckInputs E dummy_GetCoins dummy_GetBestBlock (detach v) tx s flags = Some (Inr u, w)"
  shows "w = detach v \<and> (\<exists>h. in_blockHeight E b = Some h \<and> inputs_good E (pool_abs pool A) (h + 1) tx s flags valueOut)"
proof -
  let ?get = "mempool_GetCoins tip_GetCoins" and ?best = "mempool_GetBestBlock tip_GetBestBlock"
  have d: "cacheCoins (detach v) = cacheCoins v" "hashBlock (detach v) = hashBlock v" by (simp_all add: detach_def)
  note e = CheckInputs_cached [OF v(2,3) d, of E dummy_GetCoins dummy_GetBestBlock s flags ?get ?best]
  obtain v' where c: "CheckInputs E ?get ?best v tx s flags = Some (Inr u, v')" "w = detach v"
    using ok unfolding e by auto
  have i: "cache_inv (\<lambda>s. tip_inv (snd s) \<and> fst s = pool \<and> tip_abs (snd s) = A \<and> tip_best (snd s) = b)
       (\<lambda>s. pool_abs (fst s) (tip_abs (snd s))) (\<lambda>s k. True) v"
    and a: "cache_abs (\<lambda>s. pool_abs (fst s) (tip_abs (snd s))) v = pool_abs pool A" "cache_best (\<lambda>s. tip_best (snd s)) v = b"
    using v(1) by (simp_all add: tracks_def)
  have hb: "hashBlock v = b" using a(2) v(3) by (simp add: cache_best_def)
  then obtain h where h: "in_blockHeight E b = Some h"
    using CheckInputs_cached_height [OF v(2,3) tx(1) c(1)] by auto
  have "in_blockHeight E (cache_best (\<lambda>s. tip_best (snd s)) v) = Some h" using h a(2) by simp
  from pooled.CheckInputs_utxos [OF i tx(1) this tx(2), of s flags] max_money_int64 [of net] P c(1)
  have "inputs_good E (pool_abs pool A) (h + 1) tx s flags valueOut" by (auto simp: a(1))
  with h c(2) show ?thesis by blast
qed

definition accept_flags_of :: "accept_env \<Rightarrow> uint32" where
  "accept_flags_of E = STANDARD_SCRIPT_VERIFY_FLAGS OR accept_cltv E"

lemma accept_scripts_good:
  assumes "tracks pool A b v" "cached v (vin tx)" "hashBlock v \<noteq> 0" "regular tx" "GetValueOut tx = Inr valueOut"
    "ae_params E = Params net" "accept_scripts E dummy_GetCoins dummy_GetBestBlock (detach v) tx = Some (Inr u)"
  shows "\<exists>h. in_blockHeight (inputs_env_of (ae_connect E)) b = Some h \<and>
    inputs_good (inputs_env_of (ae_connect E)) (pool_abs pool A) (h + 1) tx True (accept_flags_of E) valueOut"
proof -
  have "in_params (inputs_env_of (ae_connect E)) = Params net" using assms(6) by (simp add: inputs_env_of_def)
  moreover obtain w where "CheckInputs (inputs_env_of (ae_connect E)) dummy_GetCoins dummy_GetBestBlock (detach v) tx True
      (accept_flags_of E) = Some (Inr (), w)"
    using assms(7) by (auto simp: accept_scripts_def accept_flags_of_def Let_def split: option.splits sum.splits prod.splits)
  ultimately show ?thesis using CheckInputs_detached [OF assms(1-5)] by blast
qed

text \<open>What the entry leaves of the pool.\<close>

lemma accept_entry_cases:
  assumes v: "cached v (vin tx)" and tx: "regular tx"
    and ac: "accept_entry E fl get gb v pool tx x = Some (r, pool')"
  obtains e q where "r = Inl e" "pool' = q" "q \<in> {pool, PrioritiseTransaction pool (txid tx) (COIN div 10)}"
  | e q valueOut where "r = Inr ()" "pool' = addUnchecked (txid tx) e q" "me_tx e = tx"
      "q \<in> {pool, PrioritiseTransaction pool (txid tx) (COIN div 10)}" "GetValueOut tx = Inr valueOut"
      "accept_scripts E get gb v tx = Some (Inr ())"
proof -
  have s: "AreInputsStandard (ae_base_script E) get v tx = Some (t, v') \<Longrightarrow> v' = v" for t v'
    using tx v by (auto simp: AreInputsStandard_def regular_def dest: inputs_standard_cached)
  have p: "GetP2SHSigOpCount get v tx = Some (t, v') \<Longrightarrow> v' = v" for t v'
    using tx v by (auto simp: GetP2SHSigOpCount_def regular_def dest: p2sh_sigops_cached)
  show ?thesis
    using ac that tx s p
    by (auto simp: accept_entry_def Let_def CTxMemPoolEntry_of_def regular_def split: option.splits sum.splits bool.splits prod.splits if_splits)
qed

lemma CTransaction_size_ins: "length (vin tx) * 41 \<le> CTransaction_size tx"
proof -
  have "length ins * 41 \<le> sum_list (map CTxIn_size ins)" for ins
    by (induction ins) (auto simp: CTxIn_size_def script_size_def GetSizeOfCompactSize_def)
  then show ?thesis by (simp add: CTransaction_size_def trans_le_add1 trans_le_add2)
qed

lemma CheckTransaction_distinct:
  assumes "CheckTransaction C tx = Inr ()" "\<not> HasZerocoinSpendInputs tx"
  shows "distinct (map prevout (vin tx))" "length (vin tx) < 2 ^ 32"
proof -
  have z: "CTransaction_size tx \<le> 150000" and d: "\<exists>k. check_duplicates (vin tx) {} 0 = Inr k"
    using assms(1) by (auto simp: CheckTransaction_def MAX_ZEROCOIN_TX_SIZE_def split: if_split_asm sum.splits)
  show "length (vin tx) < 2 ^ 32" using CTransaction_size_ins [of tx] z by simp
  have plain: "\<not> CTxIn_IsZerocoinSpend txin" if "txin \<in> set (vin tx)" for txin
    using assms(2) that by (auto simp: HasZerocoinSpendInputs_def list_ex_iff)
  have "sorted_wrt (\<lambda>a b. prevout a \<noteq> prevout b) (vin tx)"
    using d unfolding check_duplicates_spec
    by (auto elim: sorted_wrt_mono_rel [rotated] dest: plain)
  then show "distinct (map prevout (vin tx))" unfolding sorted_wrt_distinct .
qed

text \<open>No zerocoin spend of the pool names an output of the inputs: \<open>mapNextTx\<close> does not index these.\<close>

definition apart_from_zerocoins :: "CTxMemPool \<Rightarrow> CTransaction \<Rightarrow> bool" where
  "apart_from_zerocoins pool tx \<longleftrightarrow>
     (\<forall>h e. map_of (mapTx pool) h = Some e \<longrightarrow> HasZerocoinSpendInputs (me_tx e) \<longrightarrow>
        prevout ` set (vin tx) \<inter> prevout ` set (vin (me_tx e)) = {})"

lemma accept_loose_addable:
  assumes "accept_loose E pool tx = Some (Inr u)" "\<not> HasZerocoinSpendInputs tx" "apart_from_zerocoins pool tx"
  shows "addable pool tx" "regular tx"
proof -
  have c: "CheckTransaction (accept_check_env E) tx = Inr ()" "\<not> IsCoinBase tx" "\<not> pool_exists pool (txid tx)"
    "\<not> list_ex (\<lambda>txin. map_of (mapNextTx pool) (prevout txin) \<noteq> None) (vin tx)"
    using assms(1,2) by (auto simp: accept_loose_def split: if_split_asm option.splits bool.splits sum.splits)
  show "regular tx" using c(2) assms(2) by (simp add: regular_def)
  show "addable pool tx"
    using CheckTransaction_distinct [OF c(1) assms(2)] c(3,4) assms(3)
    by (auto simp: addable_def pool_exists_def list_ex_iff apart_from_zerocoins_def)
qed

lemma addable_prioritise: "addable (PrioritiseTransaction st h d) tx \<longleftrightarrow> addable st tx"
  by (simp add: addable_def PrioritiseTransaction_def)

lemma prioritise_maps [simp]: "mapTx (PrioritiseTransaction st h d) = mapTx st" "mapNextTx (PrioritiseTransaction st h d) = mapNextTx st"
  by (simp_all add: PrioritiseTransaction_def)

lemma pool_spends_next:
  assumes "pool_inv st" "map_of (mapNextTx st) out = None"
  shows "\<not> pool_spends st out h n"
proof
  assume s: "pool_spends st out h n"
  then obtain e where "map_of (mapTx st) h = Some e" "n < length (vin (me_tx e))" by (auto simp: pool_spends_def)
  then have "n < 2 ^ 32" using pool_invD(2) [OF assms(1)] by fastforce
  then have "pool_spends st out h (unat (of_nat n :: uint32))" using s unat_32 by simp
  then have "map_of (mapNextTx st) out = Some \<lparr>ip_ptx = h, ip_n = of_nat n\<rparr>" using assms(1) by (simp add: pool_inv_def)
  then show False using assms(2) by simp
qed

section \<open>Properties\<close>


text \<open>A node on the regression test network, whose pool holds the transaction that the new one spends.\<close>

definition accept_demo :: accept_env where
  "accept_demo = \<lparr>ae_connect = demo_cn\<lparr>cn_block := demo_block_env\<lparr>be_params := regtest_params\<rparr>\<rparr>,
     ae_standard = \<lparr>se_datacarrier = True, se_nMaxDatacarrierBytes = 80, se_fIsBareMultisigStd = True, se_minRelayTxFee = 10000,
       se_chainHeight = 7, se_adjustedTime = 1700000600\<rparr>,
     ae_height = 7, ae_GetTime = 1700000600, ae_minRelayTxFee = 10000, ae_mintFee = 0, ae_base_script = plain_env,
     ae_priorityDelta = (\<lambda>h. False), ae_AllowFree = (\<lambda>tx. True), ae_relaypriority = True, ae_rateLimited = False,
     ae_broadcast = (\<lambda>h. False)\<rparr>"

definition accept_pool :: CTxMemPool where
  "accept_pool = addUnchecked 77 (demo_entry demo_tx) empty_pool"

lemma accept_pool_maps: "mapTx accept_pool = [(77, demo_entry demo_tx)]"
  "map_of (mapNextTx accept_pool) = [\<lparr>op_hash = 5, op_n = 0\<rparr> \<mapsto> \<lparr>ip_ptx = 77, ip_n = 0\<rparr>]"
  using demo_plain by (simp_all add: accept_pool_def addUnchecked_def empty_pool_def demo_tx_def)

lemmas accept_simps = accept_demo_def node_simps params_defs demo_child_def demo_tx_def tx_simps size_simps

lemma accept_demo_loose: "accept_loose accept_demo accept_pool demo_child = Some (Inr ())"
proof -
  have "CheckTransaction (accept_check_env accept_demo) demo_child = Inr ()"
    by (simp add: accept_check_env_def CheckTransaction_def check_zerocoin_def check_shape_def MAX_ZEROCOIN_TX_SIZE_def
        MoneyRange_def add64_def accept_simps COIN_def)
  then show ?thesis
    by (simp add: accept_loose_def accept_pool_maps pool_exists_def CheckFinalTx_def IsFinalTx_def accept_simps)
qed

lemmas view_simps = cache_HaveCoins_def FetchCoins_def cache_GetBestBlock_def HaveInputs_def
  GetValueIn_def GetOutputFor_def mempool_GetCoins_def mempool_GetBestBlock_def cache_GetCoins_def db_GetCoins_def
  pool_lookup_def pool_exists_def db_GetBestBlock_def

lemma accept_demo_coins:
  "\<exists>v. accept_coins accept_demo (mempool_GetCoins tip_GetCoins) (mempool_GetBestBlock tip_GetBestBlock)
     (new_cache (accept_pool, new_cache stake_db)) demo_child = Some ((False, Inr 40), v)"
  by (simp add: accept_coins_def accept_pool_maps stake_db_def view_simps accept_simps ledger_simps
      ValidOutPoint_def demo_scripts add64_def IsAvailable_def)

lemma CheckInputs_detached_good:
  assumes v: "tracks pool A b v" "cached v (vin tx)" "hashBlock v \<noteq> 0" and tx: "regular tx" "GetValueOut tx = Inr valueOut"
    and P: "in_params E = Params net" and h: "in_blockHeight E b = Some h"
    and good: "inputs_good E (pool_abs pool A) (h + 1) tx s flags valueOut"
  shows "CheckInputs E dummy_GetCoins dummy_GetBestBlock (detach v) tx s flags = Some (Inr (), detach v)"
proof -
  let ?get = "mempool_GetCoins tip_GetCoins" and ?best = "mempool_GetBestBlock tip_GetBestBlock"
  have d: "cacheCoins (detach v) = cacheCoins v" "hashBlock (detach v) = hashBlock v" by (simp_all add: detach_def)
  have i: "cache_inv (\<lambda>s. tip_inv (snd s) \<and> fst s = pool \<and> tip_abs (snd s) = A \<and> tip_best (snd s) = b)
       (\<lambda>s. pool_abs (fst s) (tip_abs (snd s))) (\<lambda>s k. True) v"
    and a: "cache_abs (\<lambda>s. pool_abs (fst s) (tip_abs (snd s))) v = pool_abs pool A" "cache_best (\<lambda>s. tip_best (snd s)) v = b"
    using v(1) by (simp_all add: tracks_def)
  have "in_blockHeight E (cache_best (\<lambda>s. tip_best (snd s)) v) = Some h" using h a(2) by simp
  from pooled.CheckInputs_utxos [OF i tx(1) this tx(2), of s flags] max_money_int64 [of net] P good
  obtain v' where "CheckInputs E ?get ?best v tx s flags = Some (Inr (), v')" by (auto simp: a(1))
  then show ?thesis
    using CheckInputs_cached [OF v(2,3) d, of E dummy_GetCoins dummy_GetBestBlock s flags ?get ?best] by simp
qed

lemma accept_demo_cltv: "accept_cltv accept_demo \<in> {0, SCRIPT_VERIFY_CHECKLOCKTIMEVERIFY}"
  by (simp add: accept_cltv_def)

lemma accept_demo_verifies:
  "VerifyScript plain_env (STANDARD_SCRIPT_VERIFY_FLAGS OR accept_cltv accept_demo) [] [OP_1] = Some (Inr ())"
  "VerifyScript plain_env (MANDATORY_SCRIPT_VERIFY_FLAGS OR accept_cltv accept_demo) [] [OP_1] = Some (Inr ())"
proof -
  have "VerifyScript plain_env (STANDARD_SCRIPT_VERIFY_FLAGS OR 0) [] [OP_1] = Some (Inr ())"
    "VerifyScript plain_env (STANDARD_SCRIPT_VERIFY_FLAGS OR SCRIPT_VERIFY_CHECKLOCKTIMEVERIFY) [] [OP_1] = Some (Inr ())"
    "VerifyScript plain_env (MANDATORY_SCRIPT_VERIFY_FLAGS OR 0) [] [OP_1] = Some (Inr ())"
    "VerifyScript plain_env (MANDATORY_SCRIPT_VERIFY_FLAGS OR SCRIPT_VERIFY_CHECKLOCKTIMEVERIFY) [] [OP_1] = Some (Inr ())"
    by code_simp+
  then show "VerifyScript plain_env (STANDARD_SCRIPT_VERIFY_FLAGS OR accept_cltv accept_demo) [] [OP_1] = Some (Inr ())"
    "VerifyScript plain_env (MANDATORY_SCRIPT_VERIFY_FLAGS OR accept_cltv accept_demo) [] [OP_1] = Some (Inr ())"
    using accept_demo_cltv by auto
qed

lemma accept_node: "tip_inv (new_cache stake_db)" "tip_abs (new_cache stake_db) = stake_utxos" "tip_best (new_cache stake_db) = 9"
proof -
  have "db_inv stake_db" by (simp add: db_inv_def stake_db_def IsPruned_def CTxOut_IsNull_def anyone_def)
  then show "tip_inv (new_cache stake_db)" using db.new_cache_spec by blast
qed (simp_all add: stake_db_def db_best_hash_def fun_eq_iff stake_utxos_def)

lemma accept_demo_good:
  assumes "VerifyScript plain_env flags [] [OP_1] = Some (Inr ())"
  shows "inputs_good (inputs_env_of (ae_connect accept_demo)) (pool_abs accept_pool stake_utxos) (7 + 1) demo_child True flags 40"
  using assms by (simp add: good_simps accept_simps pool_abs_def pool_lookup_def accept_pool_maps ledger_simps demo_scripts
      CTxMemPoolEntry_of_def demo_entry_def COIN_def)

lemma accept_demo_scripts:
  assumes "tracks accept_pool stake_utxos 9 v" "cached v (vin demo_child)" "hashBlock v \<noteq> 0"
  shows "accept_scripts accept_demo dummy_GetCoins dummy_GetBestBlock (detach v) demo_child = Some (Inr ())"
proof -
  have r: "regular demo_child" "GetValueOut demo_child = Inr 40" "in_params (inputs_env_of (ae_connect accept_demo)) = Params REGTEST"
    "in_blockHeight (inputs_env_of (ae_connect accept_demo)) 9 = Some 7"
    by (simp_all add: regular_def GetValueOut_def add64_def accept_simps inputs_env_of_def)
  note g = CheckInputs_detached_good [OF assms r]
  show ?thesis
    using g [OF accept_demo_good [OF accept_demo_verifies(1)]] g [OF accept_demo_good [OF accept_demo_verifies(2)]]
    by (simp add: accept_scripts_def)
qed

definition accept_no_limits :: accept_flags where
  "accept_no_limits = \<lparr>fLimitFree = False, fRejectInsaneFee = False, ignoreFees = True\<rparr>"

lemma accept_demo_sigops: "GetLegacySigOpCount demo_child = 0"
  by code_simp

lemma accept_demo_run:
  "\<exists>pool' tip'. AcceptToMemoryPool accept_demo accept_no_limits tip_GetCoins tip_GetBestBlock (new_cache stake_db) accept_pool demo_child =
     Some (False, Inr (), pool', tip')"
proof -
  obtain v where c: "accept_coins accept_demo (mempool_GetCoins tip_GetCoins) (mempool_GetBestBlock tip_GetBestBlock)
     (new_cache (accept_pool, new_cache stake_db)) demo_child = Some ((False, Inr 40), v)"
    using accept_demo_coins by blast
  have r: "regular demo_child" by (simp add: regular_def accept_simps)
  have t0: "tracks accept_pool stake_utxos 9 (new_cache (accept_pool, new_cache stake_db))"
    using tracks_new [OF accept_node(1), of accept_pool] accept_node(2,3) by simp
  note t = accept_coins_tracks [OF t0 r _ c, simplified]
  have k: "cached (detach v) (vin demo_child)" using t(2) by (simp add: cached_def detach_def)
  have tx: "vin demo_child = [\<lparr>prevout = \<lparr>op_hash = 77, op_n = 0\<rparr>, scriptSig = [], nSequence = - 1\<rparr>]"
    by (simp add: demo_child_def)
  obtain e where e: "map_of (cacheCoins (detach v)) 77 = Some e" using k tx by auto
  have "pool_abs accept_pool stake_utxos 77 = Some (FromTx demo_tx MEMPOOL_HEIGHT)"
    by (simp add: pool_abs_def pool_lookup_def accept_pool_maps demo_tx_def ledger_simps demo_scripts)
  moreover have "cache_abs (\<lambda>s. pool_abs (fst s) (tip_abs (snd s))) v 77 = pool_abs accept_pool stake_utxos 77"
    using t(1) unfolding tracks_def by simp
  then have "pool_abs accept_pool stake_utxos 77 = visible (Some (coins e))"
    using e by (simp add: cache_abs_def cabs_def detach_def)
  ultimately have "coins e = FromTx demo_tx MEMPOOL_HEIGHT" by (simp add: visible_eq_Some)
  then have "GetP2SHSigOpCount dummy_GetCoins (detach v) demo_child = Some (0, detach v)"
    using r e by (simp add: GetP2SHSigOpCount_def regular_def tx GetOutputFor_def read_cached)
      (simp add: demo_tx_def ledger_simps demo_scripts IsAvailable_def tx_simps)
  moreover have "GetValueOut demo_child = Inr 40" by (simp add: GetValueOut_def add64_def accept_simps)
  moreover have "\<not> fRequireStandard (ae_params accept_demo)" "\<not> ae_broadcast accept_demo (txid demo_child)"
    by (simp_all add: accept_demo_def regtest_params_def)
  ultimately have "\<exists>pool'. accept_entry accept_demo accept_no_limits dummy_GetCoins dummy_GetBestBlock (detach v) accept_pool demo_child 40 =
      Some (Inr (), pool')"
    using accept_demo_scripts [OF t(1)] t(2) demo_plain(2) accept_demo_sigops
    by (simp add: accept_entry_def accept_no_limits_def)
  then show ?thesis using c accept_demo_loose demo_plain(2) by (auto simp: AcceptToMemoryPool_def)
qed


end
