(* ===== verification/Activation.thy ===== *)
theory Activation
  imports ActivateProps AcceptProps
begin

text \<open>
  The properties of \<open>ActivateBestChain\<close>: it returns when no block is corrupt, the tip it leaves is the best
  usable candidate, and a corrupt stored block makes it loop for ever.
\<close>

section \<open>A corrupt stored block\<close>

text \<open>What \<open>ConnectTip\<close> does with a block whose data fails a check that may be due to corruption: nothing.\<close>

definition corrupt_stored :: "node_env \<Rightarrow> node \<Rightarrow> ptr \<Rightarrow> bool" where
  "corrupt_stored E nd p \<longleftrightarrow> (\<exists>block. ne_disk E p = Some block \<and> CorruptionPossible (node_cn E nd) block False)"

lemma connect_corrupt:
  assumes "pprev (nd_store nd p) = nd_tip nd" "corrupt_stored E nd p"
  shows "ConnectTip E p None f nd = Some (Inl (TipInvalid True), nd)"
proof -
  obtain block where b: "ne_disk E p = Some block" "CorruptionPossible (node_cn E nd) block False"
    using assms(2) by (auto simp: corrupt_stored_def)
  then obtain e where "CheckBlock (cn_block (node_cn E nd)) block True True = Inl e"
    by (auto simp: CorruptionPossible_def split: sum.splits)
  then show ?thesis
    using assms(1) b by (simp add: ConnectTip_def Let_def ConnectBlock_def InvalidBlockFound_def new_cache_def)
qed

lemma fork_at_tip:
  assumes inv: "index_inv s S" and p: "p \<in> S" "pprev (ix_store s p) = Some t" "ix_tip s = Some t"
  shows "FindFork (ix_store s) (chainActive s) p = Some (Some t)"
proof -
  note wf = index_invD(1) [OF inv]
  have t: "t \<in> S" "nHeight (ix_store s p) = Suc (nHeight (ix_store s t))" using wf_treeD(2) [OF wf p(1,2)] by simp_all
  have chain: "chainActive s = path (ix_store s) t" using index_tip(2) [OF inv p(3)] .
  obtain r where r: "FindFork (ix_store s) (chainActive s) p = Some r" "is_fork (ix_store s) (chainActive s) p r"
    using FindFork_spec [OF wf index_invD(3) [OF inv] p(1)] by blast
  have "climb (ix_store s) 0 t = Some t" by simp
  then have ct: "ix_contains s t" using Contains_path [OF wf t(1)] chain by auto
  have np: "\<not> ix_contains s p"
  proof
    assume "ix_contains s p"
    then obtain n where "n \<le> nHeight (ix_store s t)" "climb (ix_store s) n t = Some p" using Contains_path [OF wf t(1)] chain by auto
    then have "nHeight (ix_store s p) = nHeight (ix_store s t) - n" using climb_le_trans(2) [OF wf t(1)] by simp
    then show False using t(2) by linarith
  qed
  have c1: "climb (ix_store s) 1 p = Some t" "climb (ix_store s) 0 p = Some p" using p(2) by simp_all
  show ?thesis
  proof (cases r)
    case None
    have "1 \<le> nHeight (ix_store s p)" using t(2) by simp
    then have "\<not> ix_contains s t" using r(2) c1(1) unfolding is_fork_def None option.case by blast
    then show ?thesis using ct by simp
  next
    case (Some f)
    then obtain n where n: "climb (ix_store s) n p = Some f" "ix_contains s f"
      "\<forall>m < n. \<forall>q. climb (ix_store s) m p = Some q \<longrightarrow> \<not> ix_contains s q"
      using r(2) by (auto simp: is_fork_def)
    have "n \<noteq> 0" using n(1,2) np by (cases n) simp_all
    moreover have "\<not> 1 < n" using n(3) c1(1) ct by blast
    ultimately have "n = 1" by simp
    then show ?thesis using n(1) c1(1) r(1) Some by simp
  qed
qed

lemma step_corrupt:
  assumes inv: "index_inv (nd_index nd) S" and p: "p \<in> S" "pprev (nd_store nd p) = Some t" "nd_tip nd = Some t"
    and c: "corrupt_stored E nd p"
  shows "ActivateBestChainStep E p None f nd = Some (Some (True, nd))"
proof -
  note wf = index_invD(1) [OF inv]
  have h: "nHeight (nd_store nd p) = Suc (nHeight (nd_store nd t))" using wf_treeD(2) [OF wf p(1,2)] by simp
  let ?h = "int (nHeight (nd_store nd t))"
  have dis: "disconnect_to E (Some t) nd = Some (Some (True, nd))" using p(3) by (subst disconnect_to.simps) simp
  have ga: "GetAncestor (nd_store nd) p (?h + 1) = Some (Some p)"
    using GetAncestor_climb [OF wf p(1), of "?h + 1"] h by (simp add: nat_add_distrib)
  have b0: "blocks_above (nd_store nd) ?h (Some t) = Some []" by (subst blocks_above.simps) simp
  have ab: "blocks_above (nd_store nd) ?h (Some p) = Some [p]" using h p(2) b0 by (subst blocks_above.simps) simp
  have ct: "ConnectTip E p None False nd = Some (Inl (TipInvalid True), nd)" using connect_corrupt [OF _ c] p(2,3) by simp
  have "connect_batches E p None False (Some t) ?h nd = Some (Some (True, nd))"
    using h ga ab ct by (subst connect_batches.simps) (simp add: Let_def min_def add.commute)
  then show ?thesis
    using fork_at_tip [OF inv p] dis p(3) by (simp add: ActivateBestChainStep_def)
qed

lemma corrupt_never_returns:
  assumes fm: "FindMostWorkChain (nd_index nd) = Some (Some p, nd_index nd)" "nd_tip nd = Some t" "p \<noteq> t"
    and st: "ActivateBestChainStep E p None f nd = Some (Some (True, nd))"
  shows "ActivateBestChain E' pblock' f' nd' = Some r \<Longrightarrow> (E', pblock', f', nd') \<noteq> (E, None, f, nd)"
proof (erule ActivateBestChain.raw_induct [where P = "\<lambda>E' pblock' f' nd' r. (E', pblock', f', nd') \<noteq> (E, None, f, nd)", rotated])
  fix rec E' pblock' f' nd' r
  assume ih: "\<And>E' pblock' f' nd' r. rec E' pblock' f' nd' = Some r \<Longrightarrow> (E', pblock', f', nd') \<noteq> (E, None, f, nd)"
    and body: "(case FindMostWorkChain (nd_index nd') of
        None \<Rightarrow> Some None
      | Some (pindexMostWork, ix) \<Rightarrow>
          if pindexMostWork = None \<or> pindexMostWork = ix_tip ix then Some (Some (True, nd'\<lparr>nd_index := ix\<rparr>))
          else
            let p = the pindexMostWork;
                own = (case pblock' of None \<Rightarrow> None
                       | Some block \<Rightarrow> if blk_hash block = phashBlock (ix_store ix p) then Some block else None)
            in Option.bind (ActivateBestChainStep E' p own f' (nd'\<lparr>nd_index := ix\<rparr>)) (\<lambda>r.
                 case r of
                   None \<Rightarrow> Some None
                 | Some (ok, nd) \<Rightarrow>
                     if \<not> ok then Some (Some (False, nd))
                     else if nd_tip nd = None \<and> \<not> be_IsInitialBlockDownload (cn_block (ne_connect E')) then Some None
                     else if nd_tip nd \<noteq> Some p then rec E' pblock' f' nd
                     else Some (Some (FlushStateToDisk E' False True nd)))) = Some r"
  show "(E', pblock', f', nd') \<noteq> (E, None, f, nd)"
  proof
    assume e: "(E', pblock', f', nd') = (E, None, f, nd)"
    then have "rec E None f nd = Some r" using body fm st by (simp add: Let_def)
    then show False using ih by blast
  qed
qed

section \<open>Properties\<close>

text \<open>C15:
  \<open>ActivateBestChain\<close> does not loop for ever: on a tree of finitely many blocks, with any active chain,
  any candidates and any results of reading, writing and connecting, it returns, as long as no block it
  can read fails a check that the code takes for a sign of corruption. Every round that does not reach
  the block it went for has either found a new failed block or left a tip with more work.\<close>

theorem ActivateBestChain_terminates:
  assumes "index_inv (nd_index nd) S" "incorrupt E pblock"
  shows "\<exists>r. ActivateBestChain E pblock fAlreadyChecked nd = Some r"
  using ActivateBestChain_spec [OF assms(2,1)] by blast

text \<open>C16:
  When \<open>ActivateBestChain\<close> succeeds, no candidate is left that is better than the tip: every candidate
  with no failed block and no missing data between it and the active chain is the tip or comes before it
  in the order of work and arrival. The tree, the order and the data are those of before, a failed block
  stays failed, no candidate was added, and the active chain is the path to a block of the tree.\<close>

theorem ActivateBestChain_best:
  assumes "index_inv (nd_index nd) S" "incorrupt E pblock"
    "ActivateBestChain E pblock fAlreadyChecked nd = Some (Some (True, nd'))"
  shows "index_inv (nd_index nd') S \<and> tree_same (nd_index nd) (nd_index nd') \<and>
    (\<forall>q. is_failed (nd_index nd) q \<longrightarrow> is_failed (nd_index nd') q) \<and> (\<forall>q. has_data (nd_index nd') q \<longleftrightarrow> has_data (nd_index nd) q) \<and>
    set (setBlockIndexCandidates (nd_index nd')) \<subseteq> set (setBlockIndexCandidates (nd_index nd)) \<and>
    (\<forall>q \<in> set (setBlockIndexCandidates (nd_index nd')). usable (nd_index nd') q \<longrightarrow>
       (\<exists>t. nd_tip nd' = Some t \<and> (q = t \<or> WorkLess (nd_index nd') q t)))"
  using ActivateBestChain_spec [OF assms(2,1), of fAlreadyChecked] assms(3) unfolding moved_def best_tip_def by auto

text \<open>C18:
  A stored block whose data fails a check that the code takes for corruption (the proof of work, the
  Merkle root, repeated transactions, the count of signature operations) makes \<open>ActivateBestChain\<close> loop
  for ever once it is the best candidate on the tip: \<open>ConnectBlock\<close> fails, the block is neither marked
  as failed nor taken out of the candidates, the step reports success, and the search finds it again.\<close>

theorem ActivateBestChain_corrupt_block_loops:
  assumes inv: "index_inv (nd_index nd) S"
    and best: "FindMostWorkChain (nd_index nd) = Some (Some p, nd_index nd)" "p \<in> S"
    and tip: "nd_tip nd = Some t" "pprev (nd_store nd p) = Some t"
    and corrupt: "corrupt_stored E nd p"
  shows "ActivateBestChain E None fAlreadyChecked nd = None"
proof -
  have "p \<noteq> t" using wf_treeD(2) [OF index_invD(1) [OF inv] best(2) tip(2)] by auto
  then show ?thesis
    using corrupt_never_returns [OF best(1) tip(1) _ step_corrupt [OF inv best(2) tip(2,1) corrupt]]
    by (cases "ActivateBestChain E None fAlreadyChecked nd") blast+
qed

section \<open>Concrete nodes\<close>

text \<open>
  The first node starts from nothing, as \<open>InitBlockIndex\<close> does: the genesis block, which it is given, is
  the only candidate. The tip of the second is block 2, and block 3 on it, with the wrong Merkle root on
  the disk, is the best candidate.
\<close>

definition start_index :: chain_index where
  "start_index = demo_index\<lparr>ix_store := \<lambda>p. (demo_index_store p)\<lparr>phashBlock := of_nat p + 1\<rparr>, setBlockIndexCandidates := [0],
     chainActive := []\<rparr>"

definition start_node :: node where
  "start_node = \<lparr>nd_index = start_index, nd_coins = new_cache \<lparr>db_coins = (\<lambda>h. None), db_best = None\<rparr>, nd_pool = empty_pool,
     nd_undo = (\<lambda>p. None), nd_supply = (\<lambda>p. 0)\<rparr>"

definition start_env :: node_env where
  "start_env = \<lparr>ne_connect = ae_connect accept_demo, ne_accept = accept_demo, ne_disk = (\<lambda>p. None), ne_connect_writes = (\<lambda>nd p. True),
     ne_flush_writes = (\<lambda>nd. True), ne_flush_expired = (\<lambda>nd. False), ne_new_file = (\<lambda>p q. False), ne_nCoinCacheSize = 5000,
     ne_fSanityCheck = False\<rparr>"

definition start_genesis :: CBlock where
  "start_genesis = pay_block\<lparr>blk_hash := 1, hashPrevBlock := 0, hashMerkleRoot := 70, vtx := [demo_coinbase 5000000010]\<rparr>"

definition corrupt_index :: chain_index where
  "corrupt_index = demo_index\<lparr>setBlockIndexCandidates := [2, 3]\<rparr>"

definition corrupt_env :: node_env where
  "corrupt_env = start_env\<lparr>ne_disk := [3 \<mapsto> pay_block\<lparr>hashMerkleRoot := 778\<rparr>]\<rparr>"

lemma start_index_inv: "index_inv start_index demo_tree"
  by (rule demo_index_ok [where h = "\<lambda>p. of_nat p + 1"]) (simp_all add: start_index_def demo_index_def demo_tree_def)

lemma corrupt_index_inv: "index_inv corrupt_index demo_tree"
proof (rule demo_index_ok [where h = "\<lambda>p. phashBlock (demo_index_store p)"])
  have "WorkLess demo_index 2 3" using demo_index_work by (simp add: WorkLess_iff)
  moreover have eq: "WorkLess corrupt_index = WorkLess demo_index"
    by (rule WorkLess_shape) (simp add: same_shape_def corrupt_index_def)
  ultimately show "sorted_wrt (WorkLess corrupt_index) (setBlockIndexCandidates corrupt_index)"
    unfolding eq by (simp add: corrupt_index_def)
  show "chainActive corrupt_index = [] \<or> (\<exists>p \<in> demo_tree. chainActive corrupt_index = path demo_store p)"
    by (rule disjI2, rule bexI [of _ 2]) (simp_all add: corrupt_index_def demo_index_def demo_tree_def)
qed (simp_all add: corrupt_index_def demo_index_def demo_tree_def)

lemma corrupt_index_most_work: "FindMostWorkChain corrupt_index = Some (Some 3, corrupt_index)"
proof -
  have st: "pprev (ix_store corrupt_index 3) = Some 2" "nHeight (ix_store corrupt_index 3) = 3" "nHeight (ix_store corrupt_index 2) = 2"
    by (simp_all add: corrupt_index_def demo_index_def demo_index_store_def demo_defs)
  have len: "length (path demo_store 2) = 3" by (simp add: demo_defs)
  have c: "ix_contains corrupt_index 2" "\<not> ix_contains corrupt_index 3"
    using st(2,3) len path_tip [of demo_store 2] by (simp_all add: Contains_def chain_at_def corrupt_index_def demo_index_def demo_defs)
  have "\<not> is_failed corrupt_index 3" "has_data corrupt_index 3" "nChainTx corrupt_index 3 \<noteq> 0"
    by (simp_all add: is_failed_def has_data_def corrupt_index_def demo_index_def demo_index_store_def block_flag_defs)
  moreover have "unusable_walk corrupt_index (Some 2) = Some None" using c(1) by (subst unusable_walk.simps) simp
  ultimately have "unusable_walk corrupt_index (Some 3) = Some None" using c(2) st(1) by (subst unusable_walk.simps) simp
  then show ?thesis by (subst FindMostWorkChain.simps) (simp add: corrupt_index_def)
qed

lemma corrupt_disk: "corrupt_stored corrupt_env (start_node\<lparr>nd_index := corrupt_index\<rparr>) 3"
proof -
  let ?E = "cn_block (node_cn corrupt_env (start_node\<lparr>nd_index := corrupt_index\<rparr>))"
  let ?block = "pay_block\<lparr>hashMerkleRoot := 778\<rparr>"
  have P: "be_params ?E = regtest_params" "be_hash ?E = (\<lambda>a b. 10 * a + b)"
    by (simp_all add: node_cn_def corrupt_env_def start_env_def accept_demo_def demo_block_env_def)
  have "CheckBlockHeader ?E ?block pow = Inr ()" for pow
    by (simp add: CheckBlockHeader_def P block_time_def pay_block_def stake_block_def params_defs CheckProofOfWork_def)
  moreover have "check_merkle ?E ?block = Inl (100, ''bad-txnmrklroot'')"
    by (simp add: check_merkle_def P pay_block_def stake_block_def MerkleRoot_def BuildMerkleTree_def merkle_loop.simps demo_tx_simps)
  moreover have "networkID (be_params ?E) = REGTEST" by (simp add: P params_defs)
  ultimately have "CheckBlock ?E ?block True True = Inl (100, ''bad-txnmrklroot'')"
    by (simp add: CheckBlock_def)
  then show ?thesis by (simp add: corrupt_stored_def CorruptionPossible_def corrupt_env_def)
qed

theorem ActivateBestChain_corrupt_block_loops_witness:
  "ActivateBestChain corrupt_env None False (start_node\<lparr>nd_index := corrupt_index\<rparr>) = None"
proof -
  have "pprev (ix_store corrupt_index 3) = Some 2" "ix_tip corrupt_index = Some 2"
    using path_last [of demo_store 2] by (simp_all add: corrupt_index_def demo_index_def demo_index_store_def demo_defs ix_tip_def)
  then show ?thesis
    using corrupt_index_inv corrupt_index_most_work corrupt_disk
    by (intro ActivateBestChain_corrupt_block_loops [of _ demo_tree 3 2]) (simp_all add: demo_tree_def)
qed

lemma start_sound: "incorrupt start_env (Some start_genesis)"
proof -
  have "\<not> CorruptionPossible (node_cn start_env nd) start_genesis f" for nd f
  proof -
    let ?E = "cn_block (node_cn start_env nd)"
    let ?C = "block_check_env ?E start_genesis"
    have P: "be_params ?E = regtest_params" "be_hash ?E = (\<lambda>a b. 10 * a + b)" "be_lockFiltering ?E = False"
      by (simp_all add: node_cn_def start_env_def accept_demo_def demo_block_env_def)
    have "CheckBlockHeader ?E start_genesis pow = Inr ()" for pow
      by (simp add: CheckBlockHeader_def P block_time_def start_genesis_def pay_block_def stake_block_def params_defs CheckProofOfWork_def)
    moreover have "networkID (be_params ?E) = REGTEST" by (simp add: P params_defs)
    moreover have "check_merkle ?E start_genesis = Inr ()"
      by (simp add: check_merkle_def P start_genesis_def MerkleRoot_def BuildMerkleTree_def merkle_loop.simps demo_tx_simps)
    moreover have "check_layout start_genesis = Inr ()"
      by (simp add: check_layout_def start_genesis_def pay_block_def stake_block_def block_IsProofOfStake_def tx_simps size_simps
          MAX_BLOCK_SIZE_CURRENT_def)
    moreover have "check_txs ?E ?C (vtx start_genesis) [] = Inr ()"
      by (simp add: start_genesis_def CheckTransaction_def MAX_ZEROCOIN_TX_SIZE_def block_check_env_def P block_time_def tx_simps size_simps
          add64_def MoneyRange_def check_zerocoin_def check_shape_def params_defs COIN_def pay_block_def stake_block_def)
    moreover have "sum_list (map GetLegacySigOpCount (vtx start_genesis)) = 0" by (simp add: start_genesis_def pay_sigops)
    ultimately have "CheckBlock ?E start_genesis True True = check_payee ?E start_genesis"
      by (simp add: CheckBlock_def P split: sum.split del: sum_list_eq_0_iff)
    then show ?thesis by (simp add: CorruptionPossible_def check_payee_def Let_def split: option.split)
  qed
  then show ?thesis by (simp add: incorrupt_def) (simp add: start_env_def)
qed

definition started :: node where
  "started = start_node\<lparr>nd_coins := \<lparr>base = \<lparr>db_coins = (\<lambda>h. None), db_best = None\<rparr>, cacheCoins = [], hashBlock = 1\<rparr>,
     nd_index := start_index\<lparr>chainActive := [Some 0]\<rparr>,
     nd_pool := empty_pool\<lparr>nTransactionsUpdated := 1\<rparr>\<rparr>"

lemma start_store: "pprev (ix_store start_index 0) = None" "nHeight (ix_store start_index 0) = 0"
  "phashBlock (ix_store start_index 0) = 1" "chainActive start_index = []" "setBlockIndexCandidates start_index = [0]"
  by (simp_all add: start_index_def demo_index_def demo_index_store_def demo_defs)

lemma start_most_work: "FindMostWorkChain start_index = Some (Some 0, start_index)"
proof -
  have "\<not> is_failed start_index 0" "has_data start_index 0" "nChainTx start_index 0 \<noteq> 0"
    by (simp_all add: is_failed_def has_data_def start_index_def demo_index_def demo_index_store_def block_flag_defs)
  moreover have "\<not> ix_contains start_index 0" by (simp add: Contains_def chain_at_def start_store)
  moreover have "unusable_walk start_index None = Some None" by (subst unusable_walk.simps) simp
  ultimately have "unusable_walk start_index (Some 0) = Some None" using start_store(1) by (subst unusable_walk.simps) simp
  then show ?thesis by (subst FindMostWorkChain.simps) (simp add: start_store)
qed

lemma start_connect: "ConnectTip start_env 0 (Some start_genesis) True start_node = Some (Inr (), started)"
proof -
  let ?v = "new_cache (nd_coins start_node)"
  have n: "nd_index start_node = start_index" "nd_tip start_node = None" "nd_pool start_node = empty_pool"
    "nTransactionsUpdated empty_pool = 0"
    by (simp_all add: start_node_def ix_tip_def start_store empty_pool_def)
  have "ConnectBlock (node_cn start_env start_node) tip_GetCoins tip_GetBestBlock start_genesis (nd_store start_node 0) ?v False True =
      Some (Inr None, ?v\<lparr>hashBlock := 1\<rparr>)"
    by (simp add: ConnectBlock_def cache_GetBestBlock_def db_GetBestBlock_def n start_store start_genesis_def node_cn_def start_env_def
        accept_demo_def demo_cn_def SetBestBlock_def new_cache_def start_node_def)
  moreover have "Flush cache_BatchWrite (?v\<lparr>hashBlock := 1\<rparr>) = Some (?v\<lparr>hashBlock := 1, base := nd_coins started\<rparr>)"
    by (simp add: Flush_def cache_BatchWrite_def new_cache_def started_def start_node_def)
  moreover have "removeForBlock empty_pool (vtx start_genesis) [] = Some ([], empty_pool)"
    by (simp add: start_genesis_def pool_remove_def empty_pool_def removeConflicts_def demo_tx_simps ClearPrioritisation_def omap_erase_def)
  moreover have "FlushStateToDisk start_env False False nd = (True, nd)" if "cacheCoins (nd_coins nd) = []" for nd
    using that by (simp add: FlushStateToDisk_def flush_due_def start_env_def)
  moreover have "SetTip (ix_store start_index) [] (Some 0) = Some [Some 0]"
    by (simp add: SetTip_def resize_def start_store SetTip_loop.simps)
  ultimately show ?thesis
    using n by (simp add: ConnectTip_def Let_def start_store UpdateTip_def started_def)
qed

lemma start_step: "ActivateBestChainStep start_env 0 (Some start_genesis) True start_node = Some (Some (True, started))"
proof -
  have n: "nd_index start_node = start_index" "nd_tip start_node = None" "nd_tip started = Some 0" "nd_store started = ix_store start_index"
    "setBlockIndexCandidates (nd_index started) = [0]"
    by (simp_all add: start_node_def started_def ix_tip_def start_store)
  have fork: "FindFork (ix_store start_index) [] 0 = Some None"
    by (simp add: FindFork_def Height_def GetAncestor_def start_store FindFork_loop.simps)
  have dis: "disconnect_to start_env None start_node = Some (Some (True, start_node))"
    using n(2) by (subst disconnect_to.simps) simp
  have anc: "GetAncestor (ix_store start_index) 0 0 = Some (Some 0)"
    using GetAncestor_climb [OF index_invD(1) [OF start_index_inv], of 0 0] by (simp add: demo_tree_def start_store)
  have none: "blocks_above (ix_store start_index) (- 1) None = Some []" by (subst blocks_above.simps) simp
  have above: "blocks_above (ix_store start_index) (- 1) (Some 0) = Some [0]"
    using start_store(1,2) none by (subst blocks_above.simps) simp
  have "\<not> WorkLess (nd_index started) 0 0" by (simp add: WorkLess_def more_work_def)
  then have "PruneBlockIndexCandidates (nd_index started) = Some (nd_index started)"
    using n(3,5) by (simp add: PruneBlockIndexCandidates_def Let_def)
  then have batch: "connect_batch start_env 0 (Some start_genesis) True None 0 [0] start_node = Some (BatchStop, started)"
    using start_connect by simp
  have "connect_batches start_env 0 (Some start_genesis) True None (- 1) start_node = Some (Some (True, started))"
    using n(1) anc above batch by (subst connect_batches.simps) (simp add: Let_def start_store)
  then show ?thesis using n(1,2) fork dis by (simp add: ActivateBestChainStep_def start_store)
qed

lemma start_activates: "ActivateBestChain start_env (Some start_genesis) True start_node = Some (Some (True, started))"
proof -
  have n: "nd_index start_node = start_index" "start_node\<lparr>nd_index := start_index\<rparr> = start_node" "nd_tip started = Some 0"
    "blk_hash start_genesis = 1" "ix_tip start_index = None"
    by (simp_all add: start_node_def started_def ix_tip_def start_store start_genesis_def)
  have "FlushStateToDisk start_env False True started = (True, started)"
    by (simp add: FlushStateToDisk_def flush_due_def start_env_def started_def)
  then show ?thesis
    using start_step by (subst ActivateBestChain.simps) (simp add: Let_def start_store n start_most_work)
qed

theorem ActivateBestChain_terminates_witness: "\<exists>r. ActivateBestChain start_env (Some start_genesis) False start_node = Some r"
  using start_index_inv start_sound by (intro ActivateBestChain_terminates [of _ demo_tree]) (simp_all add: start_node_def)

theorem ActivateBestChain_best_witness: "nd_tip started = Some 0 \<and> tree_same start_index (nd_index started)"
proof -
  have "index_inv (nd_index start_node) demo_tree" using start_index_inv by (simp add: start_node_def)
  from ActivateBestChain_best [OF this start_sound start_activates] show ?thesis
    by (simp add: start_node_def) (simp add: started_def ix_tip_def)
qed

end
