(* ===== verification/MerkleBlock.thy ===== *)
theory MerkleBlock
  imports Block "HOL-Library.Sublist"
begin

text \<open>
  Partial Merkle trees, \<open>src/src/merkleblock.h\<close> and \<open>merkleblock.cpp\<close>: the proof that some transactions are
  in a block, as bits and hashes in depth-first order. The hash of two hashes is the parameter \<open>H\<close>;
  positions and the counters of used bits and hashes are naturals, which stay below the sizes of the
  lists they count.
\<close>

section \<open>The tree\<close>

record CPartialMerkleTree =
  nTransactions :: uint32
  vBits :: "bool list"
  vHash :: "hash256 list"
  fBad :: bool

definition CalcTreeWidth :: "uint32 \<Rightarrow> nat \<Rightarrow> uint32" where
  "CalcTreeWidth n height = drop_bit height (n + push_bit height 1 - 1)"

lemma drop_all: "32 \<le> height \<Longrightarrow> drop_bit height (w :: uint32) = 0"
  by (rule bit_word_eqI) (auto simp: bit_drop_bit_eq dest: bit_imp_le_length)

text \<open>The loop that finds the height of the tree.\<close>

function tree_height :: "uint32 \<Rightarrow> nat \<Rightarrow> nat" where
  "tree_height n height = (if 1 < CalcTreeWidth n height then tree_height n (Suc height) else height)"
  by pat_completeness auto
termination
proof (relation "measure (\<lambda>(n, h). 32 - h)", simp)
  fix n height assume "1 < CalcTreeWidth n height"
  then have "height < 32" using drop_all [of height] by (cases "32 \<le> height") (simp_all add: CalcTreeWidth_def)
  then show "((n, Suc height), n, height) \<in> measure (\<lambda>(n, h). 32 - h)" by simp
qed

declare tree_height.simps [simp del]

fun CalcHash :: "(hash256 \<Rightarrow> hash256 \<Rightarrow> hash256) \<Rightarrow> uint32 \<Rightarrow> nat \<Rightarrow> nat \<Rightarrow> hash256 list \<Rightarrow> hash256" where
  "CalcHash H n 0 pos vTxid = vTxid ! pos"
| "CalcHash H n (Suc height) pos vTxid =
     (let left = CalcHash H n height (pos * 2) vTxid;
          right = (if pos * 2 + 1 < unat (CalcTreeWidth n height) then CalcHash H n height (pos * 2 + 1) vTxid else left)
      in H left right)"

text \<open>\<open>TraverseAndBuild\<close> returns the bits and hashes it appends.\<close>

definition fParentOfMatch :: "uint32 \<Rightarrow> nat \<Rightarrow> nat \<Rightarrow> bool list \<Rightarrow> bool" where
  "fParentOfMatch n height pos vMatch = list_ex (\<lambda>p. vMatch ! p) [pos * 2 ^ height..<min ((pos + 1) * 2 ^ height) (unat n)]"

fun TraverseAndBuild ::
  "(hash256 \<Rightarrow> hash256 \<Rightarrow> hash256) \<Rightarrow> uint32 \<Rightarrow> nat \<Rightarrow> nat \<Rightarrow> hash256 list \<Rightarrow> bool list \<Rightarrow> bool list \<times> hash256 list" where
  "TraverseAndBuild H n 0 pos vTxid vMatch = ([fParentOfMatch n 0 pos vMatch], [CalcHash H n 0 pos vTxid])"
| "TraverseAndBuild H n (Suc height) pos vTxid vMatch =
     (if \<not> fParentOfMatch n (Suc height) pos vMatch then ([False], [CalcHash H n (Suc height) pos vTxid])
      else
        case TraverseAndBuild H n height (pos * 2) vTxid vMatch of
          (bits, hashes) \<Rightarrow>
            if pos * 2 + 1 < unat (CalcTreeWidth n height) then
              (case TraverseAndBuild H n height (pos * 2 + 1) vTxid vMatch of
                 (bits', hashes') \<Rightarrow> (True # bits @ bits', hashes @ hashes'))
            else (True # bits, hashes))"

definition CPartialMerkleTree_of :: "(hash256 \<Rightarrow> hash256 \<Rightarrow> hash256) \<Rightarrow> hash256 list \<Rightarrow> bool list \<Rightarrow> CPartialMerkleTree" where
  "CPartialMerkleTree_of H vTxid vMatch =
     (let n = of_nat (length vTxid)
      in case TraverseAndBuild H n (tree_height n 0) 0 vTxid vMatch of
           (bits, hashes) \<Rightarrow> \<lparr>nTransactions = n, vBits = bits, vHash = hashes, fBad = False\<rparr>)"

text \<open>The state of an extraction: the flag \<open>fBad\<close>, the counters and the matches so far.\<close>

record extraction =
  ex_bad :: bool
  nBitsUsed :: nat
  nHashUsed :: nat
  ex_match :: "hash256 list"

fun TraverseAndExtract ::
  "(hash256 \<Rightarrow> hash256 \<Rightarrow> hash256) \<Rightarrow> CPartialMerkleTree \<Rightarrow> nat \<Rightarrow> nat \<Rightarrow> extraction \<Rightarrow> hash256 \<times> extraction" where
  "TraverseAndExtract H T height pos x =
     (if length (vBits T) \<le> nBitsUsed x then (0, x\<lparr>ex_bad := True\<rparr>)
      else
        let parent = vBits T ! nBitsUsed x; x = x\<lparr>nBitsUsed := nBitsUsed x + 1\<rparr>
        in if height = 0 \<or> \<not> parent then
             (if length (vHash T) \<le> nHashUsed x then (0, x\<lparr>ex_bad := True\<rparr>)
              else
                let h = vHash T ! nHashUsed x; x = x\<lparr>nHashUsed := nHashUsed x + 1\<rparr>
                in (h, if height = 0 \<and> parent then x\<lparr>ex_match := ex_match x @ [h]\<rparr> else x))
           else
             case TraverseAndExtract H T (height - 1) (pos * 2) x of
               (left, x) \<Rightarrow>
                 if pos * 2 + 1 < unat (CalcTreeWidth (nTransactions T) (height - 1)) then
                   (case TraverseAndExtract H T (height - 1) (pos * 2 + 1) x of (right, x) \<Rightarrow> (H left right, x))
                 else (H left left, x))"

declare TraverseAndExtract.simps [simp del]

text \<open>The root, or 0 on failure, the matches and the tree with its flag.\<close>

definition ExtractMatches ::
  "(hash256 \<Rightarrow> hash256 \<Rightarrow> hash256) \<Rightarrow> CPartialMerkleTree \<Rightarrow> hash256 \<times> hash256 list \<times> CPartialMerkleTree" where
  "ExtractMatches H T =
     (if nTransactions T = 0 then (0, [], T)
      else if of_nat (MAX_BLOCK_SIZE_CURRENT div 60) < nTransactions T then (0, [], T)
      else if unat (nTransactions T) < length (vHash T) then (0, [], T)
      else if length (vBits T) < length (vHash T) then (0, [], T)
      else
        case TraverseAndExtract H T (tree_height (nTransactions T) 0) 0
               \<lparr>ex_bad = fBad T, nBitsUsed = 0, nHashUsed = 0, ex_match = []\<rparr> of
          (root, x) \<Rightarrow>
            (if ex_bad x \<or> (nBitsUsed x + 7) div 8 \<noteq> (length (vBits T) + 7) div 8 \<or> nHashUsed x \<noteq> length (vHash T)
             then 0 else root, ex_match x, T\<lparr>fBad := ex_bad x\<rparr>))"

text \<open>The flag bits on the wire: eight in a byte, the first one lowest.\<close>

definition bits_to_bytes :: "bool list \<Rightarrow> bytes" where
  "bits_to_bytes bits = map (\<lambda>i. horner_sum of_bool 2 (take 8 (drop (8 * i) bits))) [0..<(length bits + 7) div 8]"

definition bytes_to_bits :: "bytes \<Rightarrow> bool list" where
  "bytes_to_bits vBytes = map (\<lambda>p. bit (vBytes ! (p div 8)) (p mod 8)) [0..<length vBytes * 8]"

section \<open>Levels\<close>

abbreviation merkle_level :: "(hash256 \<Rightarrow> hash256 \<Rightarrow> hash256) \<Rightarrow> hash256 list \<Rightarrow> nat \<Rightarrow> hash256 list" where
  "merkle_level H row h \<equiv> (merkle_next H ^^ h) row"

definition width :: "nat \<Rightarrow> nat \<Rightarrow> nat" where
  "width n h = (n + 2 ^ h - 1) div 2 ^ h"

lemma width_0 [simp]: "width n 0 = n" by (simp add: width_def)

lemma width_Suc: "width n (Suc h) = (width n h + 1) div 2"
proof -
  have "width n h + 1 = (n + 2 ^ h - 1 + 2 ^ h) div 2 ^ h" by (subst div_add_self2) (simp_all add: width_def)
  also have "n + 2 ^ h - 1 + 2 ^ h = n + 2 ^ Suc h - 1" by simp
  finally have "(width n h + 1) div 2 = (n + 2 ^ Suc h - 1) div (2 ^ h * 2)" by (simp only: div_mult2_eq)
  then show ?thesis by (simp add: width_def mult.commute)
qed

lemma length_level: "length (merkle_level H row h) = width (length row) h"
  by (induction h) (simp_all add: width_Suc)

lemma width_pos: "0 < n \<Longrightarrow> 0 < width n h"
  by (induction h) (auto simp: width_Suc)

lemma width_bound: "n \<le> 2 ^ h \<Longrightarrow> width n h \<le> 1"
proof -
  assume "n \<le> 2 ^ h"
  moreover have "0 < (2 :: nat) ^ h" by simp
  ultimately have "n + 2 ^ h - 1 < 2 * 2 ^ h" by linarith
  then have "width n h < 2" unfolding width_def by (rule less_mult_imp_div_less)
  then show ?thesis by simp
qed

text \<open>Up to \<open>2 ^ 16\<close> transactions the width does not wrap; a block has at most 33333.\<close>

lemma CalcTreeWidth_width:
  assumes "unat n \<le> 2 ^ 16" "h \<le> 16"
  shows "unat (CalcTreeWidth n h) = width (unat n) h"
proof -
  have p: "(2 :: nat) ^ h \<le> 2 ^ 16" using assms(2) by (intro power_increasing) simp_all
  have "1 \<le> unat n + 2 ^ h" by (simp add: Suc_le_eq)
  then have "of_nat (unat n + 2 ^ h - 1) = n + push_bit h 1 - 1"
    by (subst of_nat_diff) (simp_all add: push_bit_eq_mult)
  moreover have "unat n + 2 ^ h - 1 < 2 ^ 32" using p assms(1) by simp
  moreover have "unat (of_nat k :: uint32) = k" if "k < 2 ^ 32" for k
    using that by (simp add: unsigned_of_nat take_bit_nat_eq_self)
  ultimately have "unat (n + push_bit h 1 - 1) = unat n + 2 ^ h - 1" by metis
  then show ?thesis unfolding CalcTreeWidth_def unat_drop_bit_eq width_def by (simp only: drop_bit_eq_div)
qed

lemma tree_height_spec:
  assumes n: "unat n \<le> 2 ^ 16"
  shows "h \<le> 16 \<Longrightarrow> \<forall>k < h. 1 < width (unat n) k \<Longrightarrow>
    tree_height n h \<le> 16 \<and> width (unat n) (tree_height n h) \<le> 1 \<and> (\<forall>k < tree_height n h. 1 < width (unat n) k)"
proof (induction "16 - h" arbitrary: h)
  case 0
  then have "h = 16" by simp
  then have "width (unat n) h \<le> 1" using width_bound [OF n] by simp
  then show ?case using 0 CalcTreeWidth_width [OF n, of h] by (subst (1 2 3) tree_height.simps) (simp add: word_less_nat_alt)
next
  case (Suc d)
  note w = CalcTreeWidth_width [OF n Suc(3)]
  show ?case
  proof (cases "1 < width (unat n) h")
    case True
    then have "tree_height n h = tree_height n (Suc h)" using w by (subst tree_height.simps) (simp add: word_less_nat_alt)
    moreover have "h < 16" using Suc(2) by simp
    ultimately show ?thesis using Suc(1) [of "Suc h"] Suc(2,4) True by (simp add: less_Suc_eq)
  next
    case False
    then have "tree_height n h = h" using w by (subst tree_height.simps) (simp add: word_less_nat_alt)
    then show ?thesis using False Suc(3,4) by simp
  qed
qed

lemma level_next:
  assumes "pos < width (length row) (Suc h)"
  shows "merkle_level H row (Suc h) ! pos =
    H (merkle_level H row h ! (pos * 2))
      (if pos * 2 + 1 < width (length row) h then merkle_level H row h ! (pos * 2 + 1) else merkle_level H row h ! (pos * 2))"
proof -
  let ?row = "merkle_level H row h"
  have l: "2 * pos < length ?row" using assms by (auto simp: length_level width_Suc)
  have "min (2 * pos + 1) (length ?row - 1) = (if 2 * pos + 1 < length ?row then 2 * pos + 1 else 2 * pos)"
    using l by auto
  then show ?thesis using merkle_next_nth [OF l, of H] by (simp add: length_level mult.commute)
qed

lemma CalcHash_level:
  assumes n: "unat n = length row" "length row \<le> 2 ^ 16"
  shows "h \<le> 16 \<Longrightarrow> pos < width (length row) h \<Longrightarrow> CalcHash H n h pos row = merkle_level H row h ! pos"
proof (induction h arbitrary: pos)
  case (Suc h)
  have w: "unat (CalcTreeWidth n h) = width (length row) h" using CalcTreeWidth_width [of n h] n Suc(2) by simp
  have "pos * 2 < width (length row) h" using Suc(3) by (auto simp: width_Suc)
  then show ?case using Suc w level_next [OF Suc(3), of H] by (simp add: Let_def del: funpow.simps)
qed simp

lemma merkle_top_level: "\<forall>k < h. 1 < width (length row) k \<Longrightarrow> merkle_top H (merkle_level H row h) = merkle_top H row"
proof (induction h)
  case (Suc h)
  then have "1 < length (merkle_level H row h)" by (simp add: length_level)
  then have "merkle_top H (merkle_level H row h) = merkle_top H (merkle_next H (merkle_level H row h))" by (rule merkle_top_next)
  then show ?case using Suc by simp
qed simp

lemma root_level:
  assumes "row \<noteq> []" "width (length row) h \<le> 1" "\<forall>k < h. 1 < width (length row) k"
  shows "merkle_level H row h ! 0 = MerkleRoot H row"
proof -
  have "width (length row) h = 1" using width_pos [of "length row" h] assms(1,2) by simp
  then obtain a where a: "merkle_level H row h = [a]" using length_level [of h H row] by (cases "merkle_level H row h") auto
  then show ?thesis using merkle_top_level [OF assms(3), of H] by (simp add: merkle_top_single MerkleRoot_top [OF assms(1)])
qed

section \<open>Building and extracting\<close>

text \<open>The positions of the transactions below a node.\<close>

definition span :: "nat \<Rightarrow> nat \<Rightarrow> nat \<Rightarrow> nat list" where
  "span n h pos = [pos * 2 ^ h..<min ((pos + 1) * 2 ^ h) n]"

lemma span_0: "pos < n \<Longrightarrow> span n 0 pos = [pos]" by (simp add: span_def)

lemma span_Suc: "span n (Suc h) pos = span n h (pos * 2) @ span n h (pos * 2 + 1)"
proof -
  let ?a = "pos * 2 * 2 ^ h" let ?b = "(pos * 2 + 1) * 2 ^ h" let ?c = "(pos * 2 + 1 + 1) * 2 ^ h"
  have "?a \<le> ?b" "?b \<le> ?c" by (intro mult_le_mono1; simp)+
  have "[?a..<min ?c n] = [?a..<min ?b n] @ [?b..<min ?c n]"
  proof (cases "?b \<le> n")
    case True
    then have "min ?c n = ?b + (min ?c n - ?b)" "min ?b n = ?b" using \<open>?b \<le> ?c\<close> by (simp_all only: min_def) auto
    then show ?thesis using upt_add_eq_append [OF \<open>?a \<le> ?b\<close>, of "min ?c n - ?b"] by metis
  next
    case False
    then show ?thesis using \<open>?b \<le> ?c\<close> by (simp add: min_def)
  qed
  moreover have "pos * 2 ^ Suc h = ?a" "(pos + 1) * 2 ^ Suc h = ?c" by (simp_all add: algebra_simps)
  ultimately show ?thesis by (simp only: span_def)
qed

lemma span_empty: "width n h \<le> pos \<Longrightarrow> span n h pos = []"
proof -
  assume "width n h \<le> pos"
  then have "(n + 2 ^ h - 1) div 2 ^ h < pos + 1" by (simp add: width_def)
  then have "n + 2 ^ h - 1 < (pos + 1) * 2 ^ h" by (simp add: div_less_iff_less_mult)
  then have "n \<le> pos * 2 ^ h" by simp
  then show ?thesis by (simp add: span_def)
qed

definition matched :: "hash256 list \<Rightarrow> bool list \<Rightarrow> nat \<Rightarrow> nat \<Rightarrow> hash256 list" where
  "matched row vMatch h pos = map ((!) row) (filter ((!) vMatch) (span (length row) h pos))"

lemma parent_matched:
  assumes "unat n = length row"
  shows "fParentOfMatch n h pos vMatch \<longleftrightarrow> matched row vMatch h pos \<noteq> []"
  by (auto simp: fParentOfMatch_def matched_def span_def assms list_ex_iff filter_empty_conv)

lemma matched_Suc: "matched row vMatch (Suc h) pos =
   matched row vMatch h (pos * 2) @ (if pos * 2 + 1 < width (length row) h then matched row vMatch h (pos * 2 + 1) else [])"
  by (simp add: matched_def span_Suc span_empty)

lemma build_counts:
  assumes n: "unat n = length row" "length row \<le> 2 ^ 16"
  shows "h \<le> 16 \<Longrightarrow> pos < width (length row) h \<Longrightarrow> TraverseAndBuild H n h pos row vMatch = (B, Hs) \<Longrightarrow>
    length Hs \<le> length (span (length row) h pos) \<and> length Hs \<le> length B"
proof (induction h arbitrary: pos B Hs)
  case 0
  then show ?case by (auto simp: span_0)
next
  case (Suc h)
  have w: "unat (CalcTreeWidth n h) = width (length row) h" using CalcTreeWidth_width [of n h] n Suc(2) by simp
  have l: "pos * 2 < width (length row) h" using Suc(3) by (auto simp: width_Suc)
  obtain B1 H1 where b1: "TraverseAndBuild H n h (pos * 2) row vMatch = (B1, H1)" by fastforce
  obtain B2 H2 where b2: "TraverseAndBuild H n h (pos * 2 + 1) row vMatch = (B2, H2)" by fastforce
  have h: "h \<le> 16" using Suc(2) by simp
  note i1 = Suc.IH [OF h l b1]
  have "span (length row) h (pos * 2) \<noteq> []"
  proof -
    have "\<not> length row \<le> pos * 2 * 2 ^ h"
    proof
      assume "length row \<le> pos * 2 * 2 ^ h"
      moreover have "1 \<le> (2 :: nat) ^ h" by simp
      moreover have "(pos * 2 + 1) * 2 ^ h = pos * 2 * 2 ^ h + 2 ^ h" by (simp add: add_mult_distrib)
      ultimately have "length row + 2 ^ h - 1 < (pos * 2 + 1) * 2 ^ h" by linarith
      then have "width (length row) h < pos * 2 + 1" unfolding width_def by (rule less_mult_imp_div_less)
      then show False using l by simp
    qed
    then have "pos * 2 * 2 ^ h < length row" by simp
    moreover have "pos * 2 * 2 ^ h < (pos * 2 + 1) * 2 ^ h" by simp
    ultimately have "pos * 2 * 2 ^ h < min ((pos * 2 + 1) * 2 ^ h) (length row)" by (simp only: min_less_iff_conj)
    then show ?thesis unfolding span_def upt_eq_Nil_conv by linarith
  qed
  then have one: "1 \<le> length (span (length row) h (pos * 2))" by (simp add: Suc_le_eq)
  show ?case
  proof (cases "fParentOfMatch n (Suc h) pos vMatch")
    case False
    then show ?thesis using Suc(4) one by (auto simp: span_Suc)
  next
    case True
    show ?thesis
    proof (cases "pos * 2 + 1 < width (length row) h")
      case r: True
      have "B = True # B1 @ B2" "Hs = H1 @ H2" using Suc(4) True r b1 b2 w by simp_all
      then show ?thesis using i1 Suc.IH [OF h r b2] by (simp add: span_Suc)
    next
      case False
      have "B = True # B1" "Hs = H1" using Suc(4) True False b1 w by simp_all
      then show ?thesis using i1 by (simp add: span_Suc)
    qed
  qed
qed

lemma extract_build:
  assumes n: "unat n = length row" "length row \<le> 2 ^ 16" and T: "nTransactions T = n"
  shows "h \<le> 16 \<Longrightarrow> pos < width (length row) h \<Longrightarrow> TraverseAndBuild H n h pos row vMatch = (B, Hs) \<Longrightarrow>
    vBits T = b0 @ B @ b1 \<Longrightarrow> vHash T = h0 @ Hs @ h1 \<Longrightarrow> nBitsUsed x = length b0 \<Longrightarrow> nHashUsed x = length h0 \<Longrightarrow>
    TraverseAndExtract H T h pos x =
      (CalcHash H n h pos row, x\<lparr>nBitsUsed := length b0 + length B, nHashUsed := length h0 + length Hs,
         ex_match := ex_match x @ matched row vMatch h pos\<rparr>)"
proof (induction h arbitrary: pos B Hs b0 b1 h0 h1 x)
  case 0
  have p: "pos < length row" using 0(2) by simp
  have "fParentOfMatch n 0 pos vMatch \<longleftrightarrow> vMatch ! pos" using p n(1) by (simp add: fParentOfMatch_def)
  moreover have "matched row vMatch 0 pos = (if vMatch ! pos then [row ! pos] else [])" using p by (simp add: matched_def span_0)
  ultimately show ?case using 0 by (subst TraverseAndExtract.simps) (auto simp: Let_def)
next
  case (Suc h)
  have w: "unat (CalcTreeWidth (nTransactions T) h) = width (length row) h" using CalcTreeWidth_width [of n h] n Suc(2) T by simp
  have l: "pos * 2 < width (length row) h" using Suc(3) by (auto simp: width_Suc)
  obtain B1 H1 where b1: "TraverseAndBuild H n h (pos * 2) row vMatch = (B1, H1)" by fastforce
  obtain B2 H2 where b2: "TraverseAndBuild H n h (pos * 2 + 1) row vMatch = (B2, H2)" by fastforce
  have h: "h \<le> 16" using Suc(2) by simp
  show ?case
  proof (cases "fParentOfMatch n (Suc h) pos vMatch")
    case False
    then have "B = [False]" "Hs = [CalcHash H n (Suc h) pos row]" using Suc(4) by simp_all
    moreover have "matched row vMatch (Suc h) pos = []" using False parent_matched [OF n(1)] by simp
    ultimately show ?thesis using Suc(5-8) by (subst TraverseAndExtract.simps) (simp add: Let_def)
  next
    case True
    let ?x = "x\<lparr>nBitsUsed := length b0 + 1\<rparr>"
    show ?thesis
    proof (cases "pos * 2 + 1 < width (length row) h")
      case r: True
      have B: "B = True # B1 @ B2" "Hs = H1 @ H2" using Suc(4) True r b1 b2 w T by simp_all
      let ?y = "?x\<lparr>nBitsUsed := length b0 + 1 + length B1, nHashUsed := length h0 + length H1,
         ex_match := ex_match x @ matched row vMatch h (pos * 2)\<rparr>"
      have e1: "TraverseAndExtract H T h (pos * 2) ?x = (CalcHash H n h (pos * 2) row, ?y)"
        using Suc.IH [OF h l b1, of "b0 @ [True]" "B2 @ b1" h0 "H2 @ h1" ?x] Suc(5-8) B by simp
      have e2: "TraverseAndExtract H T h (pos * 2 + 1) ?y = (CalcHash H n h (pos * 2 + 1) row,
          ?y\<lparr>nBitsUsed := length b0 + length B, nHashUsed := length h0 + length Hs,
             ex_match := ex_match x @ matched row vMatch h (pos * 2) @ matched row vMatch h (pos * 2 + 1)\<rparr>)"
        using Suc.IH [OF h r b2, of "b0 @ True # B1" b1 "h0 @ H1" h1 ?y] Suc(5-8) B by simp
      show ?thesis
        using Suc(5,7) B r w e1 e2 T by (subst TraverseAndExtract.simps) (simp add: Let_def matched_Suc nth_append)
    next
      case False
      have B: "B = True # B1" "Hs = H1" using Suc(4) True False b1 w T by simp_all
      have e1: "TraverseAndExtract H T h (pos * 2) ?x = (CalcHash H n h (pos * 2) row,
          ?x\<lparr>nBitsUsed := length b0 + 1 + length B1, nHashUsed := length h0 + length H1,
             ex_match := ex_match x @ matched row vMatch h (pos * 2)\<rparr>)"
        using Suc.IH [OF h l b1, of "b0 @ [True]" b1 h0 h1 ?x] Suc(5-8) B by simp
      show ?thesis
        using Suc(5,7) B False w e1 T by (subst TraverseAndExtract.simps) (simp add: Let_def matched_Suc nth_append)
    qed
  qed
qed

lemma wire_bits: "bytes_to_bits (bits_to_bytes bits) = bits @ replicate (8 * ((length bits + 7) div 8) - length bits) False"
proof (rule nth_equalityI)
  have "length bits \<le> 8 * ((length bits + 7) div 8)" by linarith
  then show "length (bytes_to_bits (bits_to_bytes bits)) = length (bits @ replicate (8 * ((length bits + 7) div 8) - length bits) False)"
    by (simp add: bytes_to_bits_def bits_to_bytes_def)
next
  fix p assume "p < length (bytes_to_bits (bits_to_bytes bits))"
  then have p: "p < 8 * ((length bits + 7) div 8)" by (simp add: bytes_to_bits_def bits_to_bytes_def)
  then have d: "p div 8 < (length bits + 7) div 8" by (simp add: less_mult_imp_div_less mult.commute)
  have "8 * (p div 8) + p mod 8 = p" by simp
  then have "bytes_to_bits (bits_to_bytes bits) ! p \<longleftrightarrow> p < length bits \<and> bits ! p"
    using p d by (auto simp: bytes_to_bits_def bits_to_bytes_def bit_horner_sum_bit_iff nth_take less_diff_conv)
  then show "bytes_to_bits (bits_to_bytes bits) ! p = (bits @ replicate (8 * ((length bits + 7) div 8) - length bits) False) ! p"
    using p by (simp add: nth_append)
qed

definition transmitted :: "CPartialMerkleTree \<Rightarrow> CPartialMerkleTree" where
  "transmitted T = T\<lparr>vBits := bytes_to_bits (bits_to_bytes (vBits T)), fBad := False\<rparr>"

lemma matched_all: "length vMatch = length row \<Longrightarrow> row \<noteq> [] \<Longrightarrow> length row \<le> 2 ^ h \<Longrightarrow>
  matched row vMatch h 0 = map fst (filter snd (zip row vMatch))"
proof -
  assume l: "length vMatch = length row" "row \<noteq> []" "length row \<le> 2 ^ h"
  then have "matched row vMatch h 0 = map ((!) row) (filter ((!) vMatch) [0..<length row])"
    by (simp add: matched_def span_def min_def)
  moreover have "zip row vMatch = map (\<lambda>p. (row ! p, vMatch ! p)) [0..<length row]"
    using l(1) by (intro nth_equalityI) simp_all
  ultimately show ?thesis by (simp add: filter_map comp_def)
qed

section \<open>What an extraction proves\<close>

text \<open>The pairs that an extraction hashes.\<close>

fun extract_pairs ::
  "(hash256 \<Rightarrow> hash256 \<Rightarrow> hash256) \<Rightarrow> CPartialMerkleTree \<Rightarrow> nat \<Rightarrow> nat \<Rightarrow> extraction \<Rightarrow> (hash256 \<times> hash256) set" where
  "extract_pairs H T 0 pos x = {}"
| "extract_pairs H T (Suc h) pos x =
     (let y = x\<lparr>nBitsUsed := nBitsUsed x + 1\<rparr>; l = TraverseAndExtract H T h (pos * 2) y
      in if length (vBits T) \<le> nBitsUsed x \<or> \<not> vBits T ! nBitsUsed x then {}
         else if pos * 2 + 1 < unat (CalcTreeWidth (nTransactions T) h) then
           insert (fst l, fst (TraverseAndExtract H T h (pos * 2 + 1) (snd l)))
             (extract_pairs H T h (pos * 2) y \<union> extract_pairs H T h (pos * 2 + 1) (snd l))
         else insert (fst l, fst l) (extract_pairs H T h (pos * 2) y))"

lemma extract_bad: "ex_bad x \<Longrightarrow> ex_bad (snd (TraverseAndExtract H T h pos x))"
proof (induction h arbitrary: pos x)
  case 0
  then show ?case by (subst TraverseAndExtract.simps) (simp add: Let_def)
next
  case (Suc h)
  obtain left y where e1: "TraverseAndExtract H T h (pos * 2) (x\<lparr>nBitsUsed := nBitsUsed x + 1\<rparr>) = (left, y)" by fastforce
  obtain right z where e2: "TraverseAndExtract H T h (pos * 2 + 1) y = (right, z)" by fastforce
  have "ex_bad y" using Suc.IH [of "x\<lparr>nBitsUsed := nBitsUsed x + 1\<rparr>" "pos * 2"] Suc.prems e1 by simp
  moreover from this have "ex_bad z" using Suc.IH [of y "pos * 2 + 1"] e2 by simp
  ultimately show ?case using Suc.prems e1 e2 by (simp add: TraverseAndExtract.simps [of H T "Suc h"] Let_def)
qed

lemma row_pairs_nth:
  "i < length (row_pairs row) \<Longrightarrow> row_pairs row ! i = (row ! (2 * i), if 2 * i + 1 < length row then row ! (2 * i + 1) else row ! (2 * i))"
proof (induction row arbitrary: i rule: row_pairs.induct)
  case (3 a b rest)
  then show ?case by (cases i) simp_all
qed simp_all

lemma length_row_pairs [simp]: "length (row_pairs row) = (length row + 1) div 2"
  by (induction row rule: row_pairs.induct) simp_all

lemma tree_pairs_level:
  "\<forall>k < h. 1 < width (length row) k \<Longrightarrow> tree_pairs H (merkle_level H row h) \<subseteq> tree_pairs H row"
proof (induction h)
  case (Suc h)
  then have "1 < length (merkle_level H row h)" by (simp add: length_level)
  then have "tree_pairs H (merkle_next H (merkle_level H row h)) \<subseteq> tree_pairs H (merkle_level H row h)"
    using tree_pairs_next by blast
  then show ?case using Suc by auto
qed simp

lemma level_pair:
  assumes "\<forall>k \<le> h. 1 < width (length row) k" "pos < width (length row) (Suc h)"
  shows "(merkle_level H row h ! (pos * 2),
      if pos * 2 + 1 < width (length row) h then merkle_level H row h ! (pos * 2 + 1) else merkle_level H row h ! (pos * 2))
    \<in> tree_pairs H row"
proof -
  let ?row = "merkle_level H row h"
  have p: "pos < length (row_pairs ?row)" using assms(2) by (simp add: length_level width_Suc)
  have "row_pairs ?row ! pos \<in> set (row_pairs ?row)" by (rule nth_mem [OF p])
  also have "set (row_pairs ?row) \<subseteq> tree_pairs H ?row" using tree_pairs_next [of ?row H] assms(1) by (simp add: length_level)
  also have "\<dots> \<subseteq> tree_pairs H row" using tree_pairs_level [of h row H] assms(1) by simp
  finally show ?thesis unfolding row_pairs_nth [OF p] length_level mult.commute [of 2 pos] .
qed

text \<open>An extraction that arrives at the hash of a node found only transactions below it, in order.\<close>

definition only_below :: "hash256 list \<Rightarrow> nat \<Rightarrow> nat \<Rightarrow> extraction \<Rightarrow> extraction \<Rightarrow> bool" where
  "only_below row h pos x y \<longleftrightarrow>
     (\<exists>ps. subseq ps (span (length row) h pos) \<and> ex_match y = ex_match x @ map ((!) row) ps)"

lemma below_both:
  assumes "only_below row h (pos * 2) x y" "only_below row h (pos * 2 + 1) y z"
  shows "only_below row (Suc h) pos x z"
proof -
  obtain ps qs where "subseq ps (span (length row) h (pos * 2))" "ex_match y = ex_match x @ map ((!) row) ps"
    "subseq qs (span (length row) h (pos * 2 + 1))" "ex_match z = ex_match y @ map ((!) row) qs"
    using assms by (auto simp: only_below_def)
  then show ?thesis unfolding only_below_def span_Suc by (intro exI [of _ "ps @ qs"]) (simp add: list_emb_append_mono)
qed

lemma pair_inj: "inj_on (\<lambda>(a, b). H a b) P \<Longrightarrow> (a, b) \<in> P \<Longrightarrow> (c, d) \<in> P \<Longrightarrow> H a b = H c d \<Longrightarrow> (a, b) = (c, d)"
  using inj_onD [of "\<lambda>(a, b). H a b" P "(a, b)" "(c, d)"] by simp

lemma extract_sound:
  assumes T: "unat (nTransactions T) = length row" "length row \<le> 2 ^ 16" and P: "inj_on (\<lambda>(a, b). H a b) P" "tree_pairs H row \<subseteq> P"
  shows "h \<le> 16 \<Longrightarrow> \<forall>k < h. 1 < width (length row) k \<Longrightarrow> pos < width (length row) h \<Longrightarrow>
    TraverseAndExtract H T h pos x = (r, y) \<Longrightarrow> \<not> ex_bad y \<Longrightarrow> r = merkle_level H row h ! pos \<Longrightarrow>
    extract_pairs H T h pos x \<subseteq> P \<Longrightarrow> only_below row h pos x y"
proof (induction h arbitrary: pos x r y)
  case 0
  have "length (vBits T) > nBitsUsed x" "length (vHash T) > nHashUsed x"
    using 0(4,5) by (auto simp: TraverseAndExtract.simps [of H T 0] Let_def split: if_split_asm)
  then have "ex_match y = ex_match x \<or> ex_match y = ex_match x @ [r]"
    using 0(4) by (auto simp: TraverseAndExtract.simps [of H T 0] Let_def split: if_split_asm)
  moreover have "subseq [pos] (span (length row) 0 pos)" "subseq [] (span (length row) 0 pos)" using 0(3) by (simp_all add: span_0)
  ultimately show ?case using 0(6) unfolding only_below_def
    by (elim disjE) (rule exI [of _ "[]"], simp, rule exI [of _ "[pos]"], simp)
next
  case (Suc h)
  have w: "unat (CalcTreeWidth (nTransactions T) h) = width (length row) h"
    using CalcTreeWidth_width [of "nTransactions T" h] T Suc(2) by simp
  have l: "pos * 2 < width (length row) h" using Suc(4) by (auto simp: width_Suc)
  let ?x = "x\<lparr>nBitsUsed := nBitsUsed x + 1\<rparr>"
  have bits: "nBitsUsed x < length (vBits T)" using Suc(5,6) by (auto simp: TraverseAndExtract.simps [of H T "Suc h"] split: if_split_asm)
  show ?case
  proof (cases "vBits T ! nBitsUsed x")
    case False
    then have "ex_match y = ex_match x"
      using Suc(5) bits by (auto simp: TraverseAndExtract.simps [of H T "Suc h"] Let_def split: if_split_asm)
    then show ?thesis unfolding only_below_def by (intro exI [of _ "[]"]) simp
  next
    case True
    obtain left y1 where e1: "TraverseAndExtract H T h (pos * 2) ?x = (left, y1)" by fastforce
    obtain right y2 where e2: "TraverseAndExtract H T h (pos * 2 + 1) y1 = (right, y2)" by fastforce
    let ?L = "merkle_level H row h ! (pos * 2)"
    note pair = level_pair [of h row pos H, OF _ Suc(4)]
    show ?thesis
    proof (cases "pos * 2 + 1 < width (length row) h")
      case r: True
      have res: "r = H left right" "y = y2"
        using Suc(5) bits True r w e1 e2 by (simp_all add: TraverseAndExtract.simps [of H T "Suc h"] Let_def)
      have pairs: "(left, right) \<in> P" "extract_pairs H T h (pos * 2) ?x \<subseteq> P" "extract_pairs H T h (pos * 2 + 1) y1 \<subseteq> P"
        using Suc(8) bits True r w e1 e2 by (simp_all add: Let_def)
      have "(?L, merkle_level H row h ! (pos * 2 + 1)) \<in> P" using pair P(2) Suc(3) r by auto
      moreover have "H left right = H ?L (merkle_level H row h ! (pos * 2 + 1))"
        using Suc(7) res(1) level_next [OF Suc(4), of H] r by simp
      ultimately have "(left, right) = (?L, merkle_level H row h ! (pos * 2 + 1))"
        using pair_inj [OF P(1)] pairs(1) by blast
      moreover have "\<not> ex_bad y1" using extract_bad [of y1 H T h "pos * 2 + 1"] e2 res(2) Suc(6) by auto
      ultimately have "only_below row h (pos * 2) ?x y1" "only_below row h (pos * 2 + 1) y1 y2"
        using Suc.IH [OF _ _ l e1] Suc.IH [OF _ _ r e2] Suc(2,3,6) res(2) pairs by simp_all
      then have "only_below row (Suc h) pos ?x y" using below_both res(2) by blast
      then show ?thesis by (simp add: only_below_def)
    next
      case r: False
      have res: "r = H left left" "y = y1"
        using Suc(5) bits True r w e1 by (simp_all add: TraverseAndExtract.simps [of H T "Suc h"] Let_def)
      have pairs: "(left, left) \<in> P" "extract_pairs H T h (pos * 2) ?x \<subseteq> P"
        using Suc(8) bits True r w e1 by (simp_all add: Let_def)
      have "(?L, ?L) \<in> P" using pair P(2) Suc(3) r by auto
      moreover have "H left left = H ?L ?L" using Suc(7) res(1) level_next [OF Suc(4), of H] r by simp
      ultimately have "(left, left) = (?L, ?L)" using pair_inj [OF P(1)] pairs(1) by blast
      then have "only_below row h (pos * 2) ?x y1" using Suc.IH [OF _ _ l e1] Suc(2,3,6) res(2) pairs by simp
      moreover have "only_below row h (pos * 2 + 1) y1 y1"
        unfolding only_below_def by (intro exI [of _ "[]"]) simp
      ultimately have "only_below row (Suc h) pos ?x y" using below_both res(2) by blast
      then show ?thesis by (simp add: only_below_def)
    qed
  qed
qed

section \<open>Properties\<close>

text \<open>C23:
  A partial Merkle tree proves what it was built from: for every list of 1 to 33333 transaction ids and
  every selection of them, the tree that \<open>CPartialMerkleTree\<close> builds, sent with its bits packed in bytes,
  is accepted by \<open>ExtractMatches\<close>, which returns the Merkle root of the block and exactly the selected
  ids in order. No check on the sizes and no padding bit gets in the way.\<close>

theorem partial_tree_roundtrip:
  assumes "txids \<noteq> []" "length txids \<le> 33333" "length vMatch = length txids"
  shows "\<exists>T. ExtractMatches H (transmitted (CPartialMerkleTree_of H txids vMatch)) =
    (MerkleRoot H txids, map fst (filter snd (zip txids vMatch)), T) \<and> \<not> fBad T"
proof -
  define n :: uint32 where "n = of_nat (length txids)"
  have n: "unat n = length txids" using assms(2) by (simp add: n_def unsigned_of_nat take_bit_nat_eq_self)
  have len: "length txids \<le> 2 ^ 16" using assms(2) by simp
  let ?h = "tree_height n 0"
  have h: "?h \<le> 16" "width (length txids) ?h \<le> 1" "\<forall>k < ?h. 1 < width (length txids) k"
    using tree_height_spec [of n 0] n len by simp_all
  have top: "0 < width (length txids) ?h" using width_pos assms(1) by simp
  have le: "length txids \<le> 2 ^ ?h"
  proof -
    have "length txids + 2 ^ ?h - 1 < 2 * 2 ^ ?h"
      using h(2) unfolding width_def by (metis div_less_iff_less_mult less_Suc_eq_le numeral_2_eq_2 One_nat_def zero_less_numeral zero_less_power)
    then show ?thesis by simp
  qed
  obtain B Hs where b: "TraverseAndBuild H n ?h 0 txids vMatch = (B, Hs)" by fastforce
  define T where "T = transmitted (CPartialMerkleTree_of H txids vMatch)"
  have T: "nTransactions T = n" "vHash T = Hs" "vBits T = B @ replicate (8 * ((length B + 7) div 8) - length B) False" "\<not> fBad T"
    using b by (simp_all add: T_def transmitted_def CPartialMerkleTree_of_def Let_def n_def [symmetric] wire_bits)
  have c: "length Hs \<le> length txids" "length Hs \<le> length B"
    using build_counts [OF n len h(1) top b] le by (simp_all add: span_def)
  have "CalcHash H n ?h 0 txids = MerkleRoot H txids"
    using CalcHash_level [OF n len h(1) top, of H] root_level [OF assms(1) h(2,3), of H] by simp
  then have e: "TraverseAndExtract H T ?h 0 \<lparr>ex_bad = fBad T, nBitsUsed = 0, nHashUsed = 0, ex_match = []\<rparr> =
      (MerkleRoot H txids, \<lparr>ex_bad = False, nBitsUsed = length B, nHashUsed = length Hs, ex_match = map fst (filter snd (zip txids vMatch))\<rparr>)"
    using extract_build [OF n len T(1) h(1) top b, of "[]" _ "[]" "[]" "\<lparr>ex_bad = fBad T, nBitsUsed = 0, nHashUsed = 0, ex_match = []\<rparr>"]
      T matched_all [OF assms(3,1) le] by simp
  have "(length (vBits T) + 7) div 8 = (length B + 7) div 8" using T(3) by simp
  moreover have "length B \<le> length (vBits T)" using T(3) by simp
  moreover have "n \<noteq> 0" "\<not> of_nat (MAX_BLOCK_SIZE_CURRENT div 60) < n"
    using assms(1,2) n by (auto simp: word_less_nat_alt MAX_BLOCK_SIZE_CURRENT_def)
  ultimately have "ExtractMatches H T = (MerkleRoot H txids, map fst (filter snd (zip txids vMatch)), T\<lparr>fBad := False\<rparr>)"
    using c T(1,2) n e by (simp add: ExtractMatches_def)
  then show ?thesis by (simp add: T_def)
qed

theorem partial_tree_roundtrip_witness:
  "fst (snd (ExtractMatches demo_hash (transmitted (CPartialMerkleTree_of demo_hash [1, 2, 3] [False, True, True])))) = [2, 3]"
  using partial_tree_roundtrip [of "[1, 2, 3]" "[False, True, True]" demo_hash] by auto

text \<open>C22:
  What an extraction proves: whatever the sender put into the tree, if it claims the right number of
  transactions and \<open>ExtractMatches\<close> returns the Merkle root of the block, the ids it extracted are
  transactions of the block, each at most once and in their order, as long as the hash has no collision
  among the pairs hashed by the block's tree and by the extraction.\<close>

theorem partial_tree_sound:
  assumes n: "unat (nTransactions T) = length txids"
    and root: "fst (ExtractMatches H T) = MerkleRoot H txids" "MerkleRoot H txids \<noteq> 0"
    and inj: "inj_on (\<lambda>(a, b). H a b) (tree_pairs H txids \<union>
      extract_pairs H T (tree_height (nTransactions T) 0) 0 \<lparr>ex_bad = fBad T, nBitsUsed = 0, nHashUsed = 0, ex_match = []\<rparr>)"
  shows "subseq (fst (snd (ExtractMatches H T))) txids"
proof -
  let ?h = "tree_height (nTransactions T) 0" let ?x = "\<lparr>ex_bad = fBad T, nBitsUsed = 0, nHashUsed = 0, ex_match = []\<rparr>"
  obtain r y where e: "TraverseAndExtract H T ?h 0 ?x = (r, y)" by fastforce
  have ok: "nTransactions T \<noteq> 0" "\<not> of_nat (MAX_BLOCK_SIZE_CURRENT div 60) < nTransactions T"
    using root by (auto simp: ExtractMatches_def split: if_split_asm)
  have out: "\<not> ex_bad y" "r = MerkleRoot H txids" "fst (snd (ExtractMatches H T)) = ex_match y"
    using root e by (auto simp: ExtractMatches_def split: if_split_asm)
  have len: "length txids \<le> 2 ^ 16" "txids \<noteq> []"
    using ok n by (auto simp: word_less_nat_alt MAX_BLOCK_SIZE_CURRENT_def unat_eq_0)
  have h: "?h \<le> 16" "width (length txids) ?h \<le> 1" "\<forall>k < ?h. 1 < width (length txids) k"
    using tree_height_spec [of "nTransactions T" 0] n len by simp_all
  have top: "0 < width (length txids) ?h" using width_pos len(2) by simp
  have "r = merkle_level H txids ?h ! 0" using out(2) root_level [OF len(2) h(2,3), of H] by simp
  from extract_sound [OF n len(1) inj _ h(1,3) top e out(1) this]
  have "only_below txids ?h 0 ?x y" by blast
  then obtain ps where ps: "subseq ps (span (length txids) ?h 0)" "ex_match y = map ((!) txids) ps"
    by (auto simp: only_below_def)
  have "subseq (span (length txids) ?h 0) [0..<length txids]"
  proof -
    have "[0..<length txids] = [0..<min (2 ^ ?h) (length txids)] @ [min (2 ^ ?h) (length txids)..<length txids]"
      using upt_add_eq_append [of 0 "min (2 ^ ?h) (length txids)" "length txids - min (2 ^ ?h) (length txids)"] by simp
    then have "prefix (span (length txids) ?h 0) [0..<length txids]" unfolding span_def prefix_def by auto
    then show ?thesis by (rule prefix_imp_subseq)
  qed
  then have "subseq ps [0..<length txids]" using ps(1) subseq_order.trans by blast
  then have "subseq (map ((!) txids) ps) (map ((!) txids) [0..<length txids])" by (rule subseq_map)
  then show ?thesis using ps(2) out(3) by (simp add: map_nth)
qed

definition demo_partial :: CPartialMerkleTree where
  "demo_partial = \<lparr>nTransactions = 3, vBits = [True, True, False, True, False], vHash = [1, 2, 3003], fBad = False\<rparr>"

lemma demo_height: "tree_height 3 0 = 2" "CalcTreeWidth 3 0 = 3" "CalcTreeWidth 3 1 = 2" "CalcTreeWidth 3 (Suc 0) = 2"
  by code_simp+

lemma demo_fields: "nTransactions demo_partial = 3" "vBits demo_partial = [True, True, False, True, False]"
  "vHash demo_partial = [1, 2, 3003]" "fBad demo_partial = False"
  by (simp_all add: demo_partial_def)

lemma demo_extract_leaf:
  "nBitsUsed x = 2 \<Longrightarrow> nHashUsed x = 0 \<Longrightarrow>
   TraverseAndExtract demo_hash demo_partial 0 pos x = (1, x\<lparr>nBitsUsed := 3, nHashUsed := 1\<rparr>)"
  "nBitsUsed x = 3 \<Longrightarrow> nHashUsed x = 1 \<Longrightarrow>
   TraverseAndExtract demo_hash demo_partial 0 pos x = (2, x\<lparr>nBitsUsed := 4, nHashUsed := 2, ex_match := ex_match x @ [2]\<rparr>)"
  by (simp_all add: TraverseAndExtract.simps [of _ _ 0] demo_fields)

lemma demo_extract_inner:
  "nBitsUsed x = 1 \<Longrightarrow> nHashUsed x = 0 \<Longrightarrow> TraverseAndExtract demo_hash demo_partial (Suc 0) 0 x =
     (1002, x\<lparr>nBitsUsed := 4, nHashUsed := 2, ex_match := ex_match x @ [2]\<rparr>)"
  "nBitsUsed x = 4 \<Longrightarrow> nHashUsed x = 2 \<Longrightarrow> TraverseAndExtract demo_hash demo_partial (Suc 0) (Suc 0) x =
     (3003, x\<lparr>nBitsUsed := 5, nHashUsed := 3\<rparr>)"
  by (simp_all add: TraverseAndExtract.simps [of _ _ "Suc 0"] demo_extract_leaf demo_height demo_hash_def demo_fields)

abbreviation (input) extraction_0 :: extraction where
  "extraction_0 \<equiv> \<lparr>ex_bad = False, nBitsUsed = 0, nHashUsed = 0, ex_match = []\<rparr>"

lemma demo_partial_pairs: "extract_pairs demo_hash demo_partial (Suc (Suc 0)) 0 extraction_0 = {(1002, 3003), (1, 2)}"
  by (simp add: demo_extract_inner demo_extract_leaf demo_height demo_fields Let_def)

lemma demo_partial_block: "MerkleRoot demo_hash [1, 2, 3] = 1005003"
  by (simp add: MerkleRoot_def BuildMerkleTree_def merkle_loop.simps demo_hash_def)

lemma demo_block_pairs: "tree_pairs demo_hash [1, 2, 3] = {(1, 2), (3, 3), (1002, 3003)}"
  by (simp add: tree_pairs.simps demo_hash_def) blast

lemma demo_partial_root: "fst (ExtractMatches demo_hash demo_partial) = MerkleRoot demo_hash [1, 2, 3]"
proof -
  have "TraverseAndExtract demo_hash demo_partial 2 0 extraction_0 =
      (1005003, \<lparr>ex_bad = False, nBitsUsed = 5, nHashUsed = 3, ex_match = [2]\<rparr>)"
    by (simp add: TraverseAndExtract.simps [of _ _ 2] demo_extract_inner demo_height demo_hash_def demo_fields)
  then show ?thesis by (simp add: ExtractMatches_def demo_fields demo_height MAX_BLOCK_SIZE_CURRENT_def demo_partial_block)
qed

theorem partial_tree_sound_witness: "subseq (fst (snd (ExtractMatches demo_hash demo_partial))) [1, 2, 3]"
proof (rule partial_tree_sound)
  have "inj_on (\<lambda>(a, b). demo_hash a b) (tree_pairs demo_hash [1, 2, 3] \<union> extract_pairs demo_hash demo_partial (Suc (Suc 0)) 0 extraction_0)"
    unfolding demo_partial_pairs demo_block_pairs by (simp add: inj_on_def demo_hash_def)
  then show "inj_on (\<lambda>(a, b). demo_hash a b) (tree_pairs demo_hash [1, 2, 3] \<union> extract_pairs demo_hash demo_partial
      (tree_height (nTransactions demo_partial) 0) 0 \<lparr>ex_bad = fBad demo_partial, nBitsUsed = 0, nHashUsed = 0, ex_match = []\<rparr>)"
    unfolding demo_fields demo_height numeral_2_eq_2 .
qed (simp_all add: demo_partial_root demo_partial_block demo_fields)

end
