(* ===== verification/Bloom.thy ===== *)
theory Bloom
  imports MerkleBlock "HOL-Library.Monad_Syntax"
begin

text \<open>
  Bloom filters, \<open>src/src/bloom.h\<close> and \<open>bloom.cpp\<close>, with the hash \<open>MurmurHash3\<close> of \<open>src/src/hash.cpp\<close>, and
  \<open>CMerkleBlock\<close>, the answer to a peer that has set one. \<open>None\<close> is a division by zero, an access outside
  the vector or a throw. The constructor with a rate of false positives (floating point) is left out,
  and so is the parsing of a zerocoin spend, which is the parameter \<open>ParseSerial\<close>.
\<close>

section \<open>The hash\<close>

definition ROTL32 :: "uint32 \<Rightarrow> nat \<Rightarrow> uint32" where
  "ROTL32 x r = push_bit r x OR drop_bit (32 - r) x"

definition mix_block :: "uint32 \<Rightarrow> uint32" where
  "mix_block k1 = ROTL32 (k1 * 0xcc9e2d51) 15 * 0x1b873593"

fun murmur_body :: "uint32 \<Rightarrow> bytes \<Rightarrow> uint32" where
  "murmur_body h1 (a # b # c # d # rest) =
     murmur_body (ROTL32 (h1 XOR mix_block (of_nat (le_val [a, b, c, d]))) 13 * 5 + 0xe6546b64) rest"
| "murmur_body h1 [] = h1"
| "murmur_body h1 tail = h1 XOR mix_block (of_nat (le_val tail))"

definition MurmurHash3 :: "uint32 \<Rightarrow> bytes \<Rightarrow> uint32" where
  "MurmurHash3 nHashSeed vDataToHash =
     (let h1 = murmur_body nHashSeed vDataToHash XOR of_nat (length vDataToHash);
          h1 = (h1 XOR drop_bit 16 h1) * 0x85ebca6b;
          h1 = (h1 XOR drop_bit 13 h1) * 0xc2b2ae35
      in h1 XOR drop_bit 16 h1)"

section \<open>The filter\<close>

record CBloomFilter =
  vData :: bytes
  isFull :: bool
  isEmpty :: bool
  nHashFuncs :: uint32
  nTweak :: uint32
  bf_nFlags :: byte

definition MAX_BLOOM_FILTER_SIZE :: nat where "MAX_BLOOM_FILTER_SIZE = 36000"
definition MAX_HASH_FUNCS :: nat where "MAX_HASH_FUNCS = 50"
definition BLOOM_UPDATE_ALL :: byte where "BLOOM_UPDATE_ALL = 1"
definition BLOOM_UPDATE_P2PUBKEY_ONLY :: byte where "BLOOM_UPDATE_P2PUBKEY_ONLY = 2"
definition BLOOM_UPDATE_MASK :: byte where "BLOOM_UPDATE_MASK = 3"

definition CBloomFilter_null :: CBloomFilter where
  "CBloomFilter_null = \<lparr>vData = [], isFull = True, isEmpty = False, nHashFuncs = 0, nTweak = 0, bf_nFlags = 0\<rparr>"

definition bloom_Hash :: "CBloomFilter \<Rightarrow> nat \<Rightarrow> bytes \<Rightarrow> nat option" where
  "bloom_Hash f nHashNum key =
     (if vData f = [] then None
      else Some (unat (MurmurHash3 (of_nat nHashNum * 0xFBA4C795 + nTweak f) key) mod (length (vData f) * 8)))"

definition bloom_bit :: "bytes \<Rightarrow> nat \<Rightarrow> bool" where
  "bloom_bit v nIndex \<longleftrightarrow> bit (v ! (nIndex div 8)) (nIndex mod 8)"

fun insert_loop :: "bytes \<Rightarrow> nat list \<Rightarrow> CBloomFilter \<Rightarrow> CBloomFilter option" where
  "insert_loop key [] f = Some f"
| "insert_loop key (i # is) f =
     (case bloom_Hash f i key of
        None \<Rightarrow> None
      | Some nIndex \<Rightarrow>
          insert_loop key is
            (f\<lparr>vData := (vData f)[nIndex div 8 := vData f ! (nIndex div 8) OR push_bit (nIndex mod 8) 1]\<rparr>))"

definition bloom_insert :: "CBloomFilter \<Rightarrow> bytes \<Rightarrow> CBloomFilter option" where
  "bloom_insert f key =
     (if isFull f then Some f
      else map_option (\<lambda>f. f\<lparr>isEmpty := False\<rparr>) (insert_loop key [0..<unat (nHashFuncs f)] f))"

fun contains_loop :: "CBloomFilter \<Rightarrow> bytes \<Rightarrow> nat list \<Rightarrow> bool option" where
  "contains_loop f key [] = Some True"
| "contains_loop f key (i # is) =
     (case bloom_Hash f i key of
        None \<Rightarrow> None
      | Some nIndex \<Rightarrow> if \<not> bloom_bit (vData f) nIndex then Some False else contains_loop f key is)"

definition bloom_contains :: "CBloomFilter \<Rightarrow> bytes \<Rightarrow> bool option" where
  "bloom_contains f key =
     (if isFull f then Some True else if isEmpty f then Some False else contains_loop f key [0..<unat (nHashFuncs f)])"

text \<open>The bytes of the keys: a hash, and a serialised outpoint.\<close>

definition hash_key :: "hash256 \<Rightarrow> bytes" where
  "hash_key h = le_bytes 32 (unat h)"

definition outpoint_key :: "COutPoint \<Rightarrow> bytes" where
  "outpoint_key out = le_bytes 32 (unat (op_hash out)) @ le_bytes 4 (unat (op_n out))"

definition bloom_clear :: "CBloomFilter \<Rightarrow> CBloomFilter" where
  "bloom_clear f = f\<lparr>vData := replicate (length (vData f)) 0, isFull := False, isEmpty := True\<rparr>"

definition IsWithinSizeConstraints :: "CBloomFilter \<Rightarrow> bool" where
  "IsWithinSizeConstraints f \<longleftrightarrow> length (vData f) \<le> MAX_BLOOM_FILTER_SIZE \<and> unat (nHashFuncs f) \<le> MAX_HASH_FUNCS"

definition MatchesAll :: "CBloomFilter \<Rightarrow> bool" where
  "MatchesAll f \<longleftrightarrow> list_all (\<lambda>b. b = 0xff) (vData f)"

text \<open>The branch for a filter that matches all clears the vector and then writes to its first element.\<close>

definition bloom_Merge :: "CBloomFilter \<Rightarrow> CBloomFilter \<Rightarrow> (bool \<times> CBloomFilter) option" where
  "bloom_Merge f g =
     (if \<not> MatchesAll f \<and> \<not> MatchesAll g then
        (if \<not> (length (vData g) = length (vData f) \<and> nHashFuncs g = nHashFuncs f \<and> nTweak g = nTweak f) then Some (False, f)
         else Some (True, f\<lparr>vData := map2 (OR) (vData f) (vData g)\<rparr>))
      else None)"

definition setNotFull :: "CBloomFilter \<Rightarrow> CBloomFilter" where
  "setNotFull f = f\<lparr>isFull := False\<rparr>"

definition UpdateEmptyFull :: "CBloomFilter \<Rightarrow> CBloomFilter" where
  "UpdateEmptyFull f = f\<lparr>isFull := list_all (\<lambda>b. b = 0xff) (vData f), isEmpty := list_all (\<lambda>b. b = 0) (vData f)\<rparr>"

section \<open>Relevant transactions\<close>

text \<open>The pushed data of an output or an input, one for each operation; a zerocoin script gives its own.\<close>

definition output_data :: "bytes \<Rightarrow> bytes list option" where
  "output_data script =
     (let ops = map snd (fst (script_ops script))
      in if ops \<noteq> [] \<and> IsZerocoinMint script then
           (if length script < 6 then None else Some (map (\<lambda>_. drop 6 script) ops))
         else Some ops)"

definition input_data :: "(bytes \<Rightarrow> bytes option) \<Rightarrow> CTxIn \<Rightarrow> bytes list option" where
  "input_data ParseSerial txin =
     (let ops = map snd (fst (script_ops (scriptSig txin)))
      in if ops \<noteq> [] \<and> CTxIn_IsZerocoinSpend txin then
           (if length (scriptSig txin) < 44 then None
            else map_option (\<lambda>serial. map (\<lambda>_. serial) ops) (ParseSerial (drop 44 (scriptSig txin))))
         else Some ops)"

fun match_data :: "CBloomFilter \<Rightarrow> bytes list \<Rightarrow> bool option" where
  "match_data f [] = Some False"
| "match_data f (d # ds) =
     (if d = [] then match_data f ds
      else case bloom_contains f d of
        None \<Rightarrow> None
      | Some found \<Rightarrow> if found then Some True else match_data f ds)"

definition update_output :: "CBloomFilter \<Rightarrow> bytes \<Rightarrow> COutPoint \<Rightarrow> CBloomFilter option" where
  "update_output f script out =
     (if bf_nFlags f AND BLOOM_UPDATE_MASK = BLOOM_UPDATE_ALL then bloom_insert f (outpoint_key out)
      else if bf_nFlags f AND BLOOM_UPDATE_MASK = BLOOM_UPDATE_P2PUBKEY_ONLY then
        (case Solver script of
           None \<Rightarrow> None
         | Some (ok, typ, vSolutions) \<Rightarrow>
             if ok \<and> (typ = TX_PUBKEY \<or> typ = TX_MULTISIG) then bloom_insert f (outpoint_key out) else Some f)
      else Some f)"

fun outputs_loop :: "hash256 \<Rightarrow> CTxOut list \<Rightarrow> nat \<Rightarrow> bool \<Rightarrow> CBloomFilter \<Rightarrow> (bool \<times> CBloomFilter) option" where
  "outputs_loop h [] i fFound f = Some (fFound, f)"
| "outputs_loop h (out # outs) i fFound f = do {
     ds \<leftarrow> output_data (scriptPubKey out);
     found \<leftarrow> match_data f ds;
     if found then do {
       f \<leftarrow> update_output f (scriptPubKey out) \<lparr>op_hash = h, op_n = of_nat i\<rparr>;
       outputs_loop h outs (Suc i) True f }
     else outputs_loop h outs (Suc i) fFound f }"

fun inputs_loop :: "(bytes \<Rightarrow> bytes option) \<Rightarrow> CBloomFilter \<Rightarrow> CTxIn list \<Rightarrow> bool option" where
  "inputs_loop ParseSerial f [] = Some False"
| "inputs_loop ParseSerial f (txin # ins) = do {
     spent \<leftarrow> bloom_contains f (outpoint_key (prevout txin));
     if spent then Some True
     else do {
       ds \<leftarrow> input_data ParseSerial txin;
       found \<leftarrow> match_data f ds;
       if found then Some True else inputs_loop ParseSerial f ins } }"

definition IsRelevantAndUpdate ::
  "(bytes \<Rightarrow> bytes option) \<Rightarrow> CBloomFilter \<Rightarrow> CTransaction \<Rightarrow> (bool \<times> CBloomFilter) option" where
  "IsRelevantAndUpdate ParseSerial f tx =
     (if isFull f then Some (True, f)
      else if isEmpty f then Some (False, f)
      else do {
        found \<leftarrow> bloom_contains f (hash_key (txid tx));
        (found, f) \<leftarrow> outputs_loop (txid tx) (vout tx) 0 found f;
        if found then Some (True, f)
        else do { found \<leftarrow> inputs_loop ParseSerial f (vin tx); Some (found, f) } })"

section \<open>The answer to a peer\<close>

record CMerkleBlock =
  mb_header :: CBlock
  mb_txn :: CPartialMerkleTree
  vMatchedTxn :: "(nat \<times> hash256) list"

fun match_block :: "(bytes \<Rightarrow> bytes option) \<Rightarrow> CBloomFilter \<Rightarrow> CTransaction list \<Rightarrow> (bool list \<times> CBloomFilter) option" where
  "match_block ParseSerial f [] = Some ([], f)"
| "match_block ParseSerial f (tx # txs) = do {
     (found, f) \<leftarrow> IsRelevantAndUpdate ParseSerial f tx;
     (vMatch, f) \<leftarrow> match_block ParseSerial f txs;
     Some (found # vMatch, f) }"

text \<open>The header is the block without its transactions and signature.\<close>

definition CMerkleBlock_of ::
  "(hash256 \<Rightarrow> hash256 \<Rightarrow> hash256) \<Rightarrow> (bytes \<Rightarrow> bytes option) \<Rightarrow> CBlock \<Rightarrow> CBloomFilter \<Rightarrow> (CMerkleBlock \<times> CBloomFilter) option" where
  "CMerkleBlock_of H ParseSerial block f =
     map_option (\<lambda>(vMatch, f).
       let vHashes = map txid (vtx block)
       in (\<lparr>mb_header = block\<lparr>vtx := [], vchBlockSig := []\<rparr>, mb_txn = CPartialMerkleTree_of H vHashes vMatch,
             vMatchedTxn = map (\<lambda>i. (i, vHashes ! i)) (filter ((!) vMatch) [0..<length vHashes])\<rparr>, f))
       (match_block ParseSerial f (vtx block))"

section \<open>No false negatives\<close>

definition usable_filter :: "CBloomFilter \<Rightarrow> bool" where
  "usable_filter f \<longleftrightarrow> vData f \<noteq> [] \<or> isFull f"

definition index_of :: "CBloomFilter \<Rightarrow> bytes \<Rightarrow> nat \<Rightarrow> nat" where
  "index_of f key i = unat (MurmurHash3 (of_nat i * 0xFBA4C795 + nTweak f) key) mod (length (vData f) * 8)"

lemma bloom_Hash_index: "vData f \<noteq> [] \<Longrightarrow> bloom_Hash f i key = Some (index_of f key i)"
  by (simp add: bloom_Hash_def index_of_def)

lemma index_of_less: "vData f \<noteq> [] \<Longrightarrow> index_of f key i < 8 * length (vData f)"
  by (simp add: index_of_def mult.commute)

lemma contains_loop_spec:
  "vData f \<noteq> [] \<Longrightarrow> contains_loop f key is = Some (\<forall>i \<in> set is. bloom_bit (vData f) (index_of f key i))"
  by (induction "is") (auto simp: bloom_Hash_index)

lemma set_bit_spec:
  assumes "i < 8 * length v"
  shows "bloom_bit (v[i div 8 := v ! (i div 8) OR push_bit (i mod 8) 1]) j \<longleftrightarrow> i = j \<or> bloom_bit v j"
proof -
  have "i div 8 < length v" using assms by (simp add: less_mult_imp_div_less mult.commute)
  moreover have "i = j \<longleftrightarrow> i div 8 = j div 8 \<and> i mod 8 = j mod 8" by (metis div_mult_mod_eq)
  ultimately show ?thesis
    by (auto simp: bloom_bit_def nth_list_update bit_or_iff bit_exp_iff)
qed

lemma insert_loop_spec:
  "vData f \<noteq> [] \<Longrightarrow> \<exists>v. insert_loop key is f = Some (f\<lparr>vData := v\<rparr>) \<and> length v = length (vData f) \<and>
    (\<forall>j. bloom_bit v j \<longleftrightarrow> j \<in> index_of f key ` set is \<or> bloom_bit (vData f) j)"
proof (induction "is" arbitrary: f)
  case Nil
  then show ?case by (auto intro: exI [of _ "vData f"])
next
  case (Cons i "is")
  let ?n = "index_of f key i"
  let ?v = "(vData f)[?n div 8 := vData f ! (?n div 8) OR push_bit (?n mod 8) 1]"
  have idx: "index_of (f\<lparr>vData := ?v\<rparr>) key = index_of f key" by (simp add: fun_eq_iff index_of_def)
  obtain v where v: "insert_loop key is (f\<lparr>vData := ?v\<rparr>) = Some (f\<lparr>vData := v\<rparr>)" "length v = length (vData f)"
    "\<forall>j. bloom_bit v j \<longleftrightarrow> j \<in> index_of f key ` set is \<or> bloom_bit ?v j"
    using Cons.IH [of "f\<lparr>vData := ?v\<rparr>"] Cons.prems idx by auto
  have "\<forall>j. bloom_bit v j \<longleftrightarrow> j \<in> index_of f key ` set (i # is) \<or> bloom_bit (vData f) j"
    using v(3) set_bit_spec [OF index_of_less [OF Cons.prems, of key i]] by auto
  then show ?case using v(1,2) bloom_Hash_index [OF Cons.prems] by auto
qed

text \<open>\<open>grows\<close>: the filter contains what it did, and stays usable with the same flags.\<close>

definition grows :: "CBloomFilter \<Rightarrow> CBloomFilter \<Rightarrow> bool" where
  "grows f f' \<longleftrightarrow> usable_filter f' \<and> bf_nFlags f' = bf_nFlags f \<and> (\<forall>k. bloom_contains f k = Some True \<longrightarrow> bloom_contains f' k = Some True)"

lemma grows_refl: "usable_filter f \<Longrightarrow> grows f f" by (simp add: grows_def)

lemma grows_trans: "grows f g \<Longrightarrow> grows g h \<Longrightarrow> grows f h" by (simp add: grows_def)

lemma contains_total: "usable_filter f \<Longrightarrow> \<exists>r. bloom_contains f key = Some r"
  by (auto simp: usable_filter_def bloom_contains_def contains_loop_spec)

lemma insert_spec:
  assumes "usable_filter f"
  shows "\<exists>f'. bloom_insert f key = Some f' \<and> grows f f' \<and> bloom_contains f' key = Some True"
proof (cases "isFull f")
  case True
  then show ?thesis using grows_refl [OF assms] by (simp add: bloom_insert_def bloom_contains_def)
next
  case False
  then have ne: "vData f \<noteq> []" using assms by (simp add: usable_filter_def)
  obtain v where v: "insert_loop key [0..<unat (nHashFuncs f)] f = Some (f\<lparr>vData := v\<rparr>)" "length v = length (vData f)"
    "\<forall>j. bloom_bit v j \<longleftrightarrow> j \<in> index_of f key ` set [0..<unat (nHashFuncs f)] \<or> bloom_bit (vData f) j"
    using insert_loop_spec [OF ne] by blast
  let ?f = "f\<lparr>vData := v, isEmpty := False\<rparr>"
  have ne': "vData ?f \<noteq> []" using v(2) ne by auto
  have idx: "index_of ?f k = index_of f k" for k using v(2) by (simp add: fun_eq_iff index_of_def)
  have c: "bloom_contains ?f k = Some (\<forall>i \<in> set [0..<unat (nHashFuncs f)]. bloom_bit v (index_of f k i))" for k
    using False contains_loop_spec [OF ne', of k] idx by (simp add: bloom_contains_def)
  have "bloom_contains ?f k = Some True" if "bloom_contains f k = Some True" for k
  proof -
    have "\<forall>i \<in> set [0..<unat (nHashFuncs f)]. bloom_bit (vData f) (index_of f k i)"
      using that False contains_loop_spec [OF ne, of k] by (simp add: bloom_contains_def split: if_split_asm)
    then show ?thesis using c v(3) by simp
  qed
  moreover have "bloom_contains ?f key = Some True" using c v(3) by simp
  ultimately show ?thesis using v(1) False ne' by (simp add: bloom_insert_def grows_def usable_filter_def)
qed

section \<open>Relevance\<close>

definition holds :: "CBloomFilter \<Rightarrow> bytes \<Rightarrow> bool" where
  "holds f key \<longleftrightarrow> bloom_contains f key = Some True"

lemma holds_grows: "grows f f' \<Longrightarrow> holds f k \<Longrightarrow> holds f' k"
  by (simp add: grows_def holds_def)

lemma match_data_spec: "usable_filter f \<Longrightarrow> match_data f ds = Some (\<exists>d \<in> set ds. d \<noteq> [] \<and> holds f d)"
proof (induction ds)
  case (Cons d ds)
  then show ?case using contains_total [OF Cons.prems, of d] by (auto simp: holds_def)
qed simp

definition pushes :: "bytes \<Rightarrow> bytes list" where
  "pushes script = map snd (fst (script_ops script))"

definition hits :: "CBloomFilter \<Rightarrow> bytes \<Rightarrow> bool" where
  "hits f script \<longleftrightarrow> (\<exists>d \<in> set (pushes script). d \<noteq> [] \<and> holds f d)"

lemma hits_grows: "grows f f' \<Longrightarrow> hits f s \<Longrightarrow> hits f' s"
  using holds_grows by (auto simp: hits_def)

lemma update_output_spec:
  assumes "usable_filter f" "\<not> IsZerocoinMint s"
  shows "\<exists>f'. update_output f s out = Some f' \<and> grows f f' \<and>
    (bf_nFlags f AND BLOOM_UPDATE_MASK = BLOOM_UPDATE_ALL \<longrightarrow> holds f' (outpoint_key out))"
proof -
  have "Solver s \<noteq> None" using assms(2) by (simp add: Solver_def del: not_None_eq)
  then show ?thesis
    using insert_spec [OF assms(1), of "outpoint_key out"] grows_refl [OF assms(1)]
    by (auto simp: update_output_def holds_def BLOOM_UPDATE_ALL_def BLOOM_UPDATE_P2PUBKEY_ONLY_def)
qed

lemma outputs_loop_spec:
  assumes "\<forall>out \<in> set outs. \<not> IsZerocoinMint (scriptPubKey out)"
  shows "usable_filter f \<Longrightarrow> \<exists>r f'. outputs_loop h outs i fFound f = Some (r, f') \<and> grows f f' \<and> (fFound \<longrightarrow> r) \<and>
    (\<forall>j < length outs. hits f (scriptPubKey (outs ! j)) \<longrightarrow>
       r \<and> (bf_nFlags f AND BLOOM_UPDATE_MASK = BLOOM_UPDATE_ALL \<longrightarrow> holds f' (outpoint_key \<lparr>op_hash = h, op_n = of_nat (i + j)\<rparr>)))"
  using assms
proof (induction outs arbitrary: i fFound f)
  case Nil
  then show ?case using grows_refl by simp
next
  case (Cons out outs)
  have z: "\<not> IsZerocoinMint (scriptPubKey out)" "\<forall>out \<in> set outs. \<not> IsZerocoinMint (scriptPubKey out)" using Cons.prems(2) by simp_all
  have d: "output_data (scriptPubKey out) = Some (pushes (scriptPubKey out))" using z(1) by (simp add: output_data_def pushes_def Let_def)
  have m: "match_data f (pushes (scriptPubKey out)) = Some (hits f (scriptPubKey out))"
    using match_data_spec [OF Cons.prems(1)] by (simp add: hits_def)
  let ?o = "\<lparr>op_hash = h, op_n = of_nat i\<rparr>"
  obtain g where g: "update_output f (scriptPubKey out) ?o = Some g" "grows f g"
    "bf_nFlags f AND BLOOM_UPDATE_MASK = BLOOM_UPDATE_ALL \<longrightarrow> holds g (outpoint_key ?o)"
    using update_output_spec [OF Cons.prems(1) z(1)] by blast
  define f1 where "f1 = (if hits f (scriptPubKey out) then g else f)"
  define b1 where "b1 = (hits f (scriptPubKey out) \<or> fFound)"
  have f1: "grows f f1" "usable_filter f1" "bf_nFlags f1 = bf_nFlags f"
    using g(2) grows_refl [OF Cons.prems(1)] Cons.prems(1) by (auto simp: f1_def grows_def)
  have step: "outputs_loop h (out # outs) i fFound f = outputs_loop h outs (Suc i) b1 f1"
    using d m g(1) by (simp add: f1_def b1_def)
  obtain r f' where r: "outputs_loop h outs (Suc i) b1 f1 = Some (r, f')" "grows f1 f'" "b1 \<longrightarrow> r"
    "\<forall>j < length outs. hits f1 (scriptPubKey (outs ! j)) \<longrightarrow>
       r \<and> (bf_nFlags f AND BLOOM_UPDATE_MASK = BLOOM_UPDATE_ALL \<longrightarrow> holds f' (outpoint_key \<lparr>op_hash = h, op_n = of_nat (Suc i + j)\<rparr>))"
    using Cons.IH [OF f1(2) z(2), of "Suc i" b1] f1(3) by auto
  have "r \<and> (bf_nFlags f AND BLOOM_UPDATE_MASK = BLOOM_UPDATE_ALL \<longrightarrow> holds f' (outpoint_key \<lparr>op_hash = h, op_n = of_nat (i + j)\<rparr>))"
    if j: "j < length (out # outs)" "hits f (scriptPubKey ((out # outs) ! j))" for j
  proof (cases j)
    case 0
    then have "hits f (scriptPubKey out)" using j(2) by simp
    then have "b1" "f1 = g" by (simp_all add: f1_def b1_def)
    then show ?thesis using 0 r(2,3) g(3) holds_grows by auto
  next
    case (Suc k)
    then have "hits f1 (scriptPubKey (outs ! k))" "k < length outs" using j hits_grows [OF f1(1)] by simp_all
    then show ?thesis using r(4) Suc by auto
  qed
  then show ?case unfolding step r(1) using grows_trans [OF f1(1) r(2)] r(3) by (auto simp: b1_def)
qed

lemma inputs_loop_spec:
  assumes "usable_filter f" "\<forall>txin \<in> set ins. \<not> CTxIn_IsZerocoinSpend txin"
  shows "inputs_loop ParseSerial f ins =
    Some (\<exists>txin \<in> set ins. holds f (outpoint_key (prevout txin)) \<or> hits f (scriptSig txin))"
  using assms(2)
proof (induction ins)
  case (Cons txin ins)
  have d: "input_data ParseSerial txin = Some (pushes (scriptSig txin))" using Cons.prems by (simp add: input_data_def pushes_def Let_def)
  have m: "match_data f (pushes (scriptSig txin)) = Some (hits f (scriptSig txin))"
    using match_data_spec [OF assms(1)] by (simp add: hits_def)
  obtain b where b: "bloom_contains f (outpoint_key (prevout txin)) = Some b" using contains_total [OF assms(1)] by blast
  then show ?case using Cons d m by (auto simp: holds_def)
qed simp

section \<open>Properties\<close>

text \<open>A Bloom filter gives no false negatives and its operations stay in bounds: inserting a key into a filter
  with data, or into a full one, succeeds; afterwards the filter contains the key and everything it
  contained before. \<open>UpdateEmptyFull\<close>, which runs on every filter a peer sends, makes any filter one of
  these, the empty one included, whose hash would divide by zero.\<close>

theorem bloom_no_false_negatives:
  assumes "vData f \<noteq> [] \<or> isFull f"
  shows "(\<exists>f'. bloom_insert f key = Some f' \<and> (vData f' \<noteq> [] \<or> isFull f') \<and> bloom_contains f' key = Some True \<and>
      (\<forall>k. bloom_contains f k = Some True \<longrightarrow> bloom_contains f' k = Some True)) \<and>
    (\<forall>g. vData (UpdateEmptyFull g) \<noteq> [] \<or> isFull (UpdateEmptyFull g))"
proof -
  have "\<exists>f'. bloom_insert f key = Some f' \<and> grows f f' \<and> bloom_contains f' key = Some True"
    using assms by (intro insert_spec) (simp add: usable_filter_def)
  moreover have "vData (UpdateEmptyFull g) \<noteq> [] \<or> isFull (UpdateEmptyFull g)" for g by (auto simp: UpdateEmptyFull_def)
  ultimately show ?thesis by (fastforce simp: grows_def usable_filter_def)
qed

definition demo_filter :: CBloomFilter where
  "demo_filter = \<lparr>vData = [0, 0], isFull = False, isEmpty = True, nHashFuncs = 3, nTweak = 5, bf_nFlags = 1\<rparr>"

theorem bloom_no_false_negatives_witness:
  "\<exists>f'. bloom_insert demo_filter [1, 2, 3, 4, 5] = Some f' \<and> bloom_contains f' [1, 2, 3, 4, 5] = Some True"
  using bloom_no_false_negatives [of demo_filter "[1, 2, 3, 4, 5]"] by (auto simp: demo_filter_def)


definition ones_filter :: CBloomFilter where
  "ones_filter = demo_filter\<lparr>vData := [255, 255], isEmpty := False\<rparr>"

lemma ones_holds: "holds ones_filter k"
proof -
  have ne: "vData ones_filter \<noteq> []" by (simp add: ones_filter_def)
  have "bloom_bit [255, 255] j" if "j < 16" for j
  proof -
    have "j div 8 = 0 \<or> j div 8 = 1" using that by linarith
    then have b: "[255, 255 :: byte] ! (j div 8) = 255" by auto
    have "bit (255 :: byte) k" if "k < 8" for k
      using that bit_mask_iff [of 8 k, where 'a = "8 word"] by (simp add: mask_eq_exp_minus_1)
    then show ?thesis unfolding bloom_bit_def b by simp
  qed
  then have "bloom_bit (vData ones_filter) (index_of ones_filter k i)" for i
    using index_of_less [OF ne, of k i] by (simp add: ones_filter_def)
  then show ?thesis using contains_loop_spec [OF ne]
    by (simp add: holds_def bloom_contains_def) (simp add: ones_filter_def demo_filter_def)
qed


end
