(* ===== verification/Budget.thy ===== *)
theory Budget
  imports BlockCheck Chain MempoolProps "HOL-Library.Signed_Division"
begin

text \<open>
  The masternode budget, \<open>src/src/masternode-budget.h\<close> and \<open>.cpp\<close>: votes, proposals and finalized
  budgets. A C++ \<open>int\<close> is an \<open>int\<close>, wrapped to 32 bits by \<open>wrap32\<close> where a value a peer sends is
  added to; amounts and times wrap to 64 bits. The hashes of objects are functions of the fields the
  code hashes, and the list of masternodes, the signer, the clock and the transaction index are
  fields of \<open>budget_env\<close>. Reasons for a refusal are a \<open>datatype\<close> in place of the strings.
\<close>

section \<open>Text\<close>

text \<open>Decimal output, and the text of a script, which masternodes sign and compare.\<close>

fun dec_digits :: "nat \<Rightarrow> string" where
  "dec_digits n = (if n < 10 then [char_of (48 + n)] else dec_digits (n div 10) @ [char_of (48 + n mod 10)])"

definition to_string :: "int \<Rightarrow> string" where
  "to_string n = (if n < 0 then CHR ''-'' # dec_digits (nat (- n)) else dec_digits (nat n))"

definition hash_ToString :: "hash256 \<Rightarrow> string" where
  "hash_ToString h = bu_GetHex (hash_limbs h)"

definition ToStringShort :: "COutPoint \<Rightarrow> string" where
  "ToStringShort out = take 64 (hash_ToString (op_hash out)) @ ''-'' @ to_string (uint (op_n out))"

definition ValueString :: "bytes \<Rightarrow> string" where
  "ValueString vch = (if length vch \<le> 4 then to_string (getint (set_vch vch)) else concat (map hex_byte vch))"

fun script_tokens :: "(byte \<times> bytes) list \<Rightarrow> bool \<Rightarrow> string list" where
  "script_tokens [] complete = (if complete then [] else [''[error]''])"
| "script_tokens ((opcode, vch) # ops) complete =
     (if opcode \<le> OP_PUSHDATA4 then ValueString vch # script_tokens ops complete
      else GetOpName opcode # (if opcode = OP_ZEROCOINSPEND then [] else script_tokens ops complete))"

fun join_tokens :: "string \<Rightarrow> string list \<Rightarrow> string" where
  "join_tokens sep [] = ''''"
| "join_tokens sep [t] = t"
| "join_tokens sep (t # ts) = t @ sep @ join_tokens sep ts"

definition script_ToString :: "bytes \<Rightarrow> string" where
  "script_ToString s = (case script_ops s of (ops, complete) \<Rightarrow> join_tokens '' '' (script_tokens ops complete))"

section \<open>Data\<close>

definition VOTE_ABSTAIN :: int where "VOTE_ABSTAIN = 0"
definition VOTE_YES :: int where "VOTE_YES = 1"
definition VOTE_NO :: int where "VOTE_NO = 2"
definition PROPOSAL_FEE_TX :: int where "PROPOSAL_FEE_TX = 50 * COIN"
definition BUDGET_FEE_TX :: int where "BUDGET_FEE_TX = 5 * COIN"
definition BUDGET_VOTE_UPDATE_MIN :: int where "BUDGET_VOTE_UPDATE_MIN = 60 * 60"

definition wrap32 :: "int \<Rightarrow> int" where "wrap32 x = signed_take_bit 31 x"

record CBudgetVote =
  bv_fValid :: bool
  bv_fSynced :: bool
  bv_vin :: CTxIn
  bv_nProposalHash :: hash256
  bv_nVote :: int
  bv_nTime :: int
  bv_vchSig :: bytes

record CFinalizedBudgetVote =
  fv_fValid :: bool
  fv_fSynced :: bool
  fv_vin :: CTxIn
  fv_nBudgetHash :: hash256
  fv_nTime :: int
  fv_vchSig :: bytes

record CTxBudgetPayment =
  tp_nProposalHash :: hash256
  tp_payee :: bytes
  tp_nAmount :: int

text \<open>\<open>nAlloted\<close> is \<open>None\<close> until it is set: no constructor initialises it and none copies it.\<close>

record CBudgetProposal =
  bp_nAlloted :: "int option"
  bp_fValid :: bool
  strProposalName :: string
  strURL :: string
  bp_nBlockStart :: int
  bp_nBlockEnd :: int
  bp_nAmount :: int
  bp_address :: bytes
  bp_nTime :: int
  bp_nFeeTXHash :: hash256
  bp_mapVotes :: "(hash256 \<times> CBudgetVote) list"

record CFinalizedBudget =
  fAutoChecked :: bool
  fb_fValid :: bool
  strBudgetName :: string
  fb_nBlockStart :: int
  vecBudgetPayments :: "CTxBudgetPayment list"
  fb_mapVotes :: "(hash256 \<times> CFinalizedBudgetVote) list"
  fb_nFeeTXHash :: hash256
  fb_nTime :: int

text \<open>The copy constructors, which also make the broadcast forms and what is kept of them.\<close>

definition copy_proposal :: "CBudgetProposal \<Rightarrow> CBudgetProposal" where
  "copy_proposal p = p\<lparr>bp_nAlloted := None, bp_fValid := True\<rparr>"

definition copy_finalized :: "CFinalizedBudget \<Rightarrow> CFinalizedBudget" where
  "copy_finalized b = b\<lparr>fb_fValid := True, fAutoChecked := False\<rparr>"

text \<open>The constructor of a broadcast proposal from its number of payments.\<close>

definition CBudgetProposalBroadcast_of ::
  "CChainParams \<Rightarrow> string \<Rightarrow> string \<Rightarrow> int \<Rightarrow> bytes \<Rightarrow> int \<Rightarrow> int \<Rightarrow> hash256 \<Rightarrow> CBudgetProposal" where
  "CBudgetProposalBroadcast_of P name url nPaymentCount addr amount start fee =
     (let nCycleStart = start - start smod nBudgetCycleBlocks P
      in \<lparr>bp_nAlloted = None, bp_fValid = True, strProposalName = name, strURL = url, bp_nBlockStart = start,
          bp_nBlockEnd = wrap32 (nCycleStart + (nBudgetCycleBlocks P + 1) * nPaymentCount), bp_nAmount = amount,
          bp_address = addr, bp_nTime = 0, bp_nFeeTXHash = fee, bp_mapVotes = []\<rparr>)"

definition CFinalizedBudgetBroadcast_of :: "string \<Rightarrow> int \<Rightarrow> CTxBudgetPayment list \<Rightarrow> hash256 \<Rightarrow> CFinalizedBudget" where
  "CFinalizedBudgetBroadcast_of name start payments fee =
     \<lparr>fAutoChecked = False, fb_fValid = True, strBudgetName = name, fb_nBlockStart = start,
      vecBudgetPayments = payments, fb_mapVotes = [], fb_nFeeTXHash = fee, fb_nTime = 0\<rparr>"

section \<open>The environment\<close>

record budget_env =
  bg_params :: CChainParams
  bg_store :: store
  bg_mapBlockIndex :: "hash256 \<Rightarrow> ptr option"
  bg_chain :: cchain
  bg_CountEnabled :: int
  bg_Find :: "COutPoint \<Rightarrow> bytes option"
  bg_VerifyMessage :: "bytes \<Rightarrow> bytes \<Rightarrow> string \<Rightarrow> bool"
  bg_SignMessage :: "string \<Rightarrow> bytes option"
  bg_activeVin :: CTxIn
  bg_GetTransaction :: "hash256 \<Rightarrow> (CTransaction \<times> hash256) option"
  bg_GetIXConfirmations :: "hash256 \<Rightarrow> int"
  bg_MakeCollateral :: "hash256 \<Rightarrow> hash256 option"
  bg_GetTime :: int
  bg_GetAdjustedTime :: int
  bg_IsSynced :: bool
  bg_IsBlockchainSynced :: bool
  bg_assetsRequested :: bool
  bg_fLiteMode :: bool
  bg_fMasterNode :: bool
  bg_strBudgetMode :: string
  bg_peers :: nat
  bg_rand :: "nat \<Rightarrow> nat"
  hash_outpoint :: "COutPoint \<Rightarrow> hash256"
  hash_vote :: "CTxIn \<times> hash256 \<times> int \<times> int \<Rightarrow> hash256"
  hash_fin_vote :: "CTxIn \<times> hash256 \<times> int \<Rightarrow> hash256"
  hash_proposal :: "string \<times> string \<times> int \<times> int \<times> int \<times> bytes \<Rightarrow> hash256"
  hash_finalized :: "string \<times> int \<times> CTxBudgetPayment list \<Rightarrow> hash256"

definition chain_tip :: "cchain \<Rightarrow> ptr option" where
  "chain_tip c = (if c = [] then None else last c)"

lemma Tip_chain_tip: "Tip st c False = Some (chain_tip c)"
  by (simp add: Tip_def chain_tip_def last_conv_nth)

abbreviation bg_tip :: "budget_env \<Rightarrow> ptr option" where "bg_tip E \<equiv> chain_tip (bg_chain E)"

abbreviation cycle_blocks :: "budget_env \<Rightarrow> int" where "cycle_blocks E \<equiv> nBudgetCycleBlocks (bg_params E)"

definition vote_GetHash :: "budget_env \<Rightarrow> CBudgetVote \<Rightarrow> hash256" where
  "vote_GetHash E v = hash_vote E (bv_vin v, bv_nProposalHash v, bv_nVote v, bv_nTime v)"

definition fin_vote_GetHash :: "budget_env \<Rightarrow> CFinalizedBudgetVote \<Rightarrow> hash256" where
  "fin_vote_GetHash E v = hash_fin_vote E (fv_vin v, fv_nBudgetHash v, fv_nTime v)"

definition proposal_GetHash :: "budget_env \<Rightarrow> CBudgetProposal \<Rightarrow> hash256" where
  "proposal_GetHash E p =
     hash_proposal E (strProposalName p, strURL p, bp_nBlockStart p, bp_nBlockEnd p, bp_nAmount p, bp_address p)"

definition finalized_GetHash :: "budget_env \<Rightarrow> CFinalizedBudget \<Rightarrow> hash256" where
  "finalized_GetHash E b = hash_finalized E (strBudgetName b, fb_nBlockStart b, vecBudgetPayments b)"

datatype budget_error =
    CollateralNotFound | CollateralNoOutputs | CollateralLocked | CollateralScript | NoOpReturn | TooFewConfirmations int
  | ActiveRemoval | StartNegative | EndBeforeStart | AmountTooSmall | NoAddress | CollateralInvalid | MultisigAddress
  | PaymentMoreThanMax | ProposalEnded
  | InvalidBlockStart | InvalidBlockEnd | TooManyPayments | NoBudgetName | BlockStartZero | NoFeeTx | PayoutMoreThanMax
  | InvalidCollateral budget_error | Obsolete int
  | VoteOlder | VoteTooSoon | VoteTooFarAhead | NotSynced | NotFound

section \<open>Collateral\<close>

definition collateral_script :: "hash256 \<Rightarrow> bytes" where
  "collateral_script nExpectedHash = push_data [OP_RETURN] (bu_bytes (hash_limbs nExpectedHash))"

fun collateral_loop :: "bytes \<Rightarrow> int \<Rightarrow> CTxOut list \<Rightarrow> bool \<Rightarrow> budget_error + bool" where
  "collateral_loop findScript fee [] foundOpReturn = Inr foundOpReturn"
| "collateral_loop findScript fee (out # outs) foundOpReturn =
     (if \<not> IsNormalPaymentScript (scriptPubKey out) \<and> \<not> IsUnspendable (scriptPubKey out) then Inl CollateralScript
      else collateral_loop findScript fee outs
             (foundOpReturn \<or> (scriptPubKey out = findScript \<and> fee \<le> nValue out)))"

text \<open>Confirmations by instant lock and by the active chain, and the block the transaction is in.\<close>

definition collateral_block :: "budget_env \<Rightarrow> hash256 \<Rightarrow> ptr option" where
  "collateral_block E nBlockHash =
     (if nBlockHash = 0 then None
      else case bg_mapBlockIndex E nBlockHash of
        None \<Rightarrow> None
      | Some pindex \<Rightarrow> if Contains (bg_store E) (bg_chain E) pindex then Some pindex else None)"

definition collateral_conf :: "budget_env \<Rightarrow> hash256 \<Rightarrow> ptr option \<Rightarrow> int" where
  "collateral_conf E nTxCollateralHash pindex =
     bg_GetIXConfirmations E nTxCollateralHash +
       (case pindex of None \<Rightarrow> 0 | Some p \<Rightarrow> Height (bg_chain E) - int (nHeight (bg_store E p)) + 1)"

text \<open>The verdict with \<open>nTime\<close> and \<open>nConf\<close>, which the caller passes by reference; \<open>nConf\<close> starts as 0.\<close>

definition IsBudgetCollateralValid ::
  "budget_env \<Rightarrow> hash256 \<Rightarrow> hash256 \<Rightarrow> int \<Rightarrow> bool \<Rightarrow> (budget_error + unit) \<times> int \<times> int" where
  "IsBudgetCollateralValid E nTxCollateralHash nExpectedHash t fBudgetFinalization =
     (case bg_GetTransaction E nTxCollateralHash of
        None \<Rightarrow> (Inl CollateralNotFound, t, 0)
      | Some (txCollateral, nBlockHash) \<Rightarrow>
          if length (vout txCollateral) < 1 then (Inl CollateralNoOutputs, t, 0)
          else if nLockTime txCollateral \<noteq> 0 then (Inl CollateralLocked, t, 0)
          else
            case collateral_loop (collateral_script nExpectedHash)
                   (if fBudgetFinalization then BUDGET_FEE_TX else PROPOSAL_FEE_TX) (vout txCollateral) False of
              Inl e \<Rightarrow> (Inl e, t, 0)
            | Inr foundOpReturn \<Rightarrow>
                if \<not> foundOpReturn then (Inl NoOpReturn, t, 0)
                else
                  let pindex = collateral_block E nBlockHash;
                      conf = collateral_conf E nTxCollateralHash pindex;
                      t = (case pindex of None \<Rightarrow> t | Some p \<Rightarrow> uint (nTime (bg_store E p)))
                  in if nBudget_Fee_Confirmations (bg_params E) \<le> conf then (Inr (), t, conf)
                     else (Inl (TooFewConfirmations conf), t, conf))"

definition GetTotalBudget :: "budget_env \<Rightarrow> int \<Rightarrow> int" where
  "GetTotalBudget E h =
     (if bg_tip E = None then 0
      else
        let nSubsidy = (if h = 0 then 5000000000 * COIN
                        else if h \<le> nLastPOWBlock (bg_params E) \<and> 0 < h then 50 * COIN
                        else if nLastPOWBlock (bg_params E) < h then 10 * COIN
                        else 0)
        in signed_take_bit 63 (nSubsidy div 100 * 10 * 144 * 30))"

section \<open>Votes\<close>

definition CBudgetVote_of :: "budget_env \<Rightarrow> CTxIn \<Rightarrow> hash256 \<Rightarrow> int \<Rightarrow> CBudgetVote" where
  "CBudgetVote_of E txin h v =
     \<lparr>bv_fValid = True, bv_fSynced = False, bv_vin = txin, bv_nProposalHash = h, bv_nVote = v,
      bv_nTime = bg_GetAdjustedTime E, bv_vchSig = []\<rparr>"

definition CFinalizedBudgetVote_of :: "budget_env \<Rightarrow> CTxIn \<Rightarrow> hash256 \<Rightarrow> CFinalizedBudgetVote" where
  "CFinalizedBudgetVote_of E txin h =
     \<lparr>fv_fValid = True, fv_fSynced = False, fv_vin = txin, fv_nBudgetHash = h,
      fv_nTime = bg_GetAdjustedTime E, fv_vchSig = []\<rparr>"

definition vote_message :: "CBudgetVote \<Rightarrow> string" where
  "vote_message v = ToStringShort (prevout (bv_vin v)) @ hash_ToString (bv_nProposalHash v) @
     to_string (bv_nVote v) @ to_string (bv_nTime v)"

definition fin_vote_message :: "CFinalizedBudgetVote \<Rightarrow> string" where
  "fin_vote_message v = ToStringShort (prevout (fv_vin v)) @ hash_ToString (fv_nBudgetHash v) @ to_string (fv_nTime v)"

text \<open>Signing fails as a whole when the message cannot be signed or the signature does not verify.\<close>

definition vote_Sign :: "budget_env \<Rightarrow> CBudgetVote \<Rightarrow> CBudgetVote option" where
  "vote_Sign E v = map_option (\<lambda>sig. v\<lparr>bv_vchSig := sig\<rparr>) (bg_SignMessage E (vote_message v))"

definition fin_vote_Sign :: "budget_env \<Rightarrow> CFinalizedBudgetVote \<Rightarrow> CFinalizedBudgetVote option" where
  "fin_vote_Sign E v = map_option (\<lambda>sig. v\<lparr>fv_vchSig := sig\<rparr>) (bg_SignMessage E (fin_vote_message v))"

definition vote_SignatureValid :: "budget_env \<Rightarrow> CBudgetVote \<Rightarrow> bool \<Rightarrow> bool" where
  "vote_SignatureValid E v fSignatureCheck =
     (case bg_Find E (prevout (bv_vin v)) of
        None \<Rightarrow> False
      | Some pubKeyMasternode \<Rightarrow>
          if \<not> fSignatureCheck then True else bg_VerifyMessage E pubKeyMasternode (bv_vchSig v) (vote_message v))"

definition fin_vote_SignatureValid :: "budget_env \<Rightarrow> CFinalizedBudgetVote \<Rightarrow> bool \<Rightarrow> bool" where
  "fin_vote_SignatureValid E v fSignatureCheck =
     (case bg_Find E (prevout (fv_vin v)) of
        None \<Rightarrow> False
      | Some pubKeyMasternode \<Rightarrow>
          if \<not> fSignatureCheck then True else bg_VerifyMessage E pubKeyMasternode (fv_vchSig v) (fin_vote_message v))"

section \<open>Proposals\<close>

definition GetYeas :: "CBudgetProposal \<Rightarrow> int" where
  "GetYeas p = int (length (filter (\<lambda>(_, v). bv_nVote v = VOTE_YES \<and> bv_fValid v) (bp_mapVotes p)))"

definition GetNays :: "CBudgetProposal \<Rightarrow> int" where
  "GetNays p = int (length (filter (\<lambda>(_, v). bv_nVote v = VOTE_NO \<and> bv_fValid v) (bp_mapVotes p)))"

definition GetAbstains :: "CBudgetProposal \<Rightarrow> int" where
  "GetAbstains p = int (length (filter (\<lambda>(_, v). bv_nVote v = VOTE_ABSTAIN \<and> bv_fValid v) (bp_mapVotes p)))"

definition GetBlockStartCycle :: "budget_env \<Rightarrow> CBudgetProposal \<Rightarrow> int" where
  "GetBlockStartCycle E p = bp_nBlockStart p - bp_nBlockStart p smod cycle_blocks E"

definition GetBlockEndCycle :: "CBudgetProposal \<Rightarrow> int" where
  "GetBlockEndCycle p = bp_nBlockEnd p"

definition GetBlockCurrentCycle :: "budget_env \<Rightarrow> CBudgetProposal \<Rightarrow> int" where
  "GetBlockCurrentCycle E p =
     (case bg_tip E of
        None \<Rightarrow> -1
      | Some pindexPrev \<Rightarrow>
          let h = int (nHeight (bg_store E pindexPrev))
          in if GetBlockEndCycle p \<le> h then -1 else h - h mod cycle_blocks E)"

definition GetTotalPaymentCount :: "budget_env \<Rightarrow> CBudgetProposal \<Rightarrow> int" where
  "GetTotalPaymentCount E p = wrap32 (GetBlockEndCycle p - GetBlockStartCycle E p) sdiv cycle_blocks E"

definition GetRemainingPaymentCount :: "budget_env \<Rightarrow> CBudgetProposal \<Rightarrow> int" where
  "GetRemainingPaymentCount E p =
     min (wrap32 (GetBlockEndCycle p - GetBlockCurrentCycle E p) sdiv cycle_blocks E - 1) (GetTotalPaymentCount E p)"

text \<open>\<open>IsValid\<close> with the proposal, whose \<open>nTime\<close> the check of the collateral may set.\<close>

definition proposal_ended :: "budget_env \<Rightarrow> CBudgetProposal \<Rightarrow> ptr \<Rightarrow> bool" where
  "proposal_ended E p pindexPrev \<longleftrightarrow>
     wrap32 (bp_nBlockStart p + cycle_blocks E * GetTotalPaymentCount E p) < int (nHeight (bg_store E pindexPrev))"

definition proposal_IsValid :: "budget_env \<Rightarrow> CBudgetProposal \<Rightarrow> bool \<Rightarrow> (budget_error + unit) \<times> CBudgetProposal" where
  "proposal_IsValid E p fCheckCollateral =
     (if bg_CountEnabled E div 10 < GetNays p - GetYeas p then (Inl ActiveRemoval, p)
      else if bp_nBlockStart p < 0 then (Inl StartNegative, p)
      else if bp_nBlockEnd p < bp_nBlockStart p then (Inl EndBeforeStart, p)
      else if bp_nAmount p < 10 * COIN then (Inl AmountTooSmall, p)
      else if bp_address p = [] then (Inl NoAddress, p)
      else
        case (if fCheckCollateral
              then IsBudgetCollateralValid E (bp_nFeeTXHash p) (proposal_GetHash E p) (bp_nTime p) False
              else (Inr (), bp_nTime p, 0)) of
          (res, t, conf) \<Rightarrow>
            let p = p\<lparr>bp_nTime := t\<rparr>
            in case res of
                 Inl e \<Rightarrow> (Inl CollateralInvalid, p)
               | Inr _ \<Rightarrow>
                   if IsPayToScriptHash (bp_address p) then (Inl MultisigAddress, p)
                   else if GetTotalBudget E (bp_nBlockStart p) < bp_nAmount p then (Inl PaymentMoreThanMax, p)
                   else
                     case bg_tip E of
                       None \<Rightarrow> (Inr (), p)
                     | Some pindexPrev \<Rightarrow> if proposal_ended E p pindexPrev then (Inl ProposalEnded, p) else (Inr (), p))"

definition IsEstablished :: "budget_env \<Rightarrow> CBudgetProposal \<Rightarrow> bool" where
  "IsEstablished E p \<longleftrightarrow> bp_nTime p < bg_GetAdjustedTime E - nProposalEstablishmentTime (bg_params E)"

definition IsPassing :: "budget_env \<Rightarrow> CBudgetProposal \<Rightarrow> ptr option \<Rightarrow> int \<Rightarrow> int \<Rightarrow> int \<Rightarrow> bool" where
  "IsPassing E p pindexPrev nBlockStartBudget nBlockEndBudget mnCount =
     (if \<not> bp_fValid p then False
      else if pindexPrev = None then False
      else if nBlockStartBudget < bp_nBlockStart p then False
      else if bp_nBlockEnd p < nBlockEndBudget then False
      else if GetYeas p - GetNays p \<le> mnCount div 10 then False
      else IsEstablished E p)"

text \<open>The vote of a masternode is kept under the hash of its collateral outpoint.\<close>

definition proposal_AddOrUpdateVote ::
  "budget_env \<Rightarrow> CBudgetVote \<Rightarrow> CBudgetProposal \<Rightarrow> (budget_error + unit) \<times> CBudgetProposal" where
  "proposal_AddOrUpdateVote E vote p =
     (let h = hash_outpoint E (prevout (bv_vin vote));
          refused = (case map_of (bp_mapVotes p) h of
            None \<Rightarrow> None
          | Some old \<Rightarrow>
              if bv_nTime vote < bv_nTime old then Some VoteOlder
              else if add64 (bv_nTime vote) (- bv_nTime old) < BUDGET_VOTE_UPDATE_MIN then Some VoteTooSoon
              else None)
      in case refused of
           Some e \<Rightarrow> (Inl e, p)
         | None \<Rightarrow>
             if bg_GetTime E + 60 * 60 < bv_nTime vote then (Inl VoteTooFarAhead, p)
             else (Inr (), p\<lparr>bp_mapVotes := omap_insert (<) h vote (bp_mapVotes p)\<rparr>))"

definition proposal_CleanAndRemove :: "budget_env \<Rightarrow> bool \<Rightarrow> CBudgetProposal \<Rightarrow> CBudgetProposal" where
  "proposal_CleanAndRemove E fSignatureCheck p =
     p\<lparr>bp_mapVotes := map (\<lambda>(h, v). (h, v\<lparr>bv_fValid := vote_SignatureValid E v fSignatureCheck\<rparr>)) (bp_mapVotes p)\<rparr>"

section \<open>Finalized budgets\<close>

definition GetBlockEnd :: "CFinalizedBudget \<Rightarrow> int" where
  "GetBlockEnd b = wrap32 (fb_nBlockStart b + (int (length (vecBudgetPayments b)) - 1))"

definition GetVoteCount :: "CFinalizedBudget \<Rightarrow> int" where
  "GetVoteCount b = int (length (fb_mapVotes b))"

definition GetBudgetPaymentByBlock :: "CFinalizedBudget \<Rightarrow> int \<Rightarrow> CTxBudgetPayment option" where
  "GetBudgetPaymentByBlock b nBlockHeight =
     (let i = wrap32 (nBlockHeight - fb_nBlockStart b)
      in if i < 0 then None
         else if int (length (vecBudgetPayments b)) - 1 < i then None
         else Some (vecBudgetPayments b ! nat i))"

definition GetPayeeAndAmount :: "CFinalizedBudget \<Rightarrow> int \<Rightarrow> (bytes \<times> int) option" where
  "GetPayeeAndAmount b nBlockHeight =
     map_option (\<lambda>payment. (tp_payee payment, tp_nAmount payment)) (GetBudgetPaymentByBlock b nBlockHeight)"

definition GetTotalPayout :: "CFinalizedBudget \<Rightarrow> int" where
  "GetTotalPayout b = foldl add64 0 (map tp_nAmount (vecBudgetPayments b))"

definition finalized_AddOrUpdateVote ::
  "budget_env \<Rightarrow> CFinalizedBudgetVote \<Rightarrow> CFinalizedBudget \<Rightarrow> (budget_error + unit) \<times> CFinalizedBudget" where
  "finalized_AddOrUpdateVote E vote b =
     (let h = hash_outpoint E (prevout (fv_vin vote));
          refused = (case map_of (fb_mapVotes b) h of
            None \<Rightarrow> None
          | Some old \<Rightarrow>
              if fv_nTime vote < fv_nTime old then Some VoteOlder
              else if add64 (fv_nTime vote) (- fv_nTime old) < BUDGET_VOTE_UPDATE_MIN then Some VoteTooSoon
              else None)
      in case refused of
           Some e \<Rightarrow> (Inl e, b)
         | None \<Rightarrow>
             if bg_GetTime E + 60 * 60 < fv_nTime vote then (Inl VoteTooFarAhead, b)
             else (Inr (), b\<lparr>fb_mapVotes := omap_insert (<) h vote (fb_mapVotes b)\<rparr>))"

definition finalized_CleanAndRemove :: "budget_env \<Rightarrow> bool \<Rightarrow> CFinalizedBudget \<Rightarrow> CFinalizedBudget" where
  "finalized_CleanAndRemove E fSignatureCheck b =
     b\<lparr>fb_mapVotes := map (\<lambda>(h, v). (h, v\<lparr>fv_fValid := fin_vote_SignatureValid E v fSignatureCheck\<rparr>)) (fb_mapVotes b)\<rparr>"

definition next_cycle :: "budget_env \<Rightarrow> int \<Rightarrow> int" where
  "next_cycle E h = h - h mod cycle_blocks E + cycle_blocks E"

definition finalized_IsValid :: "budget_env \<Rightarrow> CFinalizedBudget \<Rightarrow> bool \<Rightarrow> (budget_error + unit) \<times> CFinalizedBudget" where
  "finalized_IsValid E b fCheckCollateral =
     (if fb_nBlockStart b smod cycle_blocks E \<noteq> 0 then (Inl InvalidBlockStart, b)
      else if 100 < wrap32 (GetBlockEnd b - fb_nBlockStart b) then (Inl InvalidBlockEnd, b)
      else if 100 < length (vecBudgetPayments b) then (Inl TooManyPayments, b)
      else if strBudgetName b = '''' then (Inl NoBudgetName, b)
      else if fb_nBlockStart b = 0 then (Inl BlockStartZero, b)
      else if fb_nFeeTXHash b = 0 then (Inl NoFeeTx, b)
      else if GetTotalBudget E (fb_nBlockStart b) < GetTotalPayout b then (Inl PayoutMoreThanMax, b)
      else
        case (if fCheckCollateral
              then IsBudgetCollateralValid E (fb_nFeeTXHash b) (finalized_GetHash E b) (fb_nTime b) True
              else (Inr (), fb_nTime b, 0)) of
          (res, t, conf) \<Rightarrow>
            let b = b\<lparr>fb_nTime := t\<rparr>
            in case res of
                 Inl e \<Rightarrow> (Inl (InvalidCollateral e), b)
               | Inr _ \<Rightarrow>
                   if bg_tip E = None then (Inr (), b)
                   else if GetBlockEnd b < next_cycle E (Height (bg_chain E)) - 2 * cycle_blocks E
                   then (Inl (Obsolete (GetBlockEnd b)), b)
                   else (Inr (), b))"

text \<open>
  \<open>IsPaidAlready\<close> works on the global history of payments: it first drops what lies outside this
  budget, then enters the proposal unless it is there.
\<close>

definition IsPaidAlready ::
  "CFinalizedBudget \<Rightarrow> hash256 \<Rightarrow> int \<Rightarrow> (hash256 \<times> int) list \<Rightarrow> bool \<times> (hash256 \<times> int) list" where
  "IsPaidAlready b h nBlockHeight hist =
     (let hist = filter (\<lambda>(_, nPaid). \<not> (nPaid < fb_nBlockStart b \<or> GetBlockEnd b < nPaid)) hist
      in case map_of hist h of
           None \<Rightarrow> (False, omap_insert (<) h nBlockHeight hist)
         | Some _ \<Rightarrow> (True, hist))"

fun payment_loop ::
  "CFinalizedBudget \<Rightarrow> CTxBudgetPayment \<Rightarrow> int \<Rightarrow> CTxOut list \<Rightarrow> TrxValidationStatus \<Rightarrow> (hash256 \<times> int) list \<Rightarrow>
   TrxValidationStatus \<times> (hash256 \<times> int) list" where
  "payment_loop b payment nBlockHeight [] status hist = (status, hist)"
| "payment_loop b payment nBlockHeight (out # outs) status hist =
     (if tp_payee payment = scriptPubKey out \<and> tp_nAmount payment = nValue out then
        (case IsPaidAlready b (tp_nProposalHash payment) nBlockHeight hist of
           (paid, hist) \<Rightarrow>
             if paid then (DoublePayment, hist) else payment_loop b payment nBlockHeight outs Valid hist)
      else payment_loop b payment nBlockHeight outs status hist)"

definition finalized_IsTransactionValid ::
  "CFinalizedBudget \<Rightarrow> CTransaction \<Rightarrow> int \<Rightarrow> (hash256 \<times> int) list \<Rightarrow> TrxValidationStatus \<times> (hash256 \<times> int) list" where
  "finalized_IsTransactionValid b txNew nBlockHeight hist =
     (let nCurrentBudgetPayment = wrap32 (nBlockHeight - fb_nBlockStart b)
      in if nCurrentBudgetPayment < 0 then (InValid, hist)
         else if int (length (vecBudgetPayments b)) - 1 < nCurrentBudgetPayment then (InValid, hist)
         else payment_loop b (vecBudgetPayments b ! nat nCurrentBudgetPayment) nBlockHeight (vout txNew) InValid hist)"

end
