(* ===== verification/BudgetManager.thy ===== *)
theory BudgetManager
  imports Budget
begin

text \<open>
  The manager of the budget, \<open>CBudgetManager\<close> of \<open>src/src/masternode-budget.cpp\<close>: its maps, the choice
  of the proposals of the next cycle, the votes of this node, the rules for a block that pays a
  budget, and the handlers of messages and of new blocks. Maps are association lists in key order. A
  pointer into a map is its key. What the code sends is a list of actions beside the new state.
\<close>

section \<open>State\<close>

record CBudgetManager =
  mapCollateralTxids :: "(hash256 \<times> hash256) list"
  mapProposals :: "(hash256 \<times> CBudgetProposal) list"
  mapFinalizedBudgets :: "(hash256 \<times> CFinalizedBudget) list"
  mapSeenMasternodeBudgetProposals :: "(hash256 \<times> CBudgetProposal) list"
  mapSeenMasternodeBudgetVotes :: "(hash256 \<times> CBudgetVote) list"
  mapOrphanMasternodeBudgetVotes :: "(hash256 \<times> CBudgetVote) list"
  mapSeenFinalizedBudgets :: "(hash256 \<times> CFinalizedBudget) list"
  mapSeenFinalizedBudgetVotes :: "(hash256 \<times> CFinalizedBudgetVote) list"
  mapOrphanFinalizedBudgetVotes :: "(hash256 \<times> CFinalizedBudgetVote) list"
  askedForSourceProposalOrBudget :: "(hash256 \<times> int) list"
  vecImmatureBudgetProposals :: "CBudgetProposal list"
  vecImmatureFinalizedBudgets :: "CFinalizedBudget list"
  mapPayment_History :: "(hash256 \<times> int) list"
  nSubmittedHeight :: int
  nDraws :: nat

definition empty_manager :: CBudgetManager where
  "empty_manager =
     \<lparr>mapCollateralTxids = [], mapProposals = [], mapFinalizedBudgets = [], mapSeenMasternodeBudgetProposals = [],
      mapSeenMasternodeBudgetVotes = [], mapOrphanMasternodeBudgetVotes = [], mapSeenFinalizedBudgets = [],
      mapSeenFinalizedBudgetVotes = [], mapOrphanFinalizedBudgetVotes = [], askedForSourceProposalOrBudget = [],
      vecImmatureBudgetProposals = [], vecImmatureFinalizedBudgets = [], mapPayment_History = [], nSubmittedHeight = 0,
      nDraws = 0\<rparr>"

datatype budget_inv = MSG_BUDGET_PROPOSAL | MSG_BUDGET_VOTE | MSG_BUDGET_FINALIZED | MSG_BUDGET_FINALIZED_VOTE

datatype sync_item = MASTERNODE_SYNC_BUDGET_PROP | MASTERNODE_SYNC_BUDGET_FIN

datatype budget_action =
    RelayInv budget_inv hash256
  | PushInventory budget_inv hash256
  | PushSyncCount sync_item int
  | AskSource hash256
  | AskForMN COutPoint
  | Misbehaving int
  | AddedBudgetItem hash256

text \<open>\<open>insert\<close> of a map keeps what is there, \<open>operator[]\<close> with an assignment replaces it.\<close>

definition omap_insert_new :: "hash256 \<Rightarrow> 'v \<Rightarrow> (hash256 \<times> 'v) list \<Rightarrow> (hash256 \<times> 'v) list" where
  "omap_insert_new k v m = (if map_of m k = None then omap_insert (<) k v m else m)"

definition map_vals :: "('v \<Rightarrow> 'w) \<Rightarrow> ('k \<times> 'v) list \<Rightarrow> ('k \<times> 'w) list" where
  "map_vals f m = map (\<lambda>(k, v). (k, f v)) m"

definition ClearSeen :: "CBudgetManager \<Rightarrow> CBudgetManager" where
  "ClearSeen M = M\<lparr>mapSeenMasternodeBudgetProposals := [], mapSeenMasternodeBudgetVotes := [],
     mapSeenFinalizedBudgets := [], mapSeenFinalizedBudgetVotes := []\<rparr>"

definition budget_Clear :: "CBudgetManager \<Rightarrow> CBudgetManager" where
  "budget_Clear M = M\<lparr>mapProposals := [], mapFinalizedBudgets := [], mapSeenMasternodeBudgetProposals := [],
     mapSeenMasternodeBudgetVotes := [], mapSeenFinalizedBudgets := [], mapSeenFinalizedBudgetVotes := [],
     mapOrphanMasternodeBudgetVotes := [], mapOrphanFinalizedBudgetVotes := []\<rparr>"

definition PropExists :: "CBudgetManager \<Rightarrow> hash256 \<Rightarrow> bool" where
  "PropExists M h \<longleftrightarrow> map_of (mapProposals M) h \<noteq> None"

definition FindProposal :: "CBudgetManager \<Rightarrow> hash256 \<Rightarrow> CBudgetProposal option" where
  "FindProposal M h = map_of (mapProposals M) h"

definition FindFinalizedBudget :: "CBudgetManager \<Rightarrow> hash256 \<Rightarrow> CFinalizedBudget option" where
  "FindFinalizedBudget M h = map_of (mapFinalizedBudgets M) h"

text \<open>The proposal of a name with the most valid yes votes, the first of them.\<close>

fun best_named :: "string \<Rightarrow> (hash256 \<times> CBudgetProposal) list \<Rightarrow> int \<Rightarrow> hash256 option \<Rightarrow> hash256 option" where
  "best_named name [] nYesCount best = best"
| "best_named name ((h, p) # m) nYesCount best =
     (if strProposalName p = name \<and> nYesCount < GetYeas p then best_named name m (GetYeas p) (Some h)
      else best_named name m nYesCount best)"

definition FindProposal_by_name :: "CBudgetManager \<Rightarrow> string \<Rightarrow> hash256 option" where
  "FindProposal_by_name M name = best_named name (mapProposals M) (-99999) None"

section \<open>Adding\<close>

definition AddProposal :: "budget_env \<Rightarrow> CBudgetProposal \<Rightarrow> CBudgetManager \<Rightarrow> bool \<times> CBudgetManager" where
  "AddProposal E p M =
     (case proposal_IsValid E p True of
        (Inl e, p) \<Rightarrow> (False, M)
      | (Inr _, p) \<Rightarrow>
          if map_of (mapProposals M) (proposal_GetHash E p) \<noteq> None then (False, M)
          else (True, M\<lparr>mapProposals := omap_insert (<) (proposal_GetHash E p) (copy_proposal p) (mapProposals M)\<rparr>))"

definition AddFinalizedBudget :: "budget_env \<Rightarrow> CFinalizedBudget \<Rightarrow> CBudgetManager \<Rightarrow> bool \<times> CBudgetManager" where
  "AddFinalizedBudget E b M =
     (case finalized_IsValid E b True of
        (Inl e, b) \<Rightarrow> (False, M)
      | (Inr _, b) \<Rightarrow>
          if map_of (mapFinalizedBudgets M) (finalized_GetHash E b) \<noteq> None then (False, M)
          else (True, M\<lparr>mapFinalizedBudgets :=
                          omap_insert (<) (finalized_GetHash E b) (copy_finalized b) (mapFinalizedBudgets M)\<rparr>))"

section \<open>Votes\<close>

text \<open>
  \<open>fromPeer\<close> tells whether the vote came with a node. A vote for an unknown object waits under the
  hash of that object, and its source is asked for once.
\<close>

definition ask_source :: "budget_env \<Rightarrow> hash256 \<Rightarrow> CBudgetManager \<Rightarrow> CBudgetManager \<times> budget_action list" where
  "ask_source E h M =
     (if map_of (askedForSourceProposalOrBudget M) h = None
      then (M\<lparr>askedForSourceProposalOrBudget := omap_insert (<) h (bg_GetTime E) (askedForSourceProposalOrBudget M)\<rparr>,
            [AskSource h])
      else (M, []))"

definition UpdateProposal ::
  "budget_env \<Rightarrow> CBudgetVote \<Rightarrow> bool \<Rightarrow> CBudgetManager \<Rightarrow> (budget_error + unit) \<times> CBudgetManager \<times> budget_action list" where
  "UpdateProposal E vote fromPeer M =
     (case map_of (mapProposals M) (bv_nProposalHash vote) of
        None \<Rightarrow>
          if fromPeer then
            (if \<not> bg_IsSynced E then (Inl NotSynced, M, [])
             else (Inl NotFound, ask_source E (bv_nProposalHash vote)
                     (M\<lparr>mapOrphanMasternodeBudgetVotes :=
                          omap_insert (<) (bv_nProposalHash vote) vote (mapOrphanMasternodeBudgetVotes M)\<rparr>)))
          else (Inl NotFound, M, [])
      | Some p \<Rightarrow>
          (case proposal_AddOrUpdateVote E vote p of
             (res, p) \<Rightarrow> (res, M\<lparr>mapProposals := omap_insert (<) (bv_nProposalHash vote) p (mapProposals M)\<rparr>, [])))"

definition UpdateFinalizedBudget ::
  "budget_env \<Rightarrow> CFinalizedBudgetVote \<Rightarrow> bool \<Rightarrow> CBudgetManager \<Rightarrow>
   (budget_error + unit) \<times> CBudgetManager \<times> budget_action list" where
  "UpdateFinalizedBudget E vote fromPeer M =
     (case map_of (mapFinalizedBudgets M) (fv_nBudgetHash vote) of
        None \<Rightarrow>
          if fromPeer then
            (if \<not> bg_IsSynced E then (Inl NotSynced, M, [])
             else (Inl NotFound, ask_source E (fv_nBudgetHash vote)
                     (M\<lparr>mapOrphanFinalizedBudgetVotes :=
                          omap_insert (<) (fv_nBudgetHash vote) vote (mapOrphanFinalizedBudgetVotes M)\<rparr>)))
          else (Inl NotFound, M, [])
      | Some b \<Rightarrow>
          (case finalized_AddOrUpdateVote E vote b of
             (res, b) \<Rightarrow> (res, M\<lparr>mapFinalizedBudgets := omap_insert (<) (fv_nBudgetHash vote) b (mapFinalizedBudgets M)\<rparr>, [])))"

fun orphan_votes_loop :: "budget_env \<Rightarrow> (hash256 \<times> CBudgetVote) list \<Rightarrow> CBudgetManager \<Rightarrow> CBudgetManager" where
  "orphan_votes_loop E [] M = M"
| "orphan_votes_loop E ((h, vote) # rest) M =
     (case UpdateProposal E vote False M of
        (Inr _, M, _) \<Rightarrow>
          orphan_votes_loop E rest (M\<lparr>mapOrphanMasternodeBudgetVotes := omap_erase h (mapOrphanMasternodeBudgetVotes M)\<rparr>)
      | (Inl _, M, _) \<Rightarrow> orphan_votes_loop E rest M)"

fun orphan_fin_votes_loop :: "budget_env \<Rightarrow> (hash256 \<times> CFinalizedBudgetVote) list \<Rightarrow> CBudgetManager \<Rightarrow> CBudgetManager" where
  "orphan_fin_votes_loop E [] M = M"
| "orphan_fin_votes_loop E ((h, vote) # rest) M =
     (case UpdateFinalizedBudget E vote False M of
        (Inr _, M, _) \<Rightarrow>
          orphan_fin_votes_loop E rest (M\<lparr>mapOrphanFinalizedBudgetVotes := omap_erase h (mapOrphanFinalizedBudgetVotes M)\<rparr>)
      | (Inl _, M, _) \<Rightarrow> orphan_fin_votes_loop E rest M)"

definition CheckOrphanVotes :: "budget_env \<Rightarrow> CBudgetManager \<Rightarrow> CBudgetManager" where
  "CheckOrphanVotes E M =
     (let M = orphan_votes_loop E (mapOrphanMasternodeBudgetVotes M) M
      in orphan_fin_votes_loop E (mapOrphanFinalizedBudgetVotes M) M)"

section \<open>Blocks that pay a budget\<close>

abbreviation in_budget :: "CFinalizedBudget \<Rightarrow> int \<Rightarrow> bool" where
  "in_budget b h \<equiv> fb_nBlockStart b \<le> h \<and> h \<le> GetBlockEnd b"

fun highest_count :: "(hash256 \<times> CFinalizedBudget) list \<Rightarrow> int \<Rightarrow> int \<Rightarrow> int" where
  "highest_count [] nBlockHeight nHighestCount = nHighestCount"
| "highest_count ((h, b) # m) nBlockHeight nHighestCount =
     highest_count m nBlockHeight
       (if nHighestCount < GetVoteCount b \<and> in_budget b nBlockHeight then GetVoteCount b else nHighestCount)"

definition budget_IsBudgetPaymentBlock :: "budget_env \<Rightarrow> CBudgetManager \<Rightarrow> int \<Rightarrow> bool" where
  "budget_IsBudgetPaymentBlock E M nBlockHeight \<longleftrightarrow>
     bg_CountEnabled E div 20 < highest_count (mapFinalizedBudgets M) nBlockHeight (-1)"

fun check_budgets ::
  "CTransaction \<Rightarrow> int \<Rightarrow> int \<Rightarrow> (hash256 \<times> CFinalizedBudget) list \<Rightarrow> TrxValidationStatus \<Rightarrow> bool \<Rightarrow>
   (hash256 \<times> int) list \<Rightarrow> TrxValidationStatus \<times> (hash256 \<times> int) list" where
  "check_budgets txNew nBlockHeight nCountThreshold [] status fThreshold hist =
     (if fThreshold then status else VoteThreshold, hist)"
| "check_budgets txNew nBlockHeight nCountThreshold ((h, b) # m) status fThreshold hist =
     (if nCountThreshold < GetVoteCount b then
        (if in_budget b nBlockHeight then
           (case finalized_IsTransactionValid b txNew nBlockHeight hist of
              (s, hist) \<Rightarrow>
                if s = Valid then (Valid, hist)
                else check_budgets txNew nBlockHeight nCountThreshold m s True hist)
         else check_budgets txNew nBlockHeight nCountThreshold m status True hist)
      else check_budgets txNew nBlockHeight nCountThreshold m status fThreshold hist)"

definition manager_IsTransactionValid ::
  "budget_env \<Rightarrow> CTransaction \<Rightarrow> int \<Rightarrow> CBudgetManager \<Rightarrow> TrxValidationStatus \<times> CBudgetManager" where
  "manager_IsTransactionValid E txNew nBlockHeight M =
     (let nHighestCount = highest_count (mapFinalizedBudgets M) nBlockHeight 0
      in if nHighestCount < bg_CountEnabled E div 20 then (InValid, M)
         else
           case check_budgets txNew nBlockHeight (nHighestCount - bg_CountEnabled E div 10) (mapFinalizedBudgets M)
                  InValid False (mapPayment_History M) of
             (status, hist) \<Rightarrow> (status, M\<lparr>mapPayment_History := hist\<rparr>))"

fun highest_payee ::
  "(hash256 \<times> CFinalizedBudget) list \<Rightarrow> int \<Rightarrow> int \<Rightarrow> bytes \<times> int \<Rightarrow> int \<times> bytes \<times> int" where
  "highest_payee [] nBlockHeight nHighestCount pay = (nHighestCount, pay)"
| "highest_payee ((h, b) # m) nBlockHeight nHighestCount pay =
     (if nHighestCount < GetVoteCount b \<and> in_budget b nBlockHeight then
        (case GetPayeeAndAmount b nBlockHeight of
           None \<Rightarrow> highest_payee m nBlockHeight nHighestCount pay
         | Some pay \<Rightarrow> highest_payee m nBlockHeight (GetVoteCount b) pay)
      else highest_payee m nBlockHeight nHighestCount pay)"

text \<open>\<open>None\<close> is the access to the first output of a transaction that has none.\<close>

definition budget_FillBlockPayee :: "budget_env \<Rightarrow> CBudgetManager \<Rightarrow> CTransaction \<Rightarrow> bool \<Rightarrow> CTransaction option" where
  "budget_FillBlockPayee E M txNew fProofOfStake =
     (case bg_tip E of
        None \<Rightarrow> Some txNew
      | Some pindexPrev \<Rightarrow>
          let h = int (nHeight (bg_store E pindexPrev))
          in case highest_payee (mapFinalizedBudgets M) (h + 1) 0 ([], 0) of
               (nHighestCount, payee, nAmount) \<Rightarrow>
                 if fProofOfStake then
                   (if 0 < nHighestCount
                    then Some (txNew\<lparr>vout := vout txNew @ [CTxOut_null\<lparr>scriptPubKey := payee, nValue := nAmount\<rparr>]\<rparr>)
                    else Some txNew)
                 else
                   case vout txNew of
                     [] \<Rightarrow> None
                   | out # outs \<Rightarrow>
                       let out = out\<lparr>nValue := GetBlockValue (bg_params E) h False\<rparr>
                       in if 0 < nHighestCount
                          then Some (txNew\<lparr>vout := [out, (case outs of [] \<Rightarrow> CTxOut_null | second # _ \<Rightarrow> second)
                                                         \<lparr>scriptPubKey := payee, nValue := nAmount\<rparr>]\<rparr>)
                          else Some (txNew\<lparr>vout := out # outs\<rparr>))"

section \<open>The proposals of the next cycle\<close>

primrec insort_by :: "('a \<Rightarrow> 'a \<Rightarrow> bool) \<Rightarrow> 'a \<Rightarrow> 'a list \<Rightarrow> 'a list" where
  "insort_by lt x [] = [x]"
| "insort_by lt x (y # ys) = (if lt y x then y # insort_by lt x ys else x # y # ys)"

text \<open>
  \<open>std::sort\<close> by a strict order. It may leave equal elements in any order; this one keeps theirs.
\<close>

definition sort_by :: "('a \<Rightarrow> 'a \<Rightarrow> bool) \<Rightarrow> 'a list \<Rightarrow> 'a list" where
  "sort_by lt xs = foldr (insort_by lt) xs []"

definition GetAllProposals :: "budget_env \<Rightarrow> CBudgetManager \<Rightarrow> hash256 list \<times> CBudgetManager" where
  "GetAllProposals E M =
     (map fst (mapProposals M), M\<lparr>mapProposals := map_vals (proposal_CleanAndRemove E False) (mapProposals M)\<rparr>)"

text \<open>More votes first, then the greater hash of the fee transaction.\<close>

definition sortProposalsByVotes :: "hash256 \<times> CBudgetProposal \<Rightarrow> hash256 \<times> CBudgetProposal \<Rightarrow> bool" where
  "sortProposalsByVotes l r =
     (let lv = GetYeas (snd l) - GetNays (snd l); rv = GetYeas (snd r) - GetNays (snd r)
      in if lv \<noteq> rv then rv < lv else bp_nFeeTXHash (snd r) < bp_nFeeTXHash (snd l))"

fun allot_loop ::
  "budget_env \<Rightarrow> int \<Rightarrow> int \<Rightarrow> (hash256 \<times> CBudgetProposal) list \<Rightarrow> int \<Rightarrow> (hash256 \<times> CBudgetProposal) list \<Rightarrow>
   hash256 list \<times> (hash256 \<times> CBudgetProposal) list" where
  "allot_loop E nBlockStart nTotalBudget [] nBudgetAllocated props = ([], props)"
| "allot_loop E nBlockStart nTotalBudget ((h, p) # rest) nBudgetAllocated props =
     (if IsPassing E p (bg_tip E) nBlockStart (nBlockStart + cycle_blocks E - 1) (bg_CountEnabled E) then
        (if add64 (bp_nAmount p) nBudgetAllocated \<le> nTotalBudget then
           (case allot_loop E nBlockStart nTotalBudget rest (add64 nBudgetAllocated (bp_nAmount p))
                   (omap_insert (<) h (p\<lparr>bp_nAlloted := Some (bp_nAmount p)\<rparr>) props) of
              (ret, props) \<Rightarrow> (h # ret, props))
         else allot_loop E nBlockStart nTotalBudget rest nBudgetAllocated
                (omap_insert (<) h (p\<lparr>bp_nAlloted := Some 0\<rparr>) props))
      else allot_loop E nBlockStart nTotalBudget rest nBudgetAllocated props)"

definition GetBudget :: "budget_env \<Rightarrow> CBudgetManager \<Rightarrow> hash256 list \<times> CBudgetManager" where
  "GetBudget E M =
     (let props = map_vals (proposal_CleanAndRemove E False) (mapProposals M)
      in case bg_tip E of
           None \<Rightarrow> ([], M\<lparr>mapProposals := props\<rparr>)
         | Some pindexPrev \<Rightarrow>
             let nBlockStart = next_cycle E (int (nHeight (bg_store E pindexPrev)))
             in case allot_loop E nBlockStart (GetTotalBudget E nBlockStart) (sort_by sortProposalsByVotes props) 0 props of
                  (ret, props) \<Rightarrow> (ret, M\<lparr>mapProposals := props\<rparr>))"

definition sortFinalizedBudgetsByVotes :: "hash256 \<times> CFinalizedBudget \<Rightarrow> hash256 \<times> CFinalizedBudget \<Rightarrow> bool" where
  "sortFinalizedBudgetsByVotes l r =
     (if GetVoteCount (snd l) \<noteq> GetVoteCount (snd r) then GetVoteCount (snd r) < GetVoteCount (snd l)
      else fb_nFeeTXHash (snd r) < fb_nFeeTXHash (snd l))"

definition GetFinalizedBudgets :: "CBudgetManager \<Rightarrow> hash256 list" where
  "GetFinalizedBudgets M = map fst (sort_by sortFinalizedBudgetsByVotes (mapFinalizedBudgets M))"

definition add_token :: "string \<Rightarrow> string \<Rightarrow> string" where
  "add_token ret token = (if ret = '''' then token else ret @ '','' @ token)"

definition GetRequiredPaymentsString :: "CBudgetManager \<Rightarrow> int \<Rightarrow> string" where
  "GetRequiredPaymentsString M nBlockHeight =
     fold (\<lambda>(h, b) ret.
       if in_budget b nBlockHeight then
         (case GetBudgetPaymentByBlock b nBlockHeight of
            None \<Rightarrow> ret
          | Some payment \<Rightarrow>
              if ret = ''unknown-budget'' then hash_ToString (tp_nProposalHash payment)
              else ret @ '','' @ hash_ToString (tp_nProposalHash payment))
       else ret) (mapFinalizedBudgets M) ''unknown-budget''"

definition GetProposals :: "CBudgetManager \<Rightarrow> CFinalizedBudget \<Rightarrow> string" where
  "GetProposals M b =
     fold (\<lambda>payment ret.
       add_token ret (case FindProposal M (tp_nProposalHash payment) of
           Some p \<Rightarrow> strProposalName p
         | None \<Rightarrow> hash_ToString (tp_nProposalHash payment))) (vecBudgetPayments b) ''''"

definition status_step :: "CBudgetManager \<Rightarrow> CFinalizedBudget \<Rightarrow> int \<Rightarrow> string \<times> string \<Rightarrow> string \<times> string" where
  "status_step M b nBlockHeight r =
     (case r of (retBadHashes, retBadPayeeOrAmount) \<Rightarrow>
        case GetBudgetPaymentByBlock b nBlockHeight of
          None \<Rightarrow> (retBadHashes, retBadPayeeOrAmount)
        | Some payment \<Rightarrow>
            let token = hash_ToString (tp_nProposalHash payment)
            in case FindProposal M (tp_nProposalHash payment) of
                 None \<Rightarrow>
                   (if retBadHashes = '''' then ''Unknown proposal hash! Check this proposal before voting: '' @ token
                    else retBadHashes @ '','' @ token, retBadPayeeOrAmount)
               | Some p \<Rightarrow>
                   if bp_address p \<noteq> tp_payee payment \<or> bp_nAmount p \<noteq> tp_nAmount payment then
                     (retBadHashes,
                      if retBadPayeeOrAmount = '''' then ''Budget payee/nAmount doesn'' @ [char_of (39 :: nat)] @ ''t match our proposal! '' @ token
                      else retBadPayeeOrAmount @ '','' @ token)
                   else (retBadHashes, retBadPayeeOrAmount))"

definition GetStatus :: "CBudgetManager \<Rightarrow> CFinalizedBudget \<Rightarrow> string" where
  "GetStatus M b =
     (case fold (status_step M b) [fb_nBlockStart b..GetBlockEnd b] ('''', '''') of
        (retBadHashes, retBadPayeeOrAmount) \<Rightarrow>
          if retBadHashes = '''' \<and> retBadPayeeOrAmount = '''' then ''OK'' else retBadHashes @ retBadPayeeOrAmount)"

section \<open>The votes of this node\<close>

definition SubmitVote :: "budget_env \<Rightarrow> CFinalizedBudget \<Rightarrow> CBudgetManager \<Rightarrow> CBudgetManager \<times> budget_action list" where
  "SubmitVote E b M =
     (case fin_vote_Sign E (CFinalizedBudgetVote_of E (bg_activeVin E) (finalized_GetHash E b)) of
        None \<Rightarrow> (M, [])
      | Some vote \<Rightarrow>
          (case UpdateFinalizedBudget E vote False M of
             (Inr _, M, acts) \<Rightarrow>
               (M\<lparr>mapSeenFinalizedBudgetVotes := omap_insert_new (fin_vote_GetHash E vote) vote (mapSeenFinalizedBudgetVotes M)\<rparr>,
                acts @ [RelayInv MSG_BUDGET_FINALIZED_VOTE (fin_vote_GetHash E vote)])
           | (Inl _, M, acts) \<Rightarrow> (M, acts)))"

text \<open>The comparison of the payments with the proposals of \<open>GetBudget\<close>, both sorted by hash.\<close>

definition payments_match :: "budget_env \<Rightarrow> CTxBudgetPayment list \<Rightarrow> CBudgetProposal list \<Rightarrow> bool" where
  "payments_match E payments proposals \<longleftrightarrow>
     (let props = sort_by (\<lambda>l r. proposal_GetHash E l < proposal_GetHash E r) proposals;
          pays = sort_by (\<lambda>l r. tp_nProposalHash l < tp_nProposalHash r) payments
      in length props \<noteq> 0 \<and> length props = length pays \<and>
         list_all (\<lambda>(pay, p). tp_nProposalHash pay = proposal_GetHash E p \<and>
           script_ToString (tp_payee pay) = script_ToString (bp_address p) \<and> tp_nAmount pay = bp_nAmount p)
           (zip pays props))"

definition proposals_at :: "CBudgetManager \<Rightarrow> hash256 list \<Rightarrow> CBudgetProposal list" where
  "proposals_at M hs = List.map_filter (map_of (mapProposals M)) hs"

definition CheckAndVote :: "budget_env \<Rightarrow> hash256 \<Rightarrow> CBudgetManager \<Rightarrow> CBudgetManager \<times> budget_action list" where
  "CheckAndVote E h M =
     (case map_of (mapFinalizedBudgets M) h of
        None \<Rightarrow> (M, [])
      | Some b \<Rightarrow>
          if bg_tip E = None then (M, [])
          else if \<not> bg_fMasterNode E \<or> fAutoChecked b then (M, [])
          else
            let draw = bg_rand E (nDraws M); M = M\<lparr>nDraws := nDraws M + 1\<rparr>
            in if draw mod 4 \<noteq> 0 then (M, [])
               else
                 let M = M\<lparr>mapFinalizedBudgets := omap_insert (<) h (b\<lparr>fAutoChecked := True\<rparr>) (mapFinalizedBudgets M)\<rparr>
                 in if bg_strBudgetMode E \<noteq> ''auto'' then (M, [])
                    else
                      case GetBudget E M of
                        (hs, M) \<Rightarrow>
                          if payments_match E (vecBudgetPayments b) (proposals_at M hs) then SubmitVote E b M
                          else (M, []))"

text \<open>
  \<open>CheckAndRemove\<close> rebuilds both maps through copies, after a vote on each valid budget.
\<close>

fun finalized_loop ::
  "budget_env \<Rightarrow> hash256 list \<Rightarrow> CBudgetManager \<Rightarrow> (hash256 \<times> CFinalizedBudget) list \<Rightarrow>
   CBudgetManager \<times> (hash256 \<times> CFinalizedBudget) list \<times> budget_action list" where
  "finalized_loop E [] M tmp = (M, tmp, [])"
| "finalized_loop E (h # hs) M tmp =
     (case map_of (mapFinalizedBudgets M) h of
        None \<Rightarrow> finalized_loop E hs M tmp
      | Some b \<Rightarrow>
          (case finalized_IsValid E b True of
             (Inl e, b) \<Rightarrow>
               finalized_loop E hs
                 (M\<lparr>mapFinalizedBudgets := omap_insert (<) h (b\<lparr>fb_fValid := False\<rparr>) (mapFinalizedBudgets M)\<rparr>) tmp
           | (Inr _, b) \<Rightarrow>
               (case CheckAndVote E h
                       (M\<lparr>mapFinalizedBudgets := omap_insert (<) h (b\<lparr>fb_fValid := True\<rparr>) (mapFinalizedBudgets M)\<rparr>) of
                  (M, acts) \<Rightarrow>
                    let b = (case map_of (mapFinalizedBudgets M) h of Some b \<Rightarrow> b | None \<Rightarrow> b)
                    in case finalized_loop E hs M (omap_insert_new (finalized_GetHash E b) (copy_finalized b) tmp) of
                         (M, tmp, acts') \<Rightarrow> (M, tmp, acts @ acts'))))"

fun proposals_loop ::
  "budget_env \<Rightarrow> (hash256 \<times> CBudgetProposal) list \<Rightarrow> (hash256 \<times> CBudgetProposal) list \<Rightarrow> (hash256 \<times> CBudgetProposal) list" where
  "proposals_loop E [] tmp = tmp"
| "proposals_loop E ((h, p) # m) tmp =
     (case proposal_IsValid E p True of
        (Inl e, p) \<Rightarrow> proposals_loop E m tmp
      | (Inr _, p) \<Rightarrow> proposals_loop E m (omap_insert_new (proposal_GetHash E p) (copy_proposal p) tmp))"

definition CheckAndRemove :: "budget_env \<Rightarrow> CBudgetManager \<Rightarrow> CBudgetManager \<times> budget_action list" where
  "CheckAndRemove E M =
     (case finalized_loop E (map fst (mapFinalizedBudgets M)) M [] of
        (M, tmp, acts) \<Rightarrow>
          (M\<lparr>mapFinalizedBudgets := tmp, mapProposals := proposals_loop E (mapProposals M) []\<rparr>, acts))"

section \<open>The budget this node suggests\<close>

definition finalization_window :: "CChainParams \<Rightarrow> int" where
  "finalization_window P = (if networkID P = TESTNET then 64 else nBudgetCycleBlocks P div 30 * 2)"

definition suggested_payment :: "budget_env \<Rightarrow> CBudgetProposal \<Rightarrow> CTxBudgetPayment" where
  "suggested_payment E p =
     \<lparr>tp_nProposalHash = proposal_GetHash E p, tp_payee = bp_address p,
      tp_nAmount = (case bp_nAlloted p of Some a \<Rightarrow> a | None \<Rightarrow> 0)\<rparr>"

definition submit_with_collateral ::
  "budget_env \<Rightarrow> int \<Rightarrow> CFinalizedBudget \<Rightarrow> hash256 \<Rightarrow> CBudgetManager \<Rightarrow> CBudgetManager \<times> budget_action list" where
  "submit_with_collateral E nCurrentHeight tempBudget txidCollateral M =
     (case bg_GetTransaction E txidCollateral of
        None \<Rightarrow> (M, [])
      | Some (txCollateral, nBlockHash) \<Rightarrow>
          if collateral_conf E txidCollateral (collateral_block E nBlockHash) < nBudget_Fee_Confirmations (bg_params E) + 1
          then (M, [])
          else
            case finalized_IsValid E (tempBudget\<lparr>fb_nFeeTXHash := txidCollateral\<rparr>) True of
              (Inl e, b) \<Rightarrow> (M, [])
            | (Inr _, b) \<Rightarrow>
                let M = M\<lparr>mapSeenFinalizedBudgets :=
                            omap_insert_new (finalized_GetHash E b) (copy_finalized b) (mapSeenFinalizedBudgets M)\<rparr>
                in case AddFinalizedBudget E b M of
                     (added, M) \<Rightarrow>
                       (M\<lparr>nSubmittedHeight := nCurrentHeight\<rparr>, [RelayInv MSG_BUDGET_FINALIZED (finalized_GetHash E b)]))"

definition SubmitFinalBudget :: "budget_env \<Rightarrow> CBudgetManager \<Rightarrow> CBudgetManager \<times> budget_action list" where
  "SubmitFinalBudget E M =
     (if bg_tip E = None then (M, [])
      else
        let nCurrentHeight = Height (bg_chain E); start = next_cycle E nCurrentHeight
        in if start \<le> nSubmittedHeight M then (M, [])
           else if finalization_window (bg_params E) < start - nCurrentHeight then (M, [])
           else
             case GetBudget E M of
               (hs, M) \<Rightarrow>
                 let payments = map (suggested_payment E) (proposals_at M hs);
                     tempBudget = CFinalizedBudgetBroadcast_of ''main'' start payments 0;
                     h = finalized_GetHash E tempBudget
                 in if length payments < 1 then (M, [])
                    else if map_of (mapSeenFinalizedBudgets M) h \<noteq> None then (M\<lparr>nSubmittedHeight := nCurrentHeight\<rparr>, [])
                    else
                      case map_of (mapCollateralTxids M) h of
                        Some txidCollateral \<Rightarrow> submit_with_collateral E nCurrentHeight tempBudget txidCollateral M
                      | None \<Rightarrow>
                          (case bg_MakeCollateral E h of
                             None \<Rightarrow> (M, [])
                           | Some txidCollateral \<Rightarrow>
                               submit_with_collateral E nCurrentHeight tempBudget txidCollateral
                                 (M\<lparr>mapCollateralTxids := omap_insert_new h txidCollateral (mapCollateralTxids M)\<rparr>)))"

section \<open>Synchronisation\<close>

text \<open>The votes of every valid object that is also among the seen ones.\<close>

definition mark_proposals :: "(CBudgetVote \<Rightarrow> CBudgetVote) \<Rightarrow> CBudgetManager \<Rightarrow> CBudgetManager" where
  "mark_proposals f M =
     M\<lparr>mapProposals := map (\<lambda>(h, p).
        (h, if map_of (mapSeenMasternodeBudgetProposals M) h \<noteq> None \<and> bp_fValid p
            then p\<lparr>bp_mapVotes := map_vals f (bp_mapVotes p)\<rparr> else p)) (mapProposals M)\<rparr>"

definition mark_finalized :: "(CFinalizedBudgetVote \<Rightarrow> CFinalizedBudgetVote) \<Rightarrow> CBudgetManager \<Rightarrow> CBudgetManager" where
  "mark_finalized f M =
     M\<lparr>mapFinalizedBudgets := map (\<lambda>(h, b).
        (h, if map_of (mapSeenFinalizedBudgets M) h \<noteq> None \<and> fb_fValid b
            then b\<lparr>fb_mapVotes := map_vals f (fb_mapVotes b)\<rparr> else b)) (mapFinalizedBudgets M)\<rparr>"

definition budget_ResetSync :: "CBudgetManager \<Rightarrow> CBudgetManager" where
  "budget_ResetSync M = mark_finalized (\<lambda>v. v\<lparr>fv_fSynced := False\<rparr>) (mark_proposals (\<lambda>v. v\<lparr>bv_fSynced := False\<rparr>) M)"

definition MarkSynced :: "CBudgetManager \<Rightarrow> CBudgetManager" where
  "MarkSynced M =
     mark_finalized (\<lambda>v. if fv_fValid v then v\<lparr>fv_fSynced := True\<rparr> else v)
       (mark_proposals (\<lambda>v. if bv_fValid v then v\<lparr>bv_fSynced := True\<rparr> else v) M)"

definition sync_proposal ::
  "budget_env \<Rightarrow> CBudgetManager \<Rightarrow> hash256 \<Rightarrow> bool \<Rightarrow> hash256 \<times> CBudgetProposal \<Rightarrow> budget_action list" where
  "sync_proposal E M nProp fPartial item =
     (case item of (h, seen) \<Rightarrow>
        case FindProposal M h of
          None \<Rightarrow> []
        | Some p \<Rightarrow>
            if bp_fValid p \<and> (nProp = 0 \<or> h = nProp) then
              PushInventory MSG_BUDGET_PROPOSAL (proposal_GetHash E seen) #
              map (\<lambda>(_, v). PushInventory MSG_BUDGET_VOTE (vote_GetHash E v))
                (filter (\<lambda>(_, v). bv_fValid v \<and> (fPartial \<and> \<not> bv_fSynced v \<or> \<not> fPartial)) (bp_mapVotes p))
            else [])"

definition sync_finalized ::
  "budget_env \<Rightarrow> CBudgetManager \<Rightarrow> hash256 \<Rightarrow> bool \<Rightarrow> hash256 \<times> CFinalizedBudget \<Rightarrow> budget_action list" where
  "sync_finalized E M nProp fPartial item =
     (case item of (h, seen) \<Rightarrow>
        case FindFinalizedBudget M h of
          None \<Rightarrow> []
        | Some b \<Rightarrow>
            if fb_fValid b \<and> (nProp = 0 \<or> h = nProp) then
              PushInventory MSG_BUDGET_FINALIZED (finalized_GetHash E seen) #
              map (\<lambda>(_, v). PushInventory MSG_BUDGET_FINALIZED_VOTE (fin_vote_GetHash E v))
                (filter (\<lambda>(_, v). fv_fValid v \<and> (fPartial \<and> \<not> fv_fSynced v \<or> \<not> fPartial)) (fb_mapVotes b))
            else [])"

definition budget_Sync :: "budget_env \<Rightarrow> CBudgetManager \<Rightarrow> hash256 \<Rightarrow> bool \<Rightarrow> budget_action list" where
  "budget_Sync E M nProp fPartial =
     (let ps = concat (map (sync_proposal E M nProp fPartial) (mapSeenMasternodeBudgetProposals M));
          bs = concat (map (sync_finalized E M nProp fPartial) (mapSeenFinalizedBudgets M))
      in ps @ [PushSyncCount MASTERNODE_SYNC_BUDGET_PROP (int (length ps))] @
         bs @ [PushSyncCount MASTERNODE_SYNC_BUDGET_FIN (int (length bs))])"

section \<open>A new block\<close>

fun immature_proposals ::
  "budget_env \<Rightarrow> CBudgetProposal list \<Rightarrow> CBudgetManager \<Rightarrow> CBudgetProposal list \<times> CBudgetManager \<times> budget_action list" where
  "immature_proposals E [] M = ([], M, [])"
| "immature_proposals E (p # ps) M =
     (case IsBudgetCollateralValid E (bp_nFeeTXHash p) (proposal_GetHash E p) (bp_nTime p) False of
        (Inl e, t, conf) \<Rightarrow>
          (case immature_proposals E ps M of (keep, M, acts) \<Rightarrow> (p\<lparr>bp_nTime := t\<rparr> # keep, M, acts))
      | (Inr _, t, conf) \<Rightarrow>
          (case proposal_IsValid E (p\<lparr>bp_nTime := t\<rparr>) True of
             (Inl e, p) \<Rightarrow> immature_proposals E ps M
           | (Inr _, p) \<Rightarrow>
               (case AddProposal E (copy_proposal p) M of
                  (added, M) \<Rightarrow>
                    (case immature_proposals E ps M of
                       (keep, M, acts) \<Rightarrow>
                         (keep, M, (if added then [RelayInv MSG_BUDGET_PROPOSAL (proposal_GetHash E p)] else []) @ acts)))))"

fun immature_finalized ::
  "budget_env \<Rightarrow> CFinalizedBudget list \<Rightarrow> CBudgetManager \<Rightarrow> CFinalizedBudget list \<times> CBudgetManager \<times> budget_action list" where
  "immature_finalized E [] M = ([], M, [])"
| "immature_finalized E (b # bs) M =
     (case IsBudgetCollateralValid E (fb_nFeeTXHash b) (finalized_GetHash E b) (fb_nTime b) True of
        (Inl e, t, conf) \<Rightarrow>
          (case immature_finalized E bs M of (keep, M, acts) \<Rightarrow> (b\<lparr>fb_nTime := t\<rparr> # keep, M, acts))
      | (Inr _, t, conf) \<Rightarrow>
          (case finalized_IsValid E (b\<lparr>fb_nTime := t\<rparr>) True of
             (Inl e, b) \<Rightarrow> immature_finalized E bs M
           | (Inr _, b) \<Rightarrow>
               (case AddFinalizedBudget E (copy_finalized b) M of
                  (added, M) \<Rightarrow>
                    (case immature_finalized E bs M of
                       (keep, M, acts) \<Rightarrow>
                         (keep, M, (if added then [RelayInv MSG_BUDGET_FINALIZED (finalized_GetHash E b)] else []) @ acts)))))"

text \<open>The incremental synchronisation; the whole state is forgotten once in about 1440 blocks.\<close>

definition incremental_sync :: "budget_env \<Rightarrow> CBudgetManager \<Rightarrow> CBudgetManager \<times> budget_action list" where
  "incremental_sync E M =
     (if bg_IsSynced E then
        let reset = Height (bg_chain E) mod 1440 = int (bg_rand E (nDraws M) mod 1440);
            M = M\<lparr>nDraws := nDraws M + 1\<rparr>;
            M = (if reset then budget_ResetSync (ClearSeen M) else M)
        in (MarkSynced M, concat (replicate (bg_peers E) (budget_Sync E M 0 True)))
      else (M, []))"

definition new_block_cleanup :: "budget_env \<Rightarrow> CBudgetManager \<Rightarrow> CBudgetManager \<times> budget_action list" where
  "new_block_cleanup E M =
     (case CheckAndRemove E M of
        (M, acts1) \<Rightarrow>
          let M = M\<lparr>askedForSourceProposalOrBudget :=
                      filter (\<lambda>(_, t). bg_GetTime E - 60 * 60 * 24 < t) (askedForSourceProposalOrBudget M),
                    mapProposals := map_vals (proposal_CleanAndRemove E False) (mapProposals M),
                    mapFinalizedBudgets := map_vals (finalized_CleanAndRemove E False) (mapFinalizedBudgets M)\<rparr>
          in case immature_proposals E (vecImmatureBudgetProposals M) M of
               (keepp, M, acts2) \<Rightarrow>
                 case immature_finalized E (vecImmatureFinalizedBudgets M) M of
                   (keepb, M, acts3) \<Rightarrow>
                     (M\<lparr>vecImmatureBudgetProposals := keepp, vecImmatureFinalizedBudgets := keepb\<rparr>,
                      acts1 @ acts2 @ acts3))"

definition NewBlock :: "budget_env \<Rightarrow> CBudgetManager \<Rightarrow> CBudgetManager \<times> budget_action list" where
  "NewBlock E M =
     (if \<not> bg_assetsRequested E then (M, [])
      else
        case (if bg_strBudgetMode E = ''suggest'' then SubmitFinalBudget E M else (M, [])) of
          (M, acts1) \<Rightarrow>
            if Height (bg_chain E) smod 14 \<noteq> 0 then (M, acts1)
            else
              case incremental_sync E M of
                (M, acts2) \<Rightarrow> (case new_block_cleanup E M of (M, acts3) \<Rightarrow> (M, acts1 @ acts2 @ acts3)))"

section \<open>Messages\<close>

datatype budget_message =
    mnvs hash256 | mprop CBudgetProposal | mvote CBudgetVote | fbs CFinalizedBudget | fbvote CFinalizedBudgetVote

text \<open>What the constructors set and the serialised form leaves out.\<close>

definition received_proposal :: "CBudgetProposal \<Rightarrow> CBudgetProposal" where
  "received_proposal p = p\<lparr>bp_nAlloted := None, bp_fValid := True, bp_mapVotes := []\<rparr>"

definition received_finalized :: "CFinalizedBudget \<Rightarrow> CFinalizedBudget" where
  "received_finalized b = b\<lparr>fAutoChecked := False, fb_fValid := True, fb_mapVotes := [], fb_nTime := 0\<rparr>"

definition process_mnvs ::
  "budget_env \<Rightarrow> bool \<Rightarrow> hash256 \<Rightarrow> CBudgetManager \<Rightarrow> bool \<times> budget_action list" where
  "process_mnvs E asked nProp M =
     (if networkID (bg_params E) = MAIN \<and> nProp = 0 then
        (if asked then (asked, [Misbehaving 20]) else (True, budget_Sync E M nProp False))
      else (asked, budget_Sync E M nProp False))"

definition process_mprop :: "budget_env \<Rightarrow> CBudgetProposal \<Rightarrow> CBudgetManager \<Rightarrow> CBudgetManager \<times> budget_action list" where
  "process_mprop E p M =
     (let h = proposal_GetHash E p
      in if map_of (mapSeenMasternodeBudgetProposals M) h \<noteq> None then (M, [AddedBudgetItem h])
         else
           case IsBudgetCollateralValid E (bp_nFeeTXHash p) h (bp_nTime p) False of
             (Inl e, t, nConf) \<Rightarrow>
               (if 1 \<le> nConf
                then M\<lparr>vecImmatureBudgetProposals := vecImmatureBudgetProposals M @ [copy_proposal (p\<lparr>bp_nTime := t\<rparr>)]\<rparr>
                else M, [])
           | (Inr _, t, nConf) \<Rightarrow>
               let p = p\<lparr>bp_nTime := t\<rparr>;
                   M = M\<lparr>mapSeenMasternodeBudgetProposals :=
                           omap_insert_new h (copy_proposal p) (mapSeenMasternodeBudgetProposals M)\<rparr>
               in case proposal_IsValid E p True of
                    (Inl e, p) \<Rightarrow> (M, [])
                  | (Inr _, p) \<Rightarrow>
                      (case AddProposal E (copy_proposal p) M of
                         (added, M) \<Rightarrow>
                           (CheckOrphanVotes E M,
                            (if added then [RelayInv MSG_BUDGET_PROPOSAL h] else []) @ [AddedBudgetItem h])))"

definition process_mvote :: "budget_env \<Rightarrow> CBudgetVote \<Rightarrow> CBudgetManager \<Rightarrow> CBudgetManager \<times> budget_action list" where
  "process_mvote E v M =
     (let vote = v\<lparr>bv_fValid := True, bv_fSynced := False\<rparr>; h = vote_GetHash E vote; out = prevout (bv_vin vote)
      in if map_of (mapSeenMasternodeBudgetVotes M) h \<noteq> None then (M, [AddedBudgetItem h])
         else if bg_Find E out = None then (M, [AskForMN out])
         else
           let M = M\<lparr>mapSeenMasternodeBudgetVotes := omap_insert_new h vote (mapSeenMasternodeBudgetVotes M)\<rparr>
           in if \<not> vote_SignatureValid E vote True
              then (M, (if bg_IsSynced E then [Misbehaving 20] else []) @ [AskForMN out])
              else
                case UpdateProposal E vote True M of
                  (Inr _, M, acts) \<Rightarrow> (M, acts @ [RelayInv MSG_BUDGET_VOTE h, AddedBudgetItem h])
                | (Inl _, M, acts) \<Rightarrow> (M, acts))"

definition process_fbs :: "budget_env \<Rightarrow> CFinalizedBudget \<Rightarrow> CBudgetManager \<Rightarrow> CBudgetManager \<times> budget_action list" where
  "process_fbs E b M =
     (let h = finalized_GetHash E b
      in if map_of (mapSeenFinalizedBudgets M) h \<noteq> None then (M, [AddedBudgetItem h])
         else
           case IsBudgetCollateralValid E (fb_nFeeTXHash b) h (fb_nTime b) True of
             (Inl e, t, nConf) \<Rightarrow>
               (if 1 \<le> nConf
                then M\<lparr>vecImmatureFinalizedBudgets := vecImmatureFinalizedBudgets M @ [copy_finalized (b\<lparr>fb_nTime := t\<rparr>)]\<rparr>
                else M, [])
           | (Inr _, t, nConf) \<Rightarrow>
               let b = b\<lparr>fb_nTime := t\<rparr>;
                   M = M\<lparr>mapSeenFinalizedBudgets := omap_insert_new h (copy_finalized b) (mapSeenFinalizedBudgets M)\<rparr>
               in case finalized_IsValid E b True of
                    (Inl e, b) \<Rightarrow> (M, [])
                  | (Inr _, b) \<Rightarrow>
                      (case AddFinalizedBudget E (copy_finalized b) M of
                         (added, M) \<Rightarrow>
                           (CheckOrphanVotes E M,
                            (if added then [RelayInv MSG_BUDGET_FINALIZED h] else []) @ [AddedBudgetItem h])))"

definition process_fbvote :: "budget_env \<Rightarrow> CFinalizedBudgetVote \<Rightarrow> CBudgetManager \<Rightarrow> CBudgetManager \<times> budget_action list" where
  "process_fbvote E v M =
     (let vote = v\<lparr>fv_fValid := True, fv_fSynced := False\<rparr>; h = fin_vote_GetHash E vote; out = prevout (fv_vin vote)
      in if map_of (mapSeenFinalizedBudgetVotes M) h \<noteq> None then (M, [AddedBudgetItem h])
         else if bg_Find E out = None then (M, [AskForMN out])
         else
           let M = M\<lparr>mapSeenFinalizedBudgetVotes := omap_insert_new h vote (mapSeenFinalizedBudgetVotes M)\<rparr>
           in if \<not> fin_vote_SignatureValid E vote True
              then (M, (if bg_IsSynced E then [Misbehaving 20] else []) @ [AskForMN out])
              else
                case UpdateFinalizedBudget E vote True M of
                  (Inr _, M, acts) \<Rightarrow> (M, acts @ [RelayInv MSG_BUDGET_FINALIZED_VOTE h, AddedBudgetItem h])
                | (Inl _, M, acts) \<Rightarrow> (M, acts))"

text \<open>
  A message of a peer that has \<open>asked\<close> for the list before. A string over its limit makes the
  reading throw, and the message is dropped.
\<close>

fun budget_ProcessMessage ::
  "budget_env \<Rightarrow> bool \<Rightarrow> budget_message \<Rightarrow> CBudgetManager \<Rightarrow> bool \<times> CBudgetManager \<times> budget_action list" where
  "budget_ProcessMessage E asked msg M =
     (if bg_fLiteMode E \<or> \<not> bg_IsBlockchainSynced E then (asked, M, [])
      else
        case msg of
          mnvs nProp \<Rightarrow> (case process_mnvs E asked nProp M of (asked, acts) \<Rightarrow> (asked, M, acts))
        | mprop p \<Rightarrow>
            if 20 < length (strProposalName p) \<or> 64 < length (strURL p) then (asked, M, [])
            else (asked, process_mprop E (received_proposal p) M)
        | mvote v \<Rightarrow> (asked, process_mvote E v M)
        | fbs b \<Rightarrow>
            if 20 < length (strBudgetName b) then (asked, M, []) else (asked, process_fbs E (received_finalized b) M)
        | fbvote v \<Rightarrow> (asked, process_fbvote E v M))"

end
