(* ===== verification/BudgetProps.thy ===== *)
theory BudgetProps
  imports BudgetManager
begin

text \<open>
  What makes the budget correct: a ballot holds one authentic vote for each masternode, the proposals
  of a cycle are chosen greedily within the budget of the cycle, and what the checks of a payment do
  and do not promise.
\<close>

section \<open>Ordered maps\<close>

abbreviation omap :: "('k::linorder \<times> 'v) list \<Rightarrow> bool" where
  "omap m \<equiv> sorted_wrt (<) (map fst m)"

lemma omap_distinct: "omap m \<Longrightarrow> distinct (map fst m)"
  by (simp add: strict_sorted_iff)

lemma omap_lookup: "omap m \<Longrightarrow> map_of m k = Some v \<longleftrightarrow> (k, v) \<in> set m"
  by (simp add: map_of_eq_Some_iff omap_distinct)

lemma set_omap_insert: "set (omap_insert lt k v m) \<subseteq> insert (k, v) (set m)"
  by (induction m) (auto split: if_splits)

lemma omap_insert_omap: "omap m \<Longrightarrow> omap (omap_insert (<) k v m)"
proof (induction m)
  case (Cons p m)
  obtain a b where p: "p = (a, b)" by (cases p)
  show ?case using Cons keys_omap_insert [of "(<)" k v m] by (auto simp: p image_iff less_le_trans)
qed simp

lemma omap_insert_same: "omap m \<Longrightarrow> map_of m k = Some v \<Longrightarrow> omap_insert (<) k v m = m"
proof (induction m)
  case (Cons p m)
  obtain a b where p: "p = (a, b)" by (cases p)
  show ?case using Cons by (auto simp: p omap_lookup split: if_splits)
qed simp

lemma omap_filter: "omap m \<Longrightarrow> omap (filter P m)"
  by (induction m) (auto simp: image_iff)

lemma omap_erase_omap: "omap m \<Longrightarrow> omap (omap_erase k m)"
  by (simp add: omap_erase_def omap_filter)

lemma map_fst_map_vals [simp]: "map fst (map_vals f m) = map fst m"
  by (induction m) (auto simp: map_vals_def)

lemma map_of_map_vals [simp]: "map_of (map_vals f m) k = map_option f (map_of m k)"
  by (induction m) (auto simp: map_vals_def)

lemma set_map_vals: "set (map_vals f m) = (\<lambda>(k, v). (k, f v)) ` set m"
  by (simp add: map_vals_def)

lemma length_omap_insert: "map_of m k = None \<Longrightarrow> length (omap_insert lt k v m) = Suc (length m)"
  using omap_insert_new [of m k lt v] by auto

section \<open>Ballots\<close>

text \<open>
  Proposals and finalized budgets keep their votes by the same rules, the interface of a ballot:
  \<open>add\<close> casts a vote at a time; it changes nothing when it refuses.
\<close>

locale ballot =
  fixes votes :: "'p \<Rightarrow> (hash256 \<times> 'v) list"
    and voter :: "'v \<Rightarrow> hash256"
    and cast :: "'v \<Rightarrow> int"
    and add :: "int \<Rightarrow> 'v \<Rightarrow> 'p \<Rightarrow> (budget_error + unit) \<times> 'p"
  assumes add_refused: "add now v p = (Inl e, p') \<Longrightarrow> p' = p"
    and add_accepted: "add now v p = (Inr u, p') \<Longrightarrow> votes p' = omap_insert (<) (voter v) v (votes p)"
    and accepted_time: "add now v p = (Inr u, p') \<Longrightarrow> cast v \<le> now + 60 * 60"
    and accepted_after: "add now v p = (Inr u, p') \<Longrightarrow> map_of (votes p) (voter v) = Some old \<Longrightarrow>
      cast old \<le> cast v \<and> BUDGET_VOTE_UPDATE_MIN \<le> add64 (cast v) (- cast old)"
begin

definition cast_all :: "(int \<times> 'v) list \<Rightarrow> 'p \<Rightarrow> 'p" where
  "cast_all vs p = fold (\<lambda>(now, v) p. snd (add now v p)) vs p"

definition ballot_ok :: "'p \<Rightarrow> bool" where
  "ballot_ok p \<longleftrightarrow> omap (votes p) \<and> (\<forall>(k, v) \<in> set (votes p). k = voter v)"

lemma add_ok: "ballot_ok p \<Longrightarrow> ballot_ok (snd (add now v p))"
  using add_refused [of now v p] add_accepted [of now v p] set_omap_insert [of "(<)" "voter v" v "votes p"]
  by (cases "add now v p"; cases "fst (add now v p)")
    (auto simp: ballot_ok_def omap_insert_omap)

lemma cast_all_ok: "ballot_ok p \<Longrightarrow> ballot_ok (cast_all vs p)"
  unfolding cast_all_def by (induction vs arbitrary: p) (auto simp: add_ok)

lemma add_votes: "ballot_ok p \<Longrightarrow> (k, w) \<in> set (votes (snd (add now v p))) \<Longrightarrow> w = v \<or> (k, w) \<in> set (votes p)"
  using add_refused [of now v p] add_accepted [of now v p] set_omap_insert [of "(<)" "voter v" v "votes p"]
  by (cases "add now v p"; cases "fst (add now v p)") auto

lemma cast_all_votes:
  "ballot_ok p \<Longrightarrow> (k, w) \<in> set (votes (cast_all vs p)) \<Longrightarrow> w \<in> snd ` set vs \<or> (k, w) \<in> set (votes p)"
proof (induction vs arbitrary: p)
  case (Cons nv vs)
  obtain now v where nv: "nv = (now, v)" by (cases nv)
  have "w \<in> snd ` set vs \<or> (k, w) \<in> set (votes (snd (add now v p)))"
    using Cons.IH [OF add_ok [OF Cons.prems(1)]] Cons.prems(2) by (simp add: cast_all_def nv)
  then show ?case using add_votes [OF Cons.prems(1), of k w now v] nv by auto
qed (simp add: cast_all_def)

text \<open>The votes are at most as many as the voters.\<close>

lemma ballot_count:
  assumes "ballot_ok p"
  shows "length (votes p) = card ((\<lambda>(k, v). voter v) ` set (votes p))"
proof -
  have "(\<lambda>(k, v). voter v) ` set (votes p) = fst ` set (votes p)" using assms by (force simp: ballot_ok_def)
  then show ?thesis
    using assms distinct_card [OF omap_distinct, of "votes p"] by (simp add: ballot_ok_def)
qed

text \<open>A vote of a masternode that is replaced lies an hour or more before the one that replaces it.\<close>

lemma replaced_apart:
  assumes "add now v p = (Inr u, p')" "map_of (votes p) (voter v) = Some old"
    "- (2 ^ 63) \<le> cast v" "cast v < 2 ^ 63" "- (2 ^ 63) \<le> cast old" "cast old < 2 ^ 63"
  shows "cast old + 60 * 60 \<le> cast v"
proof (rule ccontr)
  assume "\<not> ?thesis"
  moreover have a: "cast old \<le> cast v" "BUDGET_VOTE_UPDATE_MIN \<le> add64 (cast v) (- cast old)"
    using accepted_after [OF assms(1,2)] by simp_all
  moreover have "add64 (cast v) (- cast old) = cast v - cast old"
    using calculation by (simp add: add64_def signed_take_bit_int_eq_self)
  ultimately show False by (simp add: BUDGET_VOTE_UPDATE_MIN_def)
qed

end

interpretation proposal_ballot: ballot bp_mapVotes "\<lambda>v. hash_outpoint E (prevout (bv_vin v))" bv_nTime
    "\<lambda>now. proposal_AddOrUpdateVote (E\<lparr>bg_GetTime := now\<rparr>)" for E
  by unfold_locales (auto simp: proposal_AddOrUpdateVote_def Let_def split: option.splits if_splits)

interpretation finalized_ballot: ballot fb_mapVotes "\<lambda>v. hash_outpoint E (prevout (fv_vin v))" fv_nTime
    "\<lambda>now. finalized_AddOrUpdateVote (E\<lparr>bg_GetTime := now\<rparr>)" for E
  by unfold_locales (auto simp: finalized_AddOrUpdateVote_def Let_def split: option.splits if_splits)

section \<open>Reachable managers\<close>

text \<open>
  The managers a node reaches from the empty one, over any sequence of messages, blocks, checks of
  payments and reports, each in one of the environments \<open>Es\<close> (the chain, the clock and the list of
  masternodes change; the hash functions do not).
\<close>

inductive budget_reachable :: "budget_env set \<Rightarrow> CBudgetManager \<Rightarrow> bool" for Es where
  reach_empty: "budget_reachable Es empty_manager"
| reach_message: "budget_reachable Es M \<Longrightarrow> E \<in> Es \<Longrightarrow> budget_ProcessMessage E asked msg M = (asked', M', acts) \<Longrightarrow>
    budget_reachable Es M'"
| reach_block: "budget_reachable Es M \<Longrightarrow> E \<in> Es \<Longrightarrow> NewBlock E M = (M', acts) \<Longrightarrow> budget_reachable Es M'"
| reach_payment: "budget_reachable Es M \<Longrightarrow> E \<in> Es \<Longrightarrow> manager_IsTransactionValid E tx h M = (status, M') \<Longrightarrow>
    budget_reachable Es M'"
| reach_budget: "budget_reachable Es M \<Longrightarrow> E \<in> Es \<Longrightarrow> GetBudget E M = (hs, M') \<Longrightarrow> budget_reachable Es M'"
| reach_all: "budget_reachable Es M \<Longrightarrow> E \<in> Es \<Longrightarrow> GetAllProposals E M = (hs, M') \<Longrightarrow> budget_reachable Es M'"
| reach_clear: "budget_reachable Es M \<Longrightarrow> budget_reachable Es (budget_Clear M)"

definition same_hashes :: "budget_env set \<Rightarrow> bool" where
  "same_hashes Es \<longleftrightarrow> (\<exists>ho hp hf. \<forall>E \<in> Es. hash_outpoint E = ho \<and> hash_proposal E = hp \<and> hash_finalized E = hf)"

text \<open>A vote a masternode known at the time has signed, or this node for itself.\<close>

definition authentic :: "budget_env set \<Rightarrow> CBudgetVote \<Rightarrow> bool" where
  "authentic Es v \<longleftrightarrow> (\<exists>E \<in> Es. vote_SignatureValid E v True)"

definition fin_authentic :: "budget_env set \<Rightarrow> CFinalizedBudgetVote \<Rightarrow> bool" where
  "fin_authentic Es v \<longleftrightarrow>
     (\<exists>E \<in> Es. fin_vote_SignatureValid E v True \<or> bg_SignMessage E (fin_vote_message v) = Some (fv_vchSig v))"

lemma authentic_flags [simp]:
  "authentic Es (v\<lparr>bv_fValid := a\<rparr>) = authentic Es v" "authentic Es (v\<lparr>bv_fSynced := a\<rparr>) = authentic Es v"
  by (simp_all add: authentic_def vote_SignatureValid_def vote_message_def cong: option.case_cong)

lemma fin_authentic_flags [simp]:
  "fin_authentic Es (v\<lparr>fv_fValid := a\<rparr>) = fin_authentic Es v" "fin_authentic Es (v\<lparr>fv_fSynced := a\<rparr>) = fin_authentic Es v"
  by (simp_all add: fin_authentic_def fin_vote_SignatureValid_def fin_vote_message_def cong: option.case_cong)

definition max_budget :: int where "max_budget = 21600 * COIN"

definition vote_ok :: "budget_env set \<Rightarrow> hash256 \<Rightarrow> hash256 \<Rightarrow> CBudgetVote \<Rightarrow> bool" where
  "vote_ok Es h k v \<longleftrightarrow> authentic Es v \<and> bv_nProposalHash v = h \<and> (\<forall>E \<in> Es. k = hash_outpoint E (prevout (bv_vin v)))"

definition fin_vote_ok :: "budget_env set \<Rightarrow> hash256 \<Rightarrow> hash256 \<Rightarrow> CFinalizedBudgetVote \<Rightarrow> bool" where
  "fin_vote_ok Es h k v \<longleftrightarrow>
     fin_authentic Es v \<and> fv_nBudgetHash v = h \<and> (\<forall>E \<in> Es. k = hash_outpoint E (prevout (fv_vin v)))"

definition proposal_ok :: "budget_env set \<Rightarrow> hash256 \<Rightarrow> CBudgetProposal \<Rightarrow> bool" where
  "proposal_ok Es h p \<longleftrightarrow>
     (\<forall>E \<in> Es. h = proposal_GetHash E p) \<and> 10 * COIN \<le> bp_nAmount p \<and> bp_nAmount p \<le> max_budget \<and>
     omap (bp_mapVotes p) \<and> (\<forall>(k, v) \<in> set (bp_mapVotes p). vote_ok Es h k v)"

definition finalized_ok :: "budget_env set \<Rightarrow> hash256 \<Rightarrow> CFinalizedBudget \<Rightarrow> bool" where
  "finalized_ok Es h b \<longleftrightarrow>
     (\<forall>E \<in> Es. h = finalized_GetHash E b) \<and> length (vecBudgetPayments b) \<le> 100 \<and>
     omap (fb_mapVotes b) \<and> (\<forall>(k, v) \<in> set (fb_mapVotes b). fin_vote_ok Es h k v)"

definition props_ok :: "budget_env set \<Rightarrow> (hash256 \<times> CBudgetProposal) list \<Rightarrow> bool" where
  "props_ok Es m \<longleftrightarrow> omap m \<and> (\<forall>(h, p) \<in> set m. proposal_ok Es h p)"

definition fins_ok :: "budget_env set \<Rightarrow> (hash256 \<times> CFinalizedBudget) list \<Rightarrow> bool" where
  "fins_ok Es m \<longleftrightarrow> omap m \<and> (\<forall>(h, b) \<in> set m. finalized_ok Es h b)"

definition manager_ok :: "budget_env set \<Rightarrow> CBudgetManager \<Rightarrow> bool" where
  "manager_ok Es M \<longleftrightarrow> props_ok Es (mapProposals M) \<and> fins_ok Es (mapFinalizedBudgets M) \<and>
     (\<forall>(h, v) \<in> set (mapOrphanMasternodeBudgetVotes M). authentic Es v) \<and>
     (\<forall>(h, v) \<in> set (mapOrphanFinalizedBudgetVotes M). fin_authentic Es v) \<and>
     (\<forall>p \<in> set (vecImmatureBudgetProposals M). bp_mapVotes p = []) \<and>
     (\<forall>b \<in> set (vecImmatureFinalizedBudgets M). fb_mapVotes b = [])"

lemma props_ok_insert: "props_ok Es m \<Longrightarrow> proposal_ok Es h p \<Longrightarrow> props_ok Es (omap_insert (<) h p m)"
  using set_omap_insert [of "(<)" h p m] by (auto simp: props_ok_def omap_insert_omap)

lemma fins_ok_insert: "fins_ok Es m \<Longrightarrow> finalized_ok Es h b \<Longrightarrow> fins_ok Es (omap_insert (<) h b m)"
  using set_omap_insert [of "(<)" h b m] by (auto simp: fins_ok_def omap_insert_omap)

lemma props_ok_lookup: "props_ok Es m \<Longrightarrow> map_of m h = Some p \<Longrightarrow> proposal_ok Es h p"
  by (auto simp: props_ok_def dest: map_of_SomeD)

lemma fins_ok_lookup: "fins_ok Es m \<Longrightarrow> map_of m h = Some b \<Longrightarrow> finalized_ok Es h b"
  by (auto simp: fins_ok_def dest: map_of_SomeD)

text \<open>Changes of the fields that do not count.\<close>

lemma proposal_ok_fields [simp]:
  "proposal_ok Es h (p\<lparr>bp_nAlloted := a\<rparr>) = proposal_ok Es h p" "proposal_ok Es h (p\<lparr>bp_fValid := f\<rparr>) = proposal_ok Es h p"
  "proposal_ok Es h (p\<lparr>bp_nTime := t\<rparr>) = proposal_ok Es h p" "proposal_ok Es h (copy_proposal p) = proposal_ok Es h p"
  by (simp_all add: proposal_ok_def proposal_GetHash_def copy_proposal_def)

lemma finalized_ok_fields [simp]:
  "finalized_ok Es h (b\<lparr>fAutoChecked := a\<rparr>) = finalized_ok Es h b" "finalized_ok Es h (b\<lparr>fb_fValid := f\<rparr>) = finalized_ok Es h b"
  "finalized_ok Es h (b\<lparr>fb_nTime := t\<rparr>) = finalized_ok Es h b" "finalized_ok Es h (copy_finalized b) = finalized_ok Es h b"
  by (simp_all add: finalized_ok_def finalized_GetHash_def copy_finalized_def)

lemma omap_map_snd: "map fst (map (\<lambda>(k, v). (k, f k v)) m) = map fst m"
  by (induction m) auto

lemma proposal_ok_votes:
  assumes "\<And>k v. vote_ok Es h k v \<Longrightarrow> vote_ok Es h k (f v)" "proposal_ok Es h p"
  shows "proposal_ok Es h (p\<lparr>bp_mapVotes := map_vals f (bp_mapVotes p)\<rparr>)"
  using assms by (auto simp: proposal_ok_def proposal_GetHash_def set_map_vals)

lemma finalized_ok_votes:
  assumes "\<And>k v. fin_vote_ok Es h k v \<Longrightarrow> fin_vote_ok Es h k (f v)" "finalized_ok Es h b"
  shows "finalized_ok Es h (b\<lparr>fb_mapVotes := map_vals f (fb_mapVotes b)\<rparr>)"
  using assms by (auto simp: finalized_ok_def finalized_GetHash_def set_map_vals)

lemma vote_ok_flags [simp]:
  "vote_ok Es h k (v\<lparr>bv_fValid := a\<rparr>) = vote_ok Es h k v" "vote_ok Es h k (v\<lparr>bv_fSynced := a\<rparr>) = vote_ok Es h k v"
  by (simp_all add: vote_ok_def)

lemma fin_vote_ok_flags [simp]:
  "fin_vote_ok Es h k (v\<lparr>fv_fValid := a\<rparr>) = fin_vote_ok Es h k v" "fin_vote_ok Es h k (v\<lparr>fv_fSynced := a\<rparr>) = fin_vote_ok Es h k v"
  by (simp_all add: fin_vote_ok_def)

lemma CleanAndRemove_ok:
  "proposal_ok Es h p \<Longrightarrow> proposal_ok Es h (proposal_CleanAndRemove E f p)"
  "finalized_ok Es h b \<Longrightarrow> finalized_ok Es h (finalized_CleanAndRemove E f b)"
  unfolding proposal_CleanAndRemove_def finalized_CleanAndRemove_def map_vals_def [symmetric]
  by (auto intro: proposal_ok_votes finalized_ok_votes)

lemma props_ok_map_vals:
  "(\<And>h p. proposal_ok Es h p \<Longrightarrow> proposal_ok Es h (f p)) \<Longrightarrow> props_ok Es m \<Longrightarrow> props_ok Es (map_vals f m)"
  by (auto simp: props_ok_def set_map_vals)

lemma fins_ok_map_vals:
  "(\<And>h b. finalized_ok Es h b \<Longrightarrow> finalized_ok Es h (f b)) \<Longrightarrow> fins_ok Es m \<Longrightarrow> fins_ok Es (map_vals f m)"
  by (auto simp: fins_ok_def set_map_vals)

section \<open>The operations keep the invariant\<close>

lemma GetTotalBudget_le: "GetTotalBudget E h \<le> max_budget"
proof -
  have "(signed_take_bit 63 (216000000000000000000 :: int)) \<le> 0" by code_simp
  moreover have "signed_take_bit 63 (2160000000000 :: int) = 2160000000000"
    "signed_take_bit 63 (432000000000 :: int) = 432000000000" by code_simp+
  ultimately show ?thesis
    by (simp add: GetTotalBudget_def max_budget_def COIN_def Let_def)
qed

lemma proposal_IsValid_Inr:
  assumes "proposal_IsValid E p c = (Inr u, p')"
  shows "p' = p\<lparr>bp_nTime := bp_nTime p'\<rparr>" "10 * COIN \<le> bp_nAmount p" "bp_nAmount p \<le> max_budget"
    "bp_nAmount p \<le> GetTotalBudget E (bp_nBlockStart p)"
  using assms GetTotalBudget_le [of E "bp_nBlockStart p"]
  by (auto simp: proposal_IsValid_def Let_def split: if_splits sum.splits option.splits prod.splits)

lemma finalized_IsValid_Inr:
  assumes "finalized_IsValid E b c = (Inr u, b')"
  shows "b' = b\<lparr>fb_nTime := fb_nTime b'\<rparr>" "length (vecBudgetPayments b) \<le> 100"
    "GetTotalPayout b \<le> GetTotalBudget E (fb_nBlockStart b)"
  using assms
  by (auto simp: finalized_IsValid_def Let_def split: if_splits sum.splits option.splits prod.splits)

lemma finalized_IsValid_time:
  assumes "finalized_IsValid E b c = (res, b')"
  shows "b' = b\<lparr>fb_nTime := fb_nTime b'\<rparr>"
  using assms
  by (auto simp: finalized_IsValid_def Let_def split: if_splits sum.splits option.splits prod.splits)

lemma proposal_GetHash_time [simp]: "proposal_GetHash E (p\<lparr>bp_nTime := t\<rparr>) = proposal_GetHash E p"
  by (simp add: proposal_GetHash_def)

lemma finalized_GetHash_time [simp]: "finalized_GetHash E (b\<lparr>fb_nTime := t\<rparr>) = finalized_GetHash E b"
  by (simp add: finalized_GetHash_def)

lemma same_hashes_proposal: "same_hashes Es \<Longrightarrow> E \<in> Es \<Longrightarrow> E' \<in> Es \<Longrightarrow> proposal_GetHash E p = proposal_GetHash E' p"
  by (auto simp: same_hashes_def proposal_GetHash_def)

lemma same_hashes_finalized: "same_hashes Es \<Longrightarrow> E \<in> Es \<Longrightarrow> E' \<in> Es \<Longrightarrow> finalized_GetHash E b = finalized_GetHash E' b"
  by (auto simp: same_hashes_def finalized_GetHash_def)

lemma new_proposal_ok:
  assumes Es: "same_hashes Es" "E \<in> Es" and prems: "proposal_IsValid E p c = (Inr u, p')" "bp_mapVotes p = []"
  shows "proposal_ok Es (proposal_GetHash E p') p'"
proof -
  have "proposal_ok Es (proposal_GetHash E p) p"
    using prems(2) proposal_IsValid_Inr [OF prems(1)] same_hashes_proposal [OF Es] by (simp add: proposal_ok_def)
  moreover have "p' = p\<lparr>bp_nTime := bp_nTime p'\<rparr>" by (rule proposal_IsValid_Inr [OF prems(1)])
  ultimately show ?thesis by (metis proposal_GetHash_time proposal_ok_fields(3))
qed

lemma new_finalized_ok:
  assumes Es: "same_hashes Es" "E \<in> Es" and prems: "finalized_IsValid E b c = (Inr u, b')" "fb_mapVotes b = []"
  shows "finalized_ok Es (finalized_GetHash E b') b'"
proof -
  have "finalized_ok Es (finalized_GetHash E b) b"
    using prems(2) finalized_IsValid_Inr [OF prems(1)] same_hashes_finalized [OF Es] by (simp add: finalized_ok_def)
  moreover have "b' = b\<lparr>fb_nTime := fb_nTime b'\<rparr>" by (rule finalized_IsValid_Inr [OF prems(1)])
  ultimately show ?thesis by (metis finalized_GetHash_time finalized_ok_fields(3))
qed

lemma AddProposal_ok:
  assumes Es: "same_hashes Es" "E \<in> Es"
    and prems: "manager_ok Es M" "AddProposal E p M = (added, M')" "bp_mapVotes p = []"
  shows "manager_ok Es M'"
proof -
  have "props_ok Es (omap_insert (<) (proposal_GetHash E p') (copy_proposal p') (mapProposals M))"
    if "proposal_IsValid E p True = (Inr u, p')" for u p'
    using new_proposal_ok [OF Es that prems(3)] prems(1) by (simp add: manager_ok_def props_ok_insert)
  then show ?thesis using prems(1,2)
    by (auto simp: AddProposal_def manager_ok_def split: prod.splits sum.splits if_splits)
qed

lemma AddFinalizedBudget_ok:
  assumes Es: "same_hashes Es" "E \<in> Es"
    and prems: "manager_ok Es M" "AddFinalizedBudget E b M = (added, M')" "fb_mapVotes b = []"
  shows "manager_ok Es M'"
proof -
  have "fins_ok Es (omap_insert (<) (finalized_GetHash E b') (copy_finalized b') (mapFinalizedBudgets M))"
    if "finalized_IsValid E b True = (Inr u, b')" for u b'
    using new_finalized_ok [OF Es that prems(3)] prems(1) by (simp add: manager_ok_def fins_ok_insert)
  then show ?thesis using prems(1,2)
    by (auto simp: AddFinalizedBudget_def manager_ok_def split: prod.splits sum.splits if_splits)
qed

lemma proposal_AddOrUpdateVote_ok:
  assumes Es: "same_hashes Es" "E \<in> Es" and prems: "proposal_ok Es (bv_nProposalHash v) p" "authentic Es v" "proposal_AddOrUpdateVote E v p = (res, p')"
  shows "proposal_ok Es (bv_nProposalHash v) p'"
proof (cases res)
  case (Inl e)
  then show ?thesis using prems(1,3) by (auto simp: proposal_AddOrUpdateVote_def Let_def split: option.splits if_splits)
next
  case (Inr u)
  then have p': "p' = p\<lparr>bp_mapVotes := omap_insert (<) (hash_outpoint E (prevout (bv_vin v))) v (bp_mapVotes p)\<rparr>"
    using prems(3) by (auto simp: proposal_AddOrUpdateVote_def Let_def split: option.splits if_splits)
  have "\<forall>E' \<in> Es. hash_outpoint E' = hash_outpoint E" using Es by (auto simp: same_hashes_def)
  then have "vote_ok Es (bv_nProposalHash v) (hash_outpoint E (prevout (bv_vin v))) v"
    using prems(2) by (simp add: vote_ok_def)
  then show ?thesis
    using prems(1) set_omap_insert [of "(<)" "hash_outpoint E (prevout (bv_vin v))" v "bp_mapVotes p"]
    by (auto simp: p' proposal_ok_def proposal_GetHash_def omap_insert_omap)
qed

lemma finalized_AddOrUpdateVote_ok:
  assumes Es: "same_hashes Es" "E \<in> Es" and prems: "finalized_ok Es (fv_nBudgetHash v) b" "fin_authentic Es v" "finalized_AddOrUpdateVote E v b = (res, b')"
  shows "finalized_ok Es (fv_nBudgetHash v) b'"
proof (cases res)
  case (Inl e)
  then show ?thesis using prems(1,3) by (auto simp: finalized_AddOrUpdateVote_def Let_def split: option.splits if_splits)
next
  case (Inr u)
  then have b': "b' = b\<lparr>fb_mapVotes := omap_insert (<) (hash_outpoint E (prevout (fv_vin v))) v (fb_mapVotes b)\<rparr>"
    using prems(3) by (auto simp: finalized_AddOrUpdateVote_def Let_def split: option.splits if_splits)
  have "\<forall>E' \<in> Es. hash_outpoint E' = hash_outpoint E" using Es by (auto simp: same_hashes_def)
  then have "fin_vote_ok Es (fv_nBudgetHash v) (hash_outpoint E (prevout (fv_vin v))) v"
    using prems(2) by (simp add: fin_vote_ok_def)
  then show ?thesis
    using prems(1) set_omap_insert [of "(<)" "hash_outpoint E (prevout (fv_vin v))" v "fb_mapVotes b"]
    by (auto simp: b' finalized_ok_def finalized_GetHash_def omap_insert_omap)
qed

lemma ask_source_ok: "manager_ok Es M \<Longrightarrow> ask_source E h M = (M', acts) \<Longrightarrow> manager_ok Es M'"
  by (auto simp: ask_source_def manager_ok_def split: if_splits)

lemma UpdateProposal_ok:
  assumes Es: "same_hashes Es" "E \<in> Es" and M: "manager_ok Es M" and v: "authentic Es v" and u: "UpdateProposal E v fromPeer M = (res, M', acts)"
  shows "manager_ok Es M'"
proof (cases "map_of (mapProposals M) (bv_nProposalHash v)")
  case None
  let ?M = "M\<lparr>mapOrphanMasternodeBudgetVotes := omap_insert (<) (bv_nProposalHash v) v (mapOrphanMasternodeBudgetVotes M)\<rparr>"
  have "manager_ok Es ?M"
    using M v set_omap_insert [of "(<)" "bv_nProposalHash v" v "mapOrphanMasternodeBudgetVotes M"]
    by (auto simp: manager_ok_def)
  then show ?thesis using M u None ask_source_ok [of Es ?M]
    by (auto simp: UpdateProposal_def split: if_splits prod.splits)
next
  case (Some p)
  then have "proposal_ok Es (bv_nProposalHash v) p" using M props_ok_lookup by (auto simp: manager_ok_def)
  then show ?thesis
    using M u Some proposal_AddOrUpdateVote_ok [OF Es _ v] props_ok_insert
    by (auto simp: UpdateProposal_def manager_ok_def split: prod.splits)
qed

lemma UpdateFinalizedBudget_ok:
  assumes Es: "same_hashes Es" "E \<in> Es" and M: "manager_ok Es M" and v: "fin_authentic Es v" and u: "UpdateFinalizedBudget E v fromPeer M = (res, M', acts)"
  shows "manager_ok Es M'"
proof (cases "map_of (mapFinalizedBudgets M) (fv_nBudgetHash v)")
  case None
  let ?M = "M\<lparr>mapOrphanFinalizedBudgetVotes := omap_insert (<) (fv_nBudgetHash v) v (mapOrphanFinalizedBudgetVotes M)\<rparr>"
  have "manager_ok Es ?M"
    using M v set_omap_insert [of "(<)" "fv_nBudgetHash v" v "mapOrphanFinalizedBudgetVotes M"]
    by (auto simp: manager_ok_def)
  then show ?thesis using M u None ask_source_ok [of Es ?M]
    by (auto simp: UpdateFinalizedBudget_def split: if_splits prod.splits)
next
  case (Some b)
  then have "finalized_ok Es (fv_nBudgetHash v) b" using M fins_ok_lookup by (auto simp: manager_ok_def)
  then show ?thesis
    using M u Some finalized_AddOrUpdateVote_ok [OF Es _ v] fins_ok_insert
    by (auto simp: UpdateFinalizedBudget_def manager_ok_def split: prod.splits)
qed

lemma orphan_votes_loop_ok:
  assumes Es: "same_hashes Es" "E \<in> Es"
  shows "manager_ok Es M \<Longrightarrow> \<forall>(h, v) \<in> set l. authentic Es v \<Longrightarrow> manager_ok Es (orphan_votes_loop E l M)"
proof (induction l arbitrary: M)
  case (Cons hv l)
  obtain h v res M' acts where u: "hv = (h, v)" "UpdateProposal E v False M = (res, M', acts)"
    by (cases hv; cases "UpdateProposal E (snd hv) False M") auto
  have "manager_ok Es M'" using UpdateProposal_ok [OF Es Cons.prems(1) _ u(2)] Cons.prems(2) u(1) by simp
  moreover from this have
    "manager_ok Es (M'\<lparr>mapOrphanMasternodeBudgetVotes := omap_erase h (mapOrphanMasternodeBudgetVotes M')\<rparr>)"
    by (auto simp: manager_ok_def omap_erase_def)
  ultimately show ?case using Cons.IH Cons.prems(2) u by (auto split: sum.splits)
qed simp

lemma orphan_fin_votes_loop_ok:
  assumes Es: "same_hashes Es" "E \<in> Es"
  shows "manager_ok Es M \<Longrightarrow> \<forall>(h, v) \<in> set l. fin_authentic Es v \<Longrightarrow> manager_ok Es (orphan_fin_votes_loop E l M)"
proof (induction l arbitrary: M)
  case (Cons hv l)
  obtain h v res M' acts where u: "hv = (h, v)" "UpdateFinalizedBudget E v False M = (res, M', acts)"
    by (cases hv; cases "UpdateFinalizedBudget E (snd hv) False M") auto
  have "manager_ok Es M'" using UpdateFinalizedBudget_ok [OF Es Cons.prems(1) _ u(2)] Cons.prems(2) u(1) by simp
  moreover from this have
    "manager_ok Es (M'\<lparr>mapOrphanFinalizedBudgetVotes := omap_erase h (mapOrphanFinalizedBudgetVotes M')\<rparr>)"
    by (auto simp: manager_ok_def omap_erase_def)
  ultimately show ?case using Cons.IH Cons.prems(2) u by (auto split: sum.splits)
qed simp

lemma manager_ok_orphans:
  "manager_ok Es M \<Longrightarrow> \<forall>(h, v) \<in> set (mapOrphanMasternodeBudgetVotes M). authentic Es v"
  "manager_ok Es M \<Longrightarrow> \<forall>(h, v) \<in> set (mapOrphanFinalizedBudgetVotes M). fin_authentic Es v"
  by (simp_all add: manager_ok_def)

lemma CheckOrphanVotes_ok:
  assumes Es: "same_hashes Es" "E \<in> Es" and M: "manager_ok Es M"
  shows "manager_ok Es (CheckOrphanVotes E M)"
proof -
  have "manager_ok Es (orphan_votes_loop E (mapOrphanMasternodeBudgetVotes M) M)"
    by (rule orphan_votes_loop_ok [OF Es M manager_ok_orphans(1) [OF M]])
  from orphan_fin_votes_loop_ok [OF Es this manager_ok_orphans(2) [OF this]]
  show ?thesis by (simp add: CheckOrphanVotes_def Let_def)
qed

lemma set_insort_by: "set (insort_by lt x xs) = insert x (set xs)"
  by (induction xs) auto

lemma set_sort_by [simp]: "set (sort_by lt xs) = set xs"
  unfolding sort_by_def by (induction xs) (auto simp: set_insort_by)

lemma allot_loop_ok:
  "props_ok Es props \<Longrightarrow> \<forall>(h, p) \<in> set items. proposal_ok Es h p \<Longrightarrow>
   props_ok Es (snd (allot_loop E start tot items alloc props))"
proof (induction items arbitrary: alloc props)
  case (Cons hp items)
  obtain h p where hp: "hp = (h, p)" by (cases hp)
  have "props_ok Es (omap_insert (<) h (p\<lparr>bp_nAlloted := a\<rparr>) props)" for a
    using Cons.prems hp by (simp add: props_ok_insert)
  then show ?case using Cons.IH Cons.prems hp by (auto split: prod.splits) (metis snd_conv)+
qed simp

lemma GetBudget_ok:
  assumes "manager_ok Es M" "GetBudget E M = (hs, M')"
  shows "manager_ok Es M'"
proof -
  let ?props = "map_vals (proposal_CleanAndRemove E False) (mapProposals M)"
  have p: "props_ok Es ?props" using assms(1) by (simp add: manager_ok_def props_ok_map_vals CleanAndRemove_ok)
  have "props_ok Es (snd (allot_loop E start tot (sort_by sortProposalsByVotes ?props) 0 ?props))" for start tot
    using p by (intro allot_loop_ok) (simp_all add: props_ok_def)
  then show ?thesis using assms p
    by (auto simp: GetBudget_def Let_def manager_ok_def split: option.splits prod.splits) (metis snd_conv)
qed

lemma SubmitVote_ok:
  assumes Es: "same_hashes Es" "E \<in> Es" and M: "manager_ok Es M" and s: "SubmitVote E b M = (M', acts)"
  shows "manager_ok Es M'"
proof (cases "fin_vote_Sign E (CFinalizedBudgetVote_of E (bg_activeVin E) (finalized_GetHash E b))")
  case (Some v)
  obtain res M2 acts2 where u: "UpdateFinalizedBudget E v False M = (res, M2, acts2)"
    by (cases "UpdateFinalizedBudget E v False M")
  have "fin_authentic Es v" using Some Es(2)
    by (auto simp: fin_vote_Sign_def fin_authentic_def fin_vote_message_def)
  from UpdateFinalizedBudget_ok [OF Es M this u] show ?thesis using s Some u
    by (auto simp: SubmitVote_def manager_ok_def split: sum.splits)
qed (use M s in \<open>simp add: SubmitVote_def\<close>)

lemma CheckAndVote_ok:
  assumes Es: "same_hashes Es" "E \<in> Es" and M: "manager_ok Es M" and c: "CheckAndVote E h M = (M', acts)"
  shows "manager_ok Es M'"
proof (cases "map_of (mapFinalizedBudgets M) h")
  case (Some b)
  let ?M = "M\<lparr>nDraws := nDraws M + 1\<rparr>"
  let ?M' = "?M\<lparr>mapFinalizedBudgets := omap_insert (<) h (b\<lparr>fAutoChecked := True\<rparr>) (mapFinalizedBudgets ?M)\<rparr>"
  have "finalized_ok Es h b" using M Some fins_ok_lookup by (auto simp: manager_ok_def)
  then have ok: "manager_ok Es ?M" "manager_ok Es ?M'" using M by (simp_all add: manager_ok_def fins_ok_insert)
  obtain hs M2 where g: "GetBudget E ?M' = (hs, M2)" by (cases "GetBudget E ?M'")
  have "manager_ok Es M2" by (rule GetBudget_ok [OF ok(2) g])
  with SubmitVote_ok [OF Es this] show ?thesis using c Some M ok g
    by (auto simp: CheckAndVote_def Let_def split: if_splits)
qed (use M c in \<open>simp add: CheckAndVote_def\<close>)

lemma omap_insert_new_cases:
  "omap_insert_new k v m = m \<or> omap_insert_new k v m = omap_insert (<) k v m"
  by (simp add: omap_insert_new_def)

lemma props_ok_insert_new: "props_ok Es m \<Longrightarrow> proposal_ok Es h p \<Longrightarrow> props_ok Es (omap_insert_new h p m)"
  using omap_insert_new_cases [of h p m] props_ok_insert by metis

lemma fins_ok_insert_new: "fins_ok Es m \<Longrightarrow> finalized_ok Es h b \<Longrightarrow> fins_ok Es (omap_insert_new h b m)"
  using omap_insert_new_cases [of h b m] fins_ok_insert by metis

text \<open>A stored object keeps its key when it is checked and copied.\<close>

lemma proposal_ok_checked:
  assumes "E \<in> Es" "proposal_ok Es h p" "proposal_IsValid E p c = (Inr u, p')"
  shows "proposal_GetHash E p' = h" "proposal_ok Es h p'"
proof -
  have p': "p' = p\<lparr>bp_nTime := bp_nTime p'\<rparr>" by (rule proposal_IsValid_Inr [OF assms(3)])
  have "proposal_GetHash E (p\<lparr>bp_nTime := bp_nTime p'\<rparr>) = h" using assms(1,2) by (simp add: proposal_ok_def)
  then show "proposal_GetHash E p' = h" using p' by simp
  have "proposal_ok Es h (p\<lparr>bp_nTime := bp_nTime p'\<rparr>)" using assms(2) by simp
  then show "proposal_ok Es h p'" using p' by simp
qed

lemma finalized_ok_checked:
  assumes "finalized_ok Es h b" "finalized_IsValid E b c = (res, b')"
  shows "finalized_ok Es h b'"
proof -
  have b': "b' = b\<lparr>fb_nTime := fb_nTime b'\<rparr>" by (rule finalized_IsValid_time [OF assms(2)])
  have "finalized_ok Es h (b\<lparr>fb_nTime := fb_nTime b'\<rparr>)" using assms(1) by simp
  then show ?thesis using b' by simp
qed

lemma proposals_loop_ok:
  assumes Es: "same_hashes Es" "E \<in> Es"
  shows "\<forall>(h, p) \<in> set m. proposal_ok Es h p \<Longrightarrow> props_ok Es tmp \<Longrightarrow> props_ok Es (proposals_loop E m tmp)"
proof (induction m arbitrary: tmp)
  case (Cons hp m)
  obtain h p res p' where hp: "hp = (h, p)" "proposal_IsValid E p True = (res, p')"
    by (cases hp; cases "proposal_IsValid E (snd hp) True") auto
  show ?case
  proof (cases res)
    case (Inr u)
    have "proposal_GetHash E p' = h" "proposal_ok Es h p'"
      using proposal_ok_checked [OF Es(2)] Cons.prems(1) hp Inr by auto
    then have "props_ok Es (omap_insert_new (proposal_GetHash E p') (copy_proposal p') tmp)"
      using Cons.prems(2) by (simp add: props_ok_insert_new)
    then show ?thesis using Cons.IH Cons.prems hp Inr by simp
  qed (use Cons hp in simp)
qed simp

lemma finalized_loop_ok:
  assumes Es: "same_hashes Es" "E \<in> Es"
  shows "manager_ok Es M \<Longrightarrow> fins_ok Es tmp \<Longrightarrow> finalized_loop E hs M tmp = (M', tmp', acts) \<Longrightarrow>
    manager_ok Es M' \<and> fins_ok Es tmp'"
proof (induction hs arbitrary: M tmp acts)
  case (Cons h hs)
  show ?case
  proof (cases "map_of (mapFinalizedBudgets M) h")
    case None
    then show ?thesis using Cons by simp
  next
    case (Some b)
    obtain res b' where v: "finalized_IsValid E b True = (res, b')" by (cases "finalized_IsValid E b True")
    have b: "finalized_ok Es h b" using Cons.prems(1) Some fins_ok_lookup by (auto simp: manager_ok_def)
    from finalized_ok_checked [OF b v] have b': "finalized_ok Es h b'" .
    let ?M = "\<lambda>f. M\<lparr>mapFinalizedBudgets := omap_insert (<) h (b'\<lparr>fb_fValid := f\<rparr>) (mapFinalizedBudgets M)\<rparr>"
    have M1: "manager_ok Es (?M f)" for f using Cons.prems(1) b' by (simp add: manager_ok_def fins_ok_insert)
    show ?thesis
    proof (cases res)
      case (Inl e)
      then show ?thesis using Cons.IH [OF M1 Cons.prems(2)] Cons.prems(3) Some v by simp
    next
      case (Inr u)
      obtain M2 acts1 where c: "CheckAndVote E h (?M True) = (M2, acts1)" by (cases "CheckAndVote E h (?M True)")
      have M2: "manager_ok Es M2" by (rule CheckAndVote_ok [OF Es M1 c])
      define b2 where "b2 = (case map_of (mapFinalizedBudgets M2) h of Some b \<Rightarrow> b | None \<Rightarrow> b')"
      have "finalized_ok Es h b2" using M2 b' fins_ok_lookup
        by (auto simp: b2_def manager_ok_def split: option.splits)
      moreover from this have "finalized_GetHash E b2 = h" using Es(2) by (simp add: finalized_ok_def)
      ultimately have "fins_ok Es (omap_insert_new (finalized_GetHash E b2) (copy_finalized b2) tmp)"
        using Cons.prems(2) by (simp add: fins_ok_insert_new)
      then show ?thesis using Cons.IH [OF M2] Cons.prems(3) Some v Inr c
        by (auto simp: Let_def b2_def [symmetric] split: prod.splits)
    qed
  qed
qed simp

lemma CheckAndRemove_ok:
  assumes Es: "same_hashes Es" "E \<in> Es" and M: "manager_ok Es M" and c: "CheckAndRemove E M = (M', acts)"
  shows "manager_ok Es M'"
proof -
  obtain M1 tmp acts1 where f: "finalized_loop E (map fst (mapFinalizedBudgets M)) M [] = (M1, tmp, acts1)"
    by (cases "finalized_loop E (map fst (mapFinalizedBudgets M)) M []") auto
  have M1: "manager_ok Es M1" "fins_ok Es tmp" using finalized_loop_ok [OF Es M _ f] by (simp_all add: fins_ok_def)
  have "props_ok Es (proposals_loop E (mapProposals M1) [])"
    using M1(1) by (intro proposals_loop_ok [OF Es]) (simp_all add: manager_ok_def props_ok_def)
  then show ?thesis using c f M1 by (auto simp: CheckAndRemove_def manager_ok_def)
qed

text \<open>Fields the invariant does not read.\<close>

lemma manager_ok_cong:
  assumes "manager_ok Es M" "mapProposals M' = mapProposals M" "mapFinalizedBudgets M' = mapFinalizedBudgets M"
    "mapOrphanMasternodeBudgetVotes M' = mapOrphanMasternodeBudgetVotes M"
    "mapOrphanFinalizedBudgetVotes M' = mapOrphanFinalizedBudgetVotes M"
    "vecImmatureBudgetProposals M' = vecImmatureBudgetProposals M"
    "vecImmatureFinalizedBudgets M' = vecImmatureFinalizedBudgets M"
  shows "manager_ok Es M'"
  using assms by (simp add: manager_ok_def)

lemma manager_ok_updates [simp]:
  "manager_ok Es M \<Longrightarrow> manager_ok Es (M\<lparr>nDraws := n\<rparr>)"
  "manager_ok Es M \<Longrightarrow> manager_ok Es (M\<lparr>nSubmittedHeight := h\<rparr>)"
  "manager_ok Es M \<Longrightarrow> manager_ok Es (M\<lparr>mapCollateralTxids := c\<rparr>)"
  "manager_ok Es M \<Longrightarrow> manager_ok Es (M\<lparr>mapSeenFinalizedBudgets := sf\<rparr>)"
  "manager_ok Es M \<Longrightarrow> manager_ok Es (M\<lparr>mapSeenMasternodeBudgetProposals := sp\<rparr>)"
  "manager_ok Es M \<Longrightarrow> manager_ok Es (M\<lparr>mapSeenMasternodeBudgetVotes := sv\<rparr>)"
  "manager_ok Es M \<Longrightarrow> manager_ok Es (M\<lparr>mapSeenFinalizedBudgetVotes := sw\<rparr>)"
  "manager_ok Es M \<Longrightarrow> manager_ok Es (M\<lparr>mapPayment_History := hist\<rparr>)"
  "manager_ok Es M \<Longrightarrow> manager_ok Es (M\<lparr>askedForSourceProposalOrBudget := a\<rparr>)"
  by (erule manager_ok_cong; simp)+

lemma submit_with_collateral_ok:
  assumes Es: "same_hashes Es" "E \<in> Es" and M: "manager_ok Es M" and b: "fb_mapVotes b = []"
    and s: "submit_with_collateral E h b txidc M = (M', acts)"
  shows "manager_ok Es M'"
proof -
  obtain res b' where v: "finalized_IsValid E (b\<lparr>fb_nFeeTXHash := txidc\<rparr>) True = (res, b')"
    by (cases "finalized_IsValid E (b\<lparr>fb_nFeeTXHash := txidc\<rparr>) True")
  have "b' = b\<lparr>fb_nFeeTXHash := txidc, fb_nTime := fb_nTime b'\<rparr>" using finalized_IsValid_time [OF v] .
  then have b': "fb_mapVotes b' = []" using b by (metis CFinalizedBudget.select_convs(6) CFinalizedBudget.surjective CFinalizedBudget.update_convs(7,8))
  let ?M = "M\<lparr>mapSeenFinalizedBudgets :=
              omap_insert_new (finalized_GetHash E b') (copy_finalized b') (mapSeenFinalizedBudgets M)\<rparr>"
  obtain added M2 where a: "AddFinalizedBudget E b' ?M = (added, M2)" by (cases "AddFinalizedBudget E b' ?M")
  have "manager_ok Es M2" using AddFinalizedBudget_ok [OF Es _ a b'] M by simp
  then show ?thesis using s v a M
    by (auto simp: submit_with_collateral_def Let_def split: option.splits prod.splits sum.splits if_splits)
qed

lemma SubmitFinalBudget_ok:
  assumes Es: "same_hashes Es" "E \<in> Es" and M: "manager_ok Es M" and s: "SubmitFinalBudget E M = (M', acts)"
  shows "manager_ok Es M'"
proof -
  obtain hs M1 where g: "GetBudget E M = (hs, M1)" by (cases "GetBudget E M")
  have M1: "manager_ok Es M1" by (rule GetBudget_ok [OF M g])
  have "fb_mapVotes (CFinalizedBudgetBroadcast_of name st pays fee) = []" for name st pays fee
    by (simp add: CFinalizedBudgetBroadcast_of_def)
  note w = submit_with_collateral_ok [OF Es _ this]
  show ?thesis using s g M M1
    by (auto simp: SubmitFinalBudget_def Let_def split: if_splits option.splits
        dest: w [OF M1] w [OF manager_ok_updates(3) [OF M1]])
qed

lemma mark_ok:
  assumes "manager_ok Es M"
  shows "(\<And>h k v. vote_ok Es h k v \<Longrightarrow> vote_ok Es h k (f v)) \<Longrightarrow> manager_ok Es (mark_proposals f M)"
    "(\<And>h k v. fin_vote_ok Es h k v \<Longrightarrow> fin_vote_ok Es h k (g v)) \<Longrightarrow> manager_ok Es (mark_finalized g M)"
  using assms
  by (auto simp: manager_ok_def mark_proposals_def mark_finalized_def props_ok_def fins_ok_def omap_map_snd simp del: map_map
      intro!: proposal_ok_votes finalized_ok_votes)

lemma sync_marks_ok:
  assumes "manager_ok Es M"
  shows "manager_ok Es (budget_ResetSync M)" "manager_ok Es (MarkSynced M)" "manager_ok Es (ClearSeen M)"
  using assms by (auto simp: budget_ResetSync_def MarkSynced_def ClearSeen_def intro!: mark_ok)

lemma incremental_sync_ok: "manager_ok Es M \<Longrightarrow> incremental_sync E M = (M', acts) \<Longrightarrow> manager_ok Es M'"
  by (auto simp: incremental_sync_def Let_def sync_marks_ok split: if_splits)

lemma proposal_IsValid_votes: "proposal_IsValid E p c = (Inr u, p') \<Longrightarrow> bp_mapVotes p' = bp_mapVotes p"
  using proposal_IsValid_Inr(1) by (metis CBudgetProposal.select_convs(11) CBudgetProposal.surjective CBudgetProposal.update_convs(9))

lemma finalized_IsValid_votes: "finalized_IsValid E b c = (Inr u, b') \<Longrightarrow> fb_mapVotes b' = fb_mapVotes b"
  using finalized_IsValid_time by (metis CFinalizedBudget.select_convs(6) CFinalizedBudget.surjective CFinalizedBudget.update_convs(8))

lemma immature_proposals_ok:
  assumes Es: "same_hashes Es" "E \<in> Es"
  shows "manager_ok Es M \<Longrightarrow> \<forall>p \<in> set ps. bp_mapVotes p = [] \<Longrightarrow> immature_proposals E ps M = (keep, M', acts) \<Longrightarrow>
    manager_ok Es M' \<and> (\<forall>p \<in> set keep. bp_mapVotes p = [])"
proof (induction ps arbitrary: M keep acts)
  case (Cons p ps)
  obtain res t conf where c:
    "IsBudgetCollateralValid E (bp_nFeeTXHash p) (proposal_GetHash E p) (bp_nTime p) False = (res, t, conf)"
    by (cases "IsBudgetCollateralValid E (bp_nFeeTXHash p) (proposal_GetHash E p) (bp_nTime p) False") auto
  obtain res2 p' where v: "proposal_IsValid E (p\<lparr>bp_nTime := t\<rparr>) True = (res2, p')"
    by (cases "proposal_IsValid E (p\<lparr>bp_nTime := t\<rparr>) True")
  have p: "bp_mapVotes p = []" "\<forall>p \<in> set ps. bp_mapVotes p = []" using Cons.prems(2) by simp_all
  show ?case
  proof (cases res)
    case (Inl e)
    then show ?thesis using Cons.IH [OF Cons.prems(1) p(2)] Cons.prems(3) c p(1) by (auto split: prod.splits)
  next
    case res: (Inr u)
    show ?thesis
    proof (cases res2)
      case (Inl e)
      then show ?thesis using Cons.IH [OF Cons.prems(1) p(2)] Cons.prems(3) c v res by simp
    next
      case (Inr u2)
      obtain added M1 where a: "AddProposal E (copy_proposal p') M = (added, M1)" by (cases "AddProposal E (copy_proposal p') M")
      have "bp_mapVotes (copy_proposal p') = []" using proposal_IsValid_votes [of E "p\<lparr>bp_nTime := t\<rparr>" True u2 p'] v Inr p(1)
        by (simp add: copy_proposal_def)
      from AddProposal_ok [OF Es Cons.prems(1) a this] show ?thesis
        using Cons.IH [of M1] p(2) Cons.prems(3) c v res Inr a by (auto split: prod.splits)
    qed
  qed
qed simp

lemma immature_finalized_ok:
  assumes Es: "same_hashes Es" "E \<in> Es"
  shows "manager_ok Es M \<Longrightarrow> \<forall>b \<in> set bs. fb_mapVotes b = [] \<Longrightarrow> immature_finalized E bs M = (keep, M', acts) \<Longrightarrow>
    manager_ok Es M' \<and> (\<forall>b \<in> set keep. fb_mapVotes b = [])"
proof (induction bs arbitrary: M keep acts)
  case (Cons b bs)
  obtain res t conf where c:
    "IsBudgetCollateralValid E (fb_nFeeTXHash b) (finalized_GetHash E b) (fb_nTime b) True = (res, t, conf)"
    by (cases "IsBudgetCollateralValid E (fb_nFeeTXHash b) (finalized_GetHash E b) (fb_nTime b) True") auto
  obtain res2 b' where v: "finalized_IsValid E (b\<lparr>fb_nTime := t\<rparr>) True = (res2, b')"
    by (cases "finalized_IsValid E (b\<lparr>fb_nTime := t\<rparr>) True")
  have b: "fb_mapVotes b = []" "\<forall>b \<in> set bs. fb_mapVotes b = []" using Cons.prems(2) by simp_all
  show ?case
  proof (cases res)
    case (Inl e)
    then show ?thesis using Cons.IH [OF Cons.prems(1) b(2)] Cons.prems(3) c b(1) by (auto split: prod.splits)
  next
    case res: (Inr u)
    show ?thesis
    proof (cases res2)
      case (Inl e)
      then show ?thesis using Cons.IH [OF Cons.prems(1) b(2)] Cons.prems(3) c v res by simp
    next
      case (Inr u2)
      obtain added M1 where a: "AddFinalizedBudget E (copy_finalized b') M = (added, M1)"
        by (cases "AddFinalizedBudget E (copy_finalized b') M")
      have "fb_mapVotes (copy_finalized b') = []" using finalized_IsValid_votes [of E "b\<lparr>fb_nTime := t\<rparr>" True u2 b'] v Inr b(1)
        by (simp add: copy_finalized_def)
      from AddFinalizedBudget_ok [OF Es Cons.prems(1) a this] show ?thesis
        using Cons.IH [of M1] b(2) Cons.prems(3) c v res Inr a by (auto split: prod.splits)
    qed
  qed
qed simp

lemma manager_ok_immature:
  "manager_ok Es M \<Longrightarrow> \<forall>p \<in> set (vecImmatureBudgetProposals M). bp_mapVotes p = []"
  "manager_ok Es M \<Longrightarrow> \<forall>b \<in> set (vecImmatureFinalizedBudgets M). fb_mapVotes b = []"
  by (simp_all add: manager_ok_def)

lemma new_block_cleanup_ok:
  assumes Es: "same_hashes Es" "E \<in> Es" and M: "manager_ok Es M" and c: "new_block_cleanup E M = (M', acts)"
  shows "manager_ok Es M'"
proof -
  obtain M1 acts1 where r: "CheckAndRemove E M = (M1, acts1)" by (cases "CheckAndRemove E M")
  have M1: "manager_ok Es M1" by (rule CheckAndRemove_ok [OF Es M r])
  define M2 where "M2 = M1\<lparr>askedForSourceProposalOrBudget :=
                      filter (\<lambda>(_, t). bg_GetTime E - 60 * 60 * 24 < t) (askedForSourceProposalOrBudget M1),
                    mapProposals := map_vals (proposal_CleanAndRemove E False) (mapProposals M1),
                    mapFinalizedBudgets := map_vals (finalized_CleanAndRemove E False) (mapFinalizedBudgets M1)\<rparr>"
  have M2: "manager_ok Es M2" using M1
    by (simp add: M2_def manager_ok_def props_ok_map_vals fins_ok_map_vals CleanAndRemove_ok)
  obtain kp M3 acts2 where p: "immature_proposals E (vecImmatureBudgetProposals M2) M2 = (kp, M3, acts2)"
    by (cases "immature_proposals E (vecImmatureBudgetProposals M2) M2") auto
  have M3: "manager_ok Es M3" "\<forall>p \<in> set kp. bp_mapVotes p = []"
    using immature_proposals_ok [OF Es M2 manager_ok_immature(1) [OF M2] p] by simp_all
  obtain kb M4 acts3 where b: "immature_finalized E (vecImmatureFinalizedBudgets M3) M3 = (kb, M4, acts3)"
    by (cases "immature_finalized E (vecImmatureFinalizedBudgets M3) M3") auto
  have M4: "manager_ok Es M4" "\<forall>b \<in> set kb. fb_mapVotes b = []"
    using immature_finalized_ok [OF Es M3(1) manager_ok_immature(2) [OF M3(1)] b] by simp_all
  have "M' = M4\<lparr>vecImmatureBudgetProposals := kp, vecImmatureFinalizedBudgets := kb\<rparr>"
    using c r p b by (simp add: new_block_cleanup_def Let_def M2_def)
  then show ?thesis using M3(2) M4 by (simp add: manager_ok_def)
qed

lemma NewBlock_ok:
  assumes Es: "same_hashes Es" "E \<in> Es" and M: "manager_ok Es M" and n: "NewBlock E M = (M', acts)"
  shows "manager_ok Es M'"
proof -
  obtain M1 acts1 where s: "(if bg_strBudgetMode E = ''suggest'' then SubmitFinalBudget E M else (M, [])) = (M1, acts1)"
    by (metis surj_pair)
  have M1: "manager_ok Es M1" using s M SubmitFinalBudget_ok [OF Es M] by (auto split: if_splits)
  obtain M2 acts2 where i: "incremental_sync E M1 = (M2, acts2)" by (cases "incremental_sync E M1")
  have M2: "manager_ok Es M2" by (rule incremental_sync_ok [OF M1 i])
  show ?thesis using n s i M M1 new_block_cleanup_ok [OF Es M2]
    by (auto simp: NewBlock_def split: if_splits prod.splits)
qed

lemma process_mprop_ok:
  assumes Es: "same_hashes Es" "E \<in> Es" and M: "manager_ok Es M" and p: "bp_mapVotes p = []"
    and r: "process_mprop E p M = (M', acts)"
  shows "manager_ok Es M'"
proof -
  let ?h = "proposal_GetHash E p"
  obtain res t conf where c: "IsBudgetCollateralValid E (bp_nFeeTXHash p) ?h (bp_nTime p) False = (res, t, conf)"
    by (cases "IsBudgetCollateralValid E (bp_nFeeTXHash p) ?h (bp_nTime p) False") auto
  let ?p = "p\<lparr>bp_nTime := t\<rparr>"
  let ?M = "M\<lparr>mapSeenMasternodeBudgetProposals :=
              omap_insert_new ?h (copy_proposal ?p) (mapSeenMasternodeBudgetProposals M)\<rparr>"
  obtain res2 p' where v: "proposal_IsValid E ?p True = (res2, p')" by (cases "proposal_IsValid E ?p True")
  obtain added M2 where a: "AddProposal E (copy_proposal p') ?M = (added, M2)" by (cases "AddProposal E (copy_proposal p') ?M")
  have imm: "manager_ok Es (M\<lparr>vecImmatureBudgetProposals := vecImmatureBudgetProposals M @ [copy_proposal ?p]\<rparr>)"
    using M p by (simp add: manager_ok_def copy_proposal_def)
  have fin: "manager_ok Es (CheckOrphanVotes E M2)" if "res2 = Inr u" for u
  proof -
    have "bp_mapVotes (copy_proposal p') = []" using proposal_IsValid_votes [of E ?p True u p'] v that p
      by (simp add: copy_proposal_def)
    from AddProposal_ok [OF Es _ a this] M show ?thesis by (simp add: CheckOrphanVotes_ok [OF Es])
  qed
  show ?thesis using r c v a M imm fin
    by (auto simp: process_mprop_def Let_def split: if_splits sum.splits)
qed

lemma process_fbs_ok:
  assumes Es: "same_hashes Es" "E \<in> Es" and M: "manager_ok Es M" and b: "fb_mapVotes b = []"
    and r: "process_fbs E b M = (M', acts)"
  shows "manager_ok Es M'"
proof -
  let ?h = "finalized_GetHash E b"
  obtain res t conf where c: "IsBudgetCollateralValid E (fb_nFeeTXHash b) ?h (fb_nTime b) True = (res, t, conf)"
    by (cases "IsBudgetCollateralValid E (fb_nFeeTXHash b) ?h (fb_nTime b) True") auto
  let ?b = "b\<lparr>fb_nTime := t\<rparr>"
  let ?M = "M\<lparr>mapSeenFinalizedBudgets := omap_insert_new ?h (copy_finalized ?b) (mapSeenFinalizedBudgets M)\<rparr>"
  obtain res2 b' where v: "finalized_IsValid E ?b True = (res2, b')" by (cases "finalized_IsValid E ?b True")
  obtain added M2 where a: "AddFinalizedBudget E (copy_finalized b') ?M = (added, M2)"
    by (cases "AddFinalizedBudget E (copy_finalized b') ?M")
  have imm: "manager_ok Es (M\<lparr>vecImmatureFinalizedBudgets := vecImmatureFinalizedBudgets M @ [copy_finalized ?b]\<rparr>)"
    using M b by (simp add: manager_ok_def copy_finalized_def)
  have fin: "manager_ok Es (CheckOrphanVotes E M2)" if "res2 = Inr u" for u
  proof -
    have "fb_mapVotes (copy_finalized b') = []" using finalized_IsValid_votes [of E ?b True u b'] v that b
      by (simp add: copy_finalized_def)
    from AddFinalizedBudget_ok [OF Es _ a this] M show ?thesis by (simp add: CheckOrphanVotes_ok [OF Es])
  qed
  show ?thesis using r c v a M imm fin
    by (auto simp: process_fbs_def Let_def split: if_splits sum.splits)
qed

lemma process_mvote_ok:
  assumes Es: "same_hashes Es" "E \<in> Es" and M: "manager_ok Es M" and r: "process_mvote E v M = (M', acts)"
  shows "manager_ok Es M'"
proof -
  let ?v = "v\<lparr>bv_fValid := True, bv_fSynced := False\<rparr>"
  let ?M = "M\<lparr>mapSeenMasternodeBudgetVotes := omap_insert_new (vote_GetHash E ?v) ?v (mapSeenMasternodeBudgetVotes M)\<rparr>"
  obtain res M2 acts2 where u: "UpdateProposal E ?v True ?M = (res, M2, acts2)" by (cases "UpdateProposal E ?v True ?M") auto
  have "manager_ok Es M2" if "vote_SignatureValid E ?v True"
    using UpdateProposal_ok [OF Es _ _ u] M that Es(2) by (fastforce simp: authentic_def)
  then show ?thesis using r u M by (auto simp: process_mvote_def Let_def split: if_splits sum.splits)
qed

lemma process_fbvote_ok:
  assumes Es: "same_hashes Es" "E \<in> Es" and M: "manager_ok Es M" and r: "process_fbvote E v M = (M', acts)"
  shows "manager_ok Es M'"
proof -
  let ?v = "v\<lparr>fv_fValid := True, fv_fSynced := False\<rparr>"
  let ?M = "M\<lparr>mapSeenFinalizedBudgetVotes := omap_insert_new (fin_vote_GetHash E ?v) ?v (mapSeenFinalizedBudgetVotes M)\<rparr>"
  obtain res M2 acts2 where u: "UpdateFinalizedBudget E ?v True ?M = (res, M2, acts2)"
    by (cases "UpdateFinalizedBudget E ?v True ?M") auto
  have "manager_ok Es M2" if "fin_vote_SignatureValid E ?v True"
    using UpdateFinalizedBudget_ok [OF Es _ _ u] M that Es(2) by (fastforce simp: fin_authentic_def)
  then show ?thesis using r u M by (auto simp: process_fbvote_def Let_def split: if_splits sum.splits)
qed

lemma received_votes [simp]: "bp_mapVotes (received_proposal p) = []" "fb_mapVotes (received_finalized b) = []"
  by (simp_all add: received_proposal_def received_finalized_def)

lemma budget_ProcessMessage_ok:
  assumes Es: "same_hashes Es" "E \<in> Es" and M: "manager_ok Es M"
    and r: "budget_ProcessMessage E asked msg M = (asked', M', acts)"
  shows "manager_ok Es M'"
  using r M
  by (cases msg) (auto split: if_splits prod.splits dest: process_mprop_ok [OF Es M received_votes(1)]
    process_fbs_ok [OF Es M received_votes(2)] process_mvote_ok [OF Es M] process_fbvote_ok [OF Es M])

lemma budget_reachable_ok:
  assumes "budget_reachable Es M" "same_hashes Es"
  shows "manager_ok Es M"
  using assms(1)
proof induction
  case reach_empty
  show ?case by (simp add: manager_ok_def empty_manager_def props_ok_def fins_ok_def)
next
  case (reach_message M E asked msg asked' M' acts)
  show ?case by (rule budget_ProcessMessage_ok [OF assms(2) reach_message.hyps(2) reach_message.IH reach_message.hyps(3)])
next
  case (reach_block M E M' acts)
  show ?case by (rule NewBlock_ok [OF assms(2) reach_block.hyps(2) reach_block.IH reach_block.hyps(3)])
next
  case (reach_payment M E tx h status M')
  then show ?case by (auto simp: manager_IsTransactionValid_def Let_def split: if_splits prod.splits)
next
  case (reach_budget M E hs M')
  then show ?case using GetBudget_ok by blast
next
  case (reach_all M E hs M')
  then show ?case
    by (auto simp: GetAllProposals_def manager_ok_def props_ok_map_vals CleanAndRemove_ok)
next
  case (reach_clear M)
  then show ?case by (simp add: budget_Clear_def manager_ok_def props_ok_def fins_ok_def)
qed

end
