(* ===== verification/BudgetChoice.thy ===== *)
theory BudgetChoice
  imports BudgetProps "HOL-Library.Multiset"
begin

text \<open>
  The choice of the proposals of the next cycle: \<open>GetBudget\<close> is the greedy choice by votes. And the
  authenticity of the votes it counts, with a run of messages as example.
\<close>

section \<open>Sorting\<close>

lemma mset_insort_by: "mset (insort_by lt x xs) = add_mset x (mset xs)"
  by (induction xs) auto

lemma mset_sort_by: "mset (sort_by lt xs) = mset xs"
  unfolding sort_by_def by (induction xs) (simp_all add: mset_insort_by)

text \<open>The strict weak orders of \<open>std::sort\<close>.\<close>

locale weak_order =
  fixes lt :: "'a \<Rightarrow> 'a \<Rightarrow> bool"
  assumes asym: "lt x y \<Longrightarrow> \<not> lt y x"
    and negtrans: "\<not> lt x y \<Longrightarrow> \<not> lt y z \<Longrightarrow> \<not> lt x z"
begin

lemma sorted_insort_by: "sorted_wrt (\<lambda>x y. \<not> lt y x) xs \<Longrightarrow> sorted_wrt (\<lambda>x y. \<not> lt y x) (insort_by lt x xs)"
proof (induction xs)
  case (Cons y ys)
  have s: "set (insort_by lt x ys) = insert x (set ys)" by (rule set_insort_by)
  show ?case
  proof (cases "lt y x")
    case True
    then show ?thesis using Cons asym s by auto
  next
    case False
    moreover have "\<not> lt z x" if "z \<in> set ys" for z using negtrans [of z y x] Cons.prems that False by auto
    ultimately show ?thesis using Cons.prems by auto
  qed
qed simp

lemma sorted_sort_by: "sorted_wrt (\<lambda>x y. \<not> lt y x) (sort_by lt xs)"
  unfolding sort_by_def by (induction xs) (simp_all add: sorted_insort_by)

end

interpretation by_votes: weak_order sortProposalsByVotes
  by unfold_locales (auto simp: sortProposalsByVotes_def Let_def split: if_splits)

interpretation by_vote_count: weak_order sortFinalizedBudgetsByVotes
  by unfold_locales (auto simp: sortFinalizedBudgetsByVotes_def split: if_splits)

section \<open>The greedy choice\<close>

fun greedy :: "('a \<Rightarrow> bool) \<Rightarrow> ('a \<Rightarrow> int) \<Rightarrow> int \<Rightarrow> 'a list \<Rightarrow> int \<Rightarrow> 'a list" where
  "greedy ok amt tot [] spent = []"
| "greedy ok amt tot (x # xs) spent =
     (if ok x \<and> amt x + spent \<le> tot then x # greedy ok amt tot xs (spent + amt x) else greedy ok amt tot xs spent)"

lemma greedy_sub: "x \<in> set (greedy ok amt tot xs spent) \<Longrightarrow> x \<in> set xs \<and> ok x"
  by (induction xs arbitrary: spent) (auto split: if_splits)

lemma greedy_sum: "spent \<le> tot \<Longrightarrow> spent + sum_list (map amt (greedy ok amt tot xs spent)) \<le> tot"
proof (induction xs arbitrary: spent)
  case (Cons x xs)
  then show ?case using Cons.IH [of "spent + amt x"] by (auto simp: algebra_simps)
qed simp

lemma greedy_sorted: "sorted_wrt P xs \<Longrightarrow> sorted_wrt P (greedy ok amt tot xs spent)"
proof (induction xs arbitrary: spent)
  case (Cons x xs)
  then show ?case using greedy_sub [of _ ok amt tot xs] by auto
qed simp

lemma greedy_distinct: "distinct (map f xs) \<Longrightarrow> distinct (map f (greedy ok amt tot xs spent))"
proof (induction xs arbitrary: spent)
  case (Cons x xs)
  then show ?case using greedy_sub [of _ ok amt tot xs] by (auto simp: image_iff)
qed simp

text \<open>What is left out did not fit beside what was chosen among those not ranked behind it.\<close>

lemma greedy_maximal:
  assumes "sorted_wrt (\<lambda>x y. \<not> lt y x) xs" "\<forall>x \<in> set xs. 0 \<le> amt x" "x \<in> set xs" "ok x"
    "x \<notin> set (greedy ok amt tot xs spent)"
  shows "tot < spent + amt x + sum_list (map amt (filter (\<lambda>y. \<not> lt x y) (greedy ok amt tot xs spent)))"
  using assms
proof (induction xs arbitrary: spent)
  case (Cons y ys)
  have nonneg: "0 \<le> sum_list (map amt (filter P (greedy ok amt tot ys a)))" for P a
    using Cons.prems(2) greedy_sub [of _ ok amt tot ys a] by (intro sum_list_nonneg) auto
  show ?case
  proof (cases "x = y")
    case True
    then have "\<not> amt x + spent \<le> tot" using Cons.prems(4,5) by auto
    then show ?thesis using nonneg [of "\<lambda>y. \<not> lt x y" spent] True by simp
  next
    case False
    then have x: "x \<in> set ys" using Cons.prems(3) by simp
    have "\<not> lt x y" using Cons.prems(1) x by simp
    then show ?thesis
      using Cons.IH [of spent] Cons.IH [of "spent + amt y"] Cons.prems x by (auto split: if_splits)
  qed
qed simp

abbreviation passing :: "budget_env \<Rightarrow> int \<Rightarrow> CBudgetProposal \<Rightarrow> bool" where
  "passing E start p \<equiv> IsPassing E p (bg_tip E) start (start + cycle_blocks E - 1) (bg_CountEnabled E)"

lemma allot_loop_greedy:
  assumes "tot \<le> max_budget"
  shows "0 \<le> alloc \<Longrightarrow> alloc \<le> max_budget \<Longrightarrow> \<forall>(h, p) \<in> set items. 0 \<le> bp_nAmount p \<and> bp_nAmount p \<le> max_budget \<Longrightarrow>
    fst (allot_loop E start tot items alloc props) =
      map fst (greedy (\<lambda>(h, p). passing E start p) (\<lambda>(h, p). bp_nAmount p) tot items alloc)"
proof (induction items arbitrary: alloc props)
  case (Cons hp items)
  obtain h p where hp: "hp = (h, p)" by (cases hp)
  have p: "0 \<le> bp_nAmount p" "bp_nAmount p \<le> max_budget" using Cons.prems(3) hp by auto
  have m: "max_budget + max_budget < 2 ^ 63" by (simp add: max_budget_def COIN_def)
  have add: "add64 (bp_nAmount p) alloc = bp_nAmount p + alloc" "add64 alloc (bp_nAmount p) = alloc + bp_nAmount p"
    using p Cons.prems(1,2) m by (simp_all add: add64_def signed_take_bit_int_eq_self)
  have IH: "fst (allot_loop E start tot items a ps) =
      map fst (greedy (\<lambda>(h, p). passing E start p) (\<lambda>(h, p). bp_nAmount p) tot items a)"
    if "0 \<le> a" "a \<le> max_budget" for a ps using Cons.IH that Cons.prems(3) by simp
  have "alloc + bp_nAmount p \<le> max_budget" if "bp_nAmount p + alloc \<le> tot" using that assms by simp
  then show ?case using IH [of alloc] IH [of "alloc + bp_nAmount p"] p Cons.prems(1,2)
    by (simp add: hp add case_prod_unfold)
qed simp

lemma allot_loop_other:
  "k \<notin> fst ` set items \<Longrightarrow> map_of (snd (allot_loop E start tot items alloc props)) k = map_of props k"
proof (induction items arbitrary: alloc props)
  case (Cons hp items)
  obtain h p where hp: "hp = (h, p)" by (cases hp)
  have h: "k \<noteq> h" "k \<notin> fst ` set items" using Cons.prems hp by auto
  have "map_of (snd (allot_loop E start tot items a (omap_insert (<) h q props))) k = map_of props k" for a q
    using Cons.IH [OF h(2)] h(1) by simp
  then show ?case using Cons.IH [OF h(2), of alloc props] by (simp add: hp case_prod_unfold)
qed simp

lemma allot_loop_alloted:
  "distinct (map fst items) \<Longrightarrow> h \<in> set (fst (allot_loop E start tot items alloc props)) \<Longrightarrow>
   \<exists>p. (h, p) \<in> set items \<and>
     map_of (snd (allot_loop E start tot items alloc props)) h = Some (p\<lparr>bp_nAlloted := Some (bp_nAmount p)\<rparr>)"
proof (induction items arbitrary: alloc props)
  case (Cons kp items)
  obtain k p where kp: "kp = (k, p)" by (cases kp)
  define a where "a = add64 alloc (bp_nAmount p)"
  define ps where "ps = omap_insert (<) k (p\<lparr>bp_nAlloted := Some (bp_nAmount p)\<rparr>) props"
  have k: "k \<notin> fst ` set items" using Cons.prems(1) kp by auto
  show ?case
  proof (cases "passing E start p \<and> add64 (bp_nAmount p) alloc \<le> tot")
    case True
    obtain r q where rq: "allot_loop E start tot items a ps = (r, q)" by (cases "allot_loop E start tot items a ps")
    have l: "allot_loop E start tot ((k, p) # items) alloc props = (k # r, q)"
      using True rq by (simp add: a_def ps_def)
    show ?thesis
    proof (cases "h = k")
      case True
      have "map_of q k = map_of ps k" using allot_loop_other [OF k, of E start tot a ps] rq by simp
      then show ?thesis using True l by (intro exI [of _ p]) (simp add: kp ps_def del: allot_loop.simps)
    next
      case False
      then have "h \<in> set (fst (allot_loop E start tot items a ps))" using Cons.prems(2) l rq kp by (simp del: allot_loop.simps)
      from Cons.IH [OF _ this] show ?thesis using Cons.prems(1) using l by (auto simp: kp rq simp del: allot_loop.simps)
    qed
  next
    case False
    obtain ps' where l: "allot_loop E start tot ((k, p) # items) alloc props = allot_loop E start tot items alloc ps'"
      using False by (cases "passing E start p") auto
    then have "h \<in> set (fst (allot_loop E start tot items alloc ps'))" using Cons.prems(2) kp by (simp del: allot_loop.simps)
    from Cons.IH [OF _ this] show ?thesis using Cons.prems(1) using l by (auto simp: kp simp del: allot_loop.simps)
  qed
qed simp

declare allot_loop.simps [simp del]

section \<open>The proposals of the next cycle\<close>

lemma GetTotalBudget_next_cycle:
  assumes "bg_params E = Params net" "bg_tip E = Some tip"
  shows "0 \<le> GetTotalBudget E (next_cycle E (int n))"
proof -
  have c: "0 < cycle_blocks E" using assms(1) by (cases net) (simp_all add: params_defs)
  then have "0 < next_cycle E (int n)"
    using zmod_le_nonneg_dividend [of "int n" "cycle_blocks E"] unfolding next_cycle_def by linarith
  moreover have "signed_take_bit 63 (2160000000000 :: int) = 2160000000000"
    "signed_take_bit 63 (432000000000 :: int) = 432000000000" by code_simp+
  ultimately show ?thesis using assms(2) by (simp add: GetTotalBudget_def COIN_def Let_def)
qed

definition clean_proposals :: "budget_env \<Rightarrow> CBudgetManager \<Rightarrow> (hash256 \<times> CBudgetProposal) list" where
  "clean_proposals E M = map_vals (proposal_CleanAndRemove E False) (mapProposals M)"

lemma clean_proposals_ok: "manager_ok Es M \<Longrightarrow> props_ok Es (clean_proposals E M)"
  by (simp add: clean_proposals_def manager_ok_def props_ok_map_vals CleanAndRemove_ok)

text \<open>The choice as a list of pairs, before the keys are taken.\<close>

lemma GetBudget_choice:
  assumes "manager_ok Es M" "bg_params E = Params net" "bg_tip E = Some tip" "GetBudget E M = (hs, M')"
  defines "start \<equiv> next_cycle E (int (nHeight (bg_store E tip)))"
  defines "items \<equiv> sort_by sortProposalsByVotes (clean_proposals E M)"
  shows "hs = map fst (greedy (\<lambda>(h, p). passing E start p) (\<lambda>(h, p). bp_nAmount p) (GetTotalBudget E start) items 0)"
    "\<And>h. h \<in> set hs \<Longrightarrow> \<exists>p. map_of (clean_proposals E M) h = Some p \<and>
       map_of (mapProposals M') h = Some (p\<lparr>bp_nAlloted := Some (bp_nAmount p)\<rparr>)"
proof -
  let ?props = "clean_proposals E M"
  let ?a = "allot_loop E start (GetTotalBudget E start) items 0 ?props"
  have ok: "props_ok Es ?props" by (rule clean_proposals_ok [OF assms(1)])
  have eq: "hs = fst ?a" "mapProposals M' = snd ?a"
    using assms(3,4) by (auto simp: GetBudget_def Let_def start_def items_def clean_proposals_def split: prod.splits)
  have amounts: "\<forall>(h, p) \<in> set items. 0 \<le> bp_nAmount p \<and> bp_nAmount p \<le> max_budget"
    using ok by (auto simp: items_def props_ok_def proposal_ok_def COIN_def)
  have "0 \<le> max_budget" by (simp add: max_budget_def COIN_def)
  then show "hs = map fst (greedy (\<lambda>(h, p). passing E start p) (\<lambda>(h, p). bp_nAmount p) (GetTotalBudget E start) items 0)"
    using allot_loop_greedy [where tot = "GetTotalBudget E start" and alloc = 0 and items = items and props = ?props]
      GetTotalBudget_le amounts eq(1) by simp
  have d: "distinct (map fst items)"
  proof -
    have "mset (map fst items) = mset (map fst ?props)" by (simp add: items_def mset_sort_by)
    moreover have "distinct (map fst ?props)" using ok by (simp add: props_ok_def omap_distinct)
    ultimately show ?thesis using mset_eq_imp_distinct_iff by blast
  qed
  fix h assume "h \<in> set hs"
  then obtain p where "(h, p) \<in> set items" "map_of (snd ?a) h = Some (p\<lparr>bp_nAlloted := Some (bp_nAmount p)\<rparr>)"
    using allot_loop_alloted [OF d] eq(1) by blast
  then show "\<exists>p. map_of ?props h = Some p \<and> map_of (mapProposals M') h = Some (p\<lparr>bp_nAlloted := Some (bp_nAmount p)\<rparr>)"
    using ok eq(2) by (auto simp: items_def props_ok_def omap_lookup)
qed

text \<open>C19:
  In every reachable manager \<open>GetBudget\<close> makes the greedy choice by votes. The chosen proposals are
  different, each is passing, they stand by falling net votes, each is allotted what it asks for, and
  together they ask for at most the budget of the cycle. And every passing proposal left out would
  have exceeded the budget beside the chosen ones that are not ranked behind it.\<close>

theorem GetBudget_greedy:
  assumes "budget_reachable Es M" "same_hashes Es" "bg_params E = Params net" "bg_tip E = Some tip"
    "GetBudget E M = (hs, M')"
  shows "let start = next_cycle E (int (nHeight (bg_store E tip)));
             proposal = (\<lambda>h. the (map_of (clean_proposals E M) h));
             amount = (\<lambda>h. bp_nAmount (proposal h));
             behind = (\<lambda>h h'. sortProposalsByVotes (h, proposal h) (h', proposal h'))
         in distinct hs \<and> (\<forall>h \<in> set hs. map_of (clean_proposals E M) h \<noteq> None \<and> passing E start (proposal h)) \<and>
            sorted_wrt (\<lambda>h h'. \<not> behind h' h) hs \<and>
            (\<forall>h \<in> set hs. map_of (mapProposals M') h = Some (proposal h\<lparr>bp_nAlloted := Some (amount h)\<rparr>)) \<and>
            sum_list (map amount hs) \<le> GetTotalBudget E start \<and>
            (\<forall>h. map_of (clean_proposals E M) h \<noteq> None \<and> passing E start (proposal h) \<and> h \<notin> set hs \<longrightarrow>
               GetTotalBudget E start < amount h + sum_list (map amount (filter (\<lambda>h'. \<not> behind h h') hs)))"
proof -
  define start where "start = next_cycle E (int (nHeight (bg_store E tip)))"
  define props where "props = clean_proposals E M"
  define proposal where "proposal = (\<lambda>h. the (map_of props h))"
  define items where "items = sort_by sortProposalsByVotes props"
  let ?ok = "\<lambda>(h :: hash256, p). passing E start p" and ?amt = "\<lambda>(h :: hash256, p). bp_nAmount p"
  define chosen where "chosen = greedy ?ok ?amt (GetTotalBudget E start) items 0"
  have M: "manager_ok Es M" by (rule budget_reachable_ok [OF assms(1,2)])
  note choice = GetBudget_choice [OF M assms(3-5), folded start_def props_def, folded items_def, folded chosen_def]
  have ok: "props_ok Es props" unfolding props_def by (rule clean_proposals_ok [OF M])
  have o: "omap props" using ok by (simp add: props_ok_def)
  have mem: "x \<in> set props \<Longrightarrow> proposal (fst x) = snd x" for x
    using o by (cases x) (simp add: proposal_def omap_lookup [symmetric])
  have items: "set items = set props" by (simp add: items_def)
  have sub: "x \<in> set chosen \<Longrightarrow> x \<in> set props \<and> ?ok x" for x
    using greedy_sub [of x ?ok ?amt] items by (auto simp: chosen_def)
  then have pair: "x \<in> set chosen \<Longrightarrow> (fst x, proposal (fst x)) = x" for x using mem by simp
  have amt: "map (\<lambda>h. bp_nAmount (proposal h)) (map fst xs) = map ?amt xs" if "set xs \<subseteq> set chosen" for xs
    using that pair by (force simp: case_prod_beta)
  have s: "sorted_wrt (\<lambda>x y. \<not> sortProposalsByVotes y x) items" unfolding items_def by (rule by_votes.sorted_sort_by)
  have "sorted_wrt (\<lambda>x y. \<not> sortProposalsByVotes y x) chosen" unfolding chosen_def by (rule greedy_sorted [OF s])
  then have "sorted_wrt (\<lambda>x y. \<not> sortProposalsByVotes (fst y, proposal (fst y)) (fst x, proposal (fst x))) chosen"
    by (rule sorted_wrt_mono_rel [rotated]) (simp add: pair)
  then have sorted: "sorted_wrt (\<lambda>h h'. \<not> sortProposalsByVotes (h', proposal h') (h, proposal h)) hs"
    unfolding choice(1) by (simp add: sorted_wrt_map)
  have "mset (map fst items) = mset (map fst props)" by (simp add: items_def mset_sort_by)
  then have "distinct (map fst items)" using omap_distinct [OF o] mset_eq_imp_distinct_iff by blast
  then have distinct: "distinct hs" unfolding choice(1) chosen_def by (rule greedy_distinct)
  have "0 + sum_list (map ?amt chosen) \<le> GetTotalBudget E start"
    unfolding chosen_def start_def by (rule greedy_sum [OF GetTotalBudget_next_cycle [OF assms(3,4)]])
  then have total: "sum_list (map (\<lambda>h. bp_nAmount (proposal h)) hs) \<le> GetTotalBudget E start"
    using amt [OF subset_refl] unfolding choice(1) by (simp only: add_0)
  have left: "GetTotalBudget E start < bp_nAmount (proposal h) +
      sum_list (map (\<lambda>h. bp_nAmount (proposal h)) (filter (\<lambda>h'. \<not> sortProposalsByVotes (h, proposal h) (h', proposal h')) hs))"
    if h: "map_of props h \<noteq> None" "passing E start (proposal h)" "h \<notin> set hs" for h
  proof -
    let ?x = "(h, proposal h)"
    from h(1) obtain p where "map_of props h = Some p" by blast
    then have x: "?x \<in> set items" using map_of_SomeD [of props h p] items by (simp add: proposal_def)
    have "?x \<notin> set chosen" using h(3) choice(1) by (metis fst_conv image_eqI set_map)
    moreover have "\<forall>x \<in> set items. 0 \<le> ?amt x" using ok items by (auto simp: props_ok_def proposal_ok_def COIN_def)
    ultimately have "GetTotalBudget E start < 0 + ?amt ?x + sum_list (map ?amt (filter (\<lambda>y. \<not> sortProposalsByVotes ?x y) chosen))"
      unfolding chosen_def using h(2) by (intro greedy_maximal [OF s _ x]) simp_all
    moreover have "filter (\<lambda>h'. \<not> sortProposalsByVotes ?x (h', proposal h')) hs =
        map fst (filter (\<lambda>y. \<not> sortProposalsByVotes ?x y) chosen)"
      unfolding choice(1) filter_map using pair by (auto intro!: arg_cong [where f = "map fst"] filter_cong)
    ultimately show ?thesis using amt [of "filter (\<lambda>y. \<not> sortProposalsByVotes ?x y) chosen"]
      by (simp only: add_0 filter_is_subset fst_conv snd_conv prod.case)
  qed
  have each: "map_of props h \<noteq> None \<and> passing E start (proposal h) \<and>
      map_of (mapProposals M') h = Some (proposal h\<lparr>bp_nAlloted := Some (bp_nAmount (proposal h))\<rparr>)" if "h \<in> set hs" for h
  proof -
    from that choice(1) have "h \<in> fst ` set chosen" by simp
    then obtain x where x: "x \<in> set chosen" "h = fst x" by blast
    then have "passing E start (proposal h)" using sub [OF x(1)] pair [OF x(1)] by (auto split: prod.splits)
    then show ?thesis using choice(2) [OF that] by (auto simp: proposal_def)
  qed
  show ?thesis unfolding Let_def start_def [symmetric] props_def [symmetric] proposal_def [symmetric]
    using distinct sorted total left each by blast
qed

section \<open>Votes\<close>

lemma GetYeas_card:
  assumes "omap (bp_mapVotes p)"
  shows "GetYeas p = int (card {k. \<exists>v. map_of (bp_mapVotes p) k = Some v \<and> bv_nVote v = VOTE_YES \<and> bv_fValid v})"
proof -
  let ?m = "filter (\<lambda>(_, v). bv_nVote v = VOTE_YES \<and> bv_fValid v) (bp_mapVotes p)"
  have "distinct (map fst ?m)" using omap_distinct [OF assms] by (rule distinct_map_filter)
  then have "length ?m = card (fst ` set ?m)" using distinct_card [of "map fst ?m"] by simp
  moreover have "fst ` set ?m = {k. \<exists>v. map_of (bp_mapVotes p) k = Some v \<and> bv_nVote v = VOTE_YES \<and> bv_fValid v}"
    by (force simp: omap_lookup [OF assms] image_iff)
  ultimately show ?thesis by (simp add: GetYeas_def)
qed

text \<open>C20:
  Every vote a reachable manager holds for a proposal has a valid signature of a masternode that was
  known when it came, is for this very proposal and stands under the outpoint of its masternode, so
  the yes votes of a proposal are those of as many masternodes. The same goes for finalized budgets,
  whose votes may also be this node's own.\<close>

theorem budget_votes_authentic:
  assumes "budget_reachable Es M" "same_hashes Es"
  shows "(\<forall>h p. map_of (mapProposals M) h = Some p \<longrightarrow>
       GetYeas p = int (card {k. \<exists>v. map_of (bp_mapVotes p) k = Some v \<and> bv_nVote v = VOTE_YES \<and> bv_fValid v}) \<and>
       (\<forall>k v. map_of (bp_mapVotes p) k = Some v \<longrightarrow> (\<exists>E \<in> Es. vote_SignatureValid E v True) \<and>
          bv_nProposalHash v = h \<and> (\<forall>E \<in> Es. k = hash_outpoint E (prevout (bv_vin v))))) \<and>
     (\<forall>h b. map_of (mapFinalizedBudgets M) h = Some b \<longrightarrow>
       GetVoteCount b = int (card (dom (map_of (fb_mapVotes b)))) \<and>
       (\<forall>k v. map_of (fb_mapVotes b) k = Some v \<longrightarrow>
          (\<exists>E \<in> Es. fin_vote_SignatureValid E v True \<or> bg_SignMessage E (fin_vote_message v) = Some (fv_vchSig v)) \<and>
          fv_nBudgetHash v = h \<and> (\<forall>E \<in> Es. k = hash_outpoint E (prevout (fv_vin v)))))"
proof -
  have M: "props_ok Es (mapProposals M)" "fins_ok Es (mapFinalizedBudgets M)"
    using budget_reachable_ok [OF assms] by (simp_all add: manager_ok_def)
  have count: "GetVoteCount b = int (card (dom (map_of (fb_mapVotes b))))" if "omap (fb_mapVotes b)" for b
    using distinct_card [OF omap_distinct [OF that]] by (simp add: GetVoteCount_def dom_map_of_conv_image_fst)
  show ?thesis
  proof (intro conjI allI impI)
    fix h p assume "map_of (mapProposals M) h = Some p"
    then have p: "proposal_ok Es h p" using M(1) by (rule props_ok_lookup [rotated])
    show "GetYeas p = int (card {k. \<exists>v. map_of (bp_mapVotes p) k = Some v \<and> bv_nVote v = VOTE_YES \<and> bv_fValid v})"
      using p by (intro GetYeas_card) (simp add: proposal_ok_def)
    fix k v assume "map_of (bp_mapVotes p) k = Some v"
    then have v: "vote_ok Es h k v" using p by (auto simp: proposal_ok_def dest: map_of_SomeD)
    show "\<exists>E \<in> Es. vote_SignatureValid E v True" "bv_nProposalHash v = h"
      using v by (simp_all add: vote_ok_def authentic_def)
    show "\<forall>E \<in> Es. k = hash_outpoint E (prevout (bv_vin v))" using v by (simp add: vote_ok_def)
  next
    fix h b assume "map_of (mapFinalizedBudgets M) h = Some b"
    then have b: "finalized_ok Es h b" using M(2) by (rule fins_ok_lookup [rotated])
    show "GetVoteCount b = int (card (dom (map_of (fb_mapVotes b))))" using b by (intro count) (simp add: finalized_ok_def)
    fix k v assume "map_of (fb_mapVotes b) k = Some v"
    then have v: "fin_vote_ok Es h k v" using b by (auto simp: finalized_ok_def dest: map_of_SomeD)
    show "\<exists>E \<in> Es. fin_vote_SignatureValid E v True \<or> bg_SignMessage E (fin_vote_message v) = Some (fv_vchSig v)"
      using v by (simp add: fin_vote_ok_def fin_authentic_def)
    show "fv_nBudgetHash v = h" "\<forall>E \<in> Es. k = hash_outpoint E (prevout (fv_vin v))" using v by (simp_all add: fin_vote_ok_def)
  qed
qed

section \<open>A run\<close>

text \<open>
  A test network with five masternodes, whose signatures all verify: a proposal arrives, a vote for it,
  a finalized budget that pays it, and a vote for that.
\<close>

definition budget_demo_env :: budget_env where
  "budget_demo_env =
     \<lparr>bg_params = test_params, bg_store = (\<lambda>_. demo_block 0 None None 0), bg_mapBlockIndex = (\<lambda>_. None),
      bg_chain = [Some 0], bg_CountEnabled = 5, bg_Find = (\<lambda>_. Some []), bg_VerifyMessage = (\<lambda>_ _ _. True),
      bg_SignMessage = (\<lambda>_. Some []), bg_activeVin = \<lparr>prevout = \<lparr>op_hash = 1, op_n = 0\<rparr>, scriptSig = [], nSequence = 0\<rparr>,
      bg_GetTransaction = (\<lambda>_. Some (\<lparr>txid = 5, tx_nVersion = 1, vin = [],
         vout = [\<lparr>nValue = 50 * COIN, scriptPubKey = collateral_script 7, nRounds = 0\<rparr>,
                 \<lparr>nValue = 50 * COIN, scriptPubKey = collateral_script 9, nRounds = 0\<rparr>], nLockTime = 0\<rparr>, 0)),
      bg_GetIXConfirmations = (\<lambda>_. 10), bg_MakeCollateral = (\<lambda>_. None), bg_GetTime = 1000000,
      bg_GetAdjustedTime = 1000000, bg_IsSynced = True, bg_IsBlockchainSynced = True, bg_assetsRequested = True,
      bg_fLiteMode = False, bg_fMasterNode = False, bg_strBudgetMode = [], bg_peers = 0, bg_rand = (\<lambda>_. 0),
      hash_outpoint = op_hash, hash_vote = (\<lambda>_. 3), hash_fin_vote = (\<lambda>_. 4), hash_proposal = (\<lambda>_. 7),
      hash_finalized = (\<lambda>_. 9)\<rparr>"

definition demo_proposal :: CBudgetProposal where
  "demo_proposal =
     \<lparr>bp_nAlloted = None, bp_fValid = True, strProposalName = ''a'', strURL = ''b'', bp_nBlockStart = 144,
      bp_nBlockEnd = 300, bp_nAmount = 100 * COIN, bp_address = [1], bp_nTime = 0, bp_nFeeTXHash = 5, bp_mapVotes = []\<rparr>"

definition demo_vin :: CTxIn where
  "demo_vin = \<lparr>prevout = \<lparr>op_hash = 11, op_n = 0\<rparr>, scriptSig = [], nSequence = 0\<rparr>"

definition demo_vote :: CBudgetVote where
  "demo_vote = \<lparr>bv_fValid = True, bv_fSynced = False, bv_vin = demo_vin, bv_nProposalHash = 7, bv_nVote = VOTE_YES,
     bv_nTime = 1000, bv_vchSig = []\<rparr>"

lemmas budget_demo_defs = budget_demo_env_def demo_proposal_def demo_vote_def demo_vin_def COIN_def demo_block_def

lemma unspendable_collateral [simp]: "IsUnspendable (collateral_script h)"
  by (simp add: collateral_script_def push_data_def IsUnspendable_def Let_def)

lemma demo_collateral [simp]:
  "IsBudgetCollateralValid budget_demo_env f 7 t False = (Inr (), t, 10)"
  "IsBudgetCollateralValid budget_demo_env f 9 t True = (Inr (), t, 10)"
  by (simp_all add: IsBudgetCollateralValid_def budget_demo_env_def collateral_block_def collateral_conf_def
      BUDGET_FEE_TX_def PROPOSAL_FEE_TX_def test_params_def COIN_def)

definition demo_manager1 :: CBudgetManager where
  "demo_manager1 = empty_manager
     \<lparr>mapProposals := [(7, demo_proposal)], mapSeenMasternodeBudgetProposals := [(7, demo_proposal)]\<rparr>"

definition demo_manager2 :: CBudgetManager where
  "demo_manager2 = demo_manager1
     \<lparr>mapProposals := [(7, demo_proposal\<lparr>bp_mapVotes := [(11, demo_vote)]\<rparr>)], mapSeenMasternodeBudgetVotes := [(3, demo_vote)]\<rparr>"

lemma demo_total_budget [simp]: "GetTotalBudget budget_demo_env 144 = 2160000000000"
proof -
  have "signed_take_bit 63 (2160000000000 :: int) = 2160000000000" by code_simp
  then show ?thesis by (simp add: GetTotalBudget_def budget_demo_env_def chain_tip_def test_params_def COIN_def)
qed

lemma demo_not_ended [simp]: "\<not> proposal_ended budget_demo_env (p\<lparr>bp_nTime := t\<rparr>) 0" if "bp_nBlockStart p = 144" "bp_nBlockEnd p = 300"
proof -
  have w: "wrap32 156 = 156" "wrap32 288 = 288" "(144 :: int) smod 144 = 0" "(156 :: int) sdiv 144 = 1" by code_simp+
  show ?thesis using that w
    by (simp add: proposal_ended_def GetTotalPaymentCount_def GetBlockEndCycle_def GetBlockStartCycle_def budget_demo_env_def
        test_params_def demo_block_def)
qed

lemma demo_IsValid: "proposal_IsValid budget_demo_env demo_proposal True = (Inr (), demo_proposal)"
proof -
  have "\<not> proposal_ended budget_demo_env (demo_proposal\<lparr>bp_nTime := 0\<rparr>) 0" by (rule demo_not_ended) (simp_all add: demo_proposal_def)
  then have e: "\<not> proposal_ended budget_demo_env demo_proposal 0" by (simp add: demo_proposal_def)
  have t: "bg_tip budget_demo_env = Some 0" "proposal_GetHash budget_demo_env p = 7" "bg_CountEnabled budget_demo_env = 5" for p
    by (simp_all add: chain_tip_def proposal_GetHash_def budget_demo_env_def)
  have p: "GetNays demo_proposal = 0" "GetYeas demo_proposal = 0" "bp_nBlockStart demo_proposal = 144" "bp_nBlockEnd demo_proposal = 300"
    "bp_nAmount demo_proposal = 10000000000" "bp_address demo_proposal = [1]" "demo_proposal\<lparr>bp_nTime := bp_nTime demo_proposal\<rparr> = demo_proposal"
    by (simp_all add: demo_proposal_def GetNays_def GetYeas_def COIN_def)
  show ?thesis by (simp add: proposal_IsValid_def t p e COIN_def IsPayToScriptHash_def)
qed

lemma demo_mprop:
  "budget_ProcessMessage budget_demo_env False (mprop demo_proposal) empty_manager =
     (False, demo_manager1, [RelayInv MSG_BUDGET_PROPOSAL 7, AddedBudgetItem 7])"
proof -
  have e: "bg_fLiteMode budget_demo_env = False" "bg_IsBlockchainSynced budget_demo_env = True"
    "proposal_GetHash budget_demo_env p = 7" for p
    by (simp_all add: proposal_GetHash_def budget_demo_env_def)
  have p: "received_proposal demo_proposal = demo_proposal" "length (strProposalName demo_proposal) = 1"
    "length (strURL demo_proposal) = 1" "demo_proposal\<lparr>bp_nTime := bp_nTime demo_proposal\<rparr> = demo_proposal"
    "copy_proposal demo_proposal = demo_proposal"
    by (simp_all add: demo_proposal_def received_proposal_def copy_proposal_def)
  show ?thesis
    by (simp add: process_mprop_def e p demo_IsValid AddProposal_def omap_insert_new_def empty_manager_def demo_manager1_def
        CheckOrphanVotes_def)
qed

lemma demo_mvote:
  "budget_ProcessMessage budget_demo_env False (mvote demo_vote) demo_manager1 =
     (False, demo_manager2, [RelayInv MSG_BUDGET_VOTE 3, AddedBudgetItem 3])"
proof -
  have e: "bg_fLiteMode budget_demo_env = False" "bg_IsBlockchainSynced budget_demo_env = True"
    "vote_GetHash budget_demo_env v = 3" "bg_Find budget_demo_env out = Some []" "vote_SignatureValid budget_demo_env v True"
    "bg_GetTime budget_demo_env = 1000000" "hash_outpoint budget_demo_env out = op_hash out" for v out
    by (simp_all add: vote_GetHash_def vote_SignatureValid_def budget_demo_env_def)
  have v: "demo_vote\<lparr>bv_fValid := True, bv_fSynced := False\<rparr> = demo_vote" "bv_nProposalHash demo_vote = 7"
    "op_hash (prevout (bv_vin demo_vote)) = 11" "bv_nTime demo_vote = 1000"
    by (simp_all add: demo_vote_def demo_vin_def)
  have m: "map_of (mapProposals demo_manager1) 7 = Some demo_proposal" "map_of (bp_mapVotes demo_proposal) 11 = None"
    "bp_mapVotes demo_proposal = []" "mapSeenMasternodeBudgetVotes demo_manager1 = []"
    by (simp_all add: demo_manager1_def empty_manager_def demo_proposal_def)
  show ?thesis
    by (simp add: process_mvote_def e v m UpdateProposal_def proposal_AddOrUpdateVote_def omap_insert_new_def Let_def
        demo_manager1_def demo_manager2_def empty_manager_def)
qed

lemma demo_same_hashes: "same_hashes {budget_demo_env}" by (simp add: same_hashes_def)

lemma demo_reachable: "budget_reachable {budget_demo_env} demo_manager2"
proof -
  have "budget_reachable {budget_demo_env} demo_manager1" by (rule reach_message [OF reach_empty _ demo_mprop]) simp
  then show ?thesis by (rule reach_message [OF _ _ demo_mvote]) simp
qed

theorem budget_votes_authentic_witness:
  "\<exists>v. map_of (bp_mapVotes (demo_proposal\<lparr>bp_mapVotes := [(11, demo_vote)]\<rparr>)) 11 = Some v \<and>
     (\<exists>E \<in> {budget_demo_env}. vote_SignatureValid E v True) \<and> bv_nProposalHash v = 7"
proof (intro exI conjI)
  have p: "map_of (mapProposals demo_manager2) 7 = Some (demo_proposal\<lparr>bp_mapVotes := [(11, demo_vote)]\<rparr>)"
    by (simp add: demo_manager2_def)
  show v: "map_of (bp_mapVotes (demo_proposal\<lparr>bp_mapVotes := [(11, demo_vote)]\<rparr>)) 11 = Some demo_vote" by simp
  note * = conjunct1 [OF budget_votes_authentic [OF demo_reachable demo_same_hashes], rule_format, OF p, THEN conjunct2,
    rule_format, OF v]
  show "\<exists>E \<in> {budget_demo_env}. vote_SignatureValid E demo_vote True" by (rule * [THEN conjunct1])
  show "bv_nProposalHash demo_vote = 7" by (rule * [THEN conjunct2, THEN conjunct1])
qed

lemma demo_clean: "clean_proposals budget_demo_env demo_manager2 = mapProposals demo_manager2"
  by (simp add: clean_proposals_def demo_manager2_def map_vals_def proposal_CleanAndRemove_def vote_SignatureValid_def
      budget_demo_env_def demo_vote_def)

lemma demo_budget: "fst (GetBudget budget_demo_env demo_manager2) = [7]"
proof -
  let ?p = "demo_proposal\<lparr>bp_mapVotes := [(11, demo_vote)]\<rparr>"
  have e: "bg_tip budget_demo_env = Some 0" "next_cycle budget_demo_env (int (nHeight (bg_store budget_demo_env 0))) = 144"
    "bg_CountEnabled budget_demo_env = 5" "cycle_blocks budget_demo_env = 144"
    by (simp_all add: chain_tip_def next_cycle_def budget_demo_env_def test_params_def demo_block_def)
  have p: "clean_proposals budget_demo_env demo_manager2 = [(7, ?p)]" by (simp add: demo_clean) (simp add: demo_manager2_def)
  have "passing budget_demo_env 144 ?p"
    by (simp add: IsPassing_def e GetYeas_def GetNays_def IsEstablished_def demo_proposal_def demo_vote_def VOTE_YES_def VOTE_NO_def)
      (simp add: budget_demo_env_def test_params_def)
  moreover have "add64 (bp_nAmount ?p) 0 \<le> 2160000000000"
  proof -
    have "signed_take_bit 63 (10000000000 :: int) = 10000000000" by code_simp
    then show ?thesis by (simp add: add64_def demo_proposal_def COIN_def)
  qed
  ultimately show ?thesis
    using p e by (simp add: GetBudget_def Let_def clean_proposals_def [symmetric] sort_by_def allot_loop.simps)
qed

theorem GetBudget_greedy_witness:
  "sum_list (map (\<lambda>h. bp_nAmount (the (map_of (clean_proposals budget_demo_env demo_manager2) h))) [7]) \<le> GetTotalBudget budget_demo_env 144"
proof -
  obtain M' where g: "GetBudget budget_demo_env demo_manager2 = ([7], M')" using demo_budget by (metis prod.collapse)
  have e: "bg_params budget_demo_env = Params TESTNET" "bg_tip budget_demo_env = Some 0"
    "next_cycle budget_demo_env (int (nHeight (bg_store budget_demo_env 0))) = 144"
    by (simp_all add: budget_demo_env_def chain_tip_def next_cycle_def test_params_def demo_block_def)
  show ?thesis using GetBudget_greedy [OF demo_reachable demo_same_hashes e(1,2) g] unfolding Let_def e(3) by blast
qed

end
