(* ===== verification/Spec2Isabelle.thy ===== *)
theory Spec2Isabelle
  imports Pow Compressor ScriptSpec Rejected KernelProps Activation Bloom BudgetChoice
begin

text \<open>
  Agrarian is a node of a hybrid proof-of-work and proof-of-stake coin (a descendant of Bitcoin, Dash
  and PIVX). This development models its validation core, the C++ code under \<open>src/src\<close> that decides which
  transactions, blocks and chains are valid and what they do to the coins, and proves what makes it
  correct, and where it is not, what it does instead.

  The parts and how they interact.
  A block arrives as header and transactions. \<open>CheckBlock\<close> looks at what needs no context,
  \<open>AddToBlockIndex\<close> enters the header in the tree of known blocks and \<open>ReceivedBlockTransactions\<close> makes the
  block a candidate for the tip once all its ancestors have their transactions. \<open>ActivateBestChain\<close> picks
  the candidate with the most work, disconnects the active chain down to the fork and connects the new
  blocks. \<open>ConnectBlock\<close> runs the scripts of every input against the unspent outputs in a cache over the
  tip's cache over the database, and writes the undo record with which \<open>DisconnectBlock\<close> goes back.
  Loose transactions wait in the memory pool, which \<open>AcceptToMemoryPool\<close> fills and each new tip cleans.
  The right to make a block comes from a hash below a target, \<open>pow.cpp\<close>, or from a staked coin whose
  kernel hash is, \<open>kernel.cpp\<close>.

  Theories, from the bottom up.
  \<^item> \<open>Prelude\<close>: machine integers, shared facts on lists, words and options.
  \<^item> \<open>Uint256\<close>, \<open>UintForms\<close>, \<open>UintArith\<close> (\<open>uint256.h\<close>, \<open>uint256.cpp\<close>): a number is its list of 32-bit limbs, as
    the template class has it; \<open>bu_val\<close> reads it. Every operator computes modulo \<open>2 ^ (32 * limbs)\<close>; the
    compact form and the hexadecimal strings read back. \<open>UintArith\<close> states as the locale \<open>uint_arith\<close> what
    the chain code relies on, and interprets it at 256 bits.
  \<^item> \<open>ChainParams\<close>, \<open>BlockIndex\<close>, \<open>Chain\<close> (\<open>chainparams.cpp\<close>, \<open>chain.h\<close>, \<open>chain.cpp\<close>): the networks' constants;
    the block tree as a store from addresses (\<open>ptr\<close>) to records, with the skip list; the active chain as
    the vector by height. \<open>wf_tree\<close> and \<open>chain_ok\<close> are the invariants, \<open>climb\<close> the naive walk to which the
    skip list is equal.
  \<^item> \<open>Pow\<close> (\<open>pow.cpp\<close>): targets, their limits, work.
  \<^item> \<open>Script\<close>, \<open>ScriptNum\<close>, \<open>Interpreter\<close>, \<open>InterpreterProps\<close>, \<open>ScriptSpec\<close>, \<open>Standard\<close> (\<open>script/\<close>): scripts as byte lists,
    the interpreter as a step function on stack, alternative stack, conditions and position with one branch
    per opcode and per \<open>ScriptError\<close>, and the standard outputs. Hashes, signature checks and the
    lock-time test are fields of \<open>script_env\<close>.
  \<^item> \<open>Compressor\<close> (\<open>compressor.cpp\<close>): stored forms of amounts and scripts.
  \<^item> \<open>Transaction\<close>, \<open>TxCheck\<close>, \<open>Block\<close>, \<open>BlockCheck\<close> (\<open>primitives/\<close>, \<open>main.cpp\<close>): data and the checks without
    coins; Merkle trees.
  \<^item> \<open>Coins\<close>, \<open>CoinsView\<close> (\<open>coins.h\<close>, \<open>coins.cpp\<close>, \<open>txdb.cpp\<close>): unspent outputs, the locale of a view, the
    database and the cache as its instances; \<open>Flush\<close> refines the overwriting of a map.
  \<^item> \<open>Connect\<close>, \<open>ConnectBlock\<close> (\<open>main.cpp\<close>): inputs, coin updates, the loop over a block, connecting and
    disconnecting. \<open>ConnectSpec\<close>, \<open>Utxo\<close>, \<open>Ledger\<close>, \<open>Supply\<close>, \<open>NoInflation\<close>, \<open>Inflation\<close>, \<open>Reorg\<close> and \<open>Rejected\<close> hold
    their specifications: the caches refine a map from outpoints to outputs, a block is a run of an
    abstract ledger, its money is bounded by the subsidy, disconnecting undoes connecting, and a rejected
    block leaves no trace.
  \<^item> \<open>Kernel\<close>, \<open>KernelProps\<close> (\<open>kernel.cpp\<close>, \<open>stakeinput.cpp\<close>): stake modifiers, kernel target, proof of stake.
  \<^item> \<open>Mempool\<close>, \<open>MempoolProps\<close>, \<open>Accept\<close>, \<open>AcceptProps\<close> (\<open>txmempool.cpp\<close>, \<open>main.cpp\<close>): the pool with its maps as
    ordered association lists, its invariant over every reachable pool, and acceptance.
  \<^item> \<open>ChainState\<close>, \<open>ChainStateProps\<close>, \<open>Activate\<close>, \<open>ActivateProps\<close>, \<open>Activation\<close> (\<open>main.cpp\<close>): the globals of the
    block index, the node as a record of index, coins, pool and undo data, and the choice and activation
    of the best chain, invalidation and reconsideration.
  \<^item> \<open>MerkleBlock\<close>, \<open>Bloom\<close> (\<open>merkleblock.cpp\<close>, \<open>bloom.cpp\<close>, \<open>hash.cpp\<close>): the partial Merkle tree a light client
    gets, the Bloom filter that selects its transactions, and MurmurHash3. The constructor of a filter
    (logarithms in floating point) is left out: theorems take any filter a peer can send.
  \<^item> \<open>Budget\<close>, \<open>BudgetManager\<close>, \<open>BudgetProps\<close>, \<open>BudgetChoice\<close> (\<open>masternode-budget.cpp\<close>): the votes of masternodes
    on proposals and finalized budgets, the manager that keeps them and its message handlers, what holds of
    every reachable manager, and the choice of the proposals a cycle pays. \<open>GetRatio\<close> (floating point), the
    file \<open>budget.dat\<close> and the log are left out; \<open>std::sort\<close> is a stable sort.

  Conventions. A failed \<open>assert\<close>, a NULL dereference or a throw that leaves the function is \<open>None\<close>; a rejected
  input is \<open>Inl (score, reason)\<close> with the arguments of \<open>CValidationState::DoS\<close>. Amounts are \<open>int\<close> with the
  64-bit wrap of \<open>add64\<close> written out, other integers are words of their width. Ordered maps are association
  lists in key order where the order shows, functions where it does not. What is not under \<open>src\<close>, or is
  cryptography, a clock, a disk or another subsystem, is a field of an environment record
  (\<open>script_env\<close>, \<open>block_env\<close>, \<open>connect_env\<close>, \<open>kernel_env\<close>, \<open>accept_env\<close>, \<open>node_env\<close>, \<open>budget_env\<close>), and every theorem holds for
  all of them unless it says otherwise.

  Bounds and fuel. No definition takes fuel. Loops whose end depends on the data are \<open>partial_function\<close>s
  with \<open>None\<close> for a run that does not end, and the properties about them prove the result is \<open>Some\<close>:
  the walks over the tree end by height in a \<open>wf_tree\<close>, the search for the best chain by the number of
  candidates, and \<open>ActivateBestChain\<close> by the number of sound blocks and then of better ones.

  Not modelled. Zerocoin (big-number cryptography of a vendored library; its checks are parameters),
  the masternode list, masternode payments and sporks (parameters of the block checks), the wallet, the network, RPC, the
  user interface, the databases and block files below the maps they store, start-up code, and of the
  modelled files what only logs, warns, signals or collects statistics: fork warnings, fee estimation and
  priorities (floating point), self-checks for debugging. \<open>IsInitialBlockDownload\<close>, which latches, is a
  fixed flag. Locks and threads are left out: all modelled operations run under \<open>cs_main\<close>.
\<close>

end
